(* ===== verification/Go_Base.thy ===== *)
theory Go_Base
  imports Main "HOL-Library.Multiset" "HOL-Library.Sublist" "HOL-Library.List_Lexorder"
    "HOL-Library.Char_ord"
begin

text \<open>
  Prelude of the development: the Go values the modelled code computes with.
  \<^item> strings are byte lists (\<open>string\<close>), as in Go; \<open>trim_space\<close> is \<^verbatim>\<open>strings.TrimSpace\<close> with
    the complete Unicode white-space table in its UTF-8 form; \<open>itoa\<close> and \<open>parse_int64\<close> are
    \<^verbatim>\<open>strconv.FormatInt\<close> and \<^verbatim>\<open>strconv.ParseInt(s, 10, 64)\<close>; \<open>split_on\<close> is
    \<^verbatim>\<open>strings.Split\<close> with a one-byte separator;
  \<^item> an \<^verbatim>\<open>int\<close> or \<^verbatim>\<open>int64\<close> whose arithmetic can leave its range is passed through \<open>wrap64\<close>;
  \<^item> instants (\<^verbatim>\<open>time.Time\<close>) and durations are integers in nanoseconds, an instant counted from
    Go's zero time, so that \<^verbatim>\<open>t.IsZero()\<close> is \<open>t = 0\<close>;
  \<^item> the interface of a comparison function given to \<^verbatim>\<open>sort.SliceStable\<close> or \<^verbatim>\<open>sort.Slice\<close> is the
    locale \<open>weak_less\<close>; the facts about sorting are proved there once.
\<close>

named_theorems go_simps \<open>unfolding rules of the Go primitives\<close>

type_synonym instant = int
type_synonym duration = int

text \<open>
  What a caller sees of a request to a remote store: served, lost before it had an effect, or
  applied although an error was returned.
\<close>

datatype fault = Served | Lost | Unconfirmed

section \<open>Integers of 64 bits\<close>

definition wrap64 :: "int \<Rightarrow> int" where
  "wrap64 x = (x + 2 ^ 63) mod 2 ^ 64 - 2 ^ 63"

definition int64 :: "int \<Rightarrow> bool" where
  "int64 x \<longleftrightarrow> - (2 ^ 63) \<le> x \<and> x < 2 ^ 63"

lemma wrap64_id [simp]: "int64 x \<Longrightarrow> wrap64 x = x"
  by (simp add: wrap64_def int64_def)

lemma int64_wrap64 [simp]: "int64 (wrap64 x)"
  by (simp add: wrap64_def int64_def)

lemma wrap64_small [simp]: "0 \<le> x \<Longrightarrow> x < 2 ^ 63 \<Longrightarrow> wrap64 x = x"
  by (simp add: wrap64_def)

text \<open>Durations of whole seconds and milliseconds.\<close>

definition second :: duration where
  "second = 1000000000"

definition millisecond :: duration where
  "millisecond = 1000000"

definition minute :: duration where
  "minute = 60 * second"

definition hour :: duration where
  "hour = 60 * minute"

lemmas duration_defs [go_simps] = second_def millisecond_def minute_def hour_def

text \<open>Go's integer division truncates towards zero.\<close>

definition quot64 :: "int \<Rightarrow> int \<Rightarrow> int" where
  "quot64 a b = sgn a * sgn b * (\<bar>a\<bar> div \<bar>b\<bar>)"

definition rem64 :: "int \<Rightarrow> int \<Rightarrow> int" where
  "rem64 a b = a - b * quot64 a b"

lemma quot64_nonneg: "0 \<le> a \<Longrightarrow> 0 < b \<Longrightarrow> quot64 a b = a div b"
  by (cases "a = 0") (auto simp: quot64_def)

lemma rem64_nonneg: "0 \<le> a \<Longrightarrow> 0 < b \<Longrightarrow> rem64 a b = a mod b"
  by (simp add: rem64_def quot64_nonneg minus_mult_div_eq_mod)

section \<open>Strings\<close>

text \<open>Length in bytes of the white-space character a string starts with, 0 if there is none.\<close>

definition space1 :: "char list" where
  "space1 = [CHR 0x09, CHR 0x0A, CHR 0x0B, CHR 0x0C, CHR 0x0D, CHR 0x20]"

definition space2 :: "string list" where
  "space2 = [[CHR 0xC2, CHR 0x85], [CHR 0xC2, CHR 0xA0]]"

definition space3 :: "string list" where
  "space3 = [[CHR 0xE1, CHR 0x9A, CHR 0x80],
    [CHR 0xE2, CHR 0x80, CHR 0x80], [CHR 0xE2, CHR 0x80, CHR 0x81], [CHR 0xE2, CHR 0x80, CHR 0x82],
    [CHR 0xE2, CHR 0x80, CHR 0x83], [CHR 0xE2, CHR 0x80, CHR 0x84], [CHR 0xE2, CHR 0x80, CHR 0x85],
    [CHR 0xE2, CHR 0x80, CHR 0x86], [CHR 0xE2, CHR 0x80, CHR 0x87], [CHR 0xE2, CHR 0x80, CHR 0x88],
    [CHR 0xE2, CHR 0x80, CHR 0x89], [CHR 0xE2, CHR 0x80, CHR 0x8A], [CHR 0xE2, CHR 0x80, CHR 0xA8],
    [CHR 0xE2, CHR 0x80, CHR 0xA9], [CHR 0xE2, CHR 0x80, CHR 0xAF], [CHR 0xE2, CHR 0x81, CHR 0x9F],
    [CHR 0xE3, CHR 0x80, CHR 0x80]]"

definition space_head :: "string \<Rightarrow> nat" where
  "space_head s =
     (if s = [] then 0
      else if hd s \<in> set space1 then 1
      else if take 2 s \<in> set space2 then 2
      else if take 3 s \<in> set space3 then 3
      else 0)"

definition space_last :: "string \<Rightarrow> nat" where
  "space_last s =
     (if s = [] then 0
      else if last s \<in> set space1 then 1
      else if drop (length s - 2) s \<in> set space2 then 2
      else if drop (length s - 3) s \<in> set space3 then 3
      else 0)"

lemma space_head_le: "space_head s \<le> length s"
proof -
  have "take 2 s \<in> set space2 \<Longrightarrow> 2 \<le> length s"
    by (cases s; cases "tl s") (auto simp: space2_def)
  moreover have "take 3 s \<in> set space3 \<Longrightarrow> 3 \<le> length s"
    by (rule ccontr) (auto simp: space3_def)
  ultimately show ?thesis
    by (auto simp: space_head_def Suc_le_eq)
qed

function trim_left :: "string \<Rightarrow> string" where
  "trim_left s = (if space_head s = 0 then s else trim_left (drop (space_head s) s))"
  by pat_completeness auto
termination
proof (relation "measure length", goal_cases)
  case (2 s)
  then have "s \<noteq> []" by (auto simp: space_head_def)
  with 2 show ?case by simp
qed simp

function trim_right :: "string \<Rightarrow> string" where
  "trim_right s = (if space_last s = 0 then s else trim_right (take (length s - space_last s) s))"
  by pat_completeness auto
termination
proof (relation "measure length", goal_cases)
  case (2 s)
  then have "s \<noteq> []" by (auto simp: space_last_def)
  with 2 show ?case by simp
qed simp

declare trim_left.simps [simp del] trim_right.simps [simp del]

definition trim_space :: "string \<Rightarrow> string" where
  "trim_space s = trim_right (trim_left s)"

text \<open>Trimming only removes bytes at the ends.\<close>

lemma suffix_trim_left: "suffix (trim_left s) s"
proof (induction s rule: trim_left.induct)
  case (1 s)
  show ?case
  proof (cases "space_head s = 0")
    case False
    with 1 have "suffix (trim_left (drop (space_head s) s)) s"
      using suffix_drop suffix_order.trans by blast
    with False show ?thesis by (simp add: trim_left.simps [of s])
  qed (simp add: trim_left.simps [of s])
qed

lemma prefix_trim_right: "prefix (trim_right s) s"
proof (induction s rule: trim_right.induct)
  case (1 s)
  show ?case
  proof (cases "space_last s = 0")
    case False
    with 1 have "prefix (trim_right (take (length s - space_last s) s)) s"
      using take_is_prefix prefix_order.trans by blast
    with False show ?thesis by (simp add: trim_right.simps [of s])
  qed (simp add: trim_right.simps [of s])
qed

lemma sublist_trim_space: "sublist (trim_space s) s"
  unfolding trim_space_def
  by (meson suffix_trim_left prefix_trim_right prefix_imp_sublist suffix_imp_sublist
      sublist_altdef sublist_order.order_trans)

lemma length_trim_space: "length (trim_space s) \<le> length s"
  using sublist_trim_space sublist_length_le by blast

lemma set_trim_space: "set (trim_space s) \<subseteq> set s"
  using sublist_trim_space set_mono_sublist by blast

text \<open>A string without white-space bytes at its ends is left alone.\<close>

lemma trim_space_id:
  assumes "space_head s = 0" and "space_last s = 0"
  shows "trim_space s = s"
  using assms by (simp add: trim_space_def trim_left.simps [of s] trim_right.simps [of s])

lemma space_last_trim_right: "space_last (trim_right s) = 0"
proof (induction s rule: trim_right.induct)
  case (1 s)
  then show ?case by (cases "space_last s = 0") (simp_all add: trim_right.simps [of s])
qed

text \<open>A visible ASCII character is not the start or the end of white space.\<close>

definition visible :: "char \<Rightarrow> bool" where
  "visible c \<longleftrightarrow> (33 :: nat) \<le> of_char c \<and> (of_char c :: nat) \<le> 126"

lemma space_not_visible:
  "list_all (\<lambda>c. \<not> visible c) space1"
  "list_all (list_ex (\<lambda>c. \<not> visible c)) space2"
  "list_all (list_ex (\<lambda>c. \<not> visible c)) space3"
  by code_simp+

lemma space_free_ascii:
  assumes "\<forall>c \<in> set s. visible c"
  shows "space_head s = 0" and "space_last s = 0"
proof -
  have no1: "c \<notin> set space1" if "c \<in> set s" for c
    using assms that space_not_visible(1) by (auto simp: list_all_iff)
  have no2: "t \<notin> set space2" if "set t \<subseteq> set s" for t
    using assms that space_not_visible(2) unfolding list_all_iff list_ex_iff by blast
  have no3: "t \<notin> set space3" if "set t \<subseteq> set s" for t
    using assms that space_not_visible(3) unfolding list_all_iff list_ex_iff by blast
  show "space_head s = 0"
    using no1 [OF hd_in_set] no2 [OF set_take_subset] no3 [OF set_take_subset]
    by (simp add: space_head_def)
  show "space_last s = 0"
    using no1 [OF last_in_set] no2 [OF set_drop_subset] no3 [OF set_drop_subset]
    by (simp add: space_last_def)
qed

lemma trim_space_visible: "\<forall>c \<in> set s. visible c \<Longrightarrow> trim_space s = s"
  by (intro trim_space_id space_free_ascii)

section \<open>Decimal numbers\<close>

text \<open>\<^verbatim>\<open>strconv.FormatInt(i, 10)\<close>, which \<^verbatim>\<open>%d\<close> and \<^verbatim>\<open>strconv.Itoa\<close> share.\<close>

definition digit :: "nat \<Rightarrow> char" where
  "digit n = char_of (48 + n)"

fun nat_digits :: "nat \<Rightarrow> string" where
  "nat_digits n = (if n < 10 then [digit n] else nat_digits (n div 10) @ [digit (n mod 10)])"

declare nat_digits.simps [simp del]

definition itoa :: "int \<Rightarrow> string" where
  "itoa i = (if i < 0 then CHR ''-'' # nat_digits (nat (- i)) else nat_digits (nat i))"

definition is_digit :: "char \<Rightarrow> bool" where
  "is_digit c \<longleftrightarrow> (48 :: nat) \<le> of_char c \<and> (of_char c :: nat) \<le> 57"

fun digits_value :: "nat \<Rightarrow> string \<Rightarrow> nat" where
  "digits_value acc [] = acc"
| "digits_value acc (c # cs) = digits_value (10 * acc + (of_char c - 48)) cs"

text \<open>
  \<^verbatim>\<open>strconv.ParseInt(s, 10, 64)\<close> (and \<^verbatim>\<open>strconv.Atoi\<close>): an optional sign, then decimal digits
  only, then the range check; \<open>None\<close> stands for the error return.
\<close>

definition parse_digits :: "string \<Rightarrow> nat option" where
  "parse_digits s = (if s \<noteq> [] \<and> list_all is_digit s then Some (digits_value 0 s) else None)"

definition parse_int64 :: "string \<Rightarrow> int option" where
  "parse_int64 s =
     (let neg = (s \<noteq> [] \<and> hd s = CHR ''-'');
          body = (if s \<noteq> [] \<and> (hd s = CHR ''-'' \<or> hd s = CHR ''+'') then tl s else s)
      in case parse_digits body of
           None \<Rightarrow> None
         | Some n \<Rightarrow>
             (let i = (if neg then - int n else int n) in if int64 i then Some i else None))"

lemma of_char_digit [simp]: "n < 10 \<Longrightarrow> of_char (digit n) = 48 + n"
  by (simp add: digit_def)

lemma is_digit_digit [simp]: "n < 10 \<Longrightarrow> is_digit (digit n)"
  by (simp add: is_digit_def)

lemma nat_digits_nonempty [simp]: "nat_digits n \<noteq> []"
  by (subst nat_digits.simps) simp

lemma nat_digits_are_digits: "list_all is_digit (nat_digits n)"
proof (induction n rule: nat_digits.induct)
  case (1 n)
  then show ?case by (subst nat_digits.simps) simp
qed

lemma digits_value_append:
  "digits_value acc (s @ [c]) = 10 * digits_value acc s + (of_char c - 48)"
  by (induction s arbitrary: acc) auto

lemma digits_value_nat_digits [simp]: "digits_value 0 (nat_digits n) = n"
proof (induction n rule: nat_digits.induct)
  case (1 n)
  then show ?case
    by (cases "n < 10") (simp_all add: nat_digits.simps [of n] digits_value_append)
qed

lemma digit_not_sign: "is_digit c \<Longrightarrow> c \<noteq> CHR ''-'' \<and> c \<noteq> CHR ''+'' \<and> c \<noteq> CHR '':''"
  by (auto simp: is_digit_def)

lemma itoa_nonempty [simp]: "itoa i \<noteq> []"
  by (simp add: itoa_def)

lemma colon_notin_itoa: "CHR '':'' \<notin> set (itoa i)"
  using nat_digits_are_digits digit_not_sign
  by (auto simp: itoa_def list_all_iff)

theorem parse_int64_itoa: "int64 i \<Longrightarrow> parse_int64 (itoa i) = Some i"
proof -
  assume i: "int64 i"
  have hd: "hd (nat_digits n) \<noteq> CHR ''-'' \<and> hd (nat_digits n) \<noteq> CHR ''+''" for n
    using nat_digits_are_digits [of n] digit_not_sign hd_in_set [OF nat_digits_nonempty]
    by (fastforce simp: list_all_iff)
  show ?thesis
    using i hd by (simp add: parse_int64_def parse_digits_def itoa_def nat_digits_are_digits Let_def)
qed

lemma itoa_inject [simp]: "itoa i = itoa j \<longleftrightarrow> i = j"
proof
  assume "itoa i = itoa j"
  moreover have "hd (nat_digits n) \<noteq> CHR ''-''" for n
    using nat_digits_are_digits [of n] digit_not_sign hd_in_set [OF nat_digits_nonempty]
    by (fastforce simp: list_all_iff)
  then have "CHR ''-'' # s \<noteq> nat_digits n" for s n by (metis list.sel(1))
  ultimately show "i = j"
    using digits_value_nat_digits
    by (auto simp: itoa_def split: if_splits) (metis digits_value_nat_digits int_nat_eq linorder_not_less neg_equal_iff_equal nat_0_le neg_0_less_iff_less less_imp_le)+
qed simp


section \<open>Splitting at a byte\<close>

text \<open>\<^verbatim>\<open>strings.Split(s, sep)\<close> for a separator of one byte: always at least one part.\<close>

fun split_on :: "char \<Rightarrow> string \<Rightarrow> string list" where
  "split_on c [] = [[]]"
| "split_on c (x # xs) =
     (if x = c then [] # split_on c xs
      else (case split_on c xs of [] \<Rightarrow> [[x]] | p # ps \<Rightarrow> (x # p) # ps))"

lemma split_on_nonempty [simp]: "split_on c s \<noteq> []"
  by (induction s) (auto split: list.splits)

lemma split_on_no_sep: "c \<notin> set s \<Longrightarrow> split_on c s = [s]"
  by (induction s) auto

lemma split_on_append: "c \<notin> set p \<Longrightarrow> split_on c (p @ c # s) = p # split_on c s"
  by (induction p) auto

lemma concat_split_on: "s = concat (map (\<lambda>p. p @ [c]) (butlast (split_on c s))) @ last (split_on c s)"
proof (induction s)
  case (Cons x xs)
  then show ?case by (cases "split_on c xs") (auto split: if_splits)
qed simp

lemma append_sep_inject:
  "\<lbrakk>x \<notin> set a; x \<notin> set b\<rbrakk> \<Longrightarrow> a @ x # c = b @ x # d \<longleftrightarrow> a = b \<and> c = d"
proof (induction a arbitrary: b)
  case Nil
  then show ?case by (cases b) auto
next
  case (Cons y a)
  then show ?case by (cases b) auto
qed

end
