(* ===== verification/Go_Sort.thy ===== *)
theory Go_Sort
  imports Go_Base
begin

text \<open>
  Sorting and shuffling, as \<^verbatim>\<open>sort.SliceStable\<close>, \<^verbatim>\<open>sort.Slice\<close> and \<^verbatim>\<open>rand.Shuffle\<close> do them.
  A comparison function that is a strict weak order has exactly one stable sorting of a list
  (\<open>stable_sort_unique\<close>), so the insertion sort below is the result of \<^verbatim>\<open>sort.SliceStable\<close>
  whatever algorithm the library uses; where no two different elements compare equal, there is
  one sorting at all (\<open>sort_unique_distinct\<close>), so it is the result of \<^verbatim>\<open>sort.Slice\<close> too.
  The laws a comparison function has to meet are the locale \<open>weak_less\<close>, interpreted in the
  theories of the components for the comparison functions of the code.
\<close>

section \<open>Stable sorting\<close>

fun insert_by :: "('a \<Rightarrow> 'a \<Rightarrow> bool) \<Rightarrow> 'a \<Rightarrow> 'a list \<Rightarrow> 'a list" where
  "insert_by lt x [] = [x]"
| "insert_by lt x (y # ys) = (if lt y x then y # insert_by lt x ys else x # y # ys)"

fun sort_by :: "('a \<Rightarrow> 'a \<Rightarrow> bool) \<Rightarrow> 'a list \<Rightarrow> 'a list" where
  "sort_by lt [] = []"
| "sort_by lt (x # xs) = insert_by lt x (sort_by lt xs)"

lemma mset_insert_by [simp]: "mset (insert_by lt x ys) = add_mset x (mset ys)"
  by (induction ys) auto

lemma mset_sort_by [simp]: "mset (sort_by lt xs) = mset xs"
  by (induction xs) auto

lemma set_insert_by [simp]: "set (insert_by lt x ys) = insert x (set ys)"
  by (metis mset_insert_by set_mset_add_mset_insert set_mset_mset)

lemma set_sort_by [simp]: "set (sort_by lt xs) = set xs"
  by (metis mset_sort_by set_mset_mset)

lemma length_sort_by [simp]: "length (sort_by lt xs) = length xs"
  by (metis mset_sort_by size_mset)

lemma sort_by_Nil_iff [simp]: "sort_by lt xs = [] \<longleftrightarrow> xs = []"
  by (metis length_0_conv length_sort_by)

text \<open>\<open>sorted_by lt\<close>: no element is less than one before it.\<close>

abbreviation sorted_by :: "('a \<Rightarrow> 'a \<Rightarrow> bool) \<Rightarrow> 'a list \<Rightarrow> bool" where
  "sorted_by lt \<equiv> sorted_wrt (\<lambda>x y. \<not> lt y x)"

definition tied :: "('a \<Rightarrow> 'a \<Rightarrow> bool) \<Rightarrow> 'a \<Rightarrow> 'a \<Rightarrow> bool" where
  "tied lt x y \<longleftrightarrow> \<not> lt x y \<and> \<not> lt y x"

locale weak_less =
  fixes lt :: "'a \<Rightarrow> 'a \<Rightarrow> bool"
  assumes irreflexive: "\<not> lt x x"
    and transitive: "lt x y \<Longrightarrow> lt y z \<Longrightarrow> lt x z"
    and negatively_transitive: "\<not> lt x y \<Longrightarrow> \<not> lt y z \<Longrightarrow> \<not> lt x z"
begin

lemma asymmetric: "lt x y \<Longrightarrow> \<not> lt y x"
  using irreflexive transitive by blast

lemma less_tied: "lt x y \<Longrightarrow> tied lt y z \<Longrightarrow> lt x z"
  using negatively_transitive unfolding tied_def by blast

lemma tied_less: "tied lt x y \<Longrightarrow> lt y z \<Longrightarrow> lt x z"
  using negatively_transitive unfolding tied_def by blast

lemma tied_refl: "tied lt x x"
  by (simp add: tied_def irreflexive)

lemma tied_sym: "tied lt x y \<Longrightarrow> tied lt y x"
  by (simp add: tied_def)

lemma tied_trans: "tied lt x y \<Longrightarrow> tied lt y z \<Longrightarrow> tied lt x z"
  using negatively_transitive unfolding tied_def by blast

lemma sorted_insert_by: "sorted_by lt ys \<Longrightarrow> sorted_by lt (insert_by lt x ys)"
proof (induction ys)
  case (Cons y ys)
  show ?case
  proof (cases "lt y x")
    case True
    with Cons show ?thesis by (auto simp: asymmetric)
  next
    case False
    have "\<not> lt z x" if "z \<in> set ys" for z
      using Cons.prems that False negatively_transitive by auto
    with Cons.prems False show ?thesis by simp
  qed
qed simp

lemma sorted_sort_by: "sorted_by lt (sort_by lt xs)"
  by (induction xs) (auto intro: sorted_insert_by)

text \<open>Stability: elements that compare equal keep their order.\<close>

lemma filter_tied_insert_by:
  "sorted_by lt ys \<Longrightarrow>
     filter (tied lt a) (insert_by lt x ys) =
       (if tied lt a x then x # filter (tied lt a) ys else filter (tied lt a) ys)"
proof (induction ys)
  case (Cons y ys)
  show ?case
  proof (cases "lt y x")
    case True
    then have "tied lt a x \<Longrightarrow> \<not> tied lt a y"
      using tied_trans tied_sym unfolding tied_def by blast
    with Cons True show ?thesis by auto
  qed simp
qed simp

lemma sort_by_stable: "filter (tied lt a) (sort_by lt xs) = filter (tied lt a) xs"
  by (induction xs) (auto simp: filter_tied_insert_by sorted_sort_by)

lemma sorted_tied_hd:
  assumes "sorted_by lt (x # xs)" and "sorted_by lt (y # ys)"
    and "mset (x # xs) = mset (y # ys)"
  shows "tied lt x y"
proof -
  have "x \<in> set (y # ys)" "y \<in> set (x # xs)"
    using assms(3) by (metis list.set_intros(1) set_mset_mset)+
  with assms(1,2) irreflexive show ?thesis by (auto simp: tied_def)
qed

theorem stable_sort_unique:
  assumes "sorted_by lt xs" and "sorted_by lt ys" and "mset xs = mset ys"
    and "\<And>a. filter (tied lt a) xs = filter (tied lt a) ys"
  shows "xs = ys"
  using assms
proof (induction xs arbitrary: ys)
  case (Cons x xs)
  then obtain y ys' where ys: "ys = y # ys'"
    by (metis list.exhaust mset_zero_iff list.simps(3))
  have t: "tied lt x y"
    using Cons.prems sorted_tied_hd ys by blast
  have "filter (tied lt x) (x # xs) = filter (tied lt x) (y # ys')"
    using Cons.prems(4) ys by blast
  with t tied_refl have xy: "x = y" by simp
  have "filter (tied lt a) xs = filter (tied lt a) ys'" for a
    using Cons.prems(4) [of a] ys xy by (simp split: if_splits)
  moreover have "sorted_by lt xs" "sorted_by lt ys'" "mset xs = mset ys'"
    using Cons.prems(1-3) ys xy by simp_all
  ultimately have "xs = ys'" by (intro Cons.IH)
  with ys xy show ?case by simp
qed simp

lemma sort_by_characterised:
  assumes "sorted_by lt ys" and "mset ys = mset xs"
    and "\<And>a. filter (tied lt a) ys = filter (tied lt a) xs"
  shows "sort_by lt xs = ys"
  by (rule stable_sort_unique) (use assms in \<open>auto simp: sorted_sort_by sort_by_stable\<close>)

text \<open>Without ties between different elements, the order of the input does not matter.\<close>

lemma sort_unique_distinct:
  assumes "sorted_by lt xs" and "sorted_by lt ys" and "mset xs = mset ys"
    and "\<And>a b. a \<in> set xs \<Longrightarrow> b \<in> set xs \<Longrightarrow> tied lt a b \<Longrightarrow> a = b"
  shows "xs = ys"
  using assms
proof (induction xs arbitrary: ys)
  case (Cons x xs)
  then obtain y ys' where ys: "ys = y # ys'"
    by (metis list.exhaust mset_zero_iff list.simps(3))
  have "y \<in> set (x # xs)"
    using Cons.prems(3) ys by (metis list.set_intros(1) set_mset_mset)
  then have "x = y"
    using Cons.prems sorted_tied_hd ys by (meson list.set_intros(1))
  with Cons ys show ?case by simp
qed simp

lemma sort_by_mset_cong:
  assumes "mset xs = mset ys"
    and "\<And>a b. a \<in> set xs \<Longrightarrow> b \<in> set xs \<Longrightarrow> tied lt a b \<Longrightarrow> a = b"
  shows "sort_by lt xs = sort_by lt ys"
  by (rule sort_unique_distinct) (use assms in \<open>auto simp: sorted_sort_by\<close>)

lemma hd_sort_by_least: "x \<in> set xs \<Longrightarrow> \<not> lt x (hd (sort_by lt xs))"
proof -
  assume x: "x \<in> set xs"
  then obtain y ys where s: "sort_by lt xs = y # ys"
    by (metis list.exhaust list.set_cases sort_by_Nil_iff list.distinct(1))
  with x have "x \<in> set (y # ys)" by (metis set_sort_by)
  with s sorted_sort_by [of xs] irreflexive show ?thesis by auto
qed

end

text \<open>
  Comparison functions are built from a numeric rank or from a first criterion refined by a
  second one; both constructions meet the laws.
\<close>

lemma weak_less_rank: "weak_less (\<lambda>x y. (f x :: 'b :: linorder) < f y)"
  by unfold_locales auto

lemma weak_less_refine:
  assumes "weak_less p" and "weak_less q"
  shows "weak_less (\<lambda>x y. p x y \<or> tied p x y \<and> q x y)"
proof
  show "\<not> (p x x \<or> tied p x x \<and> q x x)" for x
    using assms by (simp add: weak_less.irreflexive)
next
  fix x y z
  assume "p x y \<or> tied p x y \<and> q x y" and "p y z \<or> tied p y z \<and> q y z"
  then show "p x z \<or> tied p x z \<and> q x z"
    using weak_less.transitive [OF assms(1)] weak_less.less_tied [OF assms(1)]
      weak_less.tied_less [OF assms(1)] weak_less.tied_trans [OF assms(1)]
      weak_less.transitive [OF assms(2)]
    by metis
next
  fix x y z
  assume xy: "\<not> (p x y \<or> tied p x y \<and> q x y)" and yz: "\<not> (p y z \<or> tied p y z \<and> q y z)"
  have "\<not> p x z"
    using xy yz weak_less.negatively_transitive [OF assms(1)] by blast
  moreover have "\<not> q x z" if t: "tied p x z"
  proof -
    have "tied p x y" "tied p y z"
      using xy yz t weak_less.less_tied [OF assms(1)] weak_less.tied_less [OF assms(1)]
        weak_less.tied_sym [OF assms(1)]
      unfolding tied_def by blast+
    with xy yz show ?thesis
      using weak_less.negatively_transitive [OF assms(2)] by blast
  qed
  ultimately show "\<not> (p x z \<or> tied p x z \<and> q x z)" by blast
qed

section \<open>Shuffling\<close>

text \<open>
  \<^verbatim>\<open>rand.Shuffle(n, swap)\<close>: the Fisher-Yates loop \<^verbatim>\<open>for i := n-1; i > 0; i--\<close>, which swaps position
  \<open>i\<close> with a drawn position not above it. The draws of the generator are the list \<open>rs\<close>, reduced
  to the bound (an exhausted list draws 0), so that every outcome of the generator is some
  \<open>rs\<close>; the rest of the draws is returned.
\<close>

definition draw :: "nat \<Rightarrow> nat list \<Rightarrow> nat \<times> nat list" where
  "draw bound rs = (case rs of [] \<Rightarrow> (0, []) | r # rs' \<Rightarrow> (r mod bound, rs'))"

definition swap_at :: "nat \<Rightarrow> nat \<Rightarrow> 'a list \<Rightarrow> 'a list" where
  "swap_at i j xs = xs[i := xs ! j, j := xs ! i]"

fun shuffle_from :: "nat \<Rightarrow> nat list \<Rightarrow> 'a list \<Rightarrow> 'a list \<times> nat list" where
  "shuffle_from 0 rs xs = (xs, rs)"
| "shuffle_from (Suc i) rs xs =
     (let (j, rs') = draw (Suc (Suc i)) rs in shuffle_from i rs' (swap_at (Suc i) j xs))"

definition shuffle :: "nat list \<Rightarrow> 'a list \<Rightarrow> 'a list \<times> nat list" where
  "shuffle rs xs = shuffle_from (length xs - 1) rs xs"

lemma draw_less: "0 < bound \<Longrightarrow> fst (draw bound rs) < bound"
  by (simp add: draw_def split: list.split)

lemma mset_swap_at: "i < length xs \<Longrightarrow> j < length xs \<Longrightarrow> mset (swap_at i j xs) = mset xs"
  unfolding swap_at_def by (rule mset_swap)

lemma length_swap_at [simp]: "length (swap_at i j xs) = length xs"
  by (simp add: swap_at_def)

lemma mset_shuffle_from: "i < length xs \<Longrightarrow> mset (fst (shuffle_from i rs xs)) = mset xs"
proof (induction i rs xs rule: shuffle_from.induct)
  case (2 i rs xs)
  obtain j rs' where d: "draw (Suc (Suc i)) rs = (j, rs')"
    by (metis surj_pair)
  then have "j < Suc (Suc i)"
    using draw_less [of "Suc (Suc i)" rs] by simp
  with 2 d show ?case by (simp add: mset_swap_at)
qed simp

lemma mset_shuffle [simp]: "mset (fst (shuffle rs xs)) = mset xs"
  by (cases xs) (simp_all add: shuffle_def mset_shuffle_from)

lemma set_shuffle [simp]: "set (fst (shuffle rs xs)) = set xs"
  by (metis mset_shuffle set_mset_mset)

lemma length_shuffle [simp]: "length (fst (shuffle rs xs)) = length xs"
  by (metis mset_shuffle size_mset)

end
