(* ===== verification/Model_Map.thy ===== *)
theory Model_Map
  imports Go_Sort
begin

text \<open>
  Model mapping of \<^verbatim>\<open>routing/modelmap\<close>: patterns that may end in \<^verbatim>\<open>*\<close>, the lookup of the target
  of a requested model (exact key first, then the longest matching pattern), and the
  white-list rule that picks an action. A Go map is the list of its entries in the order the
  runtime happens to enumerate them, with distinct keys; \<open>resolve_order_independent\<close> shows
  that this order has no influence.
\<close>

section \<open>Patterns\<close>

definition Matches :: "string \<Rightarrow> string \<Rightarrow> bool" where
  "Matches pattern str =
     (if suffix ''*'' pattern then prefix (take (length pattern - 1) pattern) str
      else pattern = str)"

definition pattern_less :: "string \<times> string \<Rightarrow> string \<times> string \<Rightarrow> bool" where
  "pattern_less a b =
     (if length (fst a) \<noteq> length (fst b) then length (fst a) > length (fst b)
      else fst a < fst b)"

definition MatchWildcard :: "(string \<times> string) list \<Rightarrow> string \<Rightarrow> string \<times> bool" where
  "MatchWildcard mapping requestedModel =
     (let matches = filter (\<lambda>(pattern, target). Matches pattern requestedModel) mapping
      in if matches = [] then (requestedModel, False)
         else (snd (hd (sort_by pattern_less matches)), True))"

definition Resolve :: "(string \<times> string) list \<Rightarrow> string \<Rightarrow> string \<times> bool" where
  "Resolve mapping requestedModel =
     (if requestedModel = [] then ([], False)
      else (case map_of mapping requestedModel of
              Some mappedModel \<Rightarrow> (mappedModel, True)
            | None \<Rightarrow> MatchWildcard mapping requestedModel))"

section \<open>Action rules\<close>

record action_rule =
  Action :: string
  ErrorMessage :: string
  ModelWhitelist :: "string list"
  FallbackAction :: string
  FallbackErrorMessage :: string

fun MatchesAny :: "string \<Rightarrow> string list \<Rightarrow> bool" where
  "MatchesAny model [] = False"
| "MatchesAny model (pattern # whitelist) =
     (if Matches pattern model then True else MatchesAny model whitelist)"

definition ResolveAction :: "action_rule \<Rightarrow> string \<Rightarrow> string \<times> string" where
  "ResolveAction rule model =
     (if ModelWhitelist rule = [] then (Action rule, ErrorMessage rule)
      else if MatchesAny model (ModelWhitelist rule) then (Action rule, ErrorMessage rule)
      else if FallbackAction rule \<noteq> [] then (FallbackAction rule, FallbackErrorMessage rule)
      else (''pass'', []))"

section \<open>The order of the patterns\<close>

lemma weak_less_pattern: "weak_less pattern_less"
proof -
  have eq: "pattern_less = (\<lambda>x y.
      - int (length (fst x)) < - int (length (fst y)) \<or>
      tied (\<lambda>x y. - int (length (fst x)) < - int (length (fst y))) x y \<and> fst x < fst y)"
    by (auto simp: pattern_less_def tied_def fun_eq_iff)
  show ?thesis
    unfolding eq by (rule weak_less_refine [OF weak_less_rank weak_less_rank])
qed

interpretation pl: weak_less pattern_less
  by (rule weak_less_pattern)

lemma tied_pattern: "tied pattern_less a b \<longleftrightarrow> fst a = fst b"
  by (auto simp: tied_def pattern_less_def)

lemma Matches_literal: "\<not> suffix ''*'' p \<Longrightarrow> Matches p s \<longleftrightarrow> p = s"
  by (simp add: Matches_def)

lemma Matches_star: "Matches (p @ ''*'') s \<longleftrightarrow> prefix p s"
  by (simp add: Matches_def)

text \<open>The pattern that decides a wildcard lookup.\<close>

lemma MatchWildcard_cases:
  assumes "MatchWildcard mapping model = (t, True)"
  obtains p where "(p, t) \<in> set mapping" and "Matches p model"
    and "\<And>q u. (q, u) \<in> set mapping \<Longrightarrow> Matches q model \<Longrightarrow> \<not> pattern_less (q, u) (p, t)"
proof -
  define ms where "ms = filter (\<lambda>(pattern, target). Matches pattern model) mapping"
  have ne: "ms \<noteq> []" and t: "t = snd (hd (sort_by pattern_less ms))"
    using assms by (auto simp: MatchWildcard_def ms_def Let_def split: if_splits)
  let ?h = "hd (sort_by pattern_less ms)"
  have "?h \<in> set ms"
    using ne by (metis hd_in_set set_sort_by sort_by_Nil_iff)
  moreover have "?h = (fst ?h, t)" by (simp add: t)
  ultimately have "(fst ?h, t) \<in> set mapping" "Matches (fst ?h) model"
    by (auto simp: ms_def)
  moreover have "\<not> pattern_less (q, u) (fst ?h, t)"
    if "(q, u) \<in> set mapping" "Matches q model" for q u
    using that pl.hd_sort_by_least [of "(q, u)" ms] by (simp add: ms_def t)
  ultimately show thesis by (rule that)
qed

lemma MatchWildcard_False:
  "MatchWildcard mapping model = (t, False) \<longleftrightarrow>
     t = model \<and> (\<forall>(p, u) \<in> set mapping. \<not> Matches p model)"
  by (auto simp: MatchWildcard_def filter_empty_conv)

section \<open>Properties\<close>

text \<open>
  C18: resolving a model does not depend on the order in which the runtime enumerates the Go
  map: two enumerations of one map (distinct keys, the same entries) give the same target.
\<close>

theorem resolve_order_independent:
  assumes "distinct (map fst m1)" and "mset m1 = mset m2"
  shows "Resolve m1 model = Resolve m2 model"
proof -
  have d2: "distinct (map fst m2)"
    using assms by (metis mset_map mset_eq_imp_distinct_iff)
  have m: "map_of m1 = map_of m2"
    using assms d2 by (metis map_of_eqI map_of_inject_set set_mset_mset)
  have inj: "a = b" if "a \<in> set m1" "b \<in> set m1" "tied pattern_less a b" for a b
    using that assms(1) by (metis eq_key_imp_eq_value prod.collapse tied_pattern)
  let ?P = "\<lambda>(pattern, target). Matches pattern model"
  have ms: "mset (filter ?P m1) = mset (filter ?P m2)"
    using assms(2) by simp
  have "sort_by pattern_less (filter ?P m1) = sort_by pattern_less (filter ?P m2)"
    by (rule pl.sort_by_mset_cong [OF ms]) (use inj in auto)
  moreover have "filter ?P m1 = [] \<longleftrightarrow> filter ?P m2 = []"
    using ms by (metis mset_zero_iff)
  ultimately show ?thesis
    by (simp add: Resolve_def MatchWildcard_def m Let_def split: option.split)
qed

lemma resolve_order_independent_witness:
  "Resolve [(''gpt-*'', ''a''), (''gpt-5*'', ''b''), (''o3'', ''c'')] ''gpt-5.1''
   = Resolve [(''o3'', ''c''), (''gpt-5*'', ''b''), (''gpt-*'', ''a'')] ''gpt-5.1''"
  by (rule resolve_order_independent) (simp_all add: add_mset_commute)

text \<open>
  What \<^verbatim>\<open>Resolve\<close> returns. An empty model is not mapped; an exact key wins; otherwise the
  target comes from a matching pattern that no matching pattern exceeds in length, equal
  lengths being decided by byte order; and only when no key matches is the model returned
  unmapped.
\<close>

theorem resolve_spec:
  "(case Resolve mapping model of (t, matched) \<Rightarrow>
     (if model = [] then t = [] \<and> \<not> matched
      else if \<exists>u. map_of mapping model = Some u then matched \<and> map_of mapping model = Some t
      else if matched
        then (\<exists>p. (p, t) \<in> set mapping \<and> Matches p model \<and>
              (\<forall>(q, u) \<in> set mapping. Matches q model \<longrightarrow>
                 length q < length p \<or> length q = length p \<and> p \<le> q))
        else t = model \<and> (\<forall>(p, u) \<in> set mapping. \<not> Matches p model)))"
proof -
  obtain t b where r: "Resolve mapping model = (t, b)" by fastforce
  show ?thesis
  proof (cases "model = [] \<or> (\<exists>u. map_of mapping model = Some u)")
    case True
    with r show ?thesis by (auto simp: Resolve_def split: if_splits)
  next
    case False
    then have w: "MatchWildcard mapping model = (t, b)"
      using r by (simp add: Resolve_def)
    show ?thesis
    proof (cases b)
      case True
      with w obtain p where "(p, t) \<in> set mapping" "Matches p model"
        and "\<And>q u. (q, u) \<in> set mapping \<Longrightarrow> Matches q model \<Longrightarrow> \<not> pattern_less (q, u) (p, t)"
        by (auto elim: MatchWildcard_cases)
      moreover from this(3) have
        "\<forall>(q, u) \<in> set mapping. Matches q model \<longrightarrow>
           length q < length p \<or> length q = length p \<and> p \<le> q"
        by (fastforce simp: pattern_less_def split: if_splits)
      ultimately show ?thesis
        using False True r by auto
    next
      case b: False
      with w MatchWildcard_False [of mapping model t] False r show ?thesis by auto
    qed
  qed
qed

lemma resolve_spec_witness:
  "\<exists>p. (p, ''b'') \<in> set [(''gpt-*'', ''a''), (''gpt-5*'', ''b''), (''o3'', ''c'')] \<and>
     Matches p ''gpt-5.1'' \<and>
     (\<forall>(q, u) \<in> set [(''gpt-*'', ''a''), (''gpt-5*'', ''b''), (''o3'', ''c'')].
        Matches q ''gpt-5.1'' \<longrightarrow> length q < length p \<or> length q = length p \<and> p \<le> q)"
proof -
  let ?m = "[(''gpt-*'', ''a''), (''gpt-5*'', ''b''), (''o3'', ''c'')]"
  have "Resolve ?m ''gpt-5.1'' = (''b'', True)" by code_simp
  moreover have "map_of ?m ''gpt-5.1'' = None" by simp
  ultimately show ?thesis
    using resolve_spec [where mapping = ?m and model = "''gpt-5.1''"] by (simp only: prod.case) simp
qed

end
