(* ===== verification/App_Error.thy ===== *)
theory App_Error
  imports Go_Base
begin

text \<open>
  The application error of \<^verbatim>\<open>pkg/apperror\<close>. A Go \<^verbatim>\<open>error\<close> value is a \<open>go_error\<close>: an
  \<^verbatim>\<open>*ApplicationError\<close> with its optional cause, an error that wraps another one
  (\<^verbatim>\<open>fmt.Errorf("%w")\<close>), or any other error. A nil error is \<open>None\<close>; a nil metadata map is
  \<open>None\<close> too. The category is the numeric code of the error.
\<close>

record app_status =
  st_code :: int
  st_reason :: string
  st_message :: string
  st_metadata :: "(string \<rightharpoonup> string) option"

datatype go_error =
    ApplicationError app_status "go_error option"
  | WrapError string go_error
  | OtherError string

definition UnknownCode :: int where "UnknownCode = 500"
definition UnknownReason :: string where "UnknownReason = []"
definition UnknownMessage :: string where "UnknownMessage = ''internal error''"

definition CategoryOK :: int where "CategoryOK = 200"
definition CategoryBadRequest :: int where "CategoryBadRequest = 400"
definition CategoryUnauthorized :: int where "CategoryUnauthorized = 401"
definition CategoryForbidden :: int where "CategoryForbidden = 403"
definition CategoryNotFound :: int where "CategoryNotFound = 404"
definition CategoryConflict :: int where "CategoryConflict = 409"
definition CategoryTooManyRequests :: int where "CategoryTooManyRequests = 429"
definition CategoryClientClosed :: int where "CategoryClientClosed = 499"
definition CategoryInternalServer :: int where "CategoryInternalServer = 500"
definition CategoryBadGateway :: int where "CategoryBadGateway = 502"
definition CategoryServiceUnavailable :: int where "CategoryServiceUnavailable = 503"
definition CategoryGatewayTimeout :: int where "CategoryGatewayTimeout = 504"

lemmas category_defs [go_simps] =
  UnknownCode_def UnknownReason_def UnknownMessage_def CategoryOK_def CategoryBadRequest_def
  CategoryUnauthorized_def CategoryForbidden_def CategoryNotFound_def CategoryConflict_def
  CategoryTooManyRequests_def CategoryClientClosed_def CategoryInternalServer_def
  CategoryBadGateway_def CategoryServiceUnavailable_def CategoryGatewayTimeout_def

definition New :: "int \<Rightarrow> string \<Rightarrow> string \<Rightarrow> go_error" where
  "New code reason message =
     ApplicationError
       \<lparr>st_code = code, st_reason = reason, st_message = message, st_metadata = None\<rparr> None"

definition BadRequest :: "string \<Rightarrow> string \<Rightarrow> go_error" where
  "BadRequest = New CategoryBadRequest"
definition TooManyRequests :: "string \<Rightarrow> string \<Rightarrow> go_error" where
  "TooManyRequests = New CategoryTooManyRequests"
definition Unauthorized :: "string \<Rightarrow> string \<Rightarrow> go_error" where
  "Unauthorized = New CategoryUnauthorized"
definition Forbidden :: "string \<Rightarrow> string \<Rightarrow> go_error" where
  "Forbidden = New CategoryForbidden"
definition NotFound :: "string \<Rightarrow> string \<Rightarrow> go_error" where
  "NotFound = New CategoryNotFound"
definition Conflict :: "string \<Rightarrow> string \<Rightarrow> go_error" where
  "Conflict = New CategoryConflict"
definition InternalServer :: "string \<Rightarrow> string \<Rightarrow> go_error" where
  "InternalServer = New CategoryInternalServer"
definition ServiceUnavailable :: "string \<Rightarrow> string \<Rightarrow> go_error" where
  "ServiceUnavailable = New CategoryServiceUnavailable"
definition GatewayTimeout :: "string \<Rightarrow> string \<Rightarrow> go_error" where
  "GatewayTimeout = New CategoryGatewayTimeout"

lemmas new_error_defs [go_simps] =
  New_def BadRequest_def TooManyRequests_def Unauthorized_def Forbidden_def NotFound_def
  Conflict_def InternalServer_def ServiceUnavailable_def GatewayTimeout_def

text \<open>
  \<^verbatim>\<open>errors.As\<close> with an \<^verbatim>\<open>*ApplicationError\<close> target: the first application error of the chain.
\<close>

fun as_application :: "go_error \<Rightarrow> go_error option" where
  "as_application (ApplicationError st c) = Some (ApplicationError st c)"
| "as_application (WrapError m e) = as_application e"
| "as_application (OtherError m) = None"

text \<open>The receivers below are application errors; other values have no such method.\<close>

fun WithCause :: "go_error \<Rightarrow> go_error option \<Rightarrow> go_error" where
  "WithCause (ApplicationError st c) cause = ApplicationError st cause"
| "WithCause e cause = e"

fun WithMetadata :: "go_error \<Rightarrow> (string \<rightharpoonup> string) option \<Rightarrow> go_error" where
  "WithMetadata (ApplicationError st c) md = ApplicationError (st\<lparr>st_metadata := md\<rparr>) c"
| "WithMetadata e md = e"

fun Unwrap :: "go_error \<Rightarrow> go_error option" where
  "Unwrap (ApplicationError st c) = c"
| "Unwrap (WrapError m e) = Some e"
| "Unwrap (OtherError m) = None"

fun Is :: "go_error \<Rightarrow> go_error \<Rightarrow> bool" where
  "Is (ApplicationError st c) err =
     (case as_application err of
        Some (ApplicationError se c') \<Rightarrow> st_code se = st_code st \<and> st_reason se = st_reason st
      | _ \<Rightarrow> False)"
| "Is e err = False"

definition FromError :: "go_error option \<Rightarrow> go_error option" where
  "FromError err =
     (case err of
        None \<Rightarrow> None
      | Some e \<Rightarrow>
          (case as_application e of
             Some se \<Rightarrow> Some se
           | None \<Rightarrow> Some (WithCause (New UnknownCode UnknownReason UnknownMessage) (Some e))))"

fun status_of :: "go_error \<Rightarrow> app_status" where
  "status_of (ApplicationError st c) = st"
| "status_of e = \<lparr>st_code = UnknownCode, st_reason = UnknownReason,
                   st_message = UnknownMessage, st_metadata = None\<rparr>"

definition CategoryOf :: "go_error option \<Rightarrow> int" where
  "CategoryOf err = (case FromError err of None \<Rightarrow> CategoryOK | Some e \<Rightarrow> st_code (status_of e))"

definition Reason :: "go_error option \<Rightarrow> string" where
  "Reason err =
     (case FromError err of None \<Rightarrow> UnknownReason | Some e \<Rightarrow> st_reason (status_of e))"

definition Message :: "go_error option \<Rightarrow> string" where
  "Message err = (case FromError err of None \<Rightarrow> [] | Some e \<Rightarrow> st_message (status_of e))"

definition IsBadRequest :: "go_error option \<Rightarrow> bool" where
  "IsBadRequest err \<longleftrightarrow> CategoryOf err = CategoryBadRequest"

definition IsNotFound :: "go_error option \<Rightarrow> bool" where
  "IsNotFound err \<longleftrightarrow> CategoryOf err = CategoryNotFound"

lemma as_application_shape:
  "as_application e = Some a \<Longrightarrow> \<exists>st c. a = ApplicationError st c"
  by (induction e) auto

lemma as_application_WithCause [simp]:
  "as_application (WithCause (ApplicationError st c) x) = Some (ApplicationError st x)"
  by simp

text \<open>An application error, and what its decorated copies and wrappers are classified as.\<close>

inductive decorates :: "go_error \<Rightarrow> go_error \<Rightarrow> bool" where
  dec_refl: "decorates (ApplicationError st c) (ApplicationError st c)"
| dec_cause: "decorates e a \<Longrightarrow> decorates (WithCause e c) a"
| dec_metadata: "decorates e a \<Longrightarrow> decorates (WithMetadata e md) a"
| dec_wrap: "decorates e a \<Longrightarrow> decorates (WrapError m e) a"

lemma decorates_status:
  "decorates e a \<Longrightarrow> \<exists>st c st' c'. a = ApplicationError st c \<and>
     as_application e = Some (ApplicationError st' c') \<and>
     st_code st' = st_code st \<and> st_reason st' = st_reason st \<and> st_message st' = st_message st"
proof (induction rule: decorates.induct)
  case (dec_cause e a c)
  then show ?case by (cases e rule: go_error.exhaust) auto
next
  case (dec_metadata e a md)
  then show ?case by (cases e rule: go_error.exhaust) auto
qed auto

text \<open>
  Classification is stable: however an application error is decorated with causes and
  metadata and wrapped, in any order, its category, reason and message stay those of the
  original, it still matches the original under \<^verbatim>\<open>errors.Is\<close>, and converting it twice gives
  the same error as converting it once.
\<close>

theorem decorated_error_classified:
  assumes "decorates e a"
  shows "CategoryOf (Some e) = CategoryOf (Some a) \<and> Reason (Some e) = Reason (Some a) \<and>
    Message (Some e) = Message (Some a) \<and> Is a e \<and>
    FromError (FromError (Some e)) = FromError (Some e)"
proof -
  from decorates_status [OF assms] obtain st c st' c' where
    "a = ApplicationError st c" "as_application e = Some (ApplicationError st' c')"
    "st_code st' = st_code st" "st_reason st' = st_reason st" "st_message st' = st_message st"
    by blast
  then show ?thesis
    by (simp add: CategoryOf_def Reason_def Message_def FromError_def)
qed

lemma decorated_error_classified_witness:
  "CategoryOf (Some (WrapError ''decode'' (WithCause (Conflict ''K'' ''m'') (Some (OtherError ''x'')))))
     = CategoryConflict"
proof -
  have "decorates (WrapError ''decode'' (WithCause (Conflict ''K'' ''m'') (Some (OtherError ''x''))))
      (Conflict ''K'' ''m'')"
    by (intro dec_wrap dec_cause) (simp add: go_simps dec_refl)
  from decorated_error_classified [OF this] show ?thesis
    by (simp add: CategoryOf_def FromError_def go_simps)
qed

end
