(* ===== verification/Idem_Store.thy ===== *)
theory Idem_Store
  imports App_Error Go_Sort
begin

text \<open>
  The record store of the write idempotency (\<^verbatim>\<open>idempotency.IdempotencyRepository\<close>) and its
  PostgreSQL implementation (\<^verbatim>\<open>idempotency/postgres\<close>).

  The interface is a record of operations, as the Go interface is a method table; every
  operation takes the instant the database clock shows and the store, and returns the new
  store. The PostgreSQL store is the table \<^verbatim>\<open>idempotency_records\<close>: a list of rows, the next value of
  its id sequence, and a script of faults. Each SQL statement consumes one fault: it may
  succeed, be lost (no effect, error returned) or be applied without a confirmation (effect,
  error returned), so that every failure a caller of \<^verbatim>\<open>database/sql\<close> can observe is covered.
  The locale \<open>record_store\<close> states what the coordinator relies on; it is interpreted on the
  PostgreSQL model.
\<close>

section \<open>Records and the interface\<close>

definition IdempotencyStatusProcessing :: string where
  "IdempotencyStatusProcessing = ''processing''"
definition IdempotencyStatusSucceeded :: string where
  "IdempotencyStatusSucceeded = ''succeeded''"
definition IdempotencyStatusFailedRetryable :: string where
  "IdempotencyStatusFailedRetryable = ''failed_retryable''"

lemmas status_defs [go_simps] =
  IdempotencyStatusProcessing_def IdempotencyStatusSucceeded_def
  IdempotencyStatusFailedRetryable_def

record idem_record =
  ID :: int
  Scope :: string
  IdempotencyKeyHash :: string
  RequestFingerprint :: string
  RecStatus :: string
  ResponseStatus :: "int option"
  ResponseBody :: "string option"
  ErrorReason :: "string option"
  LockedUntil :: "instant option"
  ExpiresAt :: instant
  CreatedAt :: instant
  UpdatedAt :: instant

record 's idem_repo =
  CreateProcessing :: "instant \<Rightarrow> idem_record \<Rightarrow> 's \<Rightarrow> (go_error + bool \<times> idem_record) \<times> 's"
  GetByScopeAndKeyHash ::
    "instant \<Rightarrow> string \<Rightarrow> string \<Rightarrow> 's \<Rightarrow> (go_error + idem_record option) \<times> 's"
  TryReclaim ::
    "instant \<Rightarrow> int \<Rightarrow> string \<Rightarrow> instant \<Rightarrow> instant \<Rightarrow> instant \<Rightarrow> 's \<Rightarrow> (go_error + bool) \<times> 's"
  ExtendProcessingLock ::
    "instant \<Rightarrow> int \<Rightarrow> string \<Rightarrow> instant \<Rightarrow> instant \<Rightarrow> 's \<Rightarrow> (go_error + bool) \<times> 's"
  MarkSucceeded ::
    "instant \<Rightarrow> int \<Rightarrow> int \<Rightarrow> string \<Rightarrow> instant \<Rightarrow> 's \<Rightarrow> go_error option \<times> 's"
  MarkFailedRetryable ::
    "instant \<Rightarrow> int \<Rightarrow> string \<Rightarrow> instant \<Rightarrow> instant \<Rightarrow> 's \<Rightarrow> go_error option \<times> 's"
  DeleteExpired :: "instant \<Rightarrow> instant \<Rightarrow> int \<Rightarrow> 's \<Rightarrow> (go_error + int) \<times> 's"

section \<open>The PostgreSQL table\<close>

record pg_store =
  Rows :: "idem_record list"
  NextID :: int
  Faults :: "fault list"

definition db_error :: go_error where
  "db_error = OtherError ''sql: statement failed''"

text \<open>One SQL statement with effect \<open>f\<close> under the next fault of the script.\<close>

definition statement :: "(pg_store \<Rightarrow> 'a \<times> pg_store) \<Rightarrow> pg_store \<Rightarrow> (go_error + 'a) \<times> pg_store" where
  "statement f db =
     (let db' = db\<lparr>Faults := tl (Faults db)\<rparr>
      in case Faults db of
           Lost # _ \<Rightarrow> (Inl db_error, db')
         | Unconfirmed # _ \<Rightarrow> (Inl db_error, snd (f db'))
         | _ \<Rightarrow> (Inr (fst (f db')), snd (f db')))"

text \<open>\<^verbatim>\<open>UPDATE idempotency_records SET ... WHERE ...\<close>, with the number of affected rows.\<close>

definition update_where ::
  "(idem_record \<Rightarrow> bool) \<Rightarrow> (idem_record \<Rightarrow> idem_record) \<Rightarrow> pg_store \<Rightarrow> nat \<times> pg_store" where
  "update_where cond upd db =
     (length (filter cond (Rows db)),
      db\<lparr>Rows := map (\<lambda>r. if cond r then upd r else r) (Rows db)\<rparr>)"

definition same_key :: "string \<Rightarrow> string \<Rightarrow> idem_record \<Rightarrow> bool" where
  "same_key scope keyHash r \<longleftrightarrow> Scope r = scope \<and> IdempotencyKeyHash r = keyHash"

text \<open>
  \<^verbatim>\<open>INSERT ... ON CONFLICT (scope, idempotency_key_hash) DO NOTHING RETURNING id, created_at,
  updated_at\<close>: the id sequence advances whether or not the row is inserted, and no returned
  row (\<^verbatim>\<open>sql.ErrNoRows\<close>) reports the conflict.
\<close>

definition created_row :: "instant \<Rightarrow> int \<Rightarrow> idem_record \<Rightarrow> idem_record" where
  "created_row clock i record =
     record\<lparr>ID := i, ResponseStatus := None, ResponseBody := None, ErrorReason := None,
       CreatedAt := clock, UpdatedAt := clock\<rparr>"

definition insert_processing :: "instant \<Rightarrow> idem_record \<Rightarrow> pg_store \<Rightarrow> (bool \<times> idem_record) \<times> pg_store" where
  "insert_processing now record db =
     (let db' = db\<lparr>NextID := NextID db + 1\<rparr>
      in if \<exists>r \<in> set (Rows db). same_key (Scope record) (IdempotencyKeyHash record) r
         then ((False, record), db')
         else ((True, record\<lparr>ID := NextID db, CreatedAt := now, UpdatedAt := now\<rparr>),
               db'\<lparr>Rows := Rows db @ [created_row now (NextID db) record]\<rparr>))"

definition pg_CreateProcessing ::
  "instant \<Rightarrow> idem_record \<Rightarrow> pg_store \<Rightarrow> (go_error + bool \<times> idem_record) \<times> pg_store" where
  "pg_CreateProcessing now record = statement (insert_processing now record)"

definition pg_GetByScopeAndKeyHash ::
  "instant \<Rightarrow> string \<Rightarrow> string \<Rightarrow> pg_store \<Rightarrow> (go_error + idem_record option) \<times> pg_store" where
  "pg_GetByScopeAndKeyHash now scope keyHash =
     statement (\<lambda>db. (find (same_key scope keyHash) (Rows db), db))"

definition claimable :: "string \<Rightarrow> instant \<Rightarrow> idem_record \<Rightarrow> bool" where
  "claimable fromStatus now r \<longleftrightarrow>
     RecStatus r = fromStatus \<and> (case LockedUntil r of None \<Rightarrow> True | Some l \<Rightarrow> l \<le> now)"

definition claimed :: "instant \<Rightarrow> instant \<Rightarrow> instant \<Rightarrow> idem_record \<Rightarrow> idem_record" where
  "claimed clock newLockedUntil newExpiresAt r =
     r\<lparr>RecStatus := IdempotencyStatusProcessing, LockedUntil := Some newLockedUntil,
       ErrorReason := None, UpdatedAt := clock, ExpiresAt := newExpiresAt\<rparr>"

definition pg_TryReclaim ::
  "instant \<Rightarrow> int \<Rightarrow> string \<Rightarrow> instant \<Rightarrow> instant \<Rightarrow> instant \<Rightarrow> pg_store
    \<Rightarrow> (go_error + bool) \<times> pg_store" where
  "pg_TryReclaim clock rid fromStatus now newLockedUntil newExpiresAt =
     statement (\<lambda>db.
       let (affected, db') = update_where (\<lambda>r. ID r = rid \<and> claimable fromStatus now r)
             (claimed clock newLockedUntil newExpiresAt) db
       in (affected > 0, db'))"

definition lock_held :: "string \<Rightarrow> idem_record \<Rightarrow> bool" where
  "lock_held requestFingerprint r \<longleftrightarrow>
     RecStatus r = IdempotencyStatusProcessing \<and> RequestFingerprint r = requestFingerprint"

definition extended :: "instant \<Rightarrow> instant \<Rightarrow> instant \<Rightarrow> idem_record \<Rightarrow> idem_record" where
  "extended clock newLockedUntil newExpiresAt r =
     r\<lparr>LockedUntil := Some newLockedUntil, ExpiresAt := newExpiresAt, UpdatedAt := clock\<rparr>"

definition pg_ExtendProcessingLock ::
  "instant \<Rightarrow> int \<Rightarrow> string \<Rightarrow> instant \<Rightarrow> instant \<Rightarrow> pg_store \<Rightarrow> (go_error + bool) \<times> pg_store" where
  "pg_ExtendProcessingLock clock rid requestFingerprint newLockedUntil newExpiresAt =
     statement (\<lambda>db.
       let (affected, db') = update_where (\<lambda>r. ID r = rid \<and> lock_held requestFingerprint r)
             (extended clock newLockedUntil newExpiresAt) db
       in (affected > 0, db'))"

definition exec_error :: "(go_error + 'a) \<times> 's \<Rightarrow> go_error option \<times> 's" where
  "exec_error res = (case fst res of Inl e \<Rightarrow> Some e | Inr _ \<Rightarrow> None, snd res)"

definition succeeded :: "instant \<Rightarrow> int \<Rightarrow> string \<Rightarrow> instant \<Rightarrow> idem_record \<Rightarrow> idem_record" where
  "succeeded clock responseStatus responseBody expiresAt r =
     r\<lparr>RecStatus := IdempotencyStatusSucceeded, ResponseStatus := Some responseStatus,
       ResponseBody := Some responseBody, ErrorReason := None, LockedUntil := None,
       ExpiresAt := expiresAt, UpdatedAt := clock\<rparr>"

definition pg_MarkSucceeded ::
  "instant \<Rightarrow> int \<Rightarrow> int \<Rightarrow> string \<Rightarrow> instant \<Rightarrow> pg_store \<Rightarrow> go_error option \<times> pg_store" where
  "pg_MarkSucceeded clock rid responseStatus responseBody expiresAt db =
     exec_error (statement (update_where (\<lambda>r. ID r = rid)
       (succeeded clock responseStatus responseBody expiresAt)) db)"

definition failed_retryable :: "instant \<Rightarrow> string \<Rightarrow> instant \<Rightarrow> instant \<Rightarrow> idem_record \<Rightarrow> idem_record" where
  "failed_retryable clock errorReason lockedUntil expiresAt r =
     r\<lparr>RecStatus := IdempotencyStatusFailedRetryable, ErrorReason := Some errorReason,
       LockedUntil := Some lockedUntil, ExpiresAt := expiresAt, UpdatedAt := clock\<rparr>"

definition pg_MarkFailedRetryable ::
  "instant \<Rightarrow> int \<Rightarrow> string \<Rightarrow> instant \<Rightarrow> instant \<Rightarrow> pg_store \<Rightarrow> go_error option \<times> pg_store" where
  "pg_MarkFailedRetryable clock rid errorReason lockedUntil expiresAt db =
     exec_error (statement (update_where (\<lambda>r. ID r = rid)
       (failed_retryable clock errorReason lockedUntil expiresAt)) db)"

text \<open>
  \<^verbatim>\<open>WITH victims AS (... ORDER BY expires_at ASC LIMIT n) DELETE ...\<close>; rows with one expiry
  are taken in table order, a choice the statement leaves open.
\<close>

definition victims :: "instant \<Rightarrow> int \<Rightarrow> pg_store \<Rightarrow> idem_record list" where
  "victims now limit db =
     take (nat limit)
       (sort_by (\<lambda>a b. ExpiresAt a < ExpiresAt b) (filter (\<lambda>r. ExpiresAt r \<le> now) (Rows db)))"

definition pg_DeleteExpired :: "instant \<Rightarrow> instant \<Rightarrow> int \<Rightarrow> pg_store \<Rightarrow> (go_error + int) \<times> pg_store" where
  "pg_DeleteExpired clock now limit =
     (let limit' = (if limit \<le> 0 then 500 else limit)
      in statement (\<lambda>db.
           let gone = ID ` set (victims now limit' db)
           in (int (length (filter (\<lambda>r. ID r \<in> gone) (Rows db))),
               db\<lparr>Rows := filter (\<lambda>r. ID r \<notin> gone) (Rows db)\<rparr>)))"

definition NewIdempotencyRepository :: "pg_store idem_repo" where
  "NewIdempotencyRepository =
     \<lparr>CreateProcessing = pg_CreateProcessing,
      GetByScopeAndKeyHash = pg_GetByScopeAndKeyHash,
      TryReclaim = pg_TryReclaim,
      ExtendProcessingLock = pg_ExtendProcessingLock,
      MarkSucceeded = pg_MarkSucceeded,
      MarkFailedRetryable = pg_MarkFailedRetryable,
      DeleteExpired = pg_DeleteExpired\<rparr>"

section \<open>The store as a map from ids to records\<close>

definition row_of :: "pg_store \<Rightarrow> int \<Rightarrow> idem_record option" where
  "row_of db rid = find (\<lambda>r. ID r = rid) (Rows db)"

definition key_of :: "idem_record \<Rightarrow> string \<times> string" where
  "key_of r = (Scope r, IdempotencyKeyHash r)"

text \<open>The primary key, the unique index, and the sequence ahead of the ids it has given out.\<close>

definition store_inv :: "pg_store \<Rightarrow> bool" where
  "store_inv db \<longleftrightarrow>
     distinct (map ID (Rows db)) \<and> distinct (map key_of (Rows db)) \<and>
     (\<forall>r \<in> set (Rows db). 0 < ID r \<and> ID r < NextID db) \<and> 0 < NextID db"

lemma find_cong_id: "distinct (map f xs) \<Longrightarrow> x \<in> set xs \<Longrightarrow> find (\<lambda>y. f y = f x) xs = Some x"
  by (induction xs) auto

lemma row_of_Some:
  "distinct (map ID (Rows db)) \<Longrightarrow> row_of db i = Some r \<longleftrightarrow> r \<in> set (Rows db) \<and> ID r = i"
  using find_cong_id [of ID "Rows db" r] by (auto simp: row_of_def find_Some_iff)

lemma row_of_None: "row_of db i = None \<longleftrightarrow> (\<forall>r \<in> set (Rows db). ID r \<noteq> i)"
  by (auto simp: row_of_def find_None_iff)

lemma row_of_Faults [simp]: "row_of (db\<lparr>Faults := fs\<rparr>) = row_of db"
  by (simp add: row_of_def fun_eq_iff)

lemma row_of_NextID [simp]: "row_of (db\<lparr>NextID := n\<rparr>) = row_of db"
  by (simp add: row_of_def fun_eq_iff)

lemma store_inv_Faults [simp]: "store_inv (db\<lparr>Faults := fs\<rparr>) = store_inv db"
  by (simp add: store_inv_def)

lemma store_inv_row_of: "store_inv db \<Longrightarrow> row_of db i = Some r \<longleftrightarrow> r \<in> set (Rows db) \<and> ID r = i"
  by (simp add: store_inv_def row_of_Some)

lemma find_map_same:
  "(\<And>x. P (f x) = P x) \<Longrightarrow> find P (map f xs) = map_option f (find P xs)"
  by (induction xs) auto

lemma row_of_update_where:
  assumes "\<And>r. ID (upd r) = ID r"
  shows "row_of (snd (update_where cond upd db)) i =
    map_option (\<lambda>r. if cond r then upd r else r) (row_of db i)"
  unfolding row_of_def update_where_def by (simp add: assms find_map_same)

lemma store_inv_update_where:
  assumes "\<And>r. ID (upd r) = ID r" and "\<And>r. key_of (upd r) = key_of r" and "store_inv db"
  shows "store_inv (snd (update_where cond upd db))"
proof -
  have "ID \<circ> (\<lambda>r. if cond r then upd r else r) = ID"
    by (auto simp: fun_eq_iff assms(1))
  moreover have "key_of \<circ> (\<lambda>r. if cond r then upd r else r) = key_of"
    by (auto simp: fun_eq_iff assms(2))
  ultimately show ?thesis
    using assms(1,3) by (auto simp: store_inv_def update_where_def)
qed

lemma update_where_affected: "0 < fst (update_where cond upd db) \<longleftrightarrow> (\<exists>r \<in> set (Rows db). cond r)"
  by (auto simp: update_where_def filter_empty_conv)

text \<open>The effect of a conditional update of one record on the map of records.\<close>

definition update_at :: "('i \<rightharpoonup> 'r) \<Rightarrow> 'i \<Rightarrow> ('r \<Rightarrow> bool) \<Rightarrow> ('r \<Rightarrow> 'r) \<Rightarrow> ('i \<rightharpoonup> 'r)" where
  "update_at m i P upd =
     (case m i of Some r \<Rightarrow> if P r then m(i \<mapsto> upd r) else m | None \<Rightarrow> m)"

text \<open>
  An update of the row with one id under a further condition: affected exactly when that row
  exists and meets the condition, and then only that row changes.
\<close>

lemma update_row:
  assumes "store_inv db" and "\<And>r. ID (upd r) = ID r"
  shows "row_of (snd (update_where (\<lambda>r. ID r = rid \<and> P r) upd db)) =
      update_at (row_of db) rid P upd"
    and "0 < fst (update_where (\<lambda>r. ID r = rid \<and> P r) upd db) \<longleftrightarrow> (\<exists>r. row_of db rid = Some r \<and> P r)"
proof -
  have other: "map_option (\<lambda>r. if ID r = rid \<and> P r then upd r else r) (row_of db i) = row_of db i"
    if "i \<noteq> rid" for i
  proof (cases "row_of db i")
    case (Some r)
    then have "ID r = i" using assms(1) by (simp add: store_inv_row_of)
    with Some that show ?thesis by simp
  qed simp
  show "row_of (snd (update_where (\<lambda>r. ID r = rid \<and> P r) upd db)) =
      update_at (row_of db) rid P upd" (is "?l = ?r")
  proof
    fix i
    show "?l i = ?r i"
    proof (cases "i = rid")
      case True
      have "row_of db rid = Some r \<Longrightarrow> ID r = rid" for r
        using assms(1) by (simp add: store_inv_row_of)
      with True show ?thesis
        by (cases "row_of db rid") (auto simp: row_of_update_where assms(2) update_at_def)
    next
      case False
      then show ?thesis
        using other by (simp add: row_of_update_where assms(2) update_at_def split: option.split)
    qed
  qed
  show "0 < fst (update_where (\<lambda>r. ID r = rid \<and> P r) upd db) \<longleftrightarrow> (\<exists>r. row_of db rid = Some r \<and> P r)"
    using assms(1) by (auto simp: update_where_affected store_inv_row_of)
qed

text \<open>A statement: confirmed with its effect, or an error with or without the effect.\<close>

lemma statement_cases:
  obtains (confirmed) db' where "statement f db = (Inr (fst (f db')), snd (f db'))"
      and "db' = db\<lparr>Faults := tl (Faults db)\<rparr>"
    | (lost) "statement f db = (Inl db_error, db\<lparr>Faults := tl (Faults db)\<rparr>)"
    | (unconfirmed) db' where "statement f db = (Inl db_error, snd (f db'))"
      and "db' = db\<lparr>Faults := tl (Faults db)\<rparr>"
proof (cases "Faults db")
  case Nil
  then show ?thesis by (intro that(1)) (simp_all add: statement_def Let_def)
next
  case (Cons a fs)
  then show ?thesis
    by (cases a) (simp_all add: statement_def Let_def that)
qed

lemma statement_inv:
  assumes "store_inv db" and "\<And>d. store_inv d \<Longrightarrow> store_inv (snd (f d))"
  shows "store_inv (snd (statement f db))"
  by (cases f db rule: statement_cases) (simp_all add: assms)

text \<open>
  What an operation with a given effect and answer may do: answer and take effect, or report an
  error with the effect in place or not.
\<close>

definition served_or_failed :: "'m \<Rightarrow> 'm \<Rightarrow> 'a \<Rightarrow> go_error + 'a \<Rightarrow> 'm \<Rightarrow> bool" where
  "served_or_failed before after answer res m \<longleftrightarrow>
     (case res of Inr a \<Rightarrow> a = answer \<and> m = after | Inl _ \<Rightarrow> m = before \<or> m = after)"

lemma statement_served:
  assumes "\<And>fs. fst (f (db\<lparr>Faults := fs\<rparr>)) = answer"
    and "\<And>fs. row_of (snd (f (db\<lparr>Faults := fs\<rparr>))) = after"
  shows "served_or_failed (row_of db) after answer (fst (statement f db))
    (row_of (snd (statement f db)))"
  by (cases f db rule: statement_cases) (simp_all add: served_or_failed_def assms)

definition record_changed :: "idem_record \<Rightarrow> idem_record \<Rightarrow> bool" where
  "record_changed r r' \<longleftrightarrow> ID r' = ID r \<and> key_of r' = key_of r"

lemma record_updates [simp]:
  "ID (claimed t l x r) = ID r" "key_of (claimed t l x r) = key_of r"
  "ID (extended t l x r) = ID r" "key_of (extended t l x r) = key_of r"
  "ID (succeeded t c b x r) = ID r" "key_of (succeeded t c b x r) = key_of r"
  "ID (failed_retryable t e l x r) = ID r" "key_of (failed_retryable t e l x r) = key_of r"
  by (simp_all add: claimed_def extended_def succeeded_def failed_retryable_def key_of_def)

text \<open>One lemma for the three guarded updates, one for the two unguarded ones.\<close>

lemma guarded_update:
  assumes "store_inv db" and "\<And>r. ID (upd r) = ID r" and "\<And>r. key_of (upd r) = key_of r"
    and f: "f = (\<lambda>db. let (affected, db') = update_where (\<lambda>r. ID r = rid \<and> P r) upd db
       in (affected > 0, db'))"
  shows "store_inv (snd (statement f db))"
    and "served_or_failed (row_of db) (update_at (row_of db) rid P upd)
      (\<exists>r. row_of db rid = Some r \<and> P r) (fst (statement f db)) (row_of (snd (statement f db)))"
proof -
  show "store_inv (snd (statement f db))"
    by (rule statement_inv) (use assms in \<open>auto simp: case_prod_beta intro!: store_inv_update_where\<close>)
  show "served_or_failed (row_of db) (update_at (row_of db) rid P upd)
      (\<exists>r. row_of db rid = Some r \<and> P r) (fst (statement f db)) (row_of (snd (statement f db)))"
    using assms update_row [of "db\<lparr>Faults := fs\<rparr>" upd rid P for fs]
    by (intro statement_served) (simp_all add: case_prod_beta)
qed

lemma unguarded_update:
  assumes "store_inv db" and "\<And>r. ID (upd r) = ID r" and "\<And>r. key_of (upd r) = key_of r"
    and res: "res = statement (update_where (\<lambda>r. ID r = rid) upd) db"
  shows "store_inv (snd res)"
    and "served_or_failed (row_of db) (update_at (row_of db) rid (\<lambda>_. True) upd)
      (length (filter (\<lambda>r. ID r = rid) (Rows db))) (fst res) (row_of (snd res))"
proof -
  show "store_inv (snd res)"
    unfolding res
    by (rule statement_inv) (use assms in \<open>auto intro!: store_inv_update_where\<close>)
  show "served_or_failed (row_of db) (update_at (row_of db) rid (\<lambda>_. True) upd)
      (length (filter (\<lambda>r. ID r = rid) (Rows db))) (fst res) (row_of (snd res))"
    using assms update_row(1) [of "db\<lparr>Faults := fs\<rparr>" upd rid "\<lambda>_. True" for fs]
    unfolding res by (intro statement_served) (simp_all add: update_where_def)
qed

text \<open>Insertion, lookup and deletion on the map of records.\<close>

definition key_free :: "(int \<rightharpoonup> idem_record) \<Rightarrow> string \<times> string \<Rightarrow> bool" where
  "key_free m k \<longleftrightarrow> (\<forall>i r. m i = Some r \<longrightarrow> key_of r \<noteq> k)"

definition creates ::
  "(int \<rightharpoonup> idem_record) \<Rightarrow> instant \<Rightarrow> idem_record \<Rightarrow> int \<Rightarrow> (int \<rightharpoonup> idem_record) \<Rightarrow> bool" where
  "creates m t rec i m' \<longleftrightarrow>
     m i = None \<and> 0 < i \<and> key_free m (key_of rec) \<and> m' = m(i \<mapsto> created_row t i rec)"

definition create_outcome ::
  "(int \<rightharpoonup> idem_record) \<Rightarrow> instant \<Rightarrow> idem_record \<Rightarrow> go_error + bool \<times> idem_record
    \<Rightarrow> (int \<rightharpoonup> idem_record) \<Rightarrow> bool" where
  "create_outcome m t rec res m' \<longleftrightarrow>
     (case res of
        Inr (True, rec') \<Rightarrow>
          creates m t rec (ID rec') m' \<and> rec' = rec\<lparr>ID := ID rec', CreatedAt := t, UpdatedAt := t\<rparr>
      | Inr (False, rec') \<Rightarrow> rec' = rec \<and> m' = m \<and> \<not> key_free m (key_of rec)
      | Inl _ \<Rightarrow> m' = m \<or> (\<exists>i. creates m t rec i m'))"

definition get_outcome ::
  "(int \<rightharpoonup> idem_record) \<Rightarrow> string \<times> string \<Rightarrow> go_error + idem_record option \<Rightarrow> bool" where
  "get_outcome m k res \<longleftrightarrow>
     (case res of
        Inr (Some r) \<Rightarrow> m (ID r) = Some r \<and> key_of r = k
      | Inr None \<Rightarrow> key_free m k
      | Inl _ \<Rightarrow> True)"

definition delete_outcome ::
  "(int \<rightharpoonup> idem_record) \<Rightarrow> instant \<Rightarrow> (int \<rightharpoonup> idem_record) \<Rightarrow> bool" where
  "delete_outcome m now m' \<longleftrightarrow>
     (\<forall>i. m' i = m i \<or> m' i = None \<and> (\<exists>r. m i = Some r \<and> ExpiresAt r \<le> now))"

lemma key_free_rows:
  "store_inv db \<Longrightarrow> key_free (row_of db) (key_of rec) \<longleftrightarrow>
    \<not> (\<exists>r \<in> set (Rows db). same_key (Scope rec) (IdempotencyKeyHash rec) r)"
  by (auto simp: key_free_def store_inv_row_of same_key_def key_of_def)

lemma key_of_created_row [simp]: "key_of (created_row t i r) = key_of r" "ID (created_row t i r) = i"
  by (simp_all add: created_row_def key_of_def)

lemma insert_processing_laws:
  assumes inv: "store_inv db"
  shows "store_inv (snd (insert_processing t rec db))"
    and "create_outcome (row_of db) t rec (Inr (fst (insert_processing t rec db)))
      (row_of (snd (insert_processing t rec db)))"
proof -
  let ?taken = "\<exists>r \<in> set (Rows db). same_key (Scope rec) (IdempotencyKeyHash rec) r"
  have fresh: "row_of db (NextID db) = None"
    using inv by (auto simp: row_of_None store_inv_def)
  have rows: "row_of (db\<lparr>NextID := n, Rows := Rows db @ [r]\<rparr>) = (row_of db)(ID r \<mapsto> r)"
    if "row_of db (ID r) = None" for n r
  proof
    fix i
    have "find P (xs @ [r]) = (case find P xs of None \<Rightarrow> if P r then Some r else None | Some y \<Rightarrow> Some y)"
      for P and xs :: "idem_record list" by (induction xs) auto
    then show "row_of (db\<lparr>NextID := n, Rows := Rows db @ [r]\<rparr>) i = ((row_of db)(ID r \<mapsto> r)) i"
      using that by (auto simp: row_of_def split: option.split)
  qed
  show "store_inv (snd (insert_processing t rec db))"
  proof (cases ?taken)
    case True
    with inv show ?thesis by (auto simp: insert_processing_def store_inv_def Let_def)
  next
    case False
    with inv have "key_of rec \<notin> key_of ` set (Rows db)"
      by (auto simp: same_key_def key_of_def)
    with False inv show ?thesis
      by (auto simp: insert_processing_def store_inv_def Let_def intro: less_trans)
  qed
  show "create_outcome (row_of db) t rec (Inr (fst (insert_processing t rec db)))
      (row_of (snd (insert_processing t rec db)))"
  proof (cases ?taken)
    case True
    with inv show ?thesis
      by (simp add: insert_processing_def create_outcome_def key_free_rows Let_def)
  next
    case False
    with inv fresh show ?thesis
      by (simp add: insert_processing_def create_outcome_def creates_def key_free_rows Let_def rows
          store_inv_def)
  qed
qed

lemma create_outcome_error:
  "create_outcome m t rec (Inr x) m' \<Longrightarrow> create_outcome m t rec (Inl e) m'"
  by (auto simp: create_outcome_def split: prod.splits bool.splits)

lemma pg_create:
  assumes "store_inv db"
  shows "store_inv (snd (pg_CreateProcessing t rec db))"
    and "create_outcome (row_of db) t rec (fst (pg_CreateProcessing t rec db))
      (row_of (snd (pg_CreateProcessing t rec db)))"
proof -
  show "store_inv (snd (pg_CreateProcessing t rec db))"
    unfolding pg_CreateProcessing_def
    by (rule statement_inv) (use assms insert_processing_laws(1) in auto)
  note law = insert_processing_laws(2) [of "db\<lparr>Faults := tl (Faults db)\<rparr>" t rec]
  show "create_outcome (row_of db) t rec (fst (pg_CreateProcessing t rec db))
      (row_of (snd (pg_CreateProcessing t rec db)))"
    unfolding pg_CreateProcessing_def
    by (cases "insert_processing t rec" db rule: statement_cases)
      (use assms law create_outcome_error [OF law, of db_error] in
        \<open>simp_all, simp add: create_outcome_def\<close>)
qed

lemma pg_get:
  assumes "store_inv db"
  shows "store_inv (snd (pg_GetByScopeAndKeyHash t sc kh db))"
    and "row_of (snd (pg_GetByScopeAndKeyHash t sc kh db)) = row_of db"
    and "get_outcome (row_of db) (sc, kh) (fst (pg_GetByScopeAndKeyHash t sc kh db))"
proof -
  have rows: "get_outcome (row_of db) (sc, kh) (Inr (find (same_key sc kh) (Rows db)))"
    using assms
    by (auto simp: get_outcome_def key_free_def find_None_iff find_Some_iff store_inv_row_of
        same_key_def key_of_def split: option.split)
  show "store_inv (snd (pg_GetByScopeAndKeyHash t sc kh db))"
    unfolding pg_GetByScopeAndKeyHash_def
    by (rule statement_inv) (use assms in auto)
  show "row_of (snd (pg_GetByScopeAndKeyHash t sc kh db)) = row_of db"
    unfolding pg_GetByScopeAndKeyHash_def
    by (cases "\<lambda>db :: pg_store. (find (same_key sc kh) (Rows db), db)" db rule: statement_cases) simp_all
  show "get_outcome (row_of db) (sc, kh) (fst (pg_GetByScopeAndKeyHash t sc kh db))"
    unfolding pg_GetByScopeAndKeyHash_def
    by (cases "\<lambda>db :: pg_store. (find (same_key sc kh) (Rows db), db)" db rule: statement_cases)
      (use rows in \<open>simp_all, simp_all add: get_outcome_def\<close>)
qed

lemma victims_expired: "r \<in> set (victims now limit db) \<Longrightarrow> r \<in> set (Rows db) \<and> ExpiresAt r \<le> now"
  by (auto simp: victims_def dest: in_set_takeD)

lemma pg_delete:
  assumes "store_inv db"
  shows "store_inv (snd (pg_DeleteExpired t now limit db))"
    and "delete_outcome (row_of db) now (row_of (snd (pg_DeleteExpired t now limit db)))"
proof -
  let ?l = "if limit \<le> 0 then 500 else limit"
  let ?f = "\<lambda>db. let gone = ID ` set (victims now ?l db)
           in (int (length (filter (\<lambda>r. ID r \<in> gone) (Rows db))),
               db\<lparr>Rows := filter (\<lambda>r. ID r \<notin> gone) (Rows db)\<rparr>)"
  have f_inv: "store_inv d \<Longrightarrow> store_inv (snd (?f d))" for d
    by (auto simp: store_inv_def Let_def distinct_map_filter)
  have f_del: "delete_outcome (row_of d) now (row_of (snd (?f d)))" if d: "store_inv d" for d
    unfolding delete_outcome_def
  proof
    fix i
    have "row_of (snd (?f d)) i = Some r \<longleftrightarrow> row_of d i = Some r \<and> i \<notin> ID ` set (victims now ?l d)" for r
      using store_inv_row_of [OF d] store_inv_row_of [OF f_inv [OF d]] by (auto simp: Let_def)
    then have iff: "row_of (snd (?f d)) i =
        (if i \<in> ID ` set (victims now ?l d) then None else row_of d i)"
      by (metis not_None_eq)
    show "row_of (snd (?f d)) i = row_of d i \<or>
        row_of (snd (?f d)) i = None \<and> (\<exists>r. row_of d i = Some r \<and> ExpiresAt r \<le> now)"
    proof (cases "i \<in> ID ` set (victims now ?l d)")
      case True
      then obtain v where "v \<in> set (victims now ?l d)" "i = ID v" by blast
      with victims_expired [of v now ?l d] d have "row_of d i = Some v" "ExpiresAt v \<le> now"
        by (simp_all add: store_inv_row_of)
      with iff True show ?thesis by auto
    qed (use iff in simp)
  qed
  show "store_inv (snd (pg_DeleteExpired t now limit db))"
    unfolding pg_DeleteExpired_def Let_def
    by (rule statement_inv) (use assms f_inv in \<open>auto simp: Let_def\<close>)
  show "delete_outcome (row_of db) now (row_of (snd (pg_DeleteExpired t now limit db)))"
    unfolding pg_DeleteExpired_def Let_def
    by (cases "\<lambda>db. (int (length (filter (\<lambda>r. ID r \<in> ID ` set (victims now ?l db)) (Rows db))),
               db\<lparr>Rows := filter (\<lambda>r. ID r \<notin> ID ` set (victims now ?l db)) (Rows db)\<rparr>)" db
        rule: statement_cases)
      (use assms f_del [of "db\<lparr>Faults := tl (Faults db)\<rparr>"] in
        \<open>simp_all add: Let_def, simp add: delete_outcome_def\<close>)
qed

section \<open>The contract of the interface\<close>

text \<open>
  \<open>look\<close> is the contents of the store, \<open>inv\<close> its invariant. Every operation may fail with or
  without its effect.
\<close>

locale record_store =
  fixes repo :: "'s idem_repo"
    and inv :: "'s \<Rightarrow> bool"
    and look :: "'s \<Rightarrow> int \<Rightarrow> idem_record option"
  assumes look_ID: "inv s \<Longrightarrow> look s i = Some r \<Longrightarrow> ID r = i \<and> 0 < i"
    and look_key: "inv s \<Longrightarrow> look s i = Some r \<Longrightarrow> look s j = Some r' \<Longrightarrow> key_of r = key_of r' \<Longrightarrow> i = j"
    and create_inv: "inv s \<Longrightarrow> inv (snd (CreateProcessing repo t rec s))"
    and create_law: "inv s \<Longrightarrow> create_outcome (look s) t rec (fst (CreateProcessing repo t rec s))
      (look (snd (CreateProcessing repo t rec s)))"
    and get_inv: "inv s \<Longrightarrow> inv (snd (GetByScopeAndKeyHash repo t sc kh s))"
    and get_pure: "inv s \<Longrightarrow> look (snd (GetByScopeAndKeyHash repo t sc kh s)) = look s"
    and get_law: "inv s \<Longrightarrow> get_outcome (look s) (sc, kh) (fst (GetByScopeAndKeyHash repo t sc kh s))"
    and reclaim_inv: "inv s \<Longrightarrow> inv (snd (TryReclaim repo t i st now l x s))"
    and reclaim_law: "inv s \<Longrightarrow> served_or_failed (look s)
      (update_at (look s) i (claimable st now) (claimed t l x))
      (\<exists>r. look s i = Some r \<and> claimable st now r)
      (fst (TryReclaim repo t i st now l x s)) (look (snd (TryReclaim repo t i st now l x s)))"
    and extend_inv: "inv s \<Longrightarrow> inv (snd (ExtendProcessingLock repo t i fp l x s))"
    and extend_law: "inv s \<Longrightarrow> served_or_failed (look s)
      (update_at (look s) i (lock_held fp) (extended t l x))
      (\<exists>r. look s i = Some r \<and> lock_held fp r)
      (fst (ExtendProcessingLock repo t i fp l x s)) (look (snd (ExtendProcessingLock repo t i fp l x s)))"
    and succeed_inv: "inv s \<Longrightarrow> inv (snd (MarkSucceeded repo t i c b x s))"
    and succeed_law: "inv s \<Longrightarrow>
      look (snd (MarkSucceeded repo t i c b x s)) = update_at (look s) i (\<lambda>_. True) (succeeded t c b x) \<or>
      fst (MarkSucceeded repo t i c b x s) \<noteq> None \<and> look (snd (MarkSucceeded repo t i c b x s)) = look s"
    and fail_inv: "inv s \<Longrightarrow> inv (snd (MarkFailedRetryable repo t i e l x s))"
    and fail_law: "inv s \<Longrightarrow>
      look (snd (MarkFailedRetryable repo t i e l x s)) =
        update_at (look s) i (\<lambda>_. True) (failed_retryable t e l x) \<or>
      fst (MarkFailedRetryable repo t i e l x s) \<noteq> None \<and>
        look (snd (MarkFailedRetryable repo t i e l x s)) = look s"
    and delete_inv: "inv s \<Longrightarrow> inv (snd (DeleteExpired repo t now lim s))"
    and delete_law: "inv s \<Longrightarrow> delete_outcome (look s) now (look (snd (DeleteExpired repo t now lim s)))"

interpretation pg: record_store NewIdempotencyRepository store_inv row_of
proof (unfold_locales, goal_cases)
  case (1 s i r)
  then show ?case by (auto simp: store_inv_row_of store_inv_def)
next
  case (2 s i r j r')
  then show ?case
    by (metis store_inv_row_of store_inv_def distinct_map inj_onD)
next
  case (3 s t rec)
  then show ?case by (simp add: NewIdempotencyRepository_def pg_create)
next
  case (4 s t rec)
  then show ?case by (simp add: NewIdempotencyRepository_def pg_create)
next
  case (5 s t sc kh)
  then show ?case by (simp add: NewIdempotencyRepository_def pg_get)
next
  case (6 s t sc kh)
  then show ?case by (simp add: NewIdempotencyRepository_def pg_get)
next
  case (7 s sc kh t)
  then show ?case by (simp add: NewIdempotencyRepository_def pg_get)
next
  case (8 s t i st now l x)
  then show ?case
    by (simp only: NewIdempotencyRepository_def idem_repo.simps pg_TryReclaim_def)
      (rule guarded_update(1) [OF 8 _ _ refl]; simp)
next
  case (9 s i st now t l x)
  then show ?case
    by (simp only: NewIdempotencyRepository_def idem_repo.simps pg_TryReclaim_def)
      (rule guarded_update(2) [OF 9 _ _ refl]; simp)
next
  case (10 s t i fp l x)
  then show ?case
    by (simp only: NewIdempotencyRepository_def idem_repo.simps pg_ExtendProcessingLock_def)
      (rule guarded_update(1) [OF 10 _ _ refl]; simp)
next
  case (11 s i fp t l x)
  then show ?case
    by (simp only: NewIdempotencyRepository_def idem_repo.simps pg_ExtendProcessingLock_def)
      (rule guarded_update(2) [OF 11 _ _ refl]; simp)
next
  case (12 s t i c b x)
  then show ?case
    by (simp add: NewIdempotencyRepository_def pg_MarkSucceeded_def exec_error_def
        unguarded_update(1) [OF 12 _ _ refl])
next
  case (13 s t i c b x)
  then show ?case
    using unguarded_update(2) [OF 13 _ _ refl, of "succeeded t c b x" i]
    by (auto simp: NewIdempotencyRepository_def pg_MarkSucceeded_def exec_error_def
        served_or_failed_def split: sum.splits)
next
  case (14 s t i e l x)
  then show ?case
    by (simp add: NewIdempotencyRepository_def pg_MarkFailedRetryable_def exec_error_def
        unguarded_update(1) [OF 14 _ _ refl])
next
  case (15 s t i e l x)
  then show ?case
    using unguarded_update(2) [OF 15 _ _ refl, of "failed_retryable t e l x" i]
    by (auto simp: NewIdempotencyRepository_def pg_MarkFailedRetryable_def exec_error_def
        served_or_failed_def split: sum.splits)
next
  case (16 s t now lim)
  then show ?case by (simp add: NewIdempotencyRepository_def pg_delete)
next
  case (17 s now t lim)
  then show ?case by (simp add: NewIdempotencyRepository_def pg_delete)
qed

end
