(* ===== verification/Idem_Lease.thy ===== *)
theory Idem_Lease
  imports Idem_Store
begin

text \<open>
  The owner-checked operations on the same table: the lease of a system operation
  (\<^verbatim>\<open>idempotency.OperationLeaseStore\<close>, \<^verbatim>\<open>idempotency/postgres/operation_lease.go\<close>), and the
  properties of the table itself: its keys stay unique under every sequence of statements, and
  the cleanup removes the expired rows that expired first.
\<close>

section \<open>Operation leases\<close>

record operation_claim =
  cl_Scope :: string
  cl_KeyHash :: string
  cl_OperationID :: string
  cl_Ownership :: string
  cl_Now :: instant
  cl_LockedUntil :: instant
  cl_ExpiresAt :: instant

definition lease_claimed :: "instant \<Rightarrow> operation_claim \<Rightarrow> idem_record \<Rightarrow> idem_record" where
  "lease_claimed clock c r =
     r\<lparr>RequestFingerprint := cl_OperationID c, RecStatus := IdempotencyStatusProcessing,
       ResponseBody := Some (cl_Ownership c), ResponseStatus := None, ErrorReason := None,
       LockedUntil := Some (cl_LockedUntil c), ExpiresAt := cl_ExpiresAt c, UpdatedAt := clock\<rparr>"

definition lease_row :: "instant \<Rightarrow> int \<Rightarrow> operation_claim \<Rightarrow> idem_record" where
  "lease_row clock i c =
     \<lparr>ID = i, Scope = cl_Scope c, IdempotencyKeyHash = cl_KeyHash c,
      RequestFingerprint = cl_OperationID c, RecStatus = IdempotencyStatusProcessing,
      ResponseStatus = None, ResponseBody = Some (cl_Ownership c), ErrorReason = None,
      LockedUntil = Some (cl_LockedUntil c), ExpiresAt = cl_ExpiresAt c,
      CreatedAt = clock, UpdatedAt = clock\<rparr>"

definition lease_free :: "instant \<Rightarrow> idem_record \<Rightarrow> bool" where
  "lease_free now r \<longleftrightarrow> (case LockedUntil r of None \<Rightarrow> True | Some l \<Rightarrow> l \<le> now)"

text \<open>
  \<^verbatim>\<open>INSERT ... ON CONFLICT DO UPDATE ... WHERE locked_until IS NULL OR locked_until <= now
  RETURNING id\<close>: the id of the inserted or updated row, or no row.
\<close>

definition upsert_operation :: "instant \<Rightarrow> operation_claim \<Rightarrow> pg_store \<Rightarrow> int option \<times> pg_store" where
  "upsert_operation clock c db =
     (let db' = db\<lparr>NextID := NextID db + 1\<rparr>
      in case find (same_key (cl_Scope c) (cl_KeyHash c)) (Rows db) of
           None \<Rightarrow> (Some (NextID db), db'\<lparr>Rows := Rows db @ [lease_row clock (NextID db) c]\<rparr>)
         | Some r \<Rightarrow>
             if lease_free (cl_Now c) r
             then (Some (ID r), snd (update_where (\<lambda>x. ID x = ID r) (lease_claimed clock c) db'))
             else (None, db'))"

definition pg_ClaimOperation ::
  "instant \<Rightarrow> operation_claim \<Rightarrow> pg_store \<Rightarrow> (go_error + idem_record option \<times> bool) \<times> pg_store" where
  "pg_ClaimOperation clock c db =
     (let (res, db') = statement (upsert_operation clock c) db
      in case res of
           Inl e \<Rightarrow> (Inl e, db')
         | Inr None \<Rightarrow>
             (case pg_GetByScopeAndKeyHash clock (cl_Scope c) (cl_KeyHash c) db' of
                (Inl e, db'') \<Rightarrow> (Inl e, db'')
              | (Inr rec, db'') \<Rightarrow> (Inr (rec, False), db''))
         | Inr (Some i) \<Rightarrow> (Inr (Some (lease_row 0 i c), True), db'))"

definition lease_owner :: "string \<Rightarrow> string \<Rightarrow> idem_record \<Rightarrow> bool" where
  "lease_owner operationID ownership r \<longleftrightarrow>
     RequestFingerprint r = operationID \<and> ResponseBody r = Some ownership \<and>
     RecStatus r = IdempotencyStatusProcessing"

definition exactly_one :: "(go_error + nat) \<times> 's \<Rightarrow> (go_error + bool) \<times> 's" where
  "exactly_one res = (case fst res of Inl e \<Rightarrow> Inl e | Inr n \<Rightarrow> Inr (n = 1), snd res)"

definition pg_RenewOperation ::
  "instant \<Rightarrow> int \<Rightarrow> string \<Rightarrow> string \<Rightarrow> instant \<Rightarrow> instant \<Rightarrow> pg_store \<Rightarrow> (go_error + bool) \<times> pg_store" where
  "pg_RenewOperation clock rid operationID ownership until expires db =
     exactly_one (statement (update_where (\<lambda>r. ID r = rid \<and> lease_owner operationID ownership r)
       (extended clock until expires)) db)"

text \<open>
  \<open>encoded\<close> is the JSON body \<^verbatim>\<open>{"operation_id":...,"released":true}\<close> of a successful release. A failed
  release clears the ownership in the body and frees the lock at once.
\<close>

definition lease_finished ::
  "(string \<Rightarrow> string) \<Rightarrow> instant \<Rightarrow> string \<Rightarrow> bool \<Rightarrow> string \<Rightarrow> instant \<Rightarrow> idem_record \<Rightarrow> idem_record" where
  "lease_finished encoded clock operationID success reason expires r =
     (let reason' = (if success then [] else reason)
      in r\<lparr>RecStatus := (if success then IdempotencyStatusSucceeded else IdempotencyStatusFailedRetryable),
           ResponseStatus := (if success then Some 200 else None),
           ResponseBody := (if success then Some (encoded operationID) else None),
           ErrorReason := (if reason' = [] then None else Some reason'),
           LockedUntil := (if success then None else Some clock),
           ExpiresAt := expires, UpdatedAt := clock\<rparr>)"

definition pg_FinishOperation ::
  "(string \<Rightarrow> string) \<Rightarrow> instant \<Rightarrow> int \<Rightarrow> string \<Rightarrow> string \<Rightarrow> bool \<Rightarrow> string \<Rightarrow> instant \<Rightarrow> pg_store
    \<Rightarrow> (go_error + bool) \<times> pg_store" where
  "pg_FinishOperation encoded clock rid operationID ownership success reason expires db =
     exactly_one (statement (update_where (\<lambda>r. ID r = rid \<and> lease_owner operationID ownership r)
       (lease_finished encoded clock operationID success reason expires)) db)"

section \<open>Every statement keeps the keys of the table\<close>

lemma lease_updates [simp]:
  "ID (lease_claimed t c r) = ID r" "key_of (lease_claimed t c r) = key_of r"
  "ID (lease_finished enc t oid ok why x r) = ID r" "key_of (lease_finished enc t oid ok why x r) = key_of r"
  "ID (lease_row t i c) = i" "key_of (lease_row t i c) = (cl_Scope c, cl_KeyHash c)"
  by (simp_all add: lease_claimed_def lease_finished_def lease_row_def key_of_def Let_def)

lemma store_inv_NextID: "store_inv db \<Longrightarrow> store_inv (db\<lparr>NextID := NextID db + 1\<rparr>)"
  by (auto simp: store_inv_def)

lemma store_inv_append:
  assumes "store_inv db" and "ID r = NextID db" and "key_of r \<notin> key_of ` set (Rows db)"
  shows "store_inv (db\<lparr>NextID := NextID db + 1, Rows := Rows db @ [r]\<rparr>)"
  using assms by (auto simp: store_inv_def intro: less_trans)

lemma exactly_one_store [simp]: "snd (exactly_one res) = snd res"
  by (simp add: exactly_one_def)

lemma upsert_inv:
  assumes "store_inv db"
  shows "store_inv (snd (upsert_operation t c db))"
proof (cases "find (same_key (cl_Scope c) (cl_KeyHash c)) (Rows db)")
  case None
  then have "(cl_Scope c, cl_KeyHash c) \<notin> key_of ` set (Rows db)"
    by (auto simp: find_None_iff same_key_def key_of_def)
  with None show ?thesis
    using assms store_inv_append [OF assms, of "lease_row t (NextID db) c"]
    by (simp add: upsert_operation_def)
next
  case (Some r)
  then show ?thesis
    using store_inv_NextID [OF assms] by (simp add: upsert_operation_def Let_def store_inv_update_where)
qed

lemma update_statement_inv:
  assumes "store_inv db" and "\<And>r. ID (upd r) = ID r" and "\<And>r. key_of (upd r) = key_of r"
  shows "store_inv (snd (statement (update_where cond upd) db))"
  by (rule statement_inv) (simp_all add: assms store_inv_update_where)

text \<open>All the statements of the two files.\<close>

datatype store_call =
    DoCreate idem_record
  | DoGet string string
  | DoReclaim int string instant instant instant
  | DoExtend int string instant instant
  | DoSucceed int int string instant
  | DoFail int string instant instant
  | DoDelete instant int
  | DoClaim operation_claim
  | DoRenew int string string instant instant
  | DoFinish int string string bool string instant

fun store_after :: "(string \<Rightarrow> string) \<Rightarrow> instant \<times> store_call \<Rightarrow> pg_store \<Rightarrow> pg_store" where
  "store_after enc (t, DoCreate rec) db = snd (pg_CreateProcessing t rec db)"
| "store_after enc (t, DoGet sc kh) db = snd (pg_GetByScopeAndKeyHash t sc kh db)"
| "store_after enc (t, DoReclaim i st now l x) db = snd (pg_TryReclaim t i st now l x db)"
| "store_after enc (t, DoExtend i fp l x) db = snd (pg_ExtendProcessingLock t i fp l x db)"
| "store_after enc (t, DoSucceed i c b x) db = snd (pg_MarkSucceeded t i c b x db)"
| "store_after enc (t, DoFail i e l x) db = snd (pg_MarkFailedRetryable t i e l x db)"
| "store_after enc (t, DoDelete now lim) db = snd (pg_DeleteExpired t now lim db)"
| "store_after enc (t, DoClaim c) db = snd (pg_ClaimOperation t c db)"
| "store_after enc (t, DoRenew i oid own l x) db = snd (pg_RenewOperation t i oid own l x db)"
| "store_after enc (t, DoFinish i oid own ok why x) db =
     snd (pg_FinishOperation enc t i oid own ok why x db)"

lemma claim_inv: "store_inv db \<Longrightarrow> store_inv (snd (pg_ClaimOperation t c db))"
proof -
  assume "store_inv db"
  then have inv: "store_inv (snd (statement (upsert_operation t c) db))"
    using upsert_inv by (rule statement_inv)
  then have "store_inv (snd (pg_GetByScopeAndKeyHash t sc kh (snd (statement (upsert_operation t c) db))))"
    for sc kh by (rule pg_get(1))
  with inv show ?thesis
    by (auto simp: pg_ClaimOperation_def split: prod.splits sum.splits option.splits)
      (metis snd_conv)+
qed

lemma store_after_inv: "store_inv db \<Longrightarrow> store_inv (store_after enc call db)"
proof (induction enc call db rule: store_after.induct)
  case (9 enc t i oid own l x db)
  then show ?case
    by (simp add: pg_RenewOperation_def update_statement_inv)
next
  case (10 enc t i oid own ok why x db)
  then show ?case
    by (simp add: pg_FinishOperation_def update_statement_inv)
qed (use pg.create_inv pg.get_inv pg.reclaim_inv pg.extend_inv pg.succeed_inv pg.fail_inv
  pg.delete_inv in \<open>simp_all add: NewIdempotencyRepository_def claim_inv\<close>)

definition empty_store :: "fault list \<Rightarrow> pg_store" where
  "empty_store fs = \<lparr>Rows = [], NextID = 1, Faults = fs\<rparr>"

text \<open>
  From an empty table, under every sequence of calls of the repository and of the lease
  store, with every pattern of lost and unconfirmed statements: no two rows share a
  (scope, key hash) pair or an id.
\<close>

theorem store_keys_unique:
  "distinct (map key_of (Rows (fold (store_after enc) calls (empty_store fs)))) \<and>
   distinct (map ID (Rows (fold (store_after enc) calls (empty_store fs))))"
proof -
  have "store_inv db \<Longrightarrow> store_inv (fold (store_after enc) calls db)" for db
    by (induction calls arbitrary: db) (simp_all add: store_after_inv)
  moreover have "store_inv (empty_store fs)"
    by (simp add: empty_store_def store_inv_def)
  ultimately show ?thesis
    by (simp add: store_inv_def)
qed

section \<open>Cleanup\<close>

interpretation ex: weak_less "\<lambda>a b :: idem_record. ExpiresAt a < ExpiresAt b"
  by (rule weak_less_rank)

lemma sorted_take_drop:
  assumes "sorted_by lt xs" and "x \<in> set (take n xs)" and "y \<in> set (drop n xs)"
  shows "\<not> lt y x"
  using assms sorted_wrt_append [of "\<lambda>a b. \<not> lt b a" "take n xs" "drop n xs"]
  by auto

lemma filter_ids:
  assumes "distinct (map ID rs)" and "set vs \<subseteq> set rs"
  shows "filter (\<lambda>r. ID r \<in> ID ` set vs) rs = filter (\<lambda>r. r \<in> set vs) rs"
    and "filter (\<lambda>r. ID r \<notin> ID ` set vs) rs = filter (\<lambda>r. r \<notin> set vs) rs"
  using assms by (auto intro!: filter_cong simp: distinct_map inj_on_def)

text \<open>
  A confirmed cleanup keeps every row that has not expired and deletes, in the order of
  expiry, exactly as many expired rows as the limit allows (500 when none is given): what it
  leaves of the expired rows expired no earlier than what it removed, and it reports the number
  of removed rows.
\<close>

theorem cleanup_oldest_first:
  assumes "store_inv db" and "Faults db = Served # fs"
    and "pg_DeleteExpired clock now limit db = (res, db')"
  shows "\<exists>gone. res = Inr (int (length gone)) \<and>
     length gone = min (nat (if limit \<le> 0 then 500 else limit))
       (length (filter (\<lambda>r. ExpiresAt r \<le> now) (Rows db))) \<and>
     mset (Rows db) = mset (Rows db') + mset gone \<and>
     (\<forall>r \<in> set gone. ExpiresAt r \<le> now \<and>
        (\<forall>k \<in> set (Rows db'). ExpiresAt k \<le> now \<longrightarrow> ExpiresAt r \<le> ExpiresAt k))"
proof -
  define l where "l = (if limit \<le> 0 then 500 else limit)"
  define old where "old = sort_by (\<lambda>a b. ExpiresAt a < ExpiresAt b)
    (filter (\<lambda>r. ExpiresAt r \<le> now) (Rows db))"
  define vs where "vs = take (nat l) old"
  define gone where "gone = filter (\<lambda>r. r \<in> set vs) (Rows db)"
  have ids: "distinct (map ID (Rows db))" using assms(1) by (simp add: store_inv_def)
  then have dist: "distinct (Rows db)" by (simp add: distinct_map)
  then have "distinct old" unfolding old_def by (metis distinct_filter mset_eq_imp_distinct_iff mset_sort_by)
  then have dvs: "distinct vs" by (simp add: vs_def)
  have sub: "set vs \<subseteq> set (Rows db)" "\<forall>r \<in> set vs. ExpiresAt r \<le> now"
    by (auto simp: vs_def old_def dest: in_set_takeD)
  have victims: "victims now l (db\<lparr>Faults := fs\<rparr>) = vs"
    by (simp add: victims_def vs_def old_def)
  have out: "res = Inr (int (length gone))" "Rows db' = filter (\<lambda>r. r \<notin> set vs) (Rows db)"
    using assms(2,3) victims filter_ids [OF ids sub(1)]
    by (auto simp: pg_DeleteExpired_def statement_def Let_def gone_def l_def)
  have "set gone = set vs" "distinct gone"
    using sub dist by (auto simp: gone_def)
  with dvs have "length gone = length vs" by (metis distinct_card)
  then have len: "length gone = min (nat l) (length (filter (\<lambda>r. ExpiresAt r \<le> now) (Rows db)))"
    by (simp add: vs_def old_def min.commute)
  have "mset (Rows db) = mset (Rows db') + mset gone"
    by (simp add: out gone_def)
  moreover have first: "ExpiresAt r \<le> ExpiresAt k"
    if "r \<in> set gone" "k \<in> set (Rows db')" "ExpiresAt k \<le> now" for r k
  proof -
    have "k \<in> set old" "k \<notin> set (take (nat l) old)"
      using that out(2) by (auto simp: old_def vs_def)
    then have "k \<in> set (drop (nat l) old)" by (metis Un_iff append_take_drop_id set_append)
    moreover have "r \<in> set (take (nat l) old)" using that(1) \<open>set gone = set vs\<close> by (simp add: vs_def)
    ultimately show ?thesis
      using sorted_take_drop [OF ex.sorted_sort_by, of r "nat l"] by (force simp: old_def)
  qed
  moreover have "\<forall>r \<in> set gone. ExpiresAt r \<le> now" using sub(2) \<open>set gone = set vs\<close> by simp
  ultimately show ?thesis
    using out(1) len unfolding l_def by blast
qed

definition sample_row :: "int \<Rightarrow> string \<Rightarrow> instant \<Rightarrow> idem_record" where
  "sample_row i k x =
     \<lparr>ID = i, Scope = ''s'', IdempotencyKeyHash = k, RequestFingerprint = ''f'',
      RecStatus = IdempotencyStatusSucceeded, ResponseStatus = None, ResponseBody = None,
      ErrorReason = None, LockedUntil = None, ExpiresAt = x, CreatedAt = 0, UpdatedAt = 0\<rparr>"

lemma ExpiresAt_sample_row [simp]: "ExpiresAt (sample_row i k x) = x"
  by (simp add: sample_row_def)

lemma cleanup_oldest_first_witness:
  "\<exists>gone :: idem_record list. fst (pg_DeleteExpired 9 9 1
      \<lparr>Rows = [sample_row 1 ''a'' 8, sample_row 2 ''b'' 5, sample_row 3 ''c'' 50],
       NextID = 4, Faults = [Served]\<rparr>) = Inr (int (length gone)) \<and> length gone = 1"
proof -
  let ?db = "\<lparr>Rows = [sample_row 1 ''a'' 8, sample_row 2 ''b'' 5, sample_row 3 ''c'' 50],
       NextID = 4, Faults = [Served]\<rparr>"
  have "store_inv ?db" "Faults ?db = Served # []"
    by (simp_all add: store_inv_def sample_row_def key_of_def)
  from cleanup_oldest_first [OF this prod.collapse [symmetric], where clock = 9
      and now = 9 and limit = 1]
  show ?thesis by (rule ex_forward) simp
qed

section \<open>A lease that was taken over\<close>

text \<open>The calls one owner makes after its claim.\<close>

datatype owner_call =
    Renew instant instant
  | Finish bool string instant

fun owner_step ::
  "(string \<Rightarrow> string) \<Rightarrow> int \<Rightarrow> string \<Rightarrow> string \<Rightarrow> instant \<times> owner_call \<Rightarrow> pg_store
    \<Rightarrow> (go_error + bool) \<times> pg_store" where
  "owner_step enc i oid own (t, Renew l x) db = pg_RenewOperation t i oid own l x db"
| "owner_step enc i oid own (t, Finish ok why x) db = pg_FinishOperation enc t i oid own ok why x db"

fun owner_run ::
  "(string \<Rightarrow> string) \<Rightarrow> int \<Rightarrow> string \<Rightarrow> string \<Rightarrow> (instant \<times> owner_call) list \<Rightarrow> pg_store
    \<Rightarrow> (go_error + bool) list \<times> pg_store" where
  "owner_run enc i oid own [] db = ([], db)"
| "owner_run enc i oid own (c # cs) db =
     (let (r, db') = owner_step enc i oid own c db;
          (rs, db'') = owner_run enc i oid own cs db'
      in (r # rs, db''))"

lemma update_where_none:
  assumes "\<forall>r \<in> set (Rows db). \<not> cond r"
  shows "fst (update_where cond upd db) = 0" and "Rows (snd (update_where cond upd db)) = Rows db"
  using assms by (auto simp: update_where_def filter_empty_conv intro!: map_idI)

lemma owner_step_stale:
  assumes "\<forall>r \<in> set (Rows db). ID r = i \<longrightarrow> \<not> lease_owner oid own r"
  shows "fst (owner_step enc i oid own c db) \<noteq> Inr True"
    and "Rows (snd (owner_step enc i oid own c db)) = Rows db"
proof -
  let ?cond = "\<lambda>r. ID r = i \<and> lease_owner oid own r"
  have none: "fst (update_where ?cond upd (db\<lparr>Faults := fs\<rparr>)) = 0"
    "Rows (snd (update_where ?cond upd (db\<lparr>Faults := fs\<rparr>))) = Rows db" for upd fs
    using update_where_none [of "db\<lparr>Faults := fs\<rparr>" ?cond upd] assms by auto
  have "fst (exactly_one (statement (update_where ?cond upd) db)) \<noteq> Inr True \<and>
      Rows (snd (statement (update_where ?cond upd) db)) = Rows db" for upd
    by (cases "update_where ?cond upd" db rule: statement_cases)
      (simp_all add: exactly_one_def none)
  then show "fst (owner_step enc i oid own c db) \<noteq> Inr True"
    and "Rows (snd (owner_step enc i oid own c db)) = Rows db"
    by (cases "(enc, i, oid, own, c, db)" rule: owner_step.cases;
        simp add: pg_RenewOperation_def pg_FinishOperation_def)+
qed

lemma owner_run_stale:
  "\<forall>r \<in> set (Rows db). ID r = i \<longrightarrow> \<not> lease_owner oid own r \<Longrightarrow>
   Inr True \<notin> set (fst (owner_run enc i oid own cs db)) \<and>
   Rows (snd (owner_run enc i oid own cs db)) = Rows db"
proof (induction cs arbitrary: db)
  case (Cons c cs)
  let ?db = "snd (owner_step enc i oid own c db)"
  have "\<forall>r \<in> set (Rows ?db). ID r = i \<longrightarrow> \<not> lease_owner oid own r"
    using Cons.prems owner_step_stale(2) [OF Cons.prems] by simp
  from Cons.IH [OF this] show ?case
    using owner_step_stale [OF Cons.prems, of enc c] by (auto simp: case_prod_beta)
qed simp

lemma claimed_row_owned:
  assumes inv: "store_inv db" and c: "pg_ClaimOperation t c db = (Inr (Some rec, True), db')"
  shows "\<exists>r. row_of db' (ID rec) = Some r \<and> lease_owner (cl_OperationID c) (cl_Ownership c) r \<and>
    LockedUntil r = Some (cl_LockedUntil c) \<and> key_of r = (cl_Scope c, cl_KeyHash c)"
proof -
  from c obtain i where st: "statement (upsert_operation t c) db = (Inr (Some i), db')"
    and rec: "ID rec = i"
    by (auto simp: pg_ClaimOperation_def split: prod.splits sum.splits option.splits)
  define d where "d = db\<lparr>Faults := tl (Faults db)\<rparr>"
  have inv_d: "store_inv d" using inv by (simp add: d_def)
  have up: "upsert_operation t c d = (Some i, db')"
    using st by (cases "upsert_operation t c" db rule: statement_cases)
      (auto simp: d_def prod_eq_iff)
  have inv': "store_inv db'" using upsert_inv [OF inv_d, of t c] up by simp
  show ?thesis
  proof (cases "find (same_key (cl_Scope c) (cl_KeyHash c)) (Rows d)")
    case None
    with up have "lease_row t i c \<in> set (Rows db')"
      by (auto simp: upsert_operation_def Let_def)
    then show ?thesis
      using inv' rec by (auto simp: store_inv_row_of lease_row_def lease_owner_def key_of_def)
  next
    case (Some r)
    then have "r \<in> set (Rows d)" "key_of r = (cl_Scope c, cl_KeyHash c)"
      by (auto simp: find_Some_iff same_key_def key_of_def)
    moreover from this Some up have "lease_claimed t c r \<in> set (Rows db')" "i = ID r"
      by (auto simp: upsert_operation_def update_where_def Let_def split: if_splits)
    ultimately show ?thesis
      using inv' rec
      by (intro exI [of _ "lease_claimed t c r"])
        (simp add: store_inv_row_of, simp add: lease_claimed_def lease_owner_def)
  qed
qed

text \<open>
  C7: fencing. Once a second claim of the record has succeeded, the owner of an earlier claim
  (another operation id or another ownership token) can no longer affect it: whatever renewals
  and releases it still sends, none is confirmed and the table does not change.
\<close>

theorem lease_takeover_fences:
  assumes "store_inv db"
    and "pg_ClaimOperation t c db = (Inr (Some rec, True), db')"
    and "(oid, own) \<noteq> (cl_OperationID c, cl_Ownership c)"
    and "owner_run enc (ID rec) oid own calls db' = (answers, db'')"
  shows "Inr True \<notin> set answers \<and> Rows db'' = Rows db'"
proof -
  have "store_inv db'" using claim_inv [OF assms(1), of t c] assms(2) by simp
  with claimed_row_owned [OF assms(1,2)] assms(3)
  have "\<forall>r \<in> set (Rows db'). ID r = ID rec \<longrightarrow> \<not> lease_owner oid own r"
    by (metis lease_owner_def option.inject store_inv_row_of)
  from owner_run_stale [OF this, of enc calls] show ?thesis
    using assms(4) by simp
qed

definition sample_claim :: "string \<Rightarrow> instant \<Rightarrow> operation_claim" where
  "sample_claim own now =
     \<lparr>cl_Scope = ''sys'', cl_KeyHash = ''k'', cl_OperationID = ''op'', cl_Ownership = own,
      cl_Now = now, cl_LockedUntil = now + 10, cl_ExpiresAt = now + 100\<rparr>"

text \<open>The first lease expires at 11; the second claim comes at 20, the first owner renews at 21.\<close>

lemma lease_takeover_fences_witness:
  "let db1 = snd (pg_ClaimOperation 1 (sample_claim ''A'' 1) (empty_store []));
       (res, db2) = pg_ClaimOperation 20 (sample_claim ''B'' 20) db1
   in fst (pg_ClaimOperation 1 (sample_claim ''A'' 1) (empty_store []))
        = Inr (Some (lease_row 0 1 (sample_claim ''A'' 1)), True) \<and>
      res = Inr (Some (lease_row 0 1 (sample_claim ''B'' 20)), True) \<and>
      Rows (snd (owner_run (\<lambda>s. s) 1 ''op'' ''A'' [(21, Renew 31 121), (22, Finish True [] 90)] db2))
        = Rows db2"
proof -
  let ?db1 = "snd (pg_ClaimOperation 1 (sample_claim ''A'' 1) (empty_store []))"
  let ?db2 = "snd (pg_ClaimOperation 20 (sample_claim ''B'' 20) ?db1)"
  note eval = pg_ClaimOperation_def statement_def upsert_operation_def empty_store_def sample_claim_def
    same_key_def lease_row_def lease_free_def Let_def
  have inv: "store_inv ?db1" by (rule claim_inv) (simp add: empty_store_def store_inv_def)
  have first: "fst (pg_ClaimOperation 1 (sample_claim ''A'' 1) (empty_store []))
      = Inr (Some (lease_row 0 1 (sample_claim ''A'' 1)), True)"
    by (simp add: eval)
  have second: "pg_ClaimOperation 20 (sample_claim ''B'' 20) ?db1
      = (Inr (Some (lease_row 0 1 (sample_claim ''B'' 20)), True), ?db2)"
    by (simp add: eval)
  have "Inr True \<notin> set (fst (owner_run (\<lambda>s. s) (ID (lease_row 0 1 (sample_claim ''B'' 20))) ''op'' ''A''
        [(21, Renew 31 121), (22, Finish True [] 90)] ?db2)) \<and>
      Rows (snd (owner_run (\<lambda>s. s) (ID (lease_row 0 1 (sample_claim ''B'' 20))) ''op'' ''A''
        [(21, Renew 31 121), (22, Finish True [] 90)] ?db2)) = Rows ?db2"
    by (rule lease_takeover_fences [OF inv second _ prod.collapse [symmetric]])
      (simp add: sample_claim_def)
  then show ?thesis
    using first arg_cong [OF second, of fst] by (simp add: case_prod_beta)
qed

end
