(* ===== verification/Idem_Observe.thy ===== *)
theory Idem_Observe
  imports Go_Base "HOL-Library.Word"
begin

text \<open>
  The observation side of the write idempotency (\<^verbatim>\<open>idempotency_observability.go\<close>): the process-wide
  counters, which are 64-bit words that wrap, and the audit and metric lines handed to the
  observer. A nil observer is the flag False of \<open>observe\<close>. Attribute maps are lists of entries
  in any order. The decimal rendering of a duration in milliseconds (a float) is the parameter
  of \<open>recordIdempotencyProcessingDuration\<close>.
\<close>

section \<open>Audit lines\<close>

definition blank :: "char \<Rightarrow> bool" where
  "blank c \<longleftrightarrow> c = CHR 0x0A \<or> c = CHR 0x0D \<or> c = CHR 0x09 \<or> c = CHR 0x20"

definition safeAuditField :: "string \<Rightarrow> string" where
  "safeAuditField v =
     (let value = trim_space v
      in if value = [] then ''-'' else map (\<lambda>c. if blank c then CHR ''_'' else c) value)"

type_synonym attrs = "(string \<times> string) list"

definition appendSortedAttrs :: "attrs \<Rightarrow> string" where
  "appendSortedAttrs attrs =
     concat (map (\<lambda>k. '' '' @ k @ ''='' @ safeAuditField (the (map_of attrs k))) (sort (map fst attrs)))"

definition format_bool :: "bool \<Rightarrow> string" where
  "format_bool b = (if b then ''true'' else ''false'')"

definition audit_line :: "string \<Rightarrow> string \<Rightarrow> string \<Rightarrow> string \<Rightarrow> bool \<Rightarrow> attrs \<Rightarrow> string" where
  "audit_line endpoint scope keyHash stateTransition replayed attrs =
     ''[IdempotencyAudit]'' @ '' endpoint='' @ safeAuditField endpoint
     @ '' scope='' @ safeAuditField scope @ '' key_hash='' @ safeAuditField keyHash
     @ '' state_transition='' @ safeAuditField stateTransition
     @ '' replayed='' @ format_bool replayed @ appendSortedAttrs attrs"

definition metric_line :: "string \<Rightarrow> string \<Rightarrow> string \<Rightarrow> string \<Rightarrow> attrs \<Rightarrow> string" where
  "metric_line name endpoint scope value attrs =
     ''[IdempotencyMetric]'' @ '' name='' @ safeAuditField name
     @ '' endpoint='' @ safeAuditField endpoint @ '' scope='' @ safeAuditField scope
     @ '' value='' @ safeAuditField value @ appendSortedAttrs attrs"

section \<open>Counters and the observer\<close>

record idem_metrics =
  claimTotal :: "64 word"
  replayTotal :: "64 word"
  conflictTotal :: "64 word"
  retryBackoffTotal :: "64 word"
  processingDurationCount :: "64 word"
  processingDurationMicros :: "64 word"
  storeUnavailableTotal :: "64 word"

record obs_state =
  Metrics :: idem_metrics
  Observed :: "(string \<times> string) list"

definition observe :: "bool \<Rightarrow> string \<Rightarrow> string \<Rightarrow> obs_state \<Rightarrow> obs_state" where
  "observe observer component message o1 =
     (if observer then o1\<lparr>Observed := Observed o1 @ [(component, message)]\<rparr> else o1)"

definition logIdempotencyAudit ::
  "bool \<Rightarrow> string \<Rightarrow> string \<Rightarrow> string \<Rightarrow> string \<Rightarrow> bool \<Rightarrow> attrs \<Rightarrow> obs_state \<Rightarrow> obs_state" where
  "logIdempotencyAudit observer endpoint scope keyHash stateTransition replayed attrs =
     observe observer ''service.idempotency''
       (audit_line endpoint scope keyHash stateTransition replayed attrs)"

definition logIdempotencyMetric ::
  "bool \<Rightarrow> string \<Rightarrow> string \<Rightarrow> string \<Rightarrow> string \<Rightarrow> attrs \<Rightarrow> obs_state \<Rightarrow> obs_state" where
  "logIdempotencyMetric observer name endpoint scope value attrs =
     observe observer ''service.idempotency'' (metric_line name endpoint scope value attrs)"

definition recordIdempotencyClaim ::
  "bool \<Rightarrow> string \<Rightarrow> string \<Rightarrow> attrs \<Rightarrow> obs_state \<Rightarrow> obs_state" where
  "recordIdempotencyClaim observer endpoint scope attrs o1 =
     logIdempotencyMetric observer ''idempotency_claim_total'' endpoint scope ''1'' attrs
       (o1\<lparr>Metrics := Metrics o1\<lparr>claimTotal := claimTotal (Metrics o1) + 1\<rparr>\<rparr>)"

definition recordIdempotencyReplay ::
  "bool \<Rightarrow> string \<Rightarrow> string \<Rightarrow> attrs \<Rightarrow> obs_state \<Rightarrow> obs_state" where
  "recordIdempotencyReplay observer endpoint scope attrs o1 =
     logIdempotencyMetric observer ''idempotency_replay_total'' endpoint scope ''1'' attrs
       (o1\<lparr>Metrics := Metrics o1\<lparr>replayTotal := replayTotal (Metrics o1) + 1\<rparr>\<rparr>)"

definition recordIdempotencyConflict ::
  "bool \<Rightarrow> string \<Rightarrow> string \<Rightarrow> attrs \<Rightarrow> obs_state \<Rightarrow> obs_state" where
  "recordIdempotencyConflict observer endpoint scope attrs o1 =
     logIdempotencyMetric observer ''idempotency_conflict_total'' endpoint scope ''1'' attrs
       (o1\<lparr>Metrics := Metrics o1\<lparr>conflictTotal := conflictTotal (Metrics o1) + 1\<rparr>\<rparr>)"

definition recordIdempotencyRetryBackoff ::
  "bool \<Rightarrow> string \<Rightarrow> string \<Rightarrow> attrs \<Rightarrow> obs_state \<Rightarrow> obs_state" where
  "recordIdempotencyRetryBackoff observer endpoint scope attrs o1 =
     logIdempotencyMetric observer ''idempotency_retry_backoff_total'' endpoint scope ''1'' attrs
       (o1\<lparr>Metrics := Metrics o1\<lparr>retryBackoffTotal := retryBackoffTotal (Metrics o1) + 1\<rparr>\<rparr>)"

definition recordIdempotencyProcessingDuration ::
  "(duration \<Rightarrow> string) \<Rightarrow> bool \<Rightarrow> string \<Rightarrow> string \<Rightarrow> duration \<Rightarrow> attrs \<Rightarrow> obs_state \<Rightarrow> obs_state" where
  "recordIdempotencyProcessingDuration format_ms observer endpoint scope duration attrs o1 =
     (let d = (if duration < 0 then 0 else duration)
      in logIdempotencyMetric observer ''idempotency_processing_duration_ms'' endpoint scope
           (format_ms d) attrs
           (o1\<lparr>Metrics := Metrics o1
               \<lparr>processingDurationCount := processingDurationCount (Metrics o1) + 1,
                processingDurationMicros :=
                  processingDurationMicros (Metrics o1) + word_of_int (quot64 d 1000)\<rparr>\<rparr>))"

definition RecordIdempotencyStoreUnavailable ::
  "bool \<Rightarrow> string \<Rightarrow> string \<Rightarrow> string \<Rightarrow> obs_state \<Rightarrow> obs_state" where
  "RecordIdempotencyStoreUnavailable observer endpoint scope strategy o1 =
     logIdempotencyMetric observer ''idempotency_store_unavailable_total'' endpoint scope ''1''
       (if strategy = [] then [] else [(''strategy'', strategy)])
       (o1\<lparr>Metrics := Metrics o1\<lparr>storeUnavailableTotal := storeUnavailableTotal (Metrics o1) + 1\<rparr>\<rparr>)"

section \<open>An audit line can be read back\<close>

lemma safeAuditField_no_blank: "c \<in> set (safeAuditField v) \<Longrightarrow> \<not> blank c"
  by (auto simp: safeAuditField_def blank_def Let_def split: if_splits)

lemma safeAuditField_nonempty: "safeAuditField v \<noteq> []"
  by (simp add: safeAuditField_def Let_def)

lemma space_notin_safeAuditField [simp]: "CHR '' '' \<notin> set (safeAuditField v)"
  using safeAuditField_no_blank by (force simp: blank_def)

lemma split_attrs:
  "\<lbrakk>CHR '' '' \<notin> set p; \<forall>k \<in> set ks. CHR '' '' \<notin> set k\<rbrakk> \<Longrightarrow>
   split_on CHR '' '' (p @ concat (map (\<lambda>k. '' '' @ k @ ''='' @ safeAuditField (f k)) ks)) =
     p # map (\<lambda>k. k @ ''='' @ safeAuditField (f k)) ks"
proof (induction ks arbitrary: p)
  case Nil
  then show ?case by (simp add: split_on_no_sep)
next
  case (Cons k ks)
  then show ?case
    using Cons.IH [of "k @ ''='' @ safeAuditField (f k)"] by (simp add: split_on_append)
qed

text \<open>
  Whatever the endpoint, the scope, the key hash, the transition and the attribute values
  contain, an audit line split at blanks gives exactly its fields in order, the attributes
  sorted by name; so a caller cannot inject a field.
\<close>

theorem audit_line_fields:
  assumes "\<forall>k \<in> fst ` set attrs. CHR '' '' \<notin> set k"
  shows "split_on CHR '' '' (audit_line endpoint scope keyHash stateTransition replayed attrs) =
    [''[IdempotencyAudit]'', ''endpoint='' @ safeAuditField endpoint, ''scope='' @ safeAuditField scope,
     ''key_hash='' @ safeAuditField keyHash, ''state_transition='' @ safeAuditField stateTransition,
     ''replayed='' @ format_bool replayed]
    @ map (\<lambda>k. k @ ''='' @ safeAuditField (the (map_of attrs k))) (sort (map fst attrs))"
proof -
  let ?a = "\<lambda>p. p @ appendSortedAttrs attrs"
  have tail: "split_on CHR '' '' (''replayed='' @ format_bool replayed @ appendSortedAttrs attrs) =
      (''replayed='' @ format_bool replayed)
      # map (\<lambda>k. k @ ''='' @ safeAuditField (the (map_of attrs k))) (sort (map fst attrs))"
    using split_attrs [of "''replayed='' @ format_bool replayed" "sort (map fst attrs)"
        "\<lambda>k. the (map_of attrs k)"] assms
    by (simp add: appendSortedAttrs_def format_bool_def)
  have step: "split_on CHR '' '' (p @ CHR '' '' # s) = p # split_on CHR '' '' s"
    if "CHR '' '' \<notin> set p" for p s using that by (rule split_on_append)
  show ?thesis
    unfolding audit_line_def
    using tail step [of "''[IdempotencyAudit]''"] step [of "''endpoint='' @ safeAuditField endpoint"]
      step [of "''scope='' @ safeAuditField scope"] step [of "''key_hash='' @ safeAuditField keyHash"]
      step [of "''state_transition='' @ safeAuditField stateTransition"]
    by (simp del: split_on.simps)
qed

lemma audit_line_fields_witness:
  "split_on CHR '' '' (audit_line ''/a b'' ''s'' ''h'' ''x'' True [(''op'', ''u v'')]) =
    [''[IdempotencyAudit]'', ''endpoint=/a_b'', ''scope=s'', ''key_hash=h'', ''state_transition=x'',
     ''replayed=true'', ''op=u_v'']"
proof -
  have ex: "safeAuditField ''/a b'' = ''/a_b'' \<and> safeAuditField ''s'' = ''s'' \<and> safeAuditField ''h'' = ''h''
      \<and> safeAuditField ''x'' = ''x'' \<and> safeAuditField ''u v'' = ''u_v''"
    by code_simp
  show ?thesis
    using audit_line_fields [of "[(''op'', ''u v'')]" "''/a b''" "''s''" "''h''" "''x''" True] ex
    by (simp add: format_bool_def)
qed

end
