(* ===== verification/Go_Utf8.thy ===== *)
theory Go_Utf8
  imports Go_Base
begin

text \<open>
  UTF-8 as Go's \<^verbatim>\<open>utf8.DecodeRuneInString\<close> reads it. \<open>runes\<close> is what \<^verbatim>\<open>for _, r := range s\<close>
  iterates over: an ill-formed byte counts as U+FFFD and is one byte wide. \<open>valid_utf8\<close> is
  \<^verbatim>\<open>utf8.ValidString\<close>.
\<close>

definition rune_error :: nat where
  "rune_error = 65533"

definition byte :: "char \<Rightarrow> nat" where
  "byte c = of_char c"

definition in_range :: "nat \<Rightarrow> nat \<Rightarrow> nat \<Rightarrow> bool" where
  "in_range lo hi b \<longleftrightarrow> lo \<le> b \<and> b \<le> hi"

text \<open>Length of the sequence a lead byte announces, and the range of its second byte.\<close>

definition lead :: "nat \<Rightarrow> nat \<times> nat \<times> nat" where
  "lead b =
     (if b < 0x80 then (1, 0, 0)
      else if in_range 0xC2 0xDF b then (2, 0x80, 0xBF)
      else if b = 0xE0 then (3, 0xA0, 0xBF)
      else if b = 0xED then (3, 0x80, 0x9F)
      else if in_range 0xE1 0xEF b then (3, 0x80, 0xBF)
      else if b = 0xF0 then (4, 0x90, 0xBF)
      else if in_range 0xF1 0xF3 b then (4, 0x80, 0xBF)
      else if b = 0xF4 then (4, 0x80, 0x8F)
      else (0, 0, 0))"

fun decode_rune :: "string \<Rightarrow> nat \<times> nat" where
  "decode_rune [] = (rune_error, 0)"
| "decode_rune (c # s) =
     (case lead (byte c) of (n, lo, hi) \<Rightarrow>
        if n = 1 then (byte c, 1)
        else if n = 0 \<or> length s < n - 1 \<or> \<not> in_range lo hi (byte (s ! 0)) \<or>
          \<not> list_all (in_range 0x80 0xBF \<circ> byte) (take (n - 2) (tl s)) then (rune_error, 1)
        else if n = 2 then (64 * (byte c - 0xC0) + (byte (s ! 0) - 0x80), 2)
        else if n = 3 then
          (4096 * (byte c - 0xE0) + 64 * (byte (s ! 0) - 0x80) + (byte (s ! 1) - 0x80), 3)
        else (262144 * (byte c - 0xF0) + 4096 * (byte (s ! 0) - 0x80)
          + 64 * (byte (s ! 1) - 0x80) + (byte (s ! 2) - 0x80), 4))"

lemma lead_width: "fst (lead b) \<le> 4"
  by (simp add: lead_def)

lemma decode_rune_width:
  "s \<noteq> [] \<Longrightarrow> 0 < snd (decode_rune s) \<and> snd (decode_rune s) \<le> length s"
  using lead_width [of "byte (hd s)"]
  by (cases s) (auto simp: Let_def Suc_le_eq split: prod.split)

declare decode_rune.simps [simp del]

lemma drop_rune_less: "s \<noteq> [] \<Longrightarrow> length (drop (snd (decode_rune s)) s) < length s"
  using decode_rune_width [of s] by (cases s) simp_all

function runes :: "string \<Rightarrow> nat list" where
  "runes s = (if s = [] then [] else fst (decode_rune s) # runes (drop (snd (decode_rune s)) s))"
  by pat_completeness auto
termination
  by (relation "measure length", simp, use drop_rune_less in simp)

function valid_utf8 :: "string \<Rightarrow> bool" where
  "valid_utf8 s =
     (if s = [] then True
      else if decode_rune s = (rune_error, 1) then False
      else valid_utf8 (drop (snd (decode_rune s)) s))"
  by pat_completeness auto
termination
  by (relation "measure length", simp, use drop_rune_less in simp)

declare runes.simps [simp del] valid_utf8.simps [simp del]

lemma valid_utf8_Nil [simp]: "valid_utf8 []"
  by (simp add: valid_utf8.simps)

text \<open>A string of visible characters is exactly one whose runes lie between 33 and 126.\<close>

lemma decode_rune_ascii: "byte c < 0x80 \<Longrightarrow> decode_rune (c # s) = (byte c, 1)"
  by (simp add: decode_rune.simps lead_def)

lemma lead_multi:
  assumes "0x80 \<le> b" and "lead b = (n, lo, hi)"
  shows "n = 0 \<or> n = 2 \<and> 0xC2 \<le> b \<or> n = 3 \<and> (0xE1 \<le> b \<or> b = 0xE0 \<and> lo = 0xA0) \<or>
    n = 4 \<and> (0xF1 \<le> b \<or> b = 0xF0 \<and> lo = 0x90)"
  using assms by (auto simp: lead_def in_range_def split: if_splits)

lemma decode_rune_multi:
  assumes "0x80 \<le> byte c"
  shows "0x80 \<le> fst (decode_rune (c # s))"
proof -
  obtain n lo hi where l: "lead (byte c) = (n, lo, hi)" by (metis prod.exhaust)
  have "decode_rune (c # s) =
     (if n = 1 then (byte c, 1)
        else if n = 0 \<or> length s < n - 1 \<or> \<not> in_range lo hi (byte (s ! 0)) \<or>
          \<not> list_all (in_range 0x80 0xBF \<circ> byte) (take (n - 2) (tl s)) then (rune_error, 1)
        else if n = 2 then (64 * (byte c - 0xC0) + (byte (s ! 0) - 0x80), 2)
        else if n = 3 then
          (4096 * (byte c - 0xE0) + 64 * (byte (s ! 0) - 0x80) + (byte (s ! 1) - 0x80), 3)
        else (262144 * (byte c - 0xF0) + 4096 * (byte (s ! 0) - 0x80)
          + 64 * (byte (s ! 1) - 0x80) + (byte (s ! 2) - 0x80), 4))"
    by (simp only: decode_rune.simps l prod.case)
  then show ?thesis
    using lead_multi [OF assms l] by (elim disjE conjE) (auto simp: rune_error_def in_range_def)
qed

lemma runes_visible: "list_all (\<lambda>r. 33 \<le> r \<and> r \<le> 126) (runes s) \<longleftrightarrow> (\<forall>c \<in> set s. visible c)"
proof (induction s rule: length_induct)
  case (1 s)
  show ?case
  proof (cases s)
    case (Cons c t)
    show ?thesis
    proof (cases "byte c < 0x80")
      case True
      then have "runes s = byte c # runes t"
        by (simp only: Cons runes.simps [of "c # t"] decode_rune_ascii) simp
      with 1 Cons show ?thesis
        by (simp add: visible_def byte_def)
    next
      case False
      then have "\<not> visible c" by (simp add: visible_def byte_def)
      moreover have "\<not> fst (decode_rune s) \<le> 126"
        using decode_rune_multi [of c t] False Cons by simp
      then have "\<not> list_all (\<lambda>r. 33 \<le> r \<and> r \<le> 126) (runes s)"
        by (subst runes.simps) (simp add: Cons)
      ultimately show ?thesis using Cons by auto
    qed
  qed (simp add: runes.simps)
qed

end
