(* ===== verification/Idem_Coordinator.thy ===== *)
theory Idem_Coordinator
  imports Idem_Store Idem_Observe Go_Utf8
begin

text \<open>
  The coordinator of write idempotency (\<^verbatim>\<open>IdempotencyCoordinator.Execute\<close>), which runs a write at
  most once per key and replays the stored response afterwards.

  \<open>exec_begin\<close> is the code before the first call of the repository. The rest is a machine whose
  states (\<open>exec_pc\<close>) are the points between two calls of something outside (the repository or the
  callback), and \<open>exec_step\<close> runs the code from one such call up to the next; the reading of the
  clock it takes is the one reading of \<^verbatim>\<open>time.Now()\<close> of that stretch, and the database's clock.
  \<open>Execute\<close> runs the machine to its end; other goroutines can interleave between the steps.
  JSON, SHA-256, upper-casing, redaction and the rendering of a float are the fields of
  \<open>idem_env\<close>. Nil contexts, cancellation and deadlines only show as errors of the calls.
\<close>

section \<open>Errors, configuration and options\<close>

definition ErrIdempotencyKeyRequired :: go_error where
  "ErrIdempotencyKeyRequired = BadRequest ''IDEMPOTENCY_KEY_REQUIRED'' ''idempotency key is required''"
definition ErrIdempotencyKeyInvalid :: go_error where
  "ErrIdempotencyKeyInvalid = BadRequest ''IDEMPOTENCY_KEY_INVALID'' ''idempotency key is invalid''"
definition ErrIdempotencyKeyConflict :: go_error where
  "ErrIdempotencyKeyConflict =
     Conflict ''IDEMPOTENCY_KEY_CONFLICT'' ''idempotency key reused with different payload''"
definition ErrIdempotencyInProgress :: go_error where
  "ErrIdempotencyInProgress =
     Conflict ''IDEMPOTENCY_IN_PROGRESS'' ''idempotent request is still processing''"
definition ErrIdempotencyRetryBackoff :: go_error where
  "ErrIdempotencyRetryBackoff =
     Conflict ''IDEMPOTENCY_RETRY_BACKOFF'' ''idempotent request is in retry backoff window''"
definition ErrIdempotencyStoreUnavail :: go_error where
  "ErrIdempotencyStoreUnavail =
     ServiceUnavailable ''IDEMPOTENCY_STORE_UNAVAILABLE'' ''idempotency store unavailable''"
definition ErrIdempotencyInvalidPayload :: go_error where
  "ErrIdempotencyInvalidPayload =
     BadRequest ''IDEMPOTENCY_PAYLOAD_INVALID'' ''failed to normalize request payload''"

record idem_config =
  DefaultTTL :: duration
  SystemOperationTTL :: duration
  ProcessingTimeout :: duration
  FailedRetryBackoff :: duration
  MaxStoredResponseLen :: int
  ObserveOnly :: bool

definition DefaultIdempotencyConfig :: idem_config where
  "DefaultIdempotencyConfig =
     \<lparr>DefaultTTL = 24 * hour, SystemOperationTTL = 1 * hour, ProcessingTimeout = 30 * second,
      FailedRetryBackoff = 5 * second, MaxStoredResponseLen = 64 * 1024, ObserveOnly = True\<rparr>"

record 'p execute_options =
  opt_Scope :: string
  opt_ActorScope :: string
  opt_Method :: string
  opt_Route :: string
  opt_IdempotencyKey :: string
  opt_Payload :: 'p
  opt_TTL :: duration
  opt_RequireKey :: bool
  opt_ExecutionTimeout :: duration
  opt_MaxStoredResponseLen :: int

record 'v exec_result =
  Data :: 'v
  Replayed :: bool

record 's coordinator =
  co_observer :: bool
  co_repo :: "'s idem_repo option"
  co_cfg :: idem_config

record ('p, 'v) idem_env =
  sha256_hex :: "string \<Rightarrow> string"
  to_upper :: "string \<Rightarrow> string"
  marshal_payload :: "'p \<Rightarrow> go_error + string"
  marshal_data :: "'v \<Rightarrow> go_error + string"
  unmarshal_data :: "string \<Rightarrow> go_error + 'v"
  empty_object :: 'v
  RedactText :: "string \<Rightarrow> string"
  format_ms :: "duration \<Rightarrow> string"

definition NewIdempotencyCoordinator :: "'s idem_repo option \<Rightarrow> idem_config \<Rightarrow> bool list \<Rightarrow> 's coordinator" where
  "NewIdempotencyCoordinator repo cfg observers =
     \<lparr>co_observer = (case observers of [] \<Rightarrow> False | o1 # _ \<Rightarrow> o1), co_repo = repo, co_cfg = cfg\<rparr>"

text \<open>A nil coordinator is \<open>None\<close>.\<close>

definition DefaultWriteIdempotencyTTL :: "'s coordinator option \<Rightarrow> duration" where
  "DefaultWriteIdempotencyTTL co =
     (case co of
        Some c \<Rightarrow> if DefaultTTL (co_cfg c) > 0 then DefaultTTL (co_cfg c)
                  else DefaultTTL DefaultIdempotencyConfig
      | None \<Rightarrow> DefaultTTL DefaultIdempotencyConfig)"

definition DefaultSystemOperationIdempotencyTTL :: "'s coordinator option \<Rightarrow> duration" where
  "DefaultSystemOperationIdempotencyTTL co =
     (case co of
        Some c \<Rightarrow> if SystemOperationTTL (co_cfg c) > 0 then SystemOperationTTL (co_cfg c)
                  else SystemOperationTTL DefaultIdempotencyConfig
      | None \<Rightarrow> SystemOperationTTL DefaultIdempotencyConfig)"

section \<open>Pure helpers\<close>

definition NormalizeIdempotencyKey :: "string \<Rightarrow> go_error + string" where
  "NormalizeIdempotencyKey raw =
     (let key = trim_space raw
      in if key = [] then Inr []
         else if length key > 128 then Inl ErrIdempotencyKeyInvalid
         else if list_ex (\<lambda>r. r < 33 \<or> r > 126) (runes key) then Inl ErrIdempotencyKeyInvalid
         else Inr key)"

definition HashIdempotencyKey :: "('p, 'v) idem_env \<Rightarrow> string \<Rightarrow> string" where
  "HashIdempotencyKey env key = sha256_hex env key"

definition BuildIdempotencyFingerprint ::
  "('p, 'v) idem_env \<Rightarrow> string \<Rightarrow> string \<Rightarrow> string \<Rightarrow> 'p \<Rightarrow> go_error + string" where
  "BuildIdempotencyFingerprint env meth route actorScope payload =
     (let meth' = (if meth = [] then ''POST'' else meth);
          route' = (if route = [] then ''/'' else route);
          actor' = (if actorScope = [] then ''anonymous'' else actorScope)
      in case marshal_payload env payload of
           Inl e \<Rightarrow> Inl (WithCause ErrIdempotencyInvalidPayload (Some e))
         | Inr raw \<Rightarrow>
             Inr (sha256_hex env
               (to_upper env meth' @ [CHR 0x0A] @ route' @ [CHR 0x0A] @ actor' @ [CHR 0x0A] @ raw)))"

definition RetryAfterSecondsFromError :: "go_error option \<Rightarrow> int" where
  "RetryAfterSecondsFromError err =
     (case err of
        None \<Rightarrow> 0
      | Some e \<Rightarrow>
          (case as_application e of
             Some (ApplicationError st _) \<Rightarrow>
               (case st_metadata st of
                  None \<Rightarrow> 0
                | Some md \<Rightarrow>
                    (let v = trim_space (case md ''retry_after'' of None \<Rightarrow> [] | Some s \<Rightarrow> s)
                     in if v = [] then 0
                        else (case parse_int64 v of
                                None \<Rightarrow> 0
                              | Some seconds \<Rightarrow> if seconds \<le> 0 then 0 else seconds)))
           | _ \<Rightarrow> 0))"

definition conflictWithRetryAfter :: "go_error \<Rightarrow> instant option \<Rightarrow> instant \<Rightarrow> go_error" where
  "conflictWithRetryAfter base lockedUntil now =
     (case lockedUntil of
        None \<Rightarrow> base
      | Some l \<Rightarrow>
          (let sec = quot64 (l - now) second;
               sec' = (if sec \<le> 0 then 1 else sec)
           in WithMetadata base (Some [''retry_after'' \<mapsto> itoa sec'])))"

function shrink_utf8 :: "string \<Rightarrow> int \<Rightarrow> int" where
  "shrink_utf8 s maxBytes =
     (if maxBytes > 0 \<and> \<not> valid_utf8 (take (nat maxBytes) s) then shrink_utf8 s (maxBytes - 1)
      else maxBytes)"
  by pat_completeness auto
termination
  by (relation "measure (\<lambda>(s, n). nat n)") auto

declare shrink_utf8.simps [simp del]

definition truncateUTF8 :: "string \<Rightarrow> int \<Rightarrow> string" where
  "truncateUTF8 s maxBytes =
     (if maxBytes \<le> 0 \<or> int (length s) \<le> maxBytes then s
      else take (nat (shrink_utf8 s maxBytes)) s)"

definition marshalStoredResponse ::
  "('p, 'v) idem_env \<Rightarrow> idem_config \<Rightarrow> 'v \<Rightarrow> int list \<Rightarrow> go_error + string" where
  "marshalStoredResponse env cfg data limits =
     (case marshal_data env data of
        Inl e \<Rightarrow> Inl e
      | Inr raw \<Rightarrow>
          (let redacted = RedactText env raw
           in if limits \<noteq> [] \<and> hd limits > 0
              then if int (length redacted) > hd limits
                   then Inl (OtherError (''idempotency response exceeds '' @ itoa (hd limits) @ '' bytes''))
                   else Inr redacted
              else if MaxStoredResponseLen cfg > 0 \<and> int (length redacted) > MaxStoredResponseLen cfg
              then Inr (truncateUTF8 redacted (MaxStoredResponseLen cfg) @ ''...(truncated)'')
              else Inr redacted))"

definition decodeStoredResponse :: "('p, 'v) idem_env \<Rightarrow> string option \<Rightarrow> go_error + 'v" where
  "decodeStoredResponse env stored =
     (case stored of
        None \<Rightarrow> Inr (empty_object env)
      | Some s \<Rightarrow>
          if trim_space s = [] then Inr (empty_object env)
          else (case unmarshal_data env s of
                  Inl e \<Rightarrow> Inl (WrapError ''decode stored response'' e)
                | Inr out \<Rightarrow> Inr out))"

section \<open>Execute\<close>

record ('s, 'w) idem_world =
  Store :: 's
  Outside :: 'w
  Obs :: obs_state

type_synonym ('v, 'w) callback = "'w \<Rightarrow> (go_error + 'v) \<times> 'w"
type_synonym 'v exec_answer = "go_error + 'v exec_result"

text \<open>What the code has computed before its first repository call.\<close>

record 's exec_guard =
  gd_repo :: "'s idem_repo"
  gd_keyHash :: string
  gd_fingerprint :: string
  gd_ttl :: duration
  gd_now :: instant
  gd_lockedUntil :: instant
  gd_expiresAt :: instant

datatype ('s, 'v) exec_start =
    Stopped "'v exec_answer"
  | Unguarded
  | Guarded "'s exec_guard"

text \<open>An observation of the coordinator on the world.\<close>

definition obs :: "(obs_state \<Rightarrow> obs_state) \<Rightarrow> ('s, 'w) idem_world \<Rightarrow> ('s, 'w) idem_world" where
  "obs f w = w\<lparr>Obs := f (Obs w)\<rparr>"

definition unavailable ::
  "'s coordinator \<Rightarrow> 'p execute_options \<Rightarrow> string \<Rightarrow> ('s, 'w) idem_world \<Rightarrow> ('s, 'w) idem_world" where
  "unavailable c opts strategy =
     obs (RecordIdempotencyStoreUnavailable (co_observer c) (opt_Route opts) (opt_Scope opts) strategy)"

definition audit ::
  "'s coordinator \<Rightarrow> 'p execute_options \<Rightarrow> 's exec_guard \<Rightarrow> string \<Rightarrow> bool \<Rightarrow> attrs
    \<Rightarrow> ('s, 'w) idem_world \<Rightarrow> ('s, 'w) idem_world" where
  "audit c opts g transition replayed attrs =
     obs (logIdempotencyAudit (co_observer c) (opt_Route opts) (opt_Scope opts) (gd_keyHash g)
       transition replayed attrs)"

text \<open>The lifetime and the processing lock of a record, both at least the execution limit plus 5 s.\<close>

definition execution_limit :: "'p execute_options \<Rightarrow> duration" where
  "execution_limit opts = wrap64 (opt_ExecutionTimeout opts + 5 * second)"

definition effective_ttl :: "'s coordinator \<Rightarrow> 'p execute_options \<Rightarrow> duration" where
  "effective_ttl c opts =
     (let ttl = (if opt_TTL opts \<le> 0 then DefaultTTL (co_cfg c) else opt_TTL opts)
      in if opt_ExecutionTimeout opts > 0 \<and> ttl < execution_limit opts then execution_limit opts else ttl)"

definition processing_lock :: "'s coordinator \<Rightarrow> 'p execute_options \<Rightarrow> duration" where
  "processing_lock c opts =
     (if opt_ExecutionTimeout opts > 0 \<and> ProcessingTimeout (co_cfg c) < execution_limit opts
      then execution_limit opts else ProcessingTimeout (co_cfg c))"

definition exec_begin ::
  "('p, 'v) idem_env \<Rightarrow> 's coordinator \<Rightarrow> 'p execute_options \<Rightarrow> bool \<Rightarrow> instant
    \<Rightarrow> ('s, 'w) idem_world \<Rightarrow> ('s, 'v) exec_start \<times> ('s, 'w) idem_world" where
  "exec_begin env c opts has_callback now w =
     (if \<not> has_callback
      then (Stopped (Inl (InternalServer ''IDEMPOTENCY_EXECUTOR_NIL'' ''idempotency executor is nil'')), w)
      else case NormalizeIdempotencyKey (opt_IdempotencyKey opts) of
        Inl e \<Rightarrow> (Stopped (Inl e), w)
      | Inr key \<Rightarrow>
          if key = [] then
            if opt_RequireKey opts \<and> \<not> ObserveOnly (co_cfg c)
            then (Stopped (Inl ErrIdempotencyKeyRequired), w)
            else (Unguarded, w)
          else (case co_repo c of
            None \<Rightarrow> (Stopped (Inl ErrIdempotencyStoreUnavail), unavailable c opts ''repo_nil'' w)
          | Some repo \<Rightarrow>
              if opt_Scope opts = []
              then (Stopped (Inl (BadRequest ''IDEMPOTENCY_SCOPE_REQUIRED'' ''idempotency scope is required'')), w)
              else (case BuildIdempotencyFingerprint env (opt_Method opts) (opt_Route opts)
                           (opt_ActorScope opts) (opt_Payload opts) of
                Inl e \<Rightarrow> (Stopped (Inl e), w)
              | Inr fp \<Rightarrow>
                  (Guarded \<lparr>gd_repo = repo, gd_keyHash = HashIdempotencyKey env key,
                     gd_fingerprint = fp, gd_ttl = effective_ttl c opts, gd_now = now,
                     gd_lockedUntil = now + processing_lock c opts,
                     gd_expiresAt = now + effective_ttl c opts\<rparr>, w))))"

definition new_record :: "'p execute_options \<Rightarrow> 's exec_guard \<Rightarrow> idem_record" where
  "new_record opts g =
     \<lparr>ID = 0, Scope = opt_Scope opts, IdempotencyKeyHash = gd_keyHash g,
      RequestFingerprint = gd_fingerprint g, RecStatus = IdempotencyStatusProcessing,
      ResponseStatus = None, ResponseBody = None, ErrorReason = None,
      LockedUntil = Some (gd_lockedUntil g), ExpiresAt = gd_expiresAt g, CreatedAt = 0, UpdatedAt = 0\<rparr>"

datatype 'v exec_pc =
    At_Create
  | At_Get
  | At_ReclaimExpired idem_record
  | At_GetLatest
  | At_ReclaimFailed idem_record
  | At_Run int
  | At_Returned int instant "go_error + 'v"
  | At_MarkFailed int instant instant go_error
  | At_MarkSucceeded int instant instant 'v
  | At_Return instant "'v exec_answer"
  | Finished "'v exec_answer"

text \<open>The return with \<^verbatim>\<open>ErrIdempotencyStoreUnavail\<close> and its observations.\<close>

definition store_unavailable ::
  "'s coordinator \<Rightarrow> 'p execute_options \<Rightarrow> 's exec_guard \<Rightarrow> string \<Rightarrow> string \<Rightarrow> string \<Rightarrow> go_error option
    \<Rightarrow> ('s, 'w) idem_world \<Rightarrow> 'v exec_answer \<times> ('s, 'w) idem_world" where
  "store_unavailable c opts g strategy operation from cause w =
     (Inl (case cause of None \<Rightarrow> ErrIdempotencyStoreUnavail
           | Some _ \<Rightarrow> WithCause ErrIdempotencyStoreUnavail cause),
      audit c opts g (from @ ''->store_unavailable'') False [(''operation'', operation)]
        (unavailable c opts strategy w))"

definition finish :: "'v exec_answer \<times> 'u \<Rightarrow> 'v exec_pc \<times> 'u" where
  "finish = apfst Finished"

text \<open>The check \<^verbatim>\<open>record.ID == 0\<close> every claim passes before the callback.\<close>

definition claimed_pc ::
  "'s coordinator \<Rightarrow> 'p execute_options \<Rightarrow> 's exec_guard \<Rightarrow> int \<Rightarrow> ('s, 'w) idem_world
    \<Rightarrow> 'v exec_pc \<times> ('s, 'w) idem_world" where
  "claimed_pc c opts g rid w =
     (if rid = 0
      then finish (store_unavailable c opts g ''record_id_missing'' ''record_id_missing'' ''processing'' None w)
      else (At_Run rid, w))"

definition claim_observed ::
  "'s coordinator \<Rightarrow> 'p execute_options \<Rightarrow> 's exec_guard \<Rightarrow> string \<Rightarrow> string \<Rightarrow> string
    \<Rightarrow> ('s, 'w) idem_world \<Rightarrow> ('s, 'w) idem_world" where
  "claim_observed c opts g from md claim_mode w =
     audit c opts g (from @ ''->processing'') False [(''claim_mode'', claim_mode)]
       (obs (recordIdempotencyClaim (co_observer c) (opt_Route opts) (opt_Scope opts) [(''mode'', md)]) w)"

definition conflict_observed ::
  "'s coordinator \<Rightarrow> 'p execute_options \<Rightarrow> string \<Rightarrow> ('s, 'w) idem_world \<Rightarrow> ('s, 'w) idem_world" where
  "conflict_observed c opts reason =
     obs (recordIdempotencyConflict (co_observer c) (opt_Route opts) (opt_Scope opts) [(''reason'', reason)])"

definition retry_backoff_observed ::
  "'s coordinator \<Rightarrow> 'p execute_options \<Rightarrow> ('s, 'w) idem_world \<Rightarrow> ('s, 'w) idem_world" where
  "retry_backoff_observed c opts =
     obs (recordIdempotencyRetryBackoff (co_observer c) (opt_Route opts) (opt_Scope opts) [])"

definition fingerprint_mismatch ::
  "'s coordinator \<Rightarrow> 'p execute_options \<Rightarrow> 's exec_guard \<Rightarrow> ('s, 'w) idem_world
    \<Rightarrow> 'v exec_pc \<times> ('s, 'w) idem_world" where
  "fingerprint_mismatch c opts g w =
     (Finished (Inl ErrIdempotencyKeyConflict),
      audit c opts g ''existing->fingerprint_mismatch'' False []
        (conflict_observed c opts ''fingerprint_mismatch'' w))"

text \<open>The \<^verbatim>\<open>switch existing.Status\<close> up to its next repository call.\<close>

definition dispatch_existing ::
  "('p, 'v) idem_env \<Rightarrow> 's coordinator \<Rightarrow> 'p execute_options \<Rightarrow> 's exec_guard \<Rightarrow> idem_record
    \<Rightarrow> ('s, 'w) idem_world \<Rightarrow> 'v exec_pc \<times> ('s, 'w) idem_world" where
  "dispatch_existing env c opts g existing w =
     (if RecStatus existing = IdempotencyStatusSucceeded then
        (case decodeStoredResponse env (ResponseBody existing) of
           Inl e \<Rightarrow> finish (store_unavailable c opts g ''decode_stored_response_error''
               ''decode_stored_response'' ''succeeded'' (Some e) w)
         | Inr data \<Rightarrow>
             (Finished (Inr \<lparr>Data = data, Replayed = True\<rparr>),
              audit c opts g ''succeeded->replayed'' True []
                (obs (recordIdempotencyReplay (co_observer c) (opt_Route opts) (opt_Scope opts) []) w)))
      else if RecStatus existing = IdempotencyStatusProcessing then
        (Finished (Inl (conflictWithRetryAfter ErrIdempotencyInProgress (LockedUntil existing) (gd_now g))),
         audit c opts g ''processing->conflict'' False [] (conflict_observed c opts ''in_progress'' w))
      else if RecStatus existing = IdempotencyStatusFailedRetryable then
        (if (case LockedUntil existing of None \<Rightarrow> False | Some l \<Rightarrow> l > gd_now g)
         then
           (Finished (Inl (conflictWithRetryAfter ErrIdempotencyRetryBackoff (LockedUntil existing) (gd_now g))),
            audit c opts g ''failed_retryable->retry_backoff_conflict'' False []
              (retry_backoff_observed c opts (conflict_observed c opts ''retry_backoff'' w)))
         else (At_ReclaimFailed existing, w))
      else
        (Finished (Inl ErrIdempotencyKeyConflict),
         audit c opts g ''existing->conflict'' False [(''status'', RecStatus existing)]
           (conflict_observed c opts ''unexpected_status'' w)))"

definition with_store :: "('s, 'w) idem_world \<Rightarrow> 's \<Rightarrow> ('s, 'w) idem_world" where
  "with_store w s = w\<lparr>Store := s\<rparr>"

fun exec_step ::
  "('p, 'v) idem_env \<Rightarrow> 's coordinator \<Rightarrow> 'p execute_options \<Rightarrow> 's exec_guard \<Rightarrow> ('v, 'w) callback
    \<Rightarrow> instant \<Rightarrow> 'v exec_pc \<Rightarrow> ('s, 'w) idem_world \<Rightarrow> 'v exec_pc \<times> ('s, 'w) idem_world" where
  "exec_step env c opts g cb t At_Create w =
     (case CreateProcessing (gd_repo g) t (new_record opts g) (Store w) of (res, s) \<Rightarrow>
        (case res of
           Inl e \<Rightarrow> finish (store_unavailable c opts g ''create_processing_error''
               ''create_processing'' ''unknown'' (Some e) (with_store w s))
         | Inr (owner, record) \<Rightarrow>
             if owner
             then claimed_pc c opts g (ID record)
                 (claim_observed c opts g ''none'' ''new_claim'' ''new'' (with_store w s))
             else (At_Get, with_store w s)))"
| "exec_step env c opts g cb t At_Get w =
     (case GetByScopeAndKeyHash (gd_repo g) t (opt_Scope opts) (gd_keyHash g) (Store w) of (res, s) \<Rightarrow>
        (case res of
           Inl e \<Rightarrow> finish (store_unavailable c opts g ''get_existing_error'' ''get_existing'' ''unknown''
               (Some e) (with_store w s))
         | Inr None \<Rightarrow> finish (store_unavailable c opts g ''missing_existing'' ''missing_existing''
               ''unknown'' None (with_store w s))
         | Inr (Some existing) \<Rightarrow>
             if RequestFingerprint existing \<noteq> gd_fingerprint g
             then fingerprint_mismatch c opts g (with_store w s)
             else if \<not> ExpiresAt existing > gd_now g then (At_ReclaimExpired existing, with_store w s)
             else dispatch_existing env c opts g existing (with_store w s)))"
| "exec_step env c opts g cb t (At_ReclaimExpired existing) w =
     (case TryReclaim (gd_repo g) t (ID existing) (RecStatus existing) (gd_now g) (gd_lockedUntil g)
             (gd_expiresAt g) (Store w) of (res, s) \<Rightarrow>
        (case res of
           Inl e \<Rightarrow> finish (store_unavailable c opts g ''try_reclaim_expired_error''
               ''try_reclaim_expired'' (RecStatus existing) (Some e) (with_store w s))
         | Inr taken \<Rightarrow>
             if taken
             then claimed_pc c opts g (ID existing)
                 (claim_observed c opts g (RecStatus existing) ''expired_reclaim'' ''expired_reclaim''
                   (with_store w s))
             else (At_GetLatest, with_store w s)))"
| "exec_step env c opts g cb t At_GetLatest w =
     (case GetByScopeAndKeyHash (gd_repo g) t (opt_Scope opts) (gd_keyHash g) (Store w) of (res, s) \<Rightarrow>
        (case res of
           Inl e \<Rightarrow> finish (store_unavailable c opts g ''get_existing_after_expired_reclaim_error''
               ''get_existing_after_expired_reclaim'' ''unknown'' (Some e) (with_store w s))
         | Inr None \<Rightarrow> finish (store_unavailable c opts g ''missing_existing_after_expired_reclaim''
               ''missing_existing_after_expired_reclaim'' ''unknown'' None (with_store w s))
         | Inr (Some latest) \<Rightarrow>
             if RequestFingerprint latest \<noteq> gd_fingerprint g
             then fingerprint_mismatch c opts g (with_store w s)
             else dispatch_existing env c opts g latest (with_store w s)))"
| "exec_step env c opts g cb t (At_ReclaimFailed existing) w =
     (case TryReclaim (gd_repo g) t (ID existing) IdempotencyStatusFailedRetryable (gd_now g)
             (gd_lockedUntil g) (gd_expiresAt g) (Store w) of (res, s) \<Rightarrow>
        (case res of
           Inl e \<Rightarrow> finish (store_unavailable c opts g ''try_reclaim_error'' ''try_reclaim''
               ''failed_retryable'' (Some e) (with_store w s))
         | Inr taken \<Rightarrow>
             if \<not> taken
             then
               (Finished (Inl (conflictWithRetryAfter ErrIdempotencyInProgress (LockedUntil existing) (gd_now g))),
                audit c opts g ''failed_retryable->conflict'' False [(''conflict'', ''reclaim_race'')]
                  (conflict_observed c opts ''reclaim_race'' (with_store w s)))
             else claimed_pc c opts g (ID existing)
                 (claim_observed c opts g ''failed_retryable'' ''reclaim'' ''reclaim'' (with_store w s))))"
| "exec_step env c opts g cb t (At_Run rid) w =
     (case cb (Outside w) of (res, out) \<Rightarrow> (At_Returned rid t res, w\<lparr>Outside := out\<rparr>))"
| "exec_step env c opts g cb t (At_Returned rid start res) w =
     (let expiresAt = (if opt_ExecutionTimeout opts > 0 then t + gd_ttl g else gd_expiresAt g)
      in case res of
           Inl e \<Rightarrow> (At_MarkFailed rid start expiresAt e, w)
         | Inr data \<Rightarrow> (At_MarkSucceeded rid start expiresAt data, w))"
| "exec_step env c opts g cb t (At_MarkFailed rid start expiresAt execErr) w =
     (let backoffUntil = t + FailedRetryBackoff (co_cfg c);
          reason = (if Reason (Some execErr) = [] then ''EXECUTION_FAILED'' else Reason (Some execErr));
          w1 = audit c opts g ''processing->failed_retryable'' False [(''reason'', reason)]
                 (retry_backoff_observed c opts w)
      in case MarkFailedRetryable (gd_repo g) t rid reason backoffUntil expiresAt (Store w1) of
           (None, s) \<Rightarrow> (At_Return start (Inl execErr), with_store w1 s)
         | (Some _, s) \<Rightarrow>
             (At_Return start (Inl execErr),
              audit c opts g ''processing->store_unavailable'' False [(''operation'', ''mark_failed_retryable'')]
                (unavailable c opts ''mark_failed_retryable_error'' (with_store w1 s))))"
| "exec_step env c opts g cb t (At_MarkSucceeded rid start expiresAt data) w =
     (case marshalStoredResponse env (co_cfg c) data [opt_MaxStoredResponseLen opts] of
        Inl e \<Rightarrow> apfst (At_Return start) (store_unavailable c opts g ''marshal_response_error''
            ''marshal_response'' ''processing'' (Some e) w)
      | Inr storedBody \<Rightarrow>
          (case MarkSucceeded (gd_repo g) t rid 200 storedBody expiresAt (Store w) of
             (Some e, s) \<Rightarrow> apfst (At_Return start) (store_unavailable c opts g ''mark_succeeded_error''
                 ''mark_succeeded'' ''processing'' (Some e) (with_store w s))
           | (None, s) \<Rightarrow>
               (At_Return start (Inr \<lparr>Data = data, Replayed = False\<rparr>),
                audit c opts g ''processing->succeeded'' False [] (with_store w s))))"
| "exec_step env c opts g cb t (At_Return start answer) w =
     (Finished answer,
      obs (recordIdempotencyProcessingDuration (format_ms env) (co_observer c) (opt_Route opts)
        (opt_Scope opts) (t - start) []) w)"
| "exec_step env c opts g cb t (Finished answer) w = (Finished answer, w)"

declare exec_step.simps [simp del]

text \<open>Every step gets closer to the end, so \<open>Execute\<close> is a total function.\<close>

fun pc_rank :: "'v exec_pc \<Rightarrow> nat" where
  "pc_rank At_Create = 9"
| "pc_rank At_Get = 8"
| "pc_rank (At_ReclaimExpired _) = 7"
| "pc_rank At_GetLatest = 6"
| "pc_rank (At_ReclaimFailed _) = 5"
| "pc_rank (At_Run _) = 4"
| "pc_rank (At_Returned _ _ _) = 3"
| "pc_rank (At_MarkFailed _ _ _ _) = 2"
| "pc_rank (At_MarkSucceeded _ _ _ _) = 2"
| "pc_rank (At_Return _ _) = 1"
| "pc_rank (Finished _) = 0"

definition is_finished :: "'v exec_pc \<Rightarrow> bool" where
  "is_finished pc \<longleftrightarrow> (case pc of Finished _ \<Rightarrow> True | _ \<Rightarrow> False)"

lemma is_finished_iff: "is_finished pc \<longleftrightarrow> (\<exists>answer. pc = Finished answer)"
  by (cases pc) (simp_all add: is_finished_def)

lemma pc_rank_finish [simp]: "pc_rank (fst (finish x)) = 0"
  by (simp add: finish_def apfst_def map_prod_def split: prod.split)

lemma pc_rank_claimed: "pc_rank (fst (claimed_pc c opts g rid w)) \<le> 4"
  by (simp add: claimed_pc_def)

lemma pc_rank_dispatch: "pc_rank (fst (dispatch_existing env c opts g r w)) \<le> 5"
  by (simp add: dispatch_existing_def split: sum.split)

lemma fst_fingerprint_mismatch [simp]:
  "fst (fingerprint_mismatch c opts g w) = Finished (Inl ErrIdempotencyKeyConflict)"
  by (simp add: fingerprint_mismatch_def)

lemma exec_step_rank:
  "\<not> is_finished pc \<Longrightarrow> pc_rank (fst (exec_step env c opts g cb t pc w)) < pc_rank pc"
proof (cases pc)
qed (auto simp: exec_step.simps is_finished_def Let_def apfst_def map_prod_def
  intro: le_less_trans [OF pc_rank_claimed] le_less_trans [OF pc_rank_dispatch]
  split: prod.split sum.split option.split)

lemma exec_step_rank_eq:
  "(pc', w') = exec_step env c opts g cb t pc w \<Longrightarrow> \<not> is_finished pc \<Longrightarrow> pc_rank pc' < pc_rank pc"
  using exec_step_rank [of pc env c opts g cb t w] by (metis fst_conv)

text \<open>
  \<open>clk n\<close> is the reading of the clock at the n-th call; the readings are not assumed monotone.
\<close>

function exec_loop ::
  "('p, 'v) idem_env \<Rightarrow> 's coordinator \<Rightarrow> 'p execute_options \<Rightarrow> 's exec_guard \<Rightarrow> ('v, 'w) callback
    \<Rightarrow> (nat \<Rightarrow> instant) \<Rightarrow> nat \<Rightarrow> 'v exec_pc \<Rightarrow> ('s, 'w) idem_world \<Rightarrow> 'v exec_answer \<times> ('s, 'w) idem_world" where
  "exec_loop env c opts g cb clk n pc w =
     (case pc of
        Finished answer \<Rightarrow> (answer, w)
      | _ \<Rightarrow> (case exec_step env c opts g cb (clk n) pc w of
                (pc', w') \<Rightarrow> exec_loop env c opts g cb clk (Suc n) pc' w'))"
  by pat_completeness auto
termination
  by (relation "measure (\<lambda>(env, c, opts, g, cb, clk, n, pc, w). pc_rank pc)", simp,
      (drule exec_step_rank_eq; simp add: is_finished_def)+)

declare exec_loop.simps [simp del]

definition Execute ::
  "('p, 'v) idem_env \<Rightarrow> 's coordinator \<Rightarrow> 'p execute_options \<Rightarrow> ('v, 'w) callback option
    \<Rightarrow> (nat \<Rightarrow> instant) \<Rightarrow> ('s, 'w) idem_world \<Rightarrow> 'v exec_answer \<times> ('s, 'w) idem_world" where
  "Execute env c opts callback clk w =
     (case exec_begin env c opts (callback \<noteq> None) (clk 0) w of
        (Stopped answer, w1) \<Rightarrow> (answer, w1)
      | (Unguarded, w1) \<Rightarrow>
          (case the callback (Outside w1) of
             (Inl e, out) \<Rightarrow> (Inl e, w1\<lparr>Outside := out\<rparr>)
           | (Inr data, out) \<Rightarrow> (Inr \<lparr>Data = data, Replayed = False\<rparr>, w1\<lparr>Outside := out\<rparr>))
      | (Guarded g, w1) \<Rightarrow> exec_loop env c opts g (the callback) clk 1 At_Create w1)"

section \<open>What a run keeps true\<close>

text \<open>An invariant of the steps holds at the end of the run.\<close>

lemma exec_loop_induct:
  assumes "I pc w"
    and "\<And>n pc w pc' w'. I pc w \<Longrightarrow> exec_step env c opts g cb (clk n) pc w = (pc', w') \<Longrightarrow> I pc' w'"
    and "exec_loop env c opts g cb clk n pc w = (answer, w')"
  shows "I (Finished answer) w'"
  using assms(1,3)
proof (induction "pc_rank pc" arbitrary: n pc w rule: less_induct)
  case less
  show ?case
  proof (cases "is_finished pc")
    case True
    with less.prems show ?thesis by (auto simp: is_finished_iff exec_loop.simps)
  next
    case False
    obtain pc1 w1 where step: "exec_step env c opts g cb (clk n) pc w = (pc1, w1)"
      by fastforce
    have "exec_loop env c opts g cb clk (Suc n) pc1 w1 = (answer, w')"
      using less.prems(2) False step
      by (cases pc) (simp_all add: exec_loop.simps [of env c opts g cb clk n] is_finished_def)
    moreover have "pc_rank pc1 < pc_rank pc"
      using exec_step_rank_eq [OF step [symmetric] False] .
    ultimately show ?thesis
      using less.hyps assms(2) [OF less.prems(1) step] by blast
  qed
qed

lemma obs_simps [simp]:
  "Store (obs f w) = Store w" "Outside (obs f w) = Outside w"
  "Store (with_store w s) = s" "Outside (with_store w s) = Outside w"
  by (simp_all add: obs_def with_store_def)

lemma observed_simps [simp]:
  "Store (audit c opts g tr b at w) = Store w" "Outside (audit c opts g tr b at w) = Outside w"
  "Store (unavailable c opts st w) = Store w" "Outside (unavailable c opts st w) = Outside w"
  "Store (claim_observed c opts g fr m cm w) = Store w"
  "Outside (claim_observed c opts g fr m cm w) = Outside w"
  "Store (conflict_observed c opts re w) = Store w" "Outside (conflict_observed c opts re w) = Outside w"
  "Store (retry_backoff_observed c opts w) = Store w"
  "Outside (retry_backoff_observed c opts w) = Outside w"
  by (simp_all add: audit_def unavailable_def claim_observed_def conflict_observed_def
      retry_backoff_observed_def)

lemma store_unavailable_world [simp]:
  "Store (snd (store_unavailable c opts g st oper fr ca w)) = Store w"
  "Outside (snd (store_unavailable c opts g st oper fr ca w)) = Outside w"
  by (simp_all add: store_unavailable_def)

lemma fingerprint_mismatch_world [simp]:
  "Store (snd (fingerprint_mismatch c opts g w)) = Store w"
  "Outside (snd (fingerprint_mismatch c opts g w)) = Outside w"
  by (simp_all add: fingerprint_mismatch_def)

definition is_unavailable :: "'v exec_answer \<Rightarrow> bool" where
  "is_unavailable a \<longleftrightarrow>
     (case a of Inl e \<Rightarrow> Reason (Some e) = ''IDEMPOTENCY_STORE_UNAVAILABLE'' | Inr _ \<Rightarrow> False)"

lemma store_unavailable_answer [simp]: "is_unavailable (fst (store_unavailable c opts g st oper fr ca w))"
  by (auto simp: store_unavailable_def is_unavailable_def Reason_def FromError_def
      ErrIdempotencyStoreUnavail_def go_simps split: option.split)

lemma store_unavailable_not_Inr [simp]:
  "fst (store_unavailable c opts g st oper fr ca w) = Inr x \<longleftrightarrow> False"
  by (simp add: store_unavailable_def)

text \<open>The record a request is about, and the states it goes through.\<close>

definition about :: "'p execute_options \<Rightarrow> 's exec_guard \<Rightarrow> idem_record \<Rightarrow> bool" where
  "about opts g r \<longleftrightarrow>
     key_of r = (opt_Scope opts, gd_keyHash g) \<and> RequestFingerprint r = gd_fingerprint g"

definition owned :: "(int \<rightharpoonup> idem_record) \<Rightarrow> 'p execute_options \<Rightarrow> 's exec_guard \<Rightarrow> int \<Rightarrow> bool" where
  "owned m opts g i \<longleftrightarrow>
     (\<exists>r. m i = Some r \<and> about opts g r \<and> RecStatus r = IdempotencyStatusProcessing)"

definition settled ::
  "(int \<rightharpoonup> idem_record) \<Rightarrow> 'p execute_options \<Rightarrow> 's exec_guard \<Rightarrow> string \<Rightarrow> instant set \<Rightarrow> bool" where
  "settled m opts g body X \<longleftrightarrow>
     (\<exists>i r. m i = Some r \<and> about opts g r \<and> RecStatus r = IdempotencyStatusSucceeded \<and>
        ResponseBody r = Some body \<and> ExpiresAt r \<in> X)"

text \<open>
  The invariant of an undisturbed run: the callback has run once or not at all, and whatever
  comes after a claim is about a record in processing that belongs to the request.
\<close>

definition answer_inv ::
  "(int \<rightharpoonup> idem_record) \<Rightarrow> ('p, 'v) idem_env \<Rightarrow> 's coordinator
    \<Rightarrow> 'p execute_options \<Rightarrow> 's exec_guard \<Rightarrow> ('v, 'w) callback \<Rightarrow> 'w \<Rightarrow> instant set
    \<Rightarrow> 'v exec_answer \<Rightarrow> 'w \<Rightarrow> bool" where
  "answer_inv m env c opts g cb out0 X answer out \<longleftrightarrow>
     (case answer of
        Inr r \<Rightarrow>
          if Replayed r then out = out0
          else cb out0 = (Inr (Data r), out) \<and>
            (\<exists>body. marshalStoredResponse env (co_cfg c) (Data r) [opt_MaxStoredResponseLen opts] = Inr body
               \<and> settled m opts g body X)
      | Inl e \<Rightarrow> out = out0 \<or> out = snd (cb out0))"

definition exec_inv ::
  "('s \<Rightarrow> bool) \<Rightarrow> ('s \<Rightarrow> int \<Rightarrow> idem_record option) \<Rightarrow> ('p, 'v) idem_env \<Rightarrow> 's coordinator
    \<Rightarrow> 'p execute_options \<Rightarrow> 's exec_guard \<Rightarrow> ('v, 'w) callback \<Rightarrow> 'w \<Rightarrow> instant set
    \<Rightarrow> 'v exec_pc \<Rightarrow> ('s, 'w) idem_world \<Rightarrow> bool" where
  "exec_inv sinv look env c opts g cb out0 X pc w \<longleftrightarrow>
     sinv (Store w) \<and>
     (case pc of
        At_Create \<Rightarrow> Outside w = out0
      | At_Get \<Rightarrow> Outside w = out0
      | At_GetLatest \<Rightarrow> Outside w = out0
      | At_ReclaimExpired r \<Rightarrow> Outside w = out0 \<and> look (Store w) (ID r) = Some r \<and> about opts g r
      | At_ReclaimFailed r \<Rightarrow> Outside w = out0 \<and> look (Store w) (ID r) = Some r \<and> about opts g r
      | At_Run rid \<Rightarrow> Outside w = out0 \<and> owned (look (Store w)) opts g rid
      | At_Returned rid _ res \<Rightarrow> cb out0 = (res, Outside w) \<and> owned (look (Store w)) opts g rid
      | At_MarkFailed rid _ x e \<Rightarrow> cb out0 = (Inl e, Outside w) \<and> owned (look (Store w)) opts g rid
      | At_MarkSucceeded rid _ x d \<Rightarrow>
          cb out0 = (Inr d, Outside w) \<and> owned (look (Store w)) opts g rid \<and> x \<in> X
      | At_Return _ answer \<Rightarrow> answer_inv (look (Store w)) env c opts g cb out0 X answer (Outside w)
      | Finished answer \<Rightarrow> answer_inv (look (Store w)) env c opts g cb out0 X answer (Outside w))"

lemma finish_eq [simp]: "finish x = (Finished (fst x), snd x)"
  by (simp add: finish_def apfst_def map_prod_def split: prod.split)

lemma apfst_eq: "apfst f x = (f (fst x), snd x)"
  by (simp add: apfst_def map_prod_def split: prod.split)

lemma owned_created: "creates m t (new_record opts g) i m' \<Longrightarrow> owned m' opts g i"
  by (simp add: creates_def owned_def about_def created_row_def new_record_def key_of_def)

context record_store
begin

lemma reclaimed_owned:
  assumes "inv s" and "look s (ID r) = Some r" and "about opts g r"
    and "TryReclaim repo t (ID r) st now l x s = (Inr True, s')"
  shows "inv s' \<and> owned (look s') opts g (ID r)"
proof -
  have "look s' = update_at (look s) (ID r) (claimable st now) (claimed t l x)" "claimable st now r"
    using reclaim_law [OF assms(1), where t = t and i = "ID r" and st = st and now = now and l = l and x = x] assms(2,4)
    by (auto simp: served_or_failed_def)
  moreover have "inv s'" using reclaim_inv [OF assms(1), where t = t and i = "ID r" and st = st and now = now and l = l and x = x] assms(4) by simp
  ultimately show ?thesis
    using assms(2,3)
    by (auto simp: owned_def update_at_def about_def claimed_def key_of_def)
qed

lemma reclaim_not_taken:
  assumes "inv s" and "TryReclaim repo t i st now l x s = (Inr False, s')"
  shows "look s' = look s"
  using reclaim_law [OF assms(1), where t = t and i = i and st = st and now = now and l = l and x = x] assms(2)
  by (auto simp: served_or_failed_def update_at_def split: option.splits)

lemma dispatch_inv:
  assumes "exec_inv inv look env c opts g cb out0 X At_Get w"
    and "look (Store w) (ID r) = Some r" and "about opts g r"
    and "dispatch_existing env c opts g r w = (pc, w')"
  shows "exec_inv inv look env c opts g cb out0 X pc w'"
  using assms
  by (auto simp: dispatch_existing_def exec_inv_def answer_inv_def split: if_splits sum.splits)

lemma claimed_inv:
  assumes "inv (Store w)" and "Outside w = out0" and "owned (look (Store w)) opts g rid"
    and "claimed_pc c opts g rid w = (pc, w')"
  shows "exec_inv inv look env c opts g cb out0 X pc w'"
  using assms
  by (auto simp: claimed_pc_def exec_inv_def answer_inv_def split: if_splits sum.splits)

lemma unavailable_inv:
  assumes "inv (Store w)" and "Outside w = out0 \<or> Outside w = snd (cb out0)"
  shows "exec_inv inv look env c opts g cb out0 X
    (Finished (fst (store_unavailable c opts g st oper fr ca w)))
    (snd (store_unavailable c opts g st oper fr ca w))"
  using assms by (auto simp: exec_inv_def answer_inv_def store_unavailable_def)

lemma exec_step_inv:
  assumes I: "exec_inv inv look env c opts g cb out0 X pc w"
    and repo: "gd_repo g = repo"
    and X: "gd_expiresAt g \<in> X" "t + gd_ttl g \<in> X"
    and step: "exec_step env c opts g cb t pc w = (pc', w')"
  shows "exec_inv inv look env c opts g cb out0 X pc' w'"
proof (cases pc)
  case At_Create
  let ?c = "CreateProcessing repo t (new_record opts g) (Store w)"
  from At_Create I have inv: "inv (Store w)" and out: "Outside w = out0" by (simp_all add: exec_inv_def)
  have inv': "inv (snd ?c)" using inv by (rule create_inv)
  note law = create_law [OF inv, of t "new_record opts g"]
  show ?thesis
  proof (cases "fst ?c")
    case (Inl e)
    with step At_Create repo inv' out show ?thesis
      by (auto simp: exec_step.simps case_prod_beta intro!: unavailable_inv)
  next
    case (Inr x)
    obtain owner rec' where x: "x = (owner, rec')" by fastforce
    show ?thesis
    proof (cases owner)
      case True
      with law Inr x have "creates (look (Store w)) t (new_record opts g) (ID rec') (look (snd ?c))"
        by (simp add: create_outcome_def)
      then have "owned (look (snd ?c)) opts g (ID rec')" by (rule owned_created)
      with True step At_Create repo inv' out Inr x show ?thesis
        by (auto simp: exec_step.simps case_prod_beta elim!: claimed_inv [rotated 3])
    next
      case False
      with step At_Create repo inv' out Inr x show ?thesis
        by (auto simp: exec_step.simps case_prod_beta exec_inv_def)
    qed
  qed
next
  case (At_Run rid)
  with I step show ?thesis by (auto simp: exec_step.simps exec_inv_def split: prod.splits)
next
  case (At_Returned rid start res)
  with I step X show ?thesis
    by (auto simp: exec_step.simps exec_inv_def Let_def split: sum.splits if_splits)
next
  case At_Get
  let ?c = "GetByScopeAndKeyHash repo t (opt_Scope opts) (gd_keyHash g) (Store w)"
  from At_Get I have inv: "inv (Store w)" and out: "Outside w = out0" by (simp_all add: exec_inv_def)
  have inv': "inv (snd ?c)" using inv by (rule get_inv)
  note law = get_law [OF inv, where t = t and sc = "opt_Scope opts" and kh = "gd_keyHash g"] get_pure [OF inv]
  have I': "exec_inv inv look env c opts g cb out0 X At_Get (with_store w (snd ?c))"
    using inv' out by (simp add: exec_inv_def)
  consider e where "fst ?c = Inl e" | "fst ?c = Inr None" | r where "fst ?c = Inr (Some r)"
    by (metis sum.exhaust option.exhaust)
  then show ?thesis
  proof cases
    case (3 r)
    note got = 3
    from 3 law have r: "look (snd ?c) (ID r) = Some r" "key_of r = (opt_Scope opts, gd_keyHash g)"
      by (simp_all add: get_outcome_def)
    consider "RequestFingerprint r \<noteq> gd_fingerprint g"
      | "about opts g r" "\<not> ExpiresAt r > gd_now g"
      | "about opts g r" "ExpiresAt r > gd_now g"
      using r(2) by (auto simp: about_def)
    then show ?thesis
    proof cases
      case 1
      with step At_Get repo inv' out got show ?thesis
        by (auto simp: exec_step.simps case_prod_beta exec_inv_def answer_inv_def fingerprint_mismatch_def)
    next
      case 2
      with step At_Get repo inv' out got r show ?thesis
        by (auto simp: exec_step.simps case_prod_beta exec_inv_def about_def)
    next
      case 3
      with step At_Get repo got r
      have "dispatch_existing env c opts g r (with_store w (snd ?c)) = (pc', w')"
        by (simp add: exec_step.simps case_prod_beta about_def)
      with I' r 3(1) show ?thesis by (auto intro: dispatch_inv)
    qed
  qed (use step At_Get repo inv' out in
    \<open>auto simp: exec_step.simps case_prod_beta intro!: unavailable_inv\<close>)
next
  case At_GetLatest
  let ?c = "GetByScopeAndKeyHash repo t (opt_Scope opts) (gd_keyHash g) (Store w)"
  from At_GetLatest I have inv: "inv (Store w)" and out: "Outside w = out0"
    by (simp_all add: exec_inv_def)
  have inv': "inv (snd ?c)" using inv by (rule get_inv)
  note law = get_law [OF inv, where t = t and sc = "opt_Scope opts" and kh = "gd_keyHash g"] get_pure [OF inv]
  have I': "exec_inv inv look env c opts g cb out0 X At_Get (with_store w (snd ?c))"
    using inv' out by (simp add: exec_inv_def)
  consider e where "fst ?c = Inl e" | "fst ?c = Inr None" | r where "fst ?c = Inr (Some r)"
    by (metis sum.exhaust option.exhaust)
  then show ?thesis
  proof cases
    case (3 r)
    with law have r: "look (snd ?c) (ID r) = Some r" "key_of r = (opt_Scope opts, gd_keyHash g)"
      by (simp_all add: get_outcome_def)
    show ?thesis
    proof (cases "RequestFingerprint r = gd_fingerprint g")
      case False
      with step At_GetLatest repo inv' out 3 show ?thesis
        by (auto simp: exec_step.simps case_prod_beta exec_inv_def answer_inv_def fingerprint_mismatch_def)
    next
      case True
      with step At_GetLatest repo 3
      have "dispatch_existing env c opts g r (with_store w (snd ?c)) = (pc', w')"
        by (simp add: exec_step.simps case_prod_beta)
      with I' r True show ?thesis by (auto intro: dispatch_inv simp: about_def)
    qed
  qed (use step At_GetLatest repo inv' out in
    \<open>auto simp: exec_step.simps case_prod_beta intro!: unavailable_inv\<close>)
next
  case (At_ReclaimExpired r)
  let ?c = "TryReclaim repo t (ID r) (RecStatus r) (gd_now g) (gd_lockedUntil g) (gd_expiresAt g) (Store w)"
  from At_ReclaimExpired I have inv: "inv (Store w)" and out: "Outside w = out0"
    and r: "look (Store w) (ID r) = Some r" "about opts g r" by (simp_all add: exec_inv_def)
  have inv': "inv (snd ?c)" using inv by (rule reclaim_inv)
  consider e where "fst ?c = Inl e" | "fst ?c = Inr False" | "fst ?c = Inr True"
    by (metis sum.exhaust)
  then show ?thesis
  proof cases
    case 3
    then have "owned (look (snd ?c)) opts g (ID r)"
      using reclaimed_owned [OF inv r] by (metis prod.collapse)
    with 3 step At_ReclaimExpired repo inv' out show ?thesis
      by (auto simp: exec_step.simps case_prod_beta elim!: claimed_inv [rotated 3])
  qed (use step At_ReclaimExpired repo inv' out in
    \<open>auto simp: exec_step.simps case_prod_beta exec_inv_def intro!: unavailable_inv [unfolded exec_inv_def]\<close>)
next
  case (At_ReclaimFailed r)
  let ?c = "TryReclaim repo t (ID r) IdempotencyStatusFailedRetryable (gd_now g) (gd_lockedUntil g)
    (gd_expiresAt g) (Store w)"
  from At_ReclaimFailed I have inv: "inv (Store w)" and out: "Outside w = out0"
    and r: "look (Store w) (ID r) = Some r" "about opts g r" by (simp_all add: exec_inv_def)
  have inv': "inv (snd ?c)" using inv by (rule reclaim_inv)
  consider e where "fst ?c = Inl e" | "fst ?c = Inr False" | "fst ?c = Inr True"
    by (metis sum.exhaust)
  then show ?thesis
  proof cases
    case 3
    then have "owned (look (snd ?c)) opts g (ID r)"
      using reclaimed_owned [OF inv r] by (metis prod.collapse)
    with 3 step At_ReclaimFailed repo inv' out show ?thesis
      by (auto simp: exec_step.simps case_prod_beta elim!: claimed_inv [rotated 3])
  qed (use step At_ReclaimFailed repo inv' out in
    \<open>auto simp: exec_step.simps case_prod_beta exec_inv_def answer_inv_def store_unavailable_def\<close>)
next
  case (At_MarkFailed rid start x e)
  let ?reason = "if Reason (Some e) = [] then ''EXECUTION_FAILED'' else Reason (Some e)"
  let ?c = "MarkFailedRetryable repo t rid ?reason (t + FailedRetryBackoff (co_cfg c)) x (Store w)"
  from At_MarkFailed I have inv: "inv (Store w)" and cb: "cb out0 = (Inl e, Outside w)"
    by (simp_all add: exec_inv_def)
  have "inv (snd ?c)" using inv by (rule fail_inv)
  with step At_MarkFailed repo cb show ?thesis
    by (cases "fst ?c") (auto simp: exec_step.simps case_prod_beta Let_def exec_inv_def answer_inv_def)
next
  case (At_MarkSucceeded rid start x d)
  from At_MarkSucceeded I have inv: "inv (Store w)" and cb: "cb out0 = (Inr d, Outside w)"
    and own: "owned (look (Store w)) opts g rid" and x: "x \<in> X" by (simp_all add: exec_inv_def)
  show ?thesis
  proof (cases "marshalStoredResponse env (co_cfg c) d [opt_MaxStoredResponseLen opts]")
    case (Inl e)
    with step At_MarkSucceeded inv cb show ?thesis
      by (auto simp: exec_step.simps exec_inv_def answer_inv_def apfst_eq store_unavailable_def)
  next
    case (Inr body)
    let ?c = "MarkSucceeded repo t rid 200 body x (Store w)"
    have inv': "inv (snd ?c)" using inv by (rule succeed_inv)
    show ?thesis
    proof (cases "fst ?c")
      case None
      with succeed_law [OF inv, of t rid 200 body x]
      have "look (snd ?c) = update_at (look (Store w)) rid (\<lambda>_. True) (succeeded t 200 body x)" by simp
      with own x have "settled (look (snd ?c)) opts g body X"
        by (auto simp: owned_def settled_def update_at_def about_def succeeded_def key_of_def
            intro!: exI [of _ rid])
      with None step At_MarkSucceeded repo cb inv' Inr show ?thesis
        by (auto simp: exec_step.simps case_prod_beta exec_inv_def answer_inv_def)
    next
      case (Some e)
      with step At_MarkSucceeded repo cb inv' Inr show ?thesis
        by (auto simp: exec_step.simps case_prod_beta exec_inv_def answer_inv_def apfst_eq
            store_unavailable_def)
    qed
  qed
qed (use I step in \<open>auto simp: exec_step.simps exec_inv_def\<close>)

lemma exec_run_inv:
  assumes "inv (Store w)" and "gd_repo g = repo"
    and "gd_expiresAt g \<in> X" and "\<And>n. clk n + gd_ttl g \<in> X"
    and "exec_loop env c opts g cb clk n At_Create w = (answer, w')"
  shows "inv (Store w') \<and> answer_inv (look (Store w')) env c opts g cb (Outside w) X answer (Outside w')"
proof -
  have "exec_inv inv look env c opts g cb (Outside w) X (Finished answer) w'"
  proof (rule exec_loop_induct [where I = "exec_inv inv look env c opts g cb (Outside w) X", OF _ _ assms(5)])
    show "exec_inv inv look env c opts g cb (Outside w) X At_Create w"
      using assms(1) by (simp add: exec_inv_def)
  qed (rule exec_step_inv [OF _ assms(2,3,4)])
  then show ?thesis by (simp add: exec_inv_def)
qed

text \<open>
  A record that exists under the key decides the answer without the callback and without a
  change, unless it may be claimed again.
\<close>

lemma existing_decides:
  fixes w :: "('s, 'w) idem_world" and f :: "('s, 'w) idem_world \<Rightarrow> ('s, 'w) idem_world"
  assumes inv: "inv (Store w)" and repo: "gd_repo g = repo"
    and r: "look (Store w) i = Some r" "key_of r = (opt_Scope opts, gd_keyHash g)"
    and out: "\<And>u. (if RequestFingerprint r \<noteq> gd_fingerprint g then fingerprint_mismatch c opts g u
        else dispatch_existing env c opts g r u) = (Finished a0, f u) \<and>
      Store (f u) = Store u \<and> Outside (f u) = Outside u"
    and live: "RequestFingerprint r \<noteq> gd_fingerprint g \<or> ExpiresAt r > gd_now g"
    and run: "exec_loop env c opts g cb clk n At_Create w = (answer, w')"
  shows "Outside w' = Outside w \<and> look (Store w') = look (Store w) \<and>
    (is_unavailable answer \<or> answer = a0)"
proof -
  define I where "I = (\<lambda>pc (u :: (_, _) idem_world). inv (Store u) \<and> look (Store u) = look (Store w) \<and> Outside u = Outside w \<and>
    (pc = At_Create \<or> pc = At_Get \<or> (\<exists>a. pc = Finished a \<and> (is_unavailable a \<or> a = a0))))"
  have taken: "\<not> key_free (look (Store w)) (opt_Scope opts, gd_keyHash g)"
    using r by (auto simp: key_free_def)
  have "I (Finished answer) w'"
  proof (rule exec_loop_induct [where I = I, OF _ _ run])
    show "I At_Create w" using inv by (simp add: I_def)
    fix n pc u pc' u'
    assume I: "I pc u" and step: "exec_step env c opts g cb (clk n) pc u = (pc', u')"
    from I have inv_u: "inv (Store u)" and same: "look (Store u) = look (Store w)" by (simp_all add: I_def)
    consider "pc = At_Create" | "pc = At_Get" | a where "pc = Finished a" using I by (auto simp: I_def)
    then show "I pc' u'"
    proof cases
      case 1
      let ?c = "CreateProcessing repo (clk n) (new_record opts g) (Store u)"
      have key: "key_of (new_record opts g) = (opt_Scope opts, gd_keyHash g)"
        by (simp add: new_record_def key_of_def)
      have "inv (snd ?c)" using inv_u by (rule create_inv)
      moreover have "look (snd ?c) = look (Store w) \<and> (\<forall>x. fst ?c = Inr x \<longrightarrow> \<not> fst x)"
        using create_law [OF inv_u, of "clk n" "new_record opts g"] taken same
        by (auto simp: create_outcome_def creates_def key split: sum.splits prod.splits bool.splits)
      ultimately show ?thesis
        using 1 step repo I
        by (cases "fst ?c") (auto simp: exec_step.simps case_prod_beta I_def split: prod.splits)
    next
      case 2
      let ?c = "GetByScopeAndKeyHash repo (clk n) (opt_Scope opts) (gd_keyHash g) (Store u)"
      have inv': "inv (snd ?c)" using inv_u by (rule get_inv)
      have same': "look (snd ?c) = look (Store w)" using get_pure [OF inv_u] same by simp
      have found: "x = Some r" if "fst ?c = Inr x" for x
      proof (cases x)
        case None
        with that taken same show ?thesis
          using get_law [OF inv_u, where t = "clk n" and sc = "opt_Scope opts" and kh = "gd_keyHash g"]
          by (simp add: get_outcome_def)
      next
        case (Some r')
        with that have "look (Store w) (ID r') = Some r'" "key_of r' = key_of r"
          using get_law [OF inv_u, where t = "clk n" and sc = "opt_Scope opts" and kh = "gd_keyHash g"]
            same r(2) by (simp_all add: get_outcome_def)
        with look_key [OF inv _ r(1)] r(1) Some show ?thesis by fastforce
      qed
      show ?thesis
      proof (cases "fst ?c")
        case (Inl e)
        with 2 step repo have "(pc', u') = finish (store_unavailable c opts g ''get_existing_error''
            ''get_existing'' ''unknown'' (Some e) (with_store u (snd ?c)))"
          by (simp add: exec_step.simps case_prod_beta)
        with inv' same' I show ?thesis by (simp add: I_def)
      next
        case (Inr x)
        with found have "fst ?c = Inr (Some r)" by simp
        with 2 step repo live have "(if RequestFingerprint r \<noteq> gd_fingerprint g
            then fingerprint_mismatch c opts g (with_store u (snd ?c))
            else dispatch_existing env c opts g r (with_store u (snd ?c))) = (pc', u')"
          by (auto simp: exec_step.simps case_prod_beta)
        with out [of "with_store u (snd ?c)"] inv' same' I show ?thesis by (auto simp: I_def)
      qed
    next
      case 3
      with I step show ?thesis by (simp add: exec_step.simps)
    qed
  qed
  then show ?thesis by (simp add: I_def)
qed

end

section \<open>Keys\<close>

lemma runes_nonempty: "runes s \<noteq> [] \<longleftrightarrow> s \<noteq> []"
  by (subst runes.simps) simp

lemma normalize_cases:
  "NormalizeIdempotencyKey raw =
     (let key = trim_space raw
      in if key = [] then Inr []
         else if length key \<le> 128 \<and> (\<forall>c \<in> set key. visible c) then Inr key
         else Inl ErrIdempotencyKeyInvalid)"
proof -
  have "list_ex (\<lambda>r. r < 33 \<or> r > 126) (runes s) \<longleftrightarrow> \<not> (\<forall>c \<in> set s. visible c)" for s
    unfolding runes_visible [symmetric] list_all_iff list_ex_iff by (meson not_le)
  then show ?thesis
    by (simp add: NormalizeIdempotencyKey_def Let_def not_less)
qed

lemma normalize_visible:
  "key \<noteq> [] \<Longrightarrow> length key \<le> 128 \<Longrightarrow> \<forall>c \<in> set key. visible c \<Longrightarrow> NormalizeIdempotencyKey key = Inr key"
  by (simp add: normalize_cases trim_space_visible)

text \<open>
  A key is accepted exactly when, trimmed of white space, it has 1 to 128 bytes that are all
  visible ASCII; the accepted key is the trimmed one, and normalising it again returns it. Any
  other non-blank input is rejected as invalid; a blank one means that no key was given.
\<close>

theorem normalize_key_spec:
  "(NormalizeIdempotencyKey raw = Inr key \<and> key \<noteq> []) =
     (key = trim_space raw \<and> key \<noteq> [] \<and> length key \<le> 128 \<and> (\<forall>c \<in> set key. visible c)) \<and>
   (NormalizeIdempotencyKey raw = Inr []) = (trim_space raw = []) \<and>
   (case NormalizeIdempotencyKey raw of
      Inr k \<Rightarrow> NormalizeIdempotencyKey k = Inr k
    | Inl e \<Rightarrow> e = ErrIdempotencyKeyInvalid)"
proof -
  have "trim_space ([] :: string) = []" by code_simp
  then show ?thesis
    by (auto simp: normalize_cases [of raw] Let_def normalize_visible) (simp add: normalize_cases)
qed

lemma normalize_key_spec_witness:
  "NormalizeIdempotencyKey ''  a-1 '' = Inr ''a-1''"
proof -
  have "trim_space ''  a-1 '' = ''a-1''" by code_simp
  with normalize_key_spec [of "''  a-1 ''" "''a-1''"] show ?thesis by (simp add: visible_def)
qed

section \<open>Guarded executions\<close>

definition guard_of ::
  "('p, 'v) idem_env \<Rightarrow> 's coordinator \<Rightarrow> 'p execute_options \<Rightarrow> 's idem_repo \<Rightarrow> string \<Rightarrow> string \<Rightarrow> instant
    \<Rightarrow> 's exec_guard" where
  "guard_of env c opts repo key fp now =
     \<lparr>gd_repo = repo, gd_keyHash = HashIdempotencyKey env key, gd_fingerprint = fp,
      gd_ttl = effective_ttl c opts, gd_now = now, gd_lockedUntil = now + processing_lock c opts,
      gd_expiresAt = now + effective_ttl c opts\<rparr>"

text \<open>The request carries a valid key and can be fingerprinted.\<close>

definition keyed_request ::
  "('p, 'v) idem_env \<Rightarrow> 'p execute_options \<Rightarrow> string \<Rightarrow> string \<Rightarrow> bool" where
  "keyed_request env opts key fp \<longleftrightarrow>
     NormalizeIdempotencyKey (opt_IdempotencyKey opts) = Inr key \<and> key \<noteq> [] \<and> opt_Scope opts \<noteq> [] \<and>
     BuildIdempotencyFingerprint env (opt_Method opts) (opt_Route opts) (opt_ActorScope opts)
       (opt_Payload opts) = Inr fp"

lemma Execute_keyed:
  assumes "keyed_request env opts key fp" and "co_repo c = Some repo"
  shows "Execute env c opts (Some cb) clk w =
    exec_loop env c opts (guard_of env c opts repo key fp (clk 0)) cb clk 1 At_Create w"
  using assms by (simp add: Execute_def exec_begin_def keyed_request_def guard_of_def)

lemma guard_of_simps [simp]:
  "gd_repo (guard_of env c opts repo key fp now) = repo"
  "gd_keyHash (guard_of env c opts repo key fp now) = HashIdempotencyKey env key"
  "gd_fingerprint (guard_of env c opts repo key fp now) = fp"
  "gd_ttl (guard_of env c opts repo key fp now) = effective_ttl c opts"
  "gd_now (guard_of env c opts repo key fp now) = now"
  "gd_expiresAt (guard_of env c opts repo key fp now) = now + effective_ttl c opts"
  by (simp_all add: guard_of_def)

lemma dispatch_replay:
  assumes "RecStatus r = IdempotencyStatusSucceeded" and "decodeStoredResponse env (ResponseBody r) = Inr d"
  shows "dispatch_existing env c opts g r u =
    (Finished (Inr \<lparr>Data = d, Replayed = True\<rparr>),
     audit c opts g ''succeeded->replayed'' True []
       (obs (recordIdempotencyReplay (co_observer c) (opt_Route opts) (opt_Scope opts) []) u))"
  using assms by (simp add: dispatch_existing_def)

lemma dispatch_undecodable:
  assumes "RecStatus r = IdempotencyStatusSucceeded" and "decodeStoredResponse env (ResponseBody r) = Inl e"
  shows "dispatch_existing env c opts g r u =
    (Finished (Inl (WithCause ErrIdempotencyStoreUnavail (Some e))),
     audit c opts g ''succeeded->store_unavailable'' False [(''operation'', ''decode_stored_response'')]
       (unavailable c opts ''decode_stored_response_error'' u))"
  using assms by (simp add: dispatch_existing_def store_unavailable_def)

lemma unavailable_with_cause: "is_unavailable (Inl (WithCause ErrIdempotencyStoreUnavail e))"
  by (simp add: is_unavailable_def Reason_def FromError_def ErrIdempotencyStoreUnavail_def go_simps)

text \<open>
  C2: once a keyed write has succeeded, every repetition of the request that starts before the
  stored response expires leaves the outside world and the table alone: it returns the stored
  response as a replay, or reports the store unavailable; the first run called the callback
  exactly once and returned its data. Any statement of either run may be lost or unconfirmed.
\<close>

theorem replay_after_success:
  assumes req: "keyed_request env opts key fp" and repo: "co_repo c = Some NewIdempotencyRepository"
    and inv: "store_inv (Store w)"
    and first: "Execute env c opts (Some cb) clk w = (Inr r, w1)" and fresh: "\<not> Replayed r"
    and same: "Store w2 = Store w1"
    and live: "\<forall>n. clk2 0 < clk n + effective_ttl c opts"
    and again: "Execute env c opts (Some cb2) clk2 w2 = (answer, w3)"
  shows "cb (Outside w) = (Inr (Data r), Outside w1) \<and>
    Outside w3 = Outside w2 \<and> row_of (Store w3) = row_of (Store w1) \<and>
    (is_unavailable answer \<or>
     (\<exists>body d. marshalStoredResponse env (co_cfg c) (Data r) [opt_MaxStoredResponseLen opts] = Inr body \<and>
        decodeStoredResponse env (Some body) = Inr d \<and> answer = Inr \<lparr>Data = d, Replayed = True\<rparr>))"
proof -
  let ?repo = NewIdempotencyRepository
  let ?g = "\<lambda>now. guard_of env c opts ?repo key fp now"
  let ?X = "range (\<lambda>n. clk n + effective_ttl c opts)"
  have ran: "store_inv (Store w1) \<and>
      answer_inv (row_of (Store w1)) env c opts (?g (clk 0)) cb (Outside w) ?X (Inr r) (Outside w1)"
    by (rule pg.exec_run_inv [OF inv, where clk = clk and n = 1])
      (use first in \<open>auto simp: Execute_keyed [OF req repo]\<close>)
  with fresh obtain body i row where
    cb: "cb (Outside w) = (Inr (Data r), Outside w1)"
    and body: "marshalStoredResponse env (co_cfg c) (Data r) [opt_MaxStoredResponseLen opts] = Inr body"
    and row: "row_of (Store w1) i = Some row" "about opts (?g (clk 0)) row"
      "RecStatus row = IdempotencyStatusSucceeded" "ResponseBody row = Some body" "ExpiresAt row \<in> ?X"
    by (auto simp: answer_inv_def settled_def)
  from row(2,5) live have row': "key_of row = (opt_Scope opts, HashIdempotencyKey env key)"
    "RequestFingerprint row = fp" "clk2 0 < ExpiresAt row"
    by (auto simp: about_def)
  have again': "exec_loop env c opts (?g (clk2 0)) cb2 clk2 1 At_Create w2 = (answer, w3)"
    using again by (simp add: Execute_keyed [OF req repo])
  note decides = pg.existing_decides [where w = w2 and i = i and r = row, OF _ _ _ _ _ _ again']
  show ?thesis
  proof (cases "decodeStoredResponse env (Some body)")
    case (Inl e)
    have "Outside w3 = Outside w2 \<and> row_of (Store w3) = row_of (Store w2) \<and>
        (is_unavailable answer \<or> answer = Inl (WithCause ErrIdempotencyStoreUnavail (Some e)))"
      by (rule decides [where f = "\<lambda>u. audit c opts (?g (clk2 0)) ''succeeded->store_unavailable'' False
            [(''operation'', ''decode_stored_response'')]
            (unavailable c opts ''decode_stored_response_error'' u)"])
        (use ran same row row' Inl in \<open>simp_all add: dispatch_undecodable\<close>)
    then show ?thesis using cb same unavailable_with_cause by auto
  next
    case (Inr d)
    have "Outside w3 = Outside w2 \<and> row_of (Store w3) = row_of (Store w2) \<and>
        (is_unavailable answer \<or> answer = Inr \<lparr>Data = d, Replayed = True\<rparr>)"
      by (rule decides [where f = "\<lambda>u. audit c opts (?g (clk2 0)) ''succeeded->replayed'' True []
            (obs (recordIdempotencyReplay (co_observer c) (opt_Route opts) (opt_Scope opts) []) u)"])
        (use ran same row row' Inr in \<open>simp_all add: dispatch_replay\<close>)
    with cb body same Inr show ?thesis by auto
  qed
qed

text \<open>A concrete run: JSON and the hash are the identity, the callback counts its runs.\<close>

definition demo_env :: "(string, string) idem_env" where
  "demo_env =
     \<lparr>sha256_hex = (\<lambda>s. s), to_upper = (\<lambda>s. s), marshal_payload = Inr, marshal_data = Inr,
      unmarshal_data = Inr, empty_object = ''{}'', RedactText = (\<lambda>s. s), format_ms = (\<lambda>_. ''0.000'')\<rparr>"

definition demo_coordinator :: "pg_store coordinator" where
  "demo_coordinator = NewIdempotencyCoordinator (Some NewIdempotencyRepository) DefaultIdempotencyConfig []"

definition demo_options :: "string execute_options" where
  "demo_options =
     \<lparr>opt_Scope = ''s'', opt_ActorScope = ''u'', opt_Method = ''POST'', opt_Route = ''/r'',
      opt_IdempotencyKey = ''k'', opt_Payload = ''p'', opt_TTL = 0, opt_RequireKey = True,
      opt_ExecutionTimeout = 0, opt_MaxStoredResponseLen = 0\<rparr>"

definition demo_callback :: "(string, nat) callback" where
  "demo_callback n = (Inr ''ok'', Suc n)"

definition demo_world :: "(pg_store, nat) idem_world" where
  "demo_world =
     \<lparr>Store = \<lparr>Rows = [], NextID = 1, Faults = []\<rparr>, Outside = 0, Obs = \<lparr>Metrics = \<lparr>claimTotal = 0, replayTotal = 0,
        conflictTotal = 0, retryBackoffTotal = 0, processingDurationCount = 0,
        processingDurationMicros = 0, storeUnavailableTotal = 0\<rparr>, Observed = []\<rparr>\<rparr>"

definition answers :: "'v exec_answer \<Rightarrow> 'v \<Rightarrow> bool \<Rightarrow> bool" where
  "answers a d replayed \<longleftrightarrow> (case a of Inr r \<Rightarrow> Data r = d \<and> Replayed r = replayed | Inl _ \<Rightarrow> False)"

definition demo_first :: "string exec_answer \<times> (pg_store, nat) idem_world" where
  "demo_first = Execute demo_env demo_coordinator demo_options (Some demo_callback) int demo_world"

definition demo_second :: "string exec_answer \<times> (pg_store, nat) idem_world" where
  "demo_second = Execute demo_env demo_coordinator demo_options (Some demo_callback)
     (\<lambda>n. int n + 100) (snd demo_first)"

lemma demo_runs: "answers (fst demo_first) ''ok'' False" "answers (fst demo_second) ''ok'' True"
  by code_simp+

lemma replay_after_success_witness:
  "answers (fst demo_first) ''ok'' False \<and> answers (fst demo_second) ''ok'' True \<and>
   Outside (snd demo_first) = 1 \<and> Outside (snd demo_second) = 1"
proof -
  have req: "keyed_request demo_env demo_options ''k'' (''POST'' @ [CHR 0x0A] @ ''/r'' @ [CHR 0x0A] @ ''u'' @ [CHR 0x0A] @ ''p'')"
    by (simp add: keyed_request_def demo_options_def demo_env_def BuildIdempotencyFingerprint_def
        normalize_visible visible_def)
  obtain r where r: "fst demo_first = Inr r" "Data r = ''ok''" "\<not> Replayed r"
    using demo_runs(1) by (auto simp: answers_def split: sum.splits)
  have repo: "co_repo demo_coordinator = Some NewIdempotencyRepository"
    by (simp add: demo_coordinator_def NewIdempotencyCoordinator_def)
  have inv: "store_inv (Store demo_world)"
    by (simp add: demo_world_def store_inv_def)
  have first: "Execute demo_env demo_coordinator demo_options (Some demo_callback) int demo_world
      = (Inr r, snd demo_first)"
    using r(1) by (metis demo_first_def prod.collapse)
  have live: "\<forall>n. int 0 + 100 < int n + effective_ttl demo_coordinator demo_options"
    by (simp add: effective_ttl_def demo_options_def demo_coordinator_def NewIdempotencyCoordinator_def
        DefaultIdempotencyConfig_def go_simps)
  have "demo_callback (Outside demo_world) = (Inr (Data r), Outside (snd demo_first)) \<and>
      Outside (snd demo_second) = Outside (snd demo_first)"
    using replay_after_success [where ?clk2.0 = "\<lambda>n. int n + 100",
        OF req repo inv first r(3) refl live prod.collapse [symmetric]]
    by (simp add: demo_second_def)
  then show ?thesis using demo_runs by (simp add: demo_callback_def demo_world_def)
qed

end
