(* ===== verification/Idem_Behaviour.thy ===== *)
theory Idem_Behaviour
  imports Idem_Coordinator
begin

text \<open>
  What callers of \<^verbatim>\<open>IdempotencyCoordinator.Execute\<close> see besides the replay: the answers while a
  record stands in the way, the number of runs of the callback, the seconds of a
  \<^verbatim>\<open>Retry-After\<close>, and the truncation of stored responses.
\<close>

text \<open>The error a repeated request gets for the record \<open>r\<close> found under its key.\<close>

definition refused_with :: "idem_record \<Rightarrow> string \<Rightarrow> instant \<Rightarrow> go_error option" where
  "refused_with r fp now =
     (if RequestFingerprint r \<noteq> fp then Some ErrIdempotencyKeyConflict
      else if ExpiresAt r \<le> now then None
      else if RecStatus r = IdempotencyStatusProcessing
      then Some (conflictWithRetryAfter ErrIdempotencyInProgress (LockedUntil r) now)
      else if RecStatus r = IdempotencyStatusFailedRetryable
      then (case LockedUntil r of
              None \<Rightarrow> None
            | Some l \<Rightarrow> if l > now then Some (conflictWithRetryAfter ErrIdempotencyRetryBackoff (Some l) now)
                        else None)
      else if RecStatus r = IdempotencyStatusSucceeded then None
      else Some ErrIdempotencyKeyConflict)"

lemma status_distinct [simp]:
  "IdempotencyStatusProcessing \<noteq> IdempotencyStatusSucceeded"
  "IdempotencyStatusSucceeded \<noteq> IdempotencyStatusProcessing"
  "IdempotencyStatusFailedRetryable \<noteq> IdempotencyStatusSucceeded"
  "IdempotencyStatusSucceeded \<noteq> IdempotencyStatusFailedRetryable"
  "IdempotencyStatusFailedRetryable \<noteq> IdempotencyStatusProcessing"
  "IdempotencyStatusProcessing \<noteq> IdempotencyStatusFailedRetryable"
  by (simp_all add: go_simps)

definition refusal_world ::
  "'s coordinator \<Rightarrow> 'p execute_options \<Rightarrow> 's exec_guard \<Rightarrow> idem_record \<Rightarrow> ('s, 'w) idem_world \<Rightarrow> ('s, 'w) idem_world" where
  "refusal_world c opts g r u =
     (if RequestFingerprint r \<noteq> gd_fingerprint g
      then audit c opts g ''existing->fingerprint_mismatch'' False []
        (conflict_observed c opts ''fingerprint_mismatch'' u)
      else if RecStatus r = IdempotencyStatusProcessing
      then audit c opts g ''processing->conflict'' False [] (conflict_observed c opts ''in_progress'' u)
      else if RecStatus r = IdempotencyStatusFailedRetryable
      then audit c opts g ''failed_retryable->retry_backoff_conflict'' False []
        (retry_backoff_observed c opts (conflict_observed c opts ''retry_backoff'' u))
      else audit c opts g ''existing->conflict'' False [(''status'', RecStatus r)]
        (conflict_observed c opts ''unexpected_status'' u))"

lemma refusal_world_same [simp]:
  "Store (refusal_world c opts g r u) = Store u" "Outside (refusal_world c opts g r u) = Outside u"
  by (simp_all add: refusal_world_def)

lemma refused_step:
  assumes "refused_with r (gd_fingerprint g) (gd_now g) = Some e"
  shows "(if RequestFingerprint r \<noteq> gd_fingerprint g then fingerprint_mismatch c opts g u
      else dispatch_existing env c opts g r u) = (Finished (Inl e), refusal_world c opts g r u)"
  using assms
  by (auto simp: refused_with_def refusal_world_def dispatch_existing_def fingerprint_mismatch_def
      split: if_splits option.splits)

text \<open>
  C19: while a record stands under the key of a request, the request is refused without running
  the callback and without touching the table: with a key conflict when its fingerprint differs
  (even after expiry), and, as long as the record has not expired, with \<^verbatim>\<open>in progress\<close> when the
  first request still runs, with \<^verbatim>\<open>retry backoff\<close> while a failed one is locked, both with the
  seconds left. The only other answer is that the store is unavailable.
\<close>

theorem existing_record_refuses:
  fixes w :: "(pg_store, 'w) idem_world"
  assumes req: "keyed_request env opts key fp" and repo: "co_repo c = Some NewIdempotencyRepository"
    and inv: "store_inv (Store w)"
    and r: "row_of (Store w) i = Some r" "key_of r = (opt_Scope opts, HashIdempotencyKey env key)"
    and refused: "refused_with r fp (clk 0) = Some e"
    and run: "Execute env c opts (Some cb) clk w = (answer, w1)"
  shows "Outside w1 = Outside w \<and> row_of (Store w1) = row_of (Store w) \<and>
    (answer = Inl e \<or> is_unavailable answer)"
proof -
  let ?g = "guard_of env c opts NewIdempotencyRepository key fp (clk 0)"
  have run': "exec_loop env c opts ?g cb clk 1 At_Create w = (answer, w1)"
    using run by (simp add: Execute_keyed [OF req repo])
  have live: "RequestFingerprint r \<noteq> gd_fingerprint ?g \<or> ExpiresAt r > gd_now ?g"
    using refused by (auto simp: refused_with_def split: if_splits)
  have step: "(if RequestFingerprint r \<noteq> gd_fingerprint ?g then fingerprint_mismatch c opts ?g u
      else dispatch_existing env c opts ?g r u) = (Finished (Inl e), refusal_world c opts ?g r u) \<and>
      Store (refusal_world c opts ?g r u) = Store u \<and> Outside (refusal_world c opts ?g r u) = Outside u"
    for u :: "(pg_store, 'w) idem_world"
    by (intro conjI refused_step) (use refused in simp_all)
  show ?thesis
    using pg.existing_decides [OF inv _ r(1) _ step live run'] r(2) by auto
qed

definition held_world :: "(pg_store, nat) idem_world" where
  "held_world = demo_world
     \<lparr>Store := \<lparr>Rows = [\<lparr>ID = 7, Scope = ''s'', IdempotencyKeyHash = ''k'', RequestFingerprint = ''other'',
        RecStatus = IdempotencyStatusProcessing, ResponseStatus = None, ResponseBody = None,
        ErrorReason = None, LockedUntil = Some 50, ExpiresAt = 90, CreatedAt = 0, UpdatedAt = 0\<rparr>],
        NextID = 8, Faults = []\<rparr>\<rparr>"

lemma demo_request:
  "keyed_request demo_env demo_options ''k''
     (''POST'' @ [CHR 0x0A] @ ''/r'' @ [CHR 0x0A] @ ''u'' @ [CHR 0x0A] @ ''p'')"
  by (simp add: keyed_request_def demo_options_def demo_env_def BuildIdempotencyFingerprint_def
      normalize_visible visible_def)

lemma demo_repo: "co_repo demo_coordinator = Some NewIdempotencyRepository"
  by (simp add: demo_coordinator_def NewIdempotencyCoordinator_def)

lemma existing_record_refuses_witness:
  "Outside (snd (Execute demo_env demo_coordinator demo_options (Some demo_callback) int held_world)) = 0 \<and>
   (fst (Execute demo_env demo_coordinator demo_options (Some demo_callback) int held_world)
      = Inl ErrIdempotencyKeyConflict \<or>
    is_unavailable (fst (Execute demo_env demo_coordinator demo_options (Some demo_callback) int held_world)))"
proof -
  have inv: "store_inv (Store held_world)" by (simp add: held_world_def store_inv_def)
  obtain r where r: "row_of (Store held_world) 7 = Some r"
    "key_of r = (opt_Scope demo_options, HashIdempotencyKey demo_env ''k'')"
    "RequestFingerprint r = ''other''"
    by (simp add: held_world_def row_of_def key_of_def demo_options_def HashIdempotencyKey_def demo_env_def)
  from existing_record_refuses [OF demo_request demo_repo inv r(1,2) _ prod.collapse [symmetric],
      of int ErrIdempotencyKeyConflict demo_callback]
  show ?thesis using r(3) by (auto simp: refused_with_def held_world_def demo_world_def)
qed

text \<open>
  C4: an execution with a repository runs the callback at most once, keeps the invariant of the
  table, and returns fresh data only when that one run returned it.
\<close>

theorem execute_at_most_once:
  assumes inv: "store_inv (Store w)" and repo: "co_repo c = Some NewIdempotencyRepository"
    and run: "Execute env c opts (Some cb) clk w = (answer, w1)"
  shows "store_inv (Store w1) \<and> (Outside w1 = Outside w \<or> Outside w1 = snd (cb (Outside w))) \<and>
    (\<forall>r. answer = Inr r \<longrightarrow>
       (if Replayed r then Outside w1 = Outside w else cb (Outside w) = (Inr (Data r), Outside w1)))"
proof (cases "\<exists>key fp. keyed_request env opts key fp")
  case True
  then obtain key fp where req: "keyed_request env opts key fp" by blast
  let ?g = "guard_of env c opts NewIdempotencyRepository key fp (clk 0)"
  have "store_inv (Store w1) \<and>
      answer_inv (row_of (Store w1)) env c opts ?g cb (Outside w) UNIV answer (Outside w1)"
    by (rule pg.exec_run_inv [OF inv, where clk = clk and n = 1])
      (use run in \<open>auto simp: Execute_keyed [OF req repo]\<close>)
  then show ?thesis
    by (cases answer) (auto simp: answer_inv_def split: if_splits)
next
  case False
  with run repo inv show ?thesis
    by (cases "cb (Outside w)")
      (auto simp: Execute_def exec_begin_def keyed_request_def split: sum.splits if_splits)
qed

lemma execute_at_most_once_witness:
  "Outside (snd (Execute demo_env demo_coordinator demo_options (Some demo_callback) int demo_world)) \<le> 1"
proof -
  have "store_inv (Store demo_world)" by (simp add: demo_world_def store_inv_def)
  from execute_at_most_once [OF this demo_repo prod.collapse [symmetric],
      of demo_env demo_options demo_callback int]
  show ?thesis by (auto simp: demo_world_def demo_callback_def)
qed

section \<open>Seconds to wait\<close>

lemma nat_digits_visible: "c \<in> set (nat_digits n) \<Longrightarrow> visible c"
  using nat_digits_are_digits [of n] by (auto simp: list_all_iff is_digit_def visible_def)

lemma trim_space_itoa: "0 \<le> i \<Longrightarrow> trim_space (itoa i) = itoa i"
  by (rule trim_space_visible) (simp add: itoa_def nat_digits_visible)

text \<open>
  The seconds a client reads from a conflict are the whole seconds until the lock ends, at
  least 1, whatever cause and wrapping the error got on its way.
\<close>

theorem retry_after_roundtrip:
  assumes "int64 (l - now)" and "decorates base0 base0"
    and "e = conflictWithRetryAfter base0 (Some l) now"
  shows "RetryAfterSecondsFromError (Some (WrapError m (WithCause e cause))) =
    (if second \<le> l - now then (l - now) div second else 1)"
proof -
  obtain st c where base: "base0 = ApplicationError st c"
    using decorates_status [OF assms(2)] by auto
  define sec where "sec = quot64 (l - now) second"
  define sec' where "sec' = (if sec \<le> 0 then 1 else sec)"
  have pos: "0 < sec'" by (simp add: sec'_def)
  have quot: "sec' = (if second \<le> l - now then (l - now) div second else 1)"
  proof (cases "0 \<le> l - now")
    case True
    then have "sec = (l - now) div second" by (simp add: sec_def quot64_nonneg second_def)
    then show ?thesis
      using True by (auto simp: sec'_def second_def pos_imp_zdiv_pos_iff div_pos_pos_trivial)
  next
    case False
    then have "sec \<le> 0" by (simp add: sec_def quot64_def second_def sgn_if)
    with False show ?thesis by (simp add: sec'_def second_def)
  qed
  have "sec' \<le> 1 \<or> sec' \<le> l - now"
    using quot by (auto simp: second_def split: if_splits)
  then have "int64 sec'"
    using pos assms(1) by (auto simp: int64_def)
  then show ?thesis
    using base assms(3) pos quot
    by (simp add: RetryAfterSecondsFromError_def conflictWithRetryAfter_def Let_def trim_space_itoa
        parse_int64_itoa sec_def [symmetric] sec'_def [symmetric])
qed

lemma retry_after_roundtrip_witness:
  "RetryAfterSecondsFromError (Some (WrapError ''x'' (WithCause
      (conflictWithRetryAfter ErrIdempotencyInProgress (Some (7 * second + 5)) 0) None))) = 7"
proof -
  have "decorates ErrIdempotencyInProgress ErrIdempotencyInProgress"
    by (simp add: ErrIdempotencyInProgress_def go_simps dec_refl)
  from retry_after_roundtrip [OF _ this refl, of "7 * second + 5" 0 "''x''" None]
  show ?thesis by (simp add: int64_def second_def)
qed

section \<open>Truncation of stored responses\<close>

lemma shrink_utf8_spec:
  "0 \<le> n \<Longrightarrow> 0 \<le> shrink_utf8 s n \<and> shrink_utf8 s n \<le> n \<and> valid_utf8 (take (nat (shrink_utf8 s n)) s) \<and>
   (\<forall>j. shrink_utf8 s n < j \<and> j \<le> n \<longrightarrow> \<not> valid_utf8 (take (nat j) s))"
proof (induction s n rule: shrink_utf8.induct)
  case (1 s n)
  show ?case
  proof (cases "n > 0 \<and> \<not> valid_utf8 (take (nat n) s)")
    case True
    with 1 have "0 \<le> shrink_utf8 s (n - 1) \<and> shrink_utf8 s (n - 1) \<le> n - 1 \<and>
        valid_utf8 (take (nat (shrink_utf8 s (n - 1))) s) \<and>
        (\<forall>j. shrink_utf8 s (n - 1) < j \<and> j \<le> n - 1 \<longrightarrow> \<not> valid_utf8 (take (nat j) s))"
      by simp
    moreover have "j \<le> n \<Longrightarrow> j \<le> n - 1 \<or> j = n" for j by linarith
    ultimately show ?thesis
      using True by (auto simp: shrink_utf8.simps [of s n])
  next
    case False
    with "1.prems" show ?thesis
      by (cases "n = 0") (auto simp: shrink_utf8.simps [of s n] shrink_utf8.simps [of s 0])
  qed
qed

text \<open>
  Truncating a response to \<open>n\<close> bytes gives its longest prefix of at most \<open>n\<close> bytes that is
  valid UTF-8, and a response within the limit is not changed.
\<close>

theorem truncate_longest_valid_prefix:
  "(0 < n \<and> n < int (length s) \<longrightarrow>
      prefix (truncateUTF8 s n) s \<and> int (length (truncateUTF8 s n)) \<le> n \<and> valid_utf8 (truncateUTF8 s n) \<and>
      (\<forall>p. prefix p s \<and> int (length p) \<le> n \<and> valid_utf8 p \<longrightarrow> length p \<le> length (truncateUTF8 s n))) \<and>
   (int (length s) \<le> n \<longrightarrow> truncateUTF8 s n = s)"
proof ((rule conjI; rule impI), goal_cases)
  case 1
  define k where "k = shrink_utf8 s n"
  have k: "0 \<le> k" "k \<le> n" "valid_utf8 (take (nat k) s)"
    "\<forall>j. k < j \<and> j \<le> n \<longrightarrow> \<not> valid_utf8 (take (nat j) s)"
    using shrink_utf8_spec [of n s] 1 by (auto simp: k_def)
  have t: "truncateUTF8 s n = take (nat k) s" using 1 by (simp add: truncateUTF8_def k_def)
  have "length p \<le> nat k" if "prefix p s" "int (length p) \<le> n" "valid_utf8 p" for p
  proof (rule ccontr)
    assume "\<not> length p \<le> nat k"
    with k(4) that(2) have "\<not> valid_utf8 (take (nat (int (length p))) s)"
      using k(1) by (metis nat_int_comparison(2) nat_le_iff not_le int_nat_eq)
    with that show False by (auto simp: prefix_def)
  qed
  moreover have len: "length (truncateUTF8 s n) = nat k"
  proof -
    have "nat k \<le> length s" using k(1,2) 1 by (simp add: nat_le_iff)
    then show ?thesis by (simp add: t)
  qed
  moreover have "int (length (truncateUTF8 s n)) \<le> n"
    unfolding len using k(1,2) by simp
  moreover have "prefix (truncateUTF8 s n) s" "valid_utf8 (truncateUTF8 s n)"
    unfolding t using k(3) by (simp_all add: take_is_prefix)
  ultimately show ?case by simp
next
  case 2
  then show ?case by (simp add: truncateUTF8_def)
qed

text \<open>A euro sign cut in the middle: the two bytes left of it are dropped.\<close>

lemma truncate_longest_valid_prefix_witness:
  "valid_utf8 (truncateUTF8 (''ab'' @ [CHR 0xE2, CHR 0x82, CHR 0xAC]) 4) \<and>
   length (truncateUTF8 (''ab'' @ [CHR 0xE2, CHR 0x82, CHR 0xAC]) 4) = 2"
proof -
  note eval = valid_utf8.simps [of "_ # _"] decode_rune.simps byte_def lead_def in_range_def rune_error_def
  have "shrink_utf8 (''ab'' @ [CHR 0xE2, CHR 0x82, CHR 0xAC]) 4 = 2"
    by (simp add: shrink_utf8.simps [of _ 4] shrink_utf8.simps [of _ 3] shrink_utf8.simps [of _ 2] eval)
  then have "truncateUTF8 (''ab'' @ [CHR 0xE2, CHR 0x82, CHR 0xAC]) 4 = ''ab''"
    by (simp add: truncateUTF8_def)
  moreover have "valid_utf8 (truncateUTF8 (''ab'' @ [CHR 0xE2, CHR 0x82, CHR 0xAC]) 4)"
    using truncate_longest_valid_prefix [of 4 "''ab'' @ [CHR 0xE2, CHR 0x82, CHR 0xAC]"] by simp
  ultimately show ?thesis by simp
qed

end
