(* ===== verification/Failover.thy ===== *)
theory Failover
  imports Go_Base
begin

text \<open>
  The request-scoped failover state of the gateway (\<^verbatim>\<open>gateway/failover\<close>): when a failed attempt is
  repeated on the same provider, when another provider is tried, how long is waited, and when
  the request gives up.

  The context, the clock, the observer and the temporary ban of a provider are the operations
  \<open>fo_ports\<close> on an environment. A nil failure or policy is \<open>None\<close>; an absent key of the retry
  counts is 0; the zero time of a deadline is 0.
\<close>

record failure_info =
  StatusCode :: int
  fi_ForceCacheBilling :: bool
  RetryableOnSameProvider :: bool
  RequestScopedTransient :: bool
  fi_RetryDelay :: duration
  fi_RetryDeadline :: instant
  fi_RetryMax :: int
  RetryNext :: bool

datatype FailoverAction = FailoverContinue | FailoverExhausted | FailoverCanceled

definition MaxSameProviderRetries :: int where "MaxSameProviderRetries = 3"
definition SameProviderRetryDelay :: duration where "SameProviderRetryDelay = 500 * millisecond"
definition MaxRequestScopedRetryDelay :: duration where "MaxRequestScopedRetryDelay = 8 * second"
definition SingleProviderBackoffDelay :: duration where "SingleProviderBackoffDelay = 2 * second"

lemmas failover_delays [go_simps] =
  SameProviderRetryDelay_def MaxRequestScopedRetryDelay_def SingleProviderBackoffDelay_def

section \<open>Retry decisions\<close>

function double_delay :: "duration \<Rightarrow> int \<Rightarrow> int \<Rightarrow> duration" where
  "double_delay delay i retryCount =
     (if i < retryCount
      then if delay \<ge> quot64 MaxRequestScopedRetryDelay 2 then MaxRequestScopedRetryDelay
           else double_delay (delay * 2) (i + 1) retryCount
      else delay)"
  by pat_completeness auto
termination
  by (relation "measure (\<lambda>(d, i, n). nat (n - i))") auto

declare double_delay.simps [simp del]

definition SameProviderRetryDelayFor :: "failure_info option \<Rightarrow> int \<Rightarrow> duration" where
  "SameProviderRetryDelayFor failoverErr retryCount =
     (case failoverErr of
        None \<Rightarrow> SameProviderRetryDelay
      | Some f \<Rightarrow>
          if fi_RetryDelay f > 0 then fi_RetryDelay f
          else if \<not> RequestScopedTransient f \<or> retryCount \<le> 1 then SameProviderRetryDelay
          else double_delay SameProviderRetryDelay 1 retryCount)"

definition SameProviderRetryDeadlineAllows :: "instant \<Rightarrow> failure_info option \<Rightarrow> bool" where
  "SameProviderRetryDeadlineAllows now failoverErr \<longleftrightarrow>
     (case failoverErr of
        None \<Rightarrow> True
      | Some f \<Rightarrow> fi_RetryDeadline f = 0 \<or> now < fi_RetryDeadline f)"

definition SameProviderRetryAllowed :: "instant \<Rightarrow> failure_info option \<Rightarrow> int \<Rightarrow> int \<Rightarrow> bool" where
  "SameProviderRetryAllowed now failoverErr retryCount retryLimit =
     (case failoverErr of
        None \<Rightarrow> False
      | Some f \<Rightarrow>
          if \<not> RetryableOnSameProvider f then False
          else if \<not> SameProviderRetryDeadlineAllows now failoverErr then False
          else if fi_RetryMax f > 0 then
            (if retryLimit \<le> 0 then False
             else retryCount < (if fi_RetryMax f < retryLimit then fi_RetryMax f else retryLimit))
          else if fi_RetryDeadline f \<noteq> 0 then True
          else retryLimit > 0 \<and> retryCount < retryLimit)"

definition EffectiveSameProviderRetryLimit :: "failure_info option \<Rightarrow> int \<Rightarrow> int" where
  "EffectiveSameProviderRetryLimit failure limit =
     (case failure of
        Some f \<Rightarrow> if limit > 0 \<and> fi_RetryMax f > 0 \<and> fi_RetryMax f < limit then fi_RetryMax f else limit
      | None \<Rightarrow> limit)"

definition NeedForceCacheBilling :: "bool \<Rightarrow> failure_info option \<Rightarrow> bool \<Rightarrow> bool" where
  "NeedForceCacheBilling hasBoundSession failoverErr sameProviderRetry \<longleftrightarrow>
     hasBoundSession \<and> \<not> sameProviderRetry \<or>
     (case failoverErr of None \<Rightarrow> False | Some f \<Rightarrow> fi_ForceCacheBilling f)"

section \<open>The state of a request\<close>

record ('f, 'e) fo_ports =
  fo_canceled :: "'e \<Rightarrow> bool"
  fo_now :: "'e \<Rightarrow> instant"
  fo_sleep :: "duration \<Rightarrow> 'e \<Rightarrow> bool \<times> 'e"
  fo_observe :: "string \<Rightarrow> (string \<times> int) list \<Rightarrow> 'e \<Rightarrow> 'e"
  TempUnscheduleRetryableError :: "int \<Rightarrow> 'f \<Rightarrow> 'e \<Rightarrow> 'e"

record 'f failover_state =
  SwitchCount :: int
  MaxSwitches :: int
  FailedProviderIDs :: "int set"
  SameProviderRetryCount :: "int \<Rightarrow> int"
  LastFailoverErr :: "'f option"
  fs_ForceCacheBilling :: bool
  HasBoundSession :: bool

definition NewFailoverState :: "int \<Rightarrow> bool \<Rightarrow> 'f failover_state" where
  "NewFailoverState maxSwitches hasBoundSession =
     \<lparr>SwitchCount = 0, MaxSwitches = maxSwitches, FailedProviderIDs = {},
      SameProviderRetryCount = (\<lambda>_. 0), LastFailoverErr = None, fs_ForceCacheBilling = False,
      HasBoundSession = hasBoundSession\<rparr>"

definition SleepWithContext :: "('f, 'e) fo_ports \<Rightarrow> duration \<Rightarrow> 'e \<Rightarrow> bool \<times> 'e" where
  "SleepWithContext p d e = (if d \<le> 0 then (True, e) else fo_sleep p d e)"

definition PlatformAntigravity :: string where
  "PlatformAntigravity = ''antigravity''"

text \<open>\<open>retry\<close> is the method \<^verbatim>\<open>RetryFailure\<close> of a non-nil failure.\<close>

definition HandleFailoverError ::
  "('f, 'e) fo_ports \<Rightarrow> ('f \<Rightarrow> failure_info option) \<Rightarrow> int \<Rightarrow> string \<Rightarrow> int \<Rightarrow> 'f
    \<Rightarrow> 'f failover_state \<times> 'e \<Rightarrow> FailoverAction \<times> 'f failover_state \<times> 'e" where
  "HandleFailoverError p retry providerID platform retryLimit failoverErr = (\<lambda>(s, e).
     if fo_canceled p e then (FailoverCanceled, s, e)
     else
       let s = s\<lparr>LastFailoverErr := Some failoverErr\<rparr>
       in case retry failoverErr of
            None \<Rightarrow> (FailoverExhausted, s, e)
          | Some failure \<Rightarrow>
              if \<not> RetryNext failure then (FailoverExhausted, s, e)
              else
                let retryCount = SameProviderRetryCount s providerID;
                    same = SameProviderRetryAllowed (fo_now p e) (Some failure) retryCount retryLimit;
                    s = (if NeedForceCacheBilling (HasBoundSession s) (Some failure) same
                         then s\<lparr>fs_ForceCacheBilling := True\<rparr> else s)
                in if same
                   then
                     let n = retryCount + 1;
                         s = s\<lparr>SameProviderRetryCount := (SameProviderRetryCount s)(providerID := n)\<rparr>;
                         retryDelay = SameProviderRetryDelayFor (Some failure) n;
                         e = fo_observe p ''gateway.failover_same_provider_retry''
                               [(''provider_id'', providerID), (''upstream_status'', StatusCode failure),
                                (''same_provider_retry_count'', n), (''same_provider_retry_max'', retryLimit),
                                (''retry_delay'', retryDelay)] e
                     in case SleepWithContext p retryDelay e of
                          (ok, e) \<Rightarrow> (if ok then FailoverContinue else FailoverCanceled, s, e)
                   else
                     let e = (if RetryableOnSameProvider failure
                              then TempUnscheduleRetryableError p providerID failoverErr e else e);
                         s = s\<lparr>FailedProviderIDs := insert providerID (FailedProviderIDs s)\<rparr>
                     in if SwitchCount s \<ge> MaxSwitches s then (FailoverExhausted, s, e)
                        else
                          let s = s\<lparr>SwitchCount := SwitchCount s + 1\<rparr>;
                              e = fo_observe p ''gateway.failover_switch_provider''
                                    [(''provider_id'', providerID), (''upstream_status'', StatusCode failure),
                                     (''switch_count'', SwitchCount s), (''max_switches'', MaxSwitches s)] e
                          in if platform = PlatformAntigravity
                             then (case SleepWithContext p ((SwitchCount s - 1) * second) e of
                                     (ok, e) \<Rightarrow> (if ok then FailoverContinue else FailoverCanceled, s, e))
                             else (FailoverContinue, s, e))"

definition HandleSelectionExhausted ::
  "('f, 'e) fo_ports \<Rightarrow> ('f \<Rightarrow> failure_info option) \<Rightarrow> 'f failover_state \<times> 'e
    \<Rightarrow> FailoverAction \<times> 'f failover_state \<times> 'e" where
  "HandleSelectionExhausted p retry = (\<lambda>(s, e).
     if fo_canceled p e then (FailoverCanceled, s, e)
     else
       case Option.bind (LastFailoverErr s) retry of
         None \<Rightarrow> (FailoverExhausted, s, e)
       | Some failure \<Rightarrow>
           if StatusCode failure = 503 \<and> SwitchCount s \<le> MaxSwitches s
           then
             let e = fo_observe p ''gateway.failover_single_provider_backoff''
                       [(''backoff_delay'', SingleProviderBackoffDelay),
                        (''switch_count'', SwitchCount s), (''max_switches'', MaxSwitches s)] e
             in case SleepWithContext p SingleProviderBackoffDelay e of
                  (ok, e) \<Rightarrow>
                    if \<not> ok then (FailoverCanceled, s, e)
                    else
                      (FailoverContinue, s\<lparr>FailedProviderIDs := {}\<rparr>,
                       fo_observe p ''gateway.failover_single_provider_retry''
                         [(''switch_count'', SwitchCount s), (''max_switches'', MaxSwitches s)] e)
           else (FailoverExhausted, s, e))"

section \<open>Further budgets\<close>

definition OAuth429MaxProviderAttempts :: int where "OAuth429MaxProviderAttempts = 3"
definition OAuth429StormMinSwitches :: int where "OAuth429StormMinSwitches = 1"
definition FirstOutputTimeoutMaxSwitches :: int where "FirstOutputTimeoutMaxSwitches = 1"

lemmas budget_defs [go_simps] =
  OAuth429MaxProviderAttempts_def OAuth429StormMinSwitches_def FirstOutputTimeoutMaxSwitches_def

record OAuth429State =
  grokFollowupPending :: bool

record OAuth429Provider =
  OpenAI :: bool
  Grok :: bool

text \<open>The state pointer may be nil; the updated state is returned.\<close>

definition StopOAuth429 ::
  "OAuth429Provider \<Rightarrow> int \<Rightarrow> int \<Rightarrow> OAuth429State option \<Rightarrow> bool \<times> OAuth429State option" where
  "StopOAuth429 provider status failedSwitches state =
     (if failedSwitches < OAuth429StormMinSwitches then (False, state)
      else if (case state of None \<Rightarrow> False | Some s \<Rightarrow> grokFollowupPending s) then (True, state)
      else if Grok provider then
        (case state of
           None \<Rightarrow> (status = 429 \<and> failedSwitches \<ge> 2, state)
         | Some s \<Rightarrow> (False, Some (if status = 429 then s\<lparr>grokFollowupPending := True\<rparr> else s)))
      else if status \<noteq> 429 \<or> \<not> OpenAI provider then (False, state)
      else (failedSwitches \<ge> OAuth429MaxProviderAttempts, state))"

definition FirstOutputExhausted :: "bool \<Rightarrow> int option \<Rightarrow> bool \<times> int option" where
  "FirstOutputExhausted eligible switches =
     (case switches of
        None \<Rightarrow> (False, None)
      | Some n \<Rightarrow>
          if \<not> eligible then (False, Some n)
          else if n \<ge> FirstOutputTimeoutMaxSwitches then (True, Some n)
          else (False, Some (n + 1)))"

section \<open>Delays\<close>

lemma double_delay_closed:
  "\<lbrakk>0 < d; d \<le> MaxRequestScopedRetryDelay; MaxRequestScopedRetryDelay = d * 2 ^ m\<rbrakk> \<Longrightarrow>
   double_delay d i n = min MaxRequestScopedRetryDelay (d * 2 ^ nat (n - i))"
proof (induction m arbitrary: d i)
  case 0
  let ?M = MaxRequestScopedRetryDelay
  have "quot64 ?M 2 \<le> ?M" "?M \<le> ?M * 2 ^ k" for k :: nat
    by (simp_all add: quot64_nonneg go_simps)
  then have "double_delay ?M i n = min ?M (?M * 2 ^ nat (n - i))"
    by (simp add: double_delay.simps [of ?M i n] min_def)
  with 0 show ?case by simp
next
  case (Suc m)
  show ?case
  proof (cases "i < n")
    case False
    with Suc.prems show ?thesis by (simp add: double_delay.simps [of d i n])
  next
    case True
    have half: "quot64 MaxRequestScopedRetryDelay 2 = d * 2 ^ m"
      using Suc.prems by (simp add: quot64_nonneg)
    have step: "d * 2 ^ nat (n - i) = d * 2 * 2 ^ nat (n - (i + 1))"
      using True by (simp add: power_Suc [symmetric] Suc_nat_eq_nat_zadd1 del: power_Suc)
    show ?thesis
    proof (cases "d \<ge> quot64 MaxRequestScopedRetryDelay 2")
      case capped: True
      then have "m = 0" using Suc.prems(1) half power_increasing [of 1 m "2 :: int"]
        by (cases "m = 0") auto
      then have "MaxRequestScopedRetryDelay = d * 2" using Suc.prems by simp
      moreover have "d * 2 * 1 \<le> d * 2 * 2 ^ nat (n - (i + 1))"
        using Suc.prems(1) by (intro mult_left_mono) auto
      ultimately show ?thesis
        using True capped by (simp add: double_delay.simps [of d i n] step min_def)
    next
      case False
      have "double_delay (d * 2) (i + 1) n = min MaxRequestScopedRetryDelay (d * 2 * 2 ^ nat (n - (i + 1)))"
      proof (rule Suc.IH)
        have "d * 2 * 1 \<le> d * 2 * 2 ^ m" using Suc.prems(1) by (intro mult_left_mono) auto
        then show "d * 2 \<le> MaxRequestScopedRetryDelay" using Suc.prems(3) by (simp add: mult.assoc)
      qed (use Suc.prems in auto)
      with True False show ?thesis by (simp add: double_delay.simps [of d i n] step)
    qed
  qed
qed

text \<open>
  The wait before the n-th repetition on one provider doubles from 500 ms and is capped at
  8 s when the failure is transient for the request; any other failure waits 500 ms, and an
  explicit delay of the failure replaces both.
\<close>

theorem retry_delay_closed_form:
  "SameProviderRetryDelayFor (Some f) n =
     (if fi_RetryDelay f > 0 then fi_RetryDelay f
      else if RequestScopedTransient f \<and> 1 \<le> n then min (8 * second) (500 * millisecond * 2 ^ nat (n - 1))
      else 500 * millisecond)"
proof -
  have "double_delay SameProviderRetryDelay 1 n = min MaxRequestScopedRetryDelay (SameProviderRetryDelay * 2 ^ nat (n - 1))"
    by (rule double_delay_closed [where m = 4]) (simp_all add: go_simps)
  then show ?thesis
    by (auto simp: SameProviderRetryDelayFor_def go_simps)
qed

section \<open>The budget of a request\<close>

text \<open>Failures whose repetitions are counted, not only limited by a deadline.\<close>

definition counted_failure :: "failure_info \<Rightarrow> bool" where
  "counted_failure f \<longleftrightarrow> fi_RetryDeadline f = 0 \<or> fi_RetryMax f > 0"

lemma same_provider_counted:
  "\<lbrakk>SameProviderRetryAllowed now (Some f) n limit; counted_failure f\<rbrakk> \<Longrightarrow> n < limit"
  by (auto simp: SameProviderRetryAllowed_def counted_failure_def split: if_splits)

text \<open>
  What is left of the budget when only providers of \<open>P\<close> are tried with retry limits up to \<open>R\<close>.
\<close>

definition budget :: "int set \<Rightarrow> int \<Rightarrow> 'f failover_state \<Rightarrow> nat" where
  "budget P R s = nat (MaxSwitches s - SwitchCount s) + (\<Sum>q \<in> P. nat (R - SameProviderRetryCount s q))"

lemma sum_decreases:
  assumes "finite P" and "q \<in> P" and "f' q < f q" and "\<And>x. x \<noteq> q \<Longrightarrow> f' x = f x"
  shows "(\<Sum>x \<in> P. f' x) < (\<Sum>x \<in> P. f x :: nat)"
proof -
  have "f' x \<le> f x" for x using assms(3,4) by (cases "x = q") auto
  with assms(1,2,3) show ?thesis by (intro sum_strict_mono_ex1) auto
qed

text \<open>Every decision to go on uses the budget up.\<close>

lemma handle_continue:
  assumes "HandleFailoverError p retry q pl limit f (s, e) = (FailoverContinue, s', e')"
    and "finite P" and "q \<in> P" and "limit \<le> R" and "\<And>i. retry f = Some i \<Longrightarrow> counted_failure i"
  shows "budget P R s' < budget P R s \<and> MaxSwitches s' = MaxSwitches s \<and>
    FailedProviderIDs s \<subseteq> FailedProviderIDs s' \<and> LastFailoverErr s' = Some f"
proof -
  from assms(1) obtain i where i: "retry f = Some i" "RetryNext i"
    by (auto simp: HandleFailoverError_def Let_def split: if_splits option.splits)
  let ?same = "SameProviderRetryAllowed (fo_now p e) (Some i) (SameProviderRetryCount s q) limit"
  have counts: "(\<Sum>x \<in> P. nat (R - ((SameProviderRetryCount s)(q := SameProviderRetryCount s q + 1)) x))
      < (\<Sum>x \<in> P. nat (R - SameProviderRetryCount s x))" if ?same
    using assms(2-5) same_provider_counted [OF that] i(1)
    by (intro sum_decreases [of P q]) fastforce+
  show ?thesis
  proof (cases ?same)
    case True
    with assms(1) i counts show ?thesis
      by (auto simp: HandleFailoverError_def Let_def budget_def split: if_splits prod.splits)
  next
    case False
    with assms(1) i show ?thesis
      by (auto simp: HandleFailoverError_def Let_def budget_def split: if_splits prod.splits)
  qed
qed

lemma exhausted_continue:
  assumes "HandleSelectionExhausted p retry (s, e) = (FailoverContinue, s', e')"
  shows "s' = s\<lparr>FailedProviderIDs := {}\<rparr> \<and>
    (\<exists>i. Option.bind (LastFailoverErr s) retry = Some i \<and> StatusCode i = 503)"
  using assms
  by (auto simp: HandleSelectionExhausted_def Let_def split: if_splits prod.splits option.splits)

lemma budget_clear [simp]: "budget P R (s\<lparr>FailedProviderIDs := F\<rparr>) = budget P R s"
  by (simp add: budget_def)

end
