(* ===== verification/Text_Messages.thy ===== *)
theory Text_Messages
  imports Failover
begin

text \<open>
  The attempt loop of the Messages and Chat Completions entries (\<^verbatim>\<open>gateway/text/messages.go\<close>,
  \<^verbatim>\<open>RunMessages\<close>): prepare, select, acquire, forward, and on a failure repeat, switch, fall back
  to another group once, or answer.

  Every method of \<^verbatim>\<open>MessagePorts\<close> is an operation on an environment \<open>'e\<close>; \<open>'x\<close> is the type of
  errors. The Go loop has no bound of its own, so \<open>RunMessages\<close> takes fuel, one unit per turn of
  the inner loop; \<open>None\<close> means that it was not enough.
\<close>

record 'x attempt_failure =
  Cause :: 'x
  Policy :: "failure_info option"

datatype failure_kind = FailureOther | FailurePolicy | FailurePromptTooLong

record provider_view =
  pv_ID :: int
  pv_Platform :: string

record selection =
  sel_Provider :: provider_view
  sel_RetryLimit :: int

record 'x outcome =
  oc_Served :: bool
  oc_Err :: "'x option"
  oc_Failure :: "'x attempt_failure option"
  oc_Kind :: failure_kind
  oc_OutputChanged :: bool
  oc_HasResult :: bool
  oc_Stop :: bool
  oc_Skip :: bool

record attempt_state =
  as_SwitchCount :: int
  as_ForceCacheBilling :: bool

record message_options =
  mo_MaxSwitches :: int
  mo_CompletePartialFailure :: bool
  mo_StopOnCanceledContext :: bool
  mo_HasBoundSession :: bool

record ('x, 'e) message_ports =
  mp_failover :: "('x attempt_failure, 'e) fo_ports"
  mp_Begin :: "'e \<Rightarrow> 'e"
  mp_Finish :: "bool \<Rightarrow> 'e \<Rightarrow> 'e"
  mp_PrepareAttempt :: "'e \<Rightarrow> bool \<times> 'e"
  mp_Select :: "int set \<Rightarrow> 'e \<Rightarrow> ('x + selection) \<times> 'e"
  mp_FirstSelectionFailure :: "'x \<Rightarrow> bool \<Rightarrow> 'e \<Rightarrow> 'e"
  mp_SingleProviderRetry :: "'e \<Rightarrow> 'e"
  mp_Canceled :: "'e \<Rightarrow> 'e"
  mp_Exhausted :: "'x attempt_failure option \<Rightarrow> string \<Rightarrow> bool \<Rightarrow> 'e \<Rightarrow> 'e"
  mp_Intercept :: "'e \<Rightarrow> bool \<times> 'e"
  mp_Acquire :: "'e \<Rightarrow> bool \<times> 'e"
  mp_Forward :: "attempt_state \<Rightarrow> 'e \<Rightarrow> 'x outcome \<times> 'e"
  mp_PolicyFailure :: "'x \<Rightarrow> 'e \<Rightarrow> 'e"
  mp_Fallback :: "'x \<Rightarrow> bool \<Rightarrow> 'e \<Rightarrow> bool \<times> 'e"
  mp_OtherFailure :: "'x \<Rightarrow> 'e \<Rightarrow> 'e"
  mp_Complete :: "attempt_state \<Rightarrow> 'e \<Rightarrow> 'e"
  mp_Success :: "'e \<Rightarrow> 'e"
  mp_Switched :: "'e \<Rightarrow> 'e"
  mp_Abandon :: "int \<Rightarrow> 'e \<Rightarrow> 'e"

type_synonym 'x msg_state = "'x attempt_failure failover_state"

text \<open>The end of one turn: another turn, a new group, or the return with \<^verbatim>\<open>served\<close>.\<close>

datatype 'x turn = Again "'x msg_state" | Restart | Done bool

text \<open>The part of a turn after a failed forward.\<close>

definition after_failure ::
  "message_options \<Rightarrow> ('x, 'e) message_ports \<Rightarrow> selection \<Rightarrow> attempt_state \<Rightarrow> 'x outcome \<Rightarrow> 'x
    \<Rightarrow> 'x msg_state \<Rightarrow> 'e \<Rightarrow> 'x turn \<times> 'e" where
  "after_failure opts p selected attempt outcome err s e =
     (case oc_Failure outcome of
        Some failure \<Rightarrow>
          if oc_OutputChanged outcome
          then (Done False, mp_Exhausted p (Some failure) (pv_Platform (sel_Provider selected)) True e)
          else (case HandleFailoverError (mp_failover p) Policy (pv_ID (sel_Provider selected))
                    (pv_Platform (sel_Provider selected)) (sel_RetryLimit selected) failure (s, e) of
              (FailoverContinue, s, e) \<Rightarrow>
                (Again s, mp_Abandon p (pv_ID (sel_Provider selected)) (mp_Switched p e))
            | (FailoverExhausted, s, e) \<Rightarrow>
                (Done False, mp_Exhausted p (LastFailoverErr s) (pv_Platform (sel_Provider selected)) False e)
            | (FailoverCanceled, s, e) \<Rightarrow> (Done False, mp_Canceled p e))
      | None \<Rightarrow>
          let e = mp_OtherFailure p err e
          in if mo_CompletePartialFailure opts
             then (Done (oc_HasResult outcome), mp_Complete p attempt e)
             else (Done False, e))"

definition msg_turn ::
  "message_options \<Rightarrow> ('x, 'e) message_ports \<Rightarrow> bool \<Rightarrow> 'x msg_state \<Rightarrow> 'e \<Rightarrow> 'x turn \<times> 'e" where
  "msg_turn opts p fallbackUsed s e =
     (if mo_StopOnCanceledContext opts \<and> fo_canceled (mp_failover p) e then (Done False, e)
      else case mp_PrepareAttempt p e of
        (False, e) \<Rightarrow> (Done False, e)
      | (True, e) \<Rightarrow>
        (case mp_Select p (FailedProviderIDs s) e of
           (Inl err, e) \<Rightarrow>
             if FailedProviderIDs s = {} then (Done False, mp_FirstSelectionFailure p err fallbackUsed e)
             else (case HandleSelectionExhausted (mp_failover p) Policy (s, e) of
                 (FailoverContinue, s, e) \<Rightarrow> (Again s, mp_SingleProviderRetry p e)
               | (FailoverCanceled, s, e) \<Rightarrow> (Done False, mp_Canceled p e)
               | (FailoverExhausted, s, e) \<Rightarrow> (Done False, mp_Exhausted p (LastFailoverErr s) [] False e))
         | (Inr selected, e) \<Rightarrow>
        (case mp_Intercept p e of
           (True, e) \<Rightarrow> (Done False, e)
         | (False, e) \<Rightarrow>
        (case mp_Acquire p e of
           (False, e) \<Rightarrow> (Done False, e)
         | (True, e) \<Rightarrow>
             let attempt = \<lparr>as_SwitchCount = SwitchCount s, as_ForceCacheBilling = fs_ForceCacheBilling s\<rparr>
             in case mp_Forward p attempt e of (outcome, e) \<Rightarrow>
               if oc_Stop outcome then (Done False, e)
               else if oc_Skip outcome
               then (Again (s\<lparr>FailedProviderIDs :=
                        insert (pv_ID (sel_Provider selected)) (FailedProviderIDs s)\<rparr>), e)
               else (case oc_Err outcome of
                   None \<Rightarrow> (Done True, mp_Complete p attempt (mp_Success p e))
                 | Some err \<Rightarrow>
                   (case oc_Kind outcome of
                      FailurePolicy \<Rightarrow> (Done False, mp_PolicyFailure p err e)
                    | FailurePromptTooLong \<Rightarrow>
                        (case mp_Fallback p err fallbackUsed e of
                           (ok, e) \<Rightarrow> (if ok then Restart else Done False, e))
                    | FailureOther \<Rightarrow> after_failure opts p selected attempt outcome err s e))))))"

text \<open>The two nested loops; a restart begins with a new failover state and the fallback used.\<close>

fun msg_loop ::
  "nat \<Rightarrow> message_options \<Rightarrow> ('x, 'e) message_ports \<Rightarrow> bool \<Rightarrow> 'x msg_state \<Rightarrow> 'e \<Rightarrow> (bool \<times> 'e) option" where
  "msg_loop 0 opts p fallbackUsed s e = None"
| "msg_loop (Suc n) opts p fallbackUsed s e =
     (case msg_turn opts p fallbackUsed s e of
        (Again s', e') \<Rightarrow> msg_loop n opts p fallbackUsed s' e'
      | (Restart, e') \<Rightarrow>
          msg_loop n opts p True (NewFailoverState (mo_MaxSwitches opts) (mo_HasBoundSession opts)) e'
      | (Done served, e') \<Rightarrow> Some (served, mp_Finish p served e'))"

definition RunMessages ::
  "nat \<Rightarrow> message_options \<Rightarrow> ('x, 'e) message_ports \<Rightarrow> 'e \<Rightarrow> (bool \<times> 'e) option" where
  "RunMessages fuel opts p e =
     msg_loop fuel opts p False
       (NewFailoverState (mo_MaxSwitches opts) (mo_HasBoundSession opts)) (mp_Begin p e)"

section \<open>Termination\<close>

text \<open>
  What bounds a request: selection only returns providers of \<open>P\<close> that are not excluded, with retry
  limits up to \<open>R\<close>; repetitions are counted; a second group fallback is refused.
\<close>

definition bounded_ports :: "int set \<Rightarrow> int \<Rightarrow> ('x, 'e) message_ports \<Rightarrow> bool" where
  "bounded_ports P R p \<longleftrightarrow>
     (\<forall>excl e. case fst (mp_Select p excl e) of
        Inr sel \<Rightarrow> pv_ID (sel_Provider sel) \<in> P - excl \<and> sel_RetryLimit sel \<le> R
      | Inl _ \<Rightarrow> True) \<and>
     (\<forall>a e f i. oc_Failure (fst (mp_Forward p a e)) = Some f \<and> Policy f = Some i \<longrightarrow> counted_failure i) \<and>
     (\<forall>err e. \<not> fst (mp_Fallback p err True e))"

definition never_skips :: "('x, 'e) message_ports \<Rightarrow> bool" where
  "never_skips p \<longleftrightarrow> (\<forall>a e. \<not> oc_Skip (fst (mp_Forward p a e)))"

definition never_503 :: "('x, 'e) message_ports \<Rightarrow> bool" where
  "never_503 p \<longleftrightarrow> (\<forall>a e f i. oc_Failure (fst (mp_Forward p a e)) = Some f \<and> Policy f = Some i
     \<longrightarrow> StatusCode i \<noteq> 503)"

text \<open>The kinds of turns that are followed by another one.\<close>

inductive goes_on ::
  "('x, 'e) message_ports \<Rightarrow> int set \<Rightarrow> int \<Rightarrow> 'x msg_state \<Rightarrow> 'x msg_state \<Rightarrow> bool"
  for p P R where
  cleared: "\<lbrakk>FailedProviderIDs s \<noteq> {}; Option.bind (LastFailoverErr s) Policy = Some i; StatusCode i = 503\<rbrakk>
    \<Longrightarrow> goes_on p P R s (s\<lparr>FailedProviderIDs := {}\<rparr>)"
| skipped: "\<lbrakk>oc_Skip (fst (mp_Forward p a e)); q \<in> P - FailedProviderIDs s\<rbrakk>
    \<Longrightarrow> goes_on p P R s (s\<lparr>FailedProviderIDs := insert q (FailedProviderIDs s)\<rparr>)"
| handled: "\<lbrakk>oc_Failure (fst (mp_Forward p a e)) = Some f; q \<in> P; limit \<le> R;
     HandleFailoverError (mp_failover p) Policy q pl limit f (s, e1) = (FailoverContinue, s', e2)\<rbrakk>
    \<Longrightarrow> goes_on p P R s s'"

lemma after_failure_again:
  assumes "after_failure opts p sel at oc err s e = (Again s', e')"
    and "oc = fst (mp_Forward p a e0)" and "pv_ID (sel_Provider sel) \<in> P" and "sel_RetryLimit sel \<le> R"
  shows "goes_on p P R s s'"
proof -
  obtain f e2 where "oc_Failure oc = Some f"
    "HandleFailoverError (mp_failover p) Policy (pv_ID (sel_Provider sel))
       (pv_Platform (sel_Provider sel)) (sel_RetryLimit sel) f (s, e) = (FailoverContinue, s', e2)"
    using assms(1)
    by (auto simp: after_failure_def Let_def split: option.splits if_splits prod.splits FailoverAction.splits)
  with assms(2-4) show ?thesis by (auto intro: handled)
qed

lemma msg_turn_again:
  assumes "msg_turn opts p fb s e = (Again s', e')" and "bounded_ports P R p"
  shows "goes_on p P R s s'"
proof -
  obtain ok e1 where prep: "mp_PrepareAttempt p e = (ok, e1)" by fastforce
  obtain res e2 where sel: "mp_Select p (FailedProviderIDs s) e1 = (res, e2)" by fastforce
  have start: "\<not> (mo_StopOnCanceledContext opts \<and> fo_canceled (mp_failover p) e)" ok
    using assms(1) prep by (auto simp: msg_turn_def split: if_splits bool.splits)
  show ?thesis
  proof (cases res)
    case (Inl err)
    with assms(1) prep sel start obtain e3 where "FailedProviderIDs s \<noteq> {}"
      "HandleSelectionExhausted (mp_failover p) Policy (s, e2) = (FailoverContinue, s', e3)"
      by (auto simp: msg_turn_def split: if_splits prod.splits FailoverAction.splits)
    with exhausted_continue show ?thesis by (metis cleared)
  next
    case (Inr selected)
    have ok_sel: "pv_ID (sel_Provider selected) \<in> P - FailedProviderIDs s" "sel_RetryLimit selected \<le> R"
      using assms(2) sel Inr unfolding bounded_ports_def by (metis (no_types, lifting) fst_conv sum.case(2))+
    obtain ic e3 where ic: "mp_Intercept p e2 = (ic, e3)" by fastforce
    obtain aq e4 where aq: "mp_Acquire p e3 = (aq, e4)" by fastforce
    define at where "at = \<lparr>as_SwitchCount = SwitchCount s, as_ForceCacheBilling = fs_ForceCacheBilling s\<rparr>"
    obtain oc e5 where oc: "mp_Forward p at e4 = (oc, e5)" by fastforce
    have go: "\<not> ic" aq
      using assms(1) prep sel start Inr ic aq by (auto simp: msg_turn_def split: bool.splits)
    have turn: "(if oc_Stop oc then (Done False, e5)
        else if oc_Skip oc
        then (Again (s\<lparr>FailedProviderIDs := insert (pv_ID (sel_Provider selected)) (FailedProviderIDs s)\<rparr>), e5)
        else (case oc_Err oc of
            None \<Rightarrow> (Done True, mp_Complete p at (mp_Success p e5))
          | Some err \<Rightarrow>
            (case oc_Kind oc of
               FailurePolicy \<Rightarrow> (Done False, mp_PolicyFailure p err e5)
             | FailurePromptTooLong \<Rightarrow>
                 (case mp_Fallback p err fb e5 of (ok, e) \<Rightarrow> (if ok then Restart else Done False, e))
             | FailureOther \<Rightarrow> after_failure opts p selected at oc err s e5))) = (Again s', e')"
      using assms(1) prep sel start Inr ic aq go oc by (simp add: msg_turn_def Let_def at_def [symmetric])
    show ?thesis
    proof (cases "oc_Skip oc")
      case True
      with turn have "s' = s\<lparr>FailedProviderIDs := insert (pv_ID (sel_Provider selected)) (FailedProviderIDs s)\<rparr>"
        by (auto split: if_splits)
      with True oc ok_sel(1) show ?thesis by (metis fst_conv skipped)
    next
      case False
      with turn obtain err where "after_failure opts p selected at oc err s e5 = (Again s', e')"
        by (auto split: if_splits option.splits failure_kind.splits prod.splits)
      from after_failure_again [OF this, of at e4 P R] oc ok_sel show ?thesis by simp
    qed
  qed
qed

lemma restart_needs_fallback:
  assumes "msg_turn opts p fb s e = (Restart, e')" and "bounded_ports P R p"
  shows "\<not> fb"
  using assms
  by (auto simp: msg_turn_def after_failure_def Let_def bounded_ports_def
      split: if_splits prod.splits bool.splits sum.splits option.splits failure_kind.splits
        FailoverAction.splits)
    (metis fst_conv)+

text \<open>A measure that every further turn of a group decreases bounds the number of turns.\<close>

lemma msg_loop_terminates:
  fixes m :: "'x msg_state \<Rightarrow> nat" and p :: "('x, 'e) message_ports"
  assumes bounded: "bounded_ports P R p"
    and dec: "\<And>s s'. I s \<Longrightarrow> goes_on p P R s s' \<Longrightarrow> I s' \<and> m s' < m s"
    and start: "I (NewFailoverState (mo_MaxSwitches opts) (mo_HasBoundSession opts))"
      "m (NewFailoverState (mo_MaxSwitches opts) (mo_HasBoundSession opts)) \<le> B"
  shows "I s \<Longrightarrow> m s + (if fb then 0 else B + 1) < n \<Longrightarrow> \<exists>r. msg_loop n opts p fb s e = Some r"
proof (induction n arbitrary: fb s e)
  case (Suc n)
  obtain t e' where t: "msg_turn opts p fb s e = (t, e')" by fastforce
  show ?case
  proof (cases t)
    case (Again s')
    with t bounded have "goes_on p P R s s'" by (auto intro: msg_turn_again)
    with dec Suc.prems(1) have "I s'" "m s' < m s" by auto
    with Suc.IH [of s' fb e'] Suc.prems(2) t Again show ?thesis by simp
  next
    case Restart
    with t bounded have "\<not> fb" by (auto dest: restart_needs_fallback)
    with Suc.IH [OF start(1), of True e'] Suc.prems(2) start(2) t Restart show ?thesis by simp
  qed (use t in simp)
qed simp

lemma bounded_counted:
  "bounded_ports P R p \<Longrightarrow> oc_Failure (fst (mp_Forward p a e)) = Some f \<Longrightarrow> Policy f = Some i \<Longrightarrow> counted_failure i"
  unfolding bounded_ports_def by blast

lemma handled_decreases:
  assumes "bounded_ports P R p" and "finite P"
    and "oc_Failure (fst (mp_Forward p a e)) = Some f" and "q \<in> P" and "limit \<le> R"
    and "HandleFailoverError (mp_failover p) Policy q pl limit f (s, e1) = (FailoverContinue, s', e2)"
  shows "budget P R s' < budget P R s" and "FailedProviderIDs s \<subseteq> FailedProviderIDs s'"
    and "LastFailoverErr s' = Some f"
  using handle_continue [OF assms(6,2,4,5)] bounded_counted [OF assms(1,3)] by auto

definition turn_measure :: "int set \<Rightarrow> int \<Rightarrow> 'x msg_state \<Rightarrow> nat" where
  "turn_measure P R s = 2 * budget P R s + (if FailedProviderIDs s = {} then 0 else 1)"

definition skip_measure :: "int set \<Rightarrow> int \<Rightarrow> 'x msg_state \<Rightarrow> nat" where
  "skip_measure P R s = budget P R s + card (P - FailedProviderIDs s)"

definition last_not_503 :: "'x msg_state \<Rightarrow> bool" where
  "last_not_503 s \<longleftrightarrow> (\<forall>i. Option.bind (LastFailoverErr s) Policy = Some i \<longrightarrow> StatusCode i \<noteq> 503)"

lemma turn_measure_decreases:
  assumes "bounded_ports P R p" and "finite P" and "never_skips p" and "goes_on p P R s s'"
  shows "turn_measure P R s' < turn_measure P R s"
  using assms(4)
proof cases
  case (skipped a e q)
  with assms(3) show ?thesis by (simp add: never_skips_def)
next
  case (handled a e f q limit pl e1 e2)
  from handled_decreases(1) [OF assms(1,2) handled] show ?thesis by (simp add: turn_measure_def)
qed (simp add: turn_measure_def)

lemma skip_measure_decreases:
  assumes "bounded_ports P R p" and "finite P" and "never_503 p" and "last_not_503 s"
    and "goes_on p P R s s'"
  shows "last_not_503 s' \<and> skip_measure P R s' < skip_measure P R s"
  using assms(5)
proof cases
  case (cleared i)
  with assms(4) show ?thesis by (simp add: last_not_503_def)
next
  case (skipped a e q)
  then have "P - FailedProviderIDs s' \<subset> P - FailedProviderIDs s" by auto
  then have "card (P - FailedProviderIDs s') < card (P - FailedProviderIDs s)"
    using assms(2) by (intro psubset_card_mono) auto
  with skipped assms(4) show ?thesis by (simp add: skip_measure_def last_not_503_def)
next
  case (handled a e f q limit pl e1 e2)
  note d = handled_decreases [OF assms(1,2) handled]
  have "card (P - FailedProviderIDs s') \<le> card (P - FailedProviderIDs s)"
    using d(2) assms(2) by (intro card_mono) auto
  with d handled(1) assms(3) show ?thesis
    by (fastforce simp: skip_measure_def last_not_503_def never_503_def)
qed

lemma budget_new:
  "finite P \<Longrightarrow> budget P R (NewFailoverState m b) = nat m + nat R * card P"
  by (simp add: budget_def NewFailoverState_def)

text \<open>
  C35: the attempt loop ends. When the ports respect the exclusions and the retry limits, refuse
  a second group fallback, and either no attempt is skipped or no failure is a 503, the request
  is answered within the stated number of turns, whatever else the ports do.
\<close>

theorem messages_terminate:
  assumes "bounded_ports P R p" and "finite P"
    and "never_skips p \<or> never_503 p"
    and "4 * (nat (mo_MaxSwitches opts) + nat R * card P + card P) + 3 \<le> fuel"
  shows "\<exists>served e'. RunMessages fuel opts p e = Some (served, e')"
proof -
  let ?s = "NewFailoverState (mo_MaxSwitches opts) (mo_HasBoundSession opts) :: 'a msg_state"
  have "\<exists>r. msg_loop fuel opts p False ?s (mp_Begin p e) = Some r"
    using assms(3)
  proof
    assume ns: "never_skips p"
    show ?thesis
    proof (rule msg_loop_terminates [where I = "\<lambda>_. True" and m = "turn_measure P R"
          and B = "turn_measure P R ?s", OF assms(1)])
      show "turn_measure P R ?s + (if False then 0 else turn_measure P R ?s + 1) < fuel"
        using assms(2,4)
        by (simp add: turn_measure_def budget_new) (simp add: NewFailoverState_def mult.commute)
    qed (use turn_measure_decreases [OF assms(1,2) ns] in auto)
  next
    assume n5: "never_503 p"
    show ?thesis
    proof (rule msg_loop_terminates [where I = last_not_503 and m = "skip_measure P R"
          and B = "skip_measure P R ?s", OF assms(1)])
      show "skip_measure P R ?s + (if False then 0 else skip_measure P R ?s + 1) < fuel"
        using assms(2,4) by (simp add: skip_measure_def budget_new) (simp add: NewFailoverState_def)
    qed (use skip_measure_decreases [OF assms(1,2) n5] in
      \<open>auto simp: last_not_503_def NewFailoverState_def\<close>)
  qed
  then show ?thesis by (auto simp: RunMessages_def)
qed

section \<open>Concrete ports\<close>

definition silent_failover :: "('x attempt_failure, 'e) fo_ports" where
  "silent_failover =
     \<lparr>fo_canceled = (\<lambda>_. False), fo_now = (\<lambda>_. 1), fo_sleep = (\<lambda>_ e. (True, e)),
      fo_observe = (\<lambda>_ _ e. e), TempUnscheduleRetryableError = (\<lambda>_ _ e. e)\<rparr>"

definition plain_ports ::
  "(int set \<Rightarrow> 'e \<Rightarrow> ('x + selection) \<times> 'e) \<Rightarrow> (attempt_state \<Rightarrow> 'e \<Rightarrow> 'x outcome \<times> 'e)
    \<Rightarrow> ('x, 'e) message_ports" where
  "plain_ports select forward =
     \<lparr>mp_failover = silent_failover, mp_Begin = (\<lambda>e. e), mp_Finish = (\<lambda>_ e. e),
      mp_PrepareAttempt = (\<lambda>e. (True, e)), mp_Select = select,
      mp_FirstSelectionFailure = (\<lambda>_ _ e. e), mp_SingleProviderRetry = (\<lambda>e. e), mp_Canceled = (\<lambda>e. e),
      mp_Exhausted = (\<lambda>_ _ _ e. e), mp_Intercept = (\<lambda>e. (False, e)), mp_Acquire = (\<lambda>e. (True, e)),
      mp_Forward = forward, mp_PolicyFailure = (\<lambda>_ e. e), mp_Fallback = (\<lambda>_ _ e. (False, e)),
      mp_OtherFailure = (\<lambda>_ e. e), mp_Complete = (\<lambda>_ e. e), mp_Success = (\<lambda>e. e),
      mp_Switched = (\<lambda>e. e), mp_Abandon = (\<lambda>_ e. e)\<rparr>"

definition outage :: failure_info where
  "outage =
     \<lparr>StatusCode = 503, fi_ForceCacheBilling = False, RetryableOnSameProvider = False,
      RequestScopedTransient = False, fi_RetryDelay = 0, fi_RetryDeadline = 0, fi_RetryMax = 0,
      RetryNext = True\<rparr>"

definition failed_outcome :: "string outcome" where
  "failed_outcome =
     \<lparr>oc_Served = False, oc_Err = Some ''503'', oc_Failure = Some \<lparr>Cause = ''503'', Policy = Some outage\<rparr>,
      oc_Kind = FailureOther, oc_OutputChanged = False, oc_HasResult = False, oc_Stop = False, oc_Skip = False\<rparr>"

definition served_outcome :: "string outcome" where
  "served_outcome = failed_outcome\<lparr>oc_Err := None, oc_Failure := None, oc_Served := True\<rparr>"

definition skipped_outcome :: "string outcome" where
  "skipped_outcome = failed_outcome\<lparr>oc_Err := None, oc_Failure := None, oc_Skip := True\<rparr>"

definition provider :: "int \<Rightarrow> selection" where
  "provider i = \<lparr>sel_Provider = \<lparr>pv_ID = i, pv_Platform = ''gemini''\<rparr>, sel_RetryLimit = 0\<rparr>"

definition demo_message_options :: message_options where
  "demo_message_options =
     \<lparr>mo_MaxSwitches = 3, mo_CompletePartialFailure = False, mo_StopOnCanceledContext = True,
      mo_HasBoundSession = False\<rparr>"

lemmas port_simps =
  plain_ports_def silent_failover_def failed_outcome_def served_outcome_def skipped_outcome_def
  provider_def demo_message_options_def NewFailoverState_def

text \<open>Provider 1 is out of order, provider 2 serves.\<close>

definition two_providers :: "(string, nat) message_ports" where
  "two_providers =
     plain_ports
       (\<lambda>excl n. (if 1 \<notin> excl then Inr (provider 1) else if 2 \<notin> excl then Inr (provider 2) else Inl ''none'', n))
       (\<lambda>a n. (if n = 0 then failed_outcome else served_outcome, Suc n))"

lemma messages_terminate_witness:
  "(\<exists>served e'. RunMessages 23 demo_message_options two_providers 0 = Some (served, e')) \<and>
   RunMessages 23 demo_message_options two_providers 0 = Some (True, 2)"
proof
  have "bounded_ports {1, 2} 0 two_providers"
    by (simp add: bounded_ports_def two_providers_def port_simps counted_failure_def outage_def)
  moreover have "never_skips two_providers"
    by (simp add: never_skips_def two_providers_def port_simps)
  ultimately show "\<exists>served e'. RunMessages 23 demo_message_options two_providers 0 = Some (served, e')"
    by (intro messages_terminate [where P = "{1, 2}" and R = 0]) (simp_all add: demo_message_options_def)
  show "RunMessages 23 demo_message_options two_providers 0 = Some (True, 2)"
    by (simp add: RunMessages_def numeral_eq_Suc msg_turn_def two_providers_def port_simps after_failure_def
        HandleFailoverError_def outage_def SameProviderRetryAllowed_def NeedForceCacheBilling_def
        PlatformAntigravity_def Let_def)
qed

text \<open>
  Provider 1 fails once with a 503 and cannot be selected again; provider 2 is always skipped.
\<close>

definition skipping_ports :: "(string, nat) message_ports" where
  "skipping_ports =
     plain_ports
       (\<lambda>excl n. (if n = 0 \<and> 1 \<notin> excl then Inr (provider 1) else if 2 \<notin> excl then Inr (provider 2) else Inl ''none'', n))
       (\<lambda>a n. (if n = 0 then failed_outcome else skipped_outcome, 1))"

lemma skipping_turns:
  assumes "LastFailoverErr s = Some \<lparr>Cause = ''503'', Policy = Some outage\<rparr>" and "SwitchCount s \<le> MaxSwitches s"
  shows "msg_loop n demo_message_options skipping_ports fb s 1 = None"
  using assms
proof (induction n arbitrary: s)
  case (Suc n)
  show ?case
  proof (cases "2 \<in> FailedProviderIDs s")
    case False
    then have "msg_turn demo_message_options skipping_ports fb s 1 =
        (Again (s\<lparr>FailedProviderIDs := insert 2 (FailedProviderIDs s)\<rparr>), 1)"
      by (simp add: msg_turn_def skipping_ports_def port_simps)
    with Suc show ?thesis by simp
  next
    case True
    then have "msg_turn demo_message_options skipping_ports fb s 1 =
        (Again (s\<lparr>FailedProviderIDs := {}\<rparr>), 1)"
      using Suc.prems
      by (auto simp: msg_turn_def skipping_ports_def port_simps HandleSelectionExhausted_def outage_def
          SleepWithContext_def Let_def go_simps)
    with Suc show ?thesis by simp
  qed
qed simp

text \<open>
  C37: The guard \<^verbatim>\<open>SwitchCount <= MaxSwitches\<close> of the 503 backoff is never false, since the switch
  count stops at the maximum: with one failed provider and one that is always skipped the loop
  clears the exclusions and waits for ever, although both the switches and the repetitions are
  bounded.
\<close>

theorem messages_skip_loop:
  "bounded_ports {1, 2} 0 skipping_ports \<and>
   (\<forall>fuel. RunMessages fuel demo_message_options skipping_ports 0 = None)"
proof (intro conjI allI)
  show "bounded_ports {1, 2} 0 skipping_ports"
    by (simp add: bounded_ports_def skipping_ports_def port_simps counted_failure_def outage_def)
  fix fuel
  show "RunMessages fuel demo_message_options skipping_ports 0 = None"
  proof (cases fuel)
    case (Suc n)
    have "msg_turn demo_message_options skipping_ports False (NewFailoverState 3 False) 0 =
        (Again \<lparr>SwitchCount = 1, MaxSwitches = 3, FailedProviderIDs = {1}, SameProviderRetryCount = (\<lambda>_. 0),
           LastFailoverErr = Some \<lparr>Cause = ''503'', Policy = Some outage\<rparr>, fs_ForceCacheBilling = False,
           HasBoundSession = False\<rparr>, 1)"
      by (simp add: msg_turn_def skipping_ports_def port_simps after_failure_def HandleFailoverError_def
          outage_def SameProviderRetryAllowed_def NeedForceCacheBilling_def PlatformAntigravity_def Let_def)
    moreover have "mp_Begin skipping_ports = (\<lambda>e. e)" "mo_MaxSwitches demo_message_options = 3"
      "\<not> mo_HasBoundSession demo_message_options"
      by (simp_all add: skipping_ports_def port_simps)
    ultimately show ?thesis
      using Suc by (simp add: RunMessages_def skipping_turns [unfolded One_nat_def])
  qed (simp add: RunMessages_def)
qed

end
