(* ===== verification/Text_Responses.thy ===== *)
theory Text_Responses
  imports Text_Messages
begin

text \<open>
  The attempt loop of the Responses entry (\<^verbatim>\<open>gateway/text/responses.go\<close>, \<^verbatim>\<open>RunResponses\<close>). It keeps
  its own exclusions, repetition counts and switch budget, and uses the budgets of
  \<^verbatim>\<open>gateway/failover\<close>. The methods a port may or may not have (\<^verbatim>\<open>Begin\<close>/\<^verbatim>\<open>Finish\<close>,
  \<^verbatim>\<open>TryGroupFallback\<close>, \<^verbatim>\<open>PrepareRetry\<close>) are options. Fuel counts turns of the loop.
\<close>

record 'x response_selection = selection +
  rs_Available :: bool
  rs_Skip :: "'x attempt_failure option"
  rs_OAuth :: OAuth429Provider

record 'x response_outcome = "'x outcome" +
  ro_Images :: bool
  ro_NativePartial :: bool
  ro_FirstOutputRecovery :: bool

record response_options =
  ro_MaxSwitches :: int
  ro_FirstOutputBudget :: bool

record ('x, 'e) response_ports =
  rp_failover :: "('x attempt_failure, 'e) fo_ports"
  rp_Lifecycle :: "(('e \<Rightarrow> 'e) \<times> (bool \<Rightarrow> 'e \<Rightarrow> 'e)) option"
  rp_CanAttempt :: "'e \<Rightarrow> bool \<times> 'e"
  rp_Select :: "int set \<Rightarrow> 'e \<Rightarrow> ('x + 'x response_selection) \<times> 'e"
  rp_SelectionFailure :: "'x \<Rightarrow> int \<Rightarrow> 'x attempt_failure option \<Rightarrow> 'e \<Rightarrow> 'e"
  rp_Acquire :: "'e \<Rightarrow> bool \<times> 'e"
  rp_Forward :: "'e \<Rightarrow> 'x response_outcome \<times> 'e"
  rp_TryGroupFallback :: "('x \<Rightarrow> 'e \<Rightarrow> (bool \<times> bool) \<times> 'e) option"
  rp_PartialImages :: "'x \<Rightarrow> 'e \<Rightarrow> 'e"
  rp_RetryReady :: "'x attempt_failure \<Rightarrow> 'e \<Rightarrow> bool \<times> 'e"
  rp_PrepareRetry :: "('x attempt_failure \<Rightarrow> bool \<Rightarrow> 'e \<Rightarrow> 'e) option"
  rp_RetryWait :: "'x attempt_failure \<Rightarrow> int \<Rightarrow> int \<Rightarrow> duration \<Rightarrow> 'e \<Rightarrow> 'e"
  rp_Exhausted :: "'x attempt_failure \<Rightarrow> 'e \<Rightarrow> 'e"
  rp_Switched :: "'e \<Rightarrow> 'e"
  rp_Switching :: "'x attempt_failure \<Rightarrow> int \<Rightarrow> int \<Rightarrow> 'e \<Rightarrow> 'e"
  rp_OtherFailure :: "'x \<Rightarrow> 'e \<Rightarrow> 'e"
  rp_Failed :: "'e \<Rightarrow> 'e"
  rp_Complete :: "'e \<Rightarrow> 'e"
  rp_Success :: "'e \<Rightarrow> 'e"
  rp_Completed :: "int \<Rightarrow> 'e \<Rightarrow> 'e"

record 'x response_state =
  rs_excluded :: "int set"
  rs_sameProvider :: "int \<Rightarrow> int"
  rs_switches :: int
  rs_firstOutputSwitches :: int
  rs_last :: "'x attempt_failure option"
  rs_oauth :: OAuth429State

datatype 'x response_turn = Next "'x response_state" | Return bool

definition prepare_retry :: "('x, 'e) response_ports \<Rightarrow> 'x attempt_failure \<Rightarrow> bool \<Rightarrow> 'e \<Rightarrow> 'e" where
  "prepare_retry p failure same e =
     (case rp_PrepareRetry p of None \<Rightarrow> e | Some f \<Rightarrow> f failure same e)"

text \<open>A failure with a retry policy: repeat on the provider, switch, or give up.\<close>

definition retry_failure ::
  "response_options \<Rightarrow> ('x, 'e) response_ports \<Rightarrow> 'x response_selection \<Rightarrow> 'x response_outcome
    \<Rightarrow> 'x attempt_failure \<Rightarrow> failure_info \<Rightarrow> 'x response_state \<Rightarrow> 'e \<Rightarrow> 'x response_turn \<times> 'e" where
  "retry_failure opts p selected outcome failure policy s e =
     (let (stop, fos) = (if ro_FirstOutputBudget opts
            then FirstOutputExhausted (ro_FirstOutputRecovery outcome) (Some (rs_firstOutputSwitches s))
            else (False, Some (rs_firstOutputSwitches s)));
          s = s\<lparr>rs_firstOutputSwitches := the fos\<rparr>
      in if stop then (Return False, rp_Exhausted p failure e)
         else
           let i = pv_ID (sel_Provider selected);
               retryLimit = EffectiveSameProviderRetryLimit (Some policy) (sel_RetryLimit selected)
           in if RetryableOnSameProvider policy \<and>
                 SameProviderRetryAllowed (fo_now (rp_failover p) e) (Some policy) (rs_sameProvider s i) retryLimit
              then
                let e = prepare_retry p failure True e;
                    s = s\<lparr>rs_sameProvider := (rs_sameProvider s)(i := rs_sameProvider s i + 1)\<rparr>;
                    delay = SameProviderRetryDelayFor (Some policy) (rs_sameProvider s i);
                    e = rp_RetryWait p failure retryLimit (rs_sameProvider s i) delay e
                in case SleepWithContext (rp_failover p) delay e of
                     (ok, e) \<Rightarrow> (if ok then Next s else Return False, e)
              else
                let e = rp_Switched p (prepare_retry p failure False e);
                    s = s\<lparr>rs_excluded := insert i (rs_excluded s), rs_last := Some failure\<rparr>
                in if rs_switches s \<ge> ro_MaxSwitches opts then (Return False, rp_Exhausted p failure e)
                   else
                     let s = s\<lparr>rs_switches := rs_switches s + 1\<rparr>;
                         (stop, oauth) = StopOAuth429 (rs_OAuth selected) (StatusCode policy)
                           (rs_switches s) (Some (rs_oauth s));
                         s = s\<lparr>rs_oauth := the oauth\<rparr>
                     in if stop then (Return False, rp_Exhausted p failure e)
                        else (Next s, rp_Switching p failure (rs_switches s) (ro_MaxSwitches opts) e))"

definition response_failure ::
  "response_options \<Rightarrow> ('x, 'e) response_ports \<Rightarrow> 'x response_selection \<Rightarrow> 'x response_outcome \<Rightarrow> 'x
    \<Rightarrow> 'x response_state \<Rightarrow> 'e \<Rightarrow> 'x response_turn \<times> 'e" where
  "response_failure opts p selected outcome err s e =
     (case oc_Failure outcome of
        Some failure \<Rightarrow>
          (case rp_RetryReady p failure e of
             (False, e) \<Rightarrow> (Return False, e)
           | (True, e) \<Rightarrow>
               (case Policy failure of
                  None \<Rightarrow> (Return False, rp_Exhausted p failure e)
                | Some policy \<Rightarrow>
                    if \<not> RetryNext policy then (Return False, rp_Exhausted p failure e)
                    else retry_failure opts p selected outcome failure policy s e))
      | None \<Rightarrow> (Return False, rp_Failed p (rp_Complete p (rp_OtherFailure p err e))))"

definition response_success ::
  "('x, 'e) response_ports \<Rightarrow> 'x response_outcome \<Rightarrow> 'x response_state \<Rightarrow> 'e \<Rightarrow> 'x response_turn \<times> 'e" where
  "response_success p outcome s e =
     (Return (oc_Served outcome), rp_Completed p (rs_switches s) (rp_Complete p (rp_Success p e)))"

definition response_turn ::
  "response_options \<Rightarrow> ('x, 'e) response_ports \<Rightarrow> 'x response_state \<Rightarrow> 'e \<Rightarrow> 'x response_turn \<times> 'e" where
  "response_turn opts p s e =
     (case rp_CanAttempt p e of
        (False, e) \<Rightarrow> (Return False, e)
      | (True, e) \<Rightarrow>
        (case rp_Select p (rs_excluded s) e of
           (Inl err, e) \<Rightarrow>
             (Return False, rp_SelectionFailure p err (int (card (rs_excluded s))) (rs_last s) e)
         | (Inr selected, e) \<Rightarrow>
             if \<not> rs_Available selected then (Return False, e)
             else (case rs_Skip selected of
               Some skip \<Rightarrow>
                 (Next (s\<lparr>rs_excluded := insert (pv_ID (sel_Provider selected)) (rs_excluded s),
                          rs_last := Some skip\<rparr>), e)
             | None \<Rightarrow>
               (case rp_Acquire p e of
                  (False, e) \<Rightarrow> (Return False, e)
                | (True, e) \<Rightarrow>
                  (case rp_Forward p e of (outcome, e) \<Rightarrow>
                     if oc_Stop outcome then (Return False, e)
                     else (case oc_Err outcome of
                       None \<Rightarrow> response_success p outcome s e
                     | Some err \<Rightarrow>
                       (let (handled, retry, e) =
                          (case rp_TryGroupFallback p of
                             Some f \<Rightarrow>
                               if ro_NativePartial outcome then (False, False, e)
                               else (case f err e of ((h, r), e) \<Rightarrow> (h, r, e))
                           | None \<Rightarrow> (False, False, e))
                        in if handled
                           then (if retry
                                 then (Next (s\<lparr>rs_excluded := {}, rs_sameProvider := (\<lambda>_. 0), rs_last := None\<rparr>), e)
                                 else (Return False, e))
                           else if ro_NativePartial outcome
                           then (Return True, rp_Failed p (rp_Complete p (rp_OtherFailure p err e)))
                           else if ro_Images outcome
                           then response_success p outcome s (rp_PartialImages p err e)
                           else response_failure opts p selected outcome err s e)))))))"

fun response_loop ::
  "nat \<Rightarrow> response_options \<Rightarrow> ('x, 'e) response_ports \<Rightarrow> 'x response_state \<Rightarrow> 'e \<Rightarrow> (bool \<times> 'e) option" where
  "response_loop 0 opts p s e = None"
| "response_loop (Suc n) opts p s e =
     (case response_turn opts p s e of
        (Next s', e') \<Rightarrow> response_loop n opts p s' e'
      | (Return served, e') \<Rightarrow>
          Some (served, case rp_Lifecycle p of None \<Rightarrow> e' | Some (_, finish) \<Rightarrow> finish served e'))"

definition new_response_state :: "'x response_state" where
  "new_response_state =
     \<lparr>rs_excluded = {}, rs_sameProvider = (\<lambda>_. 0), rs_switches = 0, rs_firstOutputSwitches = 0,
      rs_last = None, rs_oauth = \<lparr>grokFollowupPending = False\<rparr>\<rparr>"

definition RunResponses ::
  "nat \<Rightarrow> response_options \<Rightarrow> ('x, 'e) response_ports \<Rightarrow> 'e \<Rightarrow> (bool \<times> 'e) option" where
  "RunResponses fuel opts p e =
     response_loop fuel opts p new_response_state
       (case rp_Lifecycle p of None \<Rightarrow> e | Some (begin, _) \<Rightarrow> begin e)"

section \<open>Termination\<close>

definition bounded_responses :: "int set \<Rightarrow> int \<Rightarrow> ('x, 'e) response_ports \<Rightarrow> bool" where
  "bounded_responses P R p \<longleftrightarrow>
     (\<forall>excl e. case fst (rp_Select p excl e) of
        Inr sel \<Rightarrow> pv_ID (sel_Provider sel) \<in> P - excl \<and> sel_RetryLimit sel \<le> R
      | Inl _ \<Rightarrow> True) \<and>
     (\<forall>e f i. oc_Failure (fst (rp_Forward p e)) = Some f \<and> Policy f = Some i \<longrightarrow> counted_failure i)"

text \<open>
  \<open>left e\<close> changes of group are left, as in the port of the service, which changes the group of a request at most once:
  a repetition in another group uses one up, and nothing else adds to them.
\<close>

definition bounded_fallbacks :: "('e \<Rightarrow> nat) \<Rightarrow> ('x, 'e) response_ports \<Rightarrow> bool" where
  "bounded_fallbacks left p \<longleftrightarrow>
     (\<forall>f err e. rp_TryGroupFallback p = Some f \<longrightarrow> left (snd (f err e)) \<le> left e \<and>
        (fst (f err e) = (True, True) \<longrightarrow> left (snd (f err e)) < left e)) \<and>
     (\<forall>e. left (snd (rp_CanAttempt p e)) \<le> left e \<and> left (snd (rp_Acquire p e)) \<le> left e \<and>
        left (snd (rp_Forward p e)) \<le> left e \<and> left (rp_Switched p e) \<le> left e) \<and>
     (\<forall>excl e. left (snd (rp_Select p excl e)) \<le> left e) \<and>
     (\<forall>f e. left (snd (rp_RetryReady p f e)) \<le> left e) \<and>
     (\<forall>f same e. left (prepare_retry p f same e) \<le> left e) \<and>
     (\<forall>f limit n delay e. left (rp_RetryWait p f limit n delay e) \<le> left e) \<and>
     (\<forall>delay e. left (snd (SleepWithContext (rp_failover p) delay e)) \<le> left e) \<and>
     (\<forall>f n limit e. left (rp_Switching p f n limit e) \<le> left e)"

definition response_measure :: "int set \<Rightarrow> int \<Rightarrow> int \<Rightarrow> 'x response_state \<Rightarrow> nat" where
  "response_measure P R m s =
     nat (m - rs_switches s) + (\<Sum>q \<in> P. nat (R - rs_sameProvider s q)) + card (P - rs_excluded s)"

lemma effective_limit: "limit \<le> R \<Longrightarrow> EffectiveSameProviderRetryLimit f limit \<le> R"
  by (auto simp: EffectiveSameProviderRetryLimit_def split: option.splits)

lemma card_insert_less: "finite P \<Longrightarrow> q \<in> P - X \<Longrightarrow> card (P - insert q X) < card (P - X)"
  by (intro psubset_card_mono) auto

lemma retry_failure_decreases:
  assumes "retry_failure opts p sel oc f i s e = (Next s', e')"
    and "finite P" and "pv_ID (sel_Provider sel) \<in> P - rs_excluded s" and "sel_RetryLimit sel \<le> R"
    and "counted_failure i"
  shows "response_measure P R (ro_MaxSwitches opts) s' < response_measure P R (ro_MaxSwitches opts) s"
proof -
  let ?q = "pv_ID (sel_Provider sel)"
  let ?limit = "EffectiveSameProviderRetryLimit (Some i) (sel_RetryLimit sel)"
  let ?same = "SameProviderRetryAllowed (fo_now (rp_failover p) e) (Some i) (rs_sameProvider s ?q) ?limit"
  have counts: "(\<Sum>x \<in> P. nat (R - ((rs_sameProvider s)(?q := rs_sameProvider s ?q + 1)) x))
      < (\<Sum>x \<in> P. nat (R - rs_sameProvider s x))" if ?same
  proof (rule sum_decreases [of P ?q])
    have "rs_sameProvider s ?q < R"
      using same_provider_counted [OF that assms(5)] effective_limit [OF assms(4)] by (meson less_le_trans)
    then show "nat (R - ((rs_sameProvider s)(?q := rs_sameProvider s ?q + 1)) ?q) < nat (R - rs_sameProvider s ?q)"
      by simp
  qed (use assms in auto)
  note less = card_insert_less [OF assms(2,3)]
  show ?thesis
  proof (cases "RetryableOnSameProvider i \<and> ?same")
    case True
    with assms(1) counts show ?thesis
      by (auto simp: retry_failure_def Let_def response_measure_def split: if_splits prod.splits)
  next
    case False
    with assms(1) less show ?thesis
      by (auto simp: retry_failure_def Let_def response_measure_def split: if_splits prod.splits)
  qed
qed

lemma bounded_fallbacksD:
  assumes "bounded_fallbacks left p"
  shows "rp_TryGroupFallback p = Some g \<Longrightarrow> left (snd (g err e)) \<le> left e"
    "rp_TryGroupFallback p = Some g \<Longrightarrow> g err e = ((True, True), e') \<Longrightarrow> left e' < left e"
    "left (snd (rp_CanAttempt p e)) \<le> left e" "left (snd (rp_Acquire p e)) \<le> left e" "left (snd (rp_Forward p e)) \<le> left e"
    "left (rp_Switched p e) \<le> left e" "left (snd (rp_Select p excl e)) \<le> left e" "left (snd (rp_RetryReady p f e)) \<le> left e"
    "left (prepare_retry p f same e) \<le> left e" "left (rp_RetryWait p f limit n delay e) \<le> left e"
    "left (snd (SleepWithContext (rp_failover p) delay e)) \<le> left e" "left (rp_Switching p f n limit e) \<le> left e"
proof -
  note b = assms [unfolded bounded_fallbacks_def]
  show "left (snd (g err e)) \<le> left e" if "rp_TryGroupFallback p = Some g"
    using conjunct1 [OF b] that by simp
  show "left e' < left e" if g: "rp_TryGroupFallback p = Some g" "g err e = ((True, True), e')"
  proof -
    have "fst (g err e) = (True, True) \<longrightarrow> left (snd (g err e)) < left e" using conjunct1 [OF b] g(1) by simp
    with g(2) show ?thesis by simp
  qed
qed (use assms in \<open>simp_all add: bounded_fallbacks_def\<close>)

lemma retry_failure_left:
  assumes "retry_failure opts p sel oc f i s e = (Next s', e')" and "bounded_fallbacks left p"
  shows "left e' \<le> left e" and "rs_switches s \<le> rs_switches s'"
proof -
  note keeps = bounded_fallbacksD(6,9-12) [OF assms(2)]
  define e1 where "e1 = prepare_retry p f True e"
  define e2 where "e2 = rp_Switched p (prepare_retry p f False e)"
  have "left e1 \<le> left e" "left e2 \<le> left e"
    unfolding e1_def e2_def by (rule keeps, rule order_trans [OF keeps(1) keeps(2)])
  then have "left (snd (SleepWithContext (rp_failover p) d (rp_RetryWait p f n k d e1))) \<le> left e"
    "left (rp_Switching p f n k e2) \<le> left e" for n k d
    by (meson keeps order_trans)+
  then show "left e' \<le> left e" "rs_switches s \<le> rs_switches s'"
    using assms(1) unfolding retry_failure_def Let_def e1_def [symmetric] e2_def [symmetric]
    by (auto split: if_split_asm prod.split_asm) (metis snd_conv)+
qed

text \<open>A turn that goes on either changes the group or uses up some of the budget.\<close>

lemma response_turn_decreases:
  assumes turn: "response_turn opts p s e = (Next s', e')" and b: "bounded_responses P R p" and "finite P"
    and fb: "bounded_fallbacks left p"
  shows "rs_switches s \<le> rs_switches s' \<and>
    (left e' < left e \<and> rs_excluded s' = {} \<and> rs_sameProvider s' = (\<lambda>_. 0) \<or>
     left e' \<le> left e \<and> response_measure P R (ro_MaxSwitches opts) s' < response_measure P R (ro_MaxSwitches opts) s)"
proof -
  obtain ok e1 where can: "rp_CanAttempt p e = (ok, e1)" by fastforce
  obtain res e2 where sel: "rp_Select p (rs_excluded s) e1 = (res, e2)" by fastforce
  have ok using turn can by (auto simp: response_turn_def split: bool.splits)
  with turn can sel obtain selected where res: "res = Inr selected"
    by (cases res) (auto simp: response_turn_def)
  have q: "pv_ID (sel_Provider selected) \<in> P - rs_excluded s" "sel_RetryLimit selected \<le> R"
    using b sel res unfolding bounded_responses_def by (metis (no_types, lifting) fst_conv sum.case(2))+
  have "left e1 \<le> left e" "left e2 \<le> left e1"
    using bounded_fallbacksD(3,7) [OF fb] can sel by (metis snd_conv)+
  then have e2: "left e2 \<le> left e" by simp
  show ?thesis
  proof (cases "rs_Skip selected")
    case (Some f)
    with turn can sel res \<open>ok\<close> have "rs_excluded s' = insert (pv_ID (sel_Provider selected)) (rs_excluded s)"
      "rs_switches s' = rs_switches s" "rs_sameProvider s' = rs_sameProvider s" "e' = e2"
      by (auto simp: response_turn_def split: if_splits)
    with card_insert_less [OF assms(3) q(1)] e2 show ?thesis by (simp add: response_measure_def)
  next
    case None
    obtain aq e3 where aq: "rp_Acquire p e2 = (aq, e3)" by fastforce
    obtain oc e4 where oc: "rp_Forward p e3 = (oc, e4)" by fastforce
    have "left e3 \<le> left e2" "left e4 \<le> left e3"
      using bounded_fallbacksD(4,5) [OF fb] aq oc by (metis snd_conv)+
    with e2 have e4: "left e4 \<le> left e" by simp
    note fallback = bounded_fallbacksD(1,2) [OF fb]
    from turn can sel res None aq oc \<open>ok\<close>
    consider (changed) "s' = s\<lparr>rs_excluded := {}, rs_sameProvider := (\<lambda>_. 0), rs_last := None\<rparr>" "left e' < left e4"
      | (failed) err e5 where "response_failure opts p selected oc err s e5 = (Next s', e')" "left e5 \<le> left e4"
      using fallback unfolding response_turn_def response_success_def Let_def
      by (auto split: if_split_asm bool.split_asm option.split_asm prod.split_asm) (metis snd_conv order_refl)+
    then show ?thesis
    proof cases
      case changed
      with e4 show ?thesis by simp
    next
      case failed
      then obtain f i e6 where f: "oc_Failure oc = Some f" "Policy f = Some i"
        and retry: "retry_failure opts p selected oc f i s e6 = (Next s', e')" and ready: "rp_RetryReady p f e5 = (True, e6)"
        by (auto simp: response_failure_def split: option.splits prod.splits bool.splits if_splits)
      have "left e6 \<le> left e5" using bounded_fallbacksD(8) [OF fb] ready by (metis snd_conv)
      moreover have "counted_failure i" using b oc f unfolding bounded_responses_def by (metis fst_conv)
      ultimately show ?thesis
        using retry_failure_decreases [OF retry assms(3) q] retry_failure_left [OF retry fb] failed(2) e4 by simp
    qed
  qed
qed

text \<open>
  C31: The Responses loop ends. When the ports select only providers of a finite set that are not excluded, with retry limits
  up to \<open>R\<close>, when every failure that may be repeated on its provider has a limit of repetitions (and not a deadline alone),
  and when the group of the request is changed at most \<open>left\<close> times, it answers within the stated number of turns,
  whether or not candidates are skipped.
\<close>

theorem responses_terminate:
  fixes p :: "('x, 'e) response_ports"
  assumes "bounded_responses P R p" and "finite P" and "bounded_fallbacks left p"
    and "\<And>start finish. rp_Lifecycle p = Some (start, finish) \<Longrightarrow> left (start e) \<le> left e"
    and "(left e + 1) * (nat (ro_MaxSwitches opts) + nat R * card P + card P + 1) \<le> fuel"
  shows "\<exists>served e'. RunResponses fuel opts p e = Some (served, e')"
proof -
  define M where "M = nat (ro_MaxSwitches opts) + nat R * card P + card P"
  let ?m = "response_measure P R (ro_MaxSwitches opts)"
  have loop: "0 \<le> rs_switches s \<Longrightarrow> left e * (M + 1) + ?m s < n \<Longrightarrow> \<exists>r. response_loop n opts p s e = Some r" for n s e
  proof (induction n arbitrary: s e)
    case (Suc n)
    obtain t e' where t: "response_turn opts p s e = (t, e')" by fastforce
    show ?case
    proof (cases t)
      case (Next s')
      note dec = response_turn_decreases [OF t [unfolded Next] assms(1-3)]
      have "left e' * (M + 1) + ?m s' < left e * (M + 1) + ?m s"
        using dec
      proof (elim conjE disjE)
        assume "left e' < left e" and "rs_excluded s' = {}" "rs_sameProvider s' = (\<lambda>_. 0)"
        moreover from this dec Suc.prems(1) have "?m s' \<le> M" by (simp add: response_measure_def M_def mult.commute)
        moreover have "Suc (left e') * (M + 1) \<le> left e * (M + 1)" using calculation(1) by (intro mult_le_mono1) simp
        ultimately show ?thesis by simp
      next
        assume "left e' \<le> left e" "?m s' < ?m s"
        moreover from this have "left e' * (M + 1) \<le> left e * (M + 1)" by (intro mult_le_mono1) simp
        ultimately show ?thesis by linarith
      qed
      moreover have "0 \<le> rs_switches s'" using dec Suc.prems(1) by simp
      ultimately show ?thesis using Suc.IH [of s' e'] Suc.prems t Next by simp
    qed (use t in simp)
  qed simp
  have start: "left (case rp_Lifecycle p of None \<Rightarrow> e | Some (start, _) \<Rightarrow> start e) \<le> left e"
    using assms(4) by (auto split: option.split)
  have "?m (new_response_state :: 'x response_state) = M" by (simp add: response_measure_def new_response_state_def M_def mult.commute)
  moreover have "(left e + 1) * (M + 1) \<le> fuel" using assms(5) by (simp add: M_def)
  ultimately have "left (case rp_Lifecycle p of None \<Rightarrow> e | Some (start, _) \<Rightarrow> start e) * (M + 1) + ?m (new_response_state :: 'x response_state) < fuel"
    using mult_le_mono1 [OF start, of "M + 1"] by simp
  from loop [OF _ this] show ?thesis by (auto simp: RunResponses_def new_response_state_def)
qed

definition response_candidate :: "int \<Rightarrow> string response_selection" where
  "response_candidate i =
     \<lparr>sel_Provider = \<lparr>pv_ID = i, pv_Platform = ''openai''\<rparr>, sel_RetryLimit = 0, rs_Available = True,
      rs_Skip = None, rs_OAuth = \<lparr>OpenAI = True, Grok = False\<rparr>\<rparr>"

definition response_of :: "string outcome \<Rightarrow> string response_outcome" where
  "response_of oc = outcome.extend oc
     \<lparr>ro_Images = False, ro_NativePartial = False, ro_FirstOutputRecovery = False\<rparr>"

text \<open>Two providers; after the first failure the group is changed, once.\<close>

definition two_response_providers :: "(string, nat) response_ports" where
  "two_response_providers =
     \<lparr>rp_failover = silent_failover, rp_Lifecycle = None, rp_CanAttempt = (\<lambda>n. (True, n)),
      rp_Select = (\<lambda>excl n. (if 1 \<notin> excl then Inr (response_candidate 1)
        else if 2 \<notin> excl then Inr (response_candidate 2) else Inl ''none'', n)),
      rp_SelectionFailure = (\<lambda>_ _ _ n. n), rp_Acquire = (\<lambda>n. (True, n)),
      rp_Forward = (\<lambda>n. (response_of (if n = 0 \<or> n = 2 then failed_outcome else served_outcome), Suc n)),
      rp_TryGroupFallback = Some (\<lambda>_ n. ((n \<le> 1, n \<le> 1), if n \<le> 1 then 2 else n)), rp_PartialImages = (\<lambda>_ n. n),
      rp_RetryReady = (\<lambda>_ n. (True, n)),
      rp_PrepareRetry = None, rp_RetryWait = (\<lambda>_ _ _ _ n. n), rp_Exhausted = (\<lambda>_ n. n),
      rp_Switched = (\<lambda>n. n), rp_Switching = (\<lambda>_ _ _ n. n), rp_OtherFailure = (\<lambda>_ n. n),
      rp_Failed = (\<lambda>n. n), rp_Complete = (\<lambda>n. n), rp_Success = (\<lambda>n. n), rp_Completed = (\<lambda>_ n. n)\<rparr>"

lemma responses_terminate_witness:
  "(\<exists>served e'. RunResponses 12 \<lparr>ro_MaxSwitches = 3, ro_FirstOutputBudget = True\<rparr> two_response_providers 0
      = Some (served, e')) \<and>
   RunResponses 12 \<lparr>ro_MaxSwitches = 3, ro_FirstOutputBudget = True\<rparr> two_response_providers 0 = Some (True, 4)"
proof
  note simps = two_response_providers_def response_candidate_def response_of_def outcome.defs
    silent_failover_def failed_outcome_def served_outcome_def outage_def
  let ?left = "\<lambda>n :: nat. if n \<le> 1 then 1 else 0 :: nat"
  have b: "bounded_responses {1, 2} 0 two_response_providers"
    by (simp add: bounded_responses_def simps counted_failure_def)
  have f: "bounded_fallbacks ?left two_response_providers"
    by (simp add: bounded_fallbacks_def simps prepare_retry_def SleepWithContext_def)
  show "\<exists>served e'. RunResponses 12 \<lparr>ro_MaxSwitches = 3, ro_FirstOutputBudget = True\<rparr>
      two_response_providers 0 = Some (served, e')"
    by (rule responses_terminate [OF b _ f]) (simp_all add: two_response_providers_def)
  show "RunResponses 12 \<lparr>ro_MaxSwitches = 3, ro_FirstOutputBudget = True\<rparr> two_response_providers 0 = Some (True, 4)"
    by (simp add: RunResponses_def numeral_eq_Suc response_turn_def new_response_state_def simps
        response_failure_def retry_failure_def response_success_def prepare_retry_def
        FirstOutputExhausted_def StopOAuth429_def budget_defs Let_def)
qed

end
