(* ===== verification/Digest_Store.thy ===== *)
theory Digest_Store
  imports Go_Base
begin

text \<open>
  The digest session store (\<^verbatim>\<open>gateway/session/digest_session_store.go\<close>): the key of a conversation is
  a chain of digests joined by dashes, and a lookup returns the session of the longest saved
  prefix of the chain. The cache (\<^verbatim>\<open>go-cache\<close>, a library) is a record of operations; its
  documented behaviour at one instant is the predicate \<open>cache_laws\<close>. A nil store is \<open>None\<close>.
\<close>

record session_entry =
  se_uuid :: string
  se_providerID :: int

record ('v, 'c) gocache =
  Cache_Set :: "string \<Rightarrow> 'v \<Rightarrow> 'c \<Rightarrow> 'c"
  Cache_Get :: "string \<Rightarrow> 'c \<Rightarrow> 'v option"
  Cache_Delete :: "string \<Rightarrow> 'c \<Rightarrow> 'c"
  Cache_DeleteExpired :: "'c \<Rightarrow> 'c"

definition cache_laws :: "('v, 'c) gocache \<Rightarrow> bool" where
  "cache_laws ops \<longleftrightarrow>
     (\<forall>k v c k'. Cache_Get ops k' (Cache_Set ops k v c) = (if k' = k then Some v else Cache_Get ops k' c)) \<and>
     (\<forall>k c k'. Cache_Get ops k' (Cache_Delete ops k c) = (if k' = k then None else Cache_Get ops k' c)) \<and>
     (\<forall>c k. Cache_Get ops k (Cache_DeleteExpired ops c) = Cache_Get ops k c)"

definition digestSessionTTL :: duration where
  "digestSessionTTL = 5 * minute"

definition buildNS :: "int \<Rightarrow> string \<Rightarrow> string" where
  "buildNS groupID prefixHash = itoa groupID @ '':'' @ prefixHash @ ''|''"

definition Save ::
  "(session_entry, 'c) gocache \<Rightarrow> int \<Rightarrow> string \<Rightarrow> string \<Rightarrow> string \<Rightarrow> int \<Rightarrow> string \<Rightarrow> 'c option \<Rightarrow> 'c option" where
  "Save ops groupID prefixHash digestChain uuid providerID oldDigestChain store =
     (case store of
        None \<Rightarrow> None
      | Some c \<Rightarrow>
          if digestChain = [] then Some c
          else
            let ns = buildNS groupID prefixHash;
                c = Cache_Set ops (ns @ digestChain) \<lparr>se_uuid = uuid, se_providerID = providerID\<rparr> c
            in Some (if oldDigestChain \<noteq> [] \<and> oldDigestChain \<noteq> digestChain
                     then Cache_Delete ops (ns @ oldDigestChain) c else c))"

text \<open>\<^verbatim>\<open>chain[:strings.LastIndex(chain, "-")]\<close>, None when there is no dash.\<close>

fun cut_last :: "char \<Rightarrow> string \<Rightarrow> string option" where
  "cut_last d [] = None"
| "cut_last d (c # s) =
     (case cut_last d s of
        Some p \<Rightarrow> Some (c # p)
      | None \<Rightarrow> if c = d then Some [] else None)"

lemma cut_last_None: "cut_last d s = None \<longleftrightarrow> d \<notin> set s"
  by (induction s) (auto split: option.splits)

lemma cut_last_append: "d \<notin> set t \<Longrightarrow> cut_last d (p @ d # t) = Some p"
  by (induction p) (auto simp: cut_last_None split: option.splits)

lemma cut_last_Some: "cut_last d s = Some p \<longleftrightarrow> (\<exists>t. s = p @ d # t \<and> d \<notin> set t)"
proof
  show "cut_last d s = Some p \<Longrightarrow> \<exists>t. s = p @ d # t \<and> d \<notin> set t"
    by (induction s arbitrary: p) (auto simp: cut_last_None split: option.splits if_splits)
qed (auto simp: cut_last_append)

lemma cut_last_length: "cut_last d s = Some p \<Longrightarrow> length p < length s"
  by (auto simp: cut_last_Some)

function find_chain ::
  "(session_entry, 'c) gocache \<Rightarrow> 'c \<Rightarrow> string \<Rightarrow> string \<Rightarrow> (session_entry \<times> string) option" where
  "find_chain ops c ns chain =
     (case Cache_Get ops (ns @ chain) c of
        Some e \<Rightarrow> Some (e, chain)
      | None \<Rightarrow>
          (case cut_last CHR ''-'' chain of
             None \<Rightarrow> None
           | Some chain' \<Rightarrow> find_chain ops c ns chain'))"
  by pat_completeness auto
termination
  by (relation "measure (\<lambda>(ops, c, ns, chain). length chain)") (auto simp: cut_last_length)

declare find_chain.simps [simp del]

definition Find ::
  "(session_entry, 'c) gocache \<Rightarrow> int \<Rightarrow> string \<Rightarrow> string \<Rightarrow> 'c option \<Rightarrow> string \<times> int \<times> string \<times> bool" where
  "Find ops groupID prefixHash digestChain store =
     (case store of
        None \<Rightarrow> ([], 0, [], False)
      | Some c \<Rightarrow>
          if digestChain = [] then ([], 0, [], False)
          else (case find_chain ops c (buildNS groupID prefixHash) digestChain of
                  None \<Rightarrow> ([], 0, [], False)
                | Some (e, chain) \<Rightarrow> (se_uuid e, se_providerID e, chain, True)))"

definition ExpireRuntimeCaches :: "('v, 'c) gocache \<Rightarrow> 'c option \<Rightarrow> 'c option" where
  "ExpireRuntimeCaches ops store = map_option (Cache_DeleteExpired ops) store"

section \<open>The longest saved prefix\<close>

text \<open>The prefixes of a chain: the chain itself, and what stands before one of its dashes.\<close>

definition chain_prefix :: "string \<Rightarrow> string \<Rightarrow> bool" where
  "chain_prefix p chain \<longleftrightarrow> p = chain \<or> (\<exists>t. chain = p @ ''-'' @ t)"

lemma chain_prefix_cut:
  assumes "cut_last CHR ''-'' chain = Some chain'"
  shows "chain_prefix p chain \<longleftrightarrow> p = chain \<or> chain_prefix p chain'"
proof -
  obtain t where chain: "chain = chain' @ CHR ''-'' # t" "CHR ''-'' \<notin> set t"
    using assms by (auto simp: cut_last_Some)
  have "(\<exists>u. chain = p @ ''-'' @ u) \<longleftrightarrow> chain_prefix p chain'"
  proof
    assume "\<exists>u. chain = p @ ''-'' @ u"
    then obtain u where u: "chain' @ CHR ''-'' # t = p @ CHR ''-'' # u" using chain by auto
    from u [unfolded append_eq_append_conv2] obtain us where
      "chain' = p @ us \<and> us @ CHR ''-'' # t = CHR ''-'' # u \<or> chain' @ us = p \<and> CHR ''-'' # t = us @ CHR ''-'' # u"
      by blast
    then show "chain_prefix p chain'"
      using chain(2) by (cases us) (auto simp: chain_prefix_def)
  qed (use chain in \<open>auto simp: chain_prefix_def\<close>)
  then show ?thesis by (auto simp: chain_prefix_def)
qed

lemma chain_prefix_no_dash: "cut_last CHR ''-'' chain = None \<Longrightarrow> chain_prefix p chain \<longleftrightarrow> p = chain"
  by (auto simp: cut_last_None chain_prefix_def)

lemma chain_prefix_shorter: "chain_prefix p chain \<Longrightarrow> length p \<le> length chain"
  by (auto simp: chain_prefix_def)

lemma find_chain_longest:
  "(case find_chain ops c ns chain of
      Some (e, p) \<Rightarrow> chain_prefix p chain \<and> Cache_Get ops (ns @ p) c = Some e \<and>
        (\<forall>q. chain_prefix q chain \<and> length p < length q \<longrightarrow> Cache_Get ops (ns @ q) c = None)
    | None \<Rightarrow> \<forall>q. chain_prefix q chain \<longrightarrow> Cache_Get ops (ns @ q) c = None)"
proof (induction ops c ns chain rule: find_chain.induct)
  case (1 ops c ns chain)
  show ?case
  proof (cases "Cache_Get ops (ns @ chain) c")
    case (Some e)
    then show ?thesis
      using chain_prefix_shorter by (fastforce simp: find_chain.simps [of ops c ns chain] chain_prefix_def)
  next
    case None
    show ?thesis
    proof (cases "cut_last CHR ''-'' chain")
      case none: None
      with None show ?thesis
        by (simp add: find_chain.simps [of ops c ns chain] chain_prefix_no_dash)
    next
      case (Some chain')
      from "1.IH" [OF None Some] show ?thesis
        using None Some
        by (auto simp: find_chain.simps [of ops c ns chain] chain_prefix_cut split: option.splits prod.splits)
    qed
  qed
qed

text \<open>
  A lookup finds exactly the longest prefix of the chain, cut at a dash, that has an entry,
  and finds nothing only if no prefix has one.
\<close>

theorem find_longest_prefix:
  assumes "digestChain \<noteq> []" and "Find ops g h digestChain (Some c) = (uuid, pid, matched, found)"
  shows "(found \<longrightarrow> chain_prefix matched digestChain \<and>
      Cache_Get ops (buildNS g h @ matched) c = Some \<lparr>se_uuid = uuid, se_providerID = pid\<rparr> \<and>
      (\<forall>q. chain_prefix q digestChain \<and> length matched < length q \<longrightarrow> Cache_Get ops (buildNS g h @ q) c = None)) \<and>
    (\<not> found \<longrightarrow> (\<forall>q. chain_prefix q digestChain \<longrightarrow> Cache_Get ops (buildNS g h @ q) c = None))"
  using find_chain_longest [where ops = ops and c = c and ns = "buildNS g h" and chain = digestChain] assms
  by (auto simp: Find_def split: option.splits prod.splits)

definition list_cache :: "(session_entry, (string \<times> session_entry) list) gocache" where
  "list_cache =
     \<lparr>Cache_Set = (\<lambda>k v c. (k, v) # c), Cache_Get = (\<lambda>k c. map_of c k),
      Cache_Delete = (\<lambda>k c. filter (\<lambda>kv. fst kv \<noteq> k) c), Cache_DeleteExpired = (\<lambda>c. c)\<rparr>"

lemma list_cache_laws: "cache_laws list_cache"
proof -
  have "map_of (filter (\<lambda>kv. fst kv \<noteq> k) c) k' = (if k' = k then None else map_of c k')"
    for k k' and c :: "(string \<times> session_entry) list"
    by (induction c) auto
  then show ?thesis by (auto simp: cache_laws_def list_cache_def)
qed

definition saved_chain :: "(string \<times> session_entry) list option" where
  "saved_chain = Save list_cache 7 ''h'' ''a-b'' ''u1'' 3 [] (Some [])"

lemma saved_chain_lookup: "Find list_cache 7 ''h'' ''a-b-c'' saved_chain = (''u1'', 3, ''a-b'', True)"
  by code_simp

lemma find_longest_prefix_witness:
  "chain_prefix ''a-b'' ''a-b-c'' \<and>
   Cache_Get list_cache (buildNS 7 ''h'' @ ''a-b-c'') (the saved_chain) = None"
proof -
  have "saved_chain = Some (the saved_chain)" by (simp add: saved_chain_def Save_def)
  with saved_chain_lookup have "Find list_cache 7 ''h'' ''a-b-c'' (Some (the saved_chain)) = (''u1'', 3, ''a-b'', True)"
    by simp
  from find_longest_prefix [OF _ this] show ?thesis
    by (auto simp: chain_prefix_def)
qed

section \<open>Saving\<close>

text \<open>Keys of different namespaces differ, as long as the prefix hashes contain no bar.\<close>

lemma key_inject:
  assumes "int64 g" and "int64 g'" and "CHR ''|'' \<notin> set h" and "CHR ''|'' \<notin> set h'"
  shows "buildNS g h @ chain = buildNS g' h' @ chain' \<longleftrightarrow> g = g' \<and> h = h' \<and> chain = chain'"
  using assms colon_notin_itoa
  by (simp add: buildNS_def append_sep_inject)

text \<open>
  After a session is saved, a lookup of its chain leads to that session; the superseded chain is
  gone, and no other entry of any group and prefix hash changed.
\<close>

theorem save_then_find:
  assumes laws: "cache_laws ops" and chain: "chain \<noteq> []" "old \<noteq> chain"
    and ids: "int64 g" "int64 g'" "CHR ''|'' \<notin> set h" "CHR ''|'' \<notin> set h'"
    and saved: "Save ops g h chain uuid pid old (Some c) = Some c'"
  shows "Find ops g h chain (Some c') = (uuid, pid, chain, True) \<and>
    (old \<noteq> [] \<longrightarrow> Cache_Get ops (buildNS g h @ old) c' = None) \<and>
    (\<forall>q. (g', h', q) \<noteq> (g, h, chain) \<and> (g', h', q) \<noteq> (g, h, old) \<longrightarrow>
       Cache_Get ops (buildNS g' h' @ q) c' = Cache_Get ops (buildNS g' h' @ q) c)"
proof -
  let ?ns = "buildNS g h"
  have get: "Cache_Get ops k c' =
      (if k = ?ns @ chain then Some \<lparr>se_uuid = uuid, se_providerID = pid\<rparr>
       else if old \<noteq> [] \<and> k = ?ns @ old then None else Cache_Get ops k c)" for k
  proof -
    have set_get: "Cache_Get ops k (Cache_Set ops k1 v d) = (if k = k1 then Some v else Cache_Get ops k d)"
      and delete_get: "Cache_Get ops k (Cache_Delete ops k1 d) = (if k = k1 then None else Cache_Get ops k d)"
      for k k1 v d using laws unfolding cache_laws_def by blast+
    from saved chain show ?thesis
      by (cases "old = []") (auto simp: Save_def Let_def set_get delete_get)
  qed
  have "find_chain ops c' ?ns chain = Some (\<lparr>se_uuid = uuid, se_providerID = pid\<rparr>, chain)"
    by (simp add: find_chain.simps [of ops c' ?ns chain] get)
  then have "Find ops g h chain (Some c') = (uuid, pid, chain, True)"
    using chain by (simp add: Find_def)
  moreover have "old \<noteq> [] \<longrightarrow> Cache_Get ops (?ns @ old) c' = None"
    using chain by (simp add: get)
  moreover have "Cache_Get ops (buildNS g' h' @ q) c' = Cache_Get ops (buildNS g' h' @ q) c"
    if "(g', h', q) \<noteq> (g, h, chain)" "(g', h', q) \<noteq> (g, h, old)" for q
    using that ids by (auto simp: get key_inject)
  ultimately show ?thesis by blast
qed

lemma save_then_find_witness:
  "Find list_cache 7 ''h'' ''a-b'' saved_chain = (''u1'', 3, ''a-b'', True)"
proof -
  have "Save list_cache 7 ''h'' ''a-b'' ''u1'' 3 [] (Some []) = Some (the saved_chain)"
    by (simp add: saved_chain_def Save_def)
  moreover have "saved_chain = Some (the saved_chain)" by (simp add: saved_chain_def Save_def)
  ultimately show ?thesis
    using save_then_find [OF list_cache_laws, of "''a-b''" "[]" 7 7 "''h''" "''h''" "''u1''" 3 "[]" "the saved_chain"]
    by (auto simp: int64_def)
qed

end
