(* ===== verification/Sched_Bucket.thy ===== *)
theory Sched_Bucket
  imports Go_Base
begin

text \<open>
  The scheduler's snapshot buckets (\<^verbatim>\<open>scheduler/bucket.go\<close>): the key \<^verbatim>\<open>group:platform:mode\<close>, its
  parser, and the validity of write tokens and group leases.
\<close>

definition SchedulerModeSingle :: string where "SchedulerModeSingle = ''single''"
definition SchedulerModeMixed :: string where "SchedulerModeMixed = ''mixed''"
definition SchedulerModeForced :: string where "SchedulerModeForced = ''forced''"

record SchedulerBucket =
  bk_GroupID :: int
  bk_Platform :: string
  bk_Mode :: string

record SchedulerBucketWriteToken =
  tk_Bucket :: SchedulerBucket
  tk_Epoch :: int

record SchedulerGroupLifecycleLease =
  gl_GroupID :: int
  gl_OwnerToken :: string

definition token_ValidFor :: "SchedulerBucketWriteToken \<Rightarrow> SchedulerBucket \<Rightarrow> bool" where
  "token_ValidFor t bucket \<longleftrightarrow> tk_Epoch t > 0 \<and> tk_Bucket t = bucket"

definition lease_ValidFor :: "SchedulerGroupLifecycleLease \<Rightarrow> int \<Rightarrow> bool" where
  "lease_ValidFor l groupID \<longleftrightarrow> groupID > 0 \<and> gl_GroupID l = groupID \<and> gl_OwnerToken l \<noteq> []"

definition bucket_String :: "SchedulerBucket \<Rightarrow> string" where
  "bucket_String b = itoa (bk_GroupID b) @ '':'' @ bk_Platform b @ '':'' @ bk_Mode b"

definition ParseSchedulerBucket :: "string \<Rightarrow> SchedulerBucket \<times> bool" where
  "ParseSchedulerBucket raw =
     (let none = (\<lparr>bk_GroupID = 0, bk_Platform = [], bk_Mode = []\<rparr>, False)
      in case split_on CHR '':'' raw of
           [p0, p1, p2] \<Rightarrow>
             (case parse_int64 p0 of
                None \<Rightarrow> none
              | Some groupID \<Rightarrow>
                  if p2 = [] then none
                  else (\<lparr>bk_GroupID = groupID, bk_Platform = p1, bk_Mode = p2\<rparr>, True))
         | _ \<Rightarrow> none)"

lemma split_bucket:
  "\<lbrakk>CHR '':'' \<notin> set p; CHR '':'' \<notin> set m\<rbrakk> \<Longrightarrow>
   split_on CHR '':'' (itoa g @ '':'' @ p @ '':'' @ m) = [itoa g, p, m]"
  using split_on_append [OF colon_notin_itoa, of g "p @ '':'' @ m"]
  by (simp add: split_on_append split_on_no_sep)

lemma split_on_join3:
  assumes "split_on c raw = [p0, p1, p2]"
  shows "raw = p0 @ [c] @ p1 @ [c] @ p2 \<and> c \<notin> set p1 \<and> c \<notin> set p2"
proof -
  have part: "c \<notin> set q" if "q \<in> set (split_on c s)" for q s
    using that by (induction s arbitrary: q) (auto split: list.splits if_splits)
  have "c \<notin> set p1 \<and> c \<notin> set p2" using part [of p1 raw] part [of p2 raw] assms by simp
  moreover have "raw = p0 @ [c] @ p1 @ [c] @ p2"
    using concat_split_on [of raw c] by (simp add: assms)
  ultimately show ?thesis by simp
qed

text \<open>
  Parsing the key of a bucket gives the bucket back exactly when its mode is not empty and
  neither platform nor mode contains a colon; every key the parser accepts denotes such a bucket
  and, up to the spelling of the group number, is its key.
\<close>

theorem bucket_roundtrip:
  assumes "int64 (bk_GroupID b)"
  shows "((ParseSchedulerBucket (bucket_String b) = (b, True)) =
      (bk_Mode b \<noteq> [] \<and> CHR '':'' \<notin> set (bk_Platform b) \<and> CHR '':'' \<notin> set (bk_Mode b))) \<and>
    (\<forall>raw b'. ParseSchedulerBucket raw = (b', True) \<longrightarrow>
      bk_Mode b' \<noteq> [] \<and> CHR '':'' \<notin> set (bk_Platform b') \<and> CHR '':'' \<notin> set (bk_Mode b') \<and>
      (\<exists>num. parse_int64 num = Some (bk_GroupID b') \<and> raw = num @ '':'' @ bk_Platform b' @ '':'' @ bk_Mode b'))"
proof -
  have parsed: "bk_Mode b' \<noteq> [] \<and> CHR '':'' \<notin> set (bk_Platform b') \<and> CHR '':'' \<notin> set (bk_Mode b') \<and>
      (\<exists>num. parse_int64 num = Some (bk_GroupID b') \<and> raw = num @ '':'' @ bk_Platform b' @ '':'' @ bk_Mode b')"
    if "ParseSchedulerBucket raw = (b', True)" for raw b'
  proof -
    from that obtain p0 p1 p2 g where "split_on CHR '':'' raw = [p0, p1, p2]" "parse_int64 p0 = Some g"
      "p2 \<noteq> []" "b' = \<lparr>bk_GroupID = g, bk_Platform = p1, bk_Mode = p2\<rparr>"
      by (auto simp: ParseSchedulerBucket_def Let_def split: list.splits option.splits if_splits)
    with split_on_join3 show ?thesis by fastforce
  qed
  moreover have "ParseSchedulerBucket (bucket_String b) = (b, True)"
    if "bk_Mode b \<noteq> [] \<and> CHR '':'' \<notin> set (bk_Platform b) \<and> CHR '':'' \<notin> set (bk_Mode b)"
    unfolding ParseSchedulerBucket_def bucket_String_def
    by (subst split_bucket) (use that in \<open>simp_all add: parse_int64_itoa assms\<close>)
  ultimately show ?thesis by blast
qed

lemma bucket_roundtrip_witness:
  "ParseSchedulerBucket ''12:openai:mixed'' = (\<lparr>bk_GroupID = 12, bk_Platform = ''openai'', bk_Mode = ''mixed''\<rparr>, True)"
proof -
  let ?b = "\<lparr>bk_GroupID = 12, bk_Platform = ''openai'', bk_Mode = ''mixed''\<rparr>"
  have "bucket_String ?b = ''12:openai:mixed''" by code_simp
  with bucket_roundtrip [of ?b] show ?thesis by (simp add: int64_def)
qed

end
