(* ===== verification/Sched_Select.thy ===== *)
theory Sched_Select
  imports Go_Sort
begin

text \<open>
  The basic provider selection of the scheduler (\<^verbatim>\<open>scheduler/basic_selection.go\<close>): the filters of
  load-aware selection, the choice of the least recently used candidate, the order of the legacy
  and fallback lists with its shuffling inside groups, and the loop of \<^verbatim>\<open>generic_selection.go\<close> that
  tries the candidates in turn.

  Providers are extensible records, so the wrappers that project richer providers onto
  \<^verbatim>\<open>BasicProvider\<close> and map the result back by pointer are the functions themselves at the richer
  record. Random draws are the list \<open>rs\<close>; a nil time is None; \<^verbatim>\<open>Unix()\<close> is whole seconds.
\<close>

definition ProviderTypeOAuth :: string where
  "ProviderTypeOAuth = ''oauth''"

record basic_provider =
  bp_ID :: int
  bp_Type :: string
  bp_Priority :: int
  bp_LastUsedAt :: "instant option"
  bp_SessionWindowEnd :: "instant option"

record load_info =
  li_CurrentConcurrency :: int
  li_WaitingCount :: int
  li_LoadRate :: int

record 'p candidate =
  cd_Provider :: 'p
  cd_Load :: load_info

section \<open>Filters\<close>

definition min_of :: "('a \<Rightarrow> int) \<Rightarrow> 'a \<Rightarrow> 'a list \<Rightarrow> int" where
  "min_of f x xs = fold (\<lambda>y m. if f y < m then f y else m) xs (f x)"

definition FilterByMinPriority :: "'a basic_provider_scheme candidate list \<Rightarrow> 'a basic_provider_scheme candidate list" where
  "FilterByMinPriority providers =
     (case providers of
        [] \<Rightarrow> []
      | x # xs \<Rightarrow>
          let minPriority = min_of (bp_Priority \<circ> cd_Provider) x xs
          in filter (\<lambda>acc. bp_Priority (cd_Provider acc) = minPriority) providers)"

definition FilterByMinLoadRate :: "'p candidate list \<Rightarrow> 'p candidate list" where
  "FilterByMinLoadRate providers =
     (case providers of
        [] \<Rightarrow> []
      | x # xs \<Rightarrow>
          let minLoadRate = min_of (li_LoadRate \<circ> cd_Load) x xs
          in filter (\<lambda>acc. li_LoadRate (cd_Load acc) = minLoadRate) providers)"

definition active_end :: "instant \<Rightarrow> 'a basic_provider_scheme candidate \<Rightarrow> instant option" where
  "active_end now acc =
     (case bp_SessionWindowEnd (cd_Provider acc) of
        Some end1 \<Rightarrow> if now < end1 then Some end1 else None
      | None \<Rightarrow> None)"

definition FilterBySoonestReset ::
  "instant \<Rightarrow> 'a basic_provider_scheme candidate list \<Rightarrow> 'a basic_provider_scheme candidate list" where
  "FilterBySoonestReset now providers =
     (if length providers \<le> 1 then providers
      else
        let minEnd = fold (\<lambda>acc m.
              case active_end now acc of
                None \<Rightarrow> m
              | Some e \<Rightarrow> (case m of None \<Rightarrow> Some e | Some m' \<Rightarrow> if e < m' then Some e else m))
              providers None
        in case minEnd of
             None \<Rightarrow> providers
           | Some m \<Rightarrow> filter (\<lambda>acc. active_end now acc = Some m) providers)"

lemma min_of_least: "min_of f x xs \<le> f x \<and> (\<forall>y \<in> set xs. min_of f x xs \<le> f y) \<and>
    (min_of f x xs = f x \<or> min_of f x xs \<in> f ` set xs)"
proof (induction xs rule: rev_induct)
  case (snoc y xs)
  then show ?case by (auto simp: min_of_def)
qed (simp add: min_of_def)

lemma filter_min:
  assumes "xs = x # ys"
  shows "set (filter (\<lambda>a. f a = min_of f x ys) xs) = {a \<in> set xs. \<forall>b \<in> set xs. f a \<le> f b}"
    and "filter (\<lambda>a. f a = min_of f x ys) xs \<noteq> []"
proof -
  have least: "\<forall>b \<in> set xs. min_of f x ys \<le> f b" and member: "min_of f x ys \<in> f ` set xs"
    using min_of_least [of f x ys] assms by auto
  from least member show "set (filter (\<lambda>a. f a = min_of f x ys) xs) = {a \<in> set xs. \<forall>b \<in> set xs. f a \<le> f b}"
    by (auto simp: antisym)
  from member show "filter (\<lambda>a. f a = min_of f x ys) xs \<noteq> []"
    by (auto simp: filter_empty_conv)
qed

lemma FilterByMinPriority_set:
  "set (FilterByMinPriority xs) = {a \<in> set xs. \<forall>b \<in> set xs. bp_Priority (cd_Provider a) \<le> bp_Priority (cd_Provider b)}"
  "FilterByMinPriority xs = [] \<longleftrightarrow> xs = []"
  using filter_min [of xs _ _ "bp_Priority \<circ> cd_Provider"]
  by (cases xs; simp add: FilterByMinPriority_def Let_def)+

lemma FilterByMinLoadRate_set:
  "set (FilterByMinLoadRate xs) = {a \<in> set xs. \<forall>b \<in> set xs. li_LoadRate (cd_Load a) \<le> li_LoadRate (cd_Load b)}"
  "FilterByMinLoadRate xs = [] \<longleftrightarrow> xs = []"
  using filter_min [of xs _ _ "li_LoadRate \<circ> cd_Load"]
  by (cases xs; simp add: FilterByMinLoadRate_def Let_def)+

text \<open>The earliest of the active ends, as the loop computes it.\<close>

definition earlier :: "instant option \<Rightarrow> instant option \<Rightarrow> instant option" where
  "earlier e m =
     (case e of
        None \<Rightarrow> m
      | Some e' \<Rightarrow> (case m of None \<Rightarrow> Some e' | Some m' \<Rightarrow> if e' < m' then Some e' else m))"

lemma fold_earlier:
  "(case fold (\<lambda>x m. earlier (f x) m) xs m of
      None \<Rightarrow> m = None \<and> (\<forall>x \<in> set xs. f x = None)
    | Some e \<Rightarrow> (m = Some e \<or> Some e \<in> f ` set xs) \<and> (\<forall>e'. m = Some e' \<longrightarrow> e \<le> e') \<and>
        (\<forall>x \<in> set xs. \<forall>e'. f x = Some e' \<longrightarrow> e \<le> e'))"
proof (induction xs rule: rev_induct)
  case (snoc y ys)
  then show ?case
    by (cases "fold (\<lambda>x m. earlier (f x) m) ys m"; cases "f y") (auto simp: earlier_def)
qed (simp split: option.split)

lemma fold_earlier_Some:
  assumes "fold (\<lambda>x m. earlier (f x) m) xs None = Some m"
  shows "\<exists>x \<in> set xs. f x = Some m" and "x \<in> set xs \<Longrightarrow> f x = Some t \<Longrightarrow> m \<le> t"
  using fold_earlier [where f = f and xs = xs and m = None] unfolding assms by force+

lemma fold_earlier_None:
  "fold (\<lambda>x m. earlier (f x) m) xs None = None \<Longrightarrow> x \<in> set xs \<Longrightarrow> f x = None"
  using fold_earlier [where f = f and xs = xs and m = None] by simp

definition sooner :: "instant \<Rightarrow> 'a basic_provider_scheme candidate \<Rightarrow> 'a basic_provider_scheme candidate \<Rightarrow> bool" where
  "sooner now b a =
     (case active_end now b of
        None \<Rightarrow> False
      | Some e \<Rightarrow> (case active_end now a of None \<Rightarrow> True | Some e' \<Rightarrow> e < e'))"

lemma FilterBySoonestReset_set:
  "set (FilterBySoonestReset now xs) = {a \<in> set xs. \<forall>b \<in> set xs. \<not> sooner now b a}"
proof -
  have unfold: "FilterBySoonestReset now xs =
      (if length xs \<le> 1 then xs
       else case fold (\<lambda>x m. earlier (active_end now x) m) xs None of
         None \<Rightarrow> xs | Some m \<Rightarrow> filter (\<lambda>acc. active_end now acc = Some m) xs)"
    by (simp add: FilterBySoonestReset_def earlier_def Let_def)
  show ?thesis
  proof (cases "length xs \<le> 1")
    case True
    then show ?thesis by (cases xs) (auto simp: FilterBySoonestReset_def sooner_def split: option.splits)
  next
    case False
    show ?thesis
    proof (cases "fold (\<lambda>x m. earlier (active_end now x) m) xs None")
      case None
      with False show ?thesis
        using fold_earlier_None [where f = "active_end now", OF None] by (auto simp: unfold sooner_def)
    next
      case (Some m)
      note m = fold_earlier_Some [where f = "active_end now", OF Some]
      have "active_end now a = Some m \<longleftrightarrow> (\<forall>b \<in> set xs. \<not> sooner now b a)" if a: "a \<in> set xs" for a
      proof
        assume "active_end now a = Some m"
        with m(2) show "\<forall>b \<in> set xs. \<not> sooner now b a"
          by (auto simp: sooner_def not_less split: option.splits)
      next
        assume none: "\<forall>b \<in> set xs. \<not> sooner now b a"
        from m(1) obtain b where "b \<in> set xs" "active_end now b = Some m" by blast
        with none m(2) [OF a] show "active_end now a = Some m"
          by (cases "active_end now a") (fastforce simp: sooner_def)+
      qed
      with False Some show ?thesis by (auto simp: unfold)
    qed
  qed
qed

section \<open>The least recently used candidate\<close>

definition lru_candidates :: "'a basic_provider_scheme candidate list \<Rightarrow> 'a basic_provider_scheme candidate list" where
  "lru_candidates providers =
     (let hasNil = list_ex (\<lambda>acc. bp_LastUsedAt (cd_Provider acc) = None) providers;
          minTime = fold (\<lambda>acc m. earlier (bp_LastUsedAt (cd_Provider acc)) m) providers None
      in if hasNil then filter (\<lambda>acc. bp_LastUsedAt (cd_Provider acc) = None) providers
         else filter (\<lambda>acc. bp_LastUsedAt (cd_Provider acc) \<noteq> None \<and> bp_LastUsedAt (cd_Provider acc) = minTime) providers)"

definition SelectByLRU ::
  "nat list \<Rightarrow> 'a basic_provider_scheme candidate list \<Rightarrow> bool
    \<Rightarrow> 'a basic_provider_scheme candidate option \<times> nat list" where
  "SelectByLRU rs providers preferOAuth =
     (case providers of
        [] \<Rightarrow> (None, rs)
      | [x] \<Rightarrow> (Some x, rs)
      | _ \<Rightarrow>
          let idxs = lru_candidates providers
          in case idxs of
               [x] \<Rightarrow> (Some x, rs)
             | _ \<Rightarrow>
                 let oauth = filter (\<lambda>acc. bp_Type (cd_Provider acc) = ProviderTypeOAuth) idxs;
                     idxs' = (if preferOAuth \<and> oauth \<noteq> [] then oauth else idxs);
                     (k, rs') = draw (length idxs') rs
                 in (Some (idxs' ! k), rs'))"

text \<open>\<open>older a b\<close>: \<open>a\<close> was used before \<open>b\<close>, or never while \<open>b\<close> was.\<close>

definition older :: "instant option \<Rightarrow> instant option \<Rightarrow> bool" where
  "older a b = (case b of None \<Rightarrow> False | Some y \<Rightarrow> (case a of None \<Rightarrow> True | Some x \<Rightarrow> x < y))"

lemma lru_candidates_set:
  "set (lru_candidates xs) = {a \<in> set xs. \<forall>b \<in> set xs. \<not> older (bp_LastUsedAt (cd_Provider b)) (bp_LastUsedAt (cd_Provider a))}"
  "lru_candidates xs = [] \<longleftrightarrow> xs = []"
proof -
  let ?u = "\<lambda>a :: 'a basic_provider_scheme candidate. bp_LastUsedAt (cd_Provider a)"
  show 1: "set (lru_candidates xs) = {a \<in> set xs. \<forall>b \<in> set xs. \<not> older (?u b) (?u a)}"
  proof (cases "list_ex (\<lambda>acc. ?u acc = None) xs")
    case True
    then show ?thesis
      by (auto simp: lru_candidates_def older_def list_ex_iff split: option.splits)
  next
    case False
    then have some: "\<forall>a \<in> set xs. \<exists>t. ?u a = Some t" by (auto simp: list_ex_iff)
    show ?thesis
    proof (cases "fold (\<lambda>x m. earlier (?u x) m) xs None")
      case None
      with some have "xs = []" using fold_earlier_None [where f = ?u, OF None] by (cases xs) auto
      then show ?thesis by (simp add: lru_candidates_def)
    next
      case (Some m)
      note m = fold_earlier_Some [where f = ?u, OF Some]
      have "?u a = Some m \<longleftrightarrow> (\<forall>b \<in> set xs. \<not> older (?u b) (?u a))" if a: "a \<in> set xs" for a
      proof
        assume "?u a = Some m"
        with m(2) some show "\<forall>b \<in> set xs. \<not> older (?u b) (?u a)"
          by (fastforce simp: older_def not_less split: option.splits)
      next
        assume none: "\<forall>b \<in> set xs. \<not> older (?u b) (?u a)"
        from m(1) obtain b where "b \<in> set xs" "?u b = Some m" by blast
        moreover obtain t where "?u a = Some t" using some a by blast
        ultimately show "?u a = Some m" using none m(2) [OF a] by (fastforce simp: older_def)
      qed
      with False Some show ?thesis by (auto simp: lru_candidates_def)
    qed
  qed
  show "lru_candidates xs = [] \<longleftrightarrow> xs = []"
  proof (cases "list_ex (\<lambda>acc. ?u acc = None) xs")
    case True
    then show ?thesis by (auto simp: lru_candidates_def filter_empty_conv list_ex_iff)
  next
    case False
    show ?thesis
    proof (cases "fold (\<lambda>x m. earlier (?u x) m) xs None")
      case None
      with False have "xs = []"
        using fold_earlier_None [where f = ?u, OF None] by (cases xs) auto
      then show ?thesis by (simp add: lru_candidates_def)
    next
      case (Some m)
      with False fold_earlier_Some(1) [where f = ?u, OF Some] show ?thesis
        by (auto simp: lru_candidates_def filter_empty_conv)
    qed
  qed
qed

lemma SelectByLRU_member:
  assumes "fst (SelectByLRU rs xs preferOAuth) = Some a"
  shows "a \<in> set (lru_candidates xs) \<and>
    (preferOAuth \<longrightarrow> (\<exists>b \<in> set (lru_candidates xs). bp_Type (cd_Provider b) = ProviderTypeOAuth)
       \<longrightarrow> bp_Type (cd_Provider a) = ProviderTypeOAuth)"
proof -
  let ?l = "lru_candidates xs"
  let ?o = "filter (\<lambda>acc. bp_Type (cd_Provider acc) = ProviderTypeOAuth) ?l"
  consider "xs = []" | x where "xs = [x]" | x y zs where "xs = x # y # zs" by (metis list.exhaust)
  then show ?thesis
  proof cases
    case (2 x)
    then have "?l = [x]" by (auto simp: lru_candidates_def earlier_def split: option.split)
    with 2 assms show ?thesis by (simp add: SelectByLRU_def)
  next
    case (3 x y zs)
    then have ne: "?l \<noteq> []" by (simp add: lru_candidates_set(2))
    have drawn: "ys ! fst (draw (length ys) rs) \<in> set ys" if "ys \<noteq> []" for ys :: "'a basic_provider_scheme candidate list"
      using draw_less [of "length ys" rs] that by simp
    have "a = ?l ! 0 \<and> length ?l = 1 \<or>
        a = (if preferOAuth \<and> ?o \<noteq> [] then ?o else ?l) ! fst (draw (length (if preferOAuth \<and> ?o \<noteq> [] then ?o else ?l)) rs)"
      using assms 3
      by (auto simp: SelectByLRU_def Let_def case_prod_beta split: list.splits)
    then show ?thesis
    proof
      assume "a = ?l ! 0 \<and> length ?l = 1"
      then show ?thesis by (cases ?l) auto
    next
      assume a: "a = (if preferOAuth \<and> ?o \<noteq> [] then ?o else ?l) ! fst (draw (length (if preferOAuth \<and> ?o \<noteq> [] then ?o else ?l)) rs)"
      show ?thesis
      proof (cases "preferOAuth \<and> ?o \<noteq> []")
        case True
        with a drawn [of ?o] have "a \<in> set ?o" by simp
        then show ?thesis by simp
      next
        case False
        with a drawn [OF ne] show ?thesis by (auto simp: filter_empty_conv)
      qed
    qed
  qed (use assms in \<open>simp add: SelectByLRU_def\<close>)
qed

lemma SelectByLRU_None: "fst (SelectByLRU rs xs preferOAuth) = None \<longleftrightarrow> xs = []"
  by (auto simp: SelectByLRU_def Let_def case_prod_beta split: list.splits)

section \<open>One round of load-aware selection\<close>

definition pick_candidate ::
  "instant \<Rightarrow> nat list \<Rightarrow> bool \<Rightarrow> bool \<Rightarrow> 'a basic_provider_scheme candidate list
    \<Rightarrow> 'a basic_provider_scheme candidate option \<times> nat list" where
  "pick_candidate now rs preferSoonestReset preferOAuth available =
     (let candidates = FilterByMinPriority available;
          candidates = (if preferSoonestReset then FilterBySoonestReset now candidates else candidates);
          candidates = FilterByMinLoadRate candidates
      in SelectByLRU rs candidates preferOAuth)"

definition better ::
  "instant \<Rightarrow> bool \<Rightarrow> bool \<Rightarrow> 'a basic_provider_scheme candidate \<Rightarrow> 'a basic_provider_scheme candidate \<Rightarrow> bool" where
  "better now soonest oauth b a \<longleftrightarrow>
     bp_Priority (cd_Provider b) < bp_Priority (cd_Provider a) \<or>
     bp_Priority (cd_Provider b) = bp_Priority (cd_Provider a) \<and>
       (soonest \<and> sooner now b a \<or>
        (soonest \<longrightarrow> active_end now b = active_end now a) \<and>
          (li_LoadRate (cd_Load b) < li_LoadRate (cd_Load a) \<or>
           li_LoadRate (cd_Load b) = li_LoadRate (cd_Load a) \<and>
             (older (bp_LastUsedAt (cd_Provider b)) (bp_LastUsedAt (cd_Provider a)) \<or>
              oauth \<and> bp_LastUsedAt (cd_Provider b) = bp_LastUsedAt (cd_Provider a) \<and>
                bp_Type (cd_Provider b) = ProviderTypeOAuth \<and> bp_Type (cd_Provider a) \<noteq> ProviderTypeOAuth)))"

lemma FilterBySoonestReset_Nil: "FilterBySoonestReset now xs = [] \<longleftrightarrow> xs = []"
proof (cases "length xs \<le> 1")
  case True
  then show ?thesis by (simp add: FilterBySoonestReset_def)
next
  case False
  have unfold: "FilterBySoonestReset now xs =
      (case fold (\<lambda>x m. earlier (active_end now x) m) xs None of
         None \<Rightarrow> xs | Some m \<Rightarrow> filter (\<lambda>acc. active_end now acc = Some m) xs)"
    using False by (simp add: FilterBySoonestReset_def earlier_def Let_def)
  show ?thesis
  proof (cases "fold (\<lambda>x m. earlier (active_end now x) m) xs None")
    case (Some m)
    with fold_earlier_Some(1) [where f = "active_end now", OF Some]
    obtain x where "x \<in> set xs" "active_end now x = Some m" by blast
    with Some show ?thesis by (auto simp: unfold filter_empty_conv)
  qed (simp add: unfold)
qed

text \<open>
  A round of load-aware selection returns a candidate whenever there is one, and no other
  candidate is better: lower priority number first, then the window that resets soonest (when
  asked for), then the lower load, then the longer unused, then an OAuth provider (when
  preferred), whatever the random draws.
\<close>

theorem pick_is_best:
  assumes "available \<noteq> []"
  shows "\<exists>a. fst (pick_candidate now rs soonest oauth available) = Some a \<and> a \<in> set available \<and>
    (\<forall>b \<in> set available. \<not> better now soonest oauth b a)"
proof -
  define c1 where "c1 = FilterByMinPriority available"
  define c2 where "c2 = (if soonest then FilterBySoonestReset now c1 else c1)"
  define c3 where "c3 = FilterByMinLoadRate c2"
  have ne: "c3 \<noteq> []"
    using assms by (simp add: c1_def c2_def c3_def FilterByMinPriority_set FilterByMinLoadRate_set
        FilterBySoonestReset_Nil)
  have pick: "pick_candidate now rs soonest oauth available = SelectByLRU rs c3 oauth"
    by (simp add: pick_candidate_def c1_def c2_def c3_def Let_def)
  obtain a where a: "fst (SelectByLRU rs c3 oauth) = Some a"
    using ne SelectByLRU_None [of rs c3 oauth] by (metis not_None_eq)
  note sel = SelectByLRU_member [OF a]
  have a3: "a \<in> set c3" using sel by (simp add: lru_candidates_set)
  then have a2: "a \<in> set c2" by (simp add: c3_def FilterByMinLoadRate_set)
  then have a1: "a \<in> set c1" by (auto simp: c2_def FilterBySoonestReset_set split: if_splits)
  have in1: "b \<in> set c1" if "b \<in> set available" "bp_Priority (cd_Provider b) = bp_Priority (cd_Provider a)" for b
    using that a1 by (auto simp: c1_def FilterByMinPriority_set)
  have in2: "b \<in> set c2" if "b \<in> set c1" "soonest \<longrightarrow> active_end now b = active_end now a" for b
  proof -
    have "soonest \<longrightarrow> sooner now x b = sooner now x a" for x
      using that(2) by (auto simp: sooner_def split: option.splits)
    with that(1) a2 show ?thesis by (auto simp: c2_def FilterBySoonestReset_set)
  qed
  have in3: "b \<in> set c3" if "b \<in> set c2" "li_LoadRate (cd_Load b) = li_LoadRate (cd_Load a)" for b
    using that a3 by (auto simp: c3_def FilterByMinLoadRate_set)
  have "\<not> better now soonest oauth b a" if b: "b \<in> set available" for b
  proof
    assume better: "better now soonest oauth b a"
    have p: "\<not> bp_Priority (cd_Provider b) < bp_Priority (cd_Provider a)"
      using a1 b by (auto simp: c1_def FilterByMinPriority_set)
    with better b in1 have b1: "b \<in> set c1" by (auto simp: better_def)
    have s: "\<not> (soonest \<and> sooner now b a)"
      using a2 b1 by (auto simp: c2_def FilterBySoonestReset_set)
    with better p b1 in2 have b2: "b \<in> set c2" by (auto simp: better_def)
    have l: "\<not> li_LoadRate (cd_Load b) < li_LoadRate (cd_Load a)"
      using a3 b2 by (auto simp: c3_def FilterByMinLoadRate_set)
    with better p s b2 in3 have b3: "b \<in> set c3" by (auto simp: better_def)
    have o: "\<not> older (bp_LastUsedAt (cd_Provider b)) (bp_LastUsedAt (cd_Provider a))"
      using sel b3 by (auto simp: lru_candidates_set)
    with better p s l have "oauth" "bp_LastUsedAt (cd_Provider b) = bp_LastUsedAt (cd_Provider a)"
      "bp_Type (cd_Provider b) = ProviderTypeOAuth" "bp_Type (cd_Provider a) \<noteq> ProviderTypeOAuth"
      by (auto simp: better_def)
    moreover have "b \<in> set (lru_candidates c3)"
      using b3 sel calculation(2) by (auto simp: lru_candidates_set)
    ultimately show False using sel by auto
  qed
  moreover have "a \<in> set available" using a1 by (simp add: c1_def FilterByMinPriority_set)
  ultimately show ?thesis using a pick by auto
qed

lemma pick_candidate_in:
  assumes "available \<noteq> []"
  shows "\<exists>a. fst (pick_candidate now rs soonest oauth available) = Some a \<and> a \<in> set available"
proof -
  define c where "c = FilterByMinLoadRate (if soonest then FilterBySoonestReset now (FilterByMinPriority available)
    else FilterByMinPriority available)"
  have "c \<noteq> []"
    using assms by (simp add: c_def FilterByMinPriority_set FilterByMinLoadRate_set FilterBySoonestReset_Nil)
  then obtain a where a: "fst (SelectByLRU rs c oauth) = Some a"
    using SelectByLRU_None [of rs c oauth] by (metis not_None_eq)
  have "a \<in> set c" using SelectByLRU_member [OF a] by (simp add: lru_candidates_set)
  then have "a \<in> set available"
    by (auto simp: c_def FilterByMinPriority_set FilterByMinLoadRate_set FilterBySoonestReset_set split: if_splits)
  with a show ?thesis by (simp add: pick_candidate_def c_def Let_def)
qed

definition demo_candidate :: "int \<Rightarrow> int \<Rightarrow> instant option \<Rightarrow> basic_provider candidate" where
  "demo_candidate i load used =
     \<lparr>cd_Provider = \<lparr>bp_ID = i, bp_Type = ''apikey'', bp_Priority = 1, bp_LastUsedAt = used,
        bp_SessionWindowEnd = None\<rparr>,
      cd_Load = \<lparr>li_CurrentConcurrency = 0, li_WaitingCount = 0, li_LoadRate = load\<rparr>\<rparr>"

lemma pick_is_best_witness:
  "\<exists>a. fst (pick_candidate 5 [3] True True [demo_candidate 1 40 None, demo_candidate 2 10 (Some 3)]) = Some a \<and>
     \<not> better 5 True True (demo_candidate 2 10 (Some 3)) a"
  using pick_is_best [of "[demo_candidate 1 40 None, demo_candidate 2 10 (Some 3)]" 5 "[3]" True True]
  by auto

end
