(* ===== verification/Sched_Order.thy ===== *)
theory Sched_Order
  imports Sched_Select "HOL-Library.Product_Lexorder"
begin

text \<open>
  The ordered lists of the basic scheduler: stable sorting by priority and last use, the random
  order inside groups that compare equal, and the loops of \<^verbatim>\<open>scheduler/generic_selection.go\<close> that
  take the first candidate whose slot and session can be had. Both comparison functions are
  shown to be weak orders by interpreting the locale of sorting.
\<close>

section \<open>Sorting\<close>

definition by_priority_and_last_used ::
  "bool \<Rightarrow> 'a basic_provider_scheme \<Rightarrow> 'a basic_provider_scheme \<Rightarrow> bool" where
  "by_priority_and_last_used preferOAuth a b =
     (if bp_Priority a \<noteq> bp_Priority b then bp_Priority a < bp_Priority b
      else case (bp_LastUsedAt a, bp_LastUsedAt b) of
        (None, Some _) \<Rightarrow> True
      | (Some _, None) \<Rightarrow> False
      | (None, None) \<Rightarrow>
          if preferOAuth \<and> bp_Type a \<noteq> bp_Type b then bp_Type a = ProviderTypeOAuth else False
      | (Some x, Some y) \<Rightarrow> x < y)"

definition by_priority_only :: "bool \<Rightarrow> 'a basic_provider_scheme \<Rightarrow> 'a basic_provider_scheme \<Rightarrow> bool" where
  "by_priority_only preferOAuth a b =
     (if bp_Priority a \<noteq> bp_Priority b then bp_Priority a < bp_Priority b
      else if preferOAuth \<and> bp_Type a \<noteq> bp_Type b then bp_Type a = ProviderTypeOAuth else False)"

definition not_oauth :: "bool \<Rightarrow> 'a basic_provider_scheme \<Rightarrow> int" where
  "not_oauth preferOAuth a = (if preferOAuth \<and> bp_Type a \<noteq> ProviderTypeOAuth then 1 else 0)"

definition last_used_key :: "bool \<Rightarrow> 'a basic_provider_scheme \<Rightarrow> int \<times> int \<times> int" where
  "last_used_key preferOAuth a =
     (bp_Priority a,
      case bp_LastUsedAt a of None \<Rightarrow> (0, not_oauth preferOAuth a) | Some t \<Rightarrow> (1, t))"

lemma by_priority_and_last_used_key:
  "by_priority_and_last_used oauth a b \<longleftrightarrow> last_used_key oauth a < last_used_key oauth b"
  by (auto simp: by_priority_and_last_used_def last_used_key_def not_oauth_def less_prod_def'
      split: option.split)

lemma by_priority_only_key:
  "by_priority_only oauth a b \<longleftrightarrow> (bp_Priority a, not_oauth oauth a) < (bp_Priority b, not_oauth oauth b)"
  by (auto simp: by_priority_only_def not_oauth_def less_prod_def')

interpretation lu: weak_less "by_priority_and_last_used oauth"
  unfolding by_priority_and_last_used_key [abs_def] by (rule weak_less_rank)

interpretation po: weak_less "by_priority_only oauth"
  unfolding by_priority_only_key [abs_def] by (rule weak_less_rank)

section \<open>Shuffling inside groups\<close>

text \<open>\<open>sh\<close> rearranges one group of at least two elements.\<close>

function shuffle_groups ::
  "('a \<Rightarrow> 'a \<Rightarrow> bool) \<Rightarrow> (nat list \<Rightarrow> 'a list \<Rightarrow> 'a list \<times> nat list) \<Rightarrow> nat list \<Rightarrow> 'a list \<Rightarrow> 'a list \<times> nat list" where
  "shuffle_groups same sh rs [] = ([], rs)"
| "shuffle_groups same sh rs (x # xs) =
     (let g = x # takeWhile (same x) xs;
          rest = dropWhile (same x) xs;
          (g', rs1) = (if length g > 1 then sh rs g else (g, rs));
          (rest', rs2) = shuffle_groups same sh rs1 rest
      in (g' @ rest', rs2))"
  by pat_completeness auto
termination
  by (relation "measure (\<lambda>(same, sh, rs, xs). length xs)") (auto simp: less_Suc_eq_le length_dropWhile_le)

definition SameLastUsedAt :: "instant option \<Rightarrow> instant option \<Rightarrow> bool" where
  "SameLastUsedAt a b =
     (case (a, b) of
        (None, None) \<Rightarrow> True
      | (Some x, Some y) \<Rightarrow> x div second = y div second
      | _ \<Rightarrow> False)"

definition SameProviderGroup :: "'a basic_provider_scheme \<Rightarrow> 'a basic_provider_scheme \<Rightarrow> bool" where
  "SameProviderGroup a b =
     (if bp_Priority a \<noteq> bp_Priority b then False else SameLastUsedAt (bp_LastUsedAt a) (bp_LastUsedAt b))"

definition SameProviderWithLoadGroup ::
  "'a basic_provider_scheme candidate \<Rightarrow> 'a basic_provider_scheme candidate \<Rightarrow> bool" where
  "SameProviderWithLoadGroup a b =
     (if bp_Priority (cd_Provider a) \<noteq> bp_Priority (cd_Provider b) then False
      else if li_LoadRate (cd_Load a) \<noteq> li_LoadRate (cd_Load b) then False
      else SameLastUsedAt (bp_LastUsedAt (cd_Provider a)) (bp_LastUsedAt (cd_Provider b)))"

definition shuffle_many :: "nat list \<Rightarrow> 'a list \<Rightarrow> 'a list \<times> nat list" where
  "shuffle_many rs xs = (if length xs > 1 then shuffle rs xs else (xs, rs))"

definition oauth_first ::
  "nat list \<Rightarrow> 'a basic_provider_scheme list \<Rightarrow> 'a basic_provider_scheme list \<times> nat list" where
  "oauth_first rs g =
     (let oauth = filter (\<lambda>acc. bp_Type acc = ProviderTypeOAuth) g;
          others = filter (\<lambda>acc. bp_Type acc \<noteq> ProviderTypeOAuth) g;
          (oauth', rs1) = shuffle_many rs oauth;
          (others', rs2) = shuffle_many rs1 others
      in (oauth' @ others', rs2))"

definition ShuffleWithinSortGroups ::
  "nat list \<Rightarrow> 'a basic_provider_scheme candidate list \<Rightarrow> 'a basic_provider_scheme candidate list \<times> nat list" where
  "ShuffleWithinSortGroups rs providers =
     (if length providers \<le> 1 then (providers, rs)
      else shuffle_groups SameProviderWithLoadGroup shuffle rs providers)"

definition ShuffleWithinPriorityAndLastUsed ::
  "nat list \<Rightarrow> 'a basic_provider_scheme list \<Rightarrow> bool \<Rightarrow> 'a basic_provider_scheme list \<times> nat list" where
  "ShuffleWithinPriorityAndLastUsed rs providers preferOAuth =
     (if length providers \<le> 1 then (providers, rs)
      else shuffle_groups SameProviderGroup (if preferOAuth then oauth_first else shuffle) rs providers)"

definition SortProvidersByPriorityAndLastUsed ::
  "nat list \<Rightarrow> 'a basic_provider_scheme list \<Rightarrow> bool \<Rightarrow> 'a basic_provider_scheme list \<times> nat list" where
  "SortProvidersByPriorityAndLastUsed rs providers preferOAuth =
     ShuffleWithinPriorityAndLastUsed rs (sort_by (by_priority_and_last_used preferOAuth) providers) preferOAuth"

definition SortProvidersByPriorityOnly :: "'a basic_provider_scheme list \<Rightarrow> bool \<Rightarrow> 'a basic_provider_scheme list" where
  "SortProvidersByPriorityOnly providers preferOAuth = sort_by (by_priority_only preferOAuth) providers"

definition ShuffleWithinPriority ::
  "nat list \<Rightarrow> 'a basic_provider_scheme list \<Rightarrow> 'a basic_provider_scheme list \<times> nat list" where
  "ShuffleWithinPriority rs providers =
     (if length providers \<le> 1 then (providers, rs)
      else shuffle_groups (\<lambda>a b. bp_Priority b = bp_Priority a) shuffle rs providers)"

definition SortCandidatesForFallback ::
  "nat list \<Rightarrow> 'a basic_provider_scheme list \<Rightarrow> bool \<Rightarrow> string \<Rightarrow> 'a basic_provider_scheme list \<times> nat list" where
  "SortCandidatesForFallback rs providers preferOAuth md =
     (if md = ''random'' then ShuffleWithinPriority rs (SortProvidersByPriorityOnly providers preferOAuth)
      else SortProvidersByPriorityAndLastUsed rs providers preferOAuth)"

text \<open>
  Groups of a list sorted by \<open>k\<close> are the blocks of equal \<open>k\<close>; rearranging each of them keeps the
  order by \<open>k\<close>, and sorts by a finer key \<open>f\<close> when each block ends up sorted by \<open>f\<close>.
\<close>

lemma shuffle_groups_sorted:
  fixes k :: "'a \<Rightarrow> 'k :: linorder" and f :: "'a \<Rightarrow> 'f :: linorder"
  assumes same: "\<And>x y. same x y \<longleftrightarrow> k x = k y" and finer: "\<And>x y. k x < k y \<Longrightarrow> f x < f y"
    and sh: "\<And>rs g. mset (fst (sh rs g)) = mset g"
      "\<And>rs g. (\<forall>x \<in> set g. \<forall>y \<in> set g. k x = k y) \<Longrightarrow> sorted_wrt (\<lambda>x y. f x \<le> f y) (fst (sh rs g))"
  shows "sorted_wrt (\<lambda>x y. k x \<le> k y) xs \<Longrightarrow>
    mset (fst (shuffle_groups same sh rs xs)) = mset xs \<and>
    sorted_wrt (\<lambda>x y. f x \<le> f y) (fst (shuffle_groups same sh rs xs))"
proof (induction "length xs" arbitrary: xs rs rule: less_induct)
  case less
  show ?case
  proof (cases xs)
    case (Cons x ys)
    define g where "g = x # takeWhile (same x) ys"
    define rest where "rest = dropWhile (same x) ys"
    define p where "p = (if length g > 1 then sh rs g else (g, rs))"
    have xs: "xs = g @ rest" by (simp add: Cons g_def rest_def)
    have g: "\<forall>a \<in> set g. k a = k x" by (auto simp: g_def same dest: set_takeWhileD)
    have sorted: "sorted_wrt (\<lambda>x y. k x \<le> k y) rest" "\<forall>a \<in> set g. \<forall>b \<in> set rest. k a \<le> k b"
      using less.prems by (auto simp: xs sorted_wrt_append)
    have above: "k x < k b" if b: "b \<in> set rest" for b
    proof -
      have "rest \<noteq> []" using b by auto
      then have "k x \<noteq> k (hd rest)" unfolding rest_def same [symmetric] by (rule hd_dropWhile)
      moreover have "k x \<le> k (hd rest)" "k (hd rest) \<le> k b"
        using sorted b \<open>rest \<noteq> []\<close> by (auto simp: g_def neq_Nil_conv)
      ultimately show ?thesis by simp
    qed
    have p: "mset (fst p) = mset g" "sorted_wrt (\<lambda>x y. f x \<le> f y) (fst p)"
    proof -
      show "mset (fst p) = mset g" by (simp add: p_def sh(1))
      show "sorted_wrt (\<lambda>x y. f x \<le> f y) (fst p)"
        using sh(2) g by (cases "length g > 1") (auto simp: p_def g_def)
    qed
    have len: "length rest < length xs" by (simp add: xs g_def)
    note IH = less.hyps [OF len sorted(1), of "snd p"]
    have shuffled: "fst (shuffle_groups same sh rs xs) = fst p @ fst (shuffle_groups same sh (snd p) rest)"
      by (simp add: Cons g_def [symmetric] rest_def [symmetric] p_def case_prod_beta Let_def)
    have "f a \<le> f b" if "a \<in> set (fst p)" "b \<in> set rest" for a b
    proof -
      have "a \<in> set g" using that(1) p(1) by (metis set_mset_mset)
      with g above that(2) have "k a < k b" by simp
      with finer show ?thesis by (simp add: less_imp_le)
    qed
    moreover have "set (fst (shuffle_groups same sh (snd p) rest)) = set rest"
      using IH by (metis set_mset_mset)
    ultimately show ?thesis
      unfolding shuffled using IH p by (auto simp: xs sorted_wrt_append)
  qed simp
qed

lemma mset_shuffle_many [simp]: "mset (fst (shuffle_many rs xs)) = mset xs"
  by (simp add: shuffle_many_def)

lemma set_shuffle_many [simp]: "set (fst (shuffle_many rs xs)) = set xs"
  by (simp add: shuffle_many_def)

lemma mset_oauth_first: "mset (fst (oauth_first rs g)) = mset g"
  by (simp add: oauth_first_def Let_def case_prod_beta)

text \<open>The order a legacy list ends up in: priority, never used first, whole second, OAuth first.\<close>

definition legacy_key :: "bool \<Rightarrow> 'a basic_provider_scheme \<Rightarrow> (int \<times> int \<times> int) \<times> int" where
  "legacy_key preferOAuth a =
     ((bp_Priority a, case bp_LastUsedAt a of None \<Rightarrow> (0, 0) | Some t \<Rightarrow> (1, t div second)),
      not_oauth preferOAuth a)"

lemma snd_legacy_key [simp]: "snd (legacy_key oauth a) = not_oauth oauth a"
  by (simp add: legacy_key_def)

lemma prod_le: "fst x = fst y \<Longrightarrow> snd x \<le> snd y \<Longrightarrow> x \<le> y"
  for x y :: "'a :: linorder \<times> 'b :: linorder"
  by (cases x; cases y) (simp add: less_eq_prod_def)

lemma same_group_key: "SameProviderGroup a b \<longleftrightarrow> fst (legacy_key oauth a) = fst (legacy_key oauth b)"
  by (auto simp: SameProviderGroup_def SameLastUsedAt_def legacy_key_def split: option.split)

lemma last_used_key_mono:
  "last_used_key oauth a \<le> last_used_key oauth b \<Longrightarrow> fst (legacy_key oauth a) \<le> fst (legacy_key oauth b)"
  by (auto simp: last_used_key_def legacy_key_def less_eq_prod_def less_prod_def' second_def
      zdiv_mono1 split: option.splits)

lemma sorted_wrt_same:
  "(\<forall>x \<in> set xs. \<forall>y \<in> set xs. f x \<le> f y) \<Longrightarrow> sorted_wrt (\<lambda>x y. f x \<le> f y) xs"
  by (induction xs) auto

lemma set_mset_eq: "mset xs = mset ys \<Longrightarrow> set xs = set ys"
  by (metis set_mset_mset)

text \<open>
  The legacy order is a rearrangement of the candidates sorted by priority, then never used
  before used, then the whole second of the last use; inside such a group OAuth providers come
  first when they are preferred, and apart from that any order is possible.
\<close>

theorem legacy_order_sorted:
  "mset (fst (SortProvidersByPriorityAndLastUsed rs providers oauth)) = mset providers \<and>
   sorted_wrt (\<lambda>a b. legacy_key oauth a \<le> legacy_key oauth b)
     (fst (SortProvidersByPriorityAndLastUsed rs providers oauth))"
proof -
  let ?ys = "sort_by (by_priority_and_last_used oauth) providers"
  let ?sh = "if oauth then oauth_first else shuffle :: nat list \<Rightarrow> 'a basic_provider_scheme list \<Rightarrow> _"
  have "sorted_wrt (\<lambda>a b. last_used_key oauth a \<le> last_used_key oauth b) ?ys"
    using lu.sorted_sort_by [of oauth providers] by (simp add: by_priority_and_last_used_key not_less)
  then have sorted: "sorted_wrt (\<lambda>a b. fst (legacy_key oauth a) \<le> fst (legacy_key oauth b)) ?ys"
    by (rule sorted_wrt_mono_rel [rotated]) (rule last_used_key_mono)
  have finer: "fst (legacy_key oauth a) < fst (legacy_key oauth b) \<Longrightarrow> legacy_key oauth a < legacy_key oauth b"
    for a b :: "'a basic_provider_scheme" by (simp add: less_prod_def')
  have perm: "mset (fst (?sh rs g)) = mset g" for rs g by (simp add: mset_oauth_first)
  have inside: "sorted_wrt (\<lambda>a b. legacy_key oauth a \<le> legacy_key oauth b) (fst (?sh rs g))"
    if g: "\<forall>x \<in> set g. \<forall>y \<in> set g. fst (legacy_key oauth x) = fst (legacy_key oauth y)" for rs g
  proof (cases oauth)
    case False
    have "legacy_key oauth x \<le> legacy_key oauth y" if "x \<in> set g" "y \<in> set g" for x y
    proof (rule prod_le)
      show "fst (legacy_key oauth x) = fst (legacy_key oauth y)" using g that by blast
    qed (use False in \<open>simp add: not_oauth_def\<close>)
    with False show ?thesis by (intro sorted_wrt_same) simp
  next
    case True
    define o1 where "o1 = filter (\<lambda>acc. bp_Type acc = ProviderTypeOAuth) g"
    define o2 where "o2 = filter (\<lambda>acc. bp_Type acc \<noteq> ProviderTypeOAuth) g"
    define xs where "xs = fst (shuffle_many rs o1)"
    define ys where "ys = fst (shuffle_many (snd (shuffle_many rs o1)) o2)"
    have xy: "fst (oauth_first rs g) = xs @ ys" "set xs = set o1" "set ys = set o2"
      by (simp_all add: oauth_first_def Let_def case_prod_beta o1_def o2_def xs_def ys_def)
    have le: "legacy_key oauth x \<le> legacy_key oauth y" if "x \<in> set g" "y \<in> set g"
      "not_oauth oauth x \<le> not_oauth oauth y" for x y
    proof (rule prod_le)
      show "fst (legacy_key oauth x) = fst (legacy_key oauth y)" using g that(1,2) by blast
    qed (use that(3) in simp)
    have "sorted_wrt (\<lambda>a b. legacy_key oauth a \<le> legacy_key oauth b) (xs @ ys)"
      unfolding sorted_wrt_append
      by (intro conjI ballI sorted_wrt_same le) (auto simp: xy(2,3) o1_def o2_def not_oauth_def)
    with True xy(1) show ?thesis by simp
  qed
  note shuffled = shuffle_groups_sorted [where k = "\<lambda>a. fst (legacy_key oauth a)" and
      f = "legacy_key oauth" and same = SameProviderGroup and sh = ?sh, OF same_group_key finer perm inside sorted]
  show ?thesis
  proof (cases "length ?ys \<le> 1")
    case True
    have short: "length zs \<le> 1 \<Longrightarrow> sorted_wrt R zs" for R and zs :: "'a basic_provider_scheme list"
      by (cases zs) auto
    from True short [OF True] show ?thesis
      by (simp add: SortProvidersByPriorityAndLastUsed_def ShuffleWithinPriorityAndLastUsed_def)
  next
    case False
    then have res: "SortProvidersByPriorityAndLastUsed rs providers oauth = shuffle_groups SameProviderGroup ?sh rs ?ys"
      by (simp only: SortProvidersByPriorityAndLastUsed_def ShuffleWithinPriorityAndLastUsed_def if_False)
    have "mset (fst (shuffle_groups SameProviderGroup ?sh rs ?ys)) = mset ?ys \<and>
        sorted_wrt (\<lambda>a b. legacy_key oauth a \<le> legacy_key oauth b)
          (fst (shuffle_groups SameProviderGroup ?sh rs ?ys))"
      by (rule shuffled)
    then show ?thesis unfolding res mset_sort_by .
  qed
qed

end
