(* ===== verification/Sched_Slots.thy ===== *)
theory Sched_Slots
  imports Sched_Order
begin

text \<open>
  The end of a basic selection (\<^verbatim>\<open>scheduler/generic_selection.go\<close>): try the candidates for a slot,
  best first while loads are known (\<open>layer2\<close>), in the legacy order otherwise (\<open>TryLegacyOrder\<close>), and
  fall back to a wait plan; for groups that do not use the advanced scheduler. The ports are operations
  on an environment; \<open>sp_TryAcquire\<close> is true when the slot was acquired without error, and
  \<open>sp_NewSelectionResult\<close> is true when the result could be built. The draws of the generator are
  threaded.
\<close>

record flow_provider = basic_provider +
  fp_Concurrency :: int

record 'e slot_ports =
  sp_TryAcquire :: "int \<Rightarrow> int \<Rightarrow> 'e \<Rightarrow> bool \<times> 'e"
  sp_Release :: "int \<Rightarrow> 'e \<Rightarrow> 'e"
  sp_CheckAndRegister :: "flow_provider \<Rightarrow> 'e \<Rightarrow> bool \<times> 'e"
  sp_SetSession :: "int \<Rightarrow> 'e \<Rightarrow> 'e"
  sp_NewSelectionResult :: "flow_provider \<Rightarrow> bool \<Rightarrow> 'e \<Rightarrow> bool \<times> 'e"

datatype pick = Acquired flow_provider | WaitFor flow_provider | SelectionFailed | NoAvailableProviders

text \<open>\<open>NewSelectionResult\<close> hands over the slot when \<open>acquired\<close>; its error ends the selection.\<close>

definition selection_result :: "'e slot_ports \<Rightarrow> flow_provider \<Rightarrow> bool \<Rightarrow> 'e \<Rightarrow> pick \<times> 'e" where
  "selection_result p acc acquired e =
     (case sp_NewSelectionResult p acc acquired e of
        (True, e) \<Rightarrow> (if acquired then Acquired acc else WaitFor acc, e)
      | (False, e) \<Rightarrow> (SelectionFailed, e))"

text \<open>One attempt at a candidate; \<open>sticky\<close>: the request has a session hash and there is a cache.\<close>

definition try_slot :: "'e slot_ports \<Rightarrow> bool \<Rightarrow> flow_provider \<Rightarrow> 'e \<Rightarrow> bool \<times> 'e" where
  "try_slot p sticky acc e =
     (case sp_TryAcquire p (bp_ID acc) (fp_Concurrency acc) e of
        (False, e) \<Rightarrow> (False, e)
      | (True, e) \<Rightarrow>
          (case sp_CheckAndRegister p acc e of
             (False, e) \<Rightarrow> (False, sp_Release p (bp_ID acc) e)
           | (True, e) \<Rightarrow> (True, if sticky then sp_SetSession p (bp_ID acc) e else e)))"

lemma pick_member:
  assumes "pick_candidate now rs soonest oauth available = (Some a, rs')"
  shows "a \<in> set available"
proof -
  have "available \<noteq> []"
    using assms by (auto simp: pick_candidate_def FilterByMinPriority_def FilterBySoonestReset_def
        FilterByMinLoadRate_def SelectByLRU_def split: if_splits)
  from pick_candidate_in [OF this, of now rs soonest oauth] assms show ?thesis by simp
qed

lemma filter_length_less: "x \<in> set xs \<Longrightarrow> \<not> P x \<Longrightarrow> length (filter P xs) < length xs"
  by (rule length_filter_less)

text \<open>The loop of load-aware selection: every failed candidate leaves the list.\<close>

function layer2 ::
  "'e slot_ports \<Rightarrow> bool \<Rightarrow> instant \<Rightarrow> bool \<Rightarrow> bool \<Rightarrow> nat list \<Rightarrow> flow_provider candidate list \<Rightarrow> 'e
    \<Rightarrow> flow_provider option \<times> nat list \<times> 'e" where
  "layer2 p sticky now soonest oauth rs available e =
     (case pick_candidate now rs soonest oauth available of
        (None, rs) \<Rightarrow> (None, rs, e)
      | (Some selected, rs) \<Rightarrow>
          (case try_slot p sticky (cd_Provider selected) e of
            (True, e) \<Rightarrow> (Some (cd_Provider selected), rs, e)
          | (False, e) \<Rightarrow>
              layer2 p sticky now soonest oauth rs
                (filter (\<lambda>acc. bp_ID (cd_Provider acc) \<noteq> bp_ID (cd_Provider selected)) available) e))"
  by pat_completeness auto
termination
  by (relation "measure (\<lambda>(p, sticky, now, soonest, oauth, rs, available, e). length available)")
    (auto dest!: pick_member [OF sym] intro!: filter_length_less)

declare layer2.simps [simp del]

text \<open>The first of an ordered list whose slot and session can be had.\<close>

fun first_slot :: "'e slot_ports \<Rightarrow> bool \<Rightarrow> flow_provider list \<Rightarrow> 'e \<Rightarrow> flow_provider option \<times> 'e" where
  "first_slot p sticky [] e = (None, e)"
| "first_slot p sticky (acc # accs) e =
     (case try_slot p sticky acc e of
        (True, e) \<Rightarrow> (Some acc, e)
      | (False, e) \<Rightarrow> first_slot p sticky accs e)"

definition TryLegacyOrder ::
  "'e slot_ports \<Rightarrow> bool \<Rightarrow> bool \<Rightarrow> nat list \<Rightarrow> flow_provider list \<Rightarrow> 'e \<Rightarrow> flow_provider option \<times> nat list \<times> 'e" where
  "TryLegacyOrder p sticky oauth rs candidates e =
     (case SortProvidersByPriorityAndLastUsed rs candidates oauth of
        (ordered, rs) \<Rightarrow> (case first_slot p sticky ordered e of (r, e) \<Rightarrow> (r, rs, e)))"

fun first_registered :: "'e slot_ports \<Rightarrow> flow_provider list \<Rightarrow> 'e \<Rightarrow> pick \<times> 'e" where
  "first_registered p [] e = (NoAvailableProviders, e)"
| "first_registered p (acc # accs) e =
     (case sp_CheckAndRegister p acc e of
        (True, e) \<Rightarrow> selection_result p acc False e
      | (False, e) \<Rightarrow> first_registered p accs e)"

text \<open>
  The tail of the selection: \<open>loads\<close> is the load map, None when it could not be read. Candidates
  at 100 % or more are left out.
\<close>

definition with_loads :: "(int \<rightharpoonup> load_info) \<Rightarrow> flow_provider list \<Rightarrow> flow_provider candidate list" where
  "with_loads loads candidates =
     filter (\<lambda>c. li_LoadRate (cd_Load c) < 100)
       (map (\<lambda>acc. \<lparr>cd_Provider = acc,
          cd_Load = (case loads (bp_ID acc) of
             Some l \<Rightarrow> l
           | None \<Rightarrow> \<lparr>li_CurrentConcurrency = 0, li_WaitingCount = 0, li_LoadRate = 0\<rparr>)\<rparr>) candidates)"

definition select_tail ::
  "'e slot_ports \<Rightarrow> bool \<Rightarrow> instant \<Rightarrow> bool \<Rightarrow> bool \<Rightarrow> string \<Rightarrow> (int \<rightharpoonup> load_info) option \<Rightarrow> nat list
    \<Rightarrow> flow_provider list \<Rightarrow> 'e \<Rightarrow> pick \<times> 'e" where
  "select_tail p sticky now soonest oauth md loads rs candidates e =
     (case (case loads of
              None \<Rightarrow> TryLegacyOrder p sticky oauth rs candidates e
            | Some m \<Rightarrow> layer2 p sticky now soonest oauth rs (with_loads m candidates) e) of
        (Some acc, rs, e) \<Rightarrow> selection_result p acc True e
      | (None, rs, e) \<Rightarrow> first_registered p (fst (SortCandidatesForFallback rs candidates oauth md)) e)"

section \<open>No slot is leaked\<close>

text \<open>
  \<open>held e\<close> are the slots the request holds: an acquisition adds one, a release gives it back, and
  registering or storing a session holds nothing. A result that cannot be built gives back the slot it
  was handed (\<open>newSelectionResult\<close> in \<^verbatim>\<open>gateway/provider/selection/generic.go\<close>).
\<close>

definition slot_laws :: "'e slot_ports \<Rightarrow> ('e \<Rightarrow> int multiset) \<Rightarrow> bool" where
  "slot_laws p held \<longleftrightarrow>
     (\<forall>i n e. held (snd (sp_TryAcquire p i n e)) = (if fst (sp_TryAcquire p i n e) then add_mset i (held e) else held e)) \<and>
     (\<forall>i e. held (sp_Release p i e) = held e - {#i#}) \<and>
     (\<forall>acc e. held (snd (sp_CheckAndRegister p acc e)) = held e) \<and>
     (\<forall>i e. held (sp_SetSession p i e) = held e) \<and>
     (\<forall>acc a e. held (snd (sp_NewSelectionResult p acc a e)) =
        (if fst (sp_NewSelectionResult p acc a e) \<or> \<not> a then held e else held e - {#bp_ID acc#}))"

definition held_after :: "pick \<Rightarrow> int multiset" where
  "held_after r = (case r of Acquired acc \<Rightarrow> {#bp_ID acc#} | _ \<Rightarrow> {#})"

definition held_by :: "flow_provider option \<Rightarrow> int multiset" where
  "held_by r = (case r of None \<Rightarrow> {#} | Some acc \<Rightarrow> {#bp_ID acc#})"

lemma try_slot_held:
  assumes "slot_laws p held" and "try_slot p sticky acc e = (ok, e')"
  shows "held e' = held e + (if ok then {#bp_ID acc#} else {#})"
proof -
  note law = assms(1) [unfolded slot_laws_def]
  obtain a e1 where a: "sp_TryAcquire p (bp_ID acc) (fp_Concurrency acc) e = (a, e1)" by fastforce
  obtain b e2 where b: "sp_CheckAndRegister p acc e1 = (b, e2)" by fastforce
  have h1: "held e1 = (if a then add_mset (bp_ID acc) (held e) else held e)"
    using law a by (metis fst_conv snd_conv)
  have h2: "held e2 = held e1" using law b by (metis snd_conv)
  from law have rel: "held (sp_Release p i u) = held u - {#i#}" and set: "held (sp_SetSession p i u) = held u"
    for i u by auto
  show ?thesis
    using assms(2) h1 h2 by (cases a; cases b) (auto simp: try_slot_def a b rel set split: if_splits)
qed

lemma layer2_held:
  "slot_laws p held \<Longrightarrow> layer2 p sticky now soonest oauth rs available e = (r, rs', e') \<Longrightarrow>
   held e' = held e + held_by r"
proof (induction p sticky now soonest oauth rs available e rule: layer2.induct)
  case (1 p sticky now soonest oauth rs available e)
  obtain sel rs1 where pick: "pick_candidate now rs soonest oauth available = (sel, rs1)" by fastforce
  show ?case
  proof (cases sel)
    case None
    with "1.prems"(2) pick show ?thesis
      by (simp add: layer2.simps [of p sticky now soonest oauth rs available e] held_by_def)
  next
    case (Some a)
    obtain ok e1 where slot: "try_slot p sticky (cd_Provider a) e = (ok, e1)" by fastforce
    note h = try_slot_held [OF "1.prems"(1) slot]
    show ?thesis
    proof (cases ok)
      case True
      with "1.prems"(2) pick Some slot h show ?thesis
        by (auto simp: layer2.simps [of p sticky now soonest oauth rs available e] held_by_def)
    next
      case False
      with "1.prems"(2) pick Some slot
      have "layer2 p sticky now soonest oauth rs1
          (filter (\<lambda>acc. bp_ID (cd_Provider acc) \<noteq> bp_ID (cd_Provider a)) available) e1 = (r, rs', e')"
        by (simp add: layer2.simps [of p sticky now soonest oauth rs available e])
      with "1.IH" [OF pick [symmetric] Some _ _ "1.prems"(1)] slot False h show ?thesis by auto
    qed
  qed
qed

lemma first_slot_held:
  "slot_laws p held \<Longrightarrow> first_slot p sticky accs e = (r, e') \<Longrightarrow> held e' = held e + held_by r"
proof (induction accs arbitrary: e)
  case (Cons acc accs)
  obtain ok e1 where slot: "try_slot p sticky acc e = (ok, e1)" by fastforce
  with try_slot_held [OF Cons.prems(1) slot] Cons show ?case
    by (cases ok) (auto simp: held_by_def)
qed (simp add: held_by_def)

lemma selection_result_held:
  assumes "slot_laws p held" and "selection_result p acc a e = (r, e')"
  shows "held e = held_by (Some acc) + h \<Longrightarrow> a \<Longrightarrow> held e' = h + held_after r"
    and "\<not> a \<Longrightarrow> held e' = held e + held_after r"
proof -
  obtain ok e1 where res: "sp_NewSelectionResult p acc a e = (ok, e1)" by fastforce
  have h: "held e1 = (if ok \<or> \<not> a then held e else held e - {#bp_ID acc#})"
    using assms(1) res unfolding slot_laws_def by (metis fst_conv snd_conv)
  show "held e = held_by (Some acc) + h \<Longrightarrow> a \<Longrightarrow> held e' = h + held_after r"
    "\<not> a \<Longrightarrow> held e' = held e + held_after r"
    using assms(2) res h
    by (auto simp: selection_result_def held_after_def held_by_def split: if_splits bool.splits)
qed

lemma first_registered_held:
  "slot_laws p held \<Longrightarrow> first_registered p accs e = (r, e') \<Longrightarrow> held e' = held e + held_after r"
proof (induction accs arbitrary: e)
  case (Cons acc accs)
  obtain ok e1 where reg: "sp_CheckAndRegister p acc e = (ok, e1)" by fastforce
  have "held e1 = held e" using Cons.prems(1) reg unfolding slot_laws_def by (metis snd_conv)
  with Cons reg selection_result_held(2) [OF Cons.prems(1), where a = False, simplified] show ?case by (cases ok) auto
qed (simp add: held_after_def)

text \<open>
  C28: a selection ends holding exactly the slot of the provider it returns as acquired, and none
  when it returns a wait plan, an error or nothing: a slot whose session was refused is released.
\<close>

theorem selection_leaks_no_slot:
  assumes "slot_laws p held"
    and "select_tail p sticky now soonest oauth md loads rs candidates e = (r, e')"
  shows "held e' = held e + held_after r"
proof -
  let ?first = "case loads of
      None \<Rightarrow> TryLegacyOrder p sticky oauth rs candidates e
    | Some m \<Rightarrow> layer2 p sticky now soonest oauth rs (with_loads m candidates) e"
  obtain acc rs1 e1 where first: "?first = (acc, rs1, e1)" by (metis prod_cases3)
  have h1: "held e1 = held e + held_by acc"
    using first layer2_held [OF assms(1)] first_slot_held [OF assms(1)]
    by (auto simp: TryLegacyOrder_def split: option.splits prod.splits)
  show ?thesis
  proof (cases acc)
    case None
    with assms(2) first
    have "first_registered p (fst (SortCandidatesForFallback rs1 candidates oauth md)) e1 = (r, e')"
      by (simp add: select_tail_def)
    from first_registered_held [OF assms(1) this] h1 None show ?thesis by (simp add: held_by_def)
  next
    case (Some a)
    with assms(2) first have "selection_result p a True e1 = (r, e')" by (simp add: select_tail_def)
    from selection_result_held(1) [OF assms(1) this, of "held e"] h1 Some show ?thesis by (simp add: add.commute)
  qed
qed

text \<open>Two providers with free slots; the session of the first is refused.\<close>

definition list_slot_ports :: "int list slot_ports" where
  "list_slot_ports =
     \<lparr>sp_TryAcquire = (\<lambda>i n e. (True, i # e)), sp_Release = (\<lambda>i e. remove1 i e),
      sp_CheckAndRegister = (\<lambda>acc e. (bp_ID acc \<noteq> 1, e)), sp_SetSession = (\<lambda>i e. e),
      sp_NewSelectionResult = (\<lambda>acc a e. (True, e))\<rparr>"

definition flow :: "int \<Rightarrow> int \<Rightarrow> flow_provider" where
  "flow i prio = \<lparr>bp_ID = i, bp_Type = ''apikey'', bp_Priority = prio, bp_LastUsedAt = None,
     bp_SessionWindowEnd = None, fp_Concurrency = 5\<rparr>"

lemma selection_leaks_no_slot_witness:
  "snd (select_tail list_slot_ports True 0 False False [] None [] [flow 1 1, flow 2 2] []) = [2]"
proof -
  have laws: "slot_laws list_slot_ports mset"
    by (simp add: slot_laws_def list_slot_ports_def)
  have run: "fst (select_tail list_slot_ports True 0 False False [] None [] [flow 1 1, flow 2 2] [])
      = Acquired (flow 2 2)"
    by code_simp
  from selection_leaks_no_slot [OF laws prod.collapse [symmetric], of True 0 False False "[]" None "[]"
      "[flow 1 1, flow 2 2]" "[]"] run
  have "mset (snd (select_tail list_slot_ports True 0 False False [] None [] [flow 1 1, flow 2 2] [])) = {#2#}"
    by (simp add: flow_def held_after_def)
  then show ?thesis by simp
qed

end
