(* ===== verification/Sched_Lease.thy ===== *)
theory Sched_Lease
  imports Go_Base
begin

text \<open>
  Leases (\<^verbatim>\<open>scheduler/lease.go\<close>). A release function is an external one, with a token, or the
  \<open>Release\<close> method of a lease or an attempt, so leases own each other; they live in a \<open>heap\<close> and are
  named by their index. Code runs as a list of \<open>item\<close>s: one item is what happens between two mutex
  operations, \<open>exec_item\<close> performs it and pushes what follows, and None says it has to wait (a
  second \<open>Release\<close> while the first one runs). \<open>run_items\<close> is one goroutine alone; \<open>act\<close> is the
  machine of any number of them, under every schedule, with contexts cancelled at any moment.
  A \<open>nil\<close> lease or attempt is an index that is not allocated.
\<close>

datatype ReleaseMode = ReleaseOnCompletion | ReleaseOnCancel

datatype closure = Ext nat | LeaseRelease nat | AttemptRelease nat

datatype once = Fresh | Running | Done

record Lease =
  ls_closed :: bool
  ls_resources :: "closure list"
  ls_stop :: "nat option"
  ls_once :: once

record 'f AttemptLease =
  at_resources :: nat
  at_finish :: "'f option"
  at_once :: once

datatype 'f event = Released nat | Finished 'f bool

record 'f heap =
  hp_leases :: "Lease list"
  hp_attempts :: "'f AttemptLease list"
  hp_after :: "(nat \<times> nat) list"
  hp_canceled :: "nat list"
  hp_log :: "'f event list"

datatype 'f item =
    Run closure
  | Own nat closure
  | Take nat
  | Unstop nat nat
  | EndOnce nat
  | AfterFunc nat nat
  | SetStop nat nat
  | Finish nat bool
  | CallFinish 'f bool
  | EndFinish nat

section \<open>The operations\<close>

definition upd_lease :: "nat \<Rightarrow> (Lease \<Rightarrow> Lease) \<Rightarrow> 'f heap \<Rightarrow> 'f heap" where
  "upd_lease l f h = h\<lparr>hp_leases := (hp_leases h)[l := f (hp_leases h ! l)]\<rparr>"

definition upd_attempt :: "nat \<Rightarrow> ('f AttemptLease \<Rightarrow> 'f AttemptLease) \<Rightarrow> 'f heap \<Rightarrow> 'f heap" where
  "upd_attempt a f h = h\<lparr>hp_attempts := (hp_attempts h)[a := f (hp_attempts h ! a)]\<rparr>"

definition emit :: "'f event \<Rightarrow> 'f heap \<Rightarrow> 'f heap" where
  "emit ev h = h\<lparr>hp_log := hp_log h @ [ev]\<rparr>"

text \<open>\<open>Own\<close>: a lease that has ended gives the resource back at once; Own on a nil lease panics.\<close>

definition lease_Own :: "nat \<Rightarrow> closure \<Rightarrow> 'f heap \<Rightarrow> ('f item list \<times> 'f heap) option" where
  "lease_Own l r h =
     (if l \<ge> length (hp_leases h) then None
      else if ls_closed (hp_leases h ! l) then Some ([Run r], h)
      else Some ([], upd_lease l (\<lambda>x. x\<lparr>ls_resources := ls_resources x @ [r]\<rparr>) h))"

text \<open>\<open>Release\<close>: the first call closes the lease and runs its resources, last acquired first.\<close>

definition lease_Release :: "nat \<Rightarrow> 'f heap \<Rightarrow> ('f item list \<times> 'f heap) option" where
  "lease_Release l h =
     (if l \<ge> length (hp_leases h) then Some ([], h)
      else case ls_once (hp_leases h ! l) of
        Fresh \<Rightarrow> Some ([Take l], upd_lease l (\<lambda>x. x\<lparr>ls_once := Running\<rparr>) h)
      | Running \<Rightarrow> None
      | Done \<Rightarrow> Some ([], h))"

definition take_resources :: "nat \<Rightarrow> 'f heap \<Rightarrow> 'f item list \<times> 'f heap" where
  "take_resources l h =
     (let x = hp_leases h ! l
      in ((case ls_stop x of None \<Rightarrow> [] | Some c \<Rightarrow> [Unstop c l]) @ map Run (rev (ls_resources x)) @ [EndOnce l],
          upd_lease l (\<lambda>x. x\<lparr>ls_closed := True, ls_resources := [], ls_stop := None\<rparr>) h))"

text \<open>\<open>Finish\<close> of an attempt: the first call runs the finish function, then releases the resources.\<close>

definition attempt_Finish :: "nat \<Rightarrow> bool \<Rightarrow> 'f heap \<Rightarrow> ('f item list \<times> 'f heap) option" where
  "attempt_Finish a served h =
     (if a \<ge> length (hp_attempts h) then Some ([], h)
      else case at_once (hp_attempts h ! a) of
        Fresh \<Rightarrow>
          Some ((case at_finish (hp_attempts h ! a) of None \<Rightarrow> [] | Some f \<Rightarrow> [CallFinish f served]) @
                [Run (LeaseRelease (at_resources (hp_attempts h ! a))), EndFinish a],
                upd_attempt a (\<lambda>x. x\<lparr>at_once := Running\<rparr>) h)
      | Running \<Rightarrow> None
      | Done \<Rightarrow> Some ([], h))"

fun exec_item :: "'f item \<Rightarrow> 'f heap \<Rightarrow> ('f item list \<times> 'f heap) option" where
  "exec_item (Run (Ext t)) h = Some ([], emit (Released t) h)"
| "exec_item (Run (LeaseRelease l)) h = lease_Release l h"
| "exec_item (Run (AttemptRelease a)) h = attempt_Finish a False h"
| "exec_item (Own l r) h = lease_Own l r h"
| "exec_item (Take l) h = (if l < length (hp_leases h) then Some (take_resources l h) else None)"
| "exec_item (Unstop c l) h = Some ([], h\<lparr>hp_after := remove1 (c, l) (hp_after h)\<rparr>)"
| "exec_item (EndOnce l) h = Some ([], upd_lease l (\<lambda>x. x\<lparr>ls_once := Done\<rparr>) h)"
| "exec_item (AfterFunc c l) h = Some ([], h\<lparr>hp_after := (c, l) # hp_after h\<rparr>)"
| "exec_item (SetStop c l) h =
     (if ls_closed (hp_leases h ! l) then Some ([Unstop c l], h)
      else Some ([], upd_lease l (\<lambda>x. x\<lparr>ls_stop := Some c\<rparr>) h))"
| "exec_item (Finish a served) h = attempt_Finish a served h"
| "exec_item (CallFinish f served) h = Some ([], emit (Finished f served) h)"
| "exec_item (EndFinish a) h = Some ([], upd_attempt a (\<lambda>x. x\<lparr>at_once := Done\<rparr>) h)"

text \<open>The constructors; a nil release is not registered. Both return the index of the new object.\<close>

definition NewLease :: "nat option \<Rightarrow> ReleaseMode \<Rightarrow> closure option list \<Rightarrow> 'f heap \<Rightarrow> nat \<times> 'f item list \<times> 'f heap" where
  "NewLease ctx md rs h =
     (let l = length (hp_leases h)
      in (l, (case ctx of Some c \<Rightarrow> if md = ReleaseOnCancel then [AfterFunc c l, SetStop c l] else [] | None \<Rightarrow> []),
          h\<lparr>hp_leases := hp_leases h @
            [\<lparr>ls_closed = False, ls_resources = List.map_filter (\<lambda>r. r) rs, ls_stop = None, ls_once = Fresh\<rparr>]\<rparr>))"

definition WrapRelease :: "nat option \<Rightarrow> ReleaseMode \<Rightarrow> closure option \<Rightarrow> 'f heap \<Rightarrow> closure option \<times> 'f item list \<times> 'f heap" where
  "WrapRelease ctx md r h =
     (if r = None then (None, [], h)
      else case NewLease ctx md [r] h of (l, todo, h) \<Rightarrow> (Some (LeaseRelease l), todo, h))"

definition NewAttemptLease :: "nat option \<Rightarrow> 'f option \<Rightarrow> closure option list \<Rightarrow> 'f heap \<Rightarrow> nat \<times> 'f item list \<times> 'f heap" where
  "NewAttemptLease parent finish rs h =
     (case NewLease None ReleaseOnCompletion rs h of
        (l, todo, h) \<Rightarrow>
          let a = length (hp_attempts h)
          in (a, todo @ (case parent of Some p \<Rightarrow> [Own p (AttemptRelease a)] | None \<Rightarrow> []),
              h\<lparr>hp_attempts := hp_attempts h @ [\<lparr>at_resources = l, at_finish = finish, at_once = Fresh\<rparr>]\<rparr>))"


section \<open>Every run ends\<close>

text \<open>Each item either uses up a fresh once or lowers the weight of what is left to run.\<close>

definition fresh_count :: "'f heap \<Rightarrow> nat" where
  "fresh_count h = length (filter (\<lambda>x. ls_once x = Fresh) (hp_leases h)) +
     length (filter (\<lambda>x. at_once x = Fresh) (hp_attempts h))"

fun item_weight :: "'f item \<Rightarrow> nat" where
  "item_weight (Own l r) = 3"
| "item_weight (Take l) = 3"
| "item_weight (SetStop c l) = 2"
| "item_weight _ = 1"

definition weight :: "'f item list \<Rightarrow> 'f heap \<Rightarrow> nat" where
  "weight items h = sum_list (map item_weight items) +
     sum_list (map (\<lambda>x. 2 * length (ls_resources x)) (hp_leases h))"

lemma sum_list_map_update:
  fixes f :: "'a \<Rightarrow> nat"
  shows "k < length xs \<Longrightarrow> sum_list (map f (xs[k := v])) + f (xs ! k) = sum_list (map f xs) + f v"
proof (induction xs arbitrary: k)
  case (Cons x xs)
  then show ?case by (cases k) (auto simp: add.commute add.left_commute)
qed simp

lemma filter_update_le:
  assumes "k < length xs" and "P v \<longrightarrow> P (xs ! k)"
  shows "length (filter P (xs[k := v])) \<le> length (filter P xs)"
    and "P (xs ! k) \<Longrightarrow> \<not> P v \<Longrightarrow> length (filter P (xs[k := v])) < length (filter P xs)"
proof -
  have "length (filter P ys) = sum_list (map (\<lambda>x. if P x then 1 else 0) ys)" for ys :: "'a list"
    by (induction ys) auto
  moreover have "sum_list (map (\<lambda>x. if P x then 1 else 0 :: nat) (xs[k := v])) + (if P (xs ! k) then 1 else 0) =
      sum_list (map (\<lambda>x. if P x then 1 else 0) xs) + (if P v then 1 else 0)"
    by (rule sum_list_map_update [OF assms(1)])
  ultimately show "length (filter P (xs[k := v])) \<le> length (filter P xs)"
    and "P (xs ! k) \<Longrightarrow> \<not> P v \<Longrightarrow> length (filter P (xs[k := v])) < length (filter P xs)"
    using assms(2) by (auto split: if_splits)
qed

lemma upd_lease_simps [simp]:
  "hp_attempts (upd_lease l f h) = hp_attempts h" "hp_after (upd_lease l f h) = hp_after h"
  "hp_log (upd_lease l f h) = hp_log h" "hp_canceled (upd_lease l f h) = hp_canceled h"
  "length (hp_leases (upd_lease l f h)) = length (hp_leases h)"
  "hp_leases (upd_attempt a g h) = hp_leases h" "hp_after (upd_attempt a g h) = hp_after h"
  "hp_log (upd_attempt a g h) = hp_log h" "hp_canceled (upd_attempt a g h) = hp_canceled h"
  "length (hp_attempts (upd_attempt a g h)) = length (hp_attempts h)"
  "hp_leases (emit ev h) = hp_leases h" "hp_attempts (emit ev h) = hp_attempts h"
  "hp_after (emit ev h) = hp_after h" "hp_canceled (emit ev h) = hp_canceled h"
  "hp_log (emit ev h) = hp_log h @ [ev]"
  by (simp_all add: upd_lease_def upd_attempt_def emit_def)

lemma upd_lease_nth [simp]:
  "l < length (hp_leases h) \<Longrightarrow> hp_leases (upd_lease l f h) ! k = (if k = l then f (hp_leases h ! k) else hp_leases h ! k)"
  "a < length (hp_attempts h) \<Longrightarrow> hp_attempts (upd_attempt a g h) ! k = (if k = a then g (hp_attempts h ! k) else hp_attempts h ! k)"
  by (auto simp: upd_lease_def upd_attempt_def nth_list_update)

lemma upd_lease_none:
  "\<not> l < length (hp_leases h) \<Longrightarrow> upd_lease l f h = h"
  "\<not> a < length (hp_attempts h) \<Longrightarrow> upd_attempt a g h = h"
  by (cases h, simp add: upd_lease_def upd_attempt_def list_update_beyond)+

lemma fresh_count_upd:
  "ls_once (f (hp_leases h ! l)) \<noteq> Fresh \<or> ls_once (hp_leases h ! l) = Fresh \<Longrightarrow> fresh_count (upd_lease l f h) \<le> fresh_count h"
  "at_once (g (hp_attempts h ! a)) \<noteq> Fresh \<or> at_once (hp_attempts h ! a) = Fresh \<Longrightarrow>
     fresh_count (upd_attempt a g h) \<le> fresh_count h"
  "l < length (hp_leases h) \<Longrightarrow> ls_once (hp_leases h ! l) = Fresh \<Longrightarrow> ls_once (f (hp_leases h ! l)) \<noteq> Fresh \<Longrightarrow>
     fresh_count (upd_lease l f h) < fresh_count h"
  "a < length (hp_attempts h) \<Longrightarrow> at_once (hp_attempts h ! a) = Fresh \<Longrightarrow> at_once (g (hp_attempts h ! a)) \<noteq> Fresh \<Longrightarrow>
     fresh_count (upd_attempt a g h) < fresh_count h"
proof -
  show "ls_once (f (hp_leases h ! l)) \<noteq> Fresh \<or> ls_once (hp_leases h ! l) = Fresh \<Longrightarrow> fresh_count (upd_lease l f h) \<le> fresh_count h"
    using filter_update_le(1) [of l "hp_leases h" "\<lambda>x. ls_once x = Fresh" "f (hp_leases h ! l)"]
    by (cases "l < length (hp_leases h)") (auto simp: fresh_count_def list_update_beyond upd_lease_def)
  show "at_once (g (hp_attempts h ! a)) \<noteq> Fresh \<or> at_once (hp_attempts h ! a) = Fresh \<Longrightarrow>
     fresh_count (upd_attempt a g h) \<le> fresh_count h"
    using filter_update_le(1) [of a "hp_attempts h" "\<lambda>x. at_once x = Fresh" "g (hp_attempts h ! a)"]
    by (cases "a < length (hp_attempts h)") (auto simp: fresh_count_def list_update_beyond upd_attempt_def)
  show "l < length (hp_leases h) \<Longrightarrow> ls_once (hp_leases h ! l) = Fresh \<Longrightarrow> ls_once (f (hp_leases h ! l)) \<noteq> Fresh \<Longrightarrow>
     fresh_count (upd_lease l f h) < fresh_count h"
    using filter_update_le(2) [of l "hp_leases h" "\<lambda>x. ls_once x = Fresh" "f (hp_leases h ! l)"]
    by (auto simp: fresh_count_def upd_lease_def)
  show "a < length (hp_attempts h) \<Longrightarrow> at_once (hp_attempts h ! a) = Fresh \<Longrightarrow> at_once (g (hp_attempts h ! a)) \<noteq> Fresh \<Longrightarrow>
     fresh_count (upd_attempt a g h) < fresh_count h"
    using filter_update_le(2) [of a "hp_attempts h" "\<lambda>x. at_once x = Fresh" "g (hp_attempts h ! a)"]
    by (auto simp: fresh_count_def upd_attempt_def)
qed

definition resource_weight :: "'f heap \<Rightarrow> nat" where
  "resource_weight h = sum_list (map (\<lambda>x. 2 * length (ls_resources x)) (hp_leases h))"

lemma resource_weight_upd:
  "l < length (hp_leases h) \<Longrightarrow> resource_weight (upd_lease l f h) + 2 * length (ls_resources (hp_leases h ! l)) =
     resource_weight h + 2 * length (ls_resources (f (hp_leases h ! l)))"
  using sum_list_map_update [of l "hp_leases h" "\<lambda>x. 2 * length (ls_resources x)" "f (hp_leases h ! l)"]
  by (simp add: resource_weight_def upd_lease_def)

lemma resource_weight_keep:
  "(\<And>x. ls_resources (f x) = ls_resources x) \<Longrightarrow> resource_weight (upd_lease l f h) = resource_weight h"
  using resource_weight_upd [of l h f] by (cases "l < length (hp_leases h)") (simp_all add: upd_lease_none)

lemma resource_weight_simps [simp]:
  "resource_weight (upd_attempt a g h) = resource_weight h" "resource_weight (emit ev h) = resource_weight h"
  "resource_weight (h\<lparr>hp_after := x\<rparr>) = resource_weight h"
  "fresh_count (emit ev h) = fresh_count h" "fresh_count (h\<lparr>hp_after := x\<rparr>) = fresh_count h"
  by (simp_all add: resource_weight_def fresh_count_def emit_def)

lemma exec_item_decreases:
  assumes "exec_item i h = Some (js, h')"
  shows "fresh_count h' < fresh_count h \<or>
    fresh_count h' \<le> fresh_count h \<and>
      sum_list (map item_weight js) + resource_weight h' < item_weight i + resource_weight h"
proof (cases i)
  case (Run c)
  with assms show ?thesis
    by (cases c) (auto simp: lease_Release_def attempt_Finish_def intro!: fresh_count_upd split: if_splits once.splits)
next
  case (Own l r)
  then show ?thesis
    using assms resource_weight_upd [of l h "\<lambda>x. x\<lparr>ls_resources := ls_resources x @ [r]\<rparr>"]
    by (auto simp: lease_Own_def intro!: fresh_count_upd split: if_splits)
next
  case (Take l)
  have "sum_list (map ((item_weight :: 'a item \<Rightarrow> nat) \<circ> Run) cs) = length cs" for cs by (induction cs) auto
  with Take show ?thesis
    using assms resource_weight_upd [of l h "\<lambda>x. x\<lparr>ls_closed := True, ls_resources := [], ls_stop := None\<rparr>"]
    by (auto simp: take_resources_def Let_def intro!: fresh_count_upd split: if_splits option.splits)
next
  case (Finish a v)
  with assms show ?thesis
    by (auto simp: attempt_Finish_def intro!: fresh_count_upd split: if_splits once.splits)
qed (use assms in \<open>auto simp: resource_weight_keep intro!: fresh_count_upd split: if_splits\<close>)

text \<open>One goroutine alone; None when it waits for itself.\<close>

function run_items :: "'f item list \<Rightarrow> 'f heap \<Rightarrow> 'f heap option" where
  "run_items [] h = Some h"
| "run_items (i # is) h =
     (case exec_item i h of
        None \<Rightarrow> None
      | Some (js, h') \<Rightarrow> run_items (js @ is) h')"
  by pat_completeness auto
termination
proof (relation "measures [\<lambda>(is, h). fresh_count h, \<lambda>(is, h). sum_list (map item_weight is) + resource_weight h]", goal_cases)
  case (2 i "is" h x js h')
  then have "exec_item i h = Some (js, h')" by simp
  from exec_item_decreases [OF this] show ?case by auto
qed simp

section \<open>Any number of goroutines\<close>

datatype 'f action =
    Create "nat option" ReleaseMode "closure option list"
  | CreateAttempt "nat option" "'f option" "closure option list"
  | Call "'f item"
  | Cancel nat
  | Fire nat
  | Sched nat

text \<open>What other code can call: Release of a lease or an attempt, Own and Finish.\<close>

fun public_call :: "'f item \<Rightarrow> 'f heap \<Rightarrow> bool" where
  "public_call (Run c) h = True"
| "public_call (Own l r) h = (l < length (hp_leases h))"
| "public_call (Finish a served) h = True"
| "public_call _ h = False"

text \<open>
  A new object, a call and a cancellation start a goroutine; \<open>Fire k\<close> starts the registered
  function of a cancelled context; \<open>Sched k\<close> lets goroutine \<open>k\<close> perform its next item. An action
  that is not possible changes nothing.
\<close>

fun act :: "'f action \<Rightarrow> 'f heap \<times> 'f item list list \<Rightarrow> 'f heap \<times> 'f item list list" where
  "act (Create ctx md rs) (h, ts) = (case NewLease ctx md rs h of (l, todo, h) \<Rightarrow> (h, ts @ [todo]))"
| "act (CreateAttempt parent f rs) (h, ts) =
     (if \<forall>p \<in> set_option parent. p < length (hp_leases h)
      then case NewAttemptLease parent f rs h of (a, todo, h) \<Rightarrow> (h, ts @ [todo])
      else (h, ts))"
| "act (Call i) (h, ts) = (h, if public_call i h then ts @ [[i]] else ts)"
| "act (Cancel c) (h, ts) = (h\<lparr>hp_canceled := c # hp_canceled h\<rparr>, ts)"
| "act (Fire k) (h, ts) =
     (if k < length (hp_after h) \<and> fst (hp_after h ! k) \<in> set (hp_canceled h)
      then (h\<lparr>hp_after := take k (hp_after h) @ drop (Suc k) (hp_after h)\<rparr>, ts @ [[Run (LeaseRelease (snd (hp_after h ! k)))]])
      else (h, ts))"
| "act (Sched k) (h, ts) =
     (if k < length ts
      then case ts ! k of
          [] \<Rightarrow> (h, ts)
        | i # is \<Rightarrow> (case exec_item i h of None \<Rightarrow> (h, ts) | Some (js, h') \<Rightarrow> (h', ts[k := js @ is]))
      else (h, ts))"

definition empty_heap :: "'f heap" where
  "empty_heap = \<lparr>hp_leases = [], hp_attempts = [], hp_after = [], hp_canceled = [], hp_log = []\<rparr>"

section \<open>Every resource is released exactly once\<close>

text \<open>The tokens of the external releases that are stored, still to run, and already run.\<close>

fun closure_tokens :: "closure \<Rightarrow> nat multiset" where
  "closure_tokens (Ext t) = {#t#}"
| "closure_tokens _ = {#}"

fun item_tokens :: "'f item \<Rightarrow> nat multiset" where
  "item_tokens (Run c) = closure_tokens c"
| "item_tokens (Own l c) = closure_tokens c"
| "item_tokens _ = {#}"

definition lease_tokens :: "Lease \<Rightarrow> nat multiset" where
  "lease_tokens x = sum_list (map closure_tokens (ls_resources x))"

definition heap_tokens :: "'f heap \<Rightarrow> nat multiset" where
  "heap_tokens h = sum_list (map lease_tokens (hp_leases h))"

definition stack_tokens :: "'f item list \<Rightarrow> nat multiset" where
  "stack_tokens is = sum_list (map item_tokens is)"

definition released :: "'f event list \<Rightarrow> nat multiset" where
  "released evs = mset (List.map_filter (\<lambda>ev. case ev of Released t \<Rightarrow> Some t | _ \<Rightarrow> None) evs)"

text \<open>The tokens an action hands to the machine.\<close>

fun handed :: "'f action \<Rightarrow> nat multiset" where
  "handed (Create ctx md rs) = sum_list (map closure_tokens (List.map_filter (\<lambda>r. r) rs))"
| "handed (CreateAttempt parent f rs) = sum_list (map closure_tokens (List.map_filter (\<lambda>r. r) rs))"
| "handed (Call i) = item_tokens i"
| "handed _ = {#}"

text \<open>Actions on objects that exist; the others do nothing.\<close>

fun possible :: "'f action \<Rightarrow> 'f heap \<Rightarrow> bool" where
  "possible (CreateAttempt parent f rs) h = (\<forall>p \<in> set_option parent. p < length (hp_leases h))"
| "possible (Call i) h = public_call i h"
| "possible _ h = True"

inductive machine :: "'f heap \<Rightarrow> 'f item list list \<Rightarrow> nat multiset \<Rightarrow> bool" where
  start: "machine empty_heap [] {#}"
| step: "\<lbrakk>machine h ts M; possible a h; act a (h, ts) = (h', ts')\<rbrakk> \<Longrightarrow> machine h' ts' (M + handed a)"

definition items :: "'f item list list \<Rightarrow> 'f item set" where
  "items ts = (\<Union>t \<in> set ts. set t)"

fun item_ok :: "'f heap \<Rightarrow> 'f item \<Rightarrow> bool" where
  "item_ok h (Own l r) = (l < length (hp_leases h))"
| "item_ok h (Take l) = (l < length (hp_leases h))"
| "item_ok h (EndOnce l) = (l < length (hp_leases h))"
| "item_ok h (SetStop c l) = (l < length (hp_leases h))"
| "item_ok h (EndFinish a) = (a < length (hp_attempts h))"
| "item_ok h _ = True"

definition lease_inv :: "'f heap \<Rightarrow> 'f item list list \<Rightarrow> bool" where
  "lease_inv h ts \<longleftrightarrow>
     (\<forall>i \<in> items ts. item_ok h i) \<and>
     (\<forall>x \<in> set (hp_leases h). ls_closed x \<longrightarrow> ls_resources x = []) \<and>
     (\<forall>l < length (hp_leases h). ls_once (hp_leases h ! l) \<noteq> Fresh \<longrightarrow>
        ls_closed (hp_leases h ! l) \<or> Take l \<in> items ts) \<and>
     (\<forall>l. Take l \<in> items ts \<or> EndOnce l \<in> items ts \<longrightarrow> ls_once (hp_leases h ! l) \<noteq> Fresh)"

lemma sum_list_mset_update:
  fixes f :: "'a \<Rightarrow> 'b multiset"
  shows "k < length xs \<Longrightarrow> sum_list (map f (xs[k := v])) + f (xs ! k) = sum_list (map f xs) + f v"
proof (induction xs arbitrary: k)
  case (Cons x xs)
  then show ?case by (cases k) (auto simp: add.commute add.left_commute)
qed simp

lemma sum_list_empty: "\<forall>m \<in> set ms. m = {#} \<Longrightarrow> sum_list ms = {#}"
  by (induction ms) auto

lemma heap_tokens_upd:
  "l < length (hp_leases h) \<Longrightarrow> heap_tokens (upd_lease l f h) + lease_tokens (hp_leases h ! l) =
     heap_tokens h + lease_tokens (f (hp_leases h ! l))"
  using sum_list_mset_update [of l "hp_leases h" lease_tokens "f (hp_leases h ! l)"]
  by (simp add: heap_tokens_def upd_lease_def)

lemma heap_tokens_keep:
  assumes "\<And>x. ls_resources (f x) = ls_resources x"
  shows "heap_tokens (upd_lease l f h) = heap_tokens h"
proof (cases "l < length (hp_leases h)")
  case True
  then show ?thesis using heap_tokens_upd [of l h f] by (simp add: lease_tokens_def assms)
qed (simp add: upd_lease_none)

lemma heap_tokens_simps [simp]:
  "heap_tokens (upd_attempt a g h) = heap_tokens h" "heap_tokens (emit ev h) = heap_tokens h"
  "heap_tokens (h\<lparr>hp_after := x\<rparr>) = heap_tokens h" "heap_tokens (h\<lparr>hp_canceled := y\<rparr>) = heap_tokens h"
  by (simp_all add: heap_tokens_def)

lemma released_snoc [simp]:
  "released (evs @ [Released t]) = released evs + {#t#}" "released (evs @ [Finished f v]) = released evs"
  "released [] = {#}"
  by (simp_all add: released_def List.map_filter_def)

lemma stack_tokens_simps [simp]:
  "stack_tokens [] = {#}" "stack_tokens (i # is) = item_tokens i + stack_tokens is"
  "stack_tokens (is @ js) = stack_tokens is + stack_tokens js"
  by (simp_all add: stack_tokens_def)

lemma stack_tokens_Run: "stack_tokens (map Run (rev cs)) = sum_list (map closure_tokens cs)"
  by (induction cs) (auto simp: add.commute)

lemma exec_item_tokens:
  assumes "exec_item i h = Some (js, h')"
  shows "stack_tokens js + heap_tokens h' + released (hp_log h') = item_tokens i + heap_tokens h + released (hp_log h)"
proof (cases i)
  case (Run c)
  with assms show ?thesis
    by (cases c) (auto simp: lease_Release_def attempt_Finish_def heap_tokens_keep split: if_splits once.splits option.splits)
next
  case (Own l r)
  then show ?thesis
    using assms heap_tokens_upd [of l h "\<lambda>x. x\<lparr>ls_resources := ls_resources x @ [r]\<rparr>"]
    by (auto simp: lease_Own_def lease_tokens_def split: if_splits)
next
  case (Take l)
  with assms have l: "l < length (hp_leases h)" by (auto split: if_splits)
  have "heap_tokens (upd_lease l (\<lambda>x. x\<lparr>ls_closed := True, ls_resources := [], ls_stop := None\<rparr>) h) +
      sum_list (map closure_tokens (ls_resources (hp_leases h ! l))) = heap_tokens h"
    using heap_tokens_upd [OF l, of "\<lambda>x. x\<lparr>ls_closed := True, ls_resources := [], ls_stop := None\<rparr>"]
    by (simp add: lease_tokens_def)
  with Take assms l show ?thesis
    by (auto simp: take_resources_def Let_def stack_tokens_Run ac_simps split: option.splits)
next
  case (Finish a v)
  with assms show ?thesis
    by (auto simp: attempt_Finish_def split: if_splits once.splits option.splits)
qed (use assms in \<open>auto simp: heap_tokens_keep split: if_splits\<close>)

definition all_tokens :: "'f heap \<Rightarrow> 'f item list list \<Rightarrow> nat multiset" where
  "all_tokens h ts = released (hp_log h) + heap_tokens h + sum_list (map stack_tokens ts)"

lemma NewLease_tokens:
  "NewLease ctx md rs h = (l, todo, h') \<Longrightarrow>
   stack_tokens todo = {#} \<and> hp_log h' = hp_log h \<and>
   heap_tokens h' = heap_tokens h + sum_list (map closure_tokens (List.map_filter (\<lambda>r. r) rs))"
  by (auto simp: NewLease_def Let_def heap_tokens_def lease_tokens_def split: option.splits if_splits)

lemma NewAttemptLease_tokens:
  "NewAttemptLease parent f rs h = (a, todo, h') \<Longrightarrow>
   stack_tokens todo = {#} \<and> hp_log h' = hp_log h \<and>
   heap_tokens h' = heap_tokens h + sum_list (map closure_tokens (List.map_filter (\<lambda>r. r) rs))"
  using NewLease_tokens [of None ReleaseOnCompletion rs h]
  by (auto simp: NewAttemptLease_def Let_def heap_tokens_def split: option.splits prod.splits)

lemma act_Sched_cases [consumes 1, case_names same exec]:
  assumes "act (Sched k) (h, ts) = (h', ts')"
  obtains "h' = h" "ts' = ts"
  | i "is" js where "k < length ts" "ts ! k = i # is" "exec_item i h = Some (js, h')" "ts' = ts[k := js @ is]"
  using assms by (auto split: if_splits list.splits option.splits prod.splits)

lemma act_tokens:
  assumes "act a (h, ts) = (h', ts')" and "possible a h"
  shows "all_tokens h' ts' = all_tokens h ts + handed a"
proof (cases a)
  case (Create ctx md rs)
  with assms NewLease_tokens [of ctx md rs h] show ?thesis
    by (auto simp: all_tokens_def ac_simps split: prod.splits)
next
  case (CreateAttempt parent f rs)
  with assms NewAttemptLease_tokens [of parent f rs h] show ?thesis
    by (auto simp: all_tokens_def ac_simps split: prod.splits)
next
  case (Sched k)
  with assms(1) have "act (Sched k) (h, ts) = (h', ts')" by simp
  then show ?thesis
  proof (cases rule: act_Sched_cases)
    case (exec i "is" js)
    from exec_item_tokens [OF exec(3)] sum_list_mset_update [OF exec(1), of stack_tokens "js @ is"] exec(2,4)
    have eq1: "sum_list (map stack_tokens ts') + (item_tokens i + stack_tokens is) =
        sum_list (map stack_tokens ts) + (stack_tokens js + stack_tokens is)"
      and eq2: "stack_tokens js + heap_tokens h' + released (hp_log h') = item_tokens i + heap_tokens h + released (hp_log h)"
      by simp_all
    have "all_tokens h' ts' + (item_tokens i + stack_tokens is) = all_tokens h ts + (item_tokens i + stack_tokens is)"
    proof -
      have "all_tokens h' ts' + (item_tokens i + stack_tokens is) =
          (released (hp_log h') + heap_tokens h') + (sum_list (map stack_tokens ts') + (item_tokens i + stack_tokens is))"
        by (simp add: all_tokens_def ac_simps)
      also have "\<dots> = (stack_tokens js + heap_tokens h' + released (hp_log h')) + (sum_list (map stack_tokens ts) + stack_tokens is)"
        unfolding eq1 by (simp add: ac_simps)
      also have "\<dots> = all_tokens h ts + (item_tokens i + stack_tokens is)"
        unfolding eq2 by (simp add: all_tokens_def ac_simps)
      finally show ?thesis .
    qed
    with Sched show ?thesis by simp
  qed (simp add: Sched all_tokens_def)
qed (use assms in \<open>auto simp: all_tokens_def split: if_splits\<close>)

lemma machine_tokens: "machine h ts M \<Longrightarrow> all_tokens h ts = M"
proof (induction rule: machine.induct)
  case start
  show ?case by (simp add: all_tokens_def empty_heap_def heap_tokens_def)
next
  case step
  with act_tokens show ?case by blast
qed

text \<open>What one item does to the leases.\<close>

lemma items_append [simp]: "items (ts @ us) = items ts \<union> items us" "items [] = {}" "items [t] = set t"
  by (auto simp: items_def)

lemma items_update:
  assumes "k < length ts" and "ts ! k = i # is"
  shows "items (ts[k := js @ is]) \<subseteq> items ts \<union> set js" and "items ts - {i} \<subseteq> items (ts[k := js @ is])"
    and "set js \<subseteq> items (ts[k := js @ is])" and "i \<in> items ts"
proof -
  have k: "ts ! k \<in> set ts" using assms(1) by simp
  then show "i \<in> items ts" using assms(2) unfolding items_def by (metis UN_I list.set_intros(1))
  show "items (ts[k := js @ is]) \<subseteq> items ts \<union> set js"
  proof
    fix x assume "x \<in> items (ts[k := js @ is])"
    then obtain t where "t \<in> set (ts[k := js @ is])" "x \<in> set t" by (auto simp: items_def)
    from this(1) set_update_subset_insert [of ts k "js @ is"] have "t = js @ is \<or> t \<in> set ts" by blast
    with \<open>x \<in> set t\<close> k assms(2) have "x \<in> set js \<or> (\<exists>u \<in> set ts. x \<in> set u)"
      by (metis Un_iff list.set_intros(2) set_append)
    then show "x \<in> items ts \<union> set js" by (auto simp: items_def)
  qed
  show "set js \<subseteq> items (ts[k := js @ is])"
    using set_update_memI [OF assms(1), of "js @ is"] unfolding items_def by auto
  show "items ts - {i} \<subseteq> items (ts[k := js @ is])"
  proof
    fix x assume "x \<in> items ts - {i}"
    then obtain t where "t \<in> set ts" "x \<in> set t" "x \<noteq> i" by (auto simp: items_def)
    then obtain m where m: "m < length ts" "x \<in> set (ts ! m)" "x \<noteq> i" by (metis in_set_conv_nth)
    then have "x \<in> set (ts[k := js @ is] ! m)" using assms by (cases "m = k") auto
    with m(1) show "x \<in> items (ts[k := js @ is])" unfolding items_def
      by (metis UN_I length_list_update nth_mem)
  qed
qed

lemma upd_lease_member:
  "x \<in> set (hp_leases (upd_lease l f h)) \<Longrightarrow> x \<in> set (hp_leases h) \<or> l < length (hp_leases h) \<and> x = f (hp_leases h ! l)"
  by (cases "l < length (hp_leases h)")
    (use set_update_subset_insert [of "hp_leases h" l "f (hp_leases h ! l)"] in \<open>auto simp: upd_lease_def list_update_beyond\<close>)

lemma exec_item_lengths:
  assumes "exec_item i h = Some (js, h')"
  shows "length (hp_leases h') = length (hp_leases h) \<and> length (hp_attempts h') = length (hp_attempts h)"
proof (cases i)
  case (Run c)
  with assms show ?thesis by (cases c) (auto simp: lease_Release_def attempt_Finish_def split: if_splits once.splits)
qed (use assms in \<open>auto simp: lease_Own_def take_resources_def Let_def attempt_Finish_def split: if_splits once.splits\<close>)

lemma item_ok_mono:
  "length (hp_leases h) \<le> length (hp_leases h') \<Longrightarrow> length (hp_attempts h) \<le> length (hp_attempts h') \<Longrightarrow>
   item_ok h i \<Longrightarrow> item_ok h' i"
  by (cases i) auto

lemma exec_item_ok:
  assumes "exec_item i h = Some (js, h')" and "item_ok h i" and "j \<in> set js"
  shows "item_ok h' j"
proof (cases i)
  case (Run c)
  with assms show ?thesis
    by (cases c) (auto simp: lease_Release_def attempt_Finish_def split: if_splits once.splits option.splits)
qed (use assms in \<open>auto simp: lease_Own_def take_resources_def Let_def attempt_Finish_def split: if_splits once.splits option.splits\<close>)

lemma exec_item_closed:
  assumes "exec_item i h = Some (js, h')"
    and "\<forall>x \<in> set (hp_leases h). ls_closed x \<longrightarrow> ls_resources x = []"
  shows "\<forall>x \<in> set (hp_leases h'). ls_closed x \<longrightarrow> ls_resources x = []"
proof (cases i)
  case (Run c)
  with assms show ?thesis
    by (cases c) (auto simp: lease_Release_def attempt_Finish_def split: if_splits once.splits dest!: upd_lease_member)
qed (use assms in \<open>auto simp: lease_Own_def take_resources_def Let_def attempt_Finish_def
      split: if_splits once.splits dest!: upd_lease_member\<close>)

lemma exec_item_begun:
  assumes "exec_item i h = Some (js, h')" and "item_ok h i" and "l < length (hp_leases h)"
    and "ls_once (hp_leases h' ! l) \<noteq> Fresh"
    and "ls_once (hp_leases h ! l) \<noteq> Fresh \<Longrightarrow> ls_closed (hp_leases h ! l) \<or> Take l \<in> S"
    and "set js \<subseteq> S'" and "S - {i} \<subseteq> S'" and "\<And>k. i = EndOnce k \<Longrightarrow> ls_once (hp_leases h ! k) \<noteq> Fresh"
  shows "ls_closed (hp_leases h' ! l) \<or> Take l \<in> S'"
proof (cases i)
  case (Run c)
  with assms show ?thesis
    by (cases c) (auto simp: lease_Release_def attempt_Finish_def split: if_splits once.splits)
qed (use assms in \<open>auto simp: lease_Own_def take_resources_def Let_def attempt_Finish_def split: if_splits once.splits\<close>)

lemma exec_item_once:
  assumes "exec_item i h = Some (js, h')" and "item_ok h i"
    and "\<And>k. i = Take k \<or> i = EndOnce k \<Longrightarrow> ls_once (hp_leases h ! k) \<noteq> Fresh"
  shows "ls_once (hp_leases h ! l) \<noteq> Fresh \<Longrightarrow> ls_once (hp_leases h' ! l) \<noteq> Fresh"
    and "Take l \<in> set js \<or> EndOnce l \<in> set js \<Longrightarrow> ls_once (hp_leases h' ! l) \<noteq> Fresh"
proof -
  have keep: "ls_once (hp_leases (upd_lease k f h) ! l) \<noteq> Fresh"
    if "ls_once (hp_leases h ! l) \<noteq> Fresh" and "ls_once (f (hp_leases h ! l)) \<noteq> Fresh" for k f
    using that by (cases "k < length (hp_leases h)"; cases "k = l") (simp_all add: upd_lease_none)
  show "ls_once (hp_leases h ! l) \<noteq> Fresh \<Longrightarrow> ls_once (hp_leases h' ! l) \<noteq> Fresh"
  proof (cases i)
    case (Run c)
    assume "ls_once (hp_leases h ! l) \<noteq> Fresh"
    with Run assms keep show ?thesis
      by (cases c) (auto simp: lease_Release_def attempt_Finish_def split: if_splits once.splits)
  qed (use assms keep in \<open>auto simp: lease_Own_def take_resources_def Let_def attempt_Finish_def
        split: if_splits once.splits\<close>)
  show "Take l \<in> set js \<or> EndOnce l \<in> set js \<Longrightarrow> ls_once (hp_leases h' ! l) \<noteq> Fresh"
  proof (cases i)
    case (Run c)
    assume "Take l \<in> set js \<or> EndOnce l \<in> set js"
    with Run assms show ?thesis
      by (cases c) (auto simp: lease_Release_def attempt_Finish_def split: if_splits once.splits option.splits)
  qed (use assms in \<open>auto simp: lease_Own_def take_resources_def Let_def attempt_Finish_def
        split: if_splits once.splits option.splits\<close>)
qed

lemma lease_inv_Sched:
  assumes inv: "lease_inv h ts" and "act (Sched k) (h, ts) = (h', ts')"
  shows "lease_inv h' ts'"
  using assms(2)
proof (cases rule: act_Sched_cases)
  case same
  with inv show ?thesis by simp
next
  case (exec i "is" js)
  note it = items_update(1-3) [OF exec(1,2), where js = js, folded exec(4)] items_update(4) [OF exec(1,2)]
  have ok: "item_ok h i" using inv it(4) by (auto simp: lease_inv_def)
  have begun: "i = Take k \<or> i = EndOnce k \<Longrightarrow> ls_once (hp_leases h ! k) \<noteq> Fresh" for k
    using inv it(4) by (auto simp: lease_inv_def)
  note len = exec_item_lengths [OF exec(3)]
  have "item_ok h' j" if "j \<in> items ts'" for j
  proof (cases "j \<in> set js")
    case False
    with that it(1) inv have "item_ok h j" unfolding lease_inv_def by blast
    with item_ok_mono [of h h' j] len show ?thesis by simp
  qed (rule exec_item_ok [OF exec(3) ok])
  moreover have "\<forall>x \<in> set (hp_leases h'). ls_closed x \<longrightarrow> ls_resources x = []"
    by (rule exec_item_closed [OF exec(3)]) (use inv in \<open>simp add: lease_inv_def\<close>)
  moreover have "ls_closed (hp_leases h' ! l) \<or> Take l \<in> items ts'"
    if "l < length (hp_leases h')" "ls_once (hp_leases h' ! l) \<noteq> Fresh" for l
  proof (rule exec_item_begun [OF exec(3) ok _ that(2), where S = "items ts"])
    show "ls_once (hp_leases h ! l) \<noteq> Fresh \<Longrightarrow> ls_closed (hp_leases h ! l) \<or> Take l \<in> items ts"
      using inv that(1) len by (simp add: lease_inv_def)
  qed (use that len it begun in auto)
  moreover have "ls_once (hp_leases h' ! l) \<noteq> Fresh" if "Take l \<in> items ts' \<or> EndOnce l \<in> items ts'" for l
    using that it(1) exec_item_once [OF exec(3) ok begun] inv unfolding lease_inv_def by blast
  ultimately show ?thesis by (simp add: lease_inv_def)
qed

lemma NewLease_inv:
  assumes "NewLease ctx md rs h = (l, todo, h')" and "lease_inv h ts"
  shows "lease_inv h' (ts @ [todo])" and "hp_attempts h' = hp_attempts h"
    and "length (hp_leases h') = Suc (length (hp_leases h))" and "ctx = None \<Longrightarrow> todo = []"
proof -
  let ?x = "\<lparr>ls_closed = False, ls_resources = List.map_filter (\<lambda>r. r) rs, ls_stop = None, ls_once = Fresh\<rparr>"
  have leases: "hp_leases h' = hp_leases h @ [?x]" "hp_attempts h' = hp_attempts h"
    and todo: "todo = (case ctx of Some c \<Rightarrow> if md = ReleaseOnCancel then [AfterFunc c l, SetStop c l] else [] | None \<Rightarrow> [])"
    and l: "l = length (hp_leases h)"
    using assms(1) by (auto simp: NewLease_def Let_def)
  have new: "item_ok h' j \<and> (\<forall>k. j \<noteq> Take k \<and> j \<noteq> EndOnce k)" if "j \<in> set todo" for j
    using that by (auto simp: todo l leases split: option.splits if_splits)
  have old: "k < length (hp_leases h)" if "Take k \<in> items ts \<or> EndOnce k \<in> items ts" for k
    using that assms(2) unfolding lease_inv_def by (metis item_ok.simps(2,3))
  show "lease_inv h' (ts @ [todo])"
    using assms(2) new old item_ok_mono [of h h'] unfolding lease_inv_def
    by (auto simp: leases nth_append split: if_splits)
  show "hp_attempts h' = hp_attempts h" by (fact leases)
  show "length (hp_leases h') = Suc (length (hp_leases h))" by (simp add: leases)
  show "ctx = None \<Longrightarrow> todo = []" by (simp add: todo)
qed

lemma lease_inv_more:
  assumes "lease_inv h ts" and "hp_leases h' = hp_leases h" and "length (hp_attempts h) \<le> length (hp_attempts h')"
    and "\<And>j. j \<in> set todo \<Longrightarrow> item_ok h' j" and "\<And>k. Take k \<notin> set todo \<and> EndOnce k \<notin> set todo"
  shows "lease_inv h' (ts @ [todo])"
  using assms item_ok_mono [of h h'] unfolding lease_inv_def by auto

lemma act_lease_inv:
  assumes "lease_inv h ts" and "act a (h, ts) = (h', ts')"
  shows "lease_inv h' ts'"
proof (cases a)
  case (Create ctx md rs)
  with assms NewLease_inv [of ctx md rs h] show ?thesis by (auto split: prod.splits)
next
  case (CreateAttempt parent f rs)
  obtain l todo h1 where new: "NewLease None ReleaseOnCompletion rs h = (l, todo, h1)" by (metis prod_cases3)
  note h1 = NewLease_inv [OF new assms(1)]
  show ?thesis
  proof (cases "\<forall>p \<in> set_option parent. p < length (hp_leases h)")
    case True
    define own :: "'a item list" where
      "own = (case parent of Some p \<Rightarrow> [Own p (AttemptRelease (length (hp_attempts h1)))] | None \<Rightarrow> [])"
    from True assms(2) CreateAttempt new h1(4)
    have res: "ts' = ts @ [own]" "hp_leases h' = hp_leases h1" "length (hp_attempts h1) \<le> length (hp_attempts h')"
      by (auto simp: NewAttemptLease_def Let_def own_def)
    have "lease_inv h1 ts" using h1(1,4) by (auto simp: lease_inv_def)
    then show ?thesis unfolding res(1)
      by (rule lease_inv_more) (use True res h1(3) in \<open>auto simp: own_def split: option.splits\<close>)
  qed (use assms CreateAttempt in auto)
next
  case (Call i)
  then show ?thesis
    using assms by (cases i) (auto intro!: lease_inv_more split: if_splits)
next
  case (Sched k)
  with lease_inv_Sched assms show ?thesis by blast
next
  case (Fire k)
  with assms show ?thesis by (auto intro!: lease_inv_more split: if_splits)
next
  case (Cancel c)
  with assms have "h' = h\<lparr>hp_canceled := c # hp_canceled h\<rparr>" "ts' = ts" by auto
  with assms(1) item_ok_mono [of h h'] show ?thesis by (auto simp: lease_inv_def)
qed

lemma machine_inv: "machine h ts M \<Longrightarrow> lease_inv h ts"
proof (induction rule: machine.induct)
  case start
  show ?case by (simp add: lease_inv_def empty_heap_def)
next
  case step
  with act_lease_inv show ?case by blast
qed

text \<open>
  C8: under every interleaving of any number of goroutines and every moment of cancellation, a
  resource handed to leases and attempts is never released more often than it was handed over, and
  once nothing runs and every lease has had its first \<open>Release\<close>, each has been released exactly as
  often: nothing leaks and nothing is released twice.
\<close>

theorem released_exactly_once:
  assumes "machine h ts M"
  shows "released (hp_log h) \<subseteq># M \<and>
    ((\<forall>t \<in> set ts. t = []) \<and> (\<forall>x \<in> set (hp_leases h). ls_once x \<noteq> Fresh) \<longrightarrow> released (hp_log h) = M)"
proof -
  from machine_tokens [OF assms] have M: "M = released (hp_log h) + heap_tokens h + sum_list (map stack_tokens ts)"
    by (simp add: all_tokens_def)
  have "released (hp_log h) = M"
    if idle: "\<forall>t \<in> set ts. t = []" and all: "\<forall>x \<in> set (hp_leases h). ls_once x \<noteq> Fresh"
  proof -
    have none: "items ts = {}" using idle by (auto simp: items_def)
    have "ls_resources x = []" if "x \<in> set (hp_leases h)" for x
      using machine_inv [OF assms] that all none unfolding lease_inv_def
      by (metis empty_iff in_set_conv_nth)
    then have "\<forall>m \<in> set (map lease_tokens (hp_leases h)). m = {#}" by (simp add: lease_tokens_def)
    then have "heap_tokens h = {#}" unfolding heap_tokens_def by (rule sum_list_empty)
    moreover have "sum_list (map stack_tokens ts) = {#}" using idle by (induction ts) auto
    ultimately show ?thesis by (simp add: M)
  qed
  with M show ?thesis by (auto simp: subset_mset.le_iff_add ac_simps)
qed

text \<open>Playing a list of actions, for concrete runs.\<close>

fun play :: "'f action list \<Rightarrow> 'f heap \<times> 'f item list list \<Rightarrow> nat multiset \<Rightarrow> ('f heap \<times> 'f item list list) \<times> nat multiset" where
  "play [] s M = (s, M)"
| "play (a # as) s M = (if possible a (fst s) then play as (act a s) (M + handed a) else play as s M)"

lemma play_machine:
  "machine h ts M \<Longrightarrow> play as (h, ts) M = ((h', ts'), M') \<Longrightarrow> machine h' ts' M'"
proof (induction as arbitrary: h ts M)
  case (Cons a as)
  show ?case
  proof (cases "possible a h")
    case True
    obtain h1 ts1 where act: "act a (h, ts) = (h1, ts1)" by fastforce
    with Cons.IH [OF machine.step [OF Cons.prems(1) True act]] Cons.prems(2) True show ?thesis by simp
  qed (use Cons in auto)
qed simp

text \<open>A client disconnects while its handler releases: the two goroutines run in turns.\<close>

definition race :: "unit action list" where
  "race = [Create (Some 0) ReleaseOnCancel [Some (Ext 1), None, Some (Ext 2)], Sched 0, Sched 0, Cancel 0, Fire 0,
     Call (Run (LeaseRelease 0)), Sched 1, Sched 2, Sched 1, Sched 2, Sched 1, Sched 1, Sched 1, Sched 1, Sched 2]"

lemma race_result:
  "play race (empty_heap, []) {#} =
     ((\<lparr>hp_leases = [\<lparr>ls_closed = True, ls_resources = [], ls_stop = None, ls_once = Done\<rparr>], hp_attempts = [],
        hp_after = [], hp_canceled = [0], hp_log = [Released 2, Released 1]\<rparr>, [[], [], []]), {#1, 2#})"
  by (simp add: race_def empty_heap_def NewLease_def List.map_filter_def lease_Release_def take_resources_def
      upd_lease_def emit_def)

lemma released_exactly_once_witness:
  "released [Released 2, Released 1 :: unit event] = {#1, 2#}"
proof -
  from released_exactly_once [OF play_machine [OF machine.start race_result]] show ?thesis by simp
qed

section \<open>The order of release\<close>

lemma run_items_append:
  "run_items (is @ js) h = (case run_items is h of None \<Rightarrow> None | Some h' \<Rightarrow> run_items js h')"
proof (induction "is" h rule: run_items.induct)
  case (2 i "is" h)
  then show ?case by (auto split: option.splits)
qed simp

lemma run_Ext: "run_items (map (\<lambda>t. Run (Ext t)) ts) h = Some (h\<lparr>hp_log := hp_log h @ map Released ts\<rparr>)"
  by (induction ts arbitrary: h) (auto simp: emit_def)

text \<open>
  One goroutine alone: the first \<open>Release\<close> runs the resources of a lease in the reverse order of
  their acquisition and closes it; a resource that arrives later is given back at once; a second
  \<open>Release\<close> does nothing.
\<close>

theorem release_in_reverse_order:
  assumes "l < length (hp_leases h)"
    and "hp_leases h ! l = \<lparr>ls_closed = False, ls_resources = map Ext ts, ls_stop = None, ls_once = Fresh\<rparr>"
  shows "run_items [Run (LeaseRelease l), Own l (Ext t), Run (LeaseRelease l)] h =
    Some (upd_lease l (\<lambda>x. \<lparr>ls_closed = True, ls_resources = [], ls_stop = None, ls_once = Done\<rparr>)
      (h\<lparr>hp_log := hp_log h @ map Released (rev ts) @ [Released t]\<rparr>))"
proof -
  let ?f = "\<lambda>h. upd_lease l (\<lambda>x. \<lparr>ls_closed = True, ls_resources = [], ls_stop = None, ls_once = Done\<rparr>) h"
  have first: "run_items (Run (LeaseRelease l) # is) h =
      run_items (map (\<lambda>t. Run (Ext t)) (rev ts) @ EndOnce l # is)
        (upd_lease l (\<lambda>x. \<lparr>ls_closed = True, ls_resources = [], ls_stop = None, ls_once = Running\<rparr>) h)" for "is"
    using assms by (simp add: lease_Release_def take_resources_def Let_def upd_lease_def rev_map comp_def)
  show ?thesis
    unfolding first
    using assms by (simp add: run_items_append run_Ext upd_lease_def lease_Own_def lease_Release_def emit_def)
qed

lemma release_in_reverse_order_witness:
  "run_items [Run (LeaseRelease 0), Own 0 (Ext 3), Run (LeaseRelease 0)]
     (\<lparr>hp_leases = [\<lparr>ls_closed = False, ls_resources = [Ext 1, Ext 2], ls_stop = None, ls_once = Fresh\<rparr>],
       hp_attempts = [], hp_after = [], hp_canceled = [], hp_log = []\<rparr> :: unit heap) =
   Some \<lparr>hp_leases = [\<lparr>ls_closed = True, ls_resources = [], ls_stop = None, ls_once = Done\<rparr>],
       hp_attempts = [], hp_after = [], hp_canceled = [], hp_log = [Released 2, Released 1, Released 3]\<rparr>"
  using release_in_reverse_order [where l = 0 and ts = "[1, 2]" and t = 3 and
      h = "\<lparr>hp_leases = [\<lparr>ls_closed = False, ls_resources = [Ext 1, Ext 2], ls_stop = None, ls_once = Fresh\<rparr>],
       hp_attempts = [], hp_after = [], hp_canceled = [], hp_log = []\<rparr> :: unit heap"]
  by (simp add: upd_lease_def)

end
