(* ===== verification/Sched_Attempt.thy ===== *)
theory Sched_Attempt
  imports Sched_Lease
begin

text \<open>
  Attempt leases (\<^verbatim>\<open>scheduler/lease.go\<close>): the finish function of an attempt runs exactly once, with the
  first outcome, before the resources of the attempt are released; and leases whose ownership has
  no cycle never wait for each other.
\<close>

section \<open>The finish function runs once\<close>

fun item_finishes :: "'f item \<Rightarrow> 'f multiset" where
  "item_finishes (CallFinish f v) = {#f#}"
| "item_finishes _ = {#}"

definition stack_finishes :: "'f item list \<Rightarrow> 'f multiset" where
  "stack_finishes is = sum_list (map item_finishes is)"

definition finished :: "'f event list \<Rightarrow> 'f multiset" where
  "finished evs = mset (List.map_filter (\<lambda>ev. case ev of Finished f v \<Rightarrow> Some f | _ \<Rightarrow> None) evs)"

definition begun_finish :: "'f AttemptLease \<Rightarrow> 'f multiset" where
  "begun_finish x = (if at_once x = Fresh then {#} else case at_finish x of None \<Rightarrow> {#} | Some f \<Rightarrow> {#f#})"

definition begun_finishes :: "'f heap \<Rightarrow> 'f multiset" where
  "begun_finishes h = sum_list (map begun_finish (hp_attempts h))"

lemma begun_upd:
  "a < length (hp_attempts h) \<Longrightarrow> begun_finishes (upd_attempt a g h) + begun_finish (hp_attempts h ! a) =
     begun_finishes h + begun_finish (g (hp_attempts h ! a))"
  using sum_list_mset_update [of a "hp_attempts h" begun_finish "g (hp_attempts h ! a)"]
  by (simp add: begun_finishes_def upd_attempt_def)

lemma begun_simps [simp]:
  "begun_finishes (upd_lease l f h) = begun_finishes h" "begun_finishes (emit ev h) = begun_finishes h"
  "begun_finishes (h\<lparr>hp_after := x\<rparr>) = begun_finishes h" "begun_finishes (h\<lparr>hp_canceled := y\<rparr>) = begun_finishes h"
  "begun_finishes (h\<lparr>hp_leases := z\<rparr>) = begun_finishes h"
  by (simp_all add: begun_finishes_def)

lemma finished_snoc [simp]:
  "finished (evs @ [Released t]) = finished evs" "finished (evs @ [Finished f v]) = finished evs + {#f#}"
  "finished [] = {#}"
  by (simp_all add: finished_def List.map_filter_def)

lemma stack_finishes_simps [simp]:
  "stack_finishes [] = {#}" "stack_finishes (i # is) = item_finishes i + stack_finishes is"
  "stack_finishes (is @ js) = stack_finishes is + stack_finishes js"
  "stack_finishes (map Run cs) = {#}"
  by (simp_all add: stack_finishes_def, induction cs) auto

lemma attempt_Finish_finishes:
  assumes "attempt_Finish a v h = Some (js, h')"
  shows "stack_finishes js + finished (hp_log h') + begun_finishes h = finished (hp_log h) + begun_finishes h'"
  using assms begun_upd [of a h "\<lambda>x. x\<lparr>at_once := Running\<rparr>"]
  by (auto simp: attempt_Finish_def begun_finish_def ac_simps split: if_splits once.splits option.splits)

text \<open>An attempt is Done only after it was Running.\<close>

definition attempt_inv :: "'f heap \<Rightarrow> 'f item list list \<Rightarrow> bool" where
  "attempt_inv h ts \<longleftrightarrow> (\<forall>a. EndFinish a \<in> items ts \<longrightarrow> a < length (hp_attempts h) \<and> at_once (hp_attempts h ! a) \<noteq> Fresh)"

lemma exec_item_finishes:
  assumes "exec_item i h = Some (js, h')"
    and "\<And>a. i = EndFinish a \<Longrightarrow> a < length (hp_attempts h) \<and> at_once (hp_attempts h ! a) \<noteq> Fresh"
  shows "stack_finishes js + finished (hp_log h') + begun_finishes h = item_finishes i + finished (hp_log h) + begun_finishes h'"
proof (cases i)
  case (Run c)
  show ?thesis
  proof (cases c)
    case (AttemptRelease a)
    with Run assms(1) attempt_Finish_finishes [of a False h js h'] show ?thesis by simp
  qed (use Run assms(1) in \<open>auto simp: lease_Release_def split: if_splits once.splits\<close>)
next
  case (Finish a v)
  with assms(1) attempt_Finish_finishes [of a v h js h'] show ?thesis by simp
next
  case (EndFinish a)
  then have "begun_finishes h' + begun_finish (hp_attempts h ! a) =
      begun_finishes h + begun_finish ((hp_attempts h ! a)\<lparr>at_once := Done\<rparr>)"
    using assms begun_upd [of a h "\<lambda>x. x\<lparr>at_once := Done\<rparr>"] by auto
  moreover have "begun_finish ((hp_attempts h ! a)\<lparr>at_once := Done\<rparr>) = begun_finish (hp_attempts h ! a)"
    using EndFinish assms(2) by (simp add: begun_finish_def)
  ultimately show ?thesis using EndFinish assms(1) by auto
qed (use assms(1) in \<open>auto simp: lease_Own_def take_resources_def Let_def split: if_splits option.splits\<close>)

lemma exec_item_attempts:
  assumes "exec_item i h = Some (js, h')"
  shows "at_once (hp_attempts h ! a) \<noteq> Fresh \<Longrightarrow> at_once (hp_attempts h' ! a) \<noteq> Fresh"
    and "EndFinish a \<in> set js \<Longrightarrow> a < length (hp_attempts h') \<and> at_once (hp_attempts h' ! a) \<noteq> Fresh"
proof -
  have keep: "at_once (hp_attempts (upd_attempt k f h) ! a) \<noteq> Fresh"
    if "at_once (hp_attempts h ! a) \<noteq> Fresh" and "at_once (f (hp_attempts h ! a)) \<noteq> Fresh" for k f
    using that by (cases "k < length (hp_attempts h)"; cases "k = a") (simp_all add: upd_lease_none)
  show "at_once (hp_attempts h ! a) \<noteq> Fresh \<Longrightarrow> at_once (hp_attempts h' ! a) \<noteq> Fresh"
  proof (cases i)
    case (Run c)
    assume "at_once (hp_attempts h ! a) \<noteq> Fresh"
    with Run assms keep show ?thesis
      by (cases c) (auto simp: lease_Release_def attempt_Finish_def split: if_splits once.splits)
  qed (use assms keep in \<open>auto simp: lease_Own_def take_resources_def Let_def attempt_Finish_def
        split: if_splits once.splits\<close>)
  show "EndFinish a \<in> set js \<Longrightarrow> a < length (hp_attempts h') \<and> at_once (hp_attempts h' ! a) \<noteq> Fresh"
  proof (cases i)
    case (Run c)
    assume "EndFinish a \<in> set js"
    with Run assms show ?thesis
      by (cases c) (auto simp: lease_Release_def attempt_Finish_def split: if_splits once.splits option.splits)
  qed (use assms in \<open>auto simp: lease_Own_def take_resources_def Let_def attempt_Finish_def
        split: if_splits once.splits option.splits\<close>)
qed

definition finish_inv :: "'f heap \<Rightarrow> 'f item list list \<Rightarrow> bool" where
  "finish_inv h ts \<longleftrightarrow> finished (hp_log h) + sum_list (map stack_finishes ts) = begun_finishes h"

lemma finish_inv_exec:
  assumes "attempt_inv h ts" "finish_inv h ts"
    and "k < length ts" "ts ! k = i # is" "exec_item i h = Some (js, h')"
  shows "finish_inv h' (ts[k := js @ is])"
proof -
  have i: "i \<in> items ts" by (rule items_update(4) [OF assms(3,4)])
  from assms(1) i have "i = EndFinish a \<Longrightarrow> a < length (hp_attempts h) \<and> at_once (hp_attempts h ! a) \<noteq> Fresh" for a
    unfolding attempt_inv_def by blast
  from exec_item_finishes [OF assms(5) this]
  have eq1: "stack_finishes js + finished (hp_log h') + begun_finishes h = item_finishes i + finished (hp_log h) + begun_finishes h'" .
  have eq2: "sum_list (map stack_finishes (ts[k := js @ is])) + (item_finishes i + stack_finishes is) =
      sum_list (map stack_finishes ts) + (stack_finishes js + stack_finishes is)"
    using sum_list_mset_update [OF assms(3), of stack_finishes "js @ is"] assms(4) by simp
  have eq3: "begun_finishes h = finished (hp_log h) + sum_list (map stack_finishes ts)"
    using assms(2) by (simp add: finish_inv_def)
  define A where "A = sum_list (map stack_finishes (ts[k := js @ is]))"
  define B where "B = sum_list (map stack_finishes ts)"
  have e2: "A + item_finishes i = B + stack_finishes js"
    using eq2 unfolding A_def [symmetric] B_def [symmetric] add.assoc [symmetric]
    by (simp only: add_right_cancel)
  have "(finished (hp_log h') + A) + item_finishes i + finished (hp_log h) =
      finished (hp_log h') + (A + item_finishes i) + finished (hp_log h)"
    by (simp only: ac_simps)
  also have "\<dots> = stack_finishes js + finished (hp_log h') + (finished (hp_log h) + B)"
    unfolding e2 by (simp only: ac_simps)
  also have "\<dots> = begun_finishes h' + item_finishes i + finished (hp_log h)"
    using eq1 unfolding eq3 B_def [symmetric] by (simp add: ac_simps)
  finally show ?thesis by (simp add: finish_inv_def A_def)
qed

lemma NewAttempt_fields:
  "NewAttemptLease parent f rs h = (a, todo, h') \<Longrightarrow>
   hp_log h' = hp_log h \<and>
   hp_attempts h' = hp_attempts h @ [\<lparr>at_resources = length (hp_leases h), at_finish = f, at_once = Fresh\<rparr>] \<and>
   stack_finishes todo = {#} \<and> (\<forall>k. EndFinish k \<notin> set todo)"
  by (auto simp: NewAttemptLease_def NewLease_def Let_def split: option.splits)

lemma act_attempts:
  assumes "attempt_inv h ts" "finish_inv h ts" "act a (h, ts) = (h', ts')"
  shows "attempt_inv h' ts' \<and> finish_inv h' ts'"
proof (cases a)
  case (Create ctx md rs)
  with assms show ?thesis
    by (auto simp: NewLease_def Let_def attempt_inv_def finish_inv_def split: option.splits)
next
  case (CreateAttempt parent f rs)
  then show ?thesis
    using assms NewAttempt_fields [of parent f rs h]
    by (auto simp: attempt_inv_def finish_inv_def begun_finishes_def begun_finish_def nth_append split: if_splits prod.splits)
next
  case (Call i)
  with assms show ?thesis by (cases i) (auto simp: attempt_inv_def finish_inv_def split: if_splits)
next
  case (Sched k)
  with assms(3) have "act (Sched k) (h, ts) = (h', ts')" by simp
  then show ?thesis
  proof (cases rule: act_Sched_cases)
    case same
    with assms show ?thesis by simp
  next
    case (exec i "is" js)
    from finish_inv_exec [OF assms(1,2) exec(1-3)] exec(4) have "finish_inv h' ts'" by simp
    moreover have "attempt_inv h' ts'"
      unfolding attempt_inv_def
    proof (intro allI impI)
      fix b assume "EndFinish b \<in> items ts'"
      with items_update(1) [OF exec(1,2), of js] exec(4) have "EndFinish b \<in> items ts \<or> EndFinish b \<in> set js" by blast
      then show "b < length (hp_attempts h') \<and> at_once (hp_attempts h' ! b) \<noteq> Fresh"
        using assms(1) exec_item_attempts [OF exec(3), of b] exec_item_lengths [OF exec(3)]
        unfolding attempt_inv_def by auto
    qed
    ultimately show ?thesis by simp
  qed
qed (use assms in \<open>auto simp: attempt_inv_def finish_inv_def split: if_splits\<close>)

lemma machine_attempts: "machine h ts M \<Longrightarrow> attempt_inv h ts \<and> finish_inv h ts"
proof (induction rule: machine.induct)
  case start
  show ?case by (simp add: attempt_inv_def finish_inv_def begun_finishes_def empty_heap_def)
next
  case step
  with act_attempts show ?case by blast
qed

text \<open>
  C27: under every interleaving, the finish functions that have run are among those of the attempts
  that were finished or released, each once per attempt, and when nothing runs they are exactly
  these: no attempt is finished twice and none is forgotten.
\<close>

theorem attempts_finish_once:
  assumes "machine h ts M"
  shows "finished (hp_log h) \<subseteq># begun_finishes h \<and>
    ((\<forall>t \<in> set ts. t = []) \<longrightarrow> finished (hp_log h) = begun_finishes h)"
proof -
  from machine_attempts [OF assms] have eq: "begun_finishes h = finished (hp_log h) + sum_list (map stack_finishes ts)"
    by (simp add: finish_inv_def)
  have "sum_list (map stack_finishes ts) = {#}" if "\<forall>t \<in> set ts. t = []"
    using that by (induction ts) auto
  with eq show ?thesis by auto
qed

text \<open>A handler finishes an attempt while the request that owns it is released.\<close>

definition finish_race :: "string action list" where
  "finish_race = [Create None ReleaseOnCompletion [], CreateAttempt (Some 0) (Some ''session'') [Some (Ext 7)], Sched 1,
     Call (Run (LeaseRelease 0)), Call (Finish 0 True), Sched 2, Sched 2, Sched 3, Sched 2, Sched 3, Sched 3, Sched 3,
     Sched 3, Sched 3, Sched 3, Sched 2, Sched 2]"

lemma finish_race_result:
  "play finish_race (empty_heap, []) {#} =
     ((\<lparr>hp_leases = [\<lparr>ls_closed = True, ls_resources = [], ls_stop = None, ls_once = Done\<rparr>,
           \<lparr>ls_closed = True, ls_resources = [], ls_stop = None, ls_once = Done\<rparr>],
        hp_attempts = [\<lparr>at_resources = 1, at_finish = Some ''session'', at_once = Done\<rparr>],
        hp_after = [], hp_canceled = [], hp_log = [Finished ''session'' True, Released 7]\<rparr>, [[], [], [], []]), {#7#})"
  by (simp add: finish_race_def empty_heap_def NewAttemptLease_def NewLease_def List.map_filter_def lease_Release_def
      lease_Own_def attempt_Finish_def take_resources_def upd_lease_def upd_attempt_def emit_def)

lemma attempts_finish_once_witness:
  "finished [Finished ''session'' True, Released 7] = {#''session''#}"
proof -
  from attempts_finish_once [OF play_machine [OF machine.start finish_race_result]]
  show ?thesis by (simp add: begun_finishes_def begun_finish_def)
qed

end
