(* ===== verification/Sched_Progress.thy ===== *)
theory Sched_Progress
  imports Sched_Attempt
begin

text \<open>
  Leases and attempts whose ownership has no cycle (\<^verbatim>\<open>scheduler/lease.go\<close>) never block each other:
  as long as there is something to run, some goroutine can run. A cycle is excluded by a rank: what
  a lease or an attempt releases has a lower rank than itself.
\<close>

fun below :: "(nat \<Rightarrow> nat) \<Rightarrow> (nat \<Rightarrow> nat) \<Rightarrow> closure \<Rightarrow> nat \<Rightarrow> bool" where
  "below rl ra (Ext t) n = True"
| "below rl ra (LeaseRelease l) n = (rl l < n)"
| "below rl ra (AttemptRelease a) n = (ra a < n)"

text \<open>The rank an action has to respect.\<close>

fun ranked :: "(nat \<Rightarrow> nat) \<Rightarrow> (nat \<Rightarrow> nat) \<Rightarrow> 'f action \<Rightarrow> 'f heap \<Rightarrow> bool" where
  "ranked rl ra (Create ctx md rs) h =
     (\<forall>r \<in> set (List.map_filter (\<lambda>r. r) rs). below rl ra r (rl (length (hp_leases h))))"
| "ranked rl ra (CreateAttempt parent f rs) h =
     ((\<forall>r \<in> set (List.map_filter (\<lambda>r. r) rs). below rl ra r (rl (length (hp_leases h)))) \<and>
      rl (length (hp_leases h)) < ra (length (hp_attempts h)) \<and>
      (\<forall>p \<in> set_option parent. ra (length (hp_attempts h)) < rl p))"
| "ranked rl ra (Call (Own l r)) h = below rl ra r (rl l)"
| "ranked rl ra _ h = True"

inductive ranked_machine :: "(nat \<Rightarrow> nat) \<Rightarrow> (nat \<Rightarrow> nat) \<Rightarrow> 'f heap \<Rightarrow> 'f item list list \<Rightarrow> bool"
  for rl ra where
  start: "ranked_machine rl ra empty_heap []"
| step: "\<lbrakk>ranked_machine rl ra h ts; possible a h; ranked rl ra a h; act a (h, ts) = (h', ts')\<rbrakk>
    \<Longrightarrow> ranked_machine rl ra h' ts'"

lemma ranked_machine_machine: "ranked_machine rl ra h ts \<Longrightarrow> \<exists>M. machine h ts M"
  by (induction rule: ranked_machine.induct) (auto intro: machine.intros)

section \<open>The shape of a stack\<close>

text \<open>The marker of a running release or finish, with its rank.\<close>

fun marker :: "(nat \<Rightarrow> nat) \<Rightarrow> (nat \<Rightarrow> nat) \<Rightarrow> 'f item \<Rightarrow> nat option" where
  "marker rl ra (Take l) = Some (rl l)"
| "marker rl ra (EndOnce l) = Some (rl l)"
| "marker rl ra (EndFinish a) = Some (ra a)"
| "marker rl ra _ = None"

fun item_below :: "(nat \<Rightarrow> nat) \<Rightarrow> (nat \<Rightarrow> nat) \<Rightarrow> 'f item \<Rightarrow> nat \<Rightarrow> bool" where
  "item_below rl ra (Run c) n = below rl ra c n"
| "item_below rl ra (Take l) n = (rl l < n)"
| "item_below rl ra (EndOnce l) n = (rl l < n)"
| "item_below rl ra (EndFinish a) n = (ra a < n)"
| "item_below rl ra (Unstop c l) n = True"
| "item_below rl ra (CallFinish f v) n = True"
| "item_below rl ra _ n = False"

definition over :: "(nat \<Rightarrow> nat) \<Rightarrow> (nat \<Rightarrow> nat) \<Rightarrow> 'f item \<Rightarrow> 'f item list \<Rightarrow> bool" where
  "over rl ra x is \<longleftrightarrow> (\<forall>m \<in> set is. \<forall>n. marker rl ra m = Some n \<longrightarrow> item_below rl ra x n)"

fun stack_ok :: "(nat \<Rightarrow> nat) \<Rightarrow> (nat \<Rightarrow> nat) \<Rightarrow> 'f item list \<Rightarrow> bool" where
  "stack_ok rl ra [] = True"
| "stack_ok rl ra (x # is) = (over rl ra x is \<and> stack_ok rl ra is)"

lemma over_simps [simp]:
  "over rl ra x []" "over rl ra x (m # is) \<longleftrightarrow> (\<forall>n. marker rl ra m = Some n \<longrightarrow> item_below rl ra x n) \<and> over rl ra x is"
  "over rl ra x (is @ js) \<longleftrightarrow> over rl ra x is \<and> over rl ra x js"
  by (auto simp: over_def)

lemma stack_ok_append:
  "stack_ok rl ra (is @ js) \<longleftrightarrow> stack_ok rl ra is \<and> stack_ok rl ra js \<and> (\<forall>x \<in> set is. over rl ra x js)"
  by (induction "is") auto

lemma over_le:
  "over rl ra x is \<Longrightarrow> (\<And>n. item_below rl ra x n \<Longrightarrow> item_below rl ra y n) \<Longrightarrow> over rl ra y is"
  unfolding over_def by blast

lemma below_less: "below rl ra c n \<Longrightarrow> n < m \<Longrightarrow> below rl ra c m"
  by (cases c) auto

definition rank_inv :: "(nat \<Rightarrow> nat) \<Rightarrow> (nat \<Rightarrow> nat) \<Rightarrow> 'f heap \<Rightarrow> 'f item list list \<Rightarrow> bool" where
  "rank_inv rl ra h ts \<longleftrightarrow>
     (\<forall>t \<in> set ts. stack_ok rl ra t) \<and>
     (\<forall>l < length (hp_leases h). \<forall>r \<in> set (ls_resources (hp_leases h ! l)). below rl ra r (rl l)) \<and>
     (\<forall>a < length (hp_attempts h). rl (at_resources (hp_attempts h ! a)) < ra a) \<and>
     (\<forall>l r. Own l r \<in> items ts \<longrightarrow> below rl ra r (rl l)) \<and>
     (\<forall>l < length (hp_leases h). ls_once (hp_leases h ! l) = Running \<longrightarrow> Take l \<in> items ts \<or> EndOnce l \<in> items ts) \<and>
     (\<forall>a < length (hp_attempts h). at_once (hp_attempts h ! a) = Running \<longrightarrow> EndFinish a \<in> items ts)"

section \<open>Some goroutine can run\<close>

lemma blocked_item:
  assumes "exec_item i h = None" and "item_ok h i"
  obtains (lease) l where "i = Run (LeaseRelease l)" "l < length (hp_leases h)" "ls_once (hp_leases h ! l) = Running"
  | (attempt) a where "i = Run (AttemptRelease a) \<or> (\<exists>v. i = Finish a v)" "a < length (hp_attempts h)"
      "at_once (hp_attempts h ! a) = Running"
proof (cases i)
  case (Run c)
  with assms that show ?thesis
    by (cases c) (auto simp: lease_Release_def attempt_Finish_def split: if_splits once.splits)
qed (use assms that in \<open>auto simp: lease_Own_def attempt_Finish_def split: if_splits once.splits\<close>)

text \<open>The rank of what the top of a stack waits for.\<close>

fun waits :: "(nat \<Rightarrow> nat) \<Rightarrow> (nat \<Rightarrow> nat) \<Rightarrow> 'f item \<Rightarrow> nat" where
  "waits rl ra (Run (LeaseRelease l)) = rl l"
| "waits rl ra (Run (AttemptRelease a)) = ra a"
| "waits rl ra (Finish a v) = ra a"
| "waits rl ra _ = 0"

lemma blocked_by_lower:
  assumes inv: "rank_inv rl ra h ts" "lease_inv h ts"
    and t: "i # is \<in> set ts" and blocked: "exec_item i h = None"
  shows "\<exists>j js. j # js \<in> set ts \<and> (exec_item j h = None \<longrightarrow> waits rl ra j < waits rl ra i)"
proof -
  have ok: "item_ok h i" using inv(2) t unfolding lease_inv_def items_def by fastforce
  have "\<exists>m \<in> items ts. marker rl ra m = Some (waits rl ra i)"
    using blocked ok
  proof (cases rule: blocked_item)
    case (lease l)
    with inv(1) have "Take l \<in> items ts \<or> EndOnce l \<in> items ts" by (simp add: rank_inv_def)
    with lease(1) show ?thesis by force
  next
    case (attempt a)
    with inv(1) have "EndFinish a \<in> items ts" by (simp add: rank_inv_def)
    with attempt(1) show ?thesis by force
  qed
  then obtain m u where m: "u \<in> set ts" "m \<in> set u" "marker rl ra m = Some (waits rl ra i)"
    by (auto simp: items_def)
  obtain j js where u: "u = j # js" using m(2) by (metis list.set_cases)
  have "waits rl ra j < waits rl ra i" if none: "exec_item j h = None"
  proof -
    have okj: "item_ok h j" using inv(2) m(1) u unfolding lease_inv_def items_def by fastforce
    have "j \<noteq> m" using none okj m(3) by (cases m) auto
    with m u have "m \<in> set js" by auto
    moreover have "over rl ra j js" using inv(1) m(1) u by (auto simp: rank_inv_def)
    ultimately have "item_below rl ra j (waits rl ra i)" using m(3) by (auto simp: over_def)
    with none okj show ?thesis by (cases rule: blocked_item [OF none okj]) auto
  qed
  then have "exec_item j h = None \<longrightarrow> waits rl ra j < waits rl ra i" by (rule impI)
  with m(1) u show ?thesis by (intro exI [of _ j] exI [of _ js]) simp
qed

lemma some_can_run:
  assumes inv: "rank_inv rl ra h ts" "lease_inv h ts" and "i # is \<in> set ts"
  shows "\<exists>j js. j # js \<in> set ts \<and> exec_item j h \<noteq> None"
  using assms(3)
proof (induction "waits rl ra i" arbitrary: i "is" rule: less_induct)
  case less
  show ?case
  proof (cases "exec_item i h")
    case None
    obtain j js where j: "j # js \<in> set ts" "exec_item j h = None \<longrightarrow> waits rl ra j < waits rl ra i"
      using blocked_by_lower [OF inv less.prems None] by (elim exE conjE) (rule that)
    with less.hyps show ?thesis by blast
  qed (use less.prems in auto)
qed

section \<open>The shape is kept\<close>

lemma stack_ok_Run [simp]: "stack_ok rl ra (map Run cs)"
  by (induction cs) (auto simp: over_def)

lemma stack_ok_exec:
  assumes "exec_item i h = Some (js, h')" and "stack_ok rl ra (i # is)" and "item_ok h i"
    and res: "\<And>l r. l < length (hp_leases h) \<Longrightarrow> r \<in> set (ls_resources (hp_leases h ! l)) \<Longrightarrow> below rl ra r (rl l)"
    and att: "\<And>a. a < length (hp_attempts h) \<Longrightarrow> rl (at_resources (hp_attempts h ! a)) < ra a"
  shows "stack_ok rl ra (js @ is)"
proof -
  have tail: "stack_ok rl ra is" and head: "over rl ra i is" using assms(2) by auto
  have finish: "stack_ok rl ra (js @ is)"
    if "attempt_Finish a v h = Some (js, h')" and lower: "\<And>n. item_below rl ra i n \<Longrightarrow> ra a < n" for a v
  proof -
    have "over rl ra (EndFinish a) is" "over rl ra (CallFinish f v) is" for f
      using head lower by (auto intro: over_le)
    moreover have "over rl ra (Run (LeaseRelease (at_resources (hp_attempts h ! a)))) is" if "a < length (hp_attempts h)"
      by (rule over_le [OF head]) (use lower att [OF that] in \<open>auto intro: less_trans\<close>)
    ultimately show ?thesis
      using that(1) tail att [of a]
      by (auto simp: attempt_Finish_def split: if_splits once.splits option.splits)
  qed
  show ?thesis
  proof (cases i)
    case (Run c)
    show ?thesis
    proof (cases c)
      case (AttemptRelease a)
      with Run assms(1) finish [of a False] show ?thesis by simp
    next
      case (LeaseRelease l)
      have "over rl ra (Take l) is" by (rule over_le [OF head]) (simp add: Run LeaseRelease)
      with Run LeaseRelease assms(1) tail show ?thesis
        by (auto simp: lease_Release_def split: if_splits once.splits)
    qed (use Run assms(1) tail in auto)
  next
    case (Take l)
    have "over rl ra (EndOnce l) is" "over rl ra (Unstop c l) is" for c
      using head Take by (auto intro: over_le)
    moreover have "over rl ra (Run r) is" if "l < length (hp_leases h)" "r \<in> set (ls_resources (hp_leases h ! l))" for r
      by (rule over_le [OF head]) (use res [OF that] below_less Take in auto)
    ultimately show ?thesis
      using Take assms(1,3) tail res [of l]
      by (auto simp: take_resources_def Let_def stack_ok_append over_def split: option.splits)
  next
    case (Own l r)
    have "over rl ra (Run r) is" by (rule over_le [OF head]) (simp add: Own)
    with Own assms(1) tail show ?thesis by (auto simp: lease_Own_def split: if_splits)
  next
    case (SetStop c l)
    have "over rl ra (Unstop c l) is" by (rule over_le [OF head]) simp
    with SetStop assms(1) tail show ?thesis by (auto split: if_splits)
  next
    case (Finish a v)
    with assms(1) finish [of a v] show ?thesis by simp
  qed (use assms(1) tail in \<open>auto split: if_splits\<close>)
qed

lemma exec_item_running:
  assumes "exec_item i h = Some (js, h')" and "item_ok h i"
  shows "ls_once (hp_leases h' ! l) = Running \<Longrightarrow> l < length (hp_leases h) \<Longrightarrow>
      i \<noteq> EndOnce l \<and> (i = Take l \<longrightarrow> EndOnce l \<in> set js) \<and> (ls_once (hp_leases h ! l) = Running \<or> Take l \<in> set js)"
    and "at_once (hp_attempts h' ! a) = Running \<Longrightarrow> a < length (hp_attempts h) \<Longrightarrow>
      i \<noteq> EndFinish a \<and> (at_once (hp_attempts h ! a) = Running \<or> EndFinish a \<in> set js)"
proof -
  show "ls_once (hp_leases h' ! l) = Running \<Longrightarrow> l < length (hp_leases h) \<Longrightarrow>
      i \<noteq> EndOnce l \<and> (i = Take l \<longrightarrow> EndOnce l \<in> set js) \<and> (ls_once (hp_leases h ! l) = Running \<or> Take l \<in> set js)"
  proof (cases i)
    case (Run c)
    assume "ls_once (hp_leases h' ! l) = Running" "l < length (hp_leases h)"
    with Run assms show ?thesis
      by (cases c) (auto simp: lease_Release_def attempt_Finish_def split: if_splits once.splits)
  qed (use assms in \<open>auto simp: lease_Own_def take_resources_def Let_def attempt_Finish_def
        split: if_splits once.splits\<close>)
  show "at_once (hp_attempts h' ! a) = Running \<Longrightarrow> a < length (hp_attempts h) \<Longrightarrow>
      i \<noteq> EndFinish a \<and> (at_once (hp_attempts h ! a) = Running \<or> EndFinish a \<in> set js)"
  proof (cases i)
    case (Run c)
    assume "at_once (hp_attempts h' ! a) = Running" "a < length (hp_attempts h)"
    with Run assms show ?thesis
      by (cases c) (auto simp: lease_Release_def attempt_Finish_def split: if_splits once.splits)
  qed (use assms in \<open>auto simp: lease_Own_def take_resources_def Let_def attempt_Finish_def
        split: if_splits once.splits\<close>)
qed

lemma exec_item_ranks:
  assumes "exec_item i h = Some (js, h')" and "item_ok h i"
    and "\<And>l r. l < length (hp_leases h) \<Longrightarrow> r \<in> set (ls_resources (hp_leases h ! l)) \<Longrightarrow> below rl ra r (rl l)"
    and "\<And>a. a < length (hp_attempts h) \<Longrightarrow> rl (at_resources (hp_attempts h ! a)) < ra a"
    and "\<And>l r. i = Own l r \<Longrightarrow> below rl ra r (rl l)"
  shows "l < length (hp_leases h') \<Longrightarrow> r \<in> set (ls_resources (hp_leases h' ! l)) \<Longrightarrow> below rl ra r (rl l)"
    and "a < length (hp_attempts h') \<Longrightarrow> rl (at_resources (hp_attempts h' ! a)) < ra a"
    and "Own l r \<notin> set js"
proof -
  show "l < length (hp_leases h') \<Longrightarrow> r \<in> set (ls_resources (hp_leases h' ! l)) \<Longrightarrow> below rl ra r (rl l)"
  proof (cases i)
    case (Run c)
    assume "l < length (hp_leases h')" "r \<in> set (ls_resources (hp_leases h' ! l))"
    with Run assms show ?thesis
      by (cases c) (auto simp: lease_Release_def attempt_Finish_def split: if_splits once.splits)
  qed (use assms in \<open>auto simp: lease_Own_def take_resources_def Let_def attempt_Finish_def
        split: if_splits once.splits\<close>)
  show "a < length (hp_attempts h') \<Longrightarrow> rl (at_resources (hp_attempts h' ! a)) < ra a"
  proof (cases i)
    case (Run c)
    assume "a < length (hp_attempts h')"
    with Run assms show ?thesis
      by (cases c) (auto simp: lease_Release_def attempt_Finish_def split: if_splits once.splits)
  qed (use assms in \<open>auto simp: lease_Own_def take_resources_def Let_def attempt_Finish_def
        split: if_splits once.splits\<close>)
  show "Own l r \<notin> set js"
  proof (cases i)
    case (Run c)
    with assms show ?thesis
      by (cases c) (auto simp: lease_Release_def attempt_Finish_def split: if_splits once.splits option.splits)
  qed (use assms in \<open>auto simp: lease_Own_def take_resources_def Let_def attempt_Finish_def
        split: if_splits once.splits option.splits\<close>)
qed

lemma rank_inv_exec:
  assumes inv: "rank_inv rl ra h ts" "lease_inv h ts"
    and k: "k < length ts" "ts ! k = i # is" and exec: "exec_item i h = Some (js, h')"
  shows "rank_inv rl ra h' (ts[k := js @ is])"
proof -
  let ?ts = "ts[k := js @ is]"
  note it = items_update(1-3) [OF k, where js = js] items_update(4) [OF k]
  have ok: "item_ok h i" using inv(2) it(4) unfolding lease_inv_def by blast
  have res: "below rl ra r (rl l)" if "l < length (hp_leases h)" "r \<in> set (ls_resources (hp_leases h ! l))" for l r
    using inv(1) that unfolding rank_inv_def by blast
  have att: "rl (at_resources (hp_attempts h ! a)) < ra a" if "a < length (hp_attempts h)" for a
    using inv(1) that unfolding rank_inv_def by blast
  have own: "below rl ra r (rl l)" if "i = Own l r" for l r
    using inv(1) it(4) that unfolding rank_inv_def by blast
  note len = exec_item_lengths [OF exec]
  note ranks = exec_item_ranks [OF exec ok res att own]
  have old: "stack_ok rl ra t" if "t \<in> set ts" for t
    using inv(1) that unfolding rank_inv_def by blast
  have top: "stack_ok rl ra (i # is)"
    using old [OF nth_mem [OF k(1)]] k(2) by simp
  have "stack_ok rl ra t" if "t \<in> set ?ts" for t
  proof -
    from that set_update_subset_insert [of ts k "js @ is"] have "t = js @ is \<or> t \<in> set ts" by blast
    with old stack_ok_exec [OF exec top ok res att] show ?thesis by blast
  qed
  moreover have "below rl ra r (rl l)" if "Own l r \<in> items ?ts" for l r
  proof -
    from that it(1) ranks(3) have "Own l r \<in> items ts" by blast
    with inv(1) show ?thesis unfolding rank_inv_def by blast
  qed
  moreover have "Take l \<in> items ?ts \<or> EndOnce l \<in> items ?ts"
    if "l < length (hp_leases h')" "ls_once (hp_leases h' ! l) = Running" for l
  proof -
    note r = exec_item_running(1) [OF exec ok that(2)]
    from that(1) len have l: "l < length (hp_leases h)" by simp
    from r [OF l] have "ls_once (hp_leases h ! l) = Running \<or> Take l \<in> set js" by blast
    then show ?thesis
    proof
      assume "ls_once (hp_leases h ! l) = Running"
      with inv(1) l have "Take l \<in> items ts \<or> EndOnce l \<in> items ts" unfolding rank_inv_def by blast
      with r [OF l] it(2,3) show ?thesis by blast
    qed (use it(3) in blast)
  qed
  moreover have "EndFinish a \<in> items ?ts"
    if "a < length (hp_attempts h')" "at_once (hp_attempts h' ! a) = Running" for a
  proof -
    from that(1) len have a: "a < length (hp_attempts h)" by simp
    from exec_item_running(2) [OF exec ok that(2) a]
    have r: "i \<noteq> EndFinish a" "at_once (hp_attempts h ! a) = Running \<or> EndFinish a \<in> set js" by auto
    from r(2) show ?thesis
    proof
      assume "at_once (hp_attempts h ! a) = Running"
      with inv(1) a have "EndFinish a \<in> items ts" unfolding rank_inv_def by blast
      with r(1) it(2) show ?thesis by blast
    qed (use it(3) in blast)
  qed
  ultimately show ?thesis using ranks(1,2) unfolding rank_inv_def by blast
qed

lemma rank_inv_new:
  assumes "rank_inv rl ra h ts" and "stack_ok rl ra todo"
    and "\<forall>l r. Own l r \<in> set todo \<longrightarrow> below rl ra r (rl l)"
    and "\<exists>new. hp_leases h' = hp_leases h @ new \<and>
      (\<forall>x \<in> set new. ls_once x = Fresh) \<and>
      (\<forall>k < length new. \<forall>r \<in> set (ls_resources (new ! k)). below rl ra r (rl (length (hp_leases h) + k)))"
    and "\<exists>new. hp_attempts h' = hp_attempts h @ new \<and> (\<forall>x \<in> set new. at_once x = Fresh) \<and>
      (\<forall>k < length new. rl (at_resources (new ! k)) < ra (length (hp_attempts h) + k))"
  shows "rank_inv rl ra h' (ts @ [todo])"
proof -
  from assms(4) obtain nl where nl: "hp_leases h' = hp_leases h @ nl" "\<forall>x \<in> set nl. ls_once x = Fresh"
      "\<forall>k < length nl. \<forall>r \<in> set (ls_resources (nl ! k)). below rl ra r (rl (length (hp_leases h) + k))" by blast
  from assms(5) obtain na where na: "hp_attempts h' = hp_attempts h @ na" "\<forall>x \<in> set na. at_once x = Fresh"
      "\<forall>k < length na. rl (at_resources (na ! k)) < ra (length (hp_attempts h) + k)" by blast
  show ?thesis
    using assms(1-3) nl na unfolding rank_inv_def
    by (auto simp: nth_append not_less le_Suc_ex dest!: le_Suc_ex)
qed

lemma act_rank_inv:
  assumes inv: "rank_inv rl ra h ts" "lease_inv h ts"
    and act: "act a (h, ts) = (h', ts')" and allowed: "possible a h" "ranked rl ra a h"
  shows "rank_inv rl ra h' ts'"
proof (cases a)
  case (Create ctx md rs)
  with act obtain todo where ts': "ts' = ts @ [todo]"
    and todo: "todo = [] \<or> (\<exists>c. todo = [AfterFunc c (length (hp_leases h)), SetStop c (length (hp_leases h))])"
    and h': "h' = h\<lparr>hp_leases := hp_leases h @
        [\<lparr>ls_closed = False, ls_resources = List.map_filter (\<lambda>r. r) rs, ls_stop = None, ls_once = Fresh\<rparr>]\<rparr>"
    by (auto simp: NewLease_def Let_def split: option.splits if_splits)
  show ?thesis unfolding ts'
    by (rule rank_inv_new [OF inv(1)]) (use todo allowed(2) Create in \<open>auto simp: h'\<close>)
next
  case (CreateAttempt parent f rs)
  with act allowed(1) obtain todo where ts': "ts' = ts @ [todo]"
    and todo: "todo = (case parent of None \<Rightarrow> [] | Some p \<Rightarrow> [Own p (AttemptRelease (length (hp_attempts h)))])"
    and h': "h' = h\<lparr>hp_leases := hp_leases h @
        [\<lparr>ls_closed = False, ls_resources = List.map_filter (\<lambda>r. r) rs, ls_stop = None, ls_once = Fresh\<rparr>],
        hp_attempts := hp_attempts h @ [\<lparr>at_resources = length (hp_leases h), at_finish = f, at_once = Fresh\<rparr>]\<rparr>"
    by (auto simp: NewAttemptLease_def NewLease_def Let_def split: option.splits)
  show ?thesis unfolding ts'
    by (rule rank_inv_new [OF inv(1)])
      (use todo allowed(2) CreateAttempt in \<open>auto simp: h' split: option.splits\<close>)
next
  case (Call i)
  with act allowed(1) have "ts' = ts @ [[i]]" "h' = h" by auto
  then show ?thesis
    by (simp, intro rank_inv_new [OF inv(1)]) (use allowed(2) Call in auto)
next
  case (Cancel c)
  with act inv(1) show ?thesis by (auto simp: rank_inv_def)
next
  case (Fire k)
  show ?thesis
  proof (cases "k < length (hp_after h) \<and> fst (hp_after h ! k) \<in> set (hp_canceled h)")
    case True
    with act Fire have "ts' = ts @ [[Run (LeaseRelease (snd (hp_after h ! k)))]]"
      "h' = h\<lparr>hp_after := take k (hp_after h) @ drop (Suc k) (hp_after h)\<rparr>" by auto
    then show ?thesis by (simp, intro rank_inv_new [OF inv(1)]) auto
  qed (use act inv(1) Fire in auto)
next
  case (Sched k)
  with act have "act (Sched k) (h, ts) = (h', ts')" by simp
  then show ?thesis
  proof (cases rule: act_Sched_cases)
    case (exec i "is" js)
    with rank_inv_exec [OF inv exec(1-3)] show ?thesis by simp
  qed (use inv(1) in simp)
qed

lemma ranked_machine_inv: "ranked_machine rl ra h ts \<Longrightarrow> rank_inv rl ra h ts \<and> lease_inv h ts"
proof (induction rule: ranked_machine.induct)
  case start
  show ?case by (simp add: rank_inv_def lease_inv_def empty_heap_def)
next
  case step
  with act_rank_inv act_lease_inv show ?case by blast
qed

text \<open>
  C21: when what a lease or an attempt releases always ranks below itself, so that ownership has no
  cycle, the goroutines never all wait for each other: while one of them has something to run, some
  goroutine can perform its next step.
\<close>

theorem no_release_deadlock:
  assumes "ranked_machine rl ra h ts" and "\<exists>t \<in> set ts. t \<noteq> []"
  shows "\<exists>k < length ts. \<exists>i is. ts ! k = i # is \<and> exec_item i h \<noteq> None"
proof -
  from assms(2) obtain i "is" where t: "i # is \<in> set ts" by (metis neq_Nil_conv)
  from ranked_machine_inv [OF assms(1)] have "rank_inv rl ra h ts" "lease_inv h ts" by auto
  from some_can_run [OF this t] obtain j js where "j # js \<in> set ts" "exec_item j h \<noteq> None"
    by (elim exE conjE) (rule that)
  then show ?thesis by (metis in_set_conv_nth)
qed

text \<open>
  Without the ranks it can happen: a lease that owns its own \<open>Release\<close> waits for itself. With them
  (lease 0 owns the attempt 0, which owns the lease 1), two releases run to the end.
\<close>

lemma self_owned_lease_waits:
  "run_items [Own 0 (LeaseRelease 0), Run (LeaseRelease 0)]
     (\<lparr>hp_leases = [\<lparr>ls_closed = False, ls_resources = [], ls_stop = None, ls_once = Fresh\<rparr>],
       hp_attempts = [], hp_after = [], hp_canceled = [], hp_log = []\<rparr> :: unit heap) = None"
  by (simp add: lease_Own_def lease_Release_def take_resources_def upd_lease_def)

lemma no_release_deadlock_witness:
  "\<exists>k i is. k < 4 \<and> ([[], [], [Run (LeaseRelease 0)], [Finish 0 True]] :: string item list list) ! k = i # is \<and>
     exec_item i (fst (fst (play (take 5 finish_race) (empty_heap, []) {#}))) \<noteq> None"
proof -
  let ?rl = "\<lambda>l::nat. if l = 0 then 2 else 0 :: nat" and ?ra = "\<lambda>a::nat. 1 :: nat"
  let ?first = "\<lparr>hp_leases = [\<lparr>ls_closed = False, ls_resources = [], ls_stop = None, ls_once = Fresh\<rparr>], hp_attempts = [],
        hp_after = [], hp_canceled = [], hp_log = []\<rparr> :: string heap"
  let ?second = "\<lparr>hp_leases = [\<lparr>ls_closed = False, ls_resources = [], ls_stop = None, ls_once = Fresh\<rparr>,
           \<lparr>ls_closed = False, ls_resources = [Ext 7], ls_stop = None, ls_once = Fresh\<rparr>],
        hp_attempts = [\<lparr>at_resources = 1, at_finish = Some ''session'', at_once = Fresh\<rparr>],
        hp_after = [], hp_canceled = [], hp_log = []\<rparr>"
  let ?h = "\<lparr>hp_leases = [\<lparr>ls_closed = False, ls_resources = [AttemptRelease 0], ls_stop = None, ls_once = Fresh\<rparr>,
           \<lparr>ls_closed = False, ls_resources = [Ext 7], ls_stop = None, ls_once = Fresh\<rparr>],
        hp_attempts = [\<lparr>at_resources = 1, at_finish = Some ''session'', at_once = Fresh\<rparr>],
        hp_after = [], hp_canceled = [], hp_log = []\<rparr>"
  let ?ts = "[[], [], [Run (LeaseRelease 0)], [Finish 0 True]] :: string item list list"
  have h: "fst (fst (play (take 5 finish_race) (empty_heap, []) {#})) = ?h"
    by (simp add: finish_race_def empty_heap_def NewAttemptLease_def NewLease_def List.map_filter_def
        lease_Own_def upd_lease_def eval_nat_numeral)
  have 1: "ranked_machine ?rl ?ra ?first [[]]"
    by (rule ranked_machine.step [OF ranked_machine.start, where a = "Create None ReleaseOnCompletion []"])
      (simp_all add: empty_heap_def NewLease_def)
  have 2: "ranked_machine ?rl ?ra ?second [[], [Own 0 (AttemptRelease 0)]]"
    by (rule ranked_machine.step [OF 1, where a = "CreateAttempt (Some 0) (Some ''session'') [Some (Ext 7)]"])
      (simp_all add: NewAttemptLease_def NewLease_def List.map_filter_def)
  have 3: "ranked_machine ?rl ?ra ?h [[], []]"
    by (rule ranked_machine.step [OF 2, where a = "Sched 1"]) (simp_all add: lease_Own_def upd_lease_def)
  have 4: "ranked_machine ?rl ?ra ?h [[], [], [Run (LeaseRelease 0)]]"
    by (rule ranked_machine.step [OF 3, where a = "Call (Run (LeaseRelease 0))"]) simp_all
  have "ranked_machine ?rl ?ra ?h ?ts"
    by (rule ranked_machine.step [OF 4, where a = "Call (Finish 0 True)"]) simp_all
  from no_release_deadlock [OF this] obtain k i "is" where "k < length ?ts" "?ts ! k = i # is" "exec_item i ?h \<noteq> None"
    by auto
  then show ?thesis unfolding h by (intro exI [of _ k] exI [of _ i] exI [of _ "is"]) simp
qed

end
