(* ===== verification/Sched_Sessions.thy ===== *)
theory Sched_Sessions
  imports Sched_Attempt
begin

text \<open>
  The session attempts of a request (\<^verbatim>\<open>scheduler/session_attempts.go\<close>, \<^verbatim>\<open>scheduler/session_policy.go\<close>):
  per provider an attempt lease whose finish function is \<open>FinishSession\<close> of its binding. The methods
  run on the lease machine, one after the other; None would be a goroutine that waits for itself.
  They are shown to implement a plain table of bindings and resources (\<open>session_spec\<close>). The order in
  which Go enumerates a map is an argument of \<open>Reset\<close> and \<open>Finish\<close>.
\<close>

record SessionBinding =
  sb_ProviderID :: int
  sb_SessionID :: string
  sb_Enabled :: bool
  sb_Limit :: int
  sb_IdleTimeout :: duration

text \<open>
  \<open>FinishSession\<close> on the cache: the call it makes, if any. \<open>RegisterSession\<close> with the answer of the
  cache: an error counts as admission.
\<close>

definition FinishSession :: "bool \<Rightarrow> SessionBinding \<Rightarrow> bool \<Rightarrow> (int \<times> string) option" where
  "FinishSession cache b served =
     (if served \<or> \<not> sb_Enabled b \<or> sb_Limit b \<le> 0 \<or> sb_SessionID b = [] \<or> \<not> cache then None
      else Some (sb_ProviderID b, sb_SessionID b))"

definition RegisterSession ::
  "(int \<Rightarrow> string \<Rightarrow> int \<Rightarrow> duration \<Rightarrow> 'e \<Rightarrow> bool option \<times> 'e) option \<Rightarrow> SessionBinding \<Rightarrow> 'e \<Rightarrow> bool \<times> 'e" where
  "RegisterSession cache b e =
     (case cache of
        None \<Rightarrow> (True, e)
      | Some register \<Rightarrow>
          if \<not> sb_Enabled b \<or> sb_Limit b \<le> 0 \<or> sb_SessionID b = [] then (True, e)
          else case register (sb_ProviderID b) (sb_SessionID b) (sb_Limit b) (sb_IdleTimeout b) e of
              (None, e) \<Rightarrow> (True, e)
            | (Some allowed, e) \<Rightarrow> (allowed, e))"

definition unregistered :: "bool \<Rightarrow> SessionBinding event list \<Rightarrow> (int \<times> string) list" where
  "unregistered cache evs =
     List.map_filter (\<lambda>ev. case ev of Finished b served \<Rightarrow> FinishSession cache b served | Released t \<Rightarrow> None) evs"

record SessionAttempts =
  sa_closed :: bool
  sa_entries :: "int \<rightharpoonup> nat"

type_synonym session_heap = "SessionBinding heap"

definition NewSessionAttempts :: SessionAttempts where
  "NewSessionAttempts = \<lparr>sa_closed = False, sa_entries = Map.empty\<rparr>"

definition resources_of :: "session_heap \<Rightarrow> nat \<Rightarrow> nat" where
  "resources_of h a = at_resources (hp_attempts h ! a)"

definition Track :: "SessionBinding \<Rightarrow> SessionAttempts \<times> session_heap \<Rightarrow> (SessionAttempts \<times> session_heap) option" where
  "Track b sh =
     (case sh of (s, h) \<Rightarrow>
        if sb_SessionID b = [] then Some (s, h)
        else case NewAttemptLease None (Some b) [] h of (a, todo, h) \<Rightarrow>
          if sa_closed s then map_option (Pair s) (run_items (todo @ [Run (AttemptRelease a)]) h)
          else map_option (Pair (s\<lparr>sa_entries := (sa_entries s)(sb_ProviderID b \<mapsto> a)\<rparr>))
            (run_items (todo @ (case sa_entries s (sb_ProviderID b) of
                None \<Rightarrow> []
              | Some previous \<Rightarrow> [Own (resources_of h a) (LeaseRelease (resources_of h previous))])) h))"

definition session_Own :: "int \<Rightarrow> closure option \<Rightarrow> SessionAttempts \<times> session_heap \<Rightarrow> (SessionAttempts \<times> session_heap) option" where
  "session_Own i release sh =
     (case sh of (s, h) \<Rightarrow>
        case release of
          None \<Rightarrow> Some (s, h)
        | Some r \<Rightarrow>
            (case sa_entries s i of
               Some a \<Rightarrow> map_option (Pair s) (run_items [Own (resources_of h a) r] h)
             | None \<Rightarrow> if sa_closed s then map_option (Pair s) (run_items [Run r] h) else Some (s, h)))"

definition Abandon :: "int \<Rightarrow> SessionAttempts \<times> session_heap \<Rightarrow> (SessionAttempts \<times> session_heap) option" where
  "Abandon i sh =
     (case sh of (s, h) \<Rightarrow>
        map_option (Pair (s\<lparr>sa_entries := (sa_entries s)(i := None)\<rparr>))
          (run_items (case sa_entries s i of None \<Rightarrow> [] | Some a \<Rightarrow> [Finish a False]) h))"

definition Reset :: "int list \<Rightarrow> SessionAttempts \<times> session_heap \<Rightarrow> (SessionAttempts \<times> session_heap) option" where
  "Reset order sh =
     (case sh of (s, h) \<Rightarrow>
        map_option (Pair (s\<lparr>sa_entries := Map.empty\<rparr>))
          (run_items (map (\<lambda>a. Finish a False) (List.map_filter (sa_entries s) order)) h))"

definition session_Finish :: "int list \<Rightarrow> bool \<Rightarrow> SessionAttempts \<times> session_heap \<Rightarrow> (SessionAttempts \<times> session_heap) option" where
  "session_Finish order outcome sh =
     (case sh of (s, h) \<Rightarrow>
        if sa_closed s then Some (s, h)
        else map_option (Pair (s\<lparr>sa_closed := True, sa_entries := Map.empty\<rparr>))
          (run_items (map (\<lambda>a. Finish a outcome) (List.map_filter (sa_entries s) order)) h))"

datatype session_op =
    OTrack SessionBinding
  | OOwn int "nat option"
  | OAbandon int
  | OReset "int list"
  | OFinish "int list" bool

fun session_step :: "session_op \<Rightarrow> SessionAttempts \<times> session_heap \<Rightarrow> (SessionAttempts \<times> session_heap) option" where
  "session_step (OTrack b) = Track b"
| "session_step (OOwn i t) = session_Own i (map_option Ext t)"
| "session_step (OAbandon i) = Abandon i"
| "session_step (OReset order) = Reset order"
| "session_step (OFinish order outcome) = session_Finish order outcome"

fun session_run :: "session_op list \<Rightarrow> SessionAttempts \<times> session_heap \<Rightarrow> (SessionAttempts \<times> session_heap) option" where
  "session_run [] sh = Some sh"
| "session_run (op # ops) sh = (case session_step op sh of None \<Rightarrow> None | Some sh \<Rightarrow> session_run ops sh)"

section \<open>The specification\<close>

text \<open>
  Per provider the current binding and the resources of the attempt; ending an attempt logs its
  finish with the outcome, then the release of its resources, last acquired first. A newer binding
  of the same provider replaces the old one without finishing it and takes over its resources.
\<close>

record session_spec =
  ss_closed :: bool
  ss_current :: "int \<rightharpoonup> SessionBinding \<times> nat list"
  ss_log :: "SessionBinding event list"

definition ending :: "bool \<Rightarrow> SessionBinding \<times> nat list \<Rightarrow> SessionBinding event list" where
  "ending outcome bt = Finished (fst bt) outcome # map Released (rev (snd bt))"

fun spec_step :: "session_op \<Rightarrow> session_spec \<Rightarrow> session_spec" where
  "spec_step (OTrack b) s =
     (if sb_SessionID b = [] then s
      else if ss_closed s then s\<lparr>ss_log := ss_log s @ [Finished b False]\<rparr>
      else s\<lparr>ss_current := (ss_current s)(sb_ProviderID b \<mapsto>
          (b, case ss_current s (sb_ProviderID b) of None \<Rightarrow> [] | Some bt \<Rightarrow> snd bt))\<rparr>)"
| "spec_step (OOwn i t) s =
     (case t of
        None \<Rightarrow> s
      | Some t \<Rightarrow>
          (case ss_current s i of
             Some bt \<Rightarrow> s\<lparr>ss_current := (ss_current s)(i \<mapsto> (fst bt, snd bt @ [t]))\<rparr>
           | None \<Rightarrow> if ss_closed s then s\<lparr>ss_log := ss_log s @ [Released t]\<rparr> else s))"
| "spec_step (OAbandon i) s =
     s\<lparr>ss_current := (ss_current s)(i := None),
       ss_log := ss_log s @ (case ss_current s i of None \<Rightarrow> [] | Some bt \<Rightarrow> ending False bt)\<rparr>"
| "spec_step (OReset order) s =
     s\<lparr>ss_current := Map.empty,
       ss_log := ss_log s @ concat (map (ending False) (List.map_filter (ss_current s) order))\<rparr>"
| "spec_step (OFinish order outcome) s =
     (if ss_closed s then s
      else s\<lparr>ss_closed := True, ss_current := Map.empty,
        ss_log := ss_log s @ concat (map (ending outcome) (List.map_filter (ss_current s) order))\<rparr>)"

definition spec_start :: session_spec where
  "spec_start = \<lparr>ss_closed = False, ss_current = Map.empty, ss_log = []\<rparr>"

text \<open>A map is enumerated completely, every key once.\<close>

fun enumerated :: "session_op \<Rightarrow> session_spec \<Rightarrow> bool" where
  "enumerated (OReset order) s = (distinct order \<and> set order = dom (ss_current s))"
| "enumerated (OFinish order outcome) s = (ss_closed s \<or> distinct order \<and> set order = dom (ss_current s))"
| "enumerated _ s = True"

fun all_enumerated :: "session_op list \<Rightarrow> session_spec \<Rightarrow> bool" where
  "all_enumerated [] s = True"
| "all_enumerated (op # ops) s = (enumerated op s \<and> all_enumerated ops (spec_step op s))"

section \<open>What an attempt holds\<close>

text \<open>
  The resources of an open lease: its own, after those of a lease it has taken over. \<open>fp\<close> are the
  leases involved.
\<close>

definition open_lease :: "closure list \<Rightarrow> Lease" where
  "open_lease rs = \<lparr>ls_closed = False, ls_resources = rs, ls_stop = None, ls_once = Fresh\<rparr>"

inductive holds :: "session_heap \<Rightarrow> nat \<Rightarrow> nat list \<Rightarrow> nat set \<Rightarrow> bool" for h where
  own: "\<lbrakk>l < length (hp_leases h); hp_leases h ! l = open_lease (map Ext ts)\<rbrakk> \<Longrightarrow> holds h l ts {l}"
| taken_over: "\<lbrakk>l < length (hp_leases h); hp_leases h ! l = open_lease (LeaseRelease p # map Ext ts);
    holds h p ts' fp; l \<notin> fp\<rbrakk> \<Longrightarrow> holds h l (ts' @ ts) (insert l fp)"

inductive_cases holdsE: "holds h l ts fp"

definition changes_only :: "'f heap \<Rightarrow> 'f heap \<Rightarrow> nat set \<Rightarrow> nat set \<Rightarrow> bool" where
  "changes_only h h' F A \<longleftrightarrow>
     length (hp_leases h) \<le> length (hp_leases h') \<and> length (hp_attempts h) \<le> length (hp_attempts h') \<and>
     (\<forall>k < length (hp_leases h). k \<notin> F \<longrightarrow> hp_leases h' ! k = hp_leases h ! k) \<and>
     (\<forall>a < length (hp_attempts h). a \<notin> A \<longrightarrow> hp_attempts h' ! a = hp_attempts h ! a)"

lemma changes_only_trans:
  "changes_only h h1 F A \<Longrightarrow> changes_only h1 h2 F' A' \<Longrightarrow> changes_only h h2 (F \<union> F') (A \<union> A')"
  by (auto simp: changes_only_def)

lemma changes_only_mono: "changes_only h h' F A \<Longrightarrow> F \<subseteq> F' \<Longrightarrow> A \<subseteq> A' \<Longrightarrow> changes_only h h' F' A'"
  by (auto simp: changes_only_def)

lemma changes_only_upd [simp]:
  "changes_only h h F A" "l \<in> F \<Longrightarrow> changes_only h (upd_lease l f h) F A" "a \<in> A \<Longrightarrow> changes_only h (upd_attempt a g h) F A"
  "changes_only h (emit ev h) F A" "changes_only h (h\<lparr>hp_log := xs\<rparr>) F A"
  by (auto simp: changes_only_def upd_lease_def upd_attempt_def) (metis nth_list_update_neq)+

lemma holds_bound: "holds h l ts fp \<Longrightarrow> l \<in> fp \<and> (\<forall>k \<in> fp. k < length (hp_leases h))"
  by (induction rule: holds.induct) auto

lemma holds_frame:
  "holds h l ts fp \<Longrightarrow> changes_only h h' F A \<Longrightarrow> fp \<inter> F = {} \<Longrightarrow> holds h' l ts fp"
proof (induction rule: holds.induct)
  case (own l ts)
  then show ?case by (intro holds.own) (auto simp: changes_only_def)
next
  case (taken_over l p ts ts' fp)
  then show ?case by (intro holds.taken_over [of _ _ p]) (auto simp: changes_only_def)
qed

text \<open>Its release gives all of them back, last acquired first.\<close>

lemma run_release_open:
  assumes "l < length (hp_leases h)" and "hp_leases h ! l = open_lease rs"
  shows "run_items (Run (LeaseRelease l) # is) h =
    run_items (map Run (rev rs) @ EndOnce l # is)
      (upd_lease l (\<lambda>x. \<lparr>ls_closed = True, ls_resources = [], ls_stop = None, ls_once = Running\<rparr>) h)"
  using assms by (simp add: open_lease_def lease_Release_def take_resources_def Let_def upd_lease_def)

definition gives_back :: "nat \<Rightarrow> nat list \<Rightarrow> nat set \<Rightarrow> session_heap \<Rightarrow> bool" where
  "gives_back l ts fp h \<longleftrightarrow> (\<exists>h'. run_items [Run (LeaseRelease l)] h = Some h' \<and>
     hp_log h' = hp_log h @ map Released (rev ts) \<and> changes_only h h' fp {})"

lemma holds_gives_back:
  "holds h l ts fp \<Longrightarrow> \<forall>g F A. changes_only h g F A \<and> fp \<inter> F = {} \<longrightarrow> gives_back l ts fp g"
proof (induction rule: holds.induct)
  case (own l ts)
  show ?case
  proof (intro allI impI)
    fix g F A assume g: "changes_only h g F A \<and> {l} \<inter> F = {}"
    with own have l: "l < length (hp_leases g)" "hp_leases g ! l = open_lease (map Ext ts)"
      by (auto simp: changes_only_def)
    show "gives_back l ts {l} g"
      unfolding gives_back_def run_release_open [OF l]
      using l by (simp add: rev_map run_items_append run_Ext comp_def changes_only_def upd_lease_def)
  qed
next
  case (taken_over l p ts ts' fp)
  show ?case
  proof (intro allI impI)
    fix g F A assume g: "changes_only h g F A \<and> insert l fp \<inter> F = {}"
    with taken_over have l: "l < length (hp_leases g)" "hp_leases g ! l = open_lease (LeaseRelease p # map Ext ts)"
      by (auto simp: changes_only_def)
    define g1 where "g1 = upd_lease l (\<lambda>x. \<lparr>ls_closed = True, ls_resources = [], ls_stop = None, ls_once = Running\<rparr>) g"
    define g2 where "g2 = g1\<lparr>hp_log := hp_log g1 @ map Released (rev ts)\<rparr>"
    have c2: "changes_only g g2 {l} {}"
      by (auto simp: g2_def g1_def changes_only_def upd_lease_def)
    have "changes_only h g2 (F \<union> {l}) (A \<union> {})"
      by (rule changes_only_trans [OF conjunct1 [OF g] c2])
    moreover have "fp \<inter> (F \<union> {l}) = {}" using g taken_over.hyps(4) by auto
    ultimately have "gives_back p ts' fp g2" using taken_over.IH by blast
    then obtain g3 where g3: "run_items [Run (LeaseRelease p)] g2 = Some g3"
        "hp_log g3 = hp_log g2 @ map Released (rev ts')" "changes_only g2 g3 fp {}"
      unfolding gives_back_def by blast
    have c3: "changes_only g g3 (insert l fp) {}"
      using changes_only_trans [OF c2 g3(3)] by simp
    have run: "run_items [Run (LeaseRelease l)] g = Some (upd_lease l (\<lambda>x. x\<lparr>ls_once := Done\<rparr>) g3)"
    proof -
      have "run_items [Run (LeaseRelease l)] g =
          run_items (map (\<lambda>t. Run (Ext t)) (rev ts) @ [Run (LeaseRelease p)] @ [EndOnce l]) g1"
        unfolding run_release_open [OF l] g1_def by (simp add: rev_map comp_def)
      also have "\<dots> = run_items ([Run (LeaseRelease p)] @ [EndOnce l]) g2"
        by (simp only: run_items_append run_Ext option.case g2_def)
      finally show ?thesis by (simp only: run_items_append g3(1) option.case) simp
    qed
    have "changes_only g (upd_lease l (\<lambda>x. x\<lparr>ls_once := Done\<rparr>) g3) (insert l fp) {}"
      using changes_only_trans [OF c3, of "upd_lease l (\<lambda>x. x\<lparr>ls_once := Done\<rparr>) g3" "{l}" "{}"] by simp
    with run g3(2) show "gives_back l (ts' @ ts) (insert l fp) g"
      by (simp add: gives_back_def g2_def g1_def)
  qed
qed

lemma holds_release:
  assumes "holds h l ts fp" and "changes_only h g F A" and "fp \<inter> F = {}"
  obtains g' where "run_items [Run (LeaseRelease l)] g = Some g'" "hp_log g' = hp_log g @ map Released (rev ts)"
    "changes_only g g' fp {}"
  using holds_gives_back [OF assms(1)] assms(2,3) unfolding gives_back_def by blast

text \<open>A new resource is the last one.\<close>

lemma holds_own:
  assumes "holds h l ts fp"
  shows "\<exists>h'. run_items [Own l (Ext t)] h = Some h' \<and> holds h' l (ts @ [t]) fp \<and>
    hp_log h' = hp_log h \<and> hp_attempts h' = hp_attempts h \<and> changes_only h h' fp {}"
proof -
  have step: ?thesis
    if l: "l < length (hp_leases h)" "hp_leases h ! l = open_lease rs"
      and new: "holds (upd_lease l (\<lambda>x. open_lease (rs @ [Ext t])) h) l (ts @ [t]) fp" and fp: "l \<in> fp" for rs
  proof -
    have "run_items [Own l (Ext t)] h = Some (upd_lease l (\<lambda>x. open_lease (rs @ [Ext t])) h)"
      using l by (simp add: lease_Own_def open_lease_def upd_lease_def)
    with new fp show ?thesis by auto
  qed
  show ?thesis
    using assms
  proof (cases rule: holds.cases)
    case own
    then show ?thesis
      by (intro step [of "map Ext ts"]) (auto intro!: holds.own)
  next
    case (taken_over p us us' fq)
    have old: "holds (upd_lease l (\<lambda>x. open_lease ((LeaseRelease p # map Ext us) @ [Ext t])) h) p us' fq"
      by (rule holds_frame [OF taken_over(5), of _ "{l}" "{}"]) (use taken_over(6) in auto)
    have "holds (upd_lease l (\<lambda>x. open_lease ((LeaseRelease p # map Ext us) @ [Ext t])) h) l (us' @ (us @ [t])) (insert l fq)"
      by (rule holds.taken_over [OF _ _ old]) (use taken_over in auto)
    with taken_over show ?thesis by (intro step [of "LeaseRelease p # map Ext us"]) auto
  qed
qed

definition tracked :: "session_heap \<Rightarrow> nat \<Rightarrow> SessionBinding \<times> nat list \<Rightarrow> nat set \<Rightarrow> bool" where
  "tracked h a bt fp \<longleftrightarrow>
     a < length (hp_attempts h) \<and> at_finish (hp_attempts h ! a) = Some (fst bt) \<and> at_once (hp_attempts h ! a) = Fresh \<and>
     holds h (resources_of h a) (snd bt) fp"

lemma tracked_frame:
  "tracked h a bt fp \<Longrightarrow> changes_only h h' F A \<Longrightarrow> fp \<inter> F = {} \<Longrightarrow> a \<notin> A \<Longrightarrow> tracked h' a bt fp"
  using holds_frame [of h "resources_of h a" "snd bt" fp h' F A]
  by (auto simp: tracked_def changes_only_def resources_of_def)

lemma finish_tracked:
  assumes "tracked h a bt fp"
  shows "\<exists>h'. run_items [Finish a v] h = Some h' \<and> hp_log h' = hp_log h @ ending v bt \<and> changes_only h h' fp {a}"
proof -
  let ?r = "resources_of h a"
  define h1 where "h1 = emit (Finished (fst bt) v) (upd_attempt a (\<lambda>x. x\<lparr>at_once := Running\<rparr>) h)"
  have c1: "changes_only h h1 {} {a}" by (auto simp: h1_def changes_only_def emit_def upd_attempt_def)
  from assms have a: "a < length (hp_attempts h)" "at_finish (hp_attempts h ! a) = Some (fst bt)"
      "at_once (hp_attempts h ! a) = Fresh" and r: "holds h ?r (snd bt) fp"
    by (auto simp: tracked_def)
  from holds_release [OF r c1] obtain h2 where h2: "run_items [Run (LeaseRelease ?r)] h1 = Some h2"
      "hp_log h2 = hp_log h1 @ map Released (rev (snd bt))" "changes_only h1 h2 fp {}" by auto
  define h3 where "h3 = upd_attempt a (\<lambda>x. x\<lparr>at_once := Done\<rparr>) h2"
  have "run_items [Finish a v] h = run_items ([Run (LeaseRelease ?r)] @ [EndFinish a]) h1"
    using a by (simp add: attempt_Finish_def h1_def resources_of_def)
  then have "run_items [Finish a v] h = Some h3"
    by (simp only: run_items_append h2(1) option.case) (simp add: h3_def)
  moreover have "hp_log h3 = hp_log h @ ending v bt"
    by (simp add: h3_def h2(2) h1_def ending_def)
  moreover have "changes_only h h3 fp {a}"
  proof -
    have "changes_only h h2 fp {a}" using changes_only_trans [OF c1 h2(3)] by simp
    from changes_only_trans [OF this, of h3 "{}" "{a}"] show ?thesis by (simp add: h3_def)
  qed
  ultimately show ?thesis by blast
qed

text \<open>The simulation relation: every current attempt is tracked, and no two share a lease.\<close>

definition table_ok :: "session_heap \<Rightarrow> (int \<rightharpoonup> nat) \<Rightarrow> (int \<rightharpoonup> SessionBinding \<times> nat list) \<Rightarrow> (int \<Rightarrow> nat set) \<Rightarrow> bool" where
  "table_ok h es cur fp \<longleftrightarrow> dom es = dom cur \<and>
     (\<forall>i a bt. es i = Some a \<longrightarrow> cur i = Some bt \<longrightarrow> tracked h a bt (fp i)) \<and>
     (\<forall>i j a b. es i = Some a \<longrightarrow> es j = Some b \<longrightarrow> i \<noteq> j \<longrightarrow> fp i \<inter> fp j = {} \<and> a \<noteq> b)"

definition sim :: "SessionAttempts \<times> session_heap \<Rightarrow> session_spec \<Rightarrow> bool" where
  "sim sh sp \<longleftrightarrow> sa_closed (fst sh) = ss_closed sp \<and> hp_log (snd sh) = ss_log sp \<and>
     (\<exists>fp. table_ok (snd sh) (sa_entries (fst sh)) (ss_current sp) fp)"

lemma table_ok_frame:
  assumes "table_ok h es cur fp" and "changes_only h h' F A"
    and "\<And>i a. es i = Some a \<Longrightarrow> fp i \<inter> F = {} \<and> a \<notin> A"
  shows "table_ok h' es cur fp"
  unfolding table_ok_def
proof (intro conjI allI impI)
  fix i a bt assume "es i = Some a" "cur i = Some bt"
  with assms(1) have "tracked h a bt (fp i)" unfolding table_ok_def by blast
  from tracked_frame [OF this assms(2)] assms(3) [OF \<open>es i = Some a\<close>] show "tracked h' a bt (fp i)" by simp
qed (use assms(1) in \<open>auto simp: table_ok_def\<close>)

lemma table_ok_remove: "table_ok h es cur fp \<Longrightarrow> table_ok h (es(i := None)) (cur(i := None)) fp"
  by (auto simp: table_ok_def split: if_splits)

lemma table_ok_put:
  assumes "table_ok h es cur fp" and "tracked h a bt F"
    and "\<And>j c. j \<noteq> i \<Longrightarrow> es j = Some c \<Longrightarrow> F \<inter> fp j = {} \<and> c \<noteq> a"
  shows "table_ok h (es(i \<mapsto> a)) (cur(i \<mapsto> bt)) (fp(i := F))"
  unfolding table_ok_def
proof (intro conjI allI impI)
  show "dom (es(i \<mapsto> a)) = dom (cur(i \<mapsto> bt))" using assms(1) by (simp add: table_ok_def)
next
  fix j c u assume "(es(i \<mapsto> a)) j = Some c" "(cur(i \<mapsto> bt)) j = Some u"
  then show "tracked h c u ((fp(i := F)) j)"
  proof (cases "j = i")
    case False
    with \<open>(es(i \<mapsto> a)) j = Some c\<close> \<open>(cur(i \<mapsto> bt)) j = Some u\<close> have "es j = Some c" "cur j = Some u" by auto
    with assms(1) False show ?thesis unfolding table_ok_def by (metis fun_upd_other)
  qed (use assms(2) in auto)
next
  fix j k c d assume "(es(i \<mapsto> a)) j = Some c" "(es(i \<mapsto> a)) k = Some d" "j \<noteq> k"
  then show "(fp(i := F)) j \<inter> (fp(i := F)) k = {}" "c \<noteq> d"
    using assms(1) assms(3) [of j c] assms(3) [of k d] unfolding table_ok_def
    by (cases "j = i"; cases "k = i"; auto)+
qed

lemma finish_all:
  "table_ok h es cur fp \<Longrightarrow> distinct order \<Longrightarrow> set order \<subseteq> dom cur \<Longrightarrow>
   \<exists>h'. run_items (map (\<lambda>a. Finish a v) (List.map_filter es order)) h = Some h' \<and>
     hp_log h' = hp_log h @ concat (map (ending v) (List.map_filter cur order))"
proof (induction order arbitrary: h es cur)
  case Nil
  then show ?case by simp
next
  case (Cons i order)
  from Cons.prems obtain bt where bt: "cur i = Some bt" by auto
  moreover have "dom es = dom cur" using Cons.prems(1) by (simp add: table_ok_def)
  ultimately obtain a where a: "es i = Some a" by blast
  with bt Cons.prems(1) have "tracked h a bt (fp i)" unfolding table_ok_def by blast
  from finish_tracked [OF this, of v] obtain h1 where h1: "run_items [Finish a v] h = Some h1"
      "hp_log h1 = hp_log h @ ending v bt" "changes_only h h1 (fp i) {a}" by blast
  define es' where "es' = es(i := None)"
  define cur' where "cur' = cur(i := None)"
  have "table_ok h1 es' cur' fp"
    unfolding es'_def cur'_def
    by (rule table_ok_frame [OF table_ok_remove [OF Cons.prems(1)] h1(3)])
      (use Cons.prems(1) a in \<open>auto simp: table_ok_def split: if_splits\<close>)
  moreover have "set order \<subseteq> dom cur'" using Cons.prems(2,3) by (auto simp: cur'_def)
  ultimately have "\<exists>h'. run_items (map (\<lambda>a. Finish a v) (List.map_filter es' order)) h1 = Some h' \<and>
      hp_log h' = hp_log h1 @ concat (map (ending v) (List.map_filter cur' order))"
    using Cons.prems(2) by (intro Cons.IH) auto
  moreover have "List.map_filter es' order = List.map_filter es order"
    "List.map_filter cur' order = List.map_filter cur order"
    using Cons.prems(2) by (auto simp: List.map_filter_def es'_def cur'_def intro!: map_cong filter_cong)
  ultimately obtain h2 where h2: "run_items (map (\<lambda>a. Finish a v) (List.map_filter es order)) h1 = Some h2"
      "hp_log h2 = hp_log h1 @ concat (map (ending v) (List.map_filter cur order))"
    by auto
  have "run_items (map (\<lambda>a. Finish a v) (List.map_filter es (i # order))) h =
      run_items ([Finish a v] @ map (\<lambda>a. Finish a v) (List.map_filter es order)) h"
    by (simp add: a List.map_filter_simps)
  also have "\<dots> = Some h2" by (simp only: run_items_append h1(1) option.case h2(1))
  finally show ?case using h1(2) h2(2) bt by (simp add: List.map_filter_simps)
qed

section \<open>The methods implement the specification\<close>

lemma sim_Track:
  assumes "sim (s, h) sp"
  shows "\<exists>sh'. Track b (s, h) = Some sh' \<and> sim sh' (spec_step (OTrack b) sp)"
proof (cases "sb_SessionID b = []")
  case True
  with assms show ?thesis by (simp add: Track_def)
next
  case named: False
  let ?l = "length (hp_leases h)" and ?a = "length (hp_attempts h)"
  define h1 where "h1 = h\<lparr>hp_leases := hp_leases h @ [open_lease []],
      hp_attempts := hp_attempts h @ [\<lparr>at_resources = ?l, at_finish = Some b, at_once = Fresh\<rparr>]\<rparr>"
  have new: "NewAttemptLease None (Some b) [] h = (?a, [], h1)"
    by (simp add: NewAttemptLease_def NewLease_def Let_def h1_def open_lease_def List.map_filter_simps)
  have c1: "changes_only h h1 {} {}" by (auto simp: changes_only_def h1_def nth_append)
  have fresh: "tracked h1 ?a (b, []) {?l}"
    by (auto simp: tracked_def h1_def resources_of_def nth_append intro!: holds.own)
  from assms obtain fp where tab: "table_ok h (sa_entries s) (ss_current sp) fp"
    and cl: "sa_closed s = ss_closed sp" and log: "hp_log h = ss_log sp" by (auto simp: sim_def)
  have tab1: "table_ok h1 (sa_entries s) (ss_current sp) fp" by (rule table_ok_frame [OF tab c1]) simp
  have old: "a < ?a \<and> (\<forall>k \<in> fp i. k < ?l)" if "sa_entries s i = Some a" for i a
  proof -
    have "i \<in> dom (ss_current sp)" using that tab unfolding table_ok_def by blast
    then obtain bt where "ss_current sp i = Some bt" by blast
    with that tab have "tracked h a bt (fp i)" unfolding table_ok_def by blast
    with holds_bound show ?thesis unfolding tracked_def by blast
  qed
  show ?thesis
  proof (cases "sa_closed s")
    case True
    from finish_tracked [OF fresh, of False] obtain h2 where h2: "run_items [Finish ?a False] h1 = Some h2"
        "hp_log h2 = hp_log h1 @ ending False (b, [])" "changes_only h1 h2 {?l} {?a}" by blast
    have run: "run_items [Run (AttemptRelease ?a)] h1 = Some h2" using h2(1) by simp
    have tab2: "table_ok h2 (sa_entries s) (ss_current sp) fp"
      by (rule table_ok_frame [OF tab1 h2(3)]) (use old in fastforce)
    have "Track b (s, h) = Some (s, h2)"
      unfolding Track_def prod.case using named True by (simp only: new prod.case append_Nil run if_True if_False option.map)
    with tab2 cl log named True h2(2) show ?thesis by (auto simp: sim_def ending_def h1_def)
  next
    case open1: False
    show ?thesis
    proof (cases "sa_entries s (sb_ProviderID b)")
      case None
      have "ss_current sp (sb_ProviderID b) = None" using None tab unfolding table_ok_def by (metis domIff)
      moreover have "table_ok h1 ((sa_entries s)(sb_ProviderID b \<mapsto> ?a)) ((ss_current sp)(sb_ProviderID b \<mapsto> (b, [])))
          (fp(sb_ProviderID b := {?l}))"
        by (rule table_ok_put [OF tab1 fresh]) (use old in fastforce)
      ultimately show ?thesis
        using named open1 None cl log by (auto simp: Track_def new sim_def h1_def)
    next
      case (Some a)
      have "sb_ProviderID b \<in> dom (ss_current sp)" using Some tab unfolding table_ok_def by blast
      then obtain bt where bt: "ss_current sp (sb_ProviderID b) = Some bt" by blast
      with Some tab1 have tr: "tracked h1 a bt (fp (sb_ProviderID b))" unfolding table_ok_def by blast
      define h2 where "h2 = upd_lease ?l (\<lambda>x. open_lease [LeaseRelease (resources_of h1 a)]) h1"
      have c2: "changes_only h1 h2 {?l} {}" by (simp add: h2_def)
      have run: "run_items [Own (resources_of h1 ?a) (LeaseRelease (resources_of h1 a))] h1 = Some h2"
        by (simp add: lease_Own_def h2_def h1_def resources_of_def open_lease_def upd_lease_def)
      have tr2: "tracked h2 a bt (fp (sb_ProviderID b))"
        by (rule tracked_frame [OF tr c2]) (use old [OF Some] in auto)
      have same: "resources_of h2 a = resources_of h1 a" by (simp add: resources_of_def h2_def)
      have "holds h2 ?l (snd bt @ []) (insert ?l (fp (sb_ProviderID b)))"
        by (rule holds.taken_over [of _ _ "resources_of h1 a"])
          (use tr2 same old [OF Some] in \<open>auto simp: h2_def h1_def tracked_def\<close>)
      then have tr3: "tracked h2 ?a (b, snd bt) (insert ?l (fp (sb_ProviderID b)))"
        by (simp add: tracked_def resources_of_def h2_def h1_def nth_append)
      have tab2: "table_ok h2 (sa_entries s) (ss_current sp) fp"
        by (rule table_ok_frame [OF tab1 c2]) (use old in fastforce)
      have "insert ?l (fp (sb_ProviderID b)) \<inter> fp j = {} \<and> c \<noteq> ?a"
        if "j \<noteq> sb_ProviderID b" "sa_entries s j = Some c" for j c
      proof -
        have "fp (sb_ProviderID b) \<inter> fp j = {}" using tab Some that unfolding table_ok_def by metis
        with old [OF that(2)] show ?thesis by auto
      qed
      from table_ok_put [OF tab2 tr3 this]
      have "table_ok h2 ((sa_entries s)(sb_ProviderID b \<mapsto> ?a)) ((ss_current sp)(sb_ProviderID b \<mapsto> (b, snd bt)))
          (fp(sb_ProviderID b := insert ?l (fp (sb_ProviderID b))))" by blast
      moreover have "hp_log h2 = hp_log h" by (simp add: h2_def h1_def)
      ultimately show ?thesis
        using named open1 Some cl log bt run by (auto simp: Track_def new sim_def)
    qed
  qed
qed

lemma table_ok_empty: "table_ok h Map.empty Map.empty fp"
  by (simp add: table_ok_def)

lemma sim_Own:
  assumes "sim (s, h) sp"
  shows "\<exists>sh'. session_Own i (map_option Ext t) (s, h) = Some sh' \<and> sim sh' (spec_step (OOwn i t) sp)"
proof (cases t)
  case None
  with assms show ?thesis by (simp add: session_Own_def)
next
  case t: (Some u)
  from assms obtain fp where tab: "table_ok h (sa_entries s) (ss_current sp) fp"
    and cl: "sa_closed s = ss_closed sp" and log: "hp_log h = ss_log sp" by (auto simp: sim_def)
  have dom: "dom (sa_entries s) = dom (ss_current sp)" using tab by (simp add: table_ok_def)
  show ?thesis
  proof (cases "sa_entries s i")
    case None
    then have none: "ss_current sp i = None" using dom by blast
    have "table_ok (emit (Released u) h) (sa_entries s) (ss_current sp) fp"
      by (rule table_ok_frame [OF tab, of _ "{}" "{}"]) auto
    with None none tab cl log t show ?thesis by (auto simp: session_Own_def sim_def)
  next
    case (Some a)
    then obtain bt where bt: "ss_current sp i = Some bt" using dom by blast
    with Some tab have tr: "tracked h a bt (fp i)" unfolding table_ok_def by blast
    from holds_own [of h "resources_of h a" "snd bt" "fp i" u] tr obtain h1 where
      h1: "run_items [Own (resources_of h a) (Ext u)] h = Some h1" "holds h1 (resources_of h a) (snd bt @ [u]) (fp i)"
        "hp_log h1 = hp_log h" "hp_attempts h1 = hp_attempts h" "changes_only h h1 (fp i) {}"
      unfolding tracked_def by blast
    have tr1: "tracked h1 a (fst bt, snd bt @ [u]) (fp i)"
      using tr h1(2,4) by (simp add: tracked_def resources_of_def)
    have rest: "table_ok h1 ((sa_entries s)(i := None)) ((ss_current sp)(i := None)) fp"
      by (rule table_ok_frame [OF table_ok_remove [OF tab] h1(5)])
        (use tab Some in \<open>auto simp: table_ok_def split: if_splits\<close>)
    have "fp i \<inter> fp j = {} \<and> c \<noteq> a" if "j \<noteq> i" "((sa_entries s)(i := None)) j = Some c" for j c
    proof -
      from that have "sa_entries s j = Some c" by simp
      with that(1) tab Some show ?thesis unfolding table_ok_def by metis
    qed
    from table_ok_put [where i = i, OF rest tr1 this]
    have "table_ok h1 ((sa_entries s)(i \<mapsto> a)) ((ss_current sp)(i \<mapsto> (fst bt, snd bt @ [u]))) (fp(i := fp i))"
      by simp
    moreover have "(sa_entries s)(i \<mapsto> a) = sa_entries s" using Some by auto
    ultimately have "table_ok h1 (sa_entries s) ((ss_current sp)(i \<mapsto> (fst bt, snd bt @ [u]))) fp" by simp
    moreover have "session_Own i (map_option Ext t) (s, h) = Some (s, h1)"
      using Some t h1(1) by (simp add: session_Own_def del: run_items.simps)
    ultimately show ?thesis using cl log h1(3) bt t by (auto simp: sim_def)
  qed
qed

lemma sim_Abandon:
  assumes "sim (s, h) sp"
  shows "\<exists>sh'. Abandon i (s, h) = Some sh' \<and> sim sh' (spec_step (OAbandon i) sp)"
proof -
  from assms obtain fp where tab: "table_ok h (sa_entries s) (ss_current sp) fp"
    and cl: "sa_closed s = ss_closed sp" and log: "hp_log h = ss_log sp" by (auto simp: sim_def)
  have dom: "dom (sa_entries s) = dom (ss_current sp)" using tab by (simp add: table_ok_def)
  note rest = table_ok_remove [OF tab, of i]
  show ?thesis
  proof (cases "sa_entries s i")
    case None
    then have "ss_current sp i = None" using dom by blast
    with None rest cl log show ?thesis by (auto simp: Abandon_def sim_def)
  next
    case (Some a)
    then obtain bt where bt: "ss_current sp i = Some bt" using dom by blast
    with Some tab have "tracked h a bt (fp i)" unfolding table_ok_def by blast
    from finish_tracked [OF this, of False] obtain h1 where h1: "run_items [Finish a False] h = Some h1"
      "hp_log h1 = hp_log h @ ending False bt" "changes_only h h1 (fp i) {a}" by blast
    have "table_ok h1 ((sa_entries s)(i := None)) ((ss_current sp)(i := None)) fp"
      by (rule table_ok_frame [OF rest h1(3)]) (use tab Some in \<open>auto simp: table_ok_def split: if_splits\<close>)
    moreover have "Abandon i (s, h) = Some (s\<lparr>sa_entries := (sa_entries s)(i := None)\<rparr>, h1)"
      using Some h1(1) by (simp add: Abandon_def del: run_items.simps)
    ultimately show ?thesis using cl log h1(2) bt by (auto simp: sim_def)
  qed
qed

lemma sim_finish_all:
  assumes "sim (s, h) sp" and "distinct order" "set order = dom (ss_current sp)"
  obtains h' where "run_items (map (\<lambda>a. Finish a v) (List.map_filter (sa_entries s) order)) h = Some h'"
    "hp_log h' = ss_log sp @ concat (map (ending v) (List.map_filter (ss_current sp) order))"
proof -
  from assms(1) obtain fp where tab: "table_ok h (sa_entries s) (ss_current sp) fp" and log: "hp_log h = ss_log sp"
    by (auto simp: sim_def)
  from finish_all [OF tab assms(2), of v] assms(3) log that show ?thesis by auto
qed

lemma session_step_sim:
  assumes "sim sh sp" and "enumerated op sp"
  shows "\<exists>sh'. session_step op sh = Some sh' \<and> sim sh' (spec_step op sp)"
proof -
  obtain s h where sh: "sh = (s, h)" by fastforce
  note rel = assms(1) [unfolded sh]
  have cl: "sa_closed s = ss_closed sp" using rel by (simp add: sim_def)
  show ?thesis
  proof (cases op)
    case (OTrack b)
    with sim_Track [OF rel] sh show ?thesis by simp
  next
    case (OOwn i t)
    with sim_Own [OF rel] sh show ?thesis by simp
  next
    case (OAbandon i)
    with sim_Abandon [OF rel] sh show ?thesis by simp
  next
    case (OReset order)
    with assms(2) sim_finish_all [OF rel, of order False] obtain h' where
      "run_items (map (\<lambda>a. Finish a False) (List.map_filter (sa_entries s) order)) h = Some h'"
      "hp_log h' = ss_log sp @ concat (map (ending False) (List.map_filter (ss_current sp) order))" by auto
    with OReset cl sh table_ok_empty show ?thesis by (auto simp: Reset_def sim_def)
  next
    case (OFinish order v)
    show ?thesis
    proof (cases "ss_closed sp")
      case True
      with OFinish rel cl sh show ?thesis by (simp add: session_Finish_def)
    next
      case False
      with OFinish assms(2) sim_finish_all [OF rel, of order v] obtain h' where
        "run_items (map (\<lambda>a. Finish a v) (List.map_filter (sa_entries s) order)) h = Some h'"
        "hp_log h' = ss_log sp @ concat (map (ending v) (List.map_filter (ss_current sp) order))" by auto
      with OFinish False cl sh table_ok_empty show ?thesis by (auto simp: session_Finish_def sim_def)
    qed
  qed
qed

lemma session_run_sim:
  "sim sh sp \<Longrightarrow> all_enumerated ops sp \<Longrightarrow>
   \<exists>sh'. session_run ops sh = Some sh' \<and> sim sh' (fold spec_step ops sp)"
proof (induction ops arbitrary: sh sp)
  case (Cons op ops)
  from Cons.prems obtain sh1 where "session_step op sh = Some sh1" "sim sh1 (spec_step op sp)"
    using session_step_sim by fastforce
  with Cons.IH [of sh1] Cons.prems(2) show ?case by auto
qed simp

text \<open>
  C17: every sequence of the methods of session attempts, with each map enumerated in any order, runs
  to its end, and finishes the same bindings with the same outcomes and releases the same
  resources in the same order as the table of bindings and resources that specifies it.
\<close>

theorem session_attempts_refine:
  assumes "all_enumerated ops spec_start"
  shows "\<exists>s h. session_run ops (NewSessionAttempts, empty_heap) = Some (s, h) \<and>
    hp_log h = ss_log (fold spec_step ops spec_start) \<and> sa_closed s = ss_closed (fold spec_step ops spec_start)"
proof -
  have "sim (NewSessionAttempts, empty_heap) spec_start"
    by (auto simp: sim_def NewSessionAttempts_def empty_heap_def spec_start_def table_ok_empty)
  from session_run_sim [OF this assms] show ?thesis by (auto simp: sim_def)
qed

text \<open>
  A provider is tracked twice, the second time with a new session; both resources go with the
  second binding, which is served.
\<close>

definition binding :: "int \<Rightarrow> string \<Rightarrow> SessionBinding" where
  "binding i name = \<lparr>sb_ProviderID = i, sb_SessionID = name, sb_Enabled = True, sb_Limit = 2, sb_IdleTimeout = 0\<rparr>"

lemma session_attempts_refine_witness:
  "\<exists>s h. session_run [OTrack (binding 1 ''a''), OOwn 1 (Some 7), OTrack (binding 1 ''b''), OOwn 1 (Some 8), OFinish [1] True]
      (NewSessionAttempts, empty_heap) = Some (s, h) \<and>
    hp_log h = [Finished (binding 1 ''b'') True, Released 8, Released 7]"
  using session_attempts_refine [of "[OTrack (binding 1 ''a''), OOwn 1 (Some 7), OTrack (binding 1 ''b''),
      OOwn 1 (Some 8), OFinish [1] True]"]
  by (auto simp: spec_start_def binding_def ending_def List.map_filter_simps)

end
