(* ===== verification/Sched_Images.thy ===== *)
theory Sched_Images
  imports Sched_Lease
begin

text \<open>
  The limiter of concurrent image requests (\<^verbatim>\<open>scheduler/image_limiter.go\<close>). The limiter is what its mutex
  protects; the notification channel is its generation, and channels of earlier generations are
  closed. A request of \<open>acquire\<close> is a small state machine between the critical sections, and
  \<open>image_step\<close> lets any request go on at any time: every interleaving is a list of \<open>image_action\<close>s.
  The release functions run once because they are leases (\<open>released_exactly_once\<close>).
\<close>

record ImageConcurrencyLimiter =
  im_notify :: "nat option"
  im_limit :: int
  im_active :: int
  im_waiting :: int
  im_enabled :: bool

definition new_limiter :: ImageConcurrencyLimiter where
  "new_limiter = \<lparr>im_notify = None, im_limit = 0, im_active = 0, im_waiting = 0, im_enabled = False\<rparr>"

datatype try_result = TryAcquired | TryRefused | TryWait nat

definition tryAcquireLocked ::
  "bool \<Rightarrow> int \<Rightarrow> bool \<Rightarrow> int \<Rightarrow> ImageConcurrencyLimiter \<Rightarrow> try_result \<times> ImageConcurrencyLimiter" where
  "tryAcquireLocked enabled limit wait maxWaiting l =
     (let notify = (case im_notify l of None \<Rightarrow> 0 | Some g \<Rightarrow> g);
          l = l\<lparr>im_notify := Some notify, im_enabled := enabled, im_limit := limit\<rparr>
      in if im_active l < im_limit l then (TryAcquired, l\<lparr>im_active := im_active l + 1\<rparr>)
         else if \<not> wait then (TryRefused, l)
         else if maxWaiting > 0 \<and> im_waiting l \<ge> maxWaiting then (TryRefused, l)
         else (TryWait notify, l\<lparr>im_waiting := im_waiting l + 1\<rparr>))"

definition releaseFunc :: "ImageConcurrencyLimiter \<Rightarrow> ImageConcurrencyLimiter" where
  "releaseFunc l =
     (let l = (if im_active l > 0 then l\<lparr>im_active := im_active l - 1\<rparr> else l)
      in case im_notify l of None \<Rightarrow> l | Some g \<Rightarrow> l\<lparr>im_notify := Some (Suc g)\<rparr>)"

definition waiterReleaseFunc :: "ImageConcurrencyLimiter \<Rightarrow> ImageConcurrencyLimiter" where
  "waiterReleaseFunc l = (if im_waiting l > 0 then l\<lparr>im_waiting := im_waiting l - 1\<rparr> else l)"

record image_params =
  ip_enabled :: bool
  ip_limit :: int
  ip_wait :: bool
  ip_maxWaiting :: int

text \<open>
  Where a request is: about to take the mutex, waiting for a notification, holding a slot, or done.
\<close>

datatype image_request =
    Trying image_params
  | Waiting image_params nat
  | Holding
  | Refused
  | Bypassed
  | Returned

definition acquire_begin :: "bool \<Rightarrow> int \<Rightarrow> bool \<Rightarrow> duration \<Rightarrow> int \<Rightarrow> image_request" where
  "acquire_begin enabled limit wait timeout maxWaiting =
     (if \<not> enabled \<or> limit \<le> 0 then Bypassed
      else if wait \<and> timeout \<le> 0 then Refused
      else Trying \<lparr>ip_enabled = enabled, ip_limit = limit, ip_wait = wait, ip_maxWaiting = max 0 maxWaiting\<rparr>)"

text \<open>\<open>TryAcquire\<close> is an \<open>acquire\<close> that does not wait.\<close>

definition TryAcquire :: "bool \<Rightarrow> int \<Rightarrow> image_request" where
  "TryAcquire enabled limit = acquire_begin enabled limit False 0 0"

datatype image_action =
    AcquireBegin bool int bool duration int
  | AcquireTry nat
  | Notified nat
  | ContextDone nat
  | ReleaseSlot nat

fun image_step :: "image_action \<Rightarrow> ImageConcurrencyLimiter \<times> image_request list \<Rightarrow> ImageConcurrencyLimiter \<times> image_request list" where
  "image_step (AcquireBegin enabled limit wait timeout maxWaiting) (l, rs) =
     (l, rs @ [acquire_begin enabled limit wait timeout maxWaiting])"
| "image_step (AcquireTry i) (l, rs) =
     (if i < length rs
      then case rs ! i of
          Trying p \<Rightarrow>
            (case tryAcquireLocked (ip_enabled p) (ip_limit p) (ip_wait p) (ip_maxWaiting p) l of
               (TryAcquired, l) \<Rightarrow> (l, rs[i := Holding])
             | (TryRefused, l) \<Rightarrow> (l, rs[i := Refused])
             | (TryWait g, l) \<Rightarrow> (l, rs[i := Waiting p g]))
        | _ \<Rightarrow> (l, rs)
      else (l, rs))"
| "image_step (Notified i) (l, rs) =
     (if i < length rs
      then case rs ! i of
          Waiting p g \<Rightarrow> (if im_notify l \<noteq> Some g then (waiterReleaseFunc l, rs[i := Trying p]) else (l, rs))
        | _ \<Rightarrow> (l, rs)
      else (l, rs))"
| "image_step (ContextDone i) (l, rs) =
     (if i < length rs
      then case rs ! i of
          Waiting p g \<Rightarrow> (waiterReleaseFunc l, rs[i := Refused])
        | _ \<Rightarrow> (l, rs)
      else (l, rs))"
| "image_step (ReleaseSlot i) (l, rs) =
     (if i < length rs \<and> rs ! i = Holding then (releaseFunc l, rs[i := Returned]) else (l, rs))"

section \<open>The counters are the numbers of holders and waiters\<close>

fun is_waiting :: "image_request \<Rightarrow> bool" where
  "is_waiting (Waiting p g) = True"
| "is_waiting _ = False"

definition how_many :: "(image_request \<Rightarrow> bool) \<Rightarrow> image_request list \<Rightarrow> int" where
  "how_many P rs = int (length (filter P rs))"

lemma how_many_simps [simp]:
  "how_many P [] = 0" "how_many P (r # rs) = (if P r then 1 else 0) + how_many P rs"
  "how_many P (rs @ rs') = how_many P rs + how_many P rs'"
  by (simp_all add: how_many_def)

lemma how_many_update:
  "i < length rs \<Longrightarrow> how_many P (rs[i := r]) = how_many P rs + (if P r then 1 else 0) - (if P (rs ! i) then 1 else 0)"
proof (induction rs arbitrary: i)
  case (Cons x rs)
  then show ?case by (cases i) auto
qed simp

lemma how_many_pos: "i < length rs \<Longrightarrow> P (rs ! i) \<Longrightarrow> 0 < how_many P rs"
  unfolding how_many_def by (metis filter_empty_conv length_greater_0_conv nth_mem of_nat_0_less_iff)

definition counted :: "ImageConcurrencyLimiter \<times> image_request list \<Rightarrow> bool" where
  "counted s \<longleftrightarrow> im_active (fst s) = how_many (\<lambda>r. r = Holding) (snd s) \<and> im_waiting (fst s) = how_many is_waiting (snd s)"

lemma counted_step: "counted s \<Longrightarrow> counted (image_step a s)"
proof (cases s; cases a)
  fix l rs i
  assume c: "counted s" and s: "s = (l, rs)" and a: "a = AcquireTry i"
  show ?thesis
    using c unfolding s a
    by (auto simp: counted_def tryAcquireLocked_def Let_def how_many_update split: image_request.splits if_splits option.splits)
next
  fix l rs i
  assume c: "counted s" and s: "s = (l, rs)" and a: "a = Notified i"
  show ?thesis
    using c how_many_pos [of i rs is_waiting] unfolding s a
    by (auto simp: counted_def waiterReleaseFunc_def how_many_update split: image_request.splits)
next
  fix l rs i
  assume c: "counted s" and s: "s = (l, rs)" and a: "a = ContextDone i"
  show ?thesis
    using c how_many_pos [of i rs is_waiting] unfolding s a
    by (auto simp: counted_def waiterReleaseFunc_def how_many_update split: image_request.splits)
next
  fix l rs i
  assume c: "counted s" and s: "s = (l, rs)" and a: "a = ReleaseSlot i"
  show ?thesis
    using c how_many_pos [of i rs "\<lambda>r. r = Holding"] unfolding s a
    by (auto simp: counted_def releaseFunc_def Let_def how_many_update split: option.splits)
next
  fix l rs enabled limit wait timeout maxWaiting
  assume "counted s" "s = (l, rs)" "a = AcquireBegin enabled limit wait timeout maxWaiting"
  then show ?thesis by (auto simp: counted_def acquire_begin_def)
qed

section \<open>Capacity and wake-ups under one configuration\<close>

fun uniform :: "int \<Rightarrow> int \<Rightarrow> image_action \<Rightarrow> bool" where
  "uniform n m (AcquireBegin enabled limit wait timeout maxWaiting) = (limit = n \<and> maxWaiting = m)"
| "uniform n m _ = True"

fun params_ok :: "int \<Rightarrow> int \<Rightarrow> image_request \<Rightarrow> bool" where
  "params_ok n m (Trying p) = (ip_limit p = n \<and> ip_maxWaiting p = max 0 m \<and> ip_enabled p)"
| "params_ok n m (Waiting p g) = (ip_limit p = n \<and> ip_maxWaiting p = max 0 m \<and> ip_enabled p)"
| "params_ok n m _ = True"

text \<open>A waiter of the current generation means that the slots are all taken.\<close>

definition wakeable :: "int \<Rightarrow> ImageConcurrencyLimiter \<Rightarrow> image_request \<Rightarrow> bool" where
  "wakeable n l r = (case r of
     Waiting p g \<Rightarrow> (\<exists>cur. im_notify l = Some cur \<and> g \<le> cur \<and> (g = cur \<longrightarrow> im_active l = n))
   | _ \<Rightarrow> True)"

definition image_inv :: "int \<Rightarrow> int \<Rightarrow> ImageConcurrencyLimiter \<times> image_request list \<Rightarrow> bool" where
  "image_inv n m s \<longleftrightarrow> counted s \<and> (\<forall>r \<in> set (snd s). params_ok n m r \<and> wakeable n (fst s) r) \<and>
     im_active (fst s) \<le> n \<and> (0 < m \<longrightarrow> im_waiting (fst s) \<le> m)"

lemma all_update: "\<forall>r \<in> set rs. P r \<Longrightarrow> P v \<Longrightarrow> \<forall>r \<in> set (rs[i := v]). P r"
  using set_update_subset_insert [of rs i v] by blast

lemma wakeable_mono:
  assumes "wakeable n l r" and "im_notify l' = im_notify l" and "im_active l' = im_active l"
  shows "wakeable n l' r"
  using assms by (auto simp: wakeable_def split: image_request.splits)

lemma try_inv:
  assumes inv: "image_inv n m (l, rs)" and r: "rs ! i = Trying p" "i < length rs"
    and res: "tryAcquireLocked (ip_enabled p) (ip_limit p) (ip_wait p) (ip_maxWaiting p) l = (res, l')"
  shows "\<forall>r \<in> set rs. params_ok n m r \<and> wakeable n l' r" and "im_active l' \<le> n" and "0 < m \<longrightarrow> im_waiting l' \<le> m"
    and "\<And>g. res = TryWait g \<Longrightarrow> wakeable n l' (Waiting p g)"
proof -
  from r inv have p: "params_ok n m (Trying p)" unfolding image_inv_def by (metis nth_mem snd_conv)
  have keep: "wakeable n l' u" if "wakeable n l u" for u
    using that res p
    by (auto simp: wakeable_def tryAcquireLocked_def Let_def split: image_request.splits if_splits)
  then show "\<forall>r \<in> set rs. params_ok n m r \<and> wakeable n l' r"
    using inv by (auto simp: image_inv_def)
  show "im_active l' \<le> n" "0 < m \<longrightarrow> im_waiting l' \<le> m"
    using inv res p by (auto simp: image_inv_def tryAcquireLocked_def Let_def split: if_splits)
  show "\<And>g. res = TryWait g \<Longrightarrow> wakeable n l' (Waiting p g)"
    using inv res p by (auto simp: image_inv_def wakeable_def tryAcquireLocked_def Let_def split: if_splits option.splits)
qed

lemma waiter_leaves_inv:
  assumes inv: "image_inv n m (l, rs)" and r: "params_ok n m r" "\<not> is_waiting r" and "im_waiting l \<ge> 0"
  shows "\<forall>u \<in> set (rs[i := r]). params_ok n m u \<and> wakeable n (waiterReleaseFunc l) u"
    and "im_active (waiterReleaseFunc l) \<le> n" and "0 < m \<longrightarrow> im_waiting (waiterReleaseFunc l) \<le> m"
proof -
  have "wakeable n (waiterReleaseFunc l) u" if "wakeable n l u" for u
    by (rule wakeable_mono [OF that]) (simp_all add: waiterReleaseFunc_def)
  moreover have "wakeable n (waiterReleaseFunc l) r" using r(2) by (auto simp: wakeable_def split: image_request.splits)
  ultimately show "\<forall>u \<in> set (rs[i := r]). params_ok n m u \<and> wakeable n (waiterReleaseFunc l) u"
    using inv r(1) by (intro all_update) (auto simp: image_inv_def)
  show "im_active (waiterReleaseFunc l) \<le> n" "0 < m \<longrightarrow> im_waiting (waiterReleaseFunc l) \<le> m"
    using inv by (auto simp: image_inv_def waiterReleaseFunc_def)
qed

lemma image_inv_step:
  assumes inv: "image_inv n m s" and "uniform n m a" and "0 < n"
  shows "image_inv n m (image_step a s)"
proof -
  obtain l rs where s: "s = (l, rs)" by fastforce
  have count: "counted (image_step a (l, rs))"
    using counted_step inv s by (simp add: image_inv_def)
  have waiting: "im_waiting l \<ge> 0" using inv s by (simp add: image_inv_def counted_def how_many_def)
  show ?thesis
  proof (cases a)
    case (AcquireBegin enabled limit wait timeout maxWaiting)
    with inv assms(2) count s show ?thesis
      by (auto simp: image_inv_def acquire_begin_def wakeable_def)
  next
    case (AcquireTry i)
    show ?thesis
    proof (cases "i < length rs \<and> (\<exists>p. rs ! i = Trying p)")
      case True
      then obtain p where p: "i < length rs" "rs ! i = Trying p" by blast
      obtain res l' where res: "tryAcquireLocked (ip_enabled p) (ip_limit p) (ip_wait p) (ip_maxWaiting p) l = (res, l')"
        by fastforce
      note t = try_inv [OF inv [unfolded s] p(2,1) res]
      have "params_ok n m (Trying p)" using inv p s unfolding image_inv_def by (metis nth_mem snd_conv)
      then have w: "params_ok n m (Waiting p g)" for g by simp
      show ?thesis
        using t w p res count AcquireTry
        by (cases res) (auto simp: s image_inv_def wakeable_def dest!: set_update_subset_insert [THEN subsetD])
    qed (use inv s AcquireTry in \<open>auto split: image_request.splits\<close>)
  next
    case (Notified i)
    show ?thesis
    proof (cases "\<exists>p g. i < length rs \<and> rs ! i = Waiting p g \<and> im_notify l \<noteq> Some g")
      case True
      then obtain p g where p: "i < length rs" "rs ! i = Waiting p g" "im_notify l \<noteq> Some g" by blast
      have "params_ok n m (Waiting p g)" using inv p s unfolding image_inv_def by (metis nth_mem snd_conv)
      then have "params_ok n m (Trying p)" by simp
      with waiter_leaves_inv(1) [OF inv [unfolded s] this _ waiting, of i]
          waiter_leaves_inv(2,3) [OF inv [unfolded s] this _ waiting] p count Notified show ?thesis
        by (simp add: s image_inv_def)
    qed (use inv s Notified in \<open>auto split: image_request.splits\<close>)
  next
    case (ContextDone i)
    show ?thesis
    proof (cases "\<exists>p g. i < length rs \<and> rs ! i = Waiting p g")
      case True
      with waiter_leaves_inv(1) [OF inv [unfolded s] _ _ waiting, of Refused i]
          waiter_leaves_inv(2,3) [OF inv [unfolded s] _ _ waiting, of Refused] count ContextDone show ?thesis
        by (auto simp: s image_inv_def)
    qed (use inv s ContextDone in \<open>auto split: image_request.splits\<close>)
  next
    case (ReleaseSlot i)
    show ?thesis
    proof (cases "i < length rs \<and> rs ! i = Holding")
      case True
      have "wakeable n (releaseFunc l) u" if "wakeable n l u" for u
        using that by (auto simp: wakeable_def releaseFunc_def Let_def split: image_request.splits)
      then have "\<forall>u \<in> set (rs[i := Returned]). params_ok n m u \<and> wakeable n (releaseFunc l) u"
        using inv s by (intro all_update) (auto simp: image_inv_def wakeable_def split: image_request.splits)
      moreover have "im_active (releaseFunc l) \<le> n \<and> (0 < m \<longrightarrow> im_waiting (releaseFunc l) \<le> m)"
        using inv s assms(3) by (auto simp: image_inv_def releaseFunc_def Let_def split: option.splits)
      ultimately show ?thesis using True count ReleaseSlot by (auto simp: s image_inv_def)
    qed (use inv s ReleaseSlot in auto)
  qed
qed

lemma image_inv_run:
  "\<forall>a \<in> set as. uniform n m a \<Longrightarrow> 0 < n \<Longrightarrow> image_inv n m s \<Longrightarrow> image_inv n m (fold image_step as s)"
  by (induction as arbitrary: s) (simp_all add: image_inv_step del: split_paired_All)

text \<open>
  C22: under one configuration (limit n, at most m waiting) and every interleaving of requests,
  notifications, timeouts and releases, at most n requests hold a slot and, when m is positive, at
  most m wait; and no wake-up is lost: whenever fewer than n hold a slot, every waiting request, if
  it goes on, gets one.
\<close>

theorem image_limiter_safe:
  assumes "\<forall>a \<in> set as. uniform n m a" and "0 < n" and "fold image_step as (new_limiter, []) = (l, rs)"
  shows "how_many (\<lambda>r. r = Holding) rs \<le> n \<and> (0 < m \<longrightarrow> how_many is_waiting rs \<le> m) \<and>
    (how_many (\<lambda>r. r = Holding) rs < n \<longrightarrow>
      (\<forall>i < length rs. is_waiting (rs ! i) \<longrightarrow>
        snd (image_step (AcquireTry i) (image_step (Notified i) (l, rs))) ! i = Holding))"
proof -
  have "image_inv n m (new_limiter, [])"
    using assms(2) by (simp add: image_inv_def counted_def new_limiter_def)
  from image_inv_run [OF assms(1,2) this] have inv: "image_inv n m (l, rs)" by (simp add: assms(3))
  then have active: "im_active l = how_many (\<lambda>r. r = Holding) rs" and waiting: "im_waiting l = how_many is_waiting rs"
    by (auto simp: image_inv_def counted_def)
  have "snd (image_step (AcquireTry i) (image_step (Notified i) (l, rs))) ! i = Holding"
    if "how_many (\<lambda>r. r = Holding) rs < n" "i < length rs" "is_waiting (rs ! i)" for i
  proof -
    from that(3) obtain p g where w: "rs ! i = Waiting p g" by (cases "rs ! i") auto
    have "params_ok n m (rs ! i) \<and> wakeable n l (rs ! i)" using inv that(2) by (simp add: image_inv_def)
    with w that(1) active have "ip_limit p = n" "im_notify l \<noteq> Some g" by (auto simp: wakeable_def)
    with that w active show ?thesis
      by (auto simp: tryAcquireLocked_def Let_def waiterReleaseFunc_def)
  qed
  with inv active waiting show ?thesis by (auto simp: image_inv_def)
qed

text \<open>One slot, two requests; the second waits, the first returns its slot.\<close>

lemma image_limiter_safe_witness:
  "fold image_step [AcquireBegin True 1 True 5 3, AcquireBegin True 1 True 5 3, AcquireTry 0, AcquireTry 1, ReleaseSlot 0]
     (new_limiter, []) = (\<lparr>im_notify = Some 1, im_limit = 1, im_active = 0, im_waiting = 1, im_enabled = True\<rparr>,
       [Returned, Waiting \<lparr>ip_enabled = True, ip_limit = 1, ip_wait = True, ip_maxWaiting = 3\<rparr> 0]) \<and>
   how_many (\<lambda>r. r = Holding) [Returned, Waiting \<lparr>ip_enabled = True, ip_limit = 1, ip_wait = True, ip_maxWaiting = 3\<rparr> 0] \<le> 1"
proof -
  have run: "fold image_step [AcquireBegin True 1 True 5 3, AcquireBegin True 1 True 5 3, AcquireTry 0, AcquireTry 1, ReleaseSlot 0]
     (new_limiter, []) = (\<lparr>im_notify = Some 1, im_limit = 1, im_active = 0, im_waiting = 1, im_enabled = True\<rparr>,
       [Returned, Waiting \<lparr>ip_enabled = True, ip_limit = 1, ip_wait = True, ip_maxWaiting = 3\<rparr> 0])"
    by (simp add: new_limiter_def acquire_begin_def tryAcquireLocked_def releaseFunc_def)
  from image_limiter_safe [OF _ _ run, of 1 3] run show ?thesis by simp
qed

end
