(* ===== verification/Kw_Matcher.thy ===== *)
theory Kw_Matcher
  imports Go_Base
begin

text \<open>
  The keyword matcher of content moderation (\<^verbatim>\<open>moderation/keyword_matcher.go\<close>): an Aho-Corasick automaton
  in arrays. Building: a trie whose edges are linked lists inside one array, failure links in
  breadth-first order, then the edges packed and sorted for binary search.
  \<^item> An index that is -1 in Go is None; the other indices are natural numbers. They agree with the
    32-bit integers of the code as long as the keywords have fewer than 2 ^ 31 bytes together.
  \<^item> A byte is a \<open>char\<close>; \<open>lower\<close> is \<^verbatim>\<open>strings.ToLower\<close>, a parameter.
  \<^item> Following the linked lists, the failure links and the queue is bounded by fuel. A list ends within
    as many steps as there are edges, because \<open>nextSibling\<close> points backwards (\<open>Kw_Trie\<close>); running
    out of fuel in the other loops is None, which \<open>Kw_Links\<close> and \<open>Kw_Match\<close> show never to happen.
\<close>

record kw_node =
  nd_failure :: nat
  nd_bestKeyword :: "nat option"
  nd_edgeStart :: nat
  nd_edgeCount :: nat

record kw_edge =
  ke_target :: nat
  ke_label :: char

record build_edge =
  be_target :: nat
  be_nextSibling :: "nat option"
  be_label :: char

record matcher =
  mt_nodes :: "kw_node list"
  mt_edges :: "kw_edge list"
  mt_rootTransitions :: "char \<Rightarrow> nat"
  mt_keywords :: "string list"

definition new_node :: kw_node where
  "new_node = \<lparr>nd_failure = 0, nd_bestKeyword = None, nd_edgeStart = 0, nd_edgeCount = 0\<rparr>"

definition upd_node :: "nat \<Rightarrow> (kw_node \<Rightarrow> kw_node) \<Rightarrow> kw_node list \<Rightarrow> kw_node list" where
  "upd_node n f ns = ns[n := f (ns ! n)]"

definition first_edge :: "kw_node \<Rightarrow> nat option" where
  "first_edge nd = (if nd_edgeStart nd = 0 then None else Some (nd_edgeStart nd - 1))"

text \<open>The edges met from an edge on, along \<open>nextSibling\<close>.\<close>

fun edge_chain :: "nat \<Rightarrow> build_edge list \<Rightarrow> nat option \<Rightarrow> build_edge list" where
  "edge_chain 0 es i = []"
| "edge_chain (Suc fuel) es None = []"
| "edge_chain (Suc fuel) es (Some i) = es ! i # edge_chain fuel es (be_nextSibling (es ! i))"

definition build_edges_of :: "build_edge list \<Rightarrow> kw_node \<Rightarrow> build_edge list" where
  "build_edges_of es nd = edge_chain (length es) es (first_edge nd)"

definition build_transition :: "kw_node list \<Rightarrow> build_edge list \<Rightarrow> nat \<Rightarrow> char \<Rightarrow> nat option" where
  "build_transition ns es state label =
     (if state \<ge> length ns then None
      else map_option be_target (find (\<lambda>e. be_label e = label) (build_edges_of es (ns ! state))))"

definition min_keyword :: "nat option \<Rightarrow> nat option \<Rightarrow> nat option" where
  "min_keyword left right =
     (case left of
        None \<Rightarrow> right
      | Some l \<Rightarrow> (case right of None \<Rightarrow> left | Some r \<Rightarrow> if l < r then left else right))"

section \<open>The trie\<close>

definition insert_byte ::
  "char \<Rightarrow> kw_node list \<times> build_edge list \<times> nat \<Rightarrow> kw_node list \<times> build_edge list \<times> nat" where
  "insert_byte label s =
     (case s of (ns, es, state) \<Rightarrow>
        case build_transition ns es state label of
          Some next \<Rightarrow> (ns, es, next)
        | None \<Rightarrow>
            let next = length ns;
                es = es @ [\<lparr>be_target = next, be_nextSibling = first_edge (ns ! state), be_label = label\<rparr>]
            in (upd_node state (\<lambda>nd. nd\<lparr>nd_edgeStart := length es\<rparr>) (ns @ [new_node]), es, next))"

definition insert_keyword ::
  "(string \<Rightarrow> string) \<Rightarrow> nat \<times> string \<Rightarrow> kw_node list \<times> build_edge list \<Rightarrow> kw_node list \<times> build_edge list" where
  "insert_keyword lower ik s =
     (case ik of (keywordIndex, keyword) \<Rightarrow> case s of (ns, es) \<Rightarrow>
        if keyword = [] then (ns, es)
        else case fold insert_byte (lower keyword) (ns, es, 0) of (ns, es, state) \<Rightarrow>
          (case nd_bestKeyword (ns ! state) of
             Some current \<Rightarrow>
               if keywordIndex < current then (upd_node state (\<lambda>nd. nd\<lparr>nd_bestKeyword := Some keywordIndex\<rparr>) ns, es)
               else (ns, es)
           | None \<Rightarrow> (upd_node state (\<lambda>nd. nd\<lparr>nd_bestKeyword := Some keywordIndex\<rparr>) ns, es)))"

definition build_trie :: "(string \<Rightarrow> string) \<Rightarrow> string list \<Rightarrow> kw_node list \<times> build_edge list" where
  "build_trie lower keywords = fold (insert_keyword lower) (enumerate 0 keywords) ([new_node], [])"

section \<open>The failure links\<close>

text \<open>A loop whose body can run out of fuel.\<close>

fun each :: "('a \<Rightarrow> 's \<Rightarrow> 's option) \<Rightarrow> 'a list \<Rightarrow> 's \<Rightarrow> 's option" where
  "each f [] s = Some s"
| "each f (x # xs) s = (case f x s of None \<Rightarrow> None | Some s \<Rightarrow> each f xs s)"

fun find_fallback :: "nat \<Rightarrow> kw_node list \<Rightarrow> build_edge list \<Rightarrow> nat \<Rightarrow> char \<Rightarrow> nat option option" where
  "find_fallback 0 ns es failure label = None"
| "find_fallback (Suc fuel) ns es failure label =
     (case build_transition ns es failure label of
        Some fallback \<Rightarrow> Some (Some fallback)
      | None \<Rightarrow>
          if failure = 0 then Some None
          else find_fallback fuel ns es (nd_failure (ns ! failure)) label)"

definition link_edge ::
  "build_edge list \<Rightarrow> nat \<Rightarrow> build_edge \<Rightarrow> kw_node list \<times> nat list \<Rightarrow> (kw_node list \<times> nat list) option" where
  "link_edge es state edge s =
     (case s of (ns, queue) \<Rightarrow>
        case find_fallback (length ns) ns es (nd_failure (ns ! state)) (be_label edge) of
          None \<Rightarrow> None
        | Some fallback \<Rightarrow>
            let ns = (case fallback of
                  Some f \<Rightarrow> upd_node (be_target edge) (\<lambda>nd. nd\<lparr>nd_failure := f\<rparr>) ns
                | None \<Rightarrow> ns);
                best = min_keyword (nd_bestKeyword (ns ! be_target edge))
                  (nd_bestKeyword (ns ! nd_failure (ns ! be_target edge)))
            in Some (upd_node (be_target edge) (\<lambda>nd. nd\<lparr>nd_bestKeyword := best\<rparr>) ns, queue @ [be_target edge]))"

fun link_queue :: "nat \<Rightarrow> build_edge list \<Rightarrow> nat \<Rightarrow> kw_node list \<times> nat list \<Rightarrow> (kw_node list \<times> nat list) option" where
  "link_queue 0 es queueIndex (ns, queue) = (if queueIndex < length queue then None else Some (ns, queue))"
| "link_queue (Suc fuel) es queueIndex (ns, queue) =
     (if queueIndex < length queue
      then case each (link_edge es (queue ! queueIndex)) (build_edges_of es (ns ! (queue ! queueIndex))) (ns, queue) of
          None \<Rightarrow> None
        | Some s \<Rightarrow> link_queue fuel es (Suc queueIndex) s
      else Some (ns, queue))"

definition root_transitions :: "build_edge list \<Rightarrow> char \<Rightarrow> nat" where
  "root_transitions edges = fold (\<lambda>e t. t(be_label e := be_target e)) edges (\<lambda>_. 0)"

section \<open>Packing the edges\<close>

text \<open>Insertion sort from the right: \<open>outgoing\<close> is the sorted prefix, last element first.\<close>

fun insert_outgoing :: "kw_edge \<Rightarrow> kw_edge list \<Rightarrow> kw_edge list" where
  "insert_outgoing current [] = [current]"
| "insert_outgoing current (e # outgoing) =
     (if ke_label current < ke_label e then e # insert_outgoing current outgoing else current # e # outgoing)"

definition sort_outgoing :: "kw_edge list \<Rightarrow> kw_edge list" where
  "sort_outgoing outgoing = rev (fold insert_outgoing outgoing [])"

definition pack_node ::
  "build_edge list \<Rightarrow> nat \<Rightarrow> kw_node list \<times> kw_edge list \<Rightarrow> kw_node list \<times> kw_edge list" where
  "pack_node es nodeIndex s =
     (case s of (ns, edges) \<Rightarrow>
        let outgoing = sort_outgoing
              (map (\<lambda>e. \<lparr>ke_target = be_target e, ke_label = be_label e\<rparr>) (build_edges_of es (ns ! nodeIndex)))
        in (upd_node nodeIndex (\<lambda>nd. nd\<lparr>nd_edgeStart := length edges, nd_edgeCount := length outgoing\<rparr>) ns,
            edges @ outgoing))"

definition new_matcher :: "(string \<Rightarrow> string) \<Rightarrow> string list \<Rightarrow> matcher option option" where
  "new_matcher lower keywords =
     (if keywords = [] then Some None
      else case build_trie lower keywords of (ns, es) \<Rightarrow>
        if length ns = 1 then Some None
        else
          let roots = build_edges_of es (ns ! 0)
          in case link_queue (length ns) es 0 (ns, map be_target roots) of
               None \<Rightarrow> None
             | Some (ns, queue) \<Rightarrow>
                 (case fold (pack_node es) [0..<length ns] (ns, []) of
                    (ns, edges) \<Rightarrow>
                      Some (Some \<lparr>mt_nodes = ns, mt_edges = edges, mt_rootTransitions = root_transitions roots,
                        mt_keywords = keywords\<rparr>)))"

section \<open>Matching\<close>

function label_search :: "kw_edge list \<Rightarrow> char \<Rightarrow> nat \<Rightarrow> nat \<Rightarrow> nat" where
  "label_search edges label left right =
     (if left < right
      then let middle = left + (right - left) div 2
        in if ke_label (edges ! middle) < label then label_search edges label (middle + 1) right
           else label_search edges label left middle
      else left)"
  by pat_completeness auto
termination
  by (relation "measure (\<lambda>(edges, label, left, right). right - left)") auto

declare label_search.simps [simp del]

definition next_state :: "matcher \<Rightarrow> nat \<Rightarrow> char \<Rightarrow> nat" where
  "next_state m state label =
     (if state = 0 then mt_rootTransitions m label
      else if state \<ge> length (mt_nodes m) then 0
      else
        let node = mt_nodes m ! state;
            end = nd_edgeStart node + nd_edgeCount node;
            left = label_search (mt_edges m) label (nd_edgeStart node) end
        in if left < end \<and> ke_label (mt_edges m ! left) = label then ke_target (mt_edges m ! left) else 0)"

fun advance :: "nat \<Rightarrow> matcher \<Rightarrow> nat \<Rightarrow> char \<Rightarrow> nat option" where
  "advance 0 m state label = None"
| "advance (Suc fuel) m state label =
     (let next = next_state m state label
      in if next \<noteq> 0 then Some next
         else if state = 0 then Some 0
         else advance fuel m (nd_failure (mt_nodes m ! state)) label)"

fun scan :: "matcher \<Rightarrow> nat \<Rightarrow> nat option \<Rightarrow> string \<Rightarrow> nat option option" where
  "scan m state bestKeyword [] = Some bestKeyword"
| "scan m state bestKeyword (label # rest) =
     (case advance (length (mt_nodes m)) m state label of
        None \<Rightarrow> None
      | Some state \<Rightarrow>
          let bestKeyword = min_keyword bestKeyword (nd_bestKeyword (mt_nodes m ! state))
          in if bestKeyword = Some 0 then Some (Some 0) else scan m state bestKeyword rest)"

definition Match :: "(string \<Rightarrow> string) \<Rightarrow> matcher option \<Rightarrow> string \<Rightarrow> (string \<times> bool) option" where
  "Match lower m text =
     (case m of
        None \<Rightarrow> Some ([], False)
      | Some m \<Rightarrow>
          if text = [] \<or> mt_nodes m = [] \<or> mt_keywords m = [] then Some ([], False)
          else case scan m 0 None (lower text) of
              None \<Rightarrow> None
            | Some None \<Rightarrow> Some ([], False)
            | Some (Some k) \<Rightarrow> Some (if k \<ge> length (mt_keywords m) then ([], False) else (mt_keywords m ! k, True)))"

end
