(* ===== verification/Kw_Words.thy ===== *)
theory Kw_Words
  imports Go_Base
begin

text \<open>
  Words behind the keyword matcher: for a prefix-closed set \<open>T\<close> of words, \<open>lsuf T w\<close> is the longest
  suffix of \<open>w\<close> in \<open>T\<close>, and reading one more letter needs only that suffix. The locale collects the
  two facts about \<open>T\<close> that are used; \<open>Kw_Trie\<close> interprets it on the words of the built trie.
\<close>

fun lsuf :: "'a list set \<Rightarrow> 'a list \<Rightarrow> 'a list" where
  "lsuf T [] = []"
| "lsuf T (x # xs) = (if x # xs \<in> T then x # xs else lsuf T xs)"

text \<open>The longest proper suffix in \<open>T\<close>.\<close>

definition fail_word :: "'a list set \<Rightarrow> 'a list \<Rightarrow> 'a list" where
  "fail_word T w = lsuf T (tl w)"

lemma lsuf_suffix: "suffix (lsuf T w) w"
  by (induction w) (auto simp: suffix_Cons)

lemma lsuf_max: "suffix s w \<Longrightarrow> s \<in> T \<Longrightarrow> suffix s (lsuf T w)"
proof (induction w)
  case (Cons x w)
  then show ?case by (auto simp: suffix_Cons)
qed simp

lemma lsuf_id: "w \<in> T \<Longrightarrow> lsuf T w = w"
  by (cases w) auto

lemma suffix_antisym: "suffix s t \<Longrightarrow> suffix t s \<Longrightarrow> s = t"
  by (rule suffix_order.antisym)

lemma fail_word_length: "w \<noteq> [] \<Longrightarrow> length (fail_word T w) < length w"
  using suffix_length_le [OF lsuf_suffix [of T "tl w"]] by (cases w) (auto simp: fail_word_def)

lemma fail_word_suffix: "suffix (fail_word T w) w"
proof -
  have "suffix (tl w) w" by (cases w) (auto simp: suffix_Cons)
  with lsuf_suffix [of T "tl w"] show ?thesis
    unfolding fail_word_def by (rule suffix_order.order_trans)
qed

locale prefix_closed =
  fixes T :: "'a list set"
  assumes nil: "[] \<in> T"
    and butlast: "w @ [c] \<in> T \<Longrightarrow> w \<in> T"
begin

lemma lsuf_in: "lsuf T w \<in> T"
  by (induction w) (auto simp: nil)

lemma lsuf_eqI: "suffix s w \<Longrightarrow> s \<in> T \<Longrightarrow> (\<And>t. suffix t w \<Longrightarrow> t \<in> T \<Longrightarrow> suffix t s) \<Longrightarrow> lsuf T w = s"
  by (rule suffix_antisym) (auto intro: lsuf_max lsuf_suffix lsuf_in)

text \<open>One more letter.\<close>

lemma lsuf_snoc: "lsuf T (w @ [c]) = lsuf T (lsuf T w @ [c])"
proof (rule lsuf_eqI)
  have "suffix (lsuf T w @ [c]) (w @ [c])" by (simp add: lsuf_suffix)
  with lsuf_suffix [of T "lsuf T w @ [c]"] show "suffix (lsuf T (lsuf T w @ [c])) (w @ [c])"
    by (rule suffix_order.order_trans)
  show "lsuf T (lsuf T w @ [c]) \<in> T" by (rule lsuf_in)
next
  fix t assume t: "suffix t (w @ [c])" "t \<in> T"
  show "suffix t (lsuf T (lsuf T w @ [c]))"
  proof (rule lsuf_max)
    show "suffix t (lsuf T w @ [c])"
    proof (cases t rule: rev_cases)
      case (snoc u d)
      with t(1) have "d = c" "suffix u w" by auto
      moreover have "u \<in> T" using t(2) snoc butlast by simp
      ultimately show ?thesis using snoc lsuf_max [of u w T] by simp
    qed simp
  qed (fact t(2))
qed

text \<open>How the automaton finds it: try the letter, else follow the failure link.\<close>

lemma lsuf_step:
  assumes "u \<in> T"
  shows "lsuf T (u @ [c]) =
    (if u @ [c] \<in> T then u @ [c] else if u = [] then [] else lsuf T (fail_word T u @ [c]))"
proof (cases u)
  case Nil
  then show ?thesis by simp
next
  case (Cons x xs)
  show ?thesis
  proof (cases "u @ [c] \<in> T")
    case False
    then have "lsuf T (u @ [c]) = lsuf T (xs @ [c])" by (simp add: Cons)
    also have "\<dots> = lsuf T (lsuf T xs @ [c])" by (rule lsuf_snoc)
    finally show ?thesis using False by (simp add: Cons fail_word_def)
  qed (simp add: lsuf_id)
qed

lemma fail_word_snoc: "u \<noteq> [] \<Longrightarrow> u \<in> T \<Longrightarrow> fail_word T (u @ [c]) = lsuf T (fail_word T u @ [c])"
  using lsuf_snoc [of "tl u" c] by (cases u) (auto simp: fail_word_def)

lemma fail_word_in: "fail_word T w \<in> T"
  by (simp add: fail_word_def lsuf_in)

lemma fail_word_single: "fail_word T [c] = []"
  by (simp add: fail_word_def)

text \<open>The suffixes of a word in \<open>T\<close> are itself and those of its failure word.\<close>

lemma suffix_fail: "w \<in> T \<Longrightarrow> s \<in> T \<Longrightarrow> s \<noteq> [] \<Longrightarrow> suffix s w \<longleftrightarrow> s = w \<or> suffix s (fail_word T w)"
proof (cases w)
  case (Cons x xs)
  assume "w \<in> T" "s \<in> T" "s \<noteq> []"
  then show ?thesis
    using Cons lsuf_max [of s xs T] lsuf_suffix [of T xs] suffix_order.order_trans [of s "lsuf T xs" xs]
    by (auto simp: fail_word_def suffix_Cons)
qed (auto simp: fail_word_def)

lemma suffix_lsuf: "s \<in> T \<Longrightarrow> suffix s (lsuf T w) \<longleftrightarrow> suffix s w"
  using lsuf_max [of s w T] lsuf_suffix [of T w] suffix_order.order_trans by blast

text \<open>A word has fewer letters than there are words: its prefixes are words too.\<close>

lemma prefix_closed_card:
  assumes "finite T" and w: "w \<in> T"
  shows "length w < card T"
proof -
  have "take k w \<in> T" if "k \<le> length w" for k
    using that
  proof (induction "length w - k" arbitrary: k)
    case 0
    then show ?case using w by simp
  next
    case (Suc d)
    then have k: "k < length w" and d: "d = length w - Suc k" by auto
    from Suc(1) [OF d] k have "take (Suc k) w \<in> T" by simp
    with butlast [of "take k w" "w ! k"] k show ?case by (simp add: take_Suc_conv_app_nth)
  qed
  then have sub: "(\<lambda>k. take k w) ` {..length w} \<subseteq> T" by auto
  have "inj_on (\<lambda>k. take k w) {..length w}"
    by (rule inj_onI) (metis atMost_iff length_take min.absorb2)
  from card_image [OF this] card_mono [OF assms(1) sub] show ?thesis by simp
qed

end

section \<open>The least index\<close>

text \<open>The smallest index below \<open>n\<close> with a property.\<close>

definition least_index :: "nat \<Rightarrow> (nat \<Rightarrow> bool) \<Rightarrow> nat option" where
  "least_index n P = find P [0..<n]"

lemma least_index_None: "least_index n P = None \<longleftrightarrow> (\<forall>i < n. \<not> P i)"
  by (auto simp: least_index_def find_None_iff)

lemma least_index_Some: "least_index n P = Some i \<longleftrightarrow> i < n \<and> P i \<and> (\<forall>j < i. \<not> P j)"
  unfolding least_index_def find_Some_iff by (auto simp: nth_append)

lemma least_index_cong: "(\<And>i. i < n \<Longrightarrow> P i = Q i) \<Longrightarrow> least_index n P = least_index n Q"
  unfolding least_index_def by (intro find_cong) auto

end
