(* ===== verification/Kw_Trie.thy ===== *)
theory Kw_Trie
  imports Kw_Matcher Kw_Words
begin

text \<open>
  The trie of \<open>build_trie\<close>: \<open>ws\<close> gives every node its word. The words are the prefixes of the lowered
  keywords, a transition is one more letter, and \<open>nd_bestKeyword\<close> is the least index of a keyword
  that is the word of the node.
\<close>

section \<open>Linked lists of edges\<close>

definition chains_ok :: "build_edge list \<Rightarrow> bool" where
  "chains_ok es \<longleftrightarrow> (\<forall>i < length es. \<forall>j. be_nextSibling (es ! i) = Some j \<longrightarrow> j < i)"

lemma edge_chain_None [simp]: "edge_chain fuel es None = []"
  by (cases fuel) auto

lemma edge_chain_fuel:
  "chains_ok es \<Longrightarrow> i < length es \<Longrightarrow> i < f \<Longrightarrow> i < f' \<Longrightarrow> edge_chain f (es @ xs) (Some i) = edge_chain f' es (Some i)"
proof (induction i arbitrary: f f' rule: less_induct)
  case (less i)
  from less.prems obtain g g' where f: "f = Suc g" "f' = Suc g'" by (cases f; cases f') auto
  show ?case
  proof (cases "be_nextSibling (es ! i)")
    case None
    with less.prems f show ?thesis by (simp add: nth_append)
  next
    case (Some j)
    with less.prems have "j < i" by (auto simp: chains_ok_def)
    with less.IH [of j g g'] less.prems f Some show ?thesis by (simp add: nth_append)
  qed
qed

text \<open>The fuel is enough: the list of a node is what its first edge leads to.\<close>

lemma build_edges_unfold:
  assumes "chains_ok es" and "nd_edgeStart nd = Suc i" and "i < length es"
  shows "build_edges_of es nd = es ! i #
    (case be_nextSibling (es ! i) of None \<Rightarrow> [] | Some j \<Rightarrow> edge_chain (length es) es (Some j))"
proof -
  from assms(3) obtain g where g: "length es = Suc g" by (cases "length es") auto
  show ?thesis
  proof (cases "be_nextSibling (es ! i)")
    case None
    with assms g show ?thesis by (simp add: build_edges_of_def first_edge_def)
  next
    case (Some j)
    with assms have j: "j < i" by (auto simp: chains_ok_def)
    have "edge_chain g es (Some j) = edge_chain (length es) es (Some j)"
      using edge_chain_fuel [OF assms(1), of j g "length es" "[]"] j assms(3) g by simp
    with Some assms g show ?thesis by (simp add: build_edges_of_def first_edge_def)
  qed
qed

lemma build_edges_append:
  "chains_ok es \<Longrightarrow> nd_edgeStart nd \<le> length es \<Longrightarrow> build_edges_of (es @ xs) nd = build_edges_of es nd"
  using edge_chain_fuel [of es "nd_edgeStart nd - 1" "length (es @ xs)" "length es" xs]
  by (cases "nd_edgeStart nd") (auto simp: build_edges_of_def first_edge_def)

lemma build_edges_new:
  assumes "chains_ok es" and "nd_edgeStart nd \<le> length es" and "nd_edgeStart nd' = Suc (length es)"
    and "be_nextSibling e = first_edge nd"
  shows "build_edges_of (es @ [e]) nd' = e # build_edges_of es nd"
proof -
  have ok: "chains_ok (es @ [e])"
    using assms by (auto simp: chains_ok_def nth_append first_edge_def less_Suc_eq split: if_splits)
  show ?thesis
  proof (cases "nd_edgeStart nd")
    case 0
    with assms show ?thesis
      by (simp add: build_edges_unfold [OF ok assms(3)] build_edges_of_def first_edge_def)
  next
    case (Suc j)
    have "edge_chain (length (es @ [e])) (es @ [e]) (Some j) = edge_chain (length es) es (Some j)"
      by (rule edge_chain_fuel) (use assms Suc in auto)
    moreover have "build_edges_of (es @ [e]) nd' = e # edge_chain (length (es @ [e])) (es @ [e]) (Some j)"
      using build_edges_unfold [OF ok assms(3)] assms(4) Suc by (simp add: first_edge_def)
    moreover have "build_edges_of es nd = edge_chain (length es) es (Some j)"
      using Suc by (simp add: build_edges_of_def first_edge_def)
    ultimately show ?thesis by simp
  qed
qed

lemma find_SomeD: "find P xs = Some x \<Longrightarrow> x \<in> set xs \<and> P x"
  by (induction xs) (auto split: if_splits)

section \<open>The words of the nodes\<close>

definition trie_ok :: "kw_node list \<Rightarrow> build_edge list \<Rightarrow> string list \<Rightarrow> bool" where
  "trie_ok ns es ws \<longleftrightarrow>
     length ws = length ns \<and> ns \<noteq> [] \<and> ws ! 0 = [] \<and> distinct ws \<and> chains_ok es \<and>
     (\<forall>n < length ns. nd_edgeStart (ns ! n) \<le> length es) \<and>
     (\<forall>n < length ns. distinct (map be_target (build_edges_of es (ns ! n)))) \<and>
     (\<forall>n < length ns. \<forall>e \<in> set (build_edges_of es (ns ! n)).
        be_target e < length ns \<and> ws ! be_target e = ws ! n @ [be_label e]) \<and>
     (\<forall>m < length ns. ws ! m \<noteq> [] \<longrightarrow>
        (\<exists>n < length ns. \<exists>e \<in> set (build_edges_of es (ns ! n)). be_target e = m))"

lemma trie_okD:
  assumes "trie_ok ns es ws"
  shows "length ws = length ns" "0 < length ns" "ws ! 0 = []" "distinct ws" "chains_ok es"
    and "\<And>n. n < length ns \<Longrightarrow> nd_edgeStart (ns ! n) \<le> length es"
    and "\<And>n. n < length ns \<Longrightarrow> distinct (map be_target (build_edges_of es (ns ! n)))"
    and "\<And>n e. n < length ns \<Longrightarrow> e \<in> set (build_edges_of es (ns ! n)) \<Longrightarrow>
      be_target e < length ns \<and> ws ! be_target e = ws ! n @ [be_label e]"
    and "\<And>m. m < length ns \<Longrightarrow> ws ! m \<noteq> [] \<Longrightarrow>
      \<exists>n < length ns. \<exists>e \<in> set (build_edges_of es (ns ! n)). be_target e = m"
  using assms unfolding trie_ok_def by blast+

lemma trie_words_inject:
  assumes "trie_ok ns es ws" and "m < length ns" and "n < length ns" and "ws ! m = ws ! n"
  shows "m = n"
  using trie_okD(1,4) [OF assms(1)] assms(2-4) nth_eq_iff_index_eq by metis

text \<open>A node has an edge with a letter exactly if the longer word is in the trie.\<close>

lemma trie_edge:
  assumes "trie_ok ns es ws" and "n < length ns"
  shows "(\<exists>e \<in> set (build_edges_of es (ns ! n)). be_label e = c \<and> be_target e = m) \<longleftrightarrow>
    m < length ns \<and> ws ! m = ws ! n @ [c]"
proof
  assume "\<exists>e \<in> set (build_edges_of es (ns ! n)). be_label e = c \<and> be_target e = m"
  with trie_okD(8) [OF assms] show "m < length ns \<and> ws ! m = ws ! n @ [c]" by blast
next
  assume m: "m < length ns \<and> ws ! m = ws ! n @ [c]"
  with trie_okD(9) [OF assms(1), of m] obtain k e where k: "k < length ns"
      "e \<in> set (build_edges_of es (ns ! k))" "be_target e = m" by auto
  with trie_okD(8) [OF assms(1) k(1,2)] m have "ws ! k = ws ! n" "be_label e = c" by auto
  with trie_words_inject [OF assms(1) k(1) assms(2)] k(2,3)
  show "\<exists>e \<in> set (build_edges_of es (ns ! n)). be_label e = c \<and> be_target e = m" by blast
qed

lemma build_transition_Some:
  assumes "trie_ok ns es ws" and "n < length ns"
  shows "build_transition ns es n c = Some m \<longleftrightarrow> m < length ns \<and> ws ! m = ws ! n @ [c]"
proof -
  have "build_transition ns es n c = Some m"
    if m: "m < length ns \<and> ws ! m = ws ! n @ [c]"
  proof -
    from m trie_edge [OF assms] obtain e where e: "e \<in> set (build_edges_of es (ns ! n))" "be_label e = c" by blast
    then obtain e' where e': "find (\<lambda>e. be_label e = c) (build_edges_of es (ns ! n)) = Some e'"
      by (cases "find (\<lambda>e. be_label e = c) (build_edges_of es (ns ! n))") (auto simp: find_None_iff)
    then have "e' \<in> set (build_edges_of es (ns ! n))" "be_label e' = c"
      by (auto dest: find_SomeD)
    with trie_edge [OF assms, of c "be_target e'"] m trie_words_inject [OF assms(1), of "be_target e'" m]
    have "be_target e' = m" by auto
    with e' assms(2) show ?thesis by (simp add: build_transition_def)
  qed
  moreover have "m < length ns \<and> ws ! m = ws ! n @ [c]" if "build_transition ns es n c = Some m"
  proof -
    from that assms(2) obtain e where "e \<in> set (build_edges_of es (ns ! n))" "be_label e = c" "be_target e = m"
      by (auto simp: build_transition_def dest: find_SomeD split: if_splits)
    with trie_edge [OF assms] show ?thesis by blast
  qed
  ultimately show ?thesis by blast
qed

lemma build_transition_None:
  assumes "trie_ok ns es ws" and "n < length ns"
  shows "build_transition ns es n c = None \<longleftrightarrow> ws ! n @ [c] \<notin> set ws"
proof -
  have "build_transition ns es n c = None \<longleftrightarrow> (\<forall>m. build_transition ns es n c \<noteq> Some m)"
    by (cases "build_transition ns es n c") auto
  also have "\<dots> \<longleftrightarrow> ws ! n @ [c] \<notin> set ws"
    unfolding build_transition_Some [OF assms] in_set_conv_nth trie_okD(1) [OF assms(1)] by blast
  finally show ?thesis .
qed

lemma trie_prefix_closed: "trie_ok ns es ws \<Longrightarrow> prefix_closed (set ws)"
proof (unfold_locales, goal_cases)
  case 1
  then show ?case using trie_okD(1-3) [OF 1] by (metis nth_mem)
next
  case (2 w c)
  then obtain m where m: "m < length ns" "ws ! m = w @ [c]" using trie_okD(1) [OF 2(1)] by (auto simp: in_set_conv_nth)
  with trie_okD(9) [OF 2(1), of m] obtain n e where n: "n < length ns" "e \<in> set (build_edges_of es (ns ! n))"
      "be_target e = m" by auto
  with trie_okD(8) [OF 2(1) n(1,2)] m have "ws ! n = w" by auto
  with n(1) trie_okD(1) [OF 2(1)] show ?case by (metis nth_mem)
qed

section \<open>Growing the trie\<close>

lemma trie_ok_upd:
  assumes "trie_ok ns es ws" and "length ns' = length ns"
    and "\<And>n. n < length ns \<Longrightarrow> nd_edgeStart (ns' ! n) = nd_edgeStart (ns ! n)"
  shows "trie_ok ns' es ws"
proof -
  have "build_edges_of es (ns' ! n) = build_edges_of es (ns ! n)" if "n < length ns" for n
    using assms(3) [OF that] by (simp add: build_edges_of_def first_edge_def)
  moreover have "\<exists>n < length ns'. \<exists>e \<in> set (build_edges_of es (ns' ! n)). be_target e = m"
    if m: "m < length ns'" "ws ! m \<noteq> []" for m
  proof -
    from trie_okD(9) [OF assms(1), of m] m assms(2) obtain n e where "n < length ns"
      "e \<in> set (build_edges_of es (ns ! n))" "be_target e = m" by auto
    with calculation assms(2) show ?thesis by (intro exI [of _ n]) auto
  qed
  moreover have "ns' \<noteq> []" using trie_okD(2) [OF assms(1)] assms(2) by auto
  ultimately show ?thesis using trie_okD [OF assms(1)] assms(2,3) unfolding trie_ok_def by simp
qed

text \<open>The old nodes keep their words, best keywords and failure links; the new ones have none.\<close>

definition grown :: "kw_node list \<Rightarrow> string list \<Rightarrow> kw_node list \<Rightarrow> string list \<Rightarrow> bool" where
  "grown ns ws ns' ws' \<longleftrightarrow> (\<exists>vs. ws' = ws @ vs) \<and> length ns \<le> length ns' \<and>
     (\<forall>n < length ns'. nd_bestKeyword (ns' ! n) = (if n < length ns then nd_bestKeyword (ns ! n) else None) \<and>
        nd_failure (ns' ! n) = (if n < length ns then nd_failure (ns ! n) else 0))"

lemma grown_refl: "grown ns ws ns ws"
  by (simp add: grown_def)

lemma grown_trans: "grown ns ws ns1 ws1 \<Longrightarrow> grown ns1 ws1 ns2 ws2 \<Longrightarrow> grown ns ws ns2 ws2"
  by (fastforce simp: grown_def)

lemma grown_word: "grown ns ws ns' ws' \<Longrightarrow> length ws = length ns \<Longrightarrow> n < length ns \<Longrightarrow> ws' ! n = ws ! n"
  by (auto simp: grown_def nth_append)

lemma insert_byte_new:
  assumes ok: "trie_ok ns es ws" and state: "state < length ns" and new: "ws ! state @ [c] \<notin> set ws"
    and ns': "ns' = upd_node state (\<lambda>nd. nd\<lparr>nd_edgeStart := Suc (length es)\<rparr>) (ns @ [new_node])"
    and es': "es' = es @ [\<lparr>be_target = length ns, be_nextSibling = first_edge (ns ! state), be_label = c\<rparr>]"
  shows "trie_ok ns' es' (ws @ [ws ! state @ [c]])"
proof -
  let ?e = "\<lparr>be_target = length ns, be_nextSibling = first_edge (ns ! state), be_label = c\<rparr>"
  let ?ws = "ws @ [ws ! state @ [c]]"
  note D = trie_okD [OF ok]
  have edges: "build_edges_of es' (ns' ! n) =
      (if n = length ns then [] else if n = state then ?e # build_edges_of es (ns ! n) else build_edges_of es (ns ! n))"
    if "n < Suc (length ns)" for n
  proof -
    have "build_edges_of es' (ns' ! state) = ?e # build_edges_of es (ns ! state)"
      unfolding es' by (rule build_edges_new [OF D(5) D(6) [OF state]])
        (use state in \<open>auto simp: ns' upd_node_def nth_append\<close>)
    moreover have "build_edges_of es' (ns' ! n) = build_edges_of es (ns ! n)" if "n < length ns" "n \<noteq> state"
      using build_edges_append [OF D(5) D(6) [OF that(1)]] that state
      by (simp add: es' ns' upd_node_def nth_append)
    moreover have "build_edges_of es' (ns' ! length ns) = []"
      using state by (simp add: ns' upd_node_def build_edges_of_def first_edge_def new_node_def nth_append)
    ultimately show ?thesis using that state by auto
  qed
  have len: "length ns' = Suc (length ns)" by (simp add: ns' upd_node_def)
  have word: "?ws ! n = (if n < length ns then ws ! n else ws ! state @ [c])" if "n < Suc (length ns)" for n
    using that D(1) by (auto simp: nth_append less_Suc_eq)
  have old: "be_target e < length ns \<and> ws ! be_target e = ws ! n @ [be_label e]"
    if "n < length ns" "e \<in> set (build_edges_of es (ns ! n))" for n e
    by (rule D(8) [OF that])
  have "chains_ok es'"
    using D(5) D(6) [OF state] by (auto simp: es' chains_ok_def nth_append first_edge_def less_Suc_eq split: if_splits)
  moreover have "nd_edgeStart (ns' ! n) \<le> length es'" if "n < length ns'" for n
    using that D(6) state by (auto simp: ns' es' upd_node_def nth_append nth_list_update new_node_def less_Suc_eq le_Suc_eq)
  moreover have "distinct (map be_target (build_edges_of es' (ns' ! n)))" if "n < length ns'" for n
  proof -
    have "length ns \<notin> be_target ` set (build_edges_of es (ns ! k))" if "k < length ns" for k
      using old [OF that] by (metis imageE less_irrefl)
    with that D(7) [of n] state len show ?thesis by (auto simp: edges)
  qed
  moreover have "be_target e < length ns' \<and> ?ws ! be_target e = ?ws ! n @ [be_label e]"
    if "n < length ns'" "e \<in> set (build_edges_of es' (ns' ! n))" for n e
  proof (cases "n = state \<and> e = ?e")
    case False
    with that len edges have "n < length ns" "e \<in> set (build_edges_of es (ns ! n))" by (auto split: if_splits)
    with old [OF this] len word show ?thesis by simp
  qed (use len word state in simp)
  moreover have "\<exists>n < length ns'. \<exists>e \<in> set (build_edges_of es' (ns' ! n)). be_target e = m"
    if "m < length ns'" "?ws ! m \<noteq> []" for m
  proof (cases "m = length ns")
    case True
    have "state < length ns' \<and> ?e \<in> set (build_edges_of es' (ns' ! state))" using edges state len by simp
    with True show ?thesis by force
  next
    case False
    with that len word D(9) [of m] obtain n e where "n < length ns" "e \<in> set (build_edges_of es (ns ! n))" "be_target e = m"
      by auto
    with edges len show ?thesis by (intro exI [of _ n]) (auto intro!: bexI [of _ e])
  qed
  moreover have "length ?ws = length ns'" "ns' \<noteq> []" "?ws ! 0 = []" "distinct ?ws"
    using D(1-4) new len by (auto simp: nth_append)
  ultimately show ?thesis unfolding trie_ok_def by blast
qed

lemma insert_byte_ok:
  assumes ok: "trie_ok ns es ws" and state: "state < length ns" and ins: "insert_byte c (ns, es, state) = (ns', es', state')"
  shows "\<exists>ws'. trie_ok ns' es' ws' \<and> grown ns ws ns' ws' \<and> state' < length ns' \<and> ws' ! state' = ws ! state @ [c] \<and>
    set ws' = insert (ws ! state @ [c]) (set ws)"
proof (cases "build_transition ns es state c")
  case (Some m)
  with build_transition_Some [OF ok state] have n: "m < length ns" "ws ! m = ws ! state @ [c]" by auto
  moreover from n have "ws ! state @ [c] \<in> set ws" using trie_okD(1) [OF ok] by (metis nth_mem)
  ultimately show ?thesis
    using ins Some ok by (intro exI [of _ ws]) (auto simp: insert_byte_def grown_refl)
next
  case None
  then have new: "ws ! state @ [c] \<notin> set ws" by (simp add: build_transition_None [OF ok state])
  from None ins have res: "ns' = upd_node state (\<lambda>nd. nd\<lparr>nd_edgeStart := Suc (length es)\<rparr>) (ns @ [new_node])"
      "es' = es @ [\<lparr>be_target = length ns, be_nextSibling = first_edge (ns ! state), be_label = c\<rparr>]" "state' = length ns"
    by (auto simp: insert_byte_def Let_def)
  have "grown ns ws ns' (ws @ [ws ! state @ [c]])"
    using state by (auto simp: grown_def res upd_node_def nth_append nth_list_update new_node_def)
  moreover have "(ws @ [ws ! state @ [c]]) ! state' = ws ! state @ [c]"
    using res(3) trie_okD(1) [OF ok] by (simp add: nth_append)
  ultimately show ?thesis
    using insert_byte_new [OF ok state new res(1,2)] res
    by (intro exI [of _ "ws @ [ws ! state @ [c]]"]) (auto simp: upd_node_def)
qed

lemma insert_bytes_ok:
  "trie_ok ns es ws \<Longrightarrow> state < length ns \<Longrightarrow> fold insert_byte xs (ns, es, state) = (ns', es', state') \<Longrightarrow>
   \<exists>ws'. trie_ok ns' es' ws' \<and> grown ns ws ns' ws' \<and> state' < length ns' \<and> ws' ! state' = ws ! state @ xs \<and>
     set ws' = set ws \<union> {ws ! state @ p | p. prefix p xs \<and> p \<noteq> []}"
proof (induction xs arbitrary: ns es state ws)
  case Nil
  then show ?case by (intro exI [of _ ws]) (auto simp: grown_refl)
next
  case (Cons c xs)
  obtain ns1 es1 state1 where one: "insert_byte c (ns, es, state) = (ns1, es1, state1)" by (metis prod_cases3)
  from insert_byte_ok [OF Cons.prems(1,2) one] obtain ws1 where
    ws1: "trie_ok ns1 es1 ws1" "grown ns ws ns1 ws1" "state1 < length ns1" "ws1 ! state1 = ws ! state @ [c]"
      "set ws1 = insert (ws ! state @ [c]) (set ws)" by blast
  have "fold insert_byte xs (ns1, es1, state1) = (ns', es', state')" using Cons.prems(3) one by simp
  from Cons.IH [OF ws1(1,3) this] obtain ws' where
    ws': "trie_ok ns' es' ws'" "grown ns1 ws1 ns' ws'" "state' < length ns'" "ws' ! state' = ws1 ! state1 @ xs"
      "set ws' = set ws1 \<union> {ws1 ! state1 @ p | p. prefix p xs \<and> p \<noteq> []}" by blast
  have "{ws ! state @ p | p. prefix p (c # xs) \<and> p \<noteq> []} =
      insert (ws ! state @ [c]) {(ws ! state @ [c]) @ p | p. prefix p xs \<and> p \<noteq> []}"
    by (auto simp: prefix_Cons)
  then have "set ws' = set ws \<union> {ws ! state @ p | p. prefix p (c # xs) \<and> p \<noteq> []}"
    using ws'(5) ws1(4,5) by auto
  with ws' ws1 grown_trans show ?case by (intro exI [of _ ws']) auto
qed

section \<open>The built trie\<close>

definition trie_words :: "(string \<Rightarrow> string) \<Rightarrow> string list \<Rightarrow> string set" where
  "trie_words lower ks = insert [] {u. \<exists>k \<in> set ks. k \<noteq> [] \<and> prefix u (lower k)}"

interpretation kw: prefix_closed "trie_words lower ks"
  by unfold_locales (auto simp: trie_words_def prefix_def)

definition is_word :: "(string \<Rightarrow> string) \<Rightarrow> string list \<Rightarrow> string \<Rightarrow> nat \<Rightarrow> bool" where
  "is_word lower ks u i \<longleftrightarrow> ks ! i \<noteq> [] \<and> lower (ks ! i) = u"

definition built :: "(string \<Rightarrow> string) \<Rightarrow> string list \<Rightarrow> kw_node list \<Rightarrow> build_edge list \<Rightarrow> string list \<Rightarrow> bool" where
  "built lower ks ns es ws \<longleftrightarrow> trie_ok ns es ws \<and> set ws = trie_words lower ks \<and>
     (\<forall>n < length ns. nd_failure (ns ! n) = 0 \<and>
        nd_bestKeyword (ns ! n) = least_index (length ks) (is_word lower ks (ws ! n)))"

lemma least_index_snoc:
  "least_index (Suc n) P = (case least_index n P of Some i \<Rightarrow> Some i | None \<Rightarrow> if P n then Some n else None)"
proof -
  have "find P (xs @ [x]) = (case find P xs of Some i \<Rightarrow> Some i | None \<Rightarrow> if P x then Some x else None)" for xs x
    by (induction xs) auto
  then show ?thesis by (simp add: least_index_def)
qed

lemma is_word_snoc: "i < length ks \<Longrightarrow> is_word lower (ks @ [k]) u i = is_word lower ks u i"
  by (simp add: is_word_def nth_append)

lemma least_word_snoc:
  "least_index (length (ks @ [k])) (is_word lower (ks @ [k]) u) =
     (case least_index (length ks) (is_word lower ks u) of
        Some i \<Rightarrow> Some i
      | None \<Rightarrow> if k \<noteq> [] \<and> lower k = u then Some (length ks) else None)"
proof -
  have "least_index (length ks) (is_word lower (ks @ [k]) u) = least_index (length ks) (is_word lower ks u)"
    by (rule least_index_cong) (simp add: is_word_snoc)
  then show ?thesis by (simp add: least_index_snoc is_word_def)
qed

lemma insert_keyword_built:
  assumes built: "built lower ks ns es ws" and ins: "insert_keyword lower (length ks, k) (ns, es) = (ns', es')"
  shows "\<exists>ws'. built lower (ks @ [k]) ns' es' ws'"
proof (cases "k = []")
  case True
  then have "trie_words lower (ks @ [k]) = trie_words lower ks" by (auto simp: trie_words_def)
  with True built ins show ?thesis
    by (auto simp: insert_keyword_def built_def least_word_snoc [simplified] split: option.splits intro!: exI [of _ ws])
next
  case False
  have ok: "trie_ok ns es ws" and words: "set ws = trie_words lower ks" using built by (auto simp: built_def)
  obtain ns1 es1 state where fold: "fold insert_byte (lower k) (ns, es, 0) = (ns1, es1, state)" by (metis prod_cases3)
  from insert_bytes_ok [OF ok trie_okD(2) [OF ok] fold] trie_okD(3) [OF ok] obtain ws1 where
    ws1: "trie_ok ns1 es1 ws1" "grown ns ws ns1 ws1" "state < length ns1" "ws1 ! state = lower k"
      "set ws1 = set ws \<union> {p. prefix p (lower k) \<and> p \<noteq> []}" by auto
  have "set ws1 = trie_words lower (ks @ [k])"
    using ws1(5) words False by (auto simp: trie_words_def)
  have best1: "nd_bestKeyword (ns1 ! n) = least_index (length ks) (is_word lower ks (ws1 ! n))" if "n < length ns1" for n
  proof (cases "n < length ns")
    case True
    with ws1(2) that built grown_word [OF ws1(2) trie_okD(1) [OF ok] True] show ?thesis
      by (simp add: grown_def built_def)
  next
    case new: False
    have "ws1 ! n \<notin> set ws"
    proof
      assume "ws1 ! n \<in> set ws"
      then obtain m where "m < length ns" "ws ! m = ws1 ! n" using trie_okD(1) [OF ok] by (metis in_set_conv_nth)
      with grown_word [OF ws1(2) trie_okD(1) [OF ok]] trie_words_inject [OF ws1(1), of m n] that new ws1(2)
      show False by (auto simp: grown_def)
    qed
    then have "\<not> is_word lower ks (ws1 ! n) i" if "i < length ks" for i
      using that words by (auto simp: is_word_def trie_words_def)
    then have "least_index (length ks) (is_word lower ks (ws1 ! n)) = None" by (simp add: least_index_None)
    with new that ws1(2) show ?thesis by (simp add: grown_def)
  qed
  have old_less: "\<not> length ks < c" if "nd_bestKeyword (ns1 ! state) = Some c" for c
  proof -
    have "least_index (length ks) (is_word lower ks (ws1 ! state)) = Some c" using best1 [OF ws1(3)] that by simp
    then show ?thesis by (simp add: least_index_Some)
  qed
  have ins': "ns' = (if nd_bestKeyword (ns1 ! state) = None
      then upd_node state (\<lambda>nd. nd\<lparr>nd_bestKeyword := Some (length ks)\<rparr>) ns1 else ns1)" "es' = es1"
    using ins fold False old_less by (auto simp: insert_keyword_def split: option.splits if_splits)
  have "trie_ok ns' es' ws1"
    unfolding ins'(2)
    by (rule trie_ok_upd [OF ws1(1)]) (use ws1(3) in \<open>auto simp: ins' upd_node_def nth_list_update\<close>)
  moreover have "nd_failure (ns' ! n) = 0 \<and>
      nd_bestKeyword (ns' ! n) = least_index (length (ks @ [k])) (is_word lower (ks @ [k]) (ws1 ! n))"
    if n: "n < length ns'" for n
  proof -
    have len: "length ns' = length ns1" by (simp add: ins' upd_node_def)
    have "nd_failure (ns1 ! n) = 0" using ws1(2) n len built by (auto simp: grown_def built_def)
    moreover have "ws1 ! n = lower k \<longleftrightarrow> n = state"
      using trie_words_inject [OF ws1(1), of n state] n len ws1(3,4) by auto
    ultimately show ?thesis
      using best1 [of n] n len False ws1(3) unfolding least_word_snoc
      by (auto simp: ins' upd_node_def nth_list_update split: option.splits)
  qed
  ultimately show ?thesis using \<open>set ws1 = trie_words lower (ks @ [k])\<close> by (auto simp: built_def)
qed

lemma built_empty: "built lower [] [new_node] [] [[]]"
  by (simp add: built_def trie_ok_def chains_ok_def new_node_def build_edges_of_def trie_words_def least_index_def)

lemma build_trie_built:
  assumes "build_trie lower ks = (ns, es)"
  shows "\<exists>ws. built lower ks ns es ws"
  using assms
proof (induction ks arbitrary: ns es rule: rev_induct)
  case Nil
  with built_empty show ?case by (auto simp: build_trie_def)
next
  case (snoc k ks)
  obtain ns1 es1 where one: "build_trie lower ks = (ns1, es1)" by fastforce
  have "enumerate 0 (ks @ [k]) = enumerate 0 ks @ [(length ks, k)]" by (simp add: enumerate_append_eq)
  with snoc.prems one have "insert_keyword lower (length ks, k) (ns1, es1) = (ns, es)"
    by (simp add: build_trie_def)
  with snoc.IH [OF one] insert_keyword_built show ?case by blast
qed

end
