(* ===== verification/Kw_Links.thy ===== *)
theory Kw_Links
  imports Kw_Trie
begin

text \<open>
  The failure links: \<open>link_queue\<close> gives every node the longest proper suffix of its word that is in
  the trie, and the least index of a keyword that ends there. The queue is in breadth-first order, so
  every node a link can lead to is finished before it is read; and each node is queued once, so the
  fuel suffices.
\<close>

definition ends_with :: "(string \<Rightarrow> string) \<Rightarrow> string list \<Rightarrow> string \<Rightarrow> nat \<Rightarrow> bool" where
  "ends_with lower ks u i \<longleftrightarrow> ks ! i \<noteq> [] \<and> suffix (lower (ks ! i)) u"

definition linked :: "(string \<Rightarrow> string) \<Rightarrow> string list \<Rightarrow> string list \<Rightarrow> kw_node list \<Rightarrow> nat \<Rightarrow> bool" where
  "linked lower ks ws ns n \<longleftrightarrow> nd_failure (ns ! n) < length ns \<and> ws ! nd_failure (ns ! n) = fail_word (set ws) (ws ! n) \<and>
     nd_bestKeyword (ns ! n) = least_index (length ks) (ends_with lower ks (ws ! n))"

abbreviation depth :: "string list \<Rightarrow> nat \<Rightarrow> nat" where
  "depth ws n \<equiv> length (ws ! n)"

lemma trie_depth: "trie_ok ns es ws \<Longrightarrow> n < length ns \<Longrightarrow> depth ws n < length ns"
proof -
  assume ok: "trie_ok ns es ws" and n: "n < length ns"
  note pc = trie_prefix_closed [OF ok]
  have "card (set ws) = length ws" using trie_okD(4) [OF ok] by (rule distinct_card)
  with prefix_closed.prefix_closed_card [OF pc, of "ws ! n"] n trie_okD(1) [OF ok] show ?thesis by simp
qed

section \<open>Following the failure links\<close>

lemma find_fallback_ok:
  assumes "trie_ok ns es ws" and "f < length ns" and "depth ws f < fuel"
    and "\<And>n. n < length ns \<Longrightarrow> ws ! n \<noteq> [] \<Longrightarrow> depth ws n \<le> depth ws f \<Longrightarrow> linked lower ks ws ns n"
  shows "\<exists>r. find_fallback fuel ns es f c = Some r \<and>
    (case r of Some t \<Rightarrow> t < length ns \<and> ws ! t = lsuf (set ws) (ws ! f @ [c]) \<and> ws ! t \<noteq> []
     | None \<Rightarrow> lsuf (set ws) (ws ! f @ [c]) = [])"
  using assms(2-)
proof (induction fuel arbitrary: f)
  case (Suc fuel)
  note pc = trie_prefix_closed [OF assms(1)]
  have in_T: "ws ! f \<in> set ws" using Suc.prems(1) trie_okD(1) [OF assms(1)] by simp
  show ?case
  proof (cases "build_transition ns es f c")
    case (Some t)
    with build_transition_Some [OF assms(1) Suc.prems(1)] have t: "t < length ns" "ws ! t = ws ! f @ [c]" by auto
    then have "ws ! f @ [c] \<in> set ws" using trie_okD(1) [OF assms(1)] by (metis nth_mem)
    with Some t show ?thesis by (simp add: lsuf_id)
  next
    case None
    then have notin: "ws ! f @ [c] \<notin> set ws" by (simp add: build_transition_None [OF assms(1) Suc.prems(1)])
    note step = prefix_closed.lsuf_step [OF pc in_T, of c]
    show ?thesis
    proof (cases "f = 0")
      case True
      with None notin step trie_okD(3) [OF assms(1)] show ?thesis by simp
    next
      case False
      have ne: "ws ! f \<noteq> []"
        using trie_words_inject [OF assms(1) Suc.prems(1) trie_okD(2) [OF assms(1)]] trie_okD(3) [OF assms(1)] False by auto
      have lk: "linked lower ks ws ns f" by (rule Suc.prems(3) [OF Suc.prems(1) ne]) simp
      let ?g = "nd_failure (ns ! f)"
      have g: "?g < length ns" "ws ! ?g = fail_word (set ws) (ws ! f)" using lk by (auto simp: linked_def)
      have less: "depth ws ?g < depth ws f" using g(2) fail_word_length [OF ne] by simp
      have "\<exists>r. find_fallback fuel ns es ?g c = Some r \<and>
          (case r of Some t \<Rightarrow> t < length ns \<and> ws ! t = lsuf (set ws) (ws ! ?g @ [c]) \<and> ws ! t \<noteq> []
           | None \<Rightarrow> lsuf (set ws) (ws ! ?g @ [c]) = [])"
        by (rule Suc.IH) (use g(1) less Suc.prems(2,3) in auto)
      then obtain r where "find_fallback fuel ns es ?g c = Some r"
        "case r of Some t \<Rightarrow> t < length ns \<and> ws ! t = lsuf (set ws) (ws ! ?g @ [c]) \<and> ws ! t \<noteq> []
           | None \<Rightarrow> lsuf (set ws) (ws ! ?g @ [c]) = []" by blast
      moreover have "lsuf (set ws) (ws ! ?g @ [c]) = lsuf (set ws) (ws ! f @ [c])" using step notin ne g(2) by simp
      moreover have "find_fallback (Suc fuel) ns es f c = find_fallback fuel ns es ?g c" using None False by simp
      ultimately show ?thesis by (cases r) auto
    qed
  qed
qed simp

section \<open>One edge\<close>

lemma min_keyword_least:
  "min_keyword (least_index n P) (least_index n Q) = least_index n (\<lambda>i. P i \<or> Q i)"
proof -
  have or: "find (\<lambda>x. P x \<or> Q x) xs = None \<longleftrightarrow> find P xs = None \<and> find Q xs = None" for xs :: "nat list"
    by (auto simp: find_None_iff)
  show ?thesis
  proof (cases "least_index n P"; cases "least_index n Q")
    fix i j assume "least_index n P = Some i" "least_index n Q = Some j"
    moreover from this have "least_index n (\<lambda>i. P i \<or> Q i) = Some (min i j)"
      by (auto simp: least_index_Some min_def)
    ultimately show ?thesis by (auto simp: min_keyword_def min_def)
  next
    fix i assume *: "least_index n P = Some i" "least_index n Q = None"
    then have "least_index n (\<lambda>i. P i \<or> Q i) = Some i"
      by (auto simp: least_index_Some least_index_None)
    with * show ?thesis by (simp add: min_keyword_def)
  next
    fix j assume *: "least_index n P = None" "least_index n Q = Some j"
    then have "least_index n (\<lambda>i. P i \<or> Q i) = Some j"
      by (auto simp: least_index_Some least_index_None)
    with * show ?thesis by (simp add: min_keyword_def)
  next
    assume *: "least_index n P = None" "least_index n Q = None"
    then have "least_index n (\<lambda>i. P i \<or> Q i) = None" by (simp add: least_index_None)
    with * show ?thesis by (simp add: min_keyword_def)
  qed
qed

definition links_inv ::
  "(string \<Rightarrow> string) \<Rightarrow> string list \<Rightarrow> build_edge list \<Rightarrow> string list \<Rightarrow> kw_node list \<Rightarrow> nat list \<Rightarrow> bool" where
  "links_inv lower ks es ws ns queue \<longleftrightarrow> trie_ok ns es ws \<and>
     (\<forall>n \<in> set queue. n < length ns \<and> ws ! n \<noteq> [] \<and> linked lower ks ws ns n) \<and>
     (\<forall>n < length ns. n \<notin> set queue \<longrightarrow> nd_failure (ns ! n) = 0 \<and>
        nd_bestKeyword (ns ! n) = least_index (length ks) (is_word lower ks (ws ! n)))"

text \<open>Keywords that are not empty have words that are not empty, all of them in the trie.\<close>

definition words_of :: "(string \<Rightarrow> string) \<Rightarrow> string list \<Rightarrow> string list \<Rightarrow> bool" where
  "words_of lower ks ws \<longleftrightarrow> (\<forall>i < length ks. ks ! i \<noteq> [] \<longrightarrow> lower (ks ! i) \<noteq> [] \<and> lower (ks ! i) \<in> set ws)"

lemma best_at_root:
  "words_of lower ks ws \<Longrightarrow> least_index (length ks) (is_word lower ks []) = None"
  "words_of lower ks ws \<Longrightarrow> least_index (length ks) (ends_with lower ks []) = None"
  by (auto simp: words_of_def least_index_None is_word_def ends_with_def)

lemma best_step:
  assumes "trie_ok ns es ws" and "words_of lower ks ws" and "w \<in> set ws"
  shows "min_keyword (least_index (length ks) (is_word lower ks w))
      (least_index (length ks) (ends_with lower ks (fail_word (set ws) w))) =
    least_index (length ks) (ends_with lower ks w)"
proof -
  note pc = trie_prefix_closed [OF assms(1)]
  show ?thesis unfolding min_keyword_least
  proof (rule least_index_cong)
    fix i assume i: "i < length ks"
    show "(is_word lower ks w i \<or> ends_with lower ks (fail_word (set ws) w) i) = ends_with lower ks w i"
      using prefix_closed.suffix_fail [OF pc assms(3), of "lower (ks ! i)"] assms(2) i
      by (auto simp: words_of_def is_word_def ends_with_def)
  qed
qed

lemma link_edge_ok:
  assumes inv: "links_inv lower ks es ws ns queue" and wo: "words_of lower ks ws"
    and s: "s \<in> set queue" and e: "e \<in> set (build_edges_of es (ns ! s))" and new: "be_target e \<notin> set queue"
    and short: "\<And>n. n < length ns \<Longrightarrow> ws ! n \<noteq> [] \<Longrightarrow> depth ws n \<le> depth ws s \<Longrightarrow> n \<in> set queue"
  shows "\<exists>ns'. link_edge es s e (ns, queue) = Some (ns', queue @ [be_target e]) \<and>
    links_inv lower ks es ws ns' (queue @ [be_target e]) \<and> length ns' = length ns \<and>
    (\<forall>n. nd_edgeStart (ns' ! n) = nd_edgeStart (ns ! n))"
proof -
  let ?T = "set ws" and ?t = "be_target e" and ?f = "nd_failure (ns ! s)"
  have ok: "trie_ok ns es ws" using inv by (simp add: links_inv_def)
  note pc = trie_prefix_closed [OF ok]
  have lk: "linked lower ks ws ns n" if "n \<in> set queue" for n using inv that by (simp add: links_inv_def)
  have sn: "s < length ns" "ws ! s \<noteq> []" using inv s by (auto simp: links_inv_def)
  have t: "?t < length ns" "ws ! ?t = ws ! s @ [be_label e]" using trie_okD(8) [OF ok sn(1) e] by auto
  have f: "?f < length ns" "ws ! ?f = fail_word ?T (ws ! s)" using lk [OF s] by (auto simp: linked_def)
  have fs: "depth ws ?f < depth ws s" using f(2) fail_word_length [OF sn(2)] by simp
  have sT: "ws ! s \<in> ?T" and tT: "ws ! ?t \<in> ?T" using sn(1) t(1) trie_okD(1) [OF ok] by auto
  have ft: "fail_word ?T (ws ! ?t) = lsuf ?T (ws ! ?f @ [be_label e])"
    using prefix_closed.fail_word_snoc [OF pc sn(2) sT, of "be_label e"] by (simp add: t(2) f(2))
  have "\<exists>r. find_fallback (length ns) ns es ?f (be_label e) = Some r \<and>
    (case r of Some u \<Rightarrow> u < length ns \<and> ws ! u = lsuf ?T (ws ! ?f @ [be_label e]) \<and> ws ! u \<noteq> []
     | None \<Rightarrow> lsuf ?T (ws ! ?f @ [be_label e]) = [])"
    by (rule find_fallback_ok [OF ok f(1) trie_depth [OF ok f(1)]])
      (use fs in \<open>auto intro!: lk short\<close>)
  then obtain r where r: "find_fallback (length ns) ns es ?f (be_label e) = Some r"
    "case r of Some u \<Rightarrow> u < length ns \<and> ws ! u = fail_word ?T (ws ! ?t) \<and> ws ! u \<noteq> [] | None \<Rightarrow> fail_word ?T (ws ! ?t) = []"
    unfolding ft by blast
  define g where "g = (case r of Some u \<Rightarrow> u | None \<Rightarrow> 0)"
  have fail0: "nd_failure (ns ! ?t) = 0" and own: "nd_bestKeyword (ns ! ?t) = least_index (length ks) (is_word lower ks (ws ! ?t))"
    using inv new t(1) by (auto simp: links_inv_def)
  have g: "g < length ns" "ws ! g = fail_word ?T (ws ! ?t)"
    using r(2) trie_okD(2,3) [OF ok] by (auto simp: g_def split: option.splits)
  have bestg: "nd_bestKeyword (ns ! g) = least_index (length ks) (ends_with lower ks (ws ! g))"
  proof (cases "ws ! g = []")
    case True
    then have "g = 0" using trie_words_inject [OF ok g(1) trie_okD(2) [OF ok]] trie_okD(3) [OF ok] by simp
    moreover have "0 \<notin> set queue" using inv trie_okD(3) [OF ok] by (auto simp: links_inv_def)
    ultimately show ?thesis
      using inv True best_at_root [OF wo] trie_okD(2) [OF ok] by (simp add: links_inv_def)
  next
    case False
    have "depth ws g < depth ws ?t" using g(2) fail_word_length [of "ws ! ?t" ?T] t(2) by simp
    with short [OF g(1) False] t(2) have "g \<in> set queue" by simp
    with lk show ?thesis by (simp add: linked_def)
  qed
  have tg: "g \<noteq> ?t" using g(2) fail_word_length [of "ws ! ?t" ?T] t(2) by auto
  define nd where "nd = (ns ! ?t)\<lparr>nd_failure := g, nd_bestKeyword := least_index (length ks) (ends_with lower ks (ws ! ?t))\<rparr>"
  have best: "min_keyword (nd_bestKeyword (ns ! ?t)) (nd_bestKeyword (ns ! g)) =
      least_index (length ks) (ends_with lower ks (ws ! ?t))"
    unfolding own bestg g(2) by (rule best_step [OF ok wo tT])
  have res: "link_edge es s e (ns, queue) = Some (ns[?t := nd], queue @ [?t])"
  proof (cases r)
    case None
    have "ns ! ?t = (ns ! ?t)\<lparr>nd_failure := 0\<rparr>" using fail0 by simp
    then have "nd = (ns ! ?t)\<lparr>nd_bestKeyword := least_index (length ks) (ends_with lower ks (ws ! ?t))\<rparr>"
      using None by (simp add: nd_def g_def)
    with None r(1) best fail0 show ?thesis by (simp add: link_edge_def Let_def upd_node_def g_def)
  next
    case (Some u)
    with r(1) best tg t(1) show ?thesis
      by (simp add: link_edge_def Let_def upd_node_def g_def nd_def)
  qed
  have start: "nd_edgeStart (ns[?t := nd] ! n) = nd_edgeStart (ns ! n)" for n
    using t(1) by (cases "n = ?t") (simp_all add: nd_def)
  have "trie_ok (ns[?t := nd]) es ws" by (rule trie_ok_upd [OF ok _ start]) simp
  moreover have "linked lower ks ws (ns[?t := nd]) n" if "n = ?t \<or> linked lower ks ws ns n" for n
    using that t(1) g by (cases "n = ?t") (auto simp: linked_def nd_def)
  ultimately have "links_inv lower ks es ws (ns[?t := nd]) (queue @ [?t])"
    using inv t by (auto simp: links_inv_def nth_list_update)
  with res start show ?thesis by auto
qed

section \<open>The edges of one node\<close>

lemma each_links:
  assumes wo: "words_of lower ks ws"
  shows "links_inv lower ks es ws ns queue \<Longrightarrow> s \<in> set queue \<Longrightarrow>
    set edges \<subseteq> set (build_edges_of es (ns ! s)) \<Longrightarrow> distinct (map be_target edges) \<Longrightarrow>
    be_target ` set edges \<inter> set queue = {} \<Longrightarrow>
    (\<And>n. n < length ns \<Longrightarrow> ws ! n \<noteq> [] \<Longrightarrow> depth ws n \<le> depth ws s \<Longrightarrow> n \<in> set queue) \<Longrightarrow>
    \<exists>ns'. each (link_edge es s) edges (ns, queue) = Some (ns', queue @ map be_target edges) \<and>
      links_inv lower ks es ws ns' (queue @ map be_target edges) \<and> length ns' = length ns \<and>
      (\<forall>n. nd_edgeStart (ns' ! n) = nd_edgeStart (ns ! n))"
proof (induction edges arbitrary: ns queue)
  case Nil
  then show ?case by simp
next
  case (Cons e edges)
  from Cons.prems have e: "e \<in> set (build_edges_of es (ns ! s))" "be_target e \<notin> set queue" by auto
  from link_edge_ok [OF Cons.prems(1) wo Cons.prems(2) e Cons.prems(6)] obtain ns1 where
    ns1: "link_edge es s e (ns, queue) = Some (ns1, queue @ [be_target e])"
      "links_inv lower ks es ws ns1 (queue @ [be_target e])" "length ns1 = length ns"
      "\<forall>n. nd_edgeStart (ns1 ! n) = nd_edgeStart (ns ! n)" by blast
  have same: "build_edges_of es (ns1 ! s) = build_edges_of es (ns ! s)"
    using ns1(4) by (simp add: build_edges_of_def first_edge_def)
  have "\<exists>ns'. each (link_edge es s) edges (ns1, queue @ [be_target e]) = Some (ns', (queue @ [be_target e]) @ map be_target edges) \<and>
      links_inv lower ks es ws ns' ((queue @ [be_target e]) @ map be_target edges) \<and> length ns' = length ns1 \<and>
      (\<forall>n. nd_edgeStart (ns' ! n) = nd_edgeStart (ns1 ! n))"
  proof (rule Cons.IH [OF ns1(2)])
    show "set edges \<subseteq> set (build_edges_of es (ns1 ! s))" using Cons.prems(3) same by simp
    show "be_target ` set edges \<inter> set (queue @ [be_target e]) = {}" using Cons.prems(4,5) by auto
  qed (use Cons.prems(2,4,6) ns1(3) in auto)
  with ns1 show ?case by simp
qed

section \<open>The queue\<close>

text \<open>
  Breadth first: the depths never decrease and never jump, and exactly the children of the root and
  of the nodes before \<open>i\<close> are in the queue.
\<close>

definition is_child :: "build_edge list \<Rightarrow> kw_node list \<Rightarrow> nat \<Rightarrow> nat \<Rightarrow> bool" where
  "is_child es ns p n \<longleftrightarrow> n \<in> be_target ` set (build_edges_of es (ns ! p))"

definition queue_inv :: "build_edge list \<Rightarrow> string list \<Rightarrow> kw_node list \<Rightarrow> nat list \<Rightarrow> nat \<Rightarrow> bool" where
  "queue_inv es ws ns queue i \<longleftrightarrow> i \<le> length queue \<and> distinct queue \<and> sorted (map (depth ws) queue) \<and>
     (i < length queue \<longrightarrow> (\<forall>n \<in> set queue. depth ws n \<le> Suc (depth ws (queue ! i)))) \<and>
     (\<forall>n. n \<in> set queue \<longleftrightarrow> (\<exists>p. (p = 0 \<or> p \<in> set (take i queue)) \<and> is_child es ns p n))"

lemma child_parent:
  assumes "trie_ok ns es ws" and "n < length ns" and "ws ! n \<noteq> []"
  shows "\<exists>p < length ns. is_child es ns p n \<and> depth ws n = Suc (depth ws p) \<and>
    (\<forall>q < length ns. is_child es ns q n \<longrightarrow> q = p)"
proof -
  from trie_okD(9) [OF assms] obtain p e where p: "p < length ns" "e \<in> set (build_edges_of es (ns ! p))" "be_target e = n"
    by blast
  with trie_okD(8) [OF assms(1) p(1,2)] have w: "ws ! n = ws ! p @ [be_label e]" by simp
  have "q = p" if q: "q < length ns" "is_child es ns q n" for q
  proof -
    from q obtain e' where "e' \<in> set (build_edges_of es (ns ! q))" "be_target e' = n" by (auto simp: is_child_def)
    with trie_okD(8) [OF assms(1) q(1)] w have "ws ! q = ws ! p" by fastforce
    with trie_words_inject [OF assms(1) q(1) p(1)] show ?thesis by simp
  qed
  moreover have "is_child es ns p n" using p by (auto simp: is_child_def)
  moreover have "depth ws n = Suc (depth ws p)" using w by simp
  ultimately show ?thesis using p(1) by blast
qed

lemma sorted_const: "(\<And>x. x \<in> set xs \<Longrightarrow> f x = c) \<Longrightarrow> sorted (map f xs)"
  by (induction xs) auto

lemma is_child_word:
  "trie_ok ns es ws \<Longrightarrow> p < length ns \<Longrightarrow> is_child es ns p n \<Longrightarrow>
   n < length ns \<and> ws ! n \<noteq> [] \<and> depth ws n = Suc (depth ws p)"
proof -
  assume ok: "trie_ok ns es ws" and p: "p < length ns" and "is_child es ns p n"
  then obtain e where "e \<in> set (build_edges_of es (ns ! p))" "n = be_target e" by (auto simp: is_child_def)
  with trie_okD(8) [OF ok p this(1)] show ?thesis by simp
qed

text \<open>Everything that is no deeper than the head of the queue is in the queue.\<close>

lemma shallow_queued:
  assumes ok: "trie_ok ns es ws" and qi: "queue_inv es ws ns queue i"
    and bound: "\<And>n. n \<in> set queue \<Longrightarrow> n < length ns"
  shows "n < length ns \<Longrightarrow> ws ! n \<noteq> [] \<Longrightarrow> (i < length queue \<Longrightarrow> depth ws n \<le> depth ws (queue ! i)) \<Longrightarrow> n \<in> set queue"
proof (induction "depth ws n" arbitrary: n rule: less_induct)
  case less
  from child_parent [OF ok less.prems(1,2)] obtain p where p: "p < length ns" "is_child es ns p n"
      "depth ws n = Suc (depth ws p)" by blast
  show ?case
  proof (cases "p = 0")
    case True
    with p(2) qi show ?thesis unfolding queue_inv_def by blast
  next
    case False
    then have ne: "ws ! p \<noteq> []"
      using trie_words_inject [OF ok p(1) trie_okD(2) [OF ok]] trie_okD(3) [OF ok] by auto
    have "p \<in> set queue"
      by (rule less.hyps) (use p less.prems(3) ne in auto)
    then obtain j where j: "j < length queue" "queue ! j = p" by (auto simp: in_set_conv_nth)
    have "j < i"
    proof (rule ccontr)
      assume "\<not> j < i"
      with j have i: "i < length queue" "i \<le> j" by auto
      have "sorted (map (depth ws) queue)" using qi by (simp add: queue_inv_def)
      from sorted_nth_mono [OF this i(2)] i(1) j have "depth ws (queue ! i) \<le> depth ws p" by simp
      with less.prems(3) [OF i(1)] p(3) show False by simp
    qed
    with j have "p \<in> set (take i queue)" by (auto simp: in_set_conv_nth intro!: exI [of _ j])
    with p(2) qi show ?thesis unfolding queue_inv_def by blast
  qed
qed

lemma queue_step:
  assumes ok: "trie_ok ns es ws" and qi: "queue_inv es ws ns queue i" and i: "i < length queue"
    and bound: "\<And>n. n \<in> set queue \<Longrightarrow> n < length ns \<and> ws ! n \<noteq> []"
  shows "be_target ` set (build_edges_of es (ns ! (queue ! i))) \<inter> set queue = {}"
    and "queue_inv es ws ns (queue @ map be_target (build_edges_of es (ns ! (queue ! i)))) (Suc i)"
proof -
  let ?s = "queue ! i" and ?new = "map be_target (build_edges_of es (ns ! (queue ! i)))"
  have s: "?s < length ns" "ws ! ?s \<noteq> []" using bound i by auto
  have new: "n \<in> set ?new \<longleftrightarrow> is_child es ns ?s n" for n by (auto simp: is_child_def)
  have dnew: "depth ws n = Suc (depth ws ?s)" if "n \<in> set ?new" for n
    using that is_child_word [OF ok s(1)] new by blast
  have notin: "?s \<notin> set (take i queue)"
    using qi i by (auto simp: queue_inv_def distinct_conv_nth in_set_conv_nth)
  have root: "?s \<noteq> 0" using s(2) trie_okD(3) [OF ok] by (metis)
  have disjoint: "n \<notin> set queue" if n: "n \<in> set ?new" for n
  proof
    assume "n \<in> set queue"
    with qi obtain p where p: "p = 0 \<or> p \<in> set (take i queue)" "is_child es ns p n"
      unfolding queue_inv_def by blast
    have "p < length ns" using p(1) bound set_take_subset [of i queue] trie_okD(2) [OF ok] by auto
    moreover have "n < length ns \<and> ws ! n \<noteq> []" using is_child_word [OF ok s(1)] n new by blast
    ultimately have "p = ?s" using child_parent [OF ok, of n] n new p(2) s(1) by metis
    with p(1) notin root show False by auto
  qed
  then show "be_target ` set (build_edges_of es (ns ! ?s)) \<inter> set queue = {}" by auto
  have depths: "depth ws n \<le> Suc (depth ws ?s)" if "n \<in> set queue" for n
    using qi i that by (simp add: queue_inv_def)
  have "sorted (map (depth ws) ?new)"
    using dnew by (intro sorted_const [of _ _ "Suc (depth ws ?s)"]) blast
  then have "sorted (map (depth ws) (queue @ ?new))"
    using qi dnew depths by (simp only: map_append sorted_append) (auto simp: queue_inv_def)
  moreover have "distinct (queue @ ?new)"
  proof -
    have "distinct queue" using qi by (simp add: queue_inv_def)
    moreover have "set queue \<inter> set ?new = {}" using disjoint by blast
    ultimately show ?thesis using trie_okD(7) [OF ok s(1)] by (simp only: distinct_append)
  qed
  moreover have "depth ws n \<le> Suc (depth ws ((queue @ ?new) ! Suc i))"
    if "Suc i < length (queue @ ?new)" "n \<in> set (queue @ ?new)" for n
  proof -
    have "depth ws ?s \<le> depth ws ((queue @ ?new) ! Suc i)"
    proof -
      define q where "q = queue @ ?new"
      have "sorted (map (depth ws) q)" unfolding q_def by (fact \<open>sorted (map (depth ws) (queue @ ?new))\<close>)
      moreover have "Suc i < length q" using that(1) by (simp add: q_def)
      ultimately have "depth ws (q ! i) \<le> depth ws (q ! Suc i)" using sorted_nth_mono [of "map (depth ws) q" i "Suc i"] by simp
      moreover have "q ! i = ?s" using i by (simp add: q_def nth_append)
      ultimately show ?thesis by (simp add: q_def)
    qed
    moreover have "depth ws n \<le> Suc (depth ws ?s)"
      using that(2) depths dnew [of n] by (cases "n \<in> set queue") (simp_all add: Un_iff del: set_map)
    ultimately show ?thesis by simp
  qed
  moreover have "n \<in> set (queue @ ?new) \<longleftrightarrow>
      (\<exists>p. (p = 0 \<or> p \<in> set (take (Suc i) (queue @ ?new))) \<and> is_child es ns p n)" for n
  proof -
    have "set (take (Suc i) (queue @ ?new)) = insert ?s (set (take i queue))"
      using i by (simp add: take_Suc_conv_app_nth)
    moreover have "n \<in> set queue \<longleftrightarrow> (\<exists>p. (p = 0 \<or> p \<in> set (take i queue)) \<and> is_child es ns p n)"
      using qi unfolding queue_inv_def by blast
    ultimately show ?thesis using new by auto
  qed
  ultimately show "queue_inv es ws ns (queue @ ?new) (Suc i)"
    using i unfolding queue_inv_def by auto
qed

lemma queue_inv_cong:
  assumes "\<And>n. nd_edgeStart (ns' ! n) = nd_edgeStart (ns ! n)"
  shows "queue_inv es ws ns' queue i = queue_inv es ws ns queue i"
proof -
  have "is_child es ns' p n = is_child es ns p n" for p n
    using assms by (simp add: is_child_def build_edges_of_def first_edge_def)
  then show ?thesis by (simp add: queue_inv_def)
qed

lemma queue_short:
  assumes "trie_ok ns es ws" and "distinct queue" and "\<And>n. n \<in> set queue \<Longrightarrow> n < length ns \<and> ws ! n \<noteq> []"
  shows "length queue < length ns"
proof -
  have "set queue \<subseteq> {1..<length ns}"
  proof
    fix n assume "n \<in> set queue"
    with assms(3) [OF this] trie_okD(3) [OF assms(1)] show "n \<in> {1..<length ns}" by (cases n) auto
  qed
  then have "card (set queue) \<le> length ns - 1" using card_mono [of "{1..<length ns}" "set queue"] by simp
  with distinct_card [OF assms(2)] trie_okD(2) [OF assms(1)] show ?thesis by linarith
qed

lemma link_queue_ok:
  assumes wo: "words_of lower ks ws"
  shows "links_inv lower ks es ws ns queue \<Longrightarrow> queue_inv es ws ns queue i \<Longrightarrow> length ns \<le> i + fuel \<Longrightarrow>
    \<exists>ns' queue'. link_queue fuel es i (ns, queue) = Some (ns', queue') \<and> links_inv lower ks es ws ns' queue' \<and>
      (\<forall>n < length ns. ws ! n \<noteq> [] \<longrightarrow> n \<in> set queue') \<and> length ns' = length ns \<and>
      (\<forall>n. nd_edgeStart (ns' ! n) = nd_edgeStart (ns ! n))"
proof (induction fuel arbitrary: i ns queue)
  case 0
  have ok: "trie_ok ns es ws" and bound: "\<And>n. n \<in> set queue \<Longrightarrow> n < length ns \<and> ws ! n \<noteq> []"
    using "0.prems"(1) by (auto simp: links_inv_def)
  have "length queue < length ns" by (rule queue_short [OF ok]) (use "0.prems"(2) bound in \<open>auto simp: queue_inv_def\<close>)
  with "0.prems" have False by (simp add: queue_inv_def)
  then show ?case ..
next
  case (Suc fuel)
  have ok: "trie_ok ns es ws" and bound: "\<And>n. n \<in> set queue \<Longrightarrow> n < length ns \<and> ws ! n \<noteq> []"
    using Suc.prems(1) by (auto simp: links_inv_def)
  note shallow = shallow_queued [OF ok Suc.prems(2)]
  show ?case
  proof (cases "i < length queue")
    case False
    with Suc.prems(1) shallow bound show ?thesis by (auto intro!: exI [of _ ns] exI [of _ queue])
  next
    case True
    let ?s = "queue ! i" and ?es = "build_edges_of es (ns ! (queue ! i))"
    have s: "?s \<in> set queue" using True by simp
    note step = queue_step [OF ok Suc.prems(2) True bound]
    have "\<exists>ns1. each (link_edge es ?s) ?es (ns, queue) = Some (ns1, queue @ map be_target ?es) \<and>
        links_inv lower ks es ws ns1 (queue @ map be_target ?es) \<and> length ns1 = length ns \<and>
        (\<forall>n. nd_edgeStart (ns1 ! n) = nd_edgeStart (ns ! n))"
      by (rule each_links [OF wo Suc.prems(1) s order_refl _ step(1)])
        (use trie_okD(7) [OF ok] bound [OF s] shallow bound in auto)
    then obtain ns1 where ns1: "each (link_edge es ?s) ?es (ns, queue) = Some (ns1, queue @ map be_target ?es)"
        "links_inv lower ks es ws ns1 (queue @ map be_target ?es)" "length ns1 = length ns"
        "\<And>n. nd_edgeStart (ns1 ! n) = nd_edgeStart (ns ! n)" by blast
    have "queue_inv es ws ns1 (queue @ map be_target ?es) (Suc i)"
      using step(2) queue_inv_cong [OF ns1(4)] by simp
    from Suc.IH [OF ns1(2) this] Suc.prems(3) ns1(3) obtain ns' queue' where
      "link_queue fuel es (Suc i) (ns1, queue @ map be_target ?es) = Some (ns', queue')"
      "links_inv lower ks es ws ns' queue'" "\<forall>n < length ns. ws ! n \<noteq> [] \<longrightarrow> n \<in> set queue'"
      "length ns' = length ns" "\<forall>n. nd_edgeStart (ns' ! n) = nd_edgeStart (ns ! n)"
      using ns1(4) by auto
    with True ns1(1) show ?thesis by (intro exI [of _ ns'] exI [of _ queue']) simp
  qed
qed

text \<open>The start of the queue: the children of the root, whose failure link is the root.\<close>

lemma links_start:
  assumes built: "built lower ks ns es ws" and wo: "words_of lower ks ws"
  shows "links_inv lower ks es ws ns (map be_target (build_edges_of es (ns ! 0)))"
    and "queue_inv es ws ns (map be_target (build_edges_of es (ns ! 0))) 0"
proof -
  let ?q = "map be_target (build_edges_of es (ns ! 0))"
  have ok: "trie_ok ns es ws" using built by (simp add: built_def)
  have child: "n < length ns \<and> length (ws ! n) = 1" if "n \<in> set ?q" for n
    using that trie_okD(3,8) [OF ok] trie_okD(2) [OF ok] by fastforce
  have "linked lower ks ws ns n" if "n \<in> set ?q" for n
  proof -
    from child [OF that] obtain c where n: "n < length ns" "ws ! n = [c]" by (auto simp: length_Suc_conv)
    have f: "nd_failure (ns ! n) = 0" and b: "nd_bestKeyword (ns ! n) = least_index (length ks) (is_word lower ks (ws ! n))"
      using built n(1) by (auto simp: built_def)
    note pc = trie_prefix_closed [OF ok]
    have "[c] \<in> set ws" using n trie_okD(1) [OF ok] by (metis nth_mem)
    from best_step [OF ok wo this] have "nd_bestKeyword (ns ! n) = least_index (length ks) (ends_with lower ks (ws ! n))"
      using b n(2) best_at_root(2) [OF wo] by (simp add: prefix_closed.fail_word_single [OF pc] min_keyword_def split: option.splits)
    with f n trie_okD(2,3) [OF ok] show ?thesis by (simp add: linked_def prefix_closed.fail_word_single [OF pc])
  qed
  then show "links_inv lower ks es ws ns ?q"
    using ok built child by (fastforce simp: links_inv_def built_def)
  have "sorted (map (depth ws) ?q)" by (rule sorted_const [of _ _ 1]) (use child in auto)
  then show "queue_inv es ws ns ?q 0"
    using trie_okD(7) [OF ok trie_okD(2) [OF ok]] child by (auto simp: queue_inv_def is_child_def)
qed

lemma links_complete:
  assumes "built lower ks ns es ws" and "words_of lower ks ws"
  shows "\<exists>ns' queue. link_queue (length ns) es 0 (ns, map be_target (build_edges_of es (ns ! 0))) = Some (ns', queue) \<and>
    trie_ok ns' es ws \<and> length ns' = length ns \<and> (\<forall>n. nd_edgeStart (ns' ! n) = nd_edgeStart (ns ! n)) \<and>
    nd_bestKeyword (ns' ! 0) = None \<and> (\<forall>n < length ns. n \<noteq> 0 \<longrightarrow> linked lower ks ws ns' n)"
proof -
  have ok: "trie_ok ns es ws" using assms(1) by (simp add: built_def)
  from link_queue_ok [OF assms(2) links_start [OF assms], of "length ns"] obtain ns' queue where
    r: "link_queue (length ns) es 0 (ns, map be_target (build_edges_of es (ns ! 0))) = Some (ns', queue)"
      "links_inv lower ks es ws ns' queue" "\<forall>n < length ns. ws ! n \<noteq> [] \<longrightarrow> n \<in> set queue"
      "length ns' = length ns" "\<forall>n. nd_edgeStart (ns' ! n) = nd_edgeStart (ns ! n)" by auto
  have "ws ! n \<noteq> []" if "n < length ns" "n \<noteq> 0" for n
    using trie_words_inject [OF ok that(1) trie_okD(2) [OF ok]] trie_okD(3) [OF ok] that(2) by auto
  then have "linked lower ks ws ns' n" if "n < length ns" "n \<noteq> 0" for n
    using that r(2,3) by (auto simp: links_inv_def)
  moreover have "0 \<notin> set queue" using r(2) trie_okD(3) [OF ok] by (auto simp: links_inv_def)
  then have "nd_bestKeyword (ns' ! 0) = None"
    using r(2,4) trie_okD(2,3) [OF ok] best_at_root(1) [OF assms(2)] by (simp add: links_inv_def)
  ultimately show ?thesis using r by (auto simp: links_inv_def)
qed

end
