(* ===== verification/Kw_Match.thy ===== *)
theory Kw_Match
  imports Kw_Links
begin

text \<open>
  Packing and matching: a packed node has its edges sorted by label in one slice of the edge array,
  binary search finds the edge of a letter, and a scan keeps the node of the longest suffix read
  that is in the trie. So a match is the first keyword of the configuration that the text contains.
\<close>

section \<open>Sorting the edges of a node\<close>

abbreviation labels_desc :: "kw_edge list \<Rightarrow> bool" where
  "labels_desc \<equiv> sorted_wrt (\<lambda>a b. ke_label b \<le> ke_label a)"

lemma insert_outgoing_set: "set (insert_outgoing e xs) = insert e (set xs)"
  by (induction xs) auto

lemma insert_outgoing_desc: "labels_desc xs \<Longrightarrow> labels_desc (insert_outgoing e xs)"
  by (induction xs) (auto simp: insert_outgoing_set less_imp_le not_less intro: order_trans)

lemma fold_insert_outgoing:
  "labels_desc ys \<Longrightarrow> labels_desc (fold insert_outgoing xs ys) \<and> set (fold insert_outgoing xs ys) = set xs \<union> set ys"
  by (induction xs arbitrary: ys) (auto simp: insert_outgoing_desc insert_outgoing_set)

lemma sort_outgoing_ok:
  "sorted_wrt (\<lambda>a b. ke_label a \<le> ke_label b) (sort_outgoing xs)" "set (sort_outgoing xs) = set xs"
  using fold_insert_outgoing [of "[]" xs] by (auto simp: sort_outgoing_def sorted_wrt_rev)

section \<open>Binary search\<close>

lemma label_search_ok:
  "\<lbrakk>left \<le> right; \<And>i j. left \<le> i \<Longrightarrow> i \<le> j \<Longrightarrow> j < right \<Longrightarrow> ke_label (es ! i) \<le> ke_label (es ! j)\<rbrakk> \<Longrightarrow>
   left \<le> label_search es c left right \<and> label_search es c left right \<le> right \<and>
   (\<forall>j. left \<le> j \<and> j < label_search es c left right \<longrightarrow> ke_label (es ! j) < c) \<and>
   (\<forall>j. label_search es c left right \<le> j \<and> j < right \<longrightarrow> \<not> ke_label (es ! j) < c)"
proof (induction es c left right rule: label_search.induct)
  case (1 es c left right)
  show ?case
  proof (cases "left < right")
    case True
    define mid where "mid = left + (right - left) div 2"
    have mid: "left \<le> mid" "mid < right" using True by (auto simp: mid_def)
    show ?thesis
    proof (cases "ke_label (es ! mid) < c")
      case less: True
      have IH: "mid + 1 \<le> label_search es c (mid + 1) right \<and> label_search es c (mid + 1) right \<le> right \<and>
          (\<forall>j. mid + 1 \<le> j \<and> j < label_search es c (mid + 1) right \<longrightarrow> ke_label (es ! j) < c) \<and>
          (\<forall>j. label_search es c (mid + 1) right \<le> j \<and> j < right \<longrightarrow> \<not> ke_label (es ! j) < c)"
        by (rule "1.IH"(1) [OF True mid_def less]) (use mid "1.prems"(2) in auto)
      have "ke_label (es ! j) < c" if "left \<le> j" "j < mid + 1" for j
        using "1.prems"(2) [OF that(1), of mid] that mid less by (auto intro: le_less_trans)
      then have "ke_label (es ! j) < c" if "left \<le> j" "j < label_search es c (mid + 1) right" for j
        using IH that by (cases "j < mid + 1") auto
      with IH mid True less show ?thesis
        by (subst (1 2 3 4) label_search.simps) (simp add: mid_def [symmetric] Let_def)
    next
      case geq: False
      have IH: "left \<le> label_search es c left mid \<and> label_search es c left mid \<le> mid \<and>
          (\<forall>j. left \<le> j \<and> j < label_search es c left mid \<longrightarrow> ke_label (es ! j) < c) \<and>
          (\<forall>j. label_search es c left mid \<le> j \<and> j < mid \<longrightarrow> \<not> ke_label (es ! j) < c)"
        by (rule "1.IH"(2) [OF True mid_def geq]) (use mid "1.prems"(2) in auto)
      have "\<not> ke_label (es ! j) < c" if "mid \<le> j" "j < right" for j
        using "1.prems"(2) [OF mid(1) that] geq by auto
      then have "\<not> ke_label (es ! j) < c" if "label_search es c left mid \<le> j" "j < right" for j
        using IH that by (cases "j < mid") auto
      with IH mid True geq show ?thesis
        by (subst (1 2 3 4) label_search.simps) (simp add: mid_def [symmetric] Let_def)
    qed
  next
    case False
    with "1.prems"(1) have "label_search es c left right = left" "left = right" by (simp_all add: label_search.simps)
    then show ?thesis by auto
  qed
qed

text \<open>In a sorted slice it decides whether the letter is there.\<close>

lemma label_search_finds:
  assumes slice: "take n (drop s es) = out" and len: "length out = n" and sorted: "sorted_wrt (\<lambda>a b. ke_label a \<le> ke_label b) out"
  shows "(label_search es c s (s + n) < s + n \<and> ke_label (es ! label_search es c s (s + n)) = c \<longleftrightarrow>
      (\<exists>e \<in> set out. ke_label e = c)) \<and>
    (label_search es c s (s + n) < s + n \<longrightarrow> es ! label_search es c s (s + n) \<in> set out)"
proof -
  let ?r = "label_search es c s (s + n)"
  have at: "es ! (s + k) = out ! k" if "k < n" for k
  proof -
    have "length out \<le> length es - s" unfolding slice [symmetric] by simp
    with that len have "s + k < length es" by simp
    then show ?thesis unfolding slice [symmetric] using that by simp
  qed
  have mono: "ke_label (es ! i) \<le> ke_label (es ! j)" if "s \<le> i" "i \<le> j" "j < s + n" for i j
  proof (cases "i = j")
    case False
    with that have "ke_label (out ! (i - s)) \<le> ke_label (out ! (j - s))"
      using sorted_wrt_nth_less [OF sorted, of "i - s" "j - s"] len by auto
    with at [of "i - s"] at [of "j - s"] that show ?thesis by simp
  qed simp
  have search: "s \<le> ?r" "?r \<le> s + n" "\<And>j. s \<le> j \<Longrightarrow> j < ?r \<Longrightarrow> ke_label (es ! j) < c"
    "\<And>j. ?r \<le> j \<Longrightarrow> j < s + n \<Longrightarrow> \<not> ke_label (es ! j) < c"
    using label_search_ok [of s "s + n" es c] mono by auto
  have member: "es ! ?r \<in> set out" if "?r < s + n"
    using at [of "?r - s"] that search(1) len by (metis add_diff_inverse_nat less_diff_conv2 add.commute leD nth_mem)
  have "?r < s + n \<and> ke_label (es ! ?r) = c" if e: "e \<in> set out" "ke_label e = c" for e
  proof -
    from e(1) len obtain k where k: "k < n" "out ! k = e" by (metis in_set_conv_nth)
    with at e(2) have l: "ke_label (es ! (s + k)) = c" by simp
    have r: "?r \<le> s + k" using search(3) [of "s + k"] l by (metis le_add1 less_irrefl not_le)
    with k(1) have less: "?r < s + n" by simp
    have "ke_label (es ! ?r) \<le> c" using mono [OF search(1) r] k(1) l by simp
    with search(4) [OF order_refl less] less show ?thesis by auto
  qed
  with member show ?thesis by blast
qed

section \<open>Packing\<close>

definition packed_edges :: "build_edge list \<Rightarrow> kw_node \<Rightarrow> kw_edge list" where
  "packed_edges es nd = sort_outgoing (map (\<lambda>e. \<lparr>ke_target = be_target e, ke_label = be_label e\<rparr>) (build_edges_of es nd))"

definition packed :: "build_edge list \<Rightarrow> kw_node list \<Rightarrow> nat \<Rightarrow> kw_node list \<times> kw_edge list \<Rightarrow> bool" where
  "packed es ns m s \<longleftrightarrow> length (fst s) = length ns \<and>
     (\<forall>k < length ns. nd_failure (fst s ! k) = nd_failure (ns ! k) \<and> nd_bestKeyword (fst s ! k) = nd_bestKeyword (ns ! k)) \<and>
     (\<forall>k < length ns. m \<le> k \<longrightarrow> fst s ! k = ns ! k) \<and>
     (\<forall>k < m. take (nd_edgeCount (fst s ! k)) (drop (nd_edgeStart (fst s ! k)) (snd s)) = packed_edges es (ns ! k) \<and>
        nd_edgeCount (fst s ! k) = length (packed_edges es (ns ! k)) \<and>
        nd_edgeStart (fst s ! k) + nd_edgeCount (fst s ! k) \<le> length (snd s))"

lemma pack_node_ok:
  assumes "packed es ns m s" and "m < length ns"
  shows "packed es ns (Suc m) (pack_node es m s)"
proof -
  obtain ns1 edges where s: "s = (ns1, edges)" by fastforce
  have "ns1 ! m = ns ! m" using assms s by (simp add: packed_def)
  then have res: "pack_node es m s = (ns1[m := (ns1 ! m)\<lparr>nd_edgeStart := length edges,
      nd_edgeCount := length (packed_edges es (ns ! m))\<rparr>], edges @ packed_edges es (ns ! m))"
    by (simp add: s pack_node_def packed_edges_def Let_def upd_node_def)
  show ?thesis
    using assms unfolding res by (auto simp: s packed_def nth_list_update less_Suc_eq Suc_le_eq)
qed

lemma pack_all:
  "m \<le> length ns \<Longrightarrow> packed es ns m (fold (pack_node es) [0..<m] (ns, []))"
proof (induction m)
  case (Suc m)
  then show ?case using pack_node_ok by simp
qed (simp add: packed_def)

section \<open>Transitions\<close>

text \<open>The matcher built from a linked trie.\<close>

definition ready :: "(string \<Rightarrow> string) \<Rightarrow> string list \<Rightarrow> string list \<Rightarrow> matcher \<Rightarrow> bool" where
  "ready lower ks ws m \<longleftrightarrow> length ws = length (mt_nodes m) \<and> mt_nodes m \<noteq> [] \<and> ws ! 0 = [] \<and> distinct ws \<and>
     prefix_closed (set ws) \<and> mt_keywords m = ks \<and> nd_bestKeyword (mt_nodes m ! 0) = None \<and>
     (\<forall>n < length ws. n \<noteq> 0 \<longrightarrow> linked lower ks ws (mt_nodes m) n) \<and>
     (\<forall>n < length ws. \<forall>c. next_state m n c < length ws \<and>
        (if ws ! n @ [c] \<in> set ws then ws ! next_state m n c = ws ! n @ [c] else next_state m n c = 0))"

lemma root_transitions_ok:
  assumes "\<And>e. e \<in> set es \<Longrightarrow> be_label e = c \<Longrightarrow> be_target e = t"
  shows "root_transitions es c = (if \<exists>e \<in> set es. be_label e = c then t else 0)"
proof -
  have "fold (\<lambda>e t. t(be_label e := be_target e)) es f c = (if \<exists>e \<in> set es. be_label e = c then t else f c)" for f
    using assms
  proof (induction es arbitrary: f)
    case (Cons e es)
    from Cons.prems have t: "be_label e = c \<Longrightarrow> be_target e = t" by auto
    have "fold (\<lambda>e t. t(be_label e := be_target e)) (e # es) f c =
        fold (\<lambda>e t. t(be_label e := be_target e)) es (f(be_label e := be_target e)) c" by simp
    also have "\<dots> = (if \<exists>e \<in> set es. be_label e = c then t else (f(be_label e := be_target e)) c)"
      by (rule Cons.IH) (use Cons.prems in auto)
    also have "\<dots> = (if \<exists>e \<in> set (e # es). be_label e = c then t else f c)" using t by auto
    finally show ?case .
  qed simp
  then show ?thesis by (simp add: root_transitions_def)
qed

lemma next_state_ok:
  assumes ok: "trie_ok ns es ws" and pack: "packed es ns (length ns) (mt_nodes m, mt_edges m)"
    and root: "mt_rootTransitions m = root_transitions (build_edges_of es (ns ! 0))" and n: "n < length ns"
  shows "next_state m n c < length ns \<and>
    (if ws ! n @ [c] \<in> set ws then ws ! next_state m n c = ws ! n @ [c] else next_state m n c = 0)"
proof -
  let ?es = "build_edges_of es (ns ! n)"
  have goal: ?thesis
    if "next_state m n c = (if \<exists>e \<in> set ?es. be_label e = c then t else 0)"
      and "\<And>e. e \<in> set ?es \<Longrightarrow> be_label e = c \<Longrightarrow> be_target e = t" for t
  proof -
    have "(\<exists>e \<in> set ?es. be_label e = c) \<longleftrightarrow> ws ! n @ [c] \<in> set ws"
      using trie_edge [OF ok n, of c] trie_okD(1) [OF ok] by (metis in_set_conv_nth)
    moreover have "t < length ns \<and> ws ! t = ws ! n @ [c]" if "\<exists>e \<in> set ?es. be_label e = c"
      using that trie_edge [OF ok n, of c t] \<open>\<And>e. e \<in> set ?es \<Longrightarrow> be_label e = c \<Longrightarrow> be_target e = t\<close> by blast
    ultimately show ?thesis using that(1) trie_okD(2) [OF ok] by auto
  qed
  have unique: "be_target e = be_target e'" if "e \<in> set ?es" "e' \<in> set ?es" "be_label e = be_label e'" for e e'
    using trie_okD(8) [OF ok n that(1)] trie_okD(8) [OF ok n that(2)] that(3)
      trie_words_inject [OF ok, of "be_target e" "be_target e'"] by simp
  define t where "t = be_target (SOME e. e \<in> set ?es \<and> be_label e = c)"
  have t: "be_target e = t" if "e \<in> set ?es" "be_label e = c" for e
    using someI [of "\<lambda>e. e \<in> set ?es \<and> be_label e = c" e] that unique unfolding t_def by metis
  show ?thesis
  proof (rule goal [of t])
    show "next_state m n c = (if \<exists>e \<in> set ?es. be_label e = c then t else 0)"
    proof (cases "n = 0")
      case True
      with root_transitions_ok [of ?es c t] t root show ?thesis by (simp add: next_state_def)
    next
      case False
      let ?nd = "mt_nodes m ! n"
      define out where "out = packed_edges es (ns ! n)"
      have nd: "take (nd_edgeCount ?nd) (drop (nd_edgeStart ?nd) (mt_edges m)) = out" "nd_edgeCount ?nd = length out"
        and len: "length (mt_nodes m) = length ns"
        using pack n by (auto simp: packed_def out_def)
      have out: "set out = (\<lambda>e. \<lparr>ke_target = be_target e, ke_label = be_label e\<rparr>) ` set ?es"
        "sorted_wrt (\<lambda>a b. ke_label a \<le> ke_label b) out"
        by (simp_all add: out_def packed_edges_def sort_outgoing_ok)
      define r where "r = label_search (mt_edges m) c (nd_edgeStart ?nd) (nd_edgeStart ?nd + nd_edgeCount ?nd)"
      have search: "(r < nd_edgeStart ?nd + nd_edgeCount ?nd \<and> ke_label (mt_edges m ! r) = c \<longleftrightarrow> (\<exists>e \<in> set out. ke_label e = c))"
        "r < nd_edgeStart ?nd + nd_edgeCount ?nd \<Longrightarrow> mt_edges m ! r \<in> set out"
        using label_search_finds [OF nd(1) nd(2) [symmetric] out(2), of c] unfolding r_def nd(2) by auto
      have unf: "next_state m n c = (if r < nd_edgeStart ?nd + nd_edgeCount ?nd \<and> ke_label (mt_edges m ! r) = c
          then ke_target (mt_edges m ! r) else 0)"
        using False n len by (simp add: next_state_def Let_def r_def)
      have "(\<exists>e \<in> set out. ke_label e = c) \<longleftrightarrow> (\<exists>e \<in> set ?es. be_label e = c)" by (simp add: out(1))
      moreover have "ke_target (mt_edges m ! r) = t"
        if r: "r < nd_edgeStart ?nd + nd_edgeCount ?nd \<and> ke_label (mt_edges m ! r) = c"
      proof -
        from search(2) r have "mt_edges m ! r \<in> set out" by blast
        then obtain e where "e \<in> set ?es" "mt_edges m ! r = \<lparr>ke_target = be_target e, ke_label = be_label e\<rparr>"
          unfolding out(1) by blast
        with t r show ?thesis by simp
      qed
      ultimately show ?thesis unfolding unf using search(1) by auto
    qed
  qed (rule t)
qed

section \<open>Scanning\<close>

lemma readyD:
  assumes "ready lower ks ws m"
  shows "length ws = length (mt_nodes m)" "0 < length ws" "ws ! 0 = []" "distinct ws" "prefix_closed (set ws)"
    and "mt_keywords m = ks" "nd_bestKeyword (mt_nodes m ! 0) = None"
    and "\<And>n. n < length ws \<Longrightarrow> n \<noteq> 0 \<Longrightarrow> linked lower ks ws (mt_nodes m) n"
    and "\<And>n c. n < length ws \<Longrightarrow> next_state m n c < length ws"
    and "\<And>n c. n < length ws \<Longrightarrow>
      (if ws ! n @ [c] \<in> set ws then ws ! next_state m n c = ws ! n @ [c] else next_state m n c = 0)"
  using assms unfolding ready_def by auto

lemma word_ne: "ready lower ks ws m \<Longrightarrow> n < length ws \<Longrightarrow> n \<noteq> 0 \<longleftrightarrow> ws ! n \<noteq> []"
  using readyD(2-4) nth_eq_iff_index_eq by metis

lemma advance_ok:
  assumes r: "ready lower ks ws m"
  shows "n < length ws \<Longrightarrow> depth ws n < fuel \<Longrightarrow>
    \<exists>n'. advance fuel m n c = Some n' \<and> n' < length ws \<and> ws ! n' = lsuf (set ws) (ws ! n @ [c])"
proof (induction fuel arbitrary: n)
  case (Suc fuel)
  note pc = readyD(5) [OF r]
  note step = prefix_closed.lsuf_step [OF pc nth_mem [OF Suc.prems(1)], of c]
  show ?case
  proof (cases "ws ! n @ [c] \<in> set ws")
    case True
    then have w: "ws ! next_state m n c = ws ! n @ [c]" using readyD(10) [OF r Suc.prems(1), of c] by simp
    with word_ne [OF r readyD(9) [OF r Suc.prems(1)], of c] have "next_state m n c \<noteq> 0" by simp
    with w step True readyD(9) [OF r Suc.prems(1)] show ?thesis by (simp add: Let_def)
  next
    case False
    then have zero: "next_state m n c = 0" using readyD(10) [OF r Suc.prems(1), of c] by simp
    show ?thesis
    proof (cases "n = 0")
      case True
      with zero step False readyD(2,3) [OF r] show ?thesis by simp
    next
      case n0: False
      let ?f = "nd_failure (mt_nodes m ! n)"
      have ne: "ws ! n \<noteq> []" using word_ne [OF r Suc.prems(1)] n0 by simp
      have f: "?f < length ws" "ws ! ?f = fail_word (set ws) (ws ! n)"
        using readyD(8) [OF r Suc.prems(1) n0] readyD(1) [OF r] by (auto simp: linked_def)
      have "depth ws ?f < fuel" using fail_word_length [OF ne, of "set ws"] f(2) Suc.prems(2) by simp
      from Suc.IH [OF f(1) this] show ?thesis using zero n0 step False ne f(2) by simp
    qed
  qed
qed simp

text \<open>What has been found after reading \<open>w\<close>.\<close>

definition contained :: "(string \<Rightarrow> string) \<Rightarrow> string list \<Rightarrow> string \<Rightarrow> nat \<Rightarrow> bool" where
  "contained lower ks w i \<longleftrightarrow> ks ! i \<noteq> [] \<and> sublist (lower (ks ! i)) w"

lemma sublist_snoc: "sublist s (w @ [c]) \<longleftrightarrow> sublist s w \<or> suffix s (w @ [c])"
  by (auto simp: sublist_altdef suffix_def append_eq_append_conv2 Cons_eq_append_conv append_eq_Cons_conv)
     (metis append_eq_append_conv2 append_is_Nil_conv append_self_conv append.assoc butlast_snoc butlast_append)+

lemma best_of_node:
  assumes r: "ready lower ks ws m" and wo: "words_of lower ks ws" and n: "n < length ws" and w: "ws ! n = lsuf (set ws) w"
  shows "nd_bestKeyword (mt_nodes m ! n) = least_index (length ks) (ends_with lower ks w)"
proof -
  note pc = readyD(5) [OF r]
  have "nd_bestKeyword (mt_nodes m ! n) = least_index (length ks) (ends_with lower ks (ws ! n))"
  proof (cases "n = 0")
    case True
    with best_at_root(2) [OF wo] readyD(3,7) [OF r] show ?thesis by simp
  next
    case False
    with readyD(8) [OF r n] show ?thesis by (simp add: linked_def)
  qed
  also have "\<dots> = least_index (length ks) (ends_with lower ks w)"
    using wo prefix_closed.suffix_lsuf [OF pc] by (intro least_index_cong) (auto simp: words_of_def ends_with_def w)
  finally show ?thesis .
qed

lemma depth_bound:
  assumes "ready lower ks ws m" and "n < length ws"
  shows "depth ws n < length (mt_nodes m)"
proof -
  note pc = readyD(5) [OF assms(1)]
  have "card (set ws) = length ws" using readyD(4) [OF assms(1)] by (rule distinct_card)
  then show ?thesis using prefix_closed.prefix_closed_card [OF pc _ nth_mem [OF assms(2)]] readyD(1) [OF assms(1)] by simp
qed

lemma scan_ok:
  assumes r: "ready lower ks ws m" and wo: "words_of lower ks ws"
  shows "n < length ws \<Longrightarrow> ws ! n = lsuf (set ws) w \<Longrightarrow>
    best = least_index (length ks) (contained lower ks w) \<Longrightarrow>
    scan m n best rest = Some (least_index (length ks) (contained lower ks (w @ rest)))"
proof (induction rest arbitrary: n w best)
  case (Cons c rest)
  note pc = readyD(5) [OF r]
  from advance_ok [OF r Cons.prems(1) depth_bound [OF r Cons.prems(1)], of c] obtain n' where
    n': "advance (length (mt_nodes m)) m n c = Some n'" "n' < length ws" "ws ! n' = lsuf (set ws) (ws ! n @ [c])" by blast
  have w': "ws ! n' = lsuf (set ws) (w @ [c])" using n'(3) prefix_closed.lsuf_snoc [OF pc, of w c] Cons.prems(2) by simp
  define best' where "best' = least_index (length ks) (contained lower ks (w @ [c]))"
  have "min_keyword best (nd_bestKeyword (mt_nodes m ! n')) = best'"
    unfolding best_of_node [OF r wo n'(2) w'] Cons.prems(3) min_keyword_least best'_def
    by (rule least_index_cong) (auto simp: contained_def ends_with_def sublist_snoc)
  with n'(1) have step: "scan m n best (c # rest) = (if best' = Some 0 then Some (Some 0) else scan m n' best' rest)"
    by (simp add: Let_def)
  show ?case
  proof (cases "best' = Some 0")
    case True
    then have "0 < length ks" "contained lower ks (w @ [c]) 0" by (auto simp: best'_def least_index_Some)
    moreover have "sublist (w @ [c]) (w @ c # rest)" by (rule prefix_imp_sublist) simp
    ultimately have "least_index (length ks) (contained lower ks (w @ c # rest)) = Some 0"
      by (auto simp: least_index_Some contained_def intro: sublist_order.order_trans)
    with step True show ?thesis by simp
  next
    case False
    with step Cons.IH [OF n'(2) w' best'_def] show ?thesis by simp
  qed
qed simp

section \<open>The matcher\<close>

text \<open>The specification: the first keyword that the text contains, ignoring case.\<close>

definition first_keyword :: "(string \<Rightarrow> string) \<Rightarrow> string list \<Rightarrow> string \<Rightarrow> string \<times> bool" where
  "first_keyword lower ks text =
     (case find (\<lambda>k. k \<noteq> [] \<and> sublist (lower k) (lower text)) ks of
        Some k \<Rightarrow> (k, True)
      | None \<Rightarrow> ([], False))"

lemma find_least_index:
  "find P ks = (case least_index (length ks) (\<lambda>i. P (ks ! i)) of Some i \<Rightarrow> Some (ks ! i) | None \<Rightarrow> None)"
proof (cases "least_index (length ks) (\<lambda>i. P (ks ! i))")
  case None
  then have "find P ks = None" by (auto simp: least_index_None find_None_iff in_set_conv_nth)
  with None show ?thesis by simp
next
  case (Some i)
  then have "find P ks = Some (ks ! i)" by (auto simp: least_index_Some find_Some_iff)
  with Some show ?thesis by simp
qed

lemma new_matcher_ready:
  assumes lower: "\<And>s. lower s = [] \<longleftrightarrow> s = []" and ks: "ks \<noteq> []"
  shows "new_matcher lower ks = Some None \<and> (\<forall>k \<in> set ks. k = []) \<or>
    (\<exists>m ws. new_matcher lower ks = Some (Some m) \<and> ready lower ks ws m \<and> words_of lower ks ws)"
proof -
  obtain ns es where trie: "build_trie lower ks = (ns, es)" by fastforce
  from build_trie_built [OF trie] obtain ws where built: "built lower ks ns es ws" by blast
  have ok: "trie_ok ns es ws" and words: "set ws = trie_words lower ks" using built by (auto simp: built_def)
  have wo: "words_of lower ks ws" by (auto simp: words_of_def words trie_words_def lower)
  show ?thesis
  proof (cases "length ns = 1")
    case True
    then have "set ws = {[]}" using trie_okD(1,3) [OF ok] by (auto simp: length_Suc_conv)
    then have "\<forall>k \<in> set ks. k = []" using wo lower by (auto simp: words_of_def in_set_conv_nth)
    with True ks trie show ?thesis by (simp add: new_matcher_def)
  next
    case False
    from links_complete [OF built wo] obtain ns' queue where
      l: "link_queue (length ns) es 0 (ns, map be_target (build_edges_of es (ns ! 0))) = Some (ns', queue)"
        "trie_ok ns' es ws" "length ns' = length ns" "\<forall>n. nd_edgeStart (ns' ! n) = nd_edgeStart (ns ! n)"
        "nd_bestKeyword (ns' ! 0) = None" "\<forall>n < length ns. n \<noteq> 0 \<longrightarrow> linked lower ks ws ns' n" by blast
    obtain ns2 edges where pack: "fold (pack_node es) [0..<length ns'] (ns', []) = (ns2, edges)" by fastforce
    define m where "m = \<lparr>mt_nodes = ns2, mt_edges = edges, mt_rootTransitions = root_transitions (build_edges_of es (ns ! 0)),
        mt_keywords = ks\<rparr>"
    have new: "new_matcher lower ks = Some (Some m)"
      using ks trie False l(1) pack by (simp add: new_matcher_def Let_def m_def)
    have packed: "packed es ns' (length ns') (mt_nodes m, mt_edges m)"
      using pack_all [of "length ns'" ns' es] pack by (simp add: m_def)
    have len: "length ns2 = length ns'" and keep: "\<And>n. n < length ns' \<Longrightarrow> nd_failure (ns2 ! n) = nd_failure (ns' ! n) \<and>
        nd_bestKeyword (ns2 ! n) = nd_bestKeyword (ns' ! n)"
      using packed by (auto simp: packed_def m_def)
    have root: "mt_rootTransitions m = root_transitions (build_edges_of es (ns' ! 0))"
      using l(4) by (simp add: m_def build_edges_of_def first_edge_def)
    have linked: "linked lower ks ws ns2 n" if "n < length ns" "n \<noteq> 0" for n
      using l(3,6) that keep [of n] len by (simp add: linked_def)
    have "ready lower ks ws m"
      unfolding ready_def
    proof (intro conjI allI impI)
      fix n c assume "n < length ws"
      then have "n < length ns'" using trie_okD(1) [OF l(2)] by simp
      from next_state_ok [OF l(2) packed root this, of c]
      show "next_state m n c < length ws"
        "if ws ! n @ [c] \<in> set ws then ws ! next_state m n c = ws ! n @ [c] else next_state m n c = 0"
        using trie_okD(1) [OF l(2)] by auto
    qed (use trie_okD(1-4) [OF l(2)] kw.prefix_closed_axioms [of lower ks, folded words] len keep [of 0] l(3,5) linked in
        \<open>auto simp: m_def\<close>)
    with new wo show ?thesis by blast
  qed
qed

text \<open>
  C1: for every list of keywords and every text, building the automaton and scanning the text end
  and give exactly what testing the keywords one after the other gives: the first keyword of the
  configuration, in its original spelling, that is not empty and occurs in the text, both in
  lower case.
\<close>

theorem match_is_first_keyword:
  assumes "\<And>s. lower s = [] \<longleftrightarrow> s = []"
  shows "\<exists>m. new_matcher lower ks = Some m \<and> Match lower m text = Some (first_keyword lower ks text)"
proof (cases "ks = []")
  case True
  then show ?thesis by (simp add: new_matcher_def Match_def first_keyword_def)
next
  case False
  from new_matcher_ready [where lower = lower, OF assms False] show ?thesis
  proof
    assume none: "new_matcher lower ks = Some None \<and> (\<forall>k \<in> set ks. k = [])"
    then have "find (\<lambda>k. k \<noteq> [] \<and> sublist (lower k) (lower text)) ks = None" by (auto simp: find_None_iff)
    with none show ?thesis by (simp add: Match_def first_keyword_def)
  next
    assume "\<exists>m ws. new_matcher lower ks = Some (Some m) \<and> ready lower ks ws m \<and> words_of lower ks ws"
    then obtain m ws where m: "new_matcher lower ks = Some (Some m)" and r: "ready lower ks ws m"
      and wo: "words_of lower ks ws" by blast
    have start: "scan m 0 None (lower text) = Some (least_index (length ks) (contained lower ks (lower text)))"
    proof -
      have "None = least_index (length ks) (contained lower ks [])"
        using wo by (auto simp: words_of_def contained_def least_index_None eq_commute [of None])
      from scan_ok [OF r wo readyD(2) [OF r] _ this, of "lower text"] readyD(3) [OF r] show ?thesis by simp
    qed
    have found: "find (\<lambda>k. k \<noteq> [] \<and> sublist (lower k) (lower text)) ks =
        (case least_index (length ks) (contained lower ks (lower text)) of Some i \<Rightarrow> Some (ks ! i) | None \<Rightarrow> None)"
      by (simp add: find_least_index contained_def [abs_def])
    show ?thesis
    proof (cases "text = []")
      case True
      then have "lower text = []" by (simp only: assms)
      then have "find (\<lambda>k. k \<noteq> [] \<and> sublist (lower k) (lower text)) ks = None"
        unfolding find_None_iff by (metis assms sublist_Nil_right)
      with True m show ?thesis by (simp add: Match_def first_keyword_def)
    next
      case nonempty: False
      have "mt_nodes m \<noteq> []" "mt_keywords m = ks" using readyD(1,2,6) [OF r] by auto
      note here = this
      show ?thesis
      proof (cases "least_index (length ks) (contained lower ks (lower text))")
        case None
        with nonempty False m start found here show ?thesis by (simp add: Match_def first_keyword_def)
      next
        case (Some i)
        then have "i < length ks" by (simp add: least_index_Some)
        with nonempty False m start found here Some show ?thesis by (simp add: Match_def first_keyword_def)
      qed
    qed
  qed
qed

text \<open>Overlapping keywords; the later, shorter one is in the text as well.\<close>

lemma match_is_first_keyword_witness:
  "(\<exists>m. new_matcher (\<lambda>s. s) [[], ''hers'', ''she'', ''he''] = Some m \<and>
      Match (\<lambda>s. s) m ''ushes'' = Some (''she'', True)) \<and>
   first_keyword (\<lambda>s. s) [[], ''hers'', ''she'', ''he''] ''ushes'' = (''she'', True)"
proof -
  have "first_keyword (\<lambda>s. s) [[], ''hers'', ''she'', ''he''] ''ushes'' = (''she'', True)"
    by code_simp
  with match_is_first_keyword [of "\<lambda>s. s" "[[], ''hers'', ''she'', ''he'']" "''ushes''"] show ?thesis by simp
qed

end
