(* ===== verification/Wheel.thy ===== *)
theory Wheel
  imports Go_Base
begin

text \<open>
  The timing wheel that can be stopped (\<^verbatim>\<open>infra/timingwheel/wheel.go\<close>), as the machine of all goroutines
  that use it: an action is one critical section or one return of a wait. Of the wheel of the
  library nothing is assumed: it may call back an armed task at any later time and any number of
  times, also after its timer was removed. A task is named by its number of creation, so that a
  task and a later one of the same name differ, as the pointers do in the code.
\<close>

record wheel_task =
  wt_name :: string
  wt_delay :: duration
  wt_recurring :: bool

datatype phase = InCallback nat | Leaving nat

record wheel =
  wh_tasks :: "string \<rightharpoonup> nat"
  wh_created :: "wheel_task list"
  wh_tw :: bool
  wh_stopped :: bool
  wh_stopDone :: bool
  wh_armed :: "nat set"
  wh_executing :: "phase list"
  wh_wg :: "nat"
  wh_task_wg :: "nat \<Rightarrow> nat"
  wh_started :: "nat list"

definition new_wheel :: wheel where
  "new_wheel = \<lparr>wh_tasks = Map.empty, wh_created = [], wh_tw = False, wh_stopped = False, wh_stopDone = False,
     wh_armed = {}, wh_executing = [], wh_wg = 0, wh_task_wg = (\<lambda>_. 0), wh_started = []\<rparr>"

text \<open>\<open>arm\<close>; a failing \<open>SetTimer\<close> is a task that is never called back.\<close>

definition arm :: "nat \<Rightarrow> wheel \<Rightarrow> wheel" where
  "arm t w = w\<lparr>wh_armed := insert t (wh_armed w)\<rparr>"

text \<open>\<open>ok\<close>: the library wheel could be made. The result is False for an error.\<close>

definition wheel_Start :: "bool \<Rightarrow> wheel \<Rightarrow> bool \<times> wheel" where
  "wheel_Start ok w =
     (if wh_stopped w then (False, w)
      else if wh_tw w then (True, w)
      else if \<not> ok then (False, w)
      else (True, w\<lparr>wh_tw := True, wh_armed := wh_armed w \<union> ran (wh_tasks w)\<rparr>))"

definition wheel_schedule :: "string \<Rightarrow> duration \<Rightarrow> bool \<Rightarrow> wheel \<Rightarrow> wheel" where
  "wheel_schedule name delay recurring w =
     (if wh_stopped w then w
      else
        let t = length (wh_created w);
            w = w\<lparr>wh_created := wh_created w @ [\<lparr>wt_name = name, wt_delay = delay, wt_recurring = recurring\<rparr>],
              wh_tasks := (wh_tasks w)(name \<mapsto> t)\<rparr>
        in if wh_tw w then arm t w else w)"

definition current :: "nat \<Rightarrow> wheel \<Rightarrow> bool" where
  "current t w \<longleftrightarrow> wh_tasks w (wt_name (wh_created w ! t)) = Some t"

text \<open>\<open>execute\<close> up to the call of the function, after the call, and its deferred \<open>Done\<close>s.\<close>

definition execute_begin :: "nat \<Rightarrow> wheel \<Rightarrow> wheel" where
  "execute_begin t w =
     (if wh_stopped w \<or> \<not> current t w then w
      else w\<lparr>wh_wg := wh_wg w + 1, wh_task_wg := (wh_task_wg w)(t := wh_task_wg w t + 1),
        wh_executing := InCallback t # wh_executing w, wh_started := t # wh_started w\<rparr>)"

definition execute_end :: "nat \<Rightarrow> wheel \<Rightarrow> wheel" where
  "execute_end t w =
     (let w = w\<lparr>wh_executing := Leaving t # remove1 (InCallback t) (wh_executing w)\<rparr>
      in if wh_stopped w \<or> \<not> current t w then w
         else if wt_recurring (wh_created w ! t) then arm t w
         else w\<lparr>wh_tasks := (wh_tasks w)(wt_name (wh_created w ! t) := None)\<rparr>)"

definition execute_done :: "nat \<Rightarrow> wheel \<Rightarrow> wheel" where
  "execute_done t w =
     w\<lparr>wh_executing := remove1 (Leaving t) (wh_executing w), wh_task_wg := (wh_task_wg w)(t := wh_task_wg w t - 1),
       wh_wg := wh_wg w - 1\<rparr>"

definition wheel_cancel :: "string \<Rightarrow> wheel \<Rightarrow> nat option \<times> wheel" where
  "wheel_cancel name w = (wh_tasks w name, w\<lparr>wh_tasks := (wh_tasks w)(name := None)\<rparr>)"

text \<open>The first part of \<open>Shutdown\<close>; its wait ends when \<open>wh_wg\<close> is zero, as that of \<open>CancelAndWait\<close> for a task.\<close>

definition wheel_Shutdown :: "wheel \<Rightarrow> wheel" where
  "wheel_Shutdown w =
     (if wh_stopDone w then w else w\<lparr>wh_stopped := True, wh_stopDone := True, wh_tasks := Map.empty\<rparr>)"

definition shutdown_returns :: "wheel \<Rightarrow> bool" where
  "shutdown_returns w \<longleftrightarrow> wh_stopDone w \<and> wh_wg w = 0"

definition cancel_returns :: "nat option \<Rightarrow> wheel \<Rightarrow> bool" where
  "cancel_returns t w \<longleftrightarrow> (case t of None \<Rightarrow> True | Some t \<Rightarrow> wh_task_wg w t = 0)"

datatype wheel_action =
    WStart bool
  | WSchedule string duration bool
  | WFire nat
  | WReturn nat
  | WDone nat
  | WCancel string
  | WShutdown

fun wheel_step :: "wheel_action \<Rightarrow> wheel \<Rightarrow> wheel" where
  "wheel_step (WStart ok) w = snd (wheel_Start ok w)"
| "wheel_step (WSchedule name delay recurring) w = wheel_schedule name delay recurring w"
| "wheel_step (WFire t) w = (if t \<in> wh_armed w then execute_begin t w else w)"
| "wheel_step (WReturn t) w = (if InCallback t \<in> set (wh_executing w) then execute_end t w else w)"
| "wheel_step (WDone t) w = (if Leaving t \<in> set (wh_executing w) then execute_done t w else w)"
| "wheel_step (WCancel name) w = snd (wheel_cancel name w)"
| "wheel_step WShutdown w = wheel_Shutdown w"

section \<open>The wait groups count the executions\<close>

definition executing :: "nat \<Rightarrow> wheel \<Rightarrow> nat" where
  "executing t w = count_list (wh_executing w) (InCallback t) + count_list (wh_executing w) (Leaving t)"

definition wheel_inv :: "wheel \<Rightarrow> bool" where
  "wheel_inv w \<longleftrightarrow>
     (\<forall>t. wh_task_wg w t = executing t w) \<and> wh_wg w = length (wh_executing w) \<and>
     (\<forall>n t. wh_tasks w n = Some t \<longrightarrow> t < length (wh_created w) \<and> wt_name (wh_created w ! t) = n) \<and>
     (\<forall>t \<in> wh_armed w. t < length (wh_created w)) \<and>
     (\<forall>t. InCallback t \<in> set (wh_executing w) \<longrightarrow> t < length (wh_created w)) \<and>
     (wh_stopDone w \<longrightarrow> wh_stopped w)"

lemma count_list_remove1: "count_list (remove1 x xs) y = count_list xs y - (if x = y then 1 else 0)"
  by (induction xs) (auto simp: count_notin)

lemma count_list_pos: "x \<in> set xs \<Longrightarrow> 0 < count_list xs x"
  by (induction xs) auto

lemma wheel_inv_new: "wheel_inv new_wheel"
  by (simp add: wheel_inv_def new_wheel_def executing_def)

lemma wheel_inv_step:
  assumes "wheel_inv w"
  shows "wheel_inv (wheel_step a w)"
proof (cases a)
  case (WStart ok)
  with assms show ?thesis by (auto simp: wheel_Start_def wheel_inv_def executing_def ran_def)
next
  case (WSchedule name delay recurring)
  with assms show ?thesis
    by (auto simp: wheel_schedule_def wheel_inv_def executing_def arm_def Let_def nth_append less_Suc_eq split: if_splits)
next
  case (WFire t)
  with assms show ?thesis
    by (auto simp: execute_begin_def wheel_inv_def executing_def split: if_splits)
next
  case (WReturn t)
  show ?thesis
  proof (cases "InCallback t \<in> set (wh_executing w)")
    case True
    define w1 where "w1 = w\<lparr>wh_executing := Leaving t # remove1 (InCallback t) (wh_executing w)\<rparr>"
    have "length (remove1 (InCallback t) (wh_executing w)) = length (wh_executing w) - 1"
      using True by (simp add: length_remove1)
    moreover have "0 < length (wh_executing w)" using True by (cases "wh_executing w") auto
    moreover have "executing u w1 = executing u w" for u
      using count_list_pos [OF True] by (auto simp: w1_def executing_def count_list_remove1)
    moreover have "t < length (wh_created w)" using assms True by (simp add: wheel_inv_def)
    ultimately have "wheel_inv w1"
      using assms by (auto simp: wheel_inv_def w1_def dest: notin_set_remove1)
    moreover have "executing u (w1\<lparr>wh_tasks := m\<rparr>) = executing u w1" "executing u (arm t w1) = executing u w1" for u m
      by (simp_all add: executing_def arm_def)
    ultimately have "wheel_inv (execute_end t w)"
      using \<open>t < length (wh_created w)\<close>
      by (auto simp: execute_end_def w1_def [symmetric] Let_def wheel_inv_def arm_def split: if_splits)
         (auto simp: w1_def)
    with True WReturn show ?thesis by simp
  qed (use assms WReturn in simp)
next
  case (WDone t)
  show ?thesis
  proof (cases "Leaving t \<in> set (wh_executing w)")
    case True
    with assms WDone count_list_pos [OF True] show ?thesis
      by (auto simp: execute_done_def wheel_inv_def executing_def count_list_remove1 length_remove1 dest: notin_set_remove1)
  qed (use assms WDone in simp)
next
  case (WCancel name)
  with assms show ?thesis by (auto simp: wheel_cancel_def wheel_inv_def executing_def split: if_splits)
next
  case WShutdown
  with assms show ?thesis by (auto simp: wheel_Shutdown_def wheel_inv_def executing_def)
qed


abbreviation wheel_run :: "wheel_action list \<Rightarrow> wheel \<Rightarrow> wheel" where
  "wheel_run as w \<equiv> fold wheel_step as w"

lemma wheel_inv_run: "wheel_inv w \<Longrightarrow> wheel_inv (wheel_run as w)"
  by (induction as arbitrary: w) (simp_all add: wheel_inv_step)

lemma executing_zero: "executing t w = 0 \<longleftrightarrow> InCallback t \<notin> set (wh_executing w) \<and> Leaving t \<notin> set (wh_executing w)"
  by (auto simp: executing_def count_list_0_iff)

section \<open>A task that left the table stays silent\<close>

definition gone :: "nat \<Rightarrow> wheel \<Rightarrow> bool" where
  "gone t w \<longleftrightarrow> t < length (wh_created w) \<and> (\<forall>n. wh_tasks w n \<noteq> Some t)"

lemma gone_step:
  assumes "gone t w"
  shows "gone t (wheel_step a w) \<and> count_list (wh_started (wheel_step a w)) t = count_list (wh_started w) t"
  using assms
  by (cases a) (auto simp: gone_def wheel_Start_def wheel_schedule_def arm_def Let_def execute_begin_def execute_end_def
    execute_done_def wheel_cancel_def wheel_Shutdown_def current_def)

lemma gone_run:
  "gone t w \<Longrightarrow> gone t (wheel_run as w) \<and> count_list (wh_started (wheel_run as w)) t = count_list (wh_started w) t"
  by (induction as arbitrary: w) (auto simp: gone_step)

lemma task_entry:
  assumes "wheel_inv w" and "wh_tasks w n = Some t"
  shows "t < length (wh_created w)" and "wt_name (wh_created w ! t) = n"
  using assms by (auto simp: wheel_inv_def)

lemma gone_cancel:
  assumes "wheel_inv w" and "wh_tasks w name = Some t"
  shows "gone t (snd (wheel_cancel name w))"
  using task_entry [OF assms] task_entry [OF assms(1)] by (auto simp: gone_def wheel_cancel_def)

section \<open>Draining\<close>

fun drain :: "phase \<Rightarrow> wheel_action list" where
  "drain (InCallback t) = [WReturn t, WDone t]"
| "drain (Leaving t) = [WDone t]"

lemma execute_end_executing: "wh_executing (execute_end t w) = Leaving t # remove1 (InCallback t) (wh_executing w)"
  by (auto simp: execute_end_def Let_def arm_def)

lemma drain_first: "wh_executing w = p # ps \<Longrightarrow> wh_executing (wheel_run (drain p) w) = ps"
  by (cases p) (auto simp: execute_end_executing execute_done_def)

lemma drain_all: "wh_executing w = ps \<Longrightarrow> wh_executing (wheel_run (concat (map drain ps)) w) = []"
  by (induction ps arbitrary: w) (simp_all add: drain_first)

lemma stopped_step:
  assumes "wh_stopped w" and "wh_stopDone w"
  shows "wh_stopped (wheel_step a w) \<and> wh_stopDone (wheel_step a w) \<and> wh_started (wheel_step a w) = wh_started w"
  using assms
  by (cases a) (auto simp: wheel_Start_def wheel_schedule_def execute_begin_def execute_end_def
    execute_done_def wheel_cancel_def wheel_Shutdown_def Let_def)

lemma stopped_run:
  "wh_stopped w \<Longrightarrow> wh_stopDone w \<Longrightarrow>
   wh_stopped (wheel_run as w) \<and> wh_stopDone (wheel_run as w) \<and> wh_started (wheel_run as w) = wh_started w"
  by (induction as arbitrary: w) (simp_all add: stopped_step)

text \<open>
  C24: A task that \<open>CancelAndWait\<close> took out of the table is never called again, whatever the wheel of
  the library does later; when the wait is over no execution of it is left; and the wait does end
  when the callbacks that are executing return.
\<close>

theorem cancel_and_wait_silences:
  assumes "w = wheel_run as new_wheel" and "wheel_cancel name w = (Some t, w1)"
  shows "count_list (wh_started (wheel_run bs w1)) t = count_list (wh_started w) t \<and>
    (cancel_returns (Some t) (wheel_run bs w1) \<longleftrightarrow>
      InCallback t \<notin> set (wh_executing (wheel_run bs w1)) \<and> Leaving t \<notin> set (wh_executing (wheel_run bs w1))) \<and>
    cancel_returns (Some t) (wheel_run (bs @ concat (map drain (wh_executing (wheel_run bs w1)))) w1)"
proof -
  have inv: "wheel_inv w" using assms(1) wheel_inv_run [OF wheel_inv_new] by simp
  have w1: "w1 = snd (wheel_cancel name w)" "wh_tasks w name = Some t" "wh_started w1 = wh_started w"
    using assms(2) by (auto simp: wheel_cancel_def)
  then have "wheel_inv w1" using wheel_inv_step [OF inv, of "WCancel name"] by simp
  then have inv': "wheel_inv (wheel_run cs w1)" for cs by (rule wheel_inv_run)
  then have ret: "cancel_returns (Some t) (wheel_run cs w1) \<longleftrightarrow> executing t (wheel_run cs w1) = 0" for cs
    by (simp add: cancel_returns_def wheel_inv_def)
  have "gone t w1" using gone_cancel [OF inv w1(2)] w1(1) by simp
  from gone_run [OF this, of bs] show ?thesis
    using ret [of bs] ret [of "bs @ concat (map drain (wh_executing (wheel_run bs w1)))"] executing_zero w1(3)
      drain_all [OF refl, of "wheel_run bs w1"]
    by (simp add: executing_def)
qed

theorem cancel_and_wait_silences_witness:
  "let w = wheel_run [WStart True, WSchedule ''a'' 5 True, WFire 0] new_wheel;
       w1 = snd (wheel_cancel ''a'' w);
       bs = [WSchedule ''a'' 7 False, WFire 0, WFire 1, WReturn 0]
   in count_list (wh_started (wheel_run bs w1)) 0 = count_list (wh_started w) 0 \<and>
      wh_started (wheel_run bs w1) = [1, 0] \<and> wh_executing (wheel_run bs w1) = [Leaving 0, InCallback 1]"
proof -
  have c: "wheel_cancel ''a'' (wheel_run [WStart True, WSchedule ''a'' 5 True, WFire 0] new_wheel) =
      (Some 0, snd (wheel_cancel ''a'' (wheel_run [WStart True, WSchedule ''a'' 5 True, WFire 0] new_wheel)))"
    by (simp add: wheel_cancel_def wheel_Start_def wheel_schedule_def new_wheel_def arm_def execute_begin_def current_def)
  show ?thesis
    unfolding Let_def
    using conjunct1 [OF cancel_and_wait_silences [OF refl c, of "[WSchedule ''a'' 7 False, WFire 0, WFire 1, WReturn 0]"]]
    by (simp add: wheel_cancel_def wheel_Start_def wheel_schedule_def new_wheel_def arm_def execute_begin_def
      execute_end_def current_def)
qed

text \<open>
  Once \<open>Shutdown\<close> has closed the wheel no callback starts any more; its wait is over exactly when
  no callback is executing, which the return of the executing ones brings about; and then it stays so.
\<close>

theorem shutdown_stops_callbacks:
  assumes "w = wheel_Shutdown (wheel_run as new_wheel)"
  shows "wh_started (wheel_run bs w) = wh_started w \<and>
    (shutdown_returns (wheel_run bs w) \<longleftrightarrow> wh_executing (wheel_run bs w) = []) \<and>
    shutdown_returns (wheel_run (bs @ concat (map drain (wh_executing (wheel_run bs w)))) w)"
proof -
  have inv: "wheel_inv (wheel_run as new_wheel)" by (rule wheel_inv_run [OF wheel_inv_new])
  then have "wheel_inv w" using wheel_inv_step [OF inv, of WShutdown] assms by simp
  then have inv': "wheel_inv (wheel_run cs w)" for cs by (rule wheel_inv_run)
  have "wh_stopped w \<and> wh_stopDone w" using assms inv by (auto simp: wheel_Shutdown_def wheel_inv_def)
  then have st: "wh_stopDone (wheel_run cs w) \<and> wh_started (wheel_run cs w) = wh_started w" for cs
    using stopped_run by blast
  have ret: "shutdown_returns (wheel_run cs w) \<longleftrightarrow> wh_executing (wheel_run cs w) = []" for cs
    using st [of cs] inv' [of cs] by (simp add: shutdown_returns_def wheel_inv_def)
  show ?thesis
    using st [of bs] ret [of bs] ret [of "bs @ concat (map drain (wh_executing (wheel_run bs w)))"]
      drain_all [OF refl, of "wheel_run bs w"] by simp
qed

theorem shutdown_stops_callbacks_witness:
  "let w = wheel_Shutdown (wheel_run [WStart True, WSchedule ''a'' 5 True, WFire 0] new_wheel)
   in wh_started (wheel_run [WFire 0, WReturn 0] w) = wh_started w \<and> wh_started w = [0] \<and>
      wh_executing (wheel_run [WFire 0, WReturn 0] w) = [Leaving 0]"
  unfolding Let_def
  using conjunct1 [OF shutdown_stops_callbacks [OF refl, of "[WStart True, WSchedule ''a'' 5 True, WFire 0]" "[WFire 0, WReturn 0]"]]
  by (simp add: wheel_Start_def wheel_schedule_def new_wheel_def arm_def execute_begin_def
      execute_end_def current_def wheel_Shutdown_def)

end
