(* ===== verification/Redis.thy ===== *)
theory Redis
  imports Go_Base "HOL-Library.AList"
begin

text \<open>
  The Redis commands the caches of the scheduler use, with their documented effect: sorted sets as
  association lists from members to integer scores, lists, strings that hold integers or texts, and deadlines
  of keys in milliseconds. A sorted set or list that becomes empty is removed with its deadline; a key whose
  deadline has passed is dropped by the clock (\<open>tick\<close>).

  A request of a client is a \<open>roundtrip\<close>: it consumes one event of the environment, which says what
  the other clients did before the request is served, how much time passed and whether the request
  was lost or its answer was.
\<close>

record redis =
  rd_clock :: int
  rd_zsets :: "string \<Rightarrow> (string \<times> int) list"
  rd_lists :: "string \<Rightarrow> string list"
  rd_values :: "string \<rightharpoonup> int"
  rd_texts :: "string \<rightharpoonup> string"
  rd_deadline :: "string \<rightharpoonup> int"

definition empty_redis :: "int \<Rightarrow> redis" where
  "empty_redis now = \<lparr>rd_clock = now, rd_zsets = (\<lambda>_. []), rd_lists = (\<lambda>_. []), rd_values = Map.empty, rd_texts = Map.empty,
     rd_deadline = Map.empty\<rparr>"

definition TIME :: "redis \<Rightarrow> int" where
  "TIME r = rd_clock r div 1000"

definition expired :: "redis \<Rightarrow> string \<Rightarrow> bool" where
  "expired r k \<longleftrightarrow> (case rd_deadline r k of None \<Rightarrow> False | Some d \<Rightarrow> d < rd_clock r)"

definition tick :: "nat \<Rightarrow> redis \<Rightarrow> redis" where
  "tick ms r =
     (let r = r\<lparr>rd_clock := rd_clock r + int ms\<rparr>
      in r\<lparr>rd_zsets := (\<lambda>k. if expired r k then [] else rd_zsets r k),
           rd_lists := (\<lambda>k. if expired r k then [] else rd_lists r k),
           rd_values := (\<lambda>k. if expired r k then None else rd_values r k),
           rd_texts := (\<lambda>k. if expired r k then None else rd_texts r k),
           rd_deadline := (\<lambda>k. if expired r k then None else rd_deadline r k)\<rparr>)"

section \<open>Sorted sets\<close>

definition put_zset :: "string \<Rightarrow> (string \<times> int) list \<Rightarrow> redis \<Rightarrow> redis" where
  "put_zset k z r =
     r\<lparr>rd_zsets := (rd_zsets r)(k := z),
       rd_deadline := (if z = [] then (rd_deadline r)(k := None) else rd_deadline r)\<rparr>"

definition ZADD :: "string \<Rightarrow> int \<Rightarrow> string \<Rightarrow> redis \<Rightarrow> redis" where
  "ZADD k score m r = put_zset k (AList.update m score (rd_zsets r k)) r"

definition ZREM :: "string \<Rightarrow> string \<Rightarrow> redis \<Rightarrow> redis" where
  "ZREM k m r = put_zset k (AList.delete m (rd_zsets r k)) r"

definition ZSCORE :: "string \<Rightarrow> string \<Rightarrow> redis \<Rightarrow> int option" where
  "ZSCORE k m r = map_of (rd_zsets r k) m"

definition ZCARD :: "string \<Rightarrow> redis \<Rightarrow> int" where
  "ZCARD k r = int (length (rd_zsets r k))"

text \<open>\<open>ZREMRANGEBYSCORE key -inf top\<close>.\<close>

definition ZREMRANGEBYSCORE :: "string \<Rightarrow> int \<Rightarrow> redis \<Rightarrow> redis" where
  "ZREMRANGEBYSCORE k hi r = put_zset k (filter (\<lambda>p. hi < snd p) (rd_zsets r k)) r"

text \<open>\<open>ZRANGE key 0 -1\<close> and \<open>ZRANGEBYSCORE key -inf top LIMIT 0 count\<close>: by score, then by member.\<close>

definition ZRANGE :: "string \<Rightarrow> redis \<Rightarrow> string list" where
  "ZRANGE k r = map fst (sort_key snd (sort_key fst (rd_zsets r k)))"

definition ZRANGEBYSCORE :: "string \<Rightarrow> int \<Rightarrow> nat \<Rightarrow> redis \<Rightarrow> string list" where
  "ZRANGEBYSCORE k hi limit r =
     take limit (map fst (sort_key snd (sort_key fst (filter (\<lambda>p. snd p \<le> hi) (rd_zsets r k)))))"

section \<open>Lists\<close>

text \<open>The head of the list is its left end: \<open>LPUSH\<close> adds there and \<open>RPOP\<close> takes from the other end.\<close>

definition put_list :: "string \<Rightarrow> string list \<Rightarrow> redis \<Rightarrow> redis" where
  "put_list k xs r =
     r\<lparr>rd_lists := (rd_lists r)(k := xs),
       rd_deadline := (if xs = [] then (rd_deadline r)(k := None) else rd_deadline r)\<rparr>"

definition LPUSH :: "string \<Rightarrow> string \<Rightarrow> redis \<Rightarrow> redis" where
  "LPUSH k m r = put_list k (m # rd_lists r k) r"

definition RPOP :: "string \<Rightarrow> redis \<Rightarrow> string option \<times> redis" where
  "RPOP k r =
     (case rd_lists r k of
        [] \<Rightarrow> (None, r)
      | x # xs \<Rightarrow> (Some (last (x # xs)), put_list k (butlast (x # xs)) r))"

section \<open>Strings, deletion and expiry\<close>

definition GET :: "string \<Rightarrow> redis \<Rightarrow> int option" where
  "GET k r = rd_values r k"

definition INCR :: "string \<Rightarrow> redis \<Rightarrow> int \<times> redis" where
  "INCR k r =
     (let v = (case rd_values r k of None \<Rightarrow> 0 | Some v \<Rightarrow> v) + 1
      in (v, r\<lparr>rd_values := (rd_values r)(k \<mapsto> v)\<rparr>))"

definition DECR :: "string \<Rightarrow> redis \<Rightarrow> int \<times> redis" where
  "DECR k r =
     (let v = (case rd_values r k of None \<Rightarrow> 0 | Some v \<Rightarrow> v) - 1
      in (v, r\<lparr>rd_values := (rd_values r)(k \<mapsto> v)\<rparr>))"

definition DEL :: "string \<Rightarrow> redis \<Rightarrow> redis" where
  "DEL k r =
     r\<lparr>rd_zsets := (rd_zsets r)(k := []), rd_lists := (rd_lists r)(k := []), rd_values := (rd_values r)(k := None), rd_texts := (rd_texts r)(k := None),
       rd_deadline := (rd_deadline r)(k := None)\<rparr>"

text \<open>\<open>SET key value\<close> of an integer and of a text, without an expiry.\<close>

definition SETV :: "string \<Rightarrow> int \<Rightarrow> redis \<Rightarrow> redis" where
  "SETV k v r =
     r\<lparr>rd_zsets := (rd_zsets r)(k := []), rd_lists := (rd_lists r)(k := []), rd_values := (rd_values r)(k \<mapsto> v), rd_texts := (rd_texts r)(k := None),
       rd_deadline := (rd_deadline r)(k := None)\<rparr>"

definition SETT :: "string \<Rightarrow> string \<Rightarrow> redis \<Rightarrow> redis" where
  "SETT k t r =
     r\<lparr>rd_zsets := (rd_zsets r)(k := []), rd_lists := (rd_lists r)(k := []), rd_values := (rd_values r)(k := None), rd_texts := (rd_texts r)(k \<mapsto> t),
       rd_deadline := (rd_deadline r)(k := None)\<rparr>"

definition GETT :: "string \<Rightarrow> redis \<Rightarrow> string option" where
  "GETT k r = rd_texts r k"

definition EXISTS :: "string \<Rightarrow> redis \<Rightarrow> bool" where
  "EXISTS k r \<longleftrightarrow> rd_zsets r k \<noteq> [] \<or> rd_lists r k \<noteq> [] \<or> rd_values r k \<noteq> None \<or> rd_texts r k \<noteq> None"

definition PEXPIRE :: "string \<Rightarrow> int \<Rightarrow> redis \<Rightarrow> redis" where
  "PEXPIRE k ms r =
     (if \<not> EXISTS k r then r
      else if ms \<le> 0 then DEL k r
      else r\<lparr>rd_deadline := (rd_deadline r)(k \<mapsto> rd_clock r + ms)\<rparr>)"

text \<open>\<open>PTTL\<close>: -2 for a missing key, -1 for a key without a deadline.\<close>

definition PTTL :: "string \<Rightarrow> redis \<Rightarrow> int" where
  "PTTL k r =
     (if \<not> EXISTS k r then -2 else case rd_deadline r k of None \<Rightarrow> -1 | Some d \<Rightarrow> d - rd_clock r)"

definition EXPIRE :: "string \<Rightarrow> int \<Rightarrow> redis \<Rightarrow> redis" where
  "EXPIRE k ttl r = PEXPIRE k (1000 * ttl) r"

lemmas redis_defs = ZADD_def ZREM_def ZREMRANGEBYSCORE_def put_zset_def EXPIRE_def PEXPIRE_def EXISTS_def DEL_def SETV_def
  INCR_def DECR_def

section \<open>Round trips\<close>

datatype event = Event (interference: "(redis \<Rightarrow> redis) list") (elapsed: nat) (outcome: fault)

record world =
  wd_redis :: redis
  wd_events :: "event list"

definition roundtrip :: "(redis \<Rightarrow> 'a \<times> redis) \<Rightarrow> world \<Rightarrow> 'a option \<times> world" where
  "roundtrip f w =
     (case wd_events w of
        [] \<Rightarrow> (Some (fst (f (wd_redis w))), w\<lparr>wd_redis := snd (f (wd_redis w))\<rparr>)
      | e # es \<Rightarrow>
          (let r = tick (elapsed e) (fold (\<lambda>g. g) (interference e) (wd_redis w));
               reply = fst (f r); r' = snd (f r)
           in case outcome e of
                Served \<Rightarrow> (Some reply, \<lparr>wd_redis = r', wd_events = es\<rparr>)
              | Lost \<Rightarrow> (None, \<lparr>wd_redis = r, wd_events = es\<rparr>)
              | Unconfirmed \<Rightarrow> (None, \<lparr>wd_redis = r', wd_events = es\<rparr>)))"

text \<open>The clock alone, and a command without an answer.\<close>

definition server_time :: "world \<Rightarrow> int option \<times> world" where
  "server_time = roundtrip (\<lambda>r. (TIME r, r))"

definition send :: "(redis \<Rightarrow> redis) \<Rightarrow> world \<Rightarrow> unit option \<times> world" where
  "send f = roundtrip (\<lambda>r. ((), f r))"

text \<open>
  \<open>if err != nil { return err }\<close> after a request, and a pipeline: its commands are sent together but
  served one by one, and \<open>Exec\<close> fails when one of them does.
\<close>

definition try_then :: "'a option \<times> world \<Rightarrow> ('a \<Rightarrow> world \<Rightarrow> 'b option \<times> world) \<Rightarrow> 'b option \<times> world" where
  "try_then x f = (case fst x of None \<Rightarrow> (None, snd x) | Some a \<Rightarrow> f a (snd x))"

fun pipeline :: "(redis \<Rightarrow> 'a \<times> redis) list \<Rightarrow> world \<Rightarrow> 'a list option \<times> world" where
  "pipeline [] w = (Some [], w)"
| "pipeline (f # fs) w =
     (let (x, w) = roundtrip f w;
          (xs, w) = pipeline fs w
      in (case x of None \<Rightarrow> None | Some a \<Rightarrow> map_option ((#) a) xs, w))"

section \<open>Laws\<close>

lemma put_zset_zsets [simp]: "rd_zsets (put_zset k z r) = (rd_zsets r)(k := z)"
  by (simp add: put_zset_def)

lemma put_zset_frame [simp]:
  "rd_clock (put_zset k z r) = rd_clock r" "rd_values (put_zset k z r) = rd_values r"
  by (simp_all add: put_zset_def)

lemma command_clock [simp]:
  "rd_clock (ZADD k s m r) = rd_clock r" "rd_clock (ZREM k m r) = rd_clock r"
  "rd_clock (ZREMRANGEBYSCORE k s r) = rd_clock r" "rd_clock (EXPIRE k t r) = rd_clock r"
  "rd_clock (DEL k r) = rd_clock r" "rd_clock (SETV k v r) = rd_clock r" "rd_clock (PEXPIRE k t r) = rd_clock r"
  "rd_clock (snd (INCR k r)) = rd_clock r" "rd_clock (snd (DECR k r)) = rd_clock r"
  by (simp_all add: redis_defs Let_def)

lemma command_time [simp]:
  "TIME (ZADD k s m r) = TIME r" "TIME (ZREM k m r) = TIME r"
  "TIME (ZREMRANGEBYSCORE k s r) = TIME r" "TIME (EXPIRE k t r) = TIME r"
  "TIME (DEL k r) = TIME r" "TIME (SETV k v r) = TIME r" "TIME (PEXPIRE k t r) = TIME r"
  "TIME (snd (INCR k r)) = TIME r" "TIME (snd (DECR k r)) = TIME r"
  by (simp_all add: TIME_def)

lemma command_zsets [simp]:
  "rd_zsets (ZADD k s m r) = (rd_zsets r)(k := AList.update m s (rd_zsets r k))"
  "rd_zsets (ZREM k m r) = (rd_zsets r)(k := AList.delete m (rd_zsets r k))"
  "rd_zsets (ZREMRANGEBYSCORE k s r) = (rd_zsets r)(k := filter (\<lambda>p. s < snd p) (rd_zsets r k))"
  "rd_zsets (DEL k r) = (rd_zsets r)(k := [])"
  "0 < t \<Longrightarrow> rd_zsets (EXPIRE k t r) = rd_zsets r"
  "rd_zsets (snd (INCR k r)) = rd_zsets r" "rd_zsets (snd (DECR k r)) = rd_zsets r"
  by (simp_all add: redis_defs Let_def)

lemma command_values [simp]:
  "rd_values (ZADD k s m r) = rd_values r" "rd_values (ZREM k m r) = rd_values r"
  "rd_values (ZREMRANGEBYSCORE k s r) = rd_values r"
  "rd_values (DEL k r) = (rd_values r)(k := None)"
  "0 < t \<Longrightarrow> rd_values (EXPIRE k t r) = rd_values r"
  by (simp_all add: redis_defs Let_def)

lemma tick_clock [simp]: "rd_clock (tick ms r) = rd_clock r + int ms"
  by (simp add: tick_def Let_def)

lemma TIME_tick: "TIME r \<le> TIME (tick ms r)"
  by (simp add: TIME_def zdiv_mono1)


text \<open>A world in which nothing interferes and every request is served.\<close>

abbreviation served :: "redis \<Rightarrow> world" where
  "served r \<equiv> \<lparr>wd_redis = r, wd_events = []\<rparr>"

lemma roundtrip_served: "roundtrip f (served r) = (Some (fst (f r)), served (snd (f r)))"
  by (simp add: roundtrip_def)

lemma send_served: "send f (served r) = (Some (), served (f r))"
  by (simp add: send_def roundtrip_served)

section \<open>What a program can do to the store\<close>

text \<open>
  The states reachable by requests of a kind \<open>P\<close>, in any order and at any time, and the programs whose
  own requests are all of that kind: if the other clients keep to \<open>P\<close>, so does everything together.
\<close>

inductive reach :: "((redis \<Rightarrow> redis) \<Rightarrow> bool) \<Rightarrow> redis \<Rightarrow> redis \<Rightarrow> bool" for P where
  reach_refl [simp, intro]: "reach P r r"
| reach_step: "reach P r r' \<Longrightarrow> P f \<Longrightarrow> reach P r (f r')"
| reach_tick: "reach P r r' \<Longrightarrow> reach P r (tick ms r')"

lemma reach_trans [trans]:
  assumes "reach P r r'" and "reach P r' r''"
  shows "reach P r r''"
  using assms(2,1) by induction (auto intro: reach.intros)

lemma reach_invariant:
  assumes "reach P r r'" and "I r"
    and "\<And>f r. P f \<Longrightarrow> I r \<Longrightarrow> I (f r)" and "\<And>ms r. I r \<Longrightarrow> I (tick ms r)"
  shows "I r'"
  using assms(1,2) by induction (auto intro: assms(3,4))

definition friendly :: "((redis \<Rightarrow> redis) \<Rightarrow> bool) \<Rightarrow> world \<Rightarrow> bool" where
  "friendly P w \<longleftrightarrow> (\<forall>e \<in> set (wd_events w). \<forall>f \<in> set (interference e). P f)"

definition runs :: "((redis \<Rightarrow> redis) \<Rightarrow> bool) \<Rightarrow> world \<Rightarrow> world \<Rightarrow> bool" where
  "runs P w w' \<longleftrightarrow> (friendly P w \<longrightarrow> friendly P w' \<and> reach P (wd_redis w) (wd_redis w'))"

lemma runs_refl [simp, intro]: "runs P w w"
  by (simp add: runs_def)

lemma runs_trans [trans]: "runs P w w' \<Longrightarrow> runs P w' w'' \<Longrightarrow> runs P w w''"
  unfolding runs_def by (blast intro: reach_trans)

lemma reach_fold: "(\<forall>f \<in> set fs. P f) \<Longrightarrow> reach P r r' \<Longrightarrow> reach P r (fold (\<lambda>g. g) fs r')"
  by (induction fs arbitrary: r') (auto intro: reach_step)

lemma roundtrip_send: "snd (roundtrip f w) = snd (send (\<lambda>r. snd (f r)) w)"
  by (auto simp: send_def roundtrip_def Let_def split: list.splits event.splits fault.splits)

lemma runs_send:
  assumes "P f"
  shows "runs P w (snd (send f w))"
proof (cases "wd_events w")
  case Nil
  have "reach P (wd_redis w) (f (wd_redis w))" by (rule reach_step [where P = P, OF reach_refl assms])
  with Nil show ?thesis by (simp add: send_def roundtrip_def runs_def friendly_def)
next
  case (Cons e es)
  let ?r = "tick (elapsed e) (fold (\<lambda>g. g) (interference e) (wd_redis w))"
  { assume fr: "friendly P w"
    then have int: "\<forall>f \<in> set (interference e). P f" and es: "\<forall>e \<in> set es. \<forall>f \<in> set (interference e). P f"
      using Cons by (simp_all add: friendly_def)
    have "reach P (wd_redis w) ?r" by (rule reach_tick [OF reach_fold [OF int reach_refl]])
    moreover from this have "reach P (wd_redis w) (f ?r)" by (rule reach_step [where P = P, OF _ assms])
    ultimately have "friendly P (snd (send f w)) \<and> reach P (wd_redis w) (wd_redis (snd (send f w)))"
      using Cons es by (cases "outcome e") (simp_all add: send_def roundtrip_def Let_def friendly_def)
  }
  then show ?thesis unfolding runs_def by blast
qed

lemma runs_reach: "runs P w w' \<Longrightarrow> friendly P w \<Longrightarrow> reach P (wd_redis w) (wd_redis w')"
  by (simp add: runs_def)

text \<open>
  What a program does to the world, from what its requests do: the laws of a relation \<open>R\<close> that every
  request of kind \<open>P\<close> satisfies, for the ways in which the code puts requests together.
\<close>

locale program_logic =
  fixes P :: "(redis \<Rightarrow> redis) \<Rightarrow> bool" and R :: "world \<Rightarrow> world \<Rightarrow> bool"
  assumes R_refl: "R w w"
    and R_trans: "R w w' \<Longrightarrow> R w' w'' \<Longrightarrow> R w w''"
    and R_send: "P f \<Longrightarrow> R w (snd (send f w))"
begin

lemma R_roundtrip: "P (\<lambda>r. snd (f r)) \<Longrightarrow> R w (snd (roundtrip f w))"
  by (simp add: roundtrip_send R_send)

lemma R_result: "roundtrip f w = (a, w') \<Longrightarrow> P (\<lambda>r. snd (f r)) \<Longrightarrow> R w w'"
  using R_roundtrip [of f w] by simp

lemma R_case:
  "R w (snd x) \<Longrightarrow> (\<And>a w'. x = (a, w') \<Longrightarrow> R w' (snd (g a w'))) \<Longrightarrow> R w (snd (case x of (a, w') \<Rightarrow> g a w'))"
  by (cases x) (auto intro: R_trans)

lemma R_time: "P (\<lambda>r. r) \<Longrightarrow> R w (snd (server_time w))"
  unfolding server_time_def by (rule R_roundtrip) simp

lemma R_try_then:
  assumes "R w (snd x)" and "\<And>a w'. R w' (snd (g a w'))"
  shows "R w (snd (try_then x g))"
  using assms(1) R_trans [OF assms(1) assms(2)] by (auto simp: try_then_def split: option.splits)

lemma R_pipeline: "\<forall>f \<in> set fs. P (\<lambda>r. snd (f r)) \<Longrightarrow> R w (snd (pipeline fs w))"
proof (induction fs arbitrary: w)
  case (Cons f fs)
  obtain x w1 where x: "roundtrip f w = (x, w1)" by force
  obtain xs w2 where xs: "pipeline fs w1 = (xs, w2)" by force
  have "R w w1" using R_roundtrip [of f w] Cons.prems x by simp
  moreover have "R w1 w2" using Cons.IH [of w1] Cons.prems xs by simp
  ultimately show ?case using x xs R_trans by auto
qed (simp add: R_refl)

end

interpretation runs: program_logic P "runs P" for P
  by unfold_locales (auto intro: runs_trans runs_send)

end
