(* ===== verification/Redis_Quiet.thy ===== *)
theory Redis_Quiet
  imports Redis
begin

text \<open>
  Counters in Redis that no other process touches while they cannot expire: what a request of the
  program finds there, and the programs that leave a counter alone (\<open>calm\<close>, a logic of programs).
\<close>

definition keeps :: "string \<Rightarrow> (redis \<Rightarrow> redis) \<Rightarrow> bool" where
  "keeps k f \<longleftrightarrow> (\<forall>r. rd_clock (f r) = rd_clock r \<and> rd_values (f r) k = rd_values r k \<and>
     rd_deadline (f r) k \<in> {None, rd_deadline r k})"

definition quiet :: "string \<Rightarrow> int \<Rightarrow> int \<Rightarrow> world \<Rightarrow> bool" where
  "quiet k start finish w \<longleftrightarrow> (\<forall>e \<in> set (wd_events w). \<forall>f \<in> set (interference e). keeps k f) \<and>
     start \<le> rd_clock (wd_redis w) \<and>
     rd_clock (wd_redis w) + int (sum_list (map elapsed (wd_events w))) \<le> finish \<and>
     (\<forall>d. rd_deadline (wd_redis w) k = Some d \<longrightarrow> finish \<le> d)"

definition counter :: "string \<Rightarrow> redis \<Rightarrow> int" where
  "counter k r = (case rd_values r k of None \<Rightarrow> 0 | Some v \<Rightarrow> v)"

text \<open>The requests of the world that fail.\<close>

definition faulty :: "world \<Rightarrow> nat" where
  "faulty w = length (filter (\<lambda>e. outcome e \<noteq> Served) (wd_events w))"

definition calm :: "string \<Rightarrow> int \<Rightarrow> int \<Rightarrow> world \<Rightarrow> world \<Rightarrow> bool" where
  "calm k start finish w w' \<longleftrightarrow>
     (quiet k start finish w \<longrightarrow> quiet k start finish w' \<and> counter k (wd_redis w') = counter k (wd_redis w)) \<and>
     faulty w' \<le> faulty w"

lemma keeps_fold:
  assumes "\<forall>f \<in> set fs. keeps k f"
  shows "keeps k (fold (\<lambda>g. g) fs)"
  using assms
proof (induction fs)
  case (Cons f fs)
  then have f: "keeps k f" and fs: "keeps k (fold (\<lambda>g. g) fs)" by simp_all
  have "rd_deadline (fold (\<lambda>g. g) fs (f r)) k \<in> {None, rd_deadline r k}" for r
    using f [unfolded keeps_def, rule_format, of r] fs [unfolded keeps_def, rule_format, of "f r"] by auto
  then show ?case using f fs by (simp add: keeps_def)
qed (simp add: keeps_def)

lemma tick_quiet:
  assumes "\<forall>d. rd_deadline r k = Some d \<longrightarrow> finish \<le> d" and "rd_clock r + int ms \<le> finish"
  shows "rd_values (tick ms r) k = rd_values r k" and "rd_deadline (tick ms r) k = rd_deadline r k"
  using assms by (force simp: tick_def Let_def expired_def split: option.splits)+

text \<open>The state in which a request of a quiet world is served, and its outcome.\<close>

lemma quiet_roundtrip:
  assumes "quiet k start finish w"
  obtains r es where "quiet k start finish \<lparr>wd_redis = r, wd_events = es\<rparr>"
    and "rd_values r k = rd_values (wd_redis w) k"
    and "roundtrip f w \<in> {(Some (fst (f r)), \<lparr>wd_redis = snd (f r), wd_events = es\<rparr>),
      (None, \<lparr>wd_redis = snd (f r), wd_events = es\<rparr>), (None, \<lparr>wd_redis = r, wd_events = es\<rparr>)}"
proof (cases "wd_events w")
  case Nil
  have "w = \<lparr>wd_redis = wd_redis w, wd_events = []\<rparr>" using Nil by (cases w) simp
  with assms Nil show ?thesis
    by (intro that [of "wd_redis w" "[]"]) (simp_all add: roundtrip_def quiet_def)
next
  case (Cons e es)
  define r1 where "r1 = fold (\<lambda>g. g) (interference e) (wd_redis w)"
  let ?r = "tick (elapsed e) r1"
  have "keeps k (fold (\<lambda>g. g) (interference e))"
    using assms Cons by (intro keeps_fold) (simp add: quiet_def)
  then have r1: "rd_clock r1 = rd_clock (wd_redis w)" "rd_values r1 k = rd_values (wd_redis w) k"
    "rd_deadline r1 k \<in> {None, rd_deadline (wd_redis w) k}"
    unfolding keeps_def r1_def by blast+
  have d: "\<forall>d. rd_deadline r1 k = Some d \<longrightarrow> finish \<le> d" using r1(3) assms by (auto simp: quiet_def)
  have c: "rd_clock r1 + int (elapsed e) \<le> finish" using assms Cons r1(1) by (simp add: quiet_def)
  show ?thesis
  proof (rule that [of ?r es])
    show "quiet k start finish \<lparr>wd_redis = ?r, wd_events = es\<rparr>"
      using assms Cons r1(1) d tick_quiet [OF d c] by (simp add: quiet_def)
    show "rd_values ?r k = rd_values (wd_redis w) k" using tick_quiet [OF d c] r1(2) by simp
  qed (use Cons in \<open>cases "outcome e"; simp add: roundtrip_def Let_def r1_def [symmetric]\<close>)
qed

lemma quiet_keeps:
  assumes "quiet k start finish \<lparr>wd_redis = r, wd_events = es\<rparr>" and "keeps k f"
  shows "quiet k start finish \<lparr>wd_redis = f r, wd_events = es\<rparr>" and "counter k (f r) = counter k r"
proof -
  have "rd_clock (f r) = rd_clock r" "rd_values (f r) k = rd_values r k" "rd_deadline (f r) k \<in> {None, rd_deadline r k}"
    using assms(2) by (simp_all add: keeps_def)
  then show "quiet k start finish \<lparr>wd_redis = f r, wd_events = es\<rparr>" "counter k (f r) = counter k r"
    using assms(1) by (auto simp: quiet_def counter_def)
qed

lemma faulty_roundtrip:
  "faulty (snd (roundtrip f w)) + (if fst (roundtrip f w) = None then 1 else 0) \<le> faulty w"
proof (cases "wd_events w")
  case (Cons e es)
  then show ?thesis by (cases "outcome e") (simp_all add: faulty_def roundtrip_def Let_def)
qed (simp add: faulty_def roundtrip_def)

lemma keeps_other:
  assumes "x \<noteq> k"
  shows "keeps k (ZADD x s m)" "keeps k (ZREM x m)" "keeps k (ZREMRANGEBYSCORE x s)"
  using assms by (simp_all add: keeps_def ZADD_def ZREM_def ZREMRANGEBYSCORE_def put_zset_def)

lemma keeps_id [simp]: "keeps k (\<lambda>r. r)"
  by (simp add: keeps_def)

interpretation calm: program_logic "keeps k" "calm k start finish" for k start finish
proof unfold_locales
  fix f w
  assume f: "keeps k f"
  have "quiet k start finish (snd (send f w)) \<and> counter k (wd_redis (snd (send f w))) = counter k (wd_redis w)"
    if q: "quiet k start finish w"
  proof -
    obtain r es where r: "quiet k start finish \<lparr>wd_redis = r, wd_events = es\<rparr>" "rd_values r k = rd_values (wd_redis w) k"
      and "send f w \<in> {(Some (), \<lparr>wd_redis = f r, wd_events = es\<rparr>), (None, \<lparr>wd_redis = f r, wd_events = es\<rparr>),
        (None, \<lparr>wd_redis = r, wd_events = es\<rparr>)}"
      using quiet_roundtrip [OF q, of "\<lambda>r. ((), f r)"] by (auto simp: send_def)
    then show ?thesis using quiet_keeps [OF r(1) f] by (auto simp: counter_def)
  qed
  moreover have "faulty (snd (send f w)) \<le> faulty w"
    using faulty_roundtrip [of "\<lambda>r. ((), f r)" w] by (simp add: send_def)
  ultimately show "calm k start finish w (snd (send f w))" by (simp add: calm_def)
qed (auto simp: calm_def)

end
