(* ===== verification/Conc_Scripts.thy ===== *)
theory Conc_Scripts
  imports Redis_Quiet
begin

text \<open>
  The scripts and keys of the concurrency cache (\<^verbatim>\<open>scheduler/rediscache/concurrency_cache.go\<close>). Every
  Lua script is one function on the Redis state, because Redis runs a script without interruption.
  Replies \<open>{a, b}\<close> are pairs.
\<close>

section \<open>Keys\<close>

definition providerSlotKeyPrefix :: string where "providerSlotKeyPrefix = ''concurrency:provider:''"
definition userSlotKeyPrefix :: string where "userSlotKeyPrefix = ''concurrency:user:''"
definition apiKeySlotKeyPrefix :: string where "apiKeySlotKeyPrefix = ''concurrency:api_key:''"
definition liveProviderSlotKeyPrefix :: string where "liveProviderSlotKeyPrefix = ''concurrency:live:provider:''"
definition liveUserSlotKeyPrefix :: string where "liveUserSlotKeyPrefix = ''concurrency:live:user:''"
definition liveAPIKeySlotKeyPrefix :: string where "liveAPIKeySlotKeyPrefix = ''concurrency:live:api_key:''"
definition openAIWSIngressLeaseKeyPrefix :: string where
  "openAIWSIngressLeaseKeyPrefix = ''concurrency:openai_ws_ingress:api_key:''"
definition waitQueueKeyPrefix :: string where "waitQueueKeyPrefix = ''concurrency:wait:''"
definition providerWaitKeyPrefix :: string where "providerWaitKeyPrefix = ''wait:provider:''"
definition providerActiveIndexKey :: string where "providerActiveIndexKey = ''concurrency:provider:active_index''"
definition userActiveIndexKey :: string where "userActiveIndexKey = ''concurrency:user:active_index''"
definition legacyWaitSweepMarkerKey :: string where
  "legacyWaitSweepMarkerKey = ''concurrency:startup:legacy_wait_sweep:v1''"

definition providerSlotKey :: "int \<Rightarrow> string" where "providerSlotKey i = providerSlotKeyPrefix @ itoa i"
definition userSlotKey :: "int \<Rightarrow> string" where "userSlotKey i = userSlotKeyPrefix @ itoa i"
definition apiKeySlotKey :: "int \<Rightarrow> string" where "apiKeySlotKey i = apiKeySlotKeyPrefix @ itoa i"
definition liveProviderSlotKey :: "int \<Rightarrow> string" where "liveProviderSlotKey i = liveProviderSlotKeyPrefix @ itoa i"
definition liveUserSlotKey :: "int \<Rightarrow> string" where "liveUserSlotKey i = liveUserSlotKeyPrefix @ itoa i"
definition liveAPIKeySlotKey :: "int \<Rightarrow> string" where "liveAPIKeySlotKey i = liveAPIKeySlotKeyPrefix @ itoa i"
definition openAIWSIngressLeaseKey :: "int \<Rightarrow> string" where
  "openAIWSIngressLeaseKey i = openAIWSIngressLeaseKeyPrefix @ itoa i"
definition waitQueueKey :: "int \<Rightarrow> string" where "waitQueueKey i = waitQueueKeyPrefix @ itoa i"
definition providerWaitKey :: "int \<Rightarrow> string" where "providerWaitKey i = providerWaitKeyPrefix @ itoa i"

lemmas prefix_defs =
  providerSlotKeyPrefix_def userSlotKeyPrefix_def apiKeySlotKeyPrefix_def liveProviderSlotKeyPrefix_def
  liveUserSlotKeyPrefix_def liveAPIKeySlotKeyPrefix_def openAIWSIngressLeaseKeyPrefix_def waitQueueKeyPrefix_def
  providerWaitKeyPrefix_def providerActiveIndexKey_def userActiveIndexKey_def legacyWaitSweepMarkerKey_def

lemmas key_defs =
  providerSlotKey_def userSlotKey_def apiKeySlotKey_def liveProviderSlotKey_def liveUserSlotKey_def
  liveAPIKeySlotKey_def openAIWSIngressLeaseKey_def waitQueueKey_def providerWaitKey_def

section \<open>Scripts\<close>

definition acquireScript :: "string \<Rightarrow> string \<Rightarrow> int \<Rightarrow> int \<Rightarrow> string \<Rightarrow> redis \<Rightarrow> (int \<times> int) \<times> redis" where
  "acquireScript key liveKey maxConcurrency ttl requestID r =
     (let now = TIME r;
          expireBefore = now - ttl;
          r = ZREMRANGEBYSCORE key expireBefore r;
          r = ZREMRANGEBYSCORE liveKey (now - 60) r
      in if ZSCORE key requestID r \<noteq> None then ((1, now), EXPIRE key ttl (ZADD key now requestID r))
         else if ZCARD key r + ZCARD liveKey r < maxConcurrency then ((1, now), EXPIRE key ttl (ZADD key now requestID r))
         else ((0, now), r))"

definition getCountScript :: "string \<Rightarrow> string \<Rightarrow> int \<Rightarrow> redis \<Rightarrow> int \<times> redis" where
  "getCountScript key liveKey ttl r =
     (let now = TIME r;
          r = ZREMRANGEBYSCORE key (now - ttl) r;
          r = ZREMRANGEBYSCORE liveKey (now - 60) r
      in (ZCARD key r + ZCARD liveKey r, r))"

definition acquireLiveLeaseScript ::
  "string \<Rightarrow> string \<Rightarrow> string \<Rightarrow> string \<Rightarrow> string \<Rightarrow> int \<Rightarrow> int \<Rightarrow> int \<Rightarrow> string \<Rightarrow> int \<Rightarrow> redis \<Rightarrow> int \<times> redis" where
  "acquireLiveLeaseScript providerRegular providerLive userRegular userLive apiLive providerMax userMax ttl leaseID
     replacing r =
     (let now = TIME r;
          liveExpireBefore = now - ttl;
          r = ZREMRANGEBYSCORE providerLive liveExpireBefore r;
          r = ZREMRANGEBYSCORE userLive liveExpireBefore r;
          r = ZREMRANGEBYSCORE apiLive liveExpireBefore r
      in if ZSCORE providerLive leaseID r \<noteq> None then (1, r)
         else
           let providerCount = ZCARD providerRegular r + ZCARD providerLive r;
               userCount = ZCARD userRegular r + ZCARD userLive r;
               allowance = (if replacing = 1 then 1 else 0)
           in if providerMax > 0 \<and> providerCount \<ge> providerMax + allowance then (0, r)
              else if userMax > 0 \<and> userCount \<ge> userMax + allowance then (0, r)
              else
                let r = ZADD providerLive now leaseID r;
                    r = ZADD userLive now leaseID r;
                    r = ZADD apiLive now leaseID r;
                    r = EXPIRE providerLive ttl r;
                    r = EXPIRE userLive ttl r
                in (1, EXPIRE apiLive ttl r))"

fun live_owned :: "string list \<Rightarrow> int \<Rightarrow> string \<Rightarrow> redis \<Rightarrow> bool \<times> redis" where
  "live_owned [] expireBefore leaseID r = (True, r)"
| "live_owned (key # keys) expireBefore leaseID r =
     (let r = ZREMRANGEBYSCORE key expireBefore r
      in if ZSCORE key leaseID r = None then (False, r) else live_owned keys expireBefore leaseID r)"

fun live_touch :: "string list \<Rightarrow> int \<Rightarrow> int \<Rightarrow> string \<Rightarrow> redis \<Rightarrow> redis" where
  "live_touch [] now ttl leaseID r = r"
| "live_touch (key # keys) now ttl leaseID r = live_touch keys now ttl leaseID (EXPIRE key ttl (ZADD key now leaseID r))"

definition refreshLiveLeaseScript :: "string list \<Rightarrow> int \<Rightarrow> string \<Rightarrow> redis \<Rightarrow> int \<times> redis" where
  "refreshLiveLeaseScript keys ttl leaseID r =
     (let now = TIME r;
          (owned, r) = live_owned keys (now - ttl) leaseID r
      in if owned then (1, live_touch keys now ttl leaseID r) else (0, r))"

definition trackSlotScript :: "string \<Rightarrow> int \<Rightarrow> string \<Rightarrow> redis \<Rightarrow> int \<times> redis" where
  "trackSlotScript key ttl requestID r =
     (let now = TIME r;
          r = ZREMRANGEBYSCORE key (now - ttl) r
      in (1, EXPIRE key ttl (ZADD key now requestID r)))"

definition acquireOpenAIWSIngressLeaseScript :: "string \<Rightarrow> int \<Rightarrow> int \<Rightarrow> string \<Rightarrow> redis \<Rightarrow> int \<times> redis" where
  "acquireOpenAIWSIngressLeaseScript key maxConnections ttl leaseID r =
     (let now = TIME r;
          r = ZREMRANGEBYSCORE key (now - ttl) r
      in if ZSCORE key leaseID r \<noteq> None then (1, EXPIRE key ttl (ZADD key now leaseID r))
         else if ZCARD key r < maxConnections then (1, EXPIRE key ttl (ZADD key now leaseID r))
         else (0, r))"

definition refreshOpenAIWSIngressLeaseScript :: "string \<Rightarrow> int \<Rightarrow> string \<Rightarrow> redis \<Rightarrow> int \<times> redis" where
  "refreshOpenAIWSIngressLeaseScript key ttl leaseID r =
     (let now = TIME r;
          r = ZREMRANGEBYSCORE key (now - ttl) r
      in if ZSCORE key leaseID r = None then (0, r) else (1, EXPIRE key ttl (ZADD key now leaseID r)))"

text \<open>The scripts of users and providers have the same text.\<close>

definition incrementWaitScript :: "string \<Rightarrow> int \<Rightarrow> int \<Rightarrow> redis \<Rightarrow> (int \<times> int) \<times> redis" where
  "incrementWaitScript key maxWait ttl r =
     (let current = (case GET key r of None \<Rightarrow> 0 | Some v \<Rightarrow> v);
          now = TIME r
      in if current \<ge> maxWait then ((0, now), r)
         else ((1, now), EXPIRE key ttl (snd (INCR key r))))"

definition incrementProviderWaitScript :: "string \<Rightarrow> int \<Rightarrow> int \<Rightarrow> redis \<Rightarrow> (int \<times> int) \<times> redis" where
  "incrementProviderWaitScript key maxWait ttl r =
     (let current = (case GET key r of None \<Rightarrow> 0 | Some v \<Rightarrow> v);
          now = TIME r
      in if current \<ge> maxWait then ((0, now), r)
         else ((1, now), EXPIRE key ttl (snd (INCR key r))))"

definition decrementWaitScript :: "string \<Rightarrow> redis \<Rightarrow> int \<times> redis" where
  "decrementWaitScript key r =
     (case GET key r of
        None \<Rightarrow> (1, r)
      | Some current \<Rightarrow> (1, if 0 < current then snd (DECR key r) else r))"

definition cleanupExpiredSlotsScript :: "string \<Rightarrow> int \<Rightarrow> redis \<Rightarrow> int \<times> redis" where
  "cleanupExpiredSlotsScript key ttl r =
     (let r = ZREMRANGEBYSCORE key (TIME r - ttl) r
      in (1, if ZCARD key r = 0 then DEL key r else EXPIRE key ttl r))"

fun remove_foreign :: "string \<Rightarrow> string \<Rightarrow> string list \<Rightarrow> int \<times> redis \<Rightarrow> int \<times> redis" where
  "remove_foreign key activePrefix [] (removed, r) = (removed, r)"
| "remove_foreign key activePrefix (member # members) (removed, r) =
     remove_foreign key activePrefix members
       (if take (length activePrefix) member \<noteq> activePrefix
        then (removed + (if ZSCORE key member r = None then 0 else 1), ZREM key member r)
        else (removed, r))"

definition startupCleanupSlotScript :: "string \<Rightarrow> string \<Rightarrow> int \<Rightarrow> redis \<Rightarrow> (int \<times> int) \<times> redis" where
  "startupCleanupSlotScript key activePrefix slotTTL r =
     (let (removed, r) = remove_foreign key activePrefix (ZRANGE key r) (0, r);
          remaining = ZCARD key r
      in ((removed, remaining), if remaining = 0 then DEL key r else EXPIRE key slotTTL r))"

end
