(* ===== verification/Conc_Cache.thy ===== *)
theory Conc_Cache
  imports Conc_Scripts
begin

text \<open>
  The operations of the concurrency cache in Go: requests to Redis one after the other, between
  which other processes may act. An error return is \<open>None\<close>. The active indexes are kept up to date
  with best effort: a failure there is only logged.
\<close>

record concurrency_cache =
  slotTTLSeconds :: int
  waitQueueTTLSeconds :: int

definition NewConcurrencyCache :: "int \<Rightarrow> int \<Rightarrow> concurrency_cache" where
  "NewConcurrencyCache slotTTLMinutes waitQueueTTL =
     (let slotTTLMinutes = (if slotTTLMinutes \<le> 0 then 15 else slotTTLMinutes);
          waitQueueTTL = (if waitQueueTTL \<le> 0 then wrap64 (slotTTLMinutes * 60) else waitQueueTTL)
      in \<lparr>slotTTLSeconds = wrap64 (slotTTLMinutes * 60), waitQueueTTLSeconds = waitQueueTTL\<rparr>)"

definition openAIWSIngressLeaseTTLSeconds :: int where "openAIWSIngressLeaseTTLSeconds = 60"
definition liveLeaseTTLSeconds :: int where "liveLeaseTTLSeconds = 60"
definition activeIndexCleanupBatchSize :: nat where "activeIndexCleanupBatchSize = 1000"
definition activeIndexPipelineChunkSize :: nat where "activeIndexPipelineChunkSize = 500"

record slotIndexSpec =
  indexKey :: string
  slotKey :: "int \<Rightarrow> string"
  waitKey :: "int \<Rightarrow> string"

definition providerSlotIndex :: slotIndexSpec where
  "providerSlotIndex = \<lparr>indexKey = providerActiveIndexKey, slotKey = providerSlotKey, waitKey = providerWaitKey\<rparr>"

definition userSlotIndex :: slotIndexSpec where
  "userSlotIndex = \<lparr>indexKey = userActiveIndexKey, slotKey = userSlotKey, waitKey = waitQueueKey\<rparr>"

section \<open>The active indexes\<close>

definition touchActiveIndexAt :: "string \<Rightarrow> int \<Rightarrow> int \<Rightarrow> world \<Rightarrow> world" where
  "touchActiveIndexAt index i expireAt w =
     (if i \<le> 0 \<or> expireAt \<le> 0 then w else snd (send (ZADD index expireAt (itoa i)) w))"

record activeIndexLoad =
  ld_id :: int
  ld_member :: string
  slotCount :: int
  waitCount :: int

definition activeIndexTTL :: "concurrency_cache \<Rightarrow> int \<Rightarrow> int \<Rightarrow> int" where
  "activeIndexTTL c slots waits =
     (let ttlSeconds = (if slots > 0 then slotTTLSeconds c else 0)
      in if waits > 0 \<and> waitQueueTTLSeconds c > ttlSeconds then waitQueueTTLSeconds c else ttlSeconds)"

text \<open>The three commands of a load query; \<open>Get\<close> of a missing key is no error.\<close>

definition load_commands :: "string \<Rightarrow> string \<Rightarrow> int \<Rightarrow> (redis \<Rightarrow> int option \<times> redis) list" where
  "load_commands slot wait cutoffTime =
     [\<lambda>r. (None, ZREMRANGEBYSCORE slot cutoffTime r), \<lambda>r. (Some (ZCARD slot r), r), \<lambda>r. (GET wait r, r)]"

definition positive_count :: "int option \<Rightarrow> int" where
  "positive_count v = (case v of None \<Rightarrow> 0 | Some v \<Rightarrow> if 0 < v then v else 0)"

definition readActiveLoadForKey ::
  "concurrency_cache \<Rightarrow> int \<Rightarrow> string \<Rightarrow> string \<Rightarrow> int \<Rightarrow> world \<Rightarrow> activeIndexLoad option \<times> world" where
  "readActiveLoadForKey c i slot wait now w =
     try_then (pipeline (load_commands slot wait (now - slotTTLSeconds c)) w) (\<lambda>replies w.
       (Some \<lparr>ld_id = i, ld_member = itoa i, slotCount = the (replies ! 1), waitCount = positive_count (replies ! 2)\<rparr>, w))"

definition refreshActiveIndex ::
  "concurrency_cache \<Rightarrow> string \<Rightarrow> int \<Rightarrow> string \<Rightarrow> string \<Rightarrow> world \<Rightarrow> world" where
  "refreshActiveIndex c index i slot wait w =
     (if i \<le> 0 then w
      else
        case server_time w of
          (None, w) \<Rightarrow> w
        | (Some now, w) \<Rightarrow>
            (case readActiveLoadForKey c i slot wait now w of
               (None, w) \<Rightarrow> w
             | (Some load, w) \<Rightarrow>
                 if slotCount load = 0 \<and> waitCount load \<le> 0 then snd (send (ZREM index (itoa i)) w)
                 else
                   let ttlSeconds = activeIndexTTL c (slotCount load) (waitCount load)
                   in if ttlSeconds \<le> 0 then w else touchActiveIndexAt index i (now + ttlSeconds) w))"

definition refreshProviderActiveIndex :: "concurrency_cache \<Rightarrow> int \<Rightarrow> world \<Rightarrow> world" where
  "refreshProviderActiveIndex c i = refreshActiveIndex c providerActiveIndexKey i (providerSlotKey i) (providerWaitKey i)"

definition refreshUserActiveIndex :: "concurrency_cache \<Rightarrow> int \<Rightarrow> world \<Rightarrow> world" where
  "refreshUserActiveIndex c i = refreshActiveIndex c userActiveIndexKey i (userSlotKey i) (waitQueueKey i)"

section \<open>Slots of providers and users\<close>

definition AcquireProviderSlot :: "concurrency_cache \<Rightarrow> int \<Rightarrow> int \<Rightarrow> string \<Rightarrow> world \<Rightarrow> bool option \<times> world" where
  "AcquireProviderSlot c providerID maxConcurrency requestID w =
     try_then (roundtrip (acquireScript (providerSlotKey providerID) (liveProviderSlotKey providerID) maxConcurrency
       (slotTTLSeconds c) requestID) w) (\<lambda>(result, now) w.
       (Some (result = 1),
        if result = 1 then touchActiveIndexAt providerActiveIndexKey providerID (now + slotTTLSeconds c) w else w))"

definition ReleaseProviderSlot :: "concurrency_cache \<Rightarrow> int \<Rightarrow> string \<Rightarrow> world \<Rightarrow> unit option \<times> world" where
  "ReleaseProviderSlot c providerID requestID w =
     try_then (send (ZREM (providerSlotKey providerID) requestID) w) (\<lambda>_ w.
       (Some (), refreshProviderActiveIndex c providerID w))"

definition GetProviderConcurrency :: "concurrency_cache \<Rightarrow> int \<Rightarrow> world \<Rightarrow> int option \<times> world" where
  "GetProviderConcurrency c providerID =
     roundtrip (getCountScript (providerSlotKey providerID) (liveProviderSlotKey providerID) (slotTTLSeconds c))"

definition AcquireUserSlot :: "concurrency_cache \<Rightarrow> int \<Rightarrow> int \<Rightarrow> string \<Rightarrow> world \<Rightarrow> bool option \<times> world" where
  "AcquireUserSlot c userID maxConcurrency requestID w =
     try_then (roundtrip (acquireScript (userSlotKey userID) (liveUserSlotKey userID) maxConcurrency
       (slotTTLSeconds c) requestID) w) (\<lambda>(result, now) w.
       (Some (result = 1), if result = 1 then touchActiveIndexAt userActiveIndexKey userID (now + slotTTLSeconds c) w else w))"

definition ReleaseUserSlot :: "concurrency_cache \<Rightarrow> int \<Rightarrow> string \<Rightarrow> world \<Rightarrow> unit option \<times> world" where
  "ReleaseUserSlot c userID requestID w =
     try_then (send (ZREM (userSlotKey userID) requestID) w) (\<lambda>_ w. (Some (), refreshUserActiveIndex c userID w))"

definition GetUserConcurrency :: "concurrency_cache \<Rightarrow> int \<Rightarrow> world \<Rightarrow> int option \<times> world" where
  "GetUserConcurrency c userID =
     roundtrip (getCountScript (userSlotKey userID) (liveUserSlotKey userID) (slotTTLSeconds c))"

text \<open>One provider of a batch query: trim both sets, count both.\<close>

definition count_commands :: "string \<Rightarrow> string \<Rightarrow> int \<Rightarrow> int \<Rightarrow> (redis \<Rightarrow> int option \<times> redis) list" where
  "count_commands slot live cutoffTime now =
     [\<lambda>r. (None, ZREMRANGEBYSCORE slot cutoffTime r), \<lambda>r. (None, ZREMRANGEBYSCORE live (now - liveLeaseTTLSeconds) r),
      \<lambda>r. (Some (ZCARD slot r), r), \<lambda>r. (Some (ZCARD live r), r)]"

definition batch_map :: "'a list \<Rightarrow> 'b list \<Rightarrow> 'a \<rightharpoonup> 'b" where
  "batch_map ks vs = map_of (rev (zip ks vs))"

fun group_replies :: "nat \<Rightarrow> nat \<Rightarrow> 'a list \<Rightarrow> 'a list list" where
  "group_replies n 0 xs = []"
| "group_replies n (Suc k) xs = take n xs # group_replies n k (drop n xs)"

definition concurrency_batch ::
  "(int \<Rightarrow> string) \<Rightarrow> (int \<Rightarrow> string) \<Rightarrow> concurrency_cache \<Rightarrow> int list \<Rightarrow> world \<Rightarrow> (int \<rightharpoonup> int) option \<times> world" where
  "concurrency_batch slot live c ids w =
     (if ids = [] then (Some Map.empty, w)
      else try_then (server_time w) (\<lambda>now w.
        try_then (pipeline (concat (map (\<lambda>i. count_commands (slot i) (live i) (now - slotTTLSeconds c) now) ids)) w)
          (\<lambda>replies w. (Some (batch_map ids
             (map (\<lambda>q. the (q ! 2) + the (q ! 3)) (group_replies 4 (length ids) replies))), w))))"

definition GetProviderConcurrencyBatch :: "concurrency_cache \<Rightarrow> int list \<Rightarrow> world \<Rightarrow> (int \<rightharpoonup> int) option \<times> world" where
  "GetProviderConcurrencyBatch = concurrency_batch providerSlotKey liveProviderSlotKey"

definition GetAPIKeyConcurrencyBatch :: "concurrency_cache \<Rightarrow> int list \<Rightarrow> world \<Rightarrow> (int \<rightharpoonup> int) option \<times> world" where
  "GetAPIKeyConcurrencyBatch = concurrency_batch apiKeySlotKey liveAPIKeySlotKey"

section \<open>API key statistics, WebSocket leases, live leases\<close>

definition TrackAPIKeySlot :: "concurrency_cache \<Rightarrow> int \<Rightarrow> string \<Rightarrow> world \<Rightarrow> int option \<times> world" where
  "TrackAPIKeySlot c apiKeyID requestID = roundtrip (trackSlotScript (apiKeySlotKey apiKeyID) (slotTTLSeconds c) requestID)"

definition ReleaseAPIKeySlot :: "int \<Rightarrow> string \<Rightarrow> world \<Rightarrow> unit option \<times> world" where
  "ReleaseAPIKeySlot apiKeyID requestID = send (ZREM (apiKeySlotKey apiKeyID) requestID)"

definition AcquireOpenAIWSIngressLease :: "int \<Rightarrow> int \<Rightarrow> string \<Rightarrow> world \<Rightarrow> bool option \<times> world" where
  "AcquireOpenAIWSIngressLease apiKeyID maxConnections leaseID w =
     (if apiKeyID \<le> 0 \<or> maxConnections \<le> 0 \<or> leaseID = [] then (Some False, w)
      else try_then (roundtrip (acquireOpenAIWSIngressLeaseScript (openAIWSIngressLeaseKey apiKeyID) maxConnections
        openAIWSIngressLeaseTTLSeconds leaseID) w) (\<lambda>result w. (Some (result = 1), w)))"

definition RefreshOpenAIWSIngressLease :: "int \<Rightarrow> string \<Rightarrow> world \<Rightarrow> bool option \<times> world" where
  "RefreshOpenAIWSIngressLease apiKeyID leaseID w =
     (if apiKeyID \<le> 0 \<or> leaseID = [] then (Some False, w)
      else try_then (roundtrip (refreshOpenAIWSIngressLeaseScript (openAIWSIngressLeaseKey apiKeyID)
        openAIWSIngressLeaseTTLSeconds leaseID) w) (\<lambda>result w. (Some (result = 1), w)))"

definition ReleaseOpenAIWSIngressLease :: "int \<Rightarrow> string \<Rightarrow> world \<Rightarrow> unit option \<times> world" where
  "ReleaseOpenAIWSIngressLease apiKeyID leaseID w =
     (if apiKeyID \<le> 0 \<or> leaseID = [] then (Some (), w)
      else send (ZREM (openAIWSIngressLeaseKey apiKeyID) leaseID) w)"

definition AcquireLiveLease ::
  "int \<Rightarrow> int \<Rightarrow> int \<Rightarrow> int \<Rightarrow> int \<Rightarrow> string \<Rightarrow> bool \<Rightarrow> world \<Rightarrow> bool option \<times> world" where
  "AcquireLiveLease providerID providerMax userID userMax apiKeyID leaseID replacingRegularSlots w =
     (if providerID \<le> 0 \<or> userID \<le> 0 \<or> apiKeyID \<le> 0 \<or> leaseID = [] then (Some False, w)
      else
        let replacing = (if replacingRegularSlots then 1 else 0)
        in try_then (roundtrip (acquireLiveLeaseScript (providerSlotKey providerID) (liveProviderSlotKey providerID)
             (userSlotKey userID) (liveUserSlotKey userID) (liveAPIKeySlotKey apiKeyID) providerMax userMax
             liveLeaseTTLSeconds leaseID replacing) w) (\<lambda>result w. (Some (result = 1), w)))"

definition RefreshLiveLease :: "int \<Rightarrow> int \<Rightarrow> int \<Rightarrow> string \<Rightarrow> world \<Rightarrow> bool option \<times> world" where
  "RefreshLiveLease providerID userID apiKeyID leaseID w =
     (if leaseID = [] then (Some False, w)
      else try_then (roundtrip (refreshLiveLeaseScript
        [liveProviderSlotKey providerID, liveUserSlotKey userID, liveAPIKeySlotKey apiKeyID]
        liveLeaseTTLSeconds leaseID) w) (\<lambda>result w. (Some (result = 1), w)))"

text \<open>A transaction (\<open>MULTI\<close>/\<open>EXEC\<close>) of three removals.\<close>

definition ReleaseLiveLease :: "int \<Rightarrow> int \<Rightarrow> int \<Rightarrow> string \<Rightarrow> world \<Rightarrow> unit option \<times> world" where
  "ReleaseLiveLease providerID userID apiKeyID leaseID w =
     (if leaseID = [] then (Some (), w)
      else send (\<lambda>r. ZREM (liveAPIKeySlotKey apiKeyID) leaseID (ZREM (liveUserSlotKey userID) leaseID
        (ZREM (liveProviderSlotKey providerID) leaseID r))) w)"


section \<open>What the upkeep of an index asks of Redis\<close>

context program_logic
begin

lemma R_touch: "(\<And>t m. P (ZADD k t m)) \<Longrightarrow> R w (touchActiveIndexAt k i t w)"
  by (simp add: touchActiveIndexAt_def R_refl R_send)

lemma R_load_commands:
  "P (\<lambda>r. r) \<Longrightarrow> (\<And>t. P (ZREMRANGEBYSCORE s t)) \<Longrightarrow> \<forall>f \<in> set (load_commands s q t). P (\<lambda>r. snd (f r))"
  by (simp add: load_commands_def)

lemma R_refreshActiveIndex:
  assumes id: "P (\<lambda>r. r)" and trim: "\<And>t. P (ZREMRANGEBYSCORE s t)"
    and rem: "\<And>m. P (ZREM k m)" and add: "\<And>t m. P (ZADD k t m)"
  shows "R w (refreshActiveIndex c k i s q w)"
proof (cases "i \<le> 0")
  case False
  obtain t w1 where t: "server_time w = (t, w1)" by force
  have 1: "R w w1" using R_time [OF id, of w] t by simp
  show ?thesis
  proof (cases t)
    case None
    with 1 t False show ?thesis by (simp add: refreshActiveIndex_def)
  next
    case (Some now)
    obtain l w2 where l: "readActiveLoadForKey c i s q now w1 = (l, w2)" by force
    have "R w1 (snd (readActiveLoadForKey c i s q now w1))"
      unfolding readActiveLoadForKey_def
      by (rule R_try_then) (simp_all add: R_pipeline [OF R_load_commands [OF id trim]] R_refl)
    then have 2: "R w w2" using R_trans [OF 1] l by simp
    show ?thesis
    proof (cases l)
      case None
      with 2 t l Some False show ?thesis by (simp add: refreshActiveIndex_def)
    next
      case (Some load)
      have "R w (snd (send (ZREM k (itoa i)) w2))" by (rule R_trans [OF 2 R_send [OF rem]])
      moreover have "R w (touchActiveIndexAt k i n w2)" for n by (rule R_trans [OF 2 R_touch [OF add]])
      ultimately show ?thesis
        using 2 t l Some \<open>t = Some now\<close> False by (simp add: refreshActiveIndex_def Let_def)
    qed
  qed
qed (simp add: refreshActiveIndex_def R_refl)

end

end
