(* ===== verification/Conc_Upkeep.thy ===== *)
theory Conc_Upkeep
  imports Conc_Cache
begin

text \<open>
  The rest of the concurrency cache: counters of waiting requests, load queries, and the upkeep of
  slots and active indexes (periodic, and at the start of a process).
\<close>

section \<open>Waiting requests\<close>

definition IncrementWaitCount :: "concurrency_cache \<Rightarrow> int \<Rightarrow> int \<Rightarrow> world \<Rightarrow> bool option \<times> world" where
  "IncrementWaitCount c userID maxWait w =
     try_then (roundtrip (incrementWaitScript (waitQueueKey userID) maxWait (waitQueueTTLSeconds c)) w) (\<lambda>(result, now) w.
       (Some (result = 1),
        if result = 1 then touchActiveIndexAt userActiveIndexKey userID (now + waitQueueTTLSeconds c) w else w))"

definition DecrementWaitCount :: "concurrency_cache \<Rightarrow> int \<Rightarrow> world \<Rightarrow> unit option \<times> world" where
  "DecrementWaitCount c userID w =
     try_then (roundtrip (decrementWaitScript (waitQueueKey userID)) w) (\<lambda>_ w.
       (Some (), refreshUserActiveIndex c userID w))"

definition IncrementProviderWaitCount :: "concurrency_cache \<Rightarrow> int \<Rightarrow> int \<Rightarrow> world \<Rightarrow> bool option \<times> world" where
  "IncrementProviderWaitCount c providerID maxWait w =
     try_then (roundtrip (incrementProviderWaitScript (providerWaitKey providerID) maxWait (waitQueueTTLSeconds c)) w)
       (\<lambda>(result, now) w.
         (Some (result = 1),
          if result = 1 then touchActiveIndexAt providerActiveIndexKey providerID (now + waitQueueTTLSeconds c) w else w))"

definition DecrementProviderWaitCount :: "concurrency_cache \<Rightarrow> int \<Rightarrow> world \<Rightarrow> unit option \<times> world" where
  "DecrementProviderWaitCount c providerID w =
     try_then (roundtrip (decrementWaitScript (providerWaitKey providerID)) w) (\<lambda>_ w.
       (Some (), refreshProviderActiveIndex c providerID w))"

definition GetProviderWaitingCount :: "int \<Rightarrow> world \<Rightarrow> int option \<times> world" where
  "GetProviderWaitingCount providerID =
     roundtrip (\<lambda>r. (case GET (providerWaitKey providerID) r of None \<Rightarrow> 0 | Some val \<Rightarrow> val, r))"

section \<open>Load queries\<close>

record LoadInfo =
  li_ID :: int
  CurrentConcurrency :: int
  WaitingCount :: int
  LoadRate :: int

definition make_load_info :: "int \<Rightarrow> int \<Rightarrow> int option list \<Rightarrow> LoadInfo" where
  "make_load_info i maxConcurrency q =
     (let currentConcurrency = the (q ! 2) + the (q ! 3);
          waitingCount = (case q ! 4 of None \<Rightarrow> 0 | Some v \<Rightarrow> v);
          loadRate = (if maxConcurrency > 0
            then quot64 (wrap64 (wrap64 (currentConcurrency + waitingCount) * 100)) maxConcurrency else 0)
      in \<lparr>li_ID = i, CurrentConcurrency = currentConcurrency, WaitingCount = waitingCount, LoadRate = loadRate\<rparr>)"

definition loads_batch ::
  "(int \<Rightarrow> string) \<Rightarrow> (int \<Rightarrow> string) \<Rightarrow> (int \<Rightarrow> string) \<Rightarrow> concurrency_cache \<Rightarrow> (int \<times> int) list \<Rightarrow> world \<Rightarrow>
   (int \<rightharpoonup> LoadInfo) option \<times> world" where
  "loads_batch slot live wait c entries w =
     (if entries = [] then (Some Map.empty, w)
      else try_then (server_time w) (\<lambda>now w.
        try_then (pipeline (concat (map (\<lambda>(i, _).
            count_commands (slot i) (live i) (now - slotTTLSeconds c) now @ [\<lambda>r. (GET (wait i) r, r)]) entries)) w)
          (\<lambda>replies w. (Some (batch_map (map fst entries)
             (map (\<lambda>((i, m), q). make_load_info i m q) (zip entries (group_replies 5 (length entries) replies)))), w))))"

definition GetProvidersLoadBatch ::
  "concurrency_cache \<Rightarrow> (int \<times> int) list \<Rightarrow> world \<Rightarrow> (int \<rightharpoonup> LoadInfo) option \<times> world" where
  "GetProvidersLoadBatch = loads_batch providerSlotKey liveProviderSlotKey providerWaitKey"

definition GetUsersLoadBatch ::
  "concurrency_cache \<Rightarrow> (int \<times> int) list \<Rightarrow> world \<Rightarrow> (int \<rightharpoonup> LoadInfo) option \<times> world" where
  "GetUsersLoadBatch = loads_batch userSlotKey liveUserSlotKey waitQueueKey"

section \<open>Periodic clean-up\<close>

definition CleanupExpiredProviderSlots :: "concurrency_cache \<Rightarrow> int \<Rightarrow> world \<Rightarrow> unit option \<times> world" where
  "CleanupExpiredProviderSlots c providerID w =
     try_then (roundtrip (cleanupExpiredSlotsScript (providerSlotKey providerID) (slotTTLSeconds c)) w) (\<lambda>_ w.
       (Some (), refreshProviderActiveIndex c providerID w))"

text \<open>The members of an index that are positive identifiers, and the others, which are stale.\<close>

fun index_candidates :: "string list \<Rightarrow> (int \<times> string) list \<times> string list" where
  "index_candidates [] = ([], [])"
| "index_candidates (member # members) =
     (let (candidates, staleMembers) = index_candidates members
      in case parse_int64 member of
           None \<Rightarrow> (candidates, member # staleMembers)
         | Some i \<Rightarrow> if i \<le> 0 then (candidates, member # staleMembers) else ((i, member) # candidates, staleMembers))"

function read_chunks ::
  "slotIndexSpec \<Rightarrow> int \<Rightarrow> (int \<times> string) list \<Rightarrow> world \<Rightarrow> activeIndexLoad list option \<times> world" where
  "read_chunks spec cutoffTime candidates w =
     (if candidates = [] then (Some [], w)
      else
        let chunk = take activeIndexPipelineChunkSize candidates
        in try_then (pipeline (concat (map (\<lambda>(i, _). load_commands (slotKey spec i) (waitKey spec i) cutoffTime) chunk)) w)
          (\<lambda>replies w.
             let loads = map (\<lambda>((i, member), q).
                   \<lparr>ld_id = i, ld_member = member, slotCount = the (q ! 1), waitCount = positive_count (q ! 2)\<rparr>)
                 (zip chunk (group_replies 3 (length chunk) replies))
             in try_then (read_chunks spec cutoffTime (drop activeIndexPipelineChunkSize candidates) w)
                  (\<lambda>rest w. (Some (loads @ rest), w))))"
  by pat_completeness auto

termination
  by (relation "measure (\<lambda>(_, _, candidates, _). length candidates)") (auto simp: activeIndexPipelineChunkSize_def)

declare read_chunks.simps [simp del]

definition readIndexLoads ::
  "concurrency_cache \<Rightarrow> slotIndexSpec \<Rightarrow> string list \<Rightarrow> int \<Rightarrow> world \<Rightarrow> (activeIndexLoad list \<times> string list) option \<times> world" where
  "readIndexLoads c spec members now w =
     (let (candidates, staleMembers) = index_candidates members
      in try_then (read_chunks spec (now - slotTTLSeconds c) candidates w) (\<lambda>loads w. (Some (loads, staleMembers), w)))"

definition removeActiveIndexMembers :: "string \<Rightarrow> string list \<Rightarrow> world \<Rightarrow> world" where
  "removeActiveIndexMembers index members w =
     (if members = [] then w else snd (send (fold (ZREM index) members) w))"

definition add_refreshed :: "string \<Rightarrow> (int \<times> string) list \<Rightarrow> world \<Rightarrow> world" where
  "add_refreshed index refreshed w =
     (if refreshed = [] then w else snd (send (fold (\<lambda>(score, member). ZADD index score member) refreshed) w))"

definition idle :: "activeIndexLoad \<Rightarrow> bool" where
  "idle load \<longleftrightarrow> slotCount load = 0 \<and> waitCount load \<le> 0"

definition reconcileExpiredIndexCandidates :: "concurrency_cache \<Rightarrow> slotIndexSpec \<Rightarrow> world \<Rightarrow> unit option \<times> world" where
  "reconcileExpiredIndexCandidates c spec w =
     try_then (server_time w) (\<lambda>now w.
       try_then (roundtrip (\<lambda>r. (ZRANGEBYSCORE (indexKey spec) now activeIndexCleanupBatchSize r, r)) w) (\<lambda>members w.
         try_then (readIndexLoads c spec members now w) (\<lambda>(loads, staleMembers) w.
           let staleMembers = staleMembers @ map ld_member (filter idle loads);
               refreshed = map (\<lambda>load. (now + activeIndexTTL c (slotCount load) (waitCount load), ld_member load))
                 (filter (\<lambda>load. \<not> idle load) loads);
               w = add_refreshed (indexKey spec) refreshed w
           in (Some (), removeActiveIndexMembers (indexKey spec) staleMembers w))))"

definition CleanupExpiredProviderSlotKeys :: "concurrency_cache \<Rightarrow> world \<Rightarrow> unit option \<times> world" where
  "CleanupExpiredProviderSlotKeys c w =
     try_then (reconcileExpiredIndexCandidates c providerSlotIndex w) (\<lambda>_ w.
       reconcileExpiredIndexCandidates c userSlotIndex w)"

section \<open>Clean-up at the start of a process\<close>

text \<open>\<open>pages\<close>: the replies of \<open>SCAN\<close> for the two patterns.\<close>

fun delete_pages :: "string list list \<Rightarrow> world \<Rightarrow> unit option \<times> world" where
  "delete_pages [] w = (Some (), w)"
| "delete_pages (keys # pages) w =
     try_then (roundtrip (\<lambda>r. (keys, r)) w) (\<lambda>keys w.
       try_then (if keys = [] then (Some (), w) else send (fold DEL keys) w) (\<lambda>_ w. delete_pages pages w))"

definition sweepLegacyWaitKeysOnce :: "string list list \<times> string list list \<Rightarrow> world \<Rightarrow> unit option \<times> world" where
  "sweepLegacyWaitKeysOnce pages w =
     try_then (roundtrip (\<lambda>r. (EXISTS legacyWaitSweepMarkerKey r, r)) w) (\<lambda>marked w.
       if marked then (Some (), w)
       else
         try_then (delete_pages (fst pages) w) (\<lambda>_ w.
           try_then (delete_pages (snd pages) w) (\<lambda>_ w. send (SETV legacyWaitSweepMarkerKey 1) w)))"

definition allIndexMembers :: "string \<Rightarrow> world \<Rightarrow> string list option \<times> world" where
  "allIndexMembers index = roundtrip (\<lambda>r. (ZRANGE index r, r))"

fun cleanup_members ::
  "concurrency_cache \<Rightarrow> slotIndexSpec \<Rightarrow> string \<Rightarrow> int \<Rightarrow> string list \<Rightarrow> string list \<times> (int \<times> string) list \<Rightarrow> world \<Rightarrow>
   (string list \<times> (int \<times> string) list) option \<times> world" where
  "cleanup_members c spec activePrefix now [] (staleMembers, refreshed) w = (Some (staleMembers, refreshed), w)"
| "cleanup_members c spec activePrefix now (member # members) (staleMembers, refreshed) w =
     (case parse_int64 member of
        None \<Rightarrow> cleanup_members c spec activePrefix now members (staleMembers @ [member], refreshed) w
      | Some i \<Rightarrow>
          if i \<le> 0 then cleanup_members c spec activePrefix now members (staleMembers @ [member], refreshed) w
          else
            try_then (roundtrip (startupCleanupSlotScript (slotKey spec i) activePrefix (slotTTLSeconds c)) w)
              (\<lambda>(_, remaining) w.
                try_then (send (DEL (waitKey spec i)) w) (\<lambda>_ w.
                  cleanup_members c spec activePrefix now members
                    (if 0 < remaining then (staleMembers, refreshed @ [(now + slotTTLSeconds c, member)])
                     else (staleMembers @ [member], refreshed)) w)))"

definition cleanupStaleProcessSlotsForIndex ::
  "concurrency_cache \<Rightarrow> slotIndexSpec \<Rightarrow> string list \<Rightarrow> string \<Rightarrow> int \<Rightarrow> world \<Rightarrow> unit option \<times> world" where
  "cleanupStaleProcessSlotsForIndex c spec members activePrefix now w =
     try_then (cleanup_members c spec activePrefix now members ([], []) w) (\<lambda>(staleMembers, refreshed) w.
       (Some (), removeActiveIndexMembers (indexKey spec) staleMembers (add_refreshed (indexKey spec) refreshed w)))"

definition CleanupStaleProcessSlots ::
  "concurrency_cache \<Rightarrow> string list list \<times> string list list \<Rightarrow> string \<Rightarrow> world \<Rightarrow> unit option \<times> world" where
  "CleanupStaleProcessSlots c pages activePrefix w =
     (if activePrefix = [] then (Some (), w)
      else
        try_then (sweepLegacyWaitKeysOnce pages w) (\<lambda>_ w.
          try_then (server_time w) (\<lambda>now w.
            try_then (allIndexMembers providerActiveIndexKey w) (\<lambda>members w.
              try_then (cleanupStaleProcessSlotsForIndex c providerSlotIndex members activePrefix now w) (\<lambda>_ w.
                try_then (allIndexMembers userActiveIndexKey w) (\<lambda>members w.
                  cleanupStaleProcessSlotsForIndex c userSlotIndex members activePrefix now w))))))"

end
