(* ===== verification/Conc_Bound.thy ===== *)
theory Conc_Bound
  imports Conc_Upkeep
begin

text \<open>
  Every process that uses the cache acts on Redis by the requests of the relation \<open>request\<close>, one
  clause for each place of the code that talks to Redis. The operations in Go are then shown to do
  nothing else (\<open>runs\<close>), whatever the other processes do between two of their requests, and the
  limits of providers and users are an invariant of all requests.
\<close>

section \<open>Requests\<close>

datatype slot_kind = ProviderSlot | UserSlot

primrec slot_key :: "slot_kind \<Rightarrow> int \<Rightarrow> string" where
  "slot_key ProviderSlot = providerSlotKey"
| "slot_key UserSlot = userSlotKey"

primrec live_key :: "slot_kind \<Rightarrow> int \<Rightarrow> string" where
  "live_key ProviderSlot = liveProviderSlotKey"
| "live_key UserSlot = liveUserSlotKey"

text \<open>
  The limit of a provider or user, if it has one, and whether live leases may replace slots there: such a lease is
  acquired while the caller still holds the slot that it replaces, with the same maximum, and so the script lets it in
  at one above the maximum (\<^verbatim>\<open>gateway/live/create.go\<close> calls it in this way).
\<close>

record slot_limit =
  sl_max :: int
  sl_replaced :: bool

type_synonym limits = "slot_kind \<Rightarrow> int \<Rightarrow> slot_limit option"

definition within :: "slot_limit option \<Rightarrow> int \<Rightarrow> bool" where
  "within limit m \<longleftrightarrow> (case limit of None \<Rightarrow> True | Some l \<Rightarrow> m \<le> sl_max l)"

definition live_within :: "slot_limit option \<Rightarrow> int \<Rightarrow> int \<Rightarrow> bool" where
  "live_within limit m replacing \<longleftrightarrow>
     (case limit of None \<Rightarrow> True | Some l \<Rightarrow> 0 < m \<and> m \<le> sl_max l \<and> (replacing = 1 \<longrightarrow> sl_replaced l))"

text \<open>The slots proper stay within the maximum; with the live leases, one more is allowed where leases replace slots.\<close>

definition total_within :: "slot_limit option \<Rightarrow> int \<Rightarrow> bool" where
  "total_within limit n \<longleftrightarrow>
     (case limit of None \<Rightarrow> True | Some l \<Rightarrow> n \<le> sl_max l + (if sl_replaced l then 1 else 0))"

inductive request :: "concurrency_cache \<Rightarrow> limits \<Rightarrow> (redis \<Rightarrow> redis) \<Rightarrow> bool" for c limit where
  acquire: "within (limit k i) m \<Longrightarrow>
    request c limit (\<lambda>r. snd (acquireScript (slot_key k i) (live_key k i) m (slotTTLSeconds c) q r))"
| count: "request c limit (\<lambda>r. snd (getCountScript (slot_key k i) (live_key k i) (slotTTLSeconds c) r))"
| live: "live_within (limit ProviderSlot p) pm repl \<Longrightarrow> live_within (limit UserSlot u) um repl \<Longrightarrow>
    request c limit (\<lambda>r. snd (acquireLiveLeaseScript (providerSlotKey p) (liveProviderSlotKey p) (userSlotKey u)
      (liveUserSlotKey u) (liveAPIKeySlotKey a) pm um liveLeaseTTLSeconds l repl r))"
| live_refresh: "request c limit (\<lambda>r. snd (refreshLiveLeaseScript
    [liveProviderSlotKey p, liveUserSlotKey u, liveAPIKeySlotKey a] liveLeaseTTLSeconds l r))"
| live_release: "request c limit (\<lambda>r. ZREM (liveAPIKeySlotKey a) l (ZREM (liveUserSlotKey u) l
    (ZREM (liveProviderSlotKey p) l r)))"
| track: "request c limit (\<lambda>r. snd (trackSlotScript (apiKeySlotKey a) (slotTTLSeconds c) q r))"
| ws_acquire: "request c limit (\<lambda>r. snd (acquireOpenAIWSIngressLeaseScript (openAIWSIngressLeaseKey a) m
    openAIWSIngressLeaseTTLSeconds q r))"
| ws_refresh: "request c limit (\<lambda>r. snd (refreshOpenAIWSIngressLeaseScript (openAIWSIngressLeaseKey a)
    openAIWSIngressLeaseTTLSeconds q r))"
| wait: "request c limit (\<lambda>r. snd (incrementWaitScript (waitQueueKey i) m t r))"
| provider_wait: "request c limit (\<lambda>r. snd (incrementProviderWaitScript (providerWaitKey i) m t r))"
| wait_end: "request c limit (\<lambda>r. snd (decrementWaitScript k r))"
| clean: "request c limit (\<lambda>r. snd (cleanupExpiredSlotsScript (slot_key k i) (slotTTLSeconds c) r))"
| start_up: "request c limit (\<lambda>r. snd (startupCleanupSlotScript (slot_key k i) p (slotTTLSeconds c) r))"
| trim: "request c limit (ZREMRANGEBYSCORE k s)"
| remove: "request c limit (ZREM k m)"
| remove_all: "request c limit (fold (ZREM k) ms)"
| index_add: "k = providerActiveIndexKey \<or> k = userActiveIndexKey \<Longrightarrow>
    request c limit (fold (\<lambda>(s, m). ZADD k s m) sms)"
| delete: "request c limit (fold DEL ks)"
| marker: "request c limit (SETV legacyWaitSweepMarkerKey 1)"
| query: "request c limit (\<lambda>r. r)"

section \<open>Slots in use\<close>

definition unexpired :: "int \<Rightarrow> string \<Rightarrow> redis \<Rightarrow> nat" where
  "unexpired ttl k r = length (filter (\<lambda>p. TIME r - ttl < snd p) (rd_zsets r k))"

text \<open>The slots of a provider or user that are in use: its own, and together with those of live leases.\<close>

definition regular :: "concurrency_cache \<Rightarrow> slot_kind \<Rightarrow> int \<Rightarrow> redis \<Rightarrow> nat" where
  "regular c k i r = unexpired (slotTTLSeconds c) (slot_key k i) r"

definition held :: "concurrency_cache \<Rightarrow> slot_kind \<Rightarrow> int \<Rightarrow> redis \<Rightarrow> nat" where
  "held c k i r = regular c k i r + unexpired 60 (live_key k i) r"

definition bounded :: "concurrency_cache \<Rightarrow> limits \<Rightarrow> redis \<Rightarrow> bool" where
  "bounded c limit r \<longleftrightarrow>
     (\<forall>k i. within (limit k i) (int (regular c k i r)) \<and> total_within (limit k i) (int (held c k i r)))"

section \<open>Keys do not clash\<close>

lemma itoa_head: "\<exists>d s. itoa i = d # s \<and> (is_digit d \<or> d = CHR ''-'')"
proof -
  obtain d s where n: "nat_digits (nat i) = d # s" by (metis list.exhaust nat_digits_nonempty)
  then have "is_digit d" using nat_digits_are_digits [of "nat i"] by simp
  with n show ?thesis by (auto simp: itoa_def)
qed

lemma itoa_not_word [simp]: "itoa i \<noteq> CHR ''a'' # s" "CHR ''a'' # s \<noteq> itoa i"
  using itoa_head [of i] by (auto simp: is_digit_def)

lemma slot_key_inject [simp]: "slot_key k i = slot_key k' i' \<longleftrightarrow> k = k' \<and> i = i'"
  by (cases k; cases k') (simp_all add: key_defs prefix_defs)

lemma live_key_inject [simp]: "live_key k i = live_key k' i' \<longleftrightarrow> k = k' \<and> i = i'"
  by (cases k; cases k') (simp_all add: key_defs prefix_defs)

lemma slot_not_live [simp]: "slot_key k i \<noteq> live_key k' i'" "live_key k' i' \<noteq> slot_key k i"
  by (cases k; cases k'; simp add: key_defs prefix_defs)+

definition other_key :: "string \<Rightarrow> bool" where
  "other_key x \<longleftrightarrow> (\<forall>k i. slot_key k i \<noteq> x \<and> live_key k i \<noteq> x)"

lemma slot_keys_forall: "(\<forall>k. P k) \<longleftrightarrow> P ProviderSlot \<and> P UserSlot"
  by (metis slot_kind.exhaust)

lemma other_keys [simp]:
  "other_key (apiKeySlotKey a)" "other_key (liveAPIKeySlotKey a)" "other_key (openAIWSIngressLeaseKey a)"
  "other_key providerActiveIndexKey" "other_key userActiveIndexKey"
  by (simp_all add: other_key_def slot_keys_forall key_defs prefix_defs)

section \<open>Requests that only take away\<close>

definition shrinks :: "redis \<Rightarrow> redis \<Rightarrow> bool" where
  "shrinks r r' \<longleftrightarrow> TIME r \<le> TIME r' \<and> (\<forall>k. subseq (rd_zsets r' k) (rd_zsets r k))"

lemma shrinks_refl [simp]: "shrinks r r"
  by (simp add: shrinks_def)

lemma shrinks_trans [trans]: "shrinks r r' \<Longrightarrow> shrinks r' r'' \<Longrightarrow> shrinks r r''"
  unfolding shrinks_def using subseq_order.trans by fastforce

lemma shrinks_commands [simp]:
  "shrinks r (ZREM k m r)" "shrinks r (ZREMRANGEBYSCORE k s r)" "shrinks r (DEL k r)"
  "shrinks r (SETV k v r)" "shrinks r (snd (INCR k r))" "shrinks r (snd (DECR k r))"
  by (auto simp: shrinks_def AList.delete_eq SETV_def TIME_def)

lemma shrinks_EXPIRE [simp]: "shrinks r (EXPIRE k t r)"
  by (auto simp: EXPIRE_def PEXPIRE_def shrinks_def TIME_def DEL_def)

lemma shrinks_tick [simp]: "shrinks r (tick ms r)"
  by (simp add: shrinks_def TIME_tick) (simp add: tick_def Let_def)

lemma length_filter_impl: "(\<And>x. P x \<Longrightarrow> Q x) \<Longrightarrow> length (filter P xs) \<le> length (filter Q xs)"
  by (induction xs) auto

lemma unexpired_shrinks: "shrinks r r' \<Longrightarrow> unexpired ttl k r' \<le> unexpired ttl k r"
proof -
  assume s: "shrinks r r'"
  have "unexpired ttl k r' \<le> length (filter (\<lambda>p. TIME r - ttl < snd p) (rd_zsets r' k))"
    using s by (auto simp: unexpired_def shrinks_def intro!: length_filter_impl)
  also have "\<dots> \<le> unexpired ttl k r"
    unfolding unexpired_def using list_emb_length [OF subseq_filter [of "rd_zsets r' k" "rd_zsets r k"]] s
    by (simp add: shrinks_def)
  finally show ?thesis .
qed

lemma within_mono: "within l m \<Longrightarrow> m' \<le> m \<Longrightarrow> within l m'"
  by (auto simp: within_def split: option.splits)

lemma total_within_mono: "total_within l m \<Longrightarrow> m' \<le> m \<Longrightarrow> total_within l m'"
  by (auto simp: total_within_def split: option.splits)

lemma within_total: "within l m \<Longrightarrow> total_within l m"
  by (auto simp: within_def total_within_def split: option.splits)

lemma bounded_le:
  assumes "bounded c limit r" and "\<And>k i. regular c k i r' \<le> regular c k i r" and "\<And>k i. held c k i r' \<le> held c k i r"
  shows "bounded c limit r'"
  using assms unfolding bounded_def by (meson of_nat_mono total_within_mono within_mono)

lemma regular_shrinks: "shrinks r r' \<Longrightarrow> regular c k i r' \<le> regular c k i r"
  unfolding regular_def by (rule unexpired_shrinks)

lemma held_shrinks: "shrinks r r' \<Longrightarrow> held c k i r' \<le> held c k i r"
  unfolding held_def by (intro add_mono unexpired_shrinks regular_shrinks)

lemma bounded_shrinks: "bounded c limit r \<Longrightarrow> shrinks r r' \<Longrightarrow> bounded c limit r'"
  by (erule bounded_le) (auto intro: regular_shrinks held_shrinks)

text \<open>It is enough to look at the provider or user whose slots change.\<close>

lemma bounded_at:
  assumes "bounded c limit r"
    and "\<And>k' i'. (k', i') \<noteq> (k, i) \<Longrightarrow> regular c k' i' r' = regular c k' i' r \<and> held c k' i' r' = held c k' i' r"
    and "within (limit k i) (int (regular c k i r'))" and "total_within (limit k i) (int (held c k i r'))"
  shows "bounded c limit r'"
  unfolding bounded_def
proof (intro allI)
  fix k' i'
  show "within (limit k' i') (int (regular c k' i' r')) \<and> total_within (limit k' i') (int (held c k' i' r'))"
    using assms by (cases "(k', i') = (k, i)") (auto simp: bounded_def)
qed

lemma shrinks_fold: "(\<And>x r. shrinks r (f x r)) \<Longrightarrow> shrinks r (fold f xs r)"
  by (induction xs arbitrary: r) (auto intro: shrinks_trans)


section \<open>Requests that add\<close>

text \<open>Adding a member changes the slots in use of one key at most, and by one at most.\<close>

lemma length_update: "length (AList.update m s xs) = length xs + (if map_of xs m = None then 1 else 0)"
  by (induction xs) auto

lemma filter_update:
  "length (filter P (AList.update m s xs)) \<le>
     length (filter P xs) + (if map_of xs m = None \<or> \<not> P (m, the (map_of xs m)) then 1 else 0)"
  by (induction xs) auto

definition trimmed :: "int \<Rightarrow> string \<Rightarrow> redis \<Rightarrow> bool" where
  "trimmed ttl k r \<longleftrightarrow> (\<forall>p \<in> set (rd_zsets r k). TIME r - ttl < snd p)"

lemma unexpired_le_ZCARD: "int (unexpired ttl k r) \<le> ZCARD k r"
  by (simp add: unexpired_def ZCARD_def)

lemma trimmed_ZREMRANGEBYSCORE: "trimmed ttl k (ZREMRANGEBYSCORE k (TIME r - ttl) r)"
  by (auto simp: trimmed_def)

lemma trimmed_other: "trimmed ttl k r \<Longrightarrow> trimmed ttl k (ZREMRANGEBYSCORE k' s r)"
  by (auto simp: trimmed_def)

lemma unexpired_ZADD_other [simp]: "k \<noteq> k' \<Longrightarrow> unexpired ttl k (ZADD k' s m r) = unexpired ttl k r"
  by (simp add: unexpired_def)

lemma unexpired_ZADD: "unexpired ttl k (ZADD k s m r) \<le> unexpired ttl k r + 1"
  using filter_update [of "\<lambda>p. TIME r - ttl < snd p" m s "rd_zsets r k"] by (auto simp: unexpired_def split: if_splits)

lemma unexpired_ZADD_again:
  assumes "trimmed ttl k r" and "ZSCORE k m r \<noteq> None"
  shows "unexpired ttl k (ZADD k s m r) \<le> unexpired ttl k r"
proof -
  obtain v where v: "map_of (rd_zsets r k) m = Some v" using assms(2) by (auto simp: ZSCORE_def)
  then have "TIME r - ttl < v" using assms(1) map_of_SomeD by (force simp: trimmed_def)
  with v show ?thesis
    using filter_update [of "\<lambda>p. TIME r - ttl < snd p" m s "rd_zsets r k"] by (simp add: unexpired_def)
qed

lemma bounded_ZADD_other: "other_key x \<Longrightarrow> bounded c limit r \<Longrightarrow> bounded c limit (ZADD x s m r)"
  by (simp add: bounded_def held_def regular_def other_key_def)

lemma held_le_ZCARD: "int (held c k i r) \<le> ZCARD (slot_key k i) r + ZCARD (live_key k i) r"
  using unexpired_le_ZCARD [of "slotTTLSeconds c" "slot_key k i" r] unexpired_le_ZCARD [of 60 "live_key k i" r]
  by (simp add: held_def regular_def)

text \<open>The step of \<open>acquireScript\<close>: the key is trimmed, and the member is there or a place is free.\<close>

lemma bounded_acquire_slot:
  assumes "bounded c limit r" and "trimmed (slotTTLSeconds c) (slot_key k i) r"
    and "ZSCORE (slot_key k i) q r \<noteq> None \<or>
      within (limit k i) (ZCARD (slot_key k i) r + ZCARD (live_key k i) r + 1)"
  shows "bounded c limit (ZADD (slot_key k i) s q r)"
proof (cases "ZSCORE (slot_key k i) q r = None")
  case False
  then have "regular c k' i' (ZADD (slot_key k i) s q r) \<le> regular c k' i' r" for k' i'
    using unexpired_ZADD_again [OF assms(2), of q s] by (cases "k' = k \<and> i' = i") (auto simp: regular_def)
  then show ?thesis by (intro bounded_le [OF assms(1)]) (auto simp: held_def)
next
  case True
  let ?r = "ZADD (slot_key k i) s q r"
  have "int (held c k i ?r) \<le> ZCARD (slot_key k i) r + ZCARD (live_key k i) r + 1"
    using unexpired_ZADD [of "slotTTLSeconds c" "slot_key k i" s q r] held_le_ZCARD [of c k i r]
    by (simp add: held_def regular_def)
  then have "within (limit k i) (int (held c k i ?r))" using True assms(3) within_mono by blast
  moreover have "regular c k i ?r \<le> held c k i ?r" by (simp add: held_def)
  ultimately show ?thesis
    by (intro bounded_at [OF assms(1), of k i]) (auto simp: held_def regular_def intro: within_total within_mono)
qed

text \<open>The same for a live lease: the key of the live leases is trimmed.\<close>

lemma bounded_live_again:
  assumes "bounded c limit r" and "trimmed 60 (live_key k i) r" and "ZSCORE (live_key k i) l r \<noteq> None"
  shows "bounded c limit (ZADD (live_key k i) s l r)"
proof (rule bounded_le [OF assms(1)])
  fix k' i'
  show "regular c k' i' (ZADD (live_key k i) s l r) \<le> regular c k' i' r" by (simp add: regular_def)
  show "held c k' i' (ZADD (live_key k i) s l r) \<le> held c k' i' r"
    using unexpired_ZADD_again [OF assms(2,3), of s] by (cases "k' = k \<and> i' = i") (auto simp: held_def regular_def)
qed

lemma bounded_live_new:
  assumes "bounded c limit r" and "total_within (limit k i) (ZCARD (slot_key k i) r + ZCARD (live_key k i) r + 1)"
  shows "bounded c limit (ZADD (live_key k i) s l r)"
proof (rule bounded_at [OF assms(1), of k i])
  let ?r = "ZADD (live_key k i) s l r"
  show "regular c k' i' ?r = regular c k' i' r \<and> held c k' i' ?r = held c k' i' r" if "(k', i') \<noteq> (k, i)" for k' i'
    using that by (auto simp: held_def regular_def)
  show "within (limit k i) (int (regular c k i ?r))" using assms(1) by (simp add: bounded_def regular_def)
  have "int (held c k i ?r) \<le> ZCARD (slot_key k i) r + ZCARD (live_key k i) r + 1"
    using unexpired_ZADD [of 60 "live_key k i" s l r] held_le_ZCARD [of c k i r] by (simp add: held_def regular_def)
  then show "total_within (limit k i) (int (held c k i ?r))" by (rule total_within_mono [OF assms(2)])
qed


section \<open>The limits are an invariant of all requests\<close>

lemma acquireScript_bounded:
  assumes "bounded c limit r" and "within (limit k i) m"
  shows "bounded c limit (snd (acquireScript (slot_key k i) (live_key k i) m (slotTTLSeconds c) q r))"
proof -
  define r1 where "r1 = ZREMRANGEBYSCORE (live_key k i) (TIME r - 60)
    (ZREMRANGEBYSCORE (slot_key k i) (TIME r - slotTTLSeconds c) r)"
  have sh: "shrinks r r1" unfolding r1_def by (meson shrinks_commands(2) shrinks_trans)
  have b: "bounded c limit r1" by (rule bounded_shrinks [OF assms(1) sh])
  have t: "trimmed (slotTTLSeconds c) (slot_key k i) r1"
    unfolding r1_def by (intro trimmed_other trimmed_ZREMRANGEBYSCORE)
  let ?full = "ZCARD (slot_key k i) r1 + ZCARD (live_key k i) r1"
  show ?thesis
  proof (cases "ZSCORE (slot_key k i) q r1 \<noteq> None \<or> ?full < m")
    case True
    then have "ZSCORE (slot_key k i) q r1 \<noteq> None \<or> within (limit k i) (?full + 1)"
      using within_mono [OF assms(2), of "?full + 1"] by auto
    from bounded_shrinks [OF bounded_acquire_slot [OF b t this] shrinks_EXPIRE] show ?thesis
      using True by (auto simp: acquireScript_def Let_def r1_def [symmetric])
  next
    case False
    then show ?thesis using b by (simp add: acquireScript_def Let_def r1_def [symmetric])
  qed
qed

lemma live_within_room:
  assumes "live_within l m repl" and "\<not> (m > 0 \<and> n \<ge> m + (if repl = 1 then 1 else 0))"
  shows "total_within l (n + 1)"
  using assms by (auto simp: live_within_def total_within_def split: option.splits if_splits)

declare slot_key.simps [simp del] live_key.simps [simp del]

lemmas kind_keys = slot_key.simps [symmetric] live_key.simps [symmetric]

lemma ZCARD_ZADD_other [simp]: "k \<noteq> k' \<Longrightarrow> ZCARD k (ZADD k' s m r) = ZCARD k r"
  by (simp add: ZCARD_def)

lemma live_key_not_api [simp]: "live_key k i \<noteq> liveAPIKeySlotKey a" "liveAPIKeySlotKey a \<noteq> live_key k i"
  using other_keys(2) [of a] by (auto simp: other_key_def)

lemma acquireLive_bounded:
  assumes b: "bounded c limit r"
    and p: "live_within (limit ProviderSlot p) pm repl" and u: "live_within (limit UserSlot u) um repl"
  shows "bounded c limit (snd (acquireLiveLeaseScript (slot_key ProviderSlot p) (live_key ProviderSlot p)
    (slot_key UserSlot u) (live_key UserSlot u) (liveAPIKeySlotKey a) pm um liveLeaseTTLSeconds l repl r))"
    (is "bounded _ _ (snd ?script)")
proof -
  let ?lp = "live_key ProviderSlot p" and ?lu = "live_key UserSlot u"
  define t where "t = TIME r"
  define r1 where "r1 = ZREMRANGEBYSCORE (liveAPIKeySlotKey a) (t - liveLeaseTTLSeconds)
    (ZREMRANGEBYSCORE ?lu (t - liveLeaseTTLSeconds) (ZREMRANGEBYSCORE ?lp (t - liveLeaseTTLSeconds) r))"
  have "shrinks r r1" unfolding r1_def by (meson shrinks_commands(2) shrinks_trans)
  then have b1: "bounded c limit r1" by (rule bounded_shrinks [OF b])
  define np where "np = ZCARD (slot_key ProviderSlot p) r1 + ZCARD ?lp r1"
  define nu where "nu = ZCARD (slot_key UserSlot u) r1 + ZCARD ?lu r1"
  let ?al = "if repl = 1 then 1 else 0 :: int"
  show ?thesis
  proof (cases "ZSCORE ?lp l r1 \<noteq> None \<or> pm > 0 \<and> np \<ge> pm + ?al \<or> um > 0 \<and> nu \<ge> um + ?al")
    case True
    then have "snd ?script = r1"
      unfolding acquireLiveLeaseScript_def Let_def t_def [symmetric] r1_def [symmetric] np_def nu_def by auto
    with b1 show ?thesis by simp
  next
    case False
    have "total_within (limit ProviderSlot p) (np + 1)" "total_within (limit UserSlot u) (nu + 1)"
      using False live_within_room [OF p] live_within_room [OF u] by blast+
    then have "bounded c limit (ZADD ?lp t l r1)"
      unfolding np_def by (intro bounded_live_new [OF b1])
    then have "bounded c limit (ZADD ?lu t l (ZADD ?lp t l r1))"
      by (rule bounded_live_new) (use \<open>total_within (limit UserSlot u) (nu + 1)\<close> in \<open>simp add: nu_def\<close>)
    then have "bounded c limit (ZADD (liveAPIKeySlotKey a) t l (ZADD ?lu t l (ZADD ?lp t l r1)))"
      by (rule bounded_ZADD_other [OF other_keys(2)])
    then have "bounded c limit (EXPIRE (liveAPIKeySlotKey a) liveLeaseTTLSeconds (EXPIRE ?lu liveLeaseTTLSeconds
      (EXPIRE ?lp liveLeaseTTLSeconds (ZADD (liveAPIKeySlotKey a) t l (ZADD ?lu t l (ZADD ?lp t l r1))))))"
      by (meson bounded_shrinks shrinks_EXPIRE)
    moreover have "snd ?script = EXPIRE (liveAPIKeySlotKey a) liveLeaseTTLSeconds (EXPIRE ?lu liveLeaseTTLSeconds
      (EXPIRE ?lp liveLeaseTTLSeconds (ZADD (liveAPIKeySlotKey a) t l (ZADD ?lu t l (ZADD ?lp t l r1)))))"
      using False
      unfolding acquireLiveLeaseScript_def Let_def t_def [symmetric] r1_def [symmetric] np_def nu_def by auto
    ultimately show ?thesis by simp
  qed
qed

lemma refreshLive_bounded:
  assumes b: "bounded c limit r"
  shows "bounded c limit (snd (refreshLiveLeaseScript [live_key ProviderSlot p, live_key UserSlot u, liveAPIKeySlotKey a]
    liveLeaseTTLSeconds l r))" (is "bounded _ _ (snd ?script)")
proof -
  let ?lp = "live_key ProviderSlot p" and ?lu = "live_key UserSlot u" and ?la = "liveAPIKeySlotKey a"
  define t where "t = TIME r"
  define r1 where "r1 = ZREMRANGEBYSCORE ?lp (t - liveLeaseTTLSeconds) r"
  define r2 where "r2 = ZREMRANGEBYSCORE ?lu (t - liveLeaseTTLSeconds) r1"
  define r3 where "r3 = ZREMRANGEBYSCORE ?la (t - liveLeaseTTLSeconds) r2"
  have sh: "shrinks r r1" "shrinks r1 r2" "shrinks r2 r3" by (simp_all add: r1_def r2_def r3_def)
  then have b3: "bounded c limit r1" "bounded c limit r2" "bounded c limit r3" using b bounded_shrinks by blast+
  have t3: "TIME r3 = t" by (simp add: r3_def r2_def r1_def t_def)
  show ?thesis
  proof (cases "ZSCORE ?lp l r1 \<noteq> None \<and> ZSCORE ?lu l r2 \<noteq> None \<and> ZSCORE ?la l r3 \<noteq> None")
    case False
    then have "snd ?script \<in> {r1, r2, r3}"
      by (auto simp: refreshLiveLeaseScript_def Let_def t_def [symmetric] r1_def [symmetric] r2_def [symmetric]
        r3_def [symmetric])
    with b3 show ?thesis by auto
  next
    case True
    have trim: "trimmed 60 ?lp r3" "trimmed 60 ?lu r3"
      by (auto simp: trimmed_def r3_def r2_def r1_def t_def liveLeaseTTLSeconds_def)
    have z: "ZSCORE ?lp l r3 \<noteq> None" "ZSCORE ?lu l r3 \<noteq> None"
      using True by (simp_all add: ZSCORE_def r3_def r2_def)
    define r4 where "r4 = EXPIRE ?lp liveLeaseTTLSeconds (ZADD ?lp t l r3)"
    have b4: "bounded c limit r4"
      unfolding r4_def by (rule bounded_shrinks [OF bounded_live_again [OF b3(3) trim(1) z(1)] shrinks_EXPIRE])
    have "trimmed 60 ?lu r4" "ZSCORE ?lu l r4 \<noteq> None"
      using trim(2) z(2) by (simp_all add: r4_def trimmed_def ZSCORE_def liveLeaseTTLSeconds_def)
    from bounded_shrinks [OF bounded_live_again [OF b4 this, of t] shrinks_EXPIRE]
    have "bounded c limit (EXPIRE ?lu liveLeaseTTLSeconds (ZADD ?lu t l r4))" .
    from bounded_shrinks [OF bounded_ZADD_other [OF other_keys(2) this] shrinks_EXPIRE]
    have "bounded c limit (EXPIRE ?la liveLeaseTTLSeconds (ZADD ?la t l (EXPIRE ?lu liveLeaseTTLSeconds (ZADD ?lu t l r4))))" .
    then show ?thesis
      using True by (auto simp: refreshLiveLeaseScript_def Let_def t_def [symmetric] r1_def [symmetric] r2_def [symmetric]
        r3_def [symmetric] r4_def)
  qed
qed

lemma shrinks_startup: "shrinks r (snd (startupCleanupSlotScript k p ttl r))"
proof -
  have "shrinks (snd x) (snd (remove_foreign k p ms x))" for ms x
    by (induction k p ms x rule: remove_foreign.induct) (auto intro: shrinks_trans [OF shrinks_commands(1)])
  from this [of "(0, r)"] show ?thesis
    by (auto simp: startupCleanupSlotScript_def Let_def split: prod.splits intro: shrinks_trans)
       (metis shrinks_trans shrinks_commands(3) shrinks_EXPIRE snd_conv)+
qed


lemma bounded_same_zsets: "bounded c limit r \<Longrightarrow> other_key x \<Longrightarrow> bounded c limit (EXPIRE x t (ZADD x s m r))"
  by (rule bounded_shrinks [OF bounded_ZADD_other shrinks_EXPIRE])

lemma bounded_index_add: "other_key x \<Longrightarrow> bounded c limit r \<Longrightarrow> bounded c limit (fold (\<lambda>(s, m). ZADD x s m) sms r)"
  by (induction sms arbitrary: r) (auto simp: bounded_ZADD_other)

lemma request_bounded:
  assumes "request c limit f" and b: "bounded c limit r"
  shows "bounded c limit (f r)"
  using assms(1)
proof cases
  case (acquire k i m q)
  with acquireScript_bounded [OF b] show ?thesis by simp
next
  case (count k i)
  have "shrinks r (f r)"
    unfolding count by (simp add: getCountScript_def Let_def) (meson shrinks_commands(2) shrinks_trans)
  then show ?thesis by (rule bounded_shrinks [OF b])
next
  case (live p pm repl u um a l)
  with acquireLive_bounded [OF b] show ?thesis by (simp add: kind_keys)
next
  case (live_refresh p u a l)
  with refreshLive_bounded [OF b] show ?thesis by (simp add: kind_keys)
next
  case (live_release a l u p)
  have "shrinks r (f r)" unfolding live_release by (meson shrinks_commands(1) shrinks_trans)
  then show ?thesis by (rule bounded_shrinks [OF b])
next
  case (track a q)
  show ?thesis
    unfolding track by (simp add: trackSlotScript_def Let_def bounded_same_zsets bounded_shrinks [OF b])
next
  case (ws_acquire a m q)
  show ?thesis
    unfolding ws_acquire
    by (simp add: acquireOpenAIWSIngressLeaseScript_def Let_def bounded_same_zsets bounded_shrinks [OF b])
next
  case (ws_refresh a q)
  show ?thesis
    unfolding ws_refresh
    by (simp add: refreshOpenAIWSIngressLeaseScript_def Let_def bounded_same_zsets bounded_shrinks [OF b])
next
  case (wait i m t)
  have "shrinks r (f r)"
    unfolding wait by (auto simp: incrementWaitScript_def Let_def intro: shrinks_trans [OF shrinks_commands(5) shrinks_EXPIRE])
  then show ?thesis by (rule bounded_shrinks [OF b])
next
  case (provider_wait i m t)
  have "shrinks r (f r)"
    unfolding provider_wait
    by (auto simp: incrementProviderWaitScript_def Let_def intro: shrinks_trans [OF shrinks_commands(5) shrinks_EXPIRE])
  then show ?thesis by (rule bounded_shrinks [OF b])
next
  case (wait_end k)
  have "shrinks r (f r)" unfolding wait_end by (auto simp: decrementWaitScript_def split: option.splits)
  then show ?thesis by (rule bounded_shrinks [OF b])
next
  case (clean k i)
  have "shrinks r (f r)"
    unfolding clean
    by (auto simp: cleanupExpiredSlotsScript_def Let_def
      intro: shrinks_trans [OF shrinks_commands(2) shrinks_commands(3)] shrinks_trans [OF shrinks_commands(2) shrinks_EXPIRE])
  then show ?thesis by (rule bounded_shrinks [OF b])
next
  case (start_up k i p)
  then show ?thesis using bounded_shrinks [OF b shrinks_startup] by simp
next
  case (index_add k sms)
  then show ?thesis using bounded_index_add [OF _ b] by auto
next
  case (remove_all k ms)
  then show ?thesis using bounded_shrinks [OF b shrinks_fold [OF shrinks_commands(1)]] by simp
next
  case (delete ks)
  then show ?thesis using bounded_shrinks [OF b shrinks_fold [OF shrinks_commands(3)]] by simp
qed (use bounded_shrinks [OF b] b in simp_all)

lemma reach_bounded:
  assumes "reach (request c limit) r r'" and "bounded c limit r"
  shows "bounded c limit r'"
  using assms by (rule reach_invariant) (auto intro: request_bounded bounded_shrinks)

end
