(* ===== verification/Conc_Limits.thy ===== *)
theory Conc_Limits
  imports Conc_Bound
begin

text \<open>
  The operations of the concurrency cache do nothing to Redis but requests, so the limits hold
  for every program of operations and all interference of other processes.
\<close>

abbreviation only :: "concurrency_cache \<Rightarrow> limits \<Rightarrow> world \<Rightarrow> world \<Rightarrow> bool" where
  "only c limit \<equiv> runs (request c limit)"

lemma request_add: "k = providerActiveIndexKey \<or> k = userActiveIndexKey \<Longrightarrow> request c limit (ZADD k s m)"
  using request.index_add [of k c limit "[(s, m)]"] by simp

lemma request_del: "request c limit (DEL k)"
  using request.delete [of c limit "[k]"] by simp

lemma only_touch: "k = providerActiveIndexKey \<or> k = userActiveIndexKey \<Longrightarrow> only c limit w (touchActiveIndexAt k i t w)"
  by (rule runs.R_touch) (rule request_add)

lemma only_load_commandD: "f \<in> set (load_commands s k t) \<Longrightarrow> request c limit (\<lambda>r. snd (f r))"
  using runs.R_load_commands [where P = "request c limit", OF request.query request.trim] by blast

lemma only_time: "only c limit w (snd (server_time w))"
  by (rule runs.R_time) (rule request.query)

lemma only_send: "request c limit f \<Longrightarrow> only c limit w (snd (send f w))"
  by (rule runs_send)

lemma only_count_commands: "\<forall>f \<in> set (count_commands s k t n). request c limit (\<lambda>r. snd (f r))"
  by (simp add: count_commands_def request.query request.trim)

lemma only_refresh:
  "only c limit w (refreshProviderActiveIndex c' i w)" "only c limit w (refreshUserActiveIndex c' i w)"
  unfolding refreshProviderActiveIndex_def refreshUserActiveIndex_def
  by (rule runs.R_refreshActiveIndex; simp add: request.query request.trim request.remove request_add)+

lemmas only_requests =
  request.acquire [where k = ProviderSlot, unfolded slot_key.simps live_key.simps]
  request.acquire [where k = UserSlot, unfolded slot_key.simps live_key.simps]
  request.count [where k = ProviderSlot, unfolded slot_key.simps live_key.simps]
  request.count [where k = UserSlot, unfolded slot_key.simps live_key.simps]
  request.clean [where k = ProviderSlot, unfolded slot_key.simps]
  request.start_up [where k = ProviderSlot, unfolded slot_key.simps]
  request.start_up [where k = UserSlot, unfolded slot_key.simps]
  request.live request.live_refresh request.live_release request.track request.ws_acquire request.ws_refresh
  request.wait request.provider_wait request.wait_end request.remove request.remove_all request.query request.marker
  request.delete request_del request.trim

lemma only_if [intro]: "only c limit w x \<Longrightarrow> only c limit w y \<Longrightarrow> only c limit w (if b then x else y)"
  by simp

section \<open>The operations\<close>

text \<open>Every operation that the cache offers, with the limits its callers keep to.\<close>

inductive operation :: "concurrency_cache \<Rightarrow> limits \<Rightarrow> (world \<Rightarrow> world) \<Rightarrow> bool" for c limit where
  op_acquire_provider: "within (limit ProviderSlot i) m \<Longrightarrow> operation c limit (\<lambda>w. snd (AcquireProviderSlot c i m q w))"
| op_release_provider: "operation c limit (\<lambda>w. snd (ReleaseProviderSlot c i q w))"
| op_get_provider: "operation c limit (\<lambda>w. snd (GetProviderConcurrency c i w))"
| op_provider_batch: "operation c limit (\<lambda>w. snd (GetProviderConcurrencyBatch c is w))"
| op_acquire_user: "within (limit UserSlot i) m \<Longrightarrow> operation c limit (\<lambda>w. snd (AcquireUserSlot c i m q w))"
| op_release_user: "operation c limit (\<lambda>w. snd (ReleaseUserSlot c i q w))"
| op_get_user: "operation c limit (\<lambda>w. snd (GetUserConcurrency c i w))"
| op_track: "operation c limit (\<lambda>w. snd (TrackAPIKeySlot c i q w))"
| op_untrack: "operation c limit (\<lambda>w. snd (ReleaseAPIKeySlot i q w))"
| op_api_batch: "operation c limit (\<lambda>w. snd (GetAPIKeyConcurrencyBatch c is w))"
| op_ws_acquire: "operation c limit (\<lambda>w. snd (AcquireOpenAIWSIngressLease i m q w))"
| op_ws_refresh: "operation c limit (\<lambda>w. snd (RefreshOpenAIWSIngressLease i q w))"
| op_ws_release: "operation c limit (\<lambda>w. snd (ReleaseOpenAIWSIngressLease i q w))"
| op_live: "live_within (limit ProviderSlot p) pm (if b then 1 else 0) \<Longrightarrow> live_within (limit UserSlot u) um (if b then 1 else 0) \<Longrightarrow>
    operation c limit (\<lambda>w. snd (AcquireLiveLease p pm u um a l b w))"
| op_live_refresh: "operation c limit (\<lambda>w. snd (RefreshLiveLease p u a l w))"
| op_live_release: "operation c limit (\<lambda>w. snd (ReleaseLiveLease p u a l w))"
| op_wait: "operation c limit (\<lambda>w. snd (IncrementWaitCount c i m w))"
| op_wait_end: "operation c limit (\<lambda>w. snd (DecrementWaitCount c i w))"
| op_provider_wait: "operation c limit (\<lambda>w. snd (IncrementProviderWaitCount c i m w))"
| op_provider_wait_end: "operation c limit (\<lambda>w. snd (DecrementProviderWaitCount c i w))"
| op_waiting: "operation c limit (\<lambda>w. snd (GetProviderWaitingCount i w))"
| op_provider_loads: "operation c limit (\<lambda>w. snd (GetProvidersLoadBatch c es w))"
| op_user_loads: "operation c limit (\<lambda>w. snd (GetUsersLoadBatch c es w))"
| op_clean: "operation c limit (\<lambda>w. snd (CleanupExpiredProviderSlots c i w))"
| op_clean_all: "operation c limit (\<lambda>w. snd (CleanupExpiredProviderSlotKeys c w))"
| op_start_up: "operation c limit (\<lambda>w. snd (CleanupStaleProcessSlots c pages s w))"

lemma only_concurrency_batch: "only c limit w (snd (concurrency_batch s l c' is w))"
  unfolding concurrency_batch_def
  by (auto intro!: runs.R_try_then only_time runs.R_pipeline request.query simp: only_count_commands)

lemma only_loads_batch: "only c limit w (snd (loads_batch s l q c' es w))"
  unfolding loads_batch_def
  by (auto intro!: runs.R_try_then only_time runs.R_pipeline request.query simp: only_count_commands)

lemma only_read_chunks: "only c limit w (snd (read_chunks spec t cs w))"
proof (induction spec t cs w rule: read_chunks.induct)
  case (1 spec t cs w)
  show ?case
    by (subst read_chunks.simps)
       (auto simp: Let_def intro!: runs.R_try_then runs.R_pipeline 1 dest: only_load_commandD)
qed

lemma only_add_refreshed: "k = providerActiveIndexKey \<or> k = userActiveIndexKey \<Longrightarrow> only c limit w (add_refreshed k ss w)"
  by (simp add: add_refreshed_def runs_send request.index_add)

lemma only_remove_members: "only c limit w (removeActiveIndexMembers k ms w)"
  by (simp add: removeActiveIndexMembers_def runs_send request.remove_all)

lemma spec_index [simp]:
  "indexKey providerSlotIndex = providerActiveIndexKey" "indexKey userSlotIndex = userActiveIndexKey"
  by (simp_all add: providerSlotIndex_def userSlotIndex_def)


lemma only_reconcile:
  assumes "indexKey spec = providerActiveIndexKey \<or> indexKey spec = userActiveIndexKey"
  shows "only c limit w (snd (reconcileExpiredIndexCandidates c' spec w))"
proof -
  have "only c limit w (removeActiveIndexMembers (indexKey spec) ms (add_refreshed (indexKey spec) ss w))" for w ms ss
    using only_add_refreshed [OF assms] only_remove_members by (rule runs_trans)
  then show ?thesis
    unfolding reconcileExpiredIndexCandidates_def readIndexLoads_def
    by (auto simp: Let_def split_beta intro!: runs.R_try_then only_time runs.R_roundtrip request.query only_read_chunks)
qed

lemma only_delete_pages: "only c limit w (snd (delete_pages pages w))"
  by (induction pages w rule: delete_pages.induct)
     (auto intro!: runs.R_try_then runs.R_roundtrip request.query runs_send request.delete)

lemma only_sweep: "only c limit w (snd (sweepLegacyWaitKeysOnce pages w))"
  unfolding sweepLegacyWaitKeysOnce_def
  by (auto intro!: runs.R_try_then runs.R_roundtrip request.query runs_send request.marker only_delete_pages)

lemma only_cleanup_members:
  assumes spec: "\<And>i. slotKey spec i = slot_key k i"
  shows "only c limit w (snd (cleanup_members c spec p now ms acc w))"
proof (induction ms arbitrary: acc w)
  case Nil
  then show ?case by (cases acc) simp
next
  case (Cons m ms)
  obtain sm rf where acc: "acc = (sm, rf)" by force
  have "only c limit w (snd (roundtrip (startupCleanupSlotScript (slotKey spec i) p (slotTTLSeconds c)) w))" for i w
    by (rule runs.R_roundtrip) (simp add: spec request.start_up)
  then show ?case
    by (auto simp: acc split: option.splits intro!: runs.R_try_then Cons.IH only_send request_del)
qed

lemma only_cleanup_index:
  assumes "\<And>i. slotKey spec i = slot_key k i"
    and "indexKey spec = providerActiveIndexKey \<or> indexKey spec = userActiveIndexKey"
  shows "only c limit w (snd (cleanupStaleProcessSlotsForIndex c spec ms p now w))"
proof -
  have "only c limit w (removeActiveIndexMembers (indexKey spec) ms (add_refreshed (indexKey spec) ss w))" for w ms ss
    using only_add_refreshed [OF assms(2)] only_remove_members by (rule runs_trans)
  then show ?thesis
    unfolding cleanupStaleProcessSlotsForIndex_def
    by (auto intro!: runs.R_try_then only_cleanup_members [OF assms(1)])
qed

lemma spec_slot_keys: "slotKey providerSlotIndex i = slot_key ProviderSlot i" "slotKey userSlotIndex i = slot_key UserSlot i"
  by (simp_all add: providerSlotIndex_def userSlotIndex_def slot_key.simps)

lemma only_start_up: "only c limit w (snd (CleanupStaleProcessSlots c pages p w))"
  unfolding CleanupStaleProcessSlots_def allIndexMembers_def
  by (auto intro!: runs.R_try_then only_sweep only_time runs.R_roundtrip request.query
    only_cleanup_index [OF spec_slot_keys(1)] only_cleanup_index [OF spec_slot_keys(2)])

lemma operation_only:
  assumes "operation c limit f"
  shows "only c limit w (f w)"
  using assms
proof cases
  case (op_acquire_provider i m q)
  then show ?thesis
    by (auto simp: AcquireProviderSlot_def intro!: runs.R_try_then runs.R_roundtrip only_requests only_touch)
next
  case (op_acquire_user i m q)
  then show ?thesis
    by (auto simp: AcquireUserSlot_def intro!: runs.R_try_then runs.R_roundtrip only_requests only_touch)
next
  case (op_release_provider i q)
  then show ?thesis
    by (auto simp: ReleaseProviderSlot_def intro!: runs.R_try_then only_send only_requests only_refresh)
next
  case (op_release_user i q)
  then show ?thesis
    by (auto simp: ReleaseUserSlot_def intro!: runs.R_try_then only_send only_requests only_refresh)
qed (auto simp: GetProviderConcurrency_def GetProviderConcurrencyBatch_def GetUserConcurrency_def
    TrackAPIKeySlot_def ReleaseAPIKeySlot_def GetAPIKeyConcurrencyBatch_def AcquireOpenAIWSIngressLease_def
    RefreshOpenAIWSIngressLease_def ReleaseOpenAIWSIngressLease_def AcquireLiveLease_def RefreshLiveLease_def
    ReleaseLiveLease_def IncrementWaitCount_def DecrementWaitCount_def IncrementProviderWaitCount_def
    DecrementProviderWaitCount_def GetProviderWaitingCount_def GetProvidersLoadBatch_def GetUsersLoadBatch_def
    CleanupExpiredProviderSlots_def CleanupExpiredProviderSlotKeys_def Let_def only_start_up only_concurrency_batch
    only_loads_batch
    intro!: runs.R_try_then runs.R_roundtrip only_send only_requests only_refresh only_touch only_reconcile)


lemma operations_only: "\<forall>op \<in> set ops. operation c limit op \<Longrightarrow> only c limit w (fold (\<lambda>op. op) ops w)"
proof (induction ops arbitrary: w)
  case (Cons op ops)
  have "only c limit w (op w)" using Cons.prems operation_only by simp
  also have "only c limit (op w) (fold (\<lambda>op. op) ops (op w))" using Cons by simp
  finally show ?case by simp
qed simp

lemma bounded_empty: "\<forall>k i. within (limit k i) 0 \<Longrightarrow> bounded c limit (empty_redis now)"
  using within_total by (simp add: bounded_def held_def regular_def unexpired_def empty_redis_def)

text \<open>The bound is reached: with a maximum of one, the lease that replaces a slot is acquired while the slot is held.\<close>

lemma live_lease_beside_slot:
  assumes "rd_zsets r (slot_key ProviderSlot p) = [(q, TIME r)]" "rd_zsets r (live_key ProviderSlot p) = []"
    and "rd_zsets r (slot_key UserSlot u) = [(q', TIME r)]" "rd_zsets r (live_key UserSlot u) = []" and "0 < slotTTLSeconds c"
  shows "held c ProviderSlot p (snd (acquireLiveLeaseScript (slot_key ProviderSlot p) (live_key ProviderSlot p)
    (slot_key UserSlot u) (live_key UserSlot u) (liveAPIKeySlotKey a) 1 1 liveLeaseTTLSeconds l 1 r)) = 2"
  using assms
  by (simp add: acquireLiveLeaseScript_def Let_def ZSCORE_def ZCARD_def held_def regular_def unexpired_def liveLeaseTTLSeconds_def
      other_keys [unfolded other_key_def])
text \<open>
  C3: Whatever the processes do, in any order and with any loss of requests and answers, no provider and no user ever
  has more slots in use than its limit; counting the live leases too, it has at most as many where live leases
  do not replace slots, and at most one more where they do. The callers acquire slots and live leases with maxima up
  to the limit, as a live call does, which passes the limit itself while it still holds the slot.
\<close>

theorem slots_never_exceed_limit:
  assumes "\<forall>op \<in> set ops. operation c limit op" and "friendly (request c limit) w"
    and "wd_redis w = empty_redis now" and "\<forall>k i. within (limit k i) 0"
  shows "within (limit k i) (int (regular c k i (wd_redis (fold (\<lambda>op. op) ops w)))) \<and>
    total_within (limit k i) (int (held c k i (wd_redis (fold (\<lambda>op. op) ops w))))"
proof -
  have "reach (request c limit) (empty_redis now) (wd_redis (fold (\<lambda>op. op) ops w))"
    using runs_reach [OF operations_only [OF assms(1)] assms(2)] assms(3) by simp
  from reach_bounded [OF this bounded_empty [OF assms(4)]] show ?thesis by (simp add: bounded_def)
qed

text \<open>
  A provider and a user with room for one: the live call of the repository's test, between the acquisition of the lease
  and the release of the slot that it replaces. A second slot that another process asks for is refused.
\<close>

definition one_each :: limits where
  "one_each k i = Some \<lparr>sl_max = 1, sl_replaced = True\<rparr>"

definition busy_world :: "concurrency_cache \<Rightarrow> world" where
  "busy_world c = \<lparr>wd_redis = empty_redis 0,
     wd_events = [Event [] 0 Served, Event [] 0 Served, Event [] 0 Served, Event [] 0 Served,
       Event [\<lambda>r. snd (acquireScript (slot_key ProviderSlot 10) (live_key ProviderSlot 10) 1 (slotTTLSeconds c) ''other'' r)]
       5 Served]\<rparr>"

definition live_call :: "concurrency_cache \<Rightarrow> (world \<Rightarrow> world) list" where
  "live_call c =
     [\<lambda>w. snd (AcquireProviderSlot c 10 1 ''regular-provider'' w), \<lambda>w. snd (AcquireUserSlot c 20 1 ''regular-user'' w),
      \<lambda>w. snd (AcquireLiveLease 10 1 20 1 30 ''live-lease'' True w)]"

theorem slots_never_exceed_limit_witness:
  "let c = NewConcurrencyCache 15 900; r = wd_redis (fold (\<lambda>op. op) (live_call c) (busy_world c))
   in regular c ProviderSlot 10 r \<le> 1 \<and> held c ProviderSlot 10 r \<le> 2"
proof -
  let ?c = "NewConcurrencyCache 15 900"
  have ops: "\<forall>op \<in> set (live_call ?c). operation ?c one_each op"
    by (auto simp: live_call_def one_each_def within_def live_within_def
        intro!: op_acquire_provider op_acquire_user op_live [where b = True, simplified])
  have w: "friendly (request ?c one_each) (busy_world ?c)"
    by (simp add: friendly_def busy_world_def one_each_def within_def request.acquire)
  show ?thesis
    using slots_never_exceed_limit [OF ops w, where now = 0 and k = ProviderSlot and i = 10]
    by (simp add: Let_def one_each_def within_def total_within_def busy_world_def)
qed


end
