(* ===== verification/Conc_Refine.thy ===== *)
theory Conc_Refine
  imports Conc_Bound
begin

text \<open>
  The abstract table of slots: who holds a slot since when, with slots that lapse after their time
  to live. The scripts implement it with a sorted set that is trimmed now and then and a deadline on
  the key; the deadline never takes a slot away that has not lapsed.
\<close>

record slot_table =
  st_clock :: int
  st_own :: "string \<rightharpoonup> int"
  st_live :: "string \<rightharpoonup> int"

definition st_time :: "slot_table \<Rightarrow> int" where
  "st_time S = st_clock S div 1000"

definition st_count :: "slot_table \<Rightarrow> int" where
  "st_count S = int (card (dom (st_own S)) + card (dom (st_live S)))"

definition lapse :: "int \<Rightarrow> (string \<rightharpoonup> int) \<Rightarrow> string \<rightharpoonup> int" where
  "lapse t m = (\<lambda>q. case m q of None \<Rightarrow> None | Some s \<Rightarrow> if t < s then Some s else None)"

datatype slot_event = EvAcquire int string | EvRelease string | EvCount | EvClean | EvTime nat

fun table_step :: "int \<Rightarrow> slot_event \<Rightarrow> slot_table \<Rightarrow> int \<times> slot_table" where
  "table_step ttl (EvAcquire m q) S =
     (if q \<in> dom (st_own S) \<or> st_count S < m then (1, S\<lparr>st_own := (st_own S)(q \<mapsto> st_time S)\<rparr>) else (0, S))"
| "table_step ttl (EvRelease q) S = (0, S\<lparr>st_own := (st_own S)(q := None)\<rparr>)"
| "table_step ttl EvCount S = (st_count S, S)"
| "table_step ttl EvClean S = (0, S)"
| "table_step ttl (EvTime ms) S =
     (let now = (st_clock S + int ms) div 1000
      in (0, \<lparr>st_clock = st_clock S + int ms, st_own = lapse (now - ttl) (st_own S), st_live = lapse (now - 60) (st_live S)\<rparr>))"

text \<open>The same events on Redis, for the keys of one provider or user.\<close>

fun slot_step :: "concurrency_cache \<Rightarrow> slot_kind \<Rightarrow> int \<Rightarrow> slot_event \<Rightarrow> redis \<Rightarrow> int \<times> redis" where
  "slot_step c k i (EvAcquire m q) r =
     (let (reply, r) = acquireScript (slot_key k i) (live_key k i) m (slotTTLSeconds c) q r in (fst reply, r))"
| "slot_step c k i (EvRelease q) r = (0, ZREM (slot_key k i) q r)"
| "slot_step c k i EvCount r = getCountScript (slot_key k i) (live_key k i) (slotTTLSeconds c) r"
| "slot_step c k i EvClean r = (0, snd (cleanupExpiredSlotsScript (slot_key k i) (slotTTLSeconds c) r))"
| "slot_step c k i (EvTime ms) r = (0, tick ms r)"

fun run_events :: "('e \<Rightarrow> 's \<Rightarrow> int \<times> 's) \<Rightarrow> 'e list \<Rightarrow> 's \<Rightarrow> int list \<times> 's" where
  "run_events f [] s = ([], s)"
| "run_events f (e # es) s = (let (x, s) = f e s; (xs, s) = run_events f es s in (x # xs, s))"

definition view :: "concurrency_cache \<Rightarrow> slot_kind \<Rightarrow> int \<Rightarrow> redis \<Rightarrow> slot_table" where
  "view c k i r =
     \<lparr>st_clock = rd_clock r,
      st_own = lapse (TIME r - slotTTLSeconds c) (map_of (rd_zsets r (slot_key k i))),
      st_live = lapse (TIME r - 60) (map_of (rd_zsets r (live_key k i)))\<rparr>"

text \<open>Scores lie in the past, and a deadline lies behind the lapse of every member.\<close>

definition key_ok :: "int \<Rightarrow> string \<Rightarrow> redis \<Rightarrow> bool" where
  "key_ok ttl key r \<longleftrightarrow> distinct (map fst (rd_zsets r key)) \<and> (\<forall>(m, s) \<in> set (rd_zsets r key). s \<le> TIME r) \<and>
     (\<forall>d. rd_deadline r key = Some d \<longrightarrow> (\<forall>(m, s) \<in> set (rd_zsets r key). 1000 * (s + ttl) \<le> d))"

definition slots_ok :: "concurrency_cache \<Rightarrow> slot_kind \<Rightarrow> int \<Rightarrow> redis \<Rightarrow> bool" where
  "slots_ok c k i r \<longleftrightarrow> key_ok (slotTTLSeconds c) (slot_key k i) r \<and> key_ok 60 (live_key k i) r"

section \<open>The invariant of a key\<close>

lemma key_ok_sub:
  assumes "key_ok ttl key r" and "TIME r \<le> TIME r'" and "rd_zsets r' key = filter P (rd_zsets r key)"
    and "rd_deadline r' key \<in> {None, rd_deadline r key}"
  shows "key_ok ttl key r'"
proof -
  have sub: "set (rd_zsets r' key) \<subseteq> set (rd_zsets r key)" using assms(3) by auto
  have "rd_deadline r' key = Some d \<Longrightarrow> rd_deadline r key = Some d" for d using assms(4) by auto
  then show ?thesis
    using assms(1,2,3) sub unfolding key_ok_def
    by (auto simp: distinct_map_filter)
qed

lemma key_ok_ZREMRANGEBYSCORE [simp]: "key_ok ttl key r \<Longrightarrow> key_ok ttl key (ZREMRANGEBYSCORE x s r)"
  by (cases "x = key")
     (auto intro: key_ok_sub [where P = "\<lambda>p. s < snd p"] key_ok_sub [where P = "\<lambda>_. True"] simp: ZREMRANGEBYSCORE_def put_zset_def TIME_def)

lemma key_ok_ZREM [simp]: "key_ok ttl key r \<Longrightarrow> key_ok ttl key (ZREM x m r)"
  by (cases "x = key")
     (auto intro: key_ok_sub [where P = "\<lambda>(q, _). m \<noteq> q"] key_ok_sub [where P = "\<lambda>_. True"]
       simp: ZREM_def put_zset_def TIME_def AList.delete_eq)

lemma key_ok_same:
  assumes "key_ok ttl key r" and "rd_zsets r' key = rd_zsets r key" and "rd_deadline r' key = rd_deadline r key"
    and "rd_clock r' = rd_clock r"
  shows "key_ok ttl key r'"
  using assms by (simp add: key_ok_def TIME_def)

lemma key_ok_DEL [simp]: "key_ok ttl key r \<Longrightarrow> key_ok ttl key (DEL x r)"
  by (cases "x = key") (simp add: key_ok_def DEL_def, auto intro: key_ok_same simp: DEL_def)

lemma key_ok_EXPIRE_other: "key_ok ttl key r \<Longrightarrow> x \<noteq> key \<Longrightarrow> key_ok ttl key (EXPIRE x t r)"
  by (auto simp: EXPIRE_def PEXPIRE_def intro: key_ok_same)

lemma key_ok_EXPIRE:
  assumes "key_ok ttl key r"
  shows "key_ok ttl key (EXPIRE key ttl r)"
proof -
  have "1000 * (s + ttl) \<le> rd_clock r + 1000 * ttl" if "s \<le> TIME r" for s
    using that by (simp add: TIME_def)
  then show ?thesis
    using assms by (fastforce simp: EXPIRE_def PEXPIRE_def key_ok_def DEL_def TIME_def split: option.splits)
qed

lemma key_ok_refresh:
  assumes "key_ok ttl key r"
  shows "key_ok ttl key (EXPIRE key ttl (ZADD key (TIME r) q r))"
proof -
  let ?r = "ZADD key (TIME r) q r"
  have d: "distinct (map fst (rd_zsets ?r key))" using assms by (simp add: key_ok_def distinct_update)
  have "map_of (rd_zsets ?r key) m = Some s \<Longrightarrow> s \<le> TIME r" for m s
    using assms d by (auto simp: key_ok_def update_conv' split: if_splits dest: map_of_SomeD)
  then have le: "\<forall>(m, s) \<in> set (rd_zsets ?r key). s \<le> TIME r" using d by (auto simp: map_of_eq_Some_iff)
  have "1000 * (s + ttl) \<le> rd_clock r + 1000 * ttl" if "s \<le> TIME r" for s
    using that by (simp add: TIME_def)
  then show ?thesis
    using d le by (fastforce simp: EXPIRE_def PEXPIRE_def EXISTS_def key_ok_def DEL_def TIME_def split: option.splits)
qed

lemma key_ok_ZADD_other: "key_ok ttl key r \<Longrightarrow> x \<noteq> key \<Longrightarrow> key_ok ttl key (ZADD x s m r)"
  by (rule key_ok_same) (simp_all add: ZADD_def put_zset_def)

lemma key_ok_tick: "key_ok ttl key r \<Longrightarrow> key_ok ttl key (tick ms r)"
  using TIME_tick [of r ms]
  by (rule_tac P = "\<lambda>_. \<not> expired (r\<lparr>rd_clock := rd_clock r + int ms\<rparr>) key" in key_ok_sub)
     (auto simp: tick_def Let_def)


section \<open>Lapsing\<close>

lemma lapse_lapse: "u \<le> t \<Longrightarrow> lapse t (lapse u m) = lapse t m"
  by (rule ext) (auto simp: lapse_def split: option.splits)

lemma lapse_delete: "lapse t (m(q := None)) = (lapse t m)(q := None)"
  by (rule ext) (auto simp: lapse_def)

lemma lapse_add: "t < s \<Longrightarrow> lapse t (m(q \<mapsto> s)) = (lapse t m)(q \<mapsto> s)"
  by (rule ext) (auto simp: lapse_def)

lemma map_of_filter_lapse: "distinct (map fst z) \<Longrightarrow> map_of (filter (\<lambda>p. t < snd p) z) = lapse t (map_of z)"
proof (induction z)
  case (Cons p z)
  then have "map_of z (fst p) = None" by (simp add: map_of_eq_None_iff)
  with Cons show ?case by (auto simp: lapse_def fun_eq_iff split: option.splits)
qed (simp add: lapse_def)

lemma lapse_trimmed: "distinct (map fst z) \<Longrightarrow> \<forall>p \<in> set z. t < snd p \<Longrightarrow> lapse t (map_of z) = map_of z"
  using map_of_filter_lapse [of z t] by (metis filter_True)

lemma card_map_of: "distinct (map fst z) \<Longrightarrow> card (dom (map_of z)) = length z"
  by (metis distinct_card dom_map_of_conv_image_fst length_map set_map)

text \<open>Trimming a key at its own time to live does not change the table and leaves what is in the table.\<close>

lemma view_trim:
  assumes "slots_ok c k i r"
  shows "view c k i (ZREMRANGEBYSCORE (slot_key k i) (TIME r - slotTTLSeconds c) r) = view c k i r"
    and "view c k i (ZREMRANGEBYSCORE (live_key k i) (TIME r - 60) r) = view c k i r"
  using assms by (simp_all add: view_def slots_ok_def key_ok_def map_of_filter_lapse lapse_lapse)

lemma slots_ok_ZREMRANGEBYSCORE [simp]: "slots_ok c k i r \<Longrightarrow> slots_ok c k i (ZREMRANGEBYSCORE x s r)"
  by (simp add: slots_ok_def)

lemma view_trimmed:
  assumes "slots_ok c k i r" and "trimmed (slotTTLSeconds c) (slot_key k i) r" and "trimmed 60 (live_key k i) r"
  shows "st_own (view c k i r) = map_of (rd_zsets r (slot_key k i))"
    and "st_live (view c k i r) = map_of (rd_zsets r (live_key k i))"
    and "st_count (view c k i r) = ZCARD (slot_key k i) r + ZCARD (live_key k i) r"
proof -
  show own: "st_own (view c k i r) = map_of (rd_zsets r (slot_key k i))"
    and live: "st_live (view c k i r) = map_of (rd_zsets r (live_key k i))"
    using assms by (simp_all add: view_def slots_ok_def key_ok_def trimmed_def lapse_trimmed)
  show "st_count (view c k i r) = ZCARD (slot_key k i) r + ZCARD (live_key k i) r"
    using assms(1) by (simp add: st_count_def own live slots_ok_def key_ok_def card_map_of ZCARD_def)
qed

definition trim_both :: "concurrency_cache \<Rightarrow> slot_kind \<Rightarrow> int \<Rightarrow> redis \<Rightarrow> redis" where
  "trim_both c k i r = ZREMRANGEBYSCORE (live_key k i) (TIME r - 60)
     (ZREMRANGEBYSCORE (slot_key k i) (TIME r - slotTTLSeconds c) r)"

lemma trim_both:
  assumes "slots_ok c k i r"
  shows "slots_ok c k i (trim_both c k i r)" and "view c k i (trim_both c k i r) = view c k i r"
    and "trimmed (slotTTLSeconds c) (slot_key k i) (trim_both c k i r)" and "trimmed 60 (live_key k i) (trim_both c k i r)"
    and "TIME (trim_both c k i r) = TIME r"
proof -
  let ?r = "ZREMRANGEBYSCORE (slot_key k i) (TIME r - slotTTLSeconds c) r"
  show "slots_ok c k i (trim_both c k i r)" using assms by (simp add: trim_both_def)
  show "view c k i (trim_both c k i r) = view c k i r"
    using view_trim(2) [of c k i ?r] view_trim(1) [OF assms] assms by (simp add: trim_both_def)
  show "trimmed (slotTTLSeconds c) (slot_key k i) (trim_both c k i r)" "trimmed 60 (live_key k i) (trim_both c k i r)"
    by (auto simp: trim_both_def trimmed_def)
  show "TIME (trim_both c k i r) = TIME r" by (simp add: trim_both_def)
qed

section \<open>The steps commute\<close>

lemma step_acquire:
  assumes ok: "slots_ok c k i r" and ttl: "0 < slotTTLSeconds c"
  shows "slots_ok c k i (snd (slot_step c k i (EvAcquire m q) r)) \<and>
    (fst (slot_step c k i (EvAcquire m q) r), view c k i (snd (slot_step c k i (EvAcquire m q) r))) =
      table_step (slotTTLSeconds c) (EvAcquire m q) (view c k i r)"
proof -
  define r1 where "r1 = trim_both c k i r"
  let ?key = "slot_key k i" and ?r2 = "EXPIRE (slot_key k i) (slotTTLSeconds c) (ZADD (slot_key k i) (TIME r1) q r1)"
  note t = trim_both [OF ok, folded r1_def]
  note v = view_trimmed [OF t(1,3,4)]
  have in_own: "q \<in> dom (st_own (view c k i r1)) \<longleftrightarrow> ZSCORE ?key q r1 \<noteq> None" by (auto simp: v ZSCORE_def)
  have step: "slot_step c k i (EvAcquire m q) r =
      (if ZSCORE ?key q r1 \<noteq> None \<or> st_count (view c k i r1) < m then (1, ?r2) else (0, r1))"
    using t(5) by (auto simp: acquireScript_def Let_def r1_def trim_both_def v(3) [unfolded r1_def trim_both_def])
  have ok2: "slots_ok c k i ?r2"
    using t(1) by (simp add: slots_ok_def key_ok_refresh key_ok_EXPIRE_other key_ok_ZADD_other)
  have "view c k i ?r2 = (view c k i r1)\<lparr>st_own := (st_own (view c k i r1))(q \<mapsto> TIME r1)\<rparr>"
    using ttl by (simp add: view_def update_conv' lapse_add)
  moreover have "st_time (view c k i r1) = TIME r1" by (simp add: st_time_def view_def TIME_def)
  ultimately show ?thesis using t(1,2) ok2 in_own unfolding step by (auto simp del: v)
qed

lemma step_other:
  assumes ok: "slots_ok c k i r" and ttl: "0 < slotTTLSeconds c" and e: "\<forall>m q. e \<noteq> EvAcquire m q" "\<forall>ms. e \<noteq> EvTime ms"
  shows "slots_ok c k i (snd (slot_step c k i e r)) \<and>
    (fst (slot_step c k i e r), view c k i (snd (slot_step c k i e r))) = table_step (slotTTLSeconds c) e (view c k i r)"
proof (cases e)
  case (EvRelease q)
  then show ?thesis using ok by (simp add: slots_ok_def view_def AList.delete_conv' lapse_delete)
next
  case EvCount
  then show ?thesis
    using trim_both [OF ok] view_trimmed(3) [OF trim_both(1,3,4) [OF ok]]
    by (simp add: getCountScript_def Let_def trim_both_def)
next
  case EvClean
  define r1 where "r1 = ZREMRANGEBYSCORE (slot_key k i) (TIME r - slotTTLSeconds c) r"
  have r1: "slots_ok c k i r1" "view c k i r1 = view c k i r" using ok view_trim(1) [OF ok] by (simp_all add: r1_def)
  have "slots_ok c k i (EXPIRE (slot_key k i) (slotTTLSeconds c) r1)"
    using r1(1) by (simp add: slots_ok_def key_ok_EXPIRE key_ok_EXPIRE_other)
  moreover have "view c k i (EXPIRE (slot_key k i) (slotTTLSeconds c) r1) = view c k i r1"
    using ttl by (simp add: view_def)
  moreover have "slots_ok c k i (DEL (slot_key k i) r1)" using r1(1) by (simp add: slots_ok_def)
  moreover have "ZCARD (slot_key k i) r1 = 0 \<Longrightarrow> view c k i (DEL (slot_key k i) r1) = view c k i r1"
    by (simp add: view_def ZCARD_def)
  ultimately show ?thesis
    using EvClean r1(2) by (simp add: cleanupExpiredSlotsScript_def Let_def r1_def [symmetric])
qed (use e in auto)

lemma lapse_expired:
  assumes "key_ok ttl key r" and "expired (r\<lparr>rd_clock := rd_clock r + int ms\<rparr>) key"
  shows "lapse (TIME (tick ms r) - ttl) (map_of (rd_zsets r key)) = Map.empty"
proof (rule ext)
  fix q
  obtain d where d: "rd_deadline r key = Some d" "d < rd_clock r + int ms"
    using assms(2) by (auto simp: expired_def split: option.splits)
  have "s \<le> TIME (tick ms r) - ttl" if "map_of (rd_zsets r key) q = Some s" for s
  proof -
    have "1000 * (s + ttl) \<le> d" using assms(1) d(1) map_of_SomeD [OF that] by (auto simp: key_ok_def)
    then show ?thesis using d(2) by (simp add: TIME_def)
  qed
  then show "lapse (TIME (tick ms r) - ttl) (map_of (rd_zsets r key)) q = None"
    by (fastforce simp: lapse_def split: option.splits)
qed

lemma lapse_tick:
  assumes "key_ok ttl key r"
  shows "lapse (TIME (tick ms r) - ttl) (map_of (rd_zsets (tick ms r) key)) =
    lapse (TIME (tick ms r) - ttl) (lapse (TIME r - ttl) (map_of (rd_zsets r key)))"
proof -
  have "lapse t Map.empty = Map.empty" for t by (simp add: lapse_def)
  then show ?thesis
    using lapse_expired [OF assms, of ms] TIME_tick [of r ms]
    by (cases "expired (r\<lparr>rd_clock := rd_clock r + int ms\<rparr>) key") (simp_all add: lapse_lapse, simp_all add: tick_def Let_def)
qed

lemma step_time:
  assumes "slots_ok c k i r"
  shows "slots_ok c k i (snd (slot_step c k i (EvTime ms) r)) \<and>
    (fst (slot_step c k i (EvTime ms) r), view c k i (snd (slot_step c k i (EvTime ms) r))) =
      table_step (slotTTLSeconds c) (EvTime ms) (view c k i r)"
proof -
  have "(rd_clock r + int ms) div 1000 = TIME (tick ms r)" by (simp add: TIME_def)
  then show ?thesis
    using assms lapse_tick [of "slotTTLSeconds c" "slot_key k i" r ms] lapse_tick [of 60 "live_key k i" r ms]
    by (simp add: slots_ok_def key_ok_tick) (simp add: view_def Let_def)
qed


lemma step_refines:
  assumes "slots_ok c k i r" and "0 < slotTTLSeconds c"
  shows "slots_ok c k i (snd (slot_step c k i e r)) \<and>
    (fst (slot_step c k i e r), view c k i (snd (slot_step c k i e r))) = table_step (slotTTLSeconds c) e (view c k i r)"
  using step_acquire [OF assms] step_time [OF assms(1)] step_other [OF assms] by (cases e) blast+

lemma run_refines:
  assumes "slots_ok c k i r" and "0 < slotTTLSeconds c"
  shows "slots_ok c k i (snd (run_events (slot_step c k i) es r)) \<and>
    (fst (run_events (slot_step c k i) es r), view c k i (snd (run_events (slot_step c k i) es r))) =
      run_events (table_step (slotTTLSeconds c)) es (view c k i r)"
  using assms(1)
proof (induction es arbitrary: r)
  case (Cons e es)
  obtain x r1 where e: "slot_step c k i e r = (x, r1)" by force
  have "slots_ok c k i r1" and t: "table_step (slotTTLSeconds c) e (view c k i r) = (x, view c k i r1)"
    using step_refines [OF Cons.prems assms(2), of e] e by auto
  from Cons.IH [OF this(1)] show ?case by (auto simp: e t split: prod.splits)
qed simp

lemma slots_ok_empty: "slots_ok c k i (empty_redis now)"
  by (simp add: slots_ok_def key_ok_def empty_redis_def)

text \<open>
  C16: Acquiring, releasing, counting, cleaning and the passing of time on the sorted sets of a provider
  or user give the same answers as on the plain table of slots that lapse, and keep in step with it:
  trimming late and the deadlines of the keys are invisible.
\<close>

theorem slots_refine:
  assumes "slots_ok c k i r" and "0 < slotTTLSeconds c"
  shows "(fst (run_events (slot_step c k i) es r), view c k i (snd (run_events (slot_step c k i) es r))) =
    run_events (table_step (slotTTLSeconds c)) es (view c k i r)"
  using run_refines [OF assms] by blast

theorem slots_refine_witness:
  "fst (run_events (slot_step (NewConcurrencyCache 1 0) UserSlot 3)
     [EvAcquire 1 ''a'', EvAcquire 1 ''b'', EvTime 60001, EvAcquire 1 ''b'', EvCount] (empty_redis 500)) = [1, 0, 0, 1, 1]"
proof -
  have ttl: "slotTTLSeconds (NewConcurrencyCache 1 0) = 60" by (simp add: NewConcurrencyCache_def)
  have v: "view (NewConcurrencyCache 1 0) UserSlot 3 (empty_redis 500) =
      \<lparr>st_clock = 500, st_own = Map.empty, st_live = Map.empty\<rparr>"
    by (simp add: view_def empty_redis_def lapse_def)
  have l: "lapse t (Map.empty :: string \<rightharpoonup> int) = Map.empty" "lapse t [q \<mapsto> s] = (if t < s then [q \<mapsto> s] else Map.empty)"
    for t s and q :: string
    by (auto simp: lapse_def fun_eq_iff)
  have "run_events (table_step 60) [EvAcquire 1 ''a'', EvAcquire 1 ''b'', EvTime 60001, EvAcquire 1 ''b'', EvCount]
      \<lparr>st_clock = 500, st_own = Map.empty, st_live = Map.empty\<rparr> =
      ([1, 0, 0, 1, 1], \<lparr>st_clock = 60501, st_own = [''b'' \<mapsto> 60], st_live = Map.empty\<rparr>)"
    by (simp add: st_count_def st_time_def l)
  then show ?thesis
    using slots_refine [OF slots_ok_empty, of "NewConcurrencyCache 1 0" UserSlot 3
      "[EvAcquire 1 ''a'', EvAcquire 1 ''b'', EvTime 60001, EvAcquire 1 ''b'', EvCount]" 500]
    by (simp only: ttl v) simp
qed

section \<open>A slot is kept for its time to live\<close>

fun event_time :: "slot_event \<Rightarrow> nat" where
  "event_time (EvTime ms) = ms"
| "event_time _ = 0"

lemma seconds_less: "(x :: int) < 1000 * y \<Longrightarrow> x div 1000 < y"
  using mult_div_mod_eq [of 1000 x] pos_mod_sign [of 1000 x] by linarith

lemma table_keeps_step:
  assumes "st_own S q = Some s" and "since \<le> s" and "e \<noteq> EvRelease q" and "since \<le> st_time S"
    and "st_clock S + int (event_time e) < 1000 * (since + ttl)"
  shows "\<exists>s. st_own (snd (table_step ttl e S)) q = Some s \<and> since \<le> s" and "since \<le> st_time (snd (table_step ttl e S))"
    and "st_clock (snd (table_step ttl e S)) = st_clock S + int (event_time e)"
proof -
  have "(st_clock S + int (event_time e)) div 1000 < since + ttl" using assms(5) by (rule seconds_less)
  moreover have "since \<le> (st_clock S + int (event_time e)) div 1000" using assms(4) by (simp add: st_time_def)
  ultimately show "\<exists>s. st_own (snd (table_step ttl e S)) q = Some s \<and> since \<le> s"
    and "since \<le> st_time (snd (table_step ttl e S))"
    and "st_clock (snd (table_step ttl e S)) = st_clock S + int (event_time e)"
    using assms(1-4) by (cases e; simp add: lapse_def st_time_def Let_def)+
qed

lemma table_keeps:
  assumes "st_own S q = Some s" and "since \<le> s" and "EvRelease q \<notin> set es" and "since \<le> st_time S"
    and "st_clock S + int (sum_list (map event_time es)) < 1000 * (since + ttl)"
  shows "st_own (snd (run_events (table_step ttl) es S)) q \<noteq> None"
  using assms
proof (induction es arbitrary: S s)
  case (Cons e es)
  obtain x S1 where e: "table_step ttl e S = (x, S1)" by force
  have "e \<noteq> EvRelease q" "st_clock S + int (event_time e) < 1000 * (since + ttl)" using Cons.prems(3,5) by auto
  note k = table_keeps_step [OF Cons.prems(1,2) this(1) Cons.prems(4) this(2), unfolded e snd_conv]
  obtain s1 where s1: "st_own S1 q = Some s1" "since \<le> s1" using k(1) by blast
  have "st_own (snd (run_events (table_step ttl) es S1)) q \<noteq> None"
    using Cons.prems(3,5) by (intro Cons.IH [OF s1 _ k(2)]) (simp_all add: k(3))
  then show ?case by (simp add: e split_beta)
qed simp

text \<open>
  A request that got a slot keeps it, through all acquisitions, releases of others, counts and
  clean-ups and whatever deadlines the keys have, until it releases it or its time to live is over.
\<close>

theorem acquired_slot_is_kept:
  assumes "slots_ok c k i r" and "0 < slotTTLSeconds c"
    and "slot_step c k i (EvAcquire m q) r = (1, r1)" and "EvRelease q \<notin> set es"
    and "int (sum_list (map event_time es)) \<le> 1000 * (slotTTLSeconds c - 1)"
  shows "ZSCORE (slot_key k i) q (snd (run_events (slot_step c k i) es r1)) \<noteq> None"
proof -
  let ?ttl = "slotTTLSeconds c" and ?S = "view c k i r"
  have ok1: "slots_ok c k i r1" and t1: "table_step ?ttl (EvAcquire m q) ?S = (1, view c k i r1)"
    using step_acquire [OF assms(1,2), of m q] assms(3) by auto
  have S1: "view c k i r1 = ?S\<lparr>st_own := (st_own ?S)(q \<mapsto> st_time ?S)\<rparr>" using t1 by (simp split: if_splits)
  have "st_clock ?S - 999 \<le> 1000 * st_time ?S" by (simp add: st_time_def)
  then have "st_own (snd (run_events (table_step ?ttl) es (view c k i r1))) q \<noteq> None"
    using assms(4,5) unfolding S1
    by (intro table_keeps [where since = "st_time ?S" and s = "st_time ?S"]) (simp_all add: st_time_def)
  then have "st_own (view c k i (snd (run_events (slot_step c k i) es r1))) q \<noteq> None"
    using run_refines [OF ok1 assms(2), of es] by (metis snd_conv)
  then show ?thesis by (auto simp: view_def lapse_def ZSCORE_def split: option.splits)
qed

theorem acquired_slot_is_kept_witness:
  "let c = NewConcurrencyCache 1 0; r1 = snd (slot_step c UserSlot 3 (EvAcquire 1 ''a'') (empty_redis 999))
   in ZSCORE (slot_key UserSlot 3) ''a'' (snd (run_events (slot_step c UserSlot 3) [EvTime 59000, EvClean, EvAcquire 1 ''b''] r1)) \<noteq> None"
proof -
  have ttl: "slotTTLSeconds (NewConcurrencyCache 1 0) = 60" by (simp add: NewConcurrencyCache_def)
  have s: "slot_step (NewConcurrencyCache 1 0) UserSlot 3 (EvAcquire 1 ''a'') (empty_redis 999) =
      (1, snd (slot_step (NewConcurrencyCache 1 0) UserSlot 3 (EvAcquire 1 ''a'') (empty_redis 999)))"
    by (simp add: acquireScript_def Let_def ZSCORE_def ZCARD_def empty_redis_def)
  show ?thesis
    unfolding Let_def using acquired_slot_is_kept [OF slots_ok_empty _ s, of "[EvTime 59000, EvClean, EvAcquire 1 ''b'']"]
    by (simp add: ttl)
qed

end
