(* ===== verification/Conc_Wait.thy ===== *)
theory Conc_Wait
  imports Conc_Bound
begin

text \<open>
  Waiting requests (\<^verbatim>\<open>scheduler/wait.go\<close>): a request enters the queue by incrementing a counter in
  Redis and owes a decrement only if the increment was confirmed. A failing Redis lets it pass.
\<close>

datatype WaitOwnership = WaitNotCounted | WaitCounted | WaitUncertain

record WaitResult =
  Allowed :: bool
  Ownership :: WaitOwnership
  resource :: bool

definition enterWait :: "(world \<Rightarrow> bool option \<times> world) \<Rightarrow> world \<Rightarrow> WaitResult \<times> world" where
  "enterWait increment w =
     (case increment w of
        (None, w) \<Rightarrow> (\<lparr>Allowed = True, Ownership = WaitUncertain, resource = False\<rparr>, w)
      | (Some allowed, w) \<Rightarrow>
          if \<not> allowed then (\<lparr>Allowed = False, Ownership = WaitNotCounted, resource = False\<rparr>, w)
          else (\<lparr>Allowed = True, Ownership = WaitCounted, resource = True\<rparr>, w))"

text \<open>\<open>None\<close> is a missing cache.\<close>

definition EnterUserWait :: "concurrency_cache option \<Rightarrow> int \<Rightarrow> int \<Rightarrow> world \<Rightarrow> WaitResult \<times> world" where
  "EnterUserWait cache i maxWait w =
     (case cache of
        None \<Rightarrow> (\<lparr>Allowed = True, Ownership = WaitNotCounted, resource = False\<rparr>, w)
      | Some c \<Rightarrow> enterWait (IncrementWaitCount c i maxWait) w)"

definition EnterProviderWait :: "concurrency_cache option \<Rightarrow> int \<Rightarrow> int \<Rightarrow> world \<Rightarrow> WaitResult \<times> world" where
  "EnterProviderWait cache i maxWait w =
     (case cache of
        None \<Rightarrow> (\<lparr>Allowed = True, Ownership = WaitNotCounted, resource = False\<rparr>, w)
      | Some c \<Rightarrow> enterWait (IncrementProviderWaitCount c i maxWait) w)"

text \<open>What the lease of a counted wait runs when it is released.\<close>

definition leave_wait :: "(world \<Rightarrow> unit option \<times> world) \<Rightarrow> WaitResult \<Rightarrow> world \<Rightarrow> world" where
  "leave_wait decrement result w = (if resource result then snd (decrement w) else w)"

definition CalculateMaxWait :: "int \<Rightarrow> int" where
  "CalculateMaxWait userConcurrency =
     (let userConcurrency = (if userConcurrency \<le> 0 then 1 else userConcurrency) in wrap64 (userConcurrency + 20))"

section \<open>The counter covers the requests that were counted\<close>

primrec wait_key :: "slot_kind \<Rightarrow> int \<Rightarrow> string" where
  "wait_key ProviderSlot = providerWaitKey"
| "wait_key UserSlot = waitQueueKey"

lemma wait_key_not [simp]:
  "wait_key k i \<noteq> slot_key k' j" "wait_key k i \<noteq> providerActiveIndexKey" "wait_key k i \<noteq> userActiveIndexKey"
  "slot_key k' j \<noteq> wait_key k i" "providerActiveIndexKey \<noteq> wait_key k i" "userActiveIndexKey \<noteq> wait_key k i"
  by (cases k; cases k'; simp add: slot_key.simps key_defs prefix_defs)+

lemma calm_touch: "j \<in> {providerActiveIndexKey, userActiveIndexKey} \<Longrightarrow>
    calm (wait_key k i) a b w (touchActiveIndexAt j n t w)"
  by (rule calm.R_touch) (auto intro: keeps_other)

lemma calm_refresh:
  "calm (wait_key k i) a b w (refreshProviderActiveIndex c n w)" "calm (wait_key k i) a b w (refreshUserActiveIndex c n w)"
  unfolding refreshProviderActiveIndex_def refreshUserActiveIndex_def
  by (rule calm.R_refreshActiveIndex; simp add: keeps_other kind_keys)+

primrec enter :: "slot_kind \<Rightarrow> concurrency_cache \<Rightarrow> int \<Rightarrow> int \<Rightarrow> world \<Rightarrow> WaitResult \<times> world" where
  "enter ProviderSlot c = EnterProviderWait (Some c)"
| "enter UserSlot c = EnterUserWait (Some c)"

primrec decrement :: "slot_kind \<Rightarrow> concurrency_cache \<Rightarrow> int \<Rightarrow> world \<Rightarrow> unit option \<times> world" where
  "decrement ProviderSlot c i = DecrementProviderWaitCount c i"
| "decrement UserSlot c i = DecrementWaitCount c i"

text \<open>The increment, from the state in which it is served.\<close>

lemma increment_counter:
  fixes c m k i
  defines "inc \<equiv> (\<lambda>r. incrementWaitScript (wait_key k i) m (waitQueueTTLSeconds c) r)"
  assumes "0 < waitQueueTTLSeconds c"
  shows "fst (fst (inc r)) = 1 \<Longrightarrow> counter (wait_key k i) (snd (inc r)) = counter (wait_key k i) r + 1 \<and> counter (wait_key k i) r < m"
    and "fst (fst (inc r)) = 0 \<Longrightarrow> snd (inc r) = r"
    and "fst (fst (inc r)) \<in> {0, 1}"
    and "quiet (wait_key k i) start finish \<lparr>wd_redis = r, wd_events = es\<rparr> \<Longrightarrow> finish \<le> start + 1000 * waitQueueTTLSeconds c \<Longrightarrow>
      quiet (wait_key k i) start finish \<lparr>wd_redis = snd (inc r), wd_events = es\<rparr>"
  using assms(2)
  by (auto simp: inc_def incrementWaitScript_def Let_def GET_def counter_def EXPIRE_def PEXPIRE_def EXISTS_def INCR_def
    quiet_def)

lemma decrement_counter:
  "counter k (snd (decrementWaitScript k r)) = (if 0 < counter k r then counter k r - 1 else counter k r)"
  "quiet k start finish \<lparr>wd_redis = r, wd_events = es\<rparr> \<Longrightarrow>
    quiet k start finish \<lparr>wd_redis = snd (decrementWaitScript k r), wd_events = es\<rparr>"
  by (auto simp: decrementWaitScript_def GET_def counter_def DECR_def quiet_def Let_def split: option.splits)

text \<open>The state of a group of requests that use one queue: the world, and how many wait and are counted.\<close>

datatype wait_action = Enter int | Leave

fun wait_step :: "slot_kind \<Rightarrow> concurrency_cache \<Rightarrow> int \<Rightarrow> wait_action \<Rightarrow> world \<times> nat \<Rightarrow> world \<times> nat" where
  "wait_step k c i (Enter m) (w, n) =
     (let (result, w) = enter k c i m w in (w, if Ownership result = WaitCounted then n + 1 else n))"
| "wait_step k c i Leave (w, n) =
     (case n of
        0 \<Rightarrow> (w, 0)
      | Suc n \<Rightarrow> (leave_wait (decrement k c i) \<lparr>Allowed = True, Ownership = WaitCounted, resource = True\<rparr> w, n))"

definition covered :: "slot_kind \<Rightarrow> int \<Rightarrow> int \<Rightarrow> int \<Rightarrow> int \<Rightarrow> world \<times> nat \<Rightarrow> bool" where
  "covered k i bound start finish s \<longleftrightarrow> quiet (wait_key k i) start finish (fst s) \<and>
     int (snd s) \<le> counter (wait_key k i) (wd_redis (fst s)) \<and> counter (wait_key k i) (wd_redis (fst s)) \<le> bound"

lemma same_script: "incrementProviderWaitScript = incrementWaitScript"
  by (intro ext) (simp add: incrementProviderWaitScript_def incrementWaitScript_def)

lemma increments:
  "IncrementWaitCount c i m = (\<lambda>w.
     try_then (roundtrip (incrementWaitScript (wait_key UserSlot i) m (waitQueueTTLSeconds c)) w)
       (\<lambda>(result, now) w. (Some (result = 1),
          if result = 1 then touchActiveIndexAt userActiveIndexKey i (now + waitQueueTTLSeconds c) w else w)))"
  "IncrementProviderWaitCount c i m = (\<lambda>w.
     try_then (roundtrip (incrementWaitScript (wait_key ProviderSlot i) m (waitQueueTTLSeconds c)) w)
       (\<lambda>(result, now) w. (Some (result = 1),
          if result = 1 then touchActiveIndexAt providerActiveIndexKey i (now + waitQueueTTLSeconds c) w else w)))"
  by (intro ext; simp add: IncrementWaitCount_def IncrementProviderWaitCount_def same_script)+

lemma covered_touch:
  assumes "covered k i bound start finish (w, n)" and "j \<in> {providerActiveIndexKey, userActiveIndexKey}"
  shows "covered k i bound start finish (touchActiveIndexAt j x t w, n)"
  using assms(1) calm_touch [OF assms(2), of k i start finish w x t] by (simp add: covered_def calm_def)

lemma enter_covered:
  assumes cov: "covered k i bound start finish (w, n)" and ttl: "0 < waitQueueTTLSeconds c" and m: "m \<le> bound"
    and fin: "finish \<le> start + 1000 * waitQueueTTLSeconds c"
    and j: "j \<in> {providerActiveIndexKey, userActiveIndexKey}"
    and e: "enterWait (\<lambda>w. try_then (roundtrip (incrementWaitScript (wait_key k i) m (waitQueueTTLSeconds c)) w)
       (\<lambda>(result, now) w. (Some (result = 1),
          if result = 1 then touchActiveIndexAt j i (now + waitQueueTTLSeconds c) w else w))) w = (res, w')"
  shows "covered k i bound start finish (w', if Ownership res = WaitCounted then n + 1 else n)"
proof -
  let ?f = "incrementWaitScript (wait_key k i) m (waitQueueTTLSeconds c)"
  have q: "quiet (wait_key k i) start finish w" and lo: "int n \<le> counter (wait_key k i) (wd_redis w)"
    and hi: "counter (wait_key k i) (wd_redis w) \<le> bound" using cov by (simp_all add: covered_def)
  obtain r es where r: "quiet (wait_key k i) start finish \<lparr>wd_redis = r, wd_events = es\<rparr>"
    "rd_values r (wait_key k i) = rd_values (wd_redis w) (wait_key k i)"
    and rt: "roundtrip ?f w \<in> {(Some (fst (?f r)), \<lparr>wd_redis = snd (?f r), wd_events = es\<rparr>),
      (None, \<lparr>wd_redis = snd (?f r), wd_events = es\<rparr>), (None, \<lparr>wd_redis = r, wd_events = es\<rparr>)}"
    using quiet_roundtrip [OF q, of ?f] by blast
  note ic = increment_counter [OF ttl, where k = k and i = i and m = m and r = r]
  have cnt: "counter (wait_key k i) r = counter (wait_key k i) (wd_redis w)" using r(2) by (simp add: counter_def)
  have q2: "quiet (wait_key k i) start finish \<lparr>wd_redis = snd (?f r), wd_events = es\<rparr>" by (rule ic(4) [OF r(1) fin])
  have served: "covered k i bound start finish (\<lparr>wd_redis = snd (?f r), wd_events = es\<rparr>, if fst (fst (?f r)) = 1 then n + 1 else n)"
    using ic(1,2,3) q2 lo hi m cnt by (auto simp: covered_def)
  then have unconf: "covered k i bound start finish (\<lparr>wd_redis = snd (?f r), wd_events = es\<rparr>, n)"
    by (auto simp: covered_def split: if_splits)
  have lost: "covered k i bound start finish (\<lparr>wd_redis = r, wd_events = es\<rparr>, n)"
    using r(1) lo hi cnt by (simp add: covered_def)
  obtain a t where a: "fst (?f r) = (a, t)" by force
  show ?thesis
  proof (cases "fst (roundtrip ?f w) = None")
    case True
    then show ?thesis using e rt unconf lost by (auto simp: enterWait_def try_then_def)
  next
    case False
    then have "roundtrip ?f w = (Some (a, t), \<lparr>wd_redis = snd (?f r), wd_events = es\<rparr>)" using rt a by auto
    then show ?thesis
      using e served a covered_touch [OF _ j] by (auto simp: enterWait_def try_then_def split: if_splits)
  qed
qed


lemma leave_covered:
  assumes cov: "covered k i bound start finish (w, Suc n)"
    and j: "\<And>w. calm (wait_key k i) start finish w (upkeep w)"
  shows "covered k i bound start finish
    (snd (try_then (roundtrip (decrementWaitScript (wait_key k i)) w) (\<lambda>_ w. (Some (), upkeep w))), n)"
proof -
  let ?f = "decrementWaitScript (wait_key k i)"
  have q: "quiet (wait_key k i) start finish w" and lo: "int (Suc n) \<le> counter (wait_key k i) (wd_redis w)"
    and hi: "counter (wait_key k i) (wd_redis w) \<le> bound" using cov by (simp_all add: covered_def)
  obtain r es where r: "quiet (wait_key k i) start finish \<lparr>wd_redis = r, wd_events = es\<rparr>"
    "rd_values r (wait_key k i) = rd_values (wd_redis w) (wait_key k i)"
    and rt: "roundtrip ?f w \<in> {(Some (fst (?f r)), \<lparr>wd_redis = snd (?f r), wd_events = es\<rparr>),
      (None, \<lparr>wd_redis = snd (?f r), wd_events = es\<rparr>), (None, \<lparr>wd_redis = r, wd_events = es\<rparr>)}"
    using quiet_roundtrip [OF q, of ?f] by blast
  have cnt: "counter (wait_key k i) r = counter (wait_key k i) (wd_redis w)" using r(2) by (simp add: counter_def)
  have served: "covered k i bound start finish (\<lparr>wd_redis = snd (?f r), wd_events = es\<rparr>, n)"
    using decrement_counter(1) [of "wait_key k i" r] decrement_counter(2) [OF r(1)] lo hi cnt by (simp add: covered_def)
  have lost: "covered k i bound start finish (\<lparr>wd_redis = r, wd_events = es\<rparr>, n)"
    using r(1) lo hi cnt by (simp add: covered_def)
  have "covered k i bound start finish (upkeep \<lparr>wd_redis = snd (?f r), wd_events = es\<rparr>, n)"
    using served j [of "\<lparr>wd_redis = snd (?f r), wd_events = es\<rparr>"] by (simp add: covered_def calm_def)
  then show ?thesis using rt served lost by (auto simp: try_then_def)
qed

lemma decrements:
  "DecrementWaitCount c i w = try_then (roundtrip (decrementWaitScript (wait_key UserSlot i)) w)
    (\<lambda>_ w. (Some (), refreshUserActiveIndex c i w))"
  "DecrementProviderWaitCount c i w = try_then (roundtrip (decrementWaitScript (wait_key ProviderSlot i)) w)
    (\<lambda>_ w. (Some (), refreshProviderActiveIndex c i w))"
  by (simp_all add: DecrementWaitCount_def DecrementProviderWaitCount_def)

lemma step_covered:
  assumes "covered k i bound start finish s" and ttl: "0 < waitQueueTTLSeconds c" and "\<forall>m. a = Enter m \<longrightarrow> m \<le> bound"
    and "finish \<le> start + 1000 * waitQueueTTLSeconds c"
  shows "covered k i bound start finish (wait_step k c i a s)"
proof (cases a)
  case (Enter m)
  obtain w n where s: "s = (w, n)" by force
  obtain res w' where e: "enter k c i m w = (res, w')" by force
  have "covered k i bound start finish (w', if Ownership res = WaitCounted then n + 1 else n)"
  proof (cases k)
    case ProviderSlot
    with e show ?thesis
      using enter_covered [OF assms(1) [unfolded s ProviderSlot] ttl, of m providerActiveIndexKey res w'] assms(3,4) Enter
      by (simp add: EnterProviderWait_def increments(2) del: wait_key.simps cong: if_cong)
  next
    case UserSlot
    with e show ?thesis
      using enter_covered [OF assms(1) [unfolded s UserSlot] ttl, of m userActiveIndexKey res w'] assms(3,4) Enter
      by (simp add: EnterUserWait_def increments(1) del: wait_key.simps cong: if_cong)
  qed
  with Enter s e show ?thesis by simp
next
  case Leave
  obtain w n where s: "s = (w, n)" by force
  show ?thesis
  proof (cases n)
    case (Suc n')
    have cov: "covered k i bound start finish (w, Suc n')" using assms(1) s Suc by simp
    show ?thesis
      using leave_covered [OF cov, of "refreshProviderActiveIndex c i"] leave_covered [OF cov, of "refreshUserActiveIndex c i"]
        calm_refresh Leave s Suc
      by (cases k) (simp_all add: leave_wait_def decrements del: wait_key.simps)
  qed (use Leave s assms(1) in simp)
qed

text \<open>
  C26: As long as the key of a queue cannot expire, its counter is at least the number of requests that
  wait and were counted, and at most the bound, whatever increments, decrements and answers are lost.
\<close>

theorem wait_counter_covers_waiters:
  assumes "quiet (wait_key k i) start finish w" and "rd_values (wd_redis w) (wait_key k i) = None"
    and "\<forall>m. Enter m \<in> set acts \<longrightarrow> m \<le> bound" and "0 \<le> bound"
    and "0 < waitQueueTTLSeconds c" and "finish \<le> start + 1000 * waitQueueTTLSeconds c"
    and "fold (wait_step k c i) acts (w, 0) = (w', n)"
  shows "int n \<le> counter (wait_key k i) (wd_redis w') \<and> counter (wait_key k i) (wd_redis w') \<le> bound"
proof -
  have "covered k i bound start finish (w, 0)" using assms(1,2,4) by (simp add: covered_def counter_def)
  then have "covered k i bound start finish (fold (wait_step k c i) acts (w, 0))"
    using assms(3)
  proof (induction acts arbitrary: w rule: rev_induct)
    case (snoc a acts)
    then show ?case using step_covered [OF _ assms(5) _ assms(6)] by simp
  qed simp
  then show ?thesis using assms(7) by (simp add: covered_def)
qed


theorem wait_counter_covers_waiters_witness:
  "let c = NewConcurrencyCache 1 0; w = \<lparr>wd_redis = empty_redis 0, wd_events = [Event [] 100 Unconfirmed, Event [] 5 Served]\<rparr>
   in \<exists>w'. fold (wait_step UserSlot c 3) [Enter 2, Enter 2, Enter 2] (w, 0) = (w', 1) \<and>
        1 \<le> counter (wait_key UserSlot 3) (wd_redis w') \<and> counter (wait_key UserSlot 3) (wd_redis w') \<le> 2"
proof -
  let ?c = "NewConcurrencyCache 1 0"
  let ?w = "\<lparr>wd_redis = empty_redis 0, wd_events = [Event [] 100 Unconfirmed, Event [] 5 Served]\<rparr>"
  have ttl: "waitQueueTTLSeconds ?c = 60" by (simp add: NewConcurrencyCache_def)
  have q: "quiet (wait_key UserSlot 3) 0 60000 ?w" by (simp add: quiet_def empty_redis_def)
  have run: "fold (wait_step UserSlot ?c 3) [Enter 2, Enter 2, Enter 2] (?w, 0) =
      (fst (fold (wait_step UserSlot ?c 3) [Enter 2, Enter 2, Enter 2] (?w, 0)), 1)"
    by (simp add: EnterUserWait_def enterWait_def IncrementWaitCount_def try_then_def roundtrip_def incrementWaitScript_def
      GET_def INCR_def EXPIRE_def PEXPIRE_def EXISTS_def Let_def tick_def expired_def empty_redis_def ttl
      touchActiveIndexAt_def send_def TIME_def ZADD_def put_zset_def key_defs prefix_defs itoa_def)
  have "rd_values (wd_redis ?w) (wait_key UserSlot 3) = None" by (simp add: empty_redis_def)
  from wait_counter_covers_waiters [OF q this _ _ _ _ run, of 2] run show ?thesis
    unfolding Let_def by (auto simp: ttl)
qed

end
