(* ===== verification/Rpm.thy ===== *)
theory Rpm
  imports Redis_Quiet App_Error
begin

text \<open>
  Requests per minute: the counters in Redis (\<^verbatim>\<open>scheduler/rediscache/user_rpm_cache.go\<close> and
  \<^verbatim>\<open>rpm_cache.go\<close>), the admission of users and groups (\<^verbatim>\<open>scheduler/rpm_admission.go\<close>) and the soft limit
  of providers (\<^verbatim>\<open>scheduler/provider_rpm.go\<close>, \<^verbatim>\<open>scheduler/policy/rpm.go\<close>). A counter belongs to one
  minute of the Redis clock; every failure of Redis lets a request pass.
\<close>

section \<open>Counters of users and groups\<close>

definition userGroupRPMKeyPrefix :: string where "userGroupRPMKeyPrefix = ''rpm:ug:''"
definition userRPMKeyPrefix :: string where "userRPMKeyPrefix = ''rpm:u:''"
definition userRPMKeyTTL :: int where "userRPMKeyTTL = 120"

definition minuteTS :: "world \<Rightarrow> int option \<times> world" where
  "minuteTS w = try_then (server_time w) (\<lambda>t w. (Some (quot64 t 60), w))"

definition atomicIncr :: "string \<Rightarrow> world \<Rightarrow> int option \<times> world" where
  "atomicIncr key = roundtrip (\<lambda>r. let (v, r) = INCR key r in (v, EXPIRE key userRPMKeyTTL r))"

definition user_group_key :: "int \<Rightarrow> int \<Rightarrow> int \<Rightarrow> string" where
  "user_group_key userID groupID mts =
     userGroupRPMKeyPrefix @ itoa userID @ '':'' @ itoa groupID @ '':'' @ itoa mts"

definition user_rpm_key :: "int \<Rightarrow> int \<Rightarrow> string" where
  "user_rpm_key userID mts = userRPMKeyPrefix @ itoa userID @ '':'' @ itoa mts"

definition IncrementUserGroupRPM :: "int \<Rightarrow> int \<Rightarrow> world \<Rightarrow> int option \<times> world" where
  "IncrementUserGroupRPM userID groupID w =
     try_then (minuteTS w) (\<lambda>mts. atomicIncr (user_group_key userID groupID mts))"

definition IncrementUserRPM :: "int \<Rightarrow> world \<Rightarrow> int option \<times> world" where
  "IncrementUserRPM userID w = try_then (minuteTS w) (\<lambda>mts. atomicIncr (user_rpm_key userID mts))"

definition read_count :: "string \<Rightarrow> world \<Rightarrow> int option \<times> world" where
  "read_count key = roundtrip (\<lambda>r. (case GET key r of None \<Rightarrow> 0 | Some val \<Rightarrow> val, r))"

definition GetUserGroupRPM :: "int \<Rightarrow> int \<Rightarrow> world \<Rightarrow> int option \<times> world" where
  "GetUserGroupRPM userID groupID w =
     try_then (minuteTS w) (\<lambda>mts. read_count (user_group_key userID groupID mts))"

definition GetUserRPM :: "int \<Rightarrow> world \<Rightarrow> int option \<times> world" where
  "GetUserRPM userID w = try_then (minuteTS w) (\<lambda>mts. read_count (user_rpm_key userID mts))"

section \<open>Admission\<close>

definition ErrGroupRPMExceeded :: go_error where
  "ErrGroupRPMExceeded = TooManyRequests ''GROUP_RPM_EXCEEDED'' ''group requests-per-minute limit exceeded''"
definition ErrUserRPMExceeded :: go_error where
  "ErrUserRPMExceeded = TooManyRequests ''USER_RPM_EXCEEDED'' ''user requests-per-minute limit exceeded''"

record RPMUser =
  ru_ID :: int
  ru_RPMLimit :: int
  UserGroupRPMOverride :: "int option"

record RPMGroup =
  rg_ID :: int
  rg_RPMLimit :: int

text \<open>
  The repository of overrides is a function of user and group; \<open>None\<close> is its error, \<open>Some None\<close> no
  override. The result is the error \<open>Check\<close> returns, if any.
\<close>

type_synonym RPMOverrides = "int \<Rightarrow> int \<Rightarrow> int option option"

definition group_check :: "RPMOverrides option \<Rightarrow> RPMUser \<Rightarrow> RPMGroup \<Rightarrow> world \<Rightarrow> go_error option \<times> world" where
  "group_check overrides user grp w =
     (let override =
        (case UserGroupRPMOverride user of
           Some v \<Rightarrow> Some v
         | None \<Rightarrow>
             (case overrides of
                None \<Rightarrow> None
              | Some get \<Rightarrow> (case get (ru_ID user) (rg_ID grp) of None \<Rightarrow> None | Some dbOverride \<Rightarrow> dbOverride)))
      in case override of
           Some limit \<Rightarrow>
             if limit > 0 then
               (case IncrementUserGroupRPM (ru_ID user) (rg_ID grp) w of
                  (None, w) \<Rightarrow> (None, w)
                | (Some cnt, w) \<Rightarrow> (if cnt > limit then Some ErrGroupRPMExceeded else None, w))
             else (None, w)
         | None \<Rightarrow>
             if rg_RPMLimit grp > 0 then
               (case IncrementUserGroupRPM (ru_ID user) (rg_ID grp) w of
                  (None, w) \<Rightarrow> (None, w)
                | (Some cnt, w) \<Rightarrow> (if cnt > rg_RPMLimit grp then Some ErrGroupRPMExceeded else None, w))
             else (None, w))"

definition user_check :: "RPMUser \<Rightarrow> world \<Rightarrow> go_error option \<times> world" where
  "user_check user w =
     (if ru_RPMLimit user > 0 then
        (case IncrementUserRPM (ru_ID user) w of
           (None, w) \<Rightarrow> (None, w)
         | (Some cnt, w) \<Rightarrow> (if cnt > ru_RPMLimit user then Some ErrUserRPMExceeded else None, w))
      else (None, w))"

definition Check ::
  "bool \<Rightarrow> RPMOverrides option \<Rightarrow> RPMUser option \<Rightarrow> RPMGroup option \<Rightarrow> world \<Rightarrow> go_error option \<times> world" where
  "Check cache overrides user grp w =
     (if \<not> cache then (None, w)
      else
        case user of
          None \<Rightarrow> (None, w)
        | Some user \<Rightarrow>
            (case grp of
               None \<Rightarrow> user_check user w
             | Some grp \<Rightarrow>
                 (case group_check overrides user grp w of
                    (Some e, w) \<Rightarrow> (Some e, w)
                  | (None, w) \<Rightarrow> user_check user w)))"

section \<open>Providers\<close>

datatype RPMAllowance = RPMAllowed | RPMStickyOnly | RPMBlocked

definition CheckRPM :: "int \<Rightarrow> int \<Rightarrow> int \<Rightarrow> string \<Rightarrow> RPMAllowance" where
  "CheckRPM current base buffer strategy =
     (if base \<le> 0 \<or> current < base then RPMAllowed
      else if strategy = ''sticky_exempt'' then RPMStickyOnly
      else if current < wrap64 (base + buffer) then RPMStickyOnly
      else RPMBlocked)"

definition RPMStickyBuffer :: "int \<Rightarrow> int \<Rightarrow> int \<Rightarrow> int \<Rightarrow> int" where
  "RPMStickyBuffer base concurrency sessions override =
     (if override > 0 then override
      else if base \<le> 0 then 0
      else
        let concurrency = (if concurrency < 0 then 0 else concurrency);
            sessions = (if sessions < 0 then 0 else sessions);
            buffer = wrap64 (concurrency + sessions);
            floor = quot64 base 5;
            floor = (if floor < 1 then 1 else floor)
        in if buffer < floor then floor else buffer)"

definition rpmKeyPrefix :: string where "rpmKeyPrefix = ''rpm:''"
definition rpmKeyTTL :: int where "rpmKeyTTL = 120"

definition currentMinuteKey :: "int \<Rightarrow> world \<Rightarrow> string option \<times> world" where
  "currentMinuteKey providerID w =
     try_then (server_time w) (\<lambda>t w. (Some (rpmKeyPrefix @ itoa providerID @ '':'' @ itoa (quot64 t 60)), w))"

definition currentMinuteSuffix :: "world \<Rightarrow> string option \<times> world" where
  "currentMinuteSuffix w = try_then (server_time w) (\<lambda>t w. (Some (itoa (quot64 t 60)), w))"

definition IncrementRPM :: "int \<Rightarrow> world \<Rightarrow> int option \<times> world" where
  "IncrementRPM providerID w =
     try_then (currentMinuteKey providerID w) (\<lambda>key.
       roundtrip (\<lambda>r. let (v, r) = INCR key r in (v, EXPIRE key rpmKeyTTL r)))"

definition GetRPM :: "int \<Rightarrow> world \<Rightarrow> int option \<times> world" where
  "GetRPM providerID w = try_then (currentMinuteKey providerID w) read_count"

definition GetRPMBatch :: "int list \<Rightarrow> world \<Rightarrow> (int \<rightharpoonup> int) option \<times> world" where
  "GetRPMBatch providerIDs w =
     (if providerIDs = [] then (Some Map.empty, w)
      else try_then (currentMinuteSuffix w) (\<lambda>minuteSuffix w.
        try_then (pipeline (map (\<lambda>i r. (GET (rpmKeyPrefix @ itoa i @ '':'' @ minuteSuffix) r, r)) providerIDs) w)
          (\<lambda>vals w. (Some (map_of (rev (zip providerIDs
             (map (\<lambda>v. case v of None \<Rightarrow> 0 | Some val \<Rightarrow> val) vals)))), w))))"

record ProviderRPMInput =
  pr_ID :: int
  Enabled :: bool
  Base :: int
  Buffer :: int
  Strategy :: string

text \<open>\<open>prefetched\<close> is the map that \<open>PrefetchRPM\<close> put into the context of the request, if it did.\<close>

definition PrefetchedRPM :: "(int \<rightharpoonup> int) option \<Rightarrow> int \<Rightarrow> int \<times> bool" where
  "PrefetchedRPM prefetched i =
     (case prefetched of
        None \<Rightarrow> (0, False)
      | Some v \<Rightarrow> (case v i of None \<Rightarrow> (0, False) | Some cnt \<Rightarrow> (cnt, True)))"

definition PrefetchRPM :: "(int \<rightharpoonup> int) option \<Rightarrow> bool \<Rightarrow> int list \<Rightarrow> world \<Rightarrow> (int \<rightharpoonup> int) option \<times> world" where
  "PrefetchRPM prefetched cache ids w =
     (if \<not> cache \<or> ids = [] then (prefetched, w)
      else case GetRPMBatch ids w of (None, w) \<Rightarrow> (prefetched, w) | (Some counts, w) \<Rightarrow> (Some counts, w))"

definition AllowProviderRPM :: "(int \<rightharpoonup> int) option \<Rightarrow> bool \<Rightarrow> ProviderRPMInput \<Rightarrow> bool \<Rightarrow> world \<Rightarrow> bool \<times> world" where
  "AllowProviderRPM prefetched cache input sticky w =
     (if \<not> Enabled input \<or> Base input \<le> 0 then (True, w)
      else
        let (current, found) = PrefetchedRPM prefetched (pr_ID input);
            (current, w) =
              (if \<not> found \<and> cache
               then (case GetRPM (pr_ID input) w of (None, w) \<Rightarrow> (current, w) | (Some cnt, w) \<Rightarrow> (cnt, w))
               else (current, w))
        in (case CheckRPM current (Base input) (Buffer input) (Strategy input) of
              RPMAllowed \<Rightarrow> True
            | RPMStickyOnly \<Rightarrow> sticky
            | RPMBlocked \<Rightarrow> False, w))"

definition IncrementProviderRPM :: "bool \<Rightarrow> int \<Rightarrow> world \<Rightarrow> unit option \<times> world" where
  "IncrementProviderRPM cache i w =
     (if \<not> cache then (Some (), w) else try_then (IncrementRPM i w) (\<lambda>_ w. (Some (), w)))"


section \<open>A user is never admitted more often than its limit\<close>

text \<open>The rounds of one user: which group each of its requests is for. The result counts admissions.\<close>

fun admissions :: "RPMOverrides option \<Rightarrow> (RPMUser \<times> RPMGroup option) list \<Rightarrow> world \<Rightarrow> nat \<times> world" where
  "admissions overrides [] w = (0, w)"
| "admissions overrides ((user, grp) # rest) w =
     (let (result, w) = Check True overrides (Some user) grp w;
          (n, w) = admissions overrides rest w
      in (if result = None then n + 1 else n, w))"

lemma keeps_INCR: "x \<noteq> k \<Longrightarrow> keeps k (\<lambda>r. snd (let (v, r) = INCR x r in (v, EXPIRE x t r)))"
  by (auto simp: keeps_def INCR_def EXPIRE_def PEXPIRE_def DEL_def Let_def)

lemma calm_minute: "calm k a b w (snd (minuteTS w))"
  unfolding minuteTS_def by (rule calm.R_try_then) (simp_all add: calm.R_time calm.R_refl)

lemma calm_group_increment:
  "calm (user_rpm_key u t) a b w (snd (IncrementUserGroupRPM u' g w))"
  unfolding IncrementUserGroupRPM_def atomicIncr_def
  by (rule calm.R_try_then [OF calm_minute calm.R_roundtrip [OF keeps_INCR]])
     (simp add: user_rpm_key_def user_group_key_def userGroupRPMKeyPrefix_def userRPMKeyPrefix_def)

lemma calm_group_check: "calm (user_rpm_key u t) a b w (snd (group_check overrides user grp w))"
  using calm_group_increment [of u t a b w "ru_ID user" "rg_ID grp"]
  by (auto simp: group_check_def Let_def calm.R_refl split: option.splits prod.splits)

text \<open>All clocks of a quiet world lie in one minute.\<close>

definition in_minute :: "int \<Rightarrow> int \<Rightarrow> int \<Rightarrow> bool" where
  "in_minute t start finish \<longleftrightarrow> 0 \<le> t \<and> 60000 * t \<le> start \<and> finish < 60000 * (t + 1)"

lemma minute_of:
  assumes "in_minute t start finish" and "start \<le> c" and "c \<le> finish"
  shows "quot64 (c div 1000) 60 = t"
proof -
  have "c div 1000 div 60 = c div 60000" by (simp add: zdiv_zmult2_eq)
  moreover have "c div 60000 = t"
    using assms by (intro int_div_pos_eq [of c 60000 t "c - 60000 * t"]) (auto simp: in_minute_def)
  moreover have "0 \<le> c" using assms by (simp add: in_minute_def)
  ultimately show ?thesis by (simp add: quot64_nonneg)
qed

lemma quiet_minute:
  assumes q: "quiet k start finish w" and t: "in_minute t start finish"
  shows "fst (minuteTS w) \<in> {None, Some t}"
    and "faulty (snd (minuteTS w)) + (if fst (minuteTS w) = None then 1 else 0) \<le> faulty w"
proof -
  obtain r es where r: "quiet k start finish \<lparr>wd_redis = r, wd_events = es\<rparr>"
    and "roundtrip (\<lambda>r. (TIME r, r)) w \<in> {(Some (fst (TIME r, r)), \<lparr>wd_redis = snd (TIME r, r), wd_events = es\<rparr>),
      (None, \<lparr>wd_redis = snd (TIME r, r), wd_events = es\<rparr>), (None, \<lparr>wd_redis = r, wd_events = es\<rparr>)}"
    using quiet_roundtrip [OF q, of "\<lambda>r. (TIME r, r)"] by blast
  then have rt: "roundtrip (\<lambda>r. (TIME r, r)) w \<in> {(Some (TIME r), \<lparr>wd_redis = r, wd_events = es\<rparr>),
      (None, \<lparr>wd_redis = r, wd_events = es\<rparr>)}" by simp
  have "quot64 (TIME r) 60 = t"
    using r t by (auto simp: quiet_def TIME_def intro!: minute_of)
  then show "fst (minuteTS w) \<in> {None, Some t}"
    using rt by (auto simp: minuteTS_def server_time_def try_then_def)
  show "faulty (snd (minuteTS w)) + (if fst (minuteTS w) = None then 1 else 0) \<le> faulty w"
    using faulty_roundtrip [of "\<lambda>r. (TIME r, r)" w]
    by (auto simp: minuteTS_def server_time_def try_then_def split: option.splits if_splits)
qed


text \<open>The user level of \<open>Check\<close>: a request passes on a failure, or with a count within the limit.\<close>

lemma incr_quiet:
  assumes "quiet k start finish \<lparr>wd_redis = r, wd_events = es\<rparr>" and "finish < start + 60000"
  shows "quiet k start finish \<lparr>wd_redis = snd (let (v, r) = INCR k r in (v, EXPIRE k userRPMKeyTTL r)), wd_events = es\<rparr>"
    and "counter k (snd (let (v, r) = INCR k r in (v, EXPIRE k userRPMKeyTTL r))) = counter k r + 1"
    and "fst (let (v, r) = INCR k r in (v, EXPIRE k userRPMKeyTTL r)) = counter k r + 1"
  using assms
  by (auto simp: quiet_def counter_def INCR_def EXPIRE_def PEXPIRE_def EXISTS_def userRPMKeyTTL_def Let_def)

lemma user_check_bound:
  assumes q: "quiet (user_rpm_key (ru_ID user) t) start finish w" and t: "in_minute t start finish"
    and L: "0 < ru_RPMLimit user" and c: "user_check user w = (result, w')"
  defines "k \<equiv> user_rpm_key (ru_ID user) t"
  shows "quiet k start finish w' \<and> counter k (wd_redis w) \<le> counter k (wd_redis w') \<and>
    (if result = None then 1 else 0) + int (faulty w') + min (counter k (wd_redis w)) (ru_RPMLimit user) \<le>
      int (faulty w) + min (counter k (wd_redis w')) (ru_RPMLimit user)"
proof -
  note q = q [folded k_def]
  obtain m w1 where m: "minuteTS w = (m, w1)" by force
  have q1: "quiet k start finish w1" and c1: "counter k (wd_redis w1) = counter k (wd_redis w)"
    using calm_minute [of k start finish w] q m by (simp_all add: calm_def)
  have f1: "faulty w1 + (if m = None then 1 else 0) \<le> faulty w" using quiet_minute(2) [OF q t] m by simp
  show ?thesis
  proof (cases m)
    case None
    then show ?thesis
      using c L m q1 c1 f1 by (auto simp: user_check_def IncrementUserRPM_def try_then_def)
  next
    case (Some t')
    have t': "t' = t" using quiet_minute(1) [OF q t] m Some by simp
    let ?f = "\<lambda>r. let (v, r) = INCR k r in (v, EXPIRE k userRPMKeyTTL r)"
    obtain r es where r: "quiet k start finish \<lparr>wd_redis = r, wd_events = es\<rparr>" "rd_values r k = rd_values (wd_redis w1) k"
      and rt: "roundtrip ?f w1 \<in> {(Some (fst (?f r)), \<lparr>wd_redis = snd (?f r), wd_events = es\<rparr>),
        (None, \<lparr>wd_redis = snd (?f r), wd_events = es\<rparr>), (None, \<lparr>wd_redis = r, wd_events = es\<rparr>)}"
      using quiet_roundtrip [OF q1, of ?f] by blast
    have "finish < start + 60000" using t by (simp add: in_minute_def)
    note i = incr_quiet [OF r(1) this]
    have cr: "counter k r = counter k (wd_redis w)" using r(2) c1 by (simp add: counter_def)
    obtain x w2 where x: "roundtrip ?f w1 = (x, w2)" by force
    have f2: "faulty w2 + (if x = None then 1 else 0) \<le> faulty w1" using faulty_roundtrip [of ?f w1] x by simp
    have w2: "quiet k start finish w2 \<and> (x = None \<and> counter k (wd_redis w2) \<in> {counter k r, counter k r + 1} \<or>
        x = Some (counter k r + 1) \<and> counter k (wd_redis w2) = counter k r + 1)"
      using rt x i r(1) by auto
    have inc: "IncrementUserRPM (ru_ID user) w = (x, w2)"
      using m Some t' x by (simp add: IncrementUserRPM_def try_then_def atomicIncr_def k_def)
    show ?thesis
      using w2 c L f1 f2 Some cr by (auto simp: user_check_def inc min_def split: if_splits)
  qed
qed

lemma Check_bound:
  assumes q: "quiet (user_rpm_key (ru_ID user) t) start finish w" and t: "in_minute t start finish"
    and L: "0 < ru_RPMLimit user" and c: "Check True overrides (Some user) grp w = (result, w')"
  defines "k \<equiv> user_rpm_key (ru_ID user) t"
  shows "quiet k start finish w' \<and> counter k (wd_redis w) \<le> counter k (wd_redis w') \<and>
    (if result = None then 1 else 0) + int (faulty w') + min (counter k (wd_redis w)) (ru_RPMLimit user) \<le>
      int (faulty w) + min (counter k (wd_redis w')) (ru_RPMLimit user)"
proof (cases grp)
  case None
  then show ?thesis using user_check_bound [OF q t L, of result w'] c by (simp add: Check_def k_def)
next
  case (Some g)
  obtain x w1 where x: "group_check overrides user g w = (x, w1)" by force
  have w1: "quiet k start finish w1" "counter k (wd_redis w1) = counter k (wd_redis w)" "faulty w1 \<le> faulty w"
    using calm_group_check [of "ru_ID user" t start finish w overrides user g] q x by (simp_all add: calm_def k_def)
  show ?thesis
  proof (cases x)
    case None
    then have "user_check user w1 = (result, w')" using c Some x by (simp add: Check_def)
    from user_check_bound [OF w1(1) [unfolded k_def] t L this] show ?thesis using w1 by (simp add: k_def)
  next
    case (Some e)
    then show ?thesis using c \<open>grp = Some g\<close> x w1 by (auto simp: Check_def)
  qed
qed

text \<open>
  C20: In one minute of the Redis clock a user with a limit is admitted at most as often as the limit
  says, plus once for every request to Redis that fails, for any groups and overrides.
\<close>

theorem user_admissions_bounded:
  assumes "quiet (user_rpm_key u t) start finish w" and "in_minute t start finish"
    and "rd_values (wd_redis w) (user_rpm_key u t) = None"
    and "0 < limit" and "\<forall>(user, g) \<in> set reqs. ru_ID user = u \<and> ru_RPMLimit user = limit"
  shows "int (fst (admissions overrides reqs w)) \<le> limit + int (faulty w)"
proof -
  let ?k = "user_rpm_key u t"
  have "int (fst (admissions overrides reqs w)) + min (counter ?k (wd_redis w)) limit \<le> limit + int (faulty w)"
    if "quiet ?k start finish w" for w
    using assms(5) that
  proof (induction reqs arbitrary: w)
    case (Cons req reqs)
    obtain user g where req: "req = (user, g)" by force
    then have u: "ru_ID user = u" "ru_RPMLimit user = limit" using Cons.prems(1) by auto
    obtain x w1 where x: "Check True overrides (Some user) g w = (x, w1)" by force
    have step: "quiet ?k start finish w1"
      "(if x = None then 1 else 0) + int (faulty w1) + min (counter ?k (wd_redis w)) limit \<le>
        int (faulty w) + min (counter ?k (wd_redis w1)) limit"
      using Check_bound [of user t start finish w overrides g x w1] Cons.prems(2) assms(2,4) x u by simp_all
    have "int (fst (admissions overrides reqs w1)) + min (counter ?k (wd_redis w1)) limit \<le> limit + int (faulty w1)"
      using Cons.IH [OF _ step(1)] Cons.prems(1) by simp
    with step(2) show ?case by (auto simp: req x split: prod.splits if_splits)
  qed simp
  from this [OF assms(1)] show ?thesis using assms(3,4) by (simp add: counter_def)
qed

theorem user_admissions_bounded_witness:
  "let u = \<lparr>ru_ID = 7, ru_RPMLimit = 1, UserGroupRPMOverride = None\<rparr>;
       w = \<lparr>wd_redis = empty_redis 5, wd_events = [Event [] 10 Served, Event [] 10 Lost]\<rparr>
   in fst (admissions None [(u, None), (u, None), (u, None)] w) = 2 \<and>
      int (fst (admissions None [(u, None), (u, None), (u, None)] w)) \<le> 1 + int (faulty w)"
proof -
  let ?u = "\<lparr>ru_ID = 7, ru_RPMLimit = 1, UserGroupRPMOverride = None\<rparr>"
  let ?w = "\<lparr>wd_redis = empty_redis 5, wd_events = [Event [] 10 Served, Event [] 10 Lost]\<rparr>"
  have q: "quiet (user_rpm_key 7 0) 0 59999 ?w" by (simp add: quiet_def empty_redis_def)
  have "int (fst (admissions None [(?u, None), (?u, None), (?u, None)] ?w)) \<le> 1 + int (faulty ?w)"
    by (rule user_admissions_bounded [OF q]) (simp_all add: in_minute_def empty_redis_def)
  moreover have "fst (admissions None [(?u, None), (?u, None), (?u, None)] ?w) = 2"
    by (simp add: Check_def user_check_def IncrementUserRPM_def minuteTS_def server_time_def atomicIncr_def try_then_def
      roundtrip_def TIME_def tick_def expired_def empty_redis_def INCR_def EXPIRE_def PEXPIRE_def EXISTS_def Let_def
      userRPMKeyTTL_def quot64_def user_rpm_key_def userRPMKeyPrefix_def)
  ultimately show ?thesis by (simp add: Let_def)
qed

end
