(* ===== verification/Sticky.thy ===== *)
theory Sticky
  imports Redis
begin

text \<open>
  Sticky sessions (\<^verbatim>\<open>scheduler/sticky.go\<close>) on their Redis cache (\<^verbatim>\<open>scheduler/rediscache/sticky.go\<close>): a
  session hash is bound to a provider for a time; during the migration of hashes the older hash is
  read as a fallback and written as well.
\<close>

section \<open>The cache\<close>

definition stickySessionPrefix :: string where "stickySessionPrefix = ''sticky_session:''"
definition stickySessionOwnerPrefix :: string where "stickySessionOwnerPrefix = ''sticky_session_owner:''"

definition buildSessionKey :: "int \<Rightarrow> string \<Rightarrow> string" where
  "buildSessionKey groupID sessionHash = stickySessionPrefix @ itoa groupID @ '':'' @ sessionHash"

definition buildSessionOwnerKey :: "int \<Rightarrow> string \<Rightarrow> string \<Rightarrow> string" where
  "buildSessionOwnerKey userID source sessionHash =
     stickySessionOwnerPrefix @ itoa userID @ '':'' @ source @ '':'' @ sessionHash"

text \<open>
  \<open>SET\<close> and \<open>EXPIRE\<close> as the Redis client of Go sends them: a positive duration is an expiry in whole
  milliseconds or seconds, at least one; the duration of -1 keeps the deadline there is.
\<close>

definition set_for :: "string \<Rightarrow> int \<Rightarrow> duration \<Rightarrow> redis \<Rightarrow> redis" where
  "set_for key v ttl r =
     (if 0 < ttl then PEXPIRE key (max 1 (ttl div millisecond)) (SETV key v r)
      else if ttl = -1 then (SETV key v r)\<lparr>rd_deadline := rd_deadline r\<rparr>
      else SETV key v r)"

definition expire_for :: "string \<Rightarrow> duration \<Rightarrow> redis \<Rightarrow> redis" where
  "expire_for key ttl = EXPIRE key (if 0 < ttl \<and> ttl < second then 1 else quot64 ttl second)"

text \<open>A value and whether there was an error; a missing key is an error.\<close>

definition get_int :: "string \<Rightarrow> world \<Rightarrow> (int \<times> bool) \<times> world" where
  "get_int key w =
     (case roundtrip (\<lambda>r. (GET key r, r)) w of
        (Some (Some v), w) \<Rightarrow> ((v, False), w)
      | (_, w) \<Rightarrow> ((0, True), w))"

definition GetSessionProviderID :: "int \<Rightarrow> string \<Rightarrow> world \<Rightarrow> (int \<times> bool) \<times> world" where
  "GetSessionProviderID groupID sessionHash = get_int (buildSessionKey groupID sessionHash)"

definition SetSessionProviderID :: "int \<Rightarrow> string \<Rightarrow> int \<Rightarrow> duration \<Rightarrow> world \<Rightarrow> unit option \<times> world" where
  "SetSessionProviderID groupID sessionHash providerID ttl =
     send (set_for (buildSessionKey groupID sessionHash) providerID ttl)"

definition RefreshSessionTTL :: "int \<Rightarrow> string \<Rightarrow> duration \<Rightarrow> world \<Rightarrow> unit option \<times> world" where
  "RefreshSessionTTL groupID sessionHash ttl = send (expire_for (buildSessionKey groupID sessionHash) ttl)"

definition DeleteSessionProviderID :: "int \<Rightarrow> string \<Rightarrow> world \<Rightarrow> unit option \<times> world" where
  "DeleteSessionProviderID groupID sessionHash = send (DEL (buildSessionKey groupID sessionHash))"

definition SetSessionOwnerGroupID :: "int \<Rightarrow> string \<Rightarrow> string \<Rightarrow> int \<Rightarrow> duration \<Rightarrow> world \<Rightarrow> bool option \<times> world" where
  "SetSessionOwnerGroupID userID source sessionHash groupID ttl =
     roundtrip (\<lambda>r. let key = buildSessionOwnerKey userID source sessionHash
       in if EXISTS key r then (False, r) else (True, set_for key groupID ttl r))"

definition GetSessionOwnerGroupID :: "int \<Rightarrow> string \<Rightarrow> string \<Rightarrow> world \<Rightarrow> (int \<times> bool) \<times> world" where
  "GetSessionOwnerGroupID userID source sessionHash = get_int (buildSessionOwnerKey userID source sessionHash)"

definition RefreshSessionOwnerTTL :: "int \<Rightarrow> string \<Rightarrow> string \<Rightarrow> duration \<Rightarrow> world \<Rightarrow> unit option \<times> world" where
  "RefreshSessionOwnerTTL userID source sessionHash ttl = send (expire_for (buildSessionOwnerKey userID source sessionHash) ttl)"

section \<open>Sessions\<close>

record StickyStats =
  readFallbackTotal :: int
  readFallbackHit :: int
  dualWriteTotal :: int

definition Snapshot :: "StickyStats \<Rightarrow> int \<times> int \<times> int" where
  "Snapshot s = (readFallbackTotal s, readFallbackHit s, dualWriteTotal s)"

record StickyOptions =
  Prefix :: string
  ReadLegacy :: bool
  DualWriteLegacy :: bool
  DefaultTTL :: duration

definition SessionKey :: "StickyOptions \<Rightarrow> string \<Rightarrow> string" where
  "SessionKey s hash = (let v = trim_space hash in if v = [] then [] else Prefix s @ v)"

definition LegacyKey :: "StickyOptions \<Rightarrow> string \<Rightarrow> string \<Rightarrow> string" where
  "LegacyKey s hash legacy =
     (let v = trim_space legacy
      in if v = [] then []
         else let key = Prefix s @ v in if key = SessionKey s hash then [] else key)"

definition LegacyTTL :: "StickyOptions \<Rightarrow> duration \<Rightarrow> duration" where
  "LegacyTTL s ttl =
     (let ttl = (if ttl \<le> 0 then DefaultTTL s else ttl)
      in if ttl > 10 * minute then 10 * minute else ttl)"

text \<open>\<open>xxh\<close> and \<open>sha\<close>: the two hash functions, with their results written in hexadecimal.\<close>

definition DeriveSessionHashes :: "(string \<Rightarrow> string) \<Rightarrow> (string \<Rightarrow> string) \<Rightarrow> string \<Rightarrow> string \<times> string" where
  "DeriveSessionHashes xxh sha sessionID =
     (let normalized = trim_space sessionID
      in if normalized = [] then ([], []) else (xxh normalized, sha normalized))"

text \<open>The session is \<open>None\<close> when it or its cache is nil; counters are 64-bit.\<close>

definition sticky_Get ::
  "StickyOptions option \<Rightarrow> int \<Rightarrow> string \<Rightarrow> string \<Rightarrow> StickyStats \<times> world \<Rightarrow> (int \<times> bool) \<times> StickyStats \<times> world" where
  "sticky_Get s groupID sessionHash legacyHash st =
     (case (s, st) of
        (None, _) \<Rightarrow> ((0, False), st)
      | (Some s, stats, w) \<Rightarrow>
          let primaryKey = SessionKey s sessionHash
          in if primaryKey = [] then ((0, False), st)
             else
               let ((providerID, err), w) = GetSessionProviderID groupID primaryKey w
               in if \<not> err \<and> providerID > 0 then ((providerID, False), stats, w)
                  else if \<not> ReadLegacy s then ((providerID, err), stats, w)
                  else
                    let legacyKey = LegacyKey s sessionHash legacyHash
                    in if legacyKey = [] then ((providerID, err), stats, w)
                       else
                         let stats = stats\<lparr>readFallbackTotal := wrap64 (readFallbackTotal stats + 1)\<rparr>;
                             ((legacyProviderID, legacyErr), w) = GetSessionProviderID groupID legacyKey w
                         in if \<not> legacyErr \<and> legacyProviderID > 0
                            then ((legacyProviderID, False), stats\<lparr>readFallbackHit := wrap64 (readFallbackHit stats + 1)\<rparr>, w)
                            else ((providerID, err), stats, w))"

definition sticky_Set ::
  "StickyOptions option \<Rightarrow> int \<Rightarrow> string \<Rightarrow> string \<Rightarrow> int \<Rightarrow> duration \<Rightarrow> StickyStats \<times> world \<Rightarrow> bool \<times> StickyStats \<times> world" where
  "sticky_Set s groupID sessionHash legacyHash providerID ttl st =
     (case (s, st) of
        (None, _) \<Rightarrow> (False, st)
      | (Some s, stats, w) \<Rightarrow>
          if providerID \<le> 0 then (False, st)
          else
            let primaryKey = SessionKey s sessionHash
            in if primaryKey = [] then (False, st)
               else
                 let (reply, w) = SetSessionProviderID groupID primaryKey providerID ttl w
                 in if reply = None then (True, stats, w)
                    else if \<not> DualWriteLegacy s then (False, stats, w)
                    else
                      let legacyKey = LegacyKey s sessionHash legacyHash
                      in if legacyKey = [] then (False, stats, w)
                         else
                           let (reply, w) = SetSessionProviderID groupID legacyKey providerID (LegacyTTL s ttl) w
                           in if reply = None then (True, stats, w)
                              else (False, stats\<lparr>dualWriteTotal := wrap64 (dualWriteTotal stats + 1)\<rparr>, w))"

definition sticky_Refresh ::
  "StickyOptions option \<Rightarrow> int \<Rightarrow> string \<Rightarrow> string \<Rightarrow> duration \<Rightarrow> world \<Rightarrow> bool \<times> world" where
  "sticky_Refresh s groupID sessionHash legacyHash ttl w =
     (case s of
        None \<Rightarrow> (False, w)
      | Some s \<Rightarrow>
          let primaryKey = SessionKey s sessionHash
          in if primaryKey = [] then (False, w)
             else
               let (reply, w) = RefreshSessionTTL groupID primaryKey ttl w
               in if \<not> ReadLegacy s \<and> \<not> DualWriteLegacy s then (reply = None, w)
                  else
                    let legacyKey = LegacyKey s sessionHash legacyHash;
                        w = (if legacyKey \<noteq> [] then snd (RefreshSessionTTL groupID legacyKey (LegacyTTL s ttl) w) else w)
                    in (reply = None, w))"

definition sticky_Delete :: "StickyOptions option \<Rightarrow> int \<Rightarrow> string \<Rightarrow> string \<Rightarrow> world \<Rightarrow> bool \<times> world" where
  "sticky_Delete s groupID sessionHash legacyHash w =
     (case s of
        None \<Rightarrow> (False, w)
      | Some s \<Rightarrow>
          let primaryKey = SessionKey s sessionHash
          in if primaryKey = [] then (False, w)
             else
               let (reply, w) = DeleteSessionProviderID groupID primaryKey w
               in if \<not> ReadLegacy s \<and> \<not> DualWriteLegacy s then (reply = None, w)
                  else
                    let legacyKey = LegacyKey s sessionHash legacyHash;
                        w = (if legacyKey \<noteq> [] then snd (DeleteSessionProviderID groupID legacyKey w) else w)
                    in (reply = None, w))"


section \<open>Binding, reading, unbinding\<close>

lemma sticky_key_inject [simp]: "buildSessionKey g a = buildSessionKey g b \<longleftrightarrow> a = b"
  by (simp add: buildSessionKey_def)

text \<open>A key that is bound for a while.\<close>

definition bound_for :: "string \<Rightarrow> int \<Rightarrow> int \<Rightarrow> redis \<Rightarrow> bool" where
  "bound_for key v ms r \<longleftrightarrow> rd_values r key = Some v \<and> (\<forall>d. rd_deadline r key = Some d \<longrightarrow> rd_clock r + ms \<le> d)"

lemma bound_set_for: "0 < ttl \<Longrightarrow> bound_for key v (ttl div millisecond) (set_for key v ttl r)"
  by (auto simp: bound_for_def set_for_def PEXPIRE_def SETV_def EXISTS_def)

lemma bound_set_for_other: "key \<noteq> key' \<Longrightarrow> bound_for key v ms r \<Longrightarrow> bound_for key v ms (set_for key' v' ttl r)"
  by (auto simp: bound_for_def set_for_def PEXPIRE_def SETV_def EXISTS_def DEL_def)

lemma bound_tick: "bound_for key v n r \<Longrightarrow> int ms \<le> n \<Longrightarrow> rd_values (tick ms r) key = Some v"
  by (force simp: bound_for_def tick_def Let_def expired_def split: option.splits)

lemma get_int_served: "get_int key (served r) =
    (case rd_values r key of None \<Rightarrow> ((0, True), served r) | Some v \<Rightarrow> ((v, False), served r))"
  by (simp add: get_int_def roundtrip_def GET_def split: option.splits)

lemma set_served: "SetSessionProviderID g h p ttl (served r) = (Some (), served (set_for (buildSessionKey g h) p ttl r))"
  by (simp add: SetSessionProviderID_def send_def roundtrip_def)

lemma delete_served: "DeleteSessionProviderID g h (served r) = (Some (), served (DEL (buildSessionKey g h) r))"
  by (simp add: DeleteSessionProviderID_def send_def roundtrip_def)

lemma primary_get:
  assumes "trim_space h \<noteq> []" and "rd_values r (buildSessionKey g (SessionKey s h)) = Some p" and "0 < p"
  shows "fst (sticky_Get (Some s) g h l (st, served r)) = (p, False)"
  using assms by (simp add: sticky_Get_def GetSessionProviderID_def get_int_served SessionKey_def Let_def)

lemma div_ms: "int ms * millisecond \<le> ttl \<Longrightarrow> int ms \<le> ttl div millisecond"
  using zdiv_mono1 [of "int ms * millisecond" ttl millisecond] by (simp add: millisecond_def)

lemma legacy_ttl: "0 < ttl \<Longrightarrow> 0 < LegacyTTL s ttl \<and> LegacyTTL s ttl \<le> ttl"
  by (auto simp: LegacyTTL_def duration_defs)

text \<open>
  C32: A session bound to a provider is found again, without an error, for as long as it was bound. With
  dual writing it is found under the older hash as well, for the shorter time that applies there. After
  it was unbound the hash does not find it, through the older hash or without, and when the older hash is read or
  written at all, the older hash as a hash of its own does not find it either.
\<close>

theorem sticky_roundtrip:
  assumes "sticky_Set (Some s) g h l p ttl (st, served r) = (err, st1, served r1)"
    and "trim_space h \<noteq> []" and "0 < p" and "0 < ttl" and "int ms * millisecond \<le> ttl"
  shows "\<not> err \<and> fst (sticky_Get (Some s) g h l (st2, served (tick ms r1))) = (p, False) \<and>
    (DualWriteLegacy s \<and> trim_space l \<noteq> [] \<and> int ms * millisecond \<le> LegacyTTL s ttl \<longrightarrow>
      fst (sticky_Get (Some s) g l l' (st2, served (tick ms r1))) = (p, False)) \<and>
    (\<exists>r2. sticky_Delete (Some s) g h l (served r1) = (False, served r2) \<and>
      fst (sticky_Get (Some s) g h l (st2, served r2)) = (0, True) \<and>
      ((ReadLegacy s \<or> DualWriteLegacy s) \<and> trim_space l \<noteq> [] \<longrightarrow>
        fst (sticky_Get (Some s) g l h (st2, served r2)) = (0, True)))"
proof -
  let ?k = "buildSessionKey g (SessionKey s h)" and ?kl = "buildSessionKey g (LegacyKey s h l)"
  have pk: "SessionKey s h \<noteq> []" using assms(2) by (simp add: SessionKey_def)
  have lk: "LegacyKey s h l \<noteq> [] \<Longrightarrow> LegacyKey s h l \<noteq> SessionKey s h" by (auto simp: LegacyKey_def Let_def split: if_splits)
  have r1: "\<not> err \<and> r1 = (if DualWriteLegacy s \<and> LegacyKey s h l \<noteq> []
      then set_for ?kl p (LegacyTTL s ttl) (set_for ?k p ttl r) else set_for ?k p ttl r)"
    using assms(1,3) pk by (auto simp: sticky_Set_def set_served Let_def split: if_splits)
  have b: "bound_for ?k p (ttl div millisecond) r1"
    using r1 lk by (auto intro!: bound_set_for_other bound_set_for [OF assms(4)])
  have v: "rd_values (tick ms r1) ?k = Some p" by (rule bound_tick [OF b div_ms [OF assms(5)]])
  have get: "fst (sticky_Get (Some s) g h l (st2, served (tick ms r1))) = (p, False)"
    by (rule primary_get [OF assms(2) v assms(3)])
  have dual: "fst (sticky_Get (Some s) g l l' (st2, served (tick ms r1))) = (p, False)"
    if d: "DualWriteLegacy s" and t: "trim_space l \<noteq> []" and ms: "int ms * millisecond \<le> LegacyTTL s ttl"
  proof (rule primary_get [OF t _ assms(3)])
    show "rd_values (tick ms r1) (buildSessionKey g (SessionKey s l)) = Some p"
    proof (cases "LegacyKey s h l = []")
      case True
      then have "SessionKey s l = SessionKey s h" using t by (simp add: LegacyKey_def SessionKey_def Let_def split: if_splits)
      with v show ?thesis by simp
    next
      case False
      then have "LegacyKey s h l = SessionKey s l" using t by (simp add: LegacyKey_def SessionKey_def Let_def split: if_splits)
      moreover have "bound_for ?kl p (LegacyTTL s ttl div millisecond) r1"
        using r1 d False bound_set_for [OF conjunct1 [OF legacy_ttl [OF assms(4)]]] by simp
      ultimately show ?thesis using bound_tick [OF _ div_ms [OF ms]] by metis
    qed
  qed
  define r2 where "r2 = (if (ReadLegacy s \<or> DualWriteLegacy s) \<and> LegacyKey s h l \<noteq> [] then DEL ?kl (DEL ?k r1) else DEL ?k r1)"
  have del: "sticky_Delete (Some s) g h l (served r1) = (False, served r2)"
    using pk by (auto simp: sticky_Delete_def delete_served r2_def Let_def)
  have "rd_values r2 ?k = None" by (simp add: r2_def)
  moreover have "ReadLegacy s \<Longrightarrow> LegacyKey s h l \<noteq> [] \<Longrightarrow> rd_values r2 ?kl = None" by (simp add: r2_def)
  ultimately have gone: "fst (sticky_Get (Some s) g h l (st2, served r2)) = (0, True)"
    using pk by (simp add: sticky_Get_def GetSessionProviderID_def get_int_served Let_def)
  have older: "fst (sticky_Get (Some s) g l h (st2, served r2)) = (0, True)"
    if on: "ReadLegacy s \<or> DualWriteLegacy s" and t: "trim_space l \<noteq> []"
  proof (cases "LegacyKey s h l = []")
    case True
    then have "SessionKey s l = SessionKey s h" "LegacyKey s l h = []"
      using t by (simp_all add: LegacyKey_def SessionKey_def Let_def split: if_splits)
    then show ?thesis
      using pk by (simp add: sticky_Get_def GetSessionProviderID_def get_int_served r2_def Let_def)
  next
    case False
    then have "SessionKey s l = LegacyKey s h l" "LegacyKey s l h = SessionKey s h"
      using t assms(2) by (auto simp: LegacyKey_def SessionKey_def Let_def split: if_splits)
    then show ?thesis
      using pk on False by (simp add: sticky_Get_def GetSessionProviderID_def get_int_served r2_def Let_def)
  qed
  show ?thesis using r1 get dual del gone older by blast
qed

theorem sticky_roundtrip_witness:
  "let s = \<lparr>Prefix = ''o:'', ReadLegacy = True, DualWriteLegacy = True, DefaultTTL = hour\<rparr>;
       st = \<lparr>readFallbackTotal = 0, readFallbackHit = 0, dualWriteTotal = 0\<rparr>;
       r1 = wd_redis (snd (snd (sticky_Set (Some s) 4 '' x '' ''y'' 9 hour (st, served (empty_redis 0)))))
   in fst (sticky_Get (Some s) 4 '' x '' ''y'' (st, served (tick 1000 r1))) = (9, False) \<and>
      (\<exists>r2. sticky_Delete (Some s) 4 '' x '' ''y'' (served r1) = (False, served r2) \<and>
        fst (sticky_Get (Some s) 4 ''y'' '' x '' (st, served r2)) = (0, True))"
proof -
  let ?s = "\<lparr>Prefix = ''o:'', ReadLegacy = True, DualWriteLegacy = True, DefaultTTL = hour\<rparr>"
  let ?st = "\<lparr>readFallbackTotal = 0, readFallbackHit = 0, dualWriteTotal = 0\<rparr>"
  have t: "trim_space '' x '' = ''x''" "trim_space ''y'' = ''y''" by code_simp+
  have "\<exists>r1. snd (snd (sticky_Set (Some ?s) 4 '' x '' ''y'' 9 hour (?st, served (empty_redis 0)))) = served r1"
    by (simp add: sticky_Set_def set_served Let_def)
  then obtain r1 where r1: "snd (snd (sticky_Set (Some ?s) 4 '' x '' ''y'' 9 hour (?st, served (empty_redis 0)))) = served r1"
    by blast
  then have "sticky_Set (Some ?s) 4 '' x '' ''y'' 9 hour (?st, served (empty_redis 0)) =
      (fst (sticky_Set (Some ?s) 4 '' x '' ''y'' 9 hour (?st, served (empty_redis 0))),
       fst (snd (sticky_Set (Some ?s) 4 '' x '' ''y'' 9 hour (?st, served (empty_redis 0)))), served r1)"
    by (metis prod.collapse)
  from sticky_roundtrip [OF this, of 1000 ?st] show ?thesis
    unfolding Let_def r1 by (auto simp: t duration_defs)
qed

end
