(* ===== verification/Session_Limit.thy ===== *)
theory Session_Limit
  imports Redis
begin

text \<open>
  The limit of active sessions per provider (\<^verbatim>\<open>scheduler/rediscache/session_limit.go\<close>): a sorted set of
  session identifiers with the second of their last activity. Durations are converted to whole
  seconds, which is exact in the code below some months (it goes through a floating-point number).
\<close>

definition registerSessionScript :: "string \<Rightarrow> int \<Rightarrow> int \<Rightarrow> string \<Rightarrow> redis \<Rightarrow> int \<times> redis" where
  "registerSessionScript key maxSessions idleTimeout sessionUUID r =
     (let now = TIME r;
          r = ZREMRANGEBYSCORE key (now - idleTimeout) r
      in if ZSCORE key sessionUUID r \<noteq> None then (1, EXPIRE key (idleTimeout + 60) (ZADD key now sessionUUID r))
         else if ZCARD key r < maxSessions then (1, EXPIRE key (idleTimeout + 60) (ZADD key now sessionUUID r))
         else (0, r))"

definition refreshSessionScript :: "string \<Rightarrow> int \<Rightarrow> string \<Rightarrow> redis \<Rightarrow> int \<times> redis" where
  "refreshSessionScript key idleTimeout sessionUUID r =
     (1, if ZSCORE key sessionUUID r \<noteq> None then EXPIRE key (idleTimeout + 60) (ZADD key (TIME r) sessionUUID r) else r)"

definition getActiveSessionCountScript :: "string \<Rightarrow> int \<Rightarrow> redis \<Rightarrow> int \<times> redis" where
  "getActiveSessionCountScript key idleTimeout r =
     (let r = ZREMRANGEBYSCORE key (TIME r - idleTimeout) r in (ZCARD key r, r))"

definition isSessionActiveScript :: "string \<Rightarrow> int \<Rightarrow> string \<Rightarrow> redis \<Rightarrow> int \<times> redis" where
  "isSessionActiveScript key idleTimeout sessionUUID r =
     (case ZSCORE key sessionUUID r of
        None \<Rightarrow> (0, r)
      | Some score \<Rightarrow> if score \<le> TIME r - idleTimeout then (0, r) else (1, r))"

text \<open>The cache is its default idle timeout.\<close>

definition NewSessionLimitCache :: "int \<Rightarrow> duration" where
  "NewSessionLimitCache defaultIdleTimeoutMinutes =
     wrap64 ((if defaultIdleTimeoutMinutes \<le> 0 then 5 else defaultIdleTimeoutMinutes) * minute)"

definition sessionLimitKey :: "int \<Rightarrow> string" where
  "sessionLimitKey providerID = ''session_limit:provider:'' @ itoa providerID"

definition timeout_seconds :: "duration \<Rightarrow> duration \<Rightarrow> int" where
  "timeout_seconds c idleTimeout =
     (let idleTimeoutSeconds = quot64 idleTimeout second
      in if idleTimeoutSeconds \<le> 0 then quot64 c second else idleTimeoutSeconds)"

text \<open>The answer and whether there was an error: an error lets the session pass.\<close>

definition cache_RegisterSession :: "duration \<Rightarrow> int \<Rightarrow> string \<Rightarrow> int \<Rightarrow> duration \<Rightarrow> world \<Rightarrow> (bool \<times> bool) \<times> world" where
  "cache_RegisterSession c providerID sessionUUID maxSessions idleTimeout w =
     (if sessionUUID = [] \<or> maxSessions \<le> 0 then ((True, False), w)
      else
        case roundtrip (registerSessionScript (sessionLimitKey providerID) maxSessions (timeout_seconds c idleTimeout)
          sessionUUID) w of
          (None, w) \<Rightarrow> ((True, True), w)
        | (Some result, w) \<Rightarrow> ((result = 1, False), w))"

definition UnregisterSession :: "int \<Rightarrow> string \<Rightarrow> world \<Rightarrow> unit option \<times> world" where
  "UnregisterSession providerID sessionUUID w =
     (if sessionUUID = [] then (Some (), w) else send (ZREM (sessionLimitKey providerID) sessionUUID) w)"

definition RefreshSession :: "duration \<Rightarrow> int \<Rightarrow> string \<Rightarrow> duration \<Rightarrow> world \<Rightarrow> int option \<times> world" where
  "RefreshSession c providerID sessionUUID idleTimeout w =
     (if sessionUUID = [] then (Some 1, w)
      else roundtrip (refreshSessionScript (sessionLimitKey providerID) (timeout_seconds c idleTimeout) sessionUUID) w)"

definition GetActiveSessionCount :: "duration \<Rightarrow> int \<Rightarrow> world \<Rightarrow> int option \<times> world" where
  "GetActiveSessionCount c providerID = roundtrip (getActiveSessionCountScript (sessionLimitKey providerID) (quot64 c second))"

text \<open>The batch keeps the counts that could be read. \<open>idleTimeouts\<close> is \<open>None\<close> when nil.\<close>

fun GetActiveSessionCountBatch ::
  "duration \<Rightarrow> int list \<Rightarrow> (int \<rightharpoonup> duration) option \<Rightarrow> world \<Rightarrow> (int \<rightharpoonup> int) \<times> world" where
  "GetActiveSessionCountBatch c [] idleTimeouts w = (Map.empty, w)"
| "GetActiveSessionCountBatch c (providerID # rest) idleTimeouts w =
     (let idleTimeout = (case idleTimeouts of
            None \<Rightarrow> c
          | Some m \<Rightarrow> (case m providerID of None \<Rightarrow> c | Some t \<Rightarrow> if t > 0 then t else c));
          (reply, w) = roundtrip (getActiveSessionCountScript (sessionLimitKey providerID) (quot64 idleTimeout second)) w;
          (results, w) = GetActiveSessionCountBatch c rest idleTimeouts w
      in (if providerID \<in> set rest then results else results(providerID := reply), w))"

definition IsSessionActive :: "duration \<Rightarrow> int \<Rightarrow> string \<Rightarrow> world \<Rightarrow> bool option \<times> world" where
  "IsSessionActive c providerID sessionUUID w =
     (if sessionUUID = [] then (Some False, w)
      else try_then (roundtrip (isSessionActiveScript (sessionLimitKey providerID) (quot64 c second) sessionUUID) w)
        (\<lambda>result w. (Some (result = 1), w)))"

section \<open>The limit\<close>

text \<open>All requests of the code, when every registration for a provider uses at most its limit.\<close>

inductive session_request :: "(int \<Rightarrow> int) \<Rightarrow> (redis \<Rightarrow> redis) \<Rightarrow> bool" for limit where
  register: "m \<le> limit p \<Longrightarrow> session_request limit (\<lambda>r. snd (registerSessionScript (sessionLimitKey p) m t q r))"
| refresh: "session_request limit (\<lambda>r. snd (refreshSessionScript (sessionLimitKey p) t q r))"
| cnt: "session_request limit (\<lambda>r. snd (getActiveSessionCountScript (sessionLimitKey p) t r))"
| active: "session_request limit (\<lambda>r. snd (isSessionActiveScript (sessionLimitKey p) t q r))"
| remove: "session_request limit (ZREM (sessionLimitKey p) q)"

definition sessions_within :: "(int \<Rightarrow> int) \<Rightarrow> redis \<Rightarrow> bool" where
  "sessions_within limit r \<longleftrightarrow> (\<forall>p. ZCARD (sessionLimitKey p) r \<le> limit p)"

lemma session_key_inject [simp]: "sessionLimitKey p = sessionLimitKey p' \<longleftrightarrow> p = p'"
  by (simp add: sessionLimitKey_def)

lemma ZCARD_EXPIRE: "ZCARD k (EXPIRE x t r) \<le> ZCARD k r"
  by (auto simp: ZCARD_def EXPIRE_def PEXPIRE_def DEL_def)

lemma ZCARD_ZADD: "ZCARD k (ZADD x s m r) = ZCARD k r + (if x = k \<and> ZSCORE k m r = None then 1 else 0)"
proof -
  have "length (AList.update m s z) = length z + (if map_of z m = None then 1 else 0)" for z :: "(string \<times> int) list"
    by (induction z) auto
  then show ?thesis by (simp add: ZCARD_def ZSCORE_def)
qed

lemma ZCARD_less:
  "ZCARD k (ZREMRANGEBYSCORE x s r) \<le> ZCARD k r" "ZCARD k (ZREM x m r) \<le> ZCARD k r" "ZCARD k (tick ms r) \<le> ZCARD k r"
proof -
  show "ZCARD k (ZREMRANGEBYSCORE x s r) \<le> ZCARD k r" by (simp add: ZCARD_def)
  show "ZCARD k (ZREM x m r) \<le> ZCARD k r" by (simp add: ZCARD_def AList.delete_eq)
  show "ZCARD k (tick ms r) \<le> ZCARD k r" by (simp add: ZCARD_def tick_def Let_def)
qed

lemma sessions_within_le: "sessions_within limit r \<Longrightarrow> (\<And>p. ZCARD (sessionLimitKey p) r' \<le> ZCARD (sessionLimitKey p) r) \<Longrightarrow>
    sessions_within limit r'"
  unfolding sessions_within_def using order_trans by blast

lemma sessions_within_add:
  assumes "sessions_within limit r" and "ZSCORE (sessionLimitKey p) q r \<noteq> None \<or> ZCARD (sessionLimitKey p) r < limit p"
  shows "sessions_within limit (EXPIRE x t (ZADD (sessionLimitKey p) s q r))"
proof -
  have "sessions_within limit (ZADD (sessionLimitKey p) s q r)"
    using assms by (auto simp: sessions_within_def ZCARD_ZADD)
  then show ?thesis by (rule sessions_within_le) (rule ZCARD_EXPIRE)
qed

lemma session_request_within:
  assumes "session_request limit f" and w: "sessions_within limit r"
  shows "sessions_within limit (f r)"
  using assms(1)
proof cases
  case (register m p t q)
  have w': "sessions_within limit (ZREMRANGEBYSCORE (sessionLimitKey p) (TIME r - t) r)"
    using w by (rule sessions_within_le) (rule ZCARD_less)
  show ?thesis
    using register w' sessions_within_add [OF w'] by (auto simp: registerSessionScript_def Let_def)
next
  case (refresh p t q)
  then show ?thesis using w sessions_within_add [OF w] by (auto simp: refreshSessionScript_def)
next
  case (cnt p t)
  then show ?thesis
    using sessions_within_le [OF w ZCARD_less(1)] by (simp add: getActiveSessionCountScript_def Let_def)
next
  case (active p t q)
  then show ?thesis using w by (auto simp: isSessionActiveScript_def split: option.splits)
next
  case (remove p q)
  then show ?thesis using sessions_within_le [OF w ZCARD_less(2)] by simp
qed

text \<open>
  C33: No interleaving of registrations, refreshes, queries and removals lets a provider have more
  sessions than the limit its registrations use; a session that is registered anew when the set is
  full is refused, and one that is there is always let through.
\<close>

theorem sessions_never_exceed_limit:
  assumes "reach (session_request limit) (empty_redis now) r" and "\<forall>p. 0 \<le> limit p"
    and "q \<noteq> []" and "0 < m" and "m \<le> limit p"
    and "cache_RegisterSession c p q m t (\<lparr>wd_redis = r, wd_events = []\<rparr>) = ((allowed, err), w')"
  shows "ZCARD (sessionLimitKey p) (wd_redis w') \<le> limit p \<and> \<not> err \<and>
    (let r0 = ZREMRANGEBYSCORE (sessionLimitKey p) (TIME r - timeout_seconds c t) r
     in allowed \<longleftrightarrow> ZSCORE (sessionLimitKey p) q r0 \<noteq> None \<or> ZCARD (sessionLimitKey p) r0 < m)"
proof -
  have "sessions_within limit (empty_redis now)" using assms(2) by (simp add: sessions_within_def ZCARD_def empty_redis_def)
  with assms(1) have r: "sessions_within limit r"
    by (rule reach_invariant) (auto intro: session_request_within sessions_within_le ZCARD_less)
  let ?f = "registerSessionScript (sessionLimitKey p) m (timeout_seconds c t) q"
  have w': "w' = \<lparr>wd_redis = snd (?f r), wd_events = []\<rparr>" and a: "\<not> err" "allowed \<longleftrightarrow> fst (?f r) = 1"
    using assms(3,4,6) by (auto simp: cache_RegisterSession_def roundtrip_def)
  have "sessions_within limit (snd (?f r))"
    using session_request_within [OF session_request.register [of m limit p "timeout_seconds c t" q] r] assms(5) by simp
  with w' a show ?thesis by (simp add: sessions_within_def registerSessionScript_def Let_def)
qed

theorem sessions_never_exceed_limit_witness:
  "let r1 = snd (registerSessionScript (sessionLimitKey 3) 1 300 ''a'' (empty_redis 0));
       x = cache_RegisterSession (5 * minute) 3 ''b'' 1 0 (\<lparr>wd_redis = r1, wd_events = []\<rparr>)
   in fst x = (False, False) \<and> ZCARD (sessionLimitKey 3) (wd_redis (snd x)) \<le> 1"
proof -
  let ?r1 = "snd (registerSessionScript (sessionLimitKey 3) 1 300 ''a'' (empty_redis 0))"
  have 1: "reach (session_request (\<lambda>_. 1)) (empty_redis 0) ?r1"
    using reach_step [where P = "session_request (\<lambda>_. 1)", OF reach_refl
      session_request.register [of 1 "\<lambda>_. 1" 3 300 "''a''"]] by simp
  have 2: "cache_RegisterSession (5 * minute) 3 ''b'' 1 0 (\<lparr>wd_redis = ?r1, wd_events = []\<rparr>) =
      ((False, False), snd (cache_RegisterSession (5 * minute) 3 ''b'' 1 0 (\<lparr>wd_redis = ?r1, wd_events = []\<rparr>)))"
    by (simp add: cache_RegisterSession_def registerSessionScript_def roundtrip_def Let_def ZSCORE_def ZCARD_def empty_redis_def
      TIME_def EXPIRE_def PEXPIRE_def EXISTS_def timeout_seconds_def quot64_def duration_defs ZADD_def ZREMRANGEBYSCORE_def put_zset_def)
  then have "fst (cache_RegisterSession (5 * minute) 3 ''b'' 1 0 (\<lparr>wd_redis = ?r1, wd_events = []\<rparr>)) = (False, False)"
    by (metis fst_conv)
  with sessions_never_exceed_limit [OF 1 _ _ _ _ 2] show ?thesis by (simp add: Let_def)
qed

end
