(* ===== verification/Msg_Lock.thy ===== *)
theory Msg_Lock
  imports Redis Sched_Bucket
begin

text \<open>
  Locks in Redis: the serial queue of user messages per provider
  (\<^verbatim>\<open>scheduler/rediscache/user_msg_queue_cache.go\<close>, \<^verbatim>\<open>TryAcquire\<close> and \<^verbatim>\<open>Release\<close> of
  \<^verbatim>\<open>scheduler/message_queue.go\<close>) and the locks of snapshot buckets (\<^verbatim>\<open>scheduler/rediscache/bucket_lock.go\<close>).
  The clock of the Redis model counts milliseconds, as the scripts do.
\<close>

section \<open>Scripts\<close>

text \<open>\<open>None\<close> is an error of the script: \<open>SET\<close> refuses an expiry that is not positive.\<close>

definition acquireLockScript :: "string \<Rightarrow> string \<Rightarrow> int \<Rightarrow> redis \<Rightarrow> (int \<times> int) option \<times> redis" where
  "acquireLockScript key requestID ttl r =
     (let ms = rd_clock r
      in case GETT key r of
           Some cur \<Rightarrow>
             if cur = requestID then (Some (1, ms + ttl), PEXPIRE key ttl r)
             else
               let pttl = PTTL key r
               in (Some (0, if pttl > 0 then ms + pttl else ms), r)
         | None \<Rightarrow>
             if ttl \<le> 0 then (None, r)
             else (Some (1, ms + ttl), PEXPIRE key ttl (SETT key requestID r)))"

definition releaseLockScript :: "string \<Rightarrow> string \<Rightarrow> string \<Rightarrow> redis \<Rightarrow> int \<times> redis" where
  "releaseLockScript lockKey lastKey requestID r =
     (if GETT lockKey r = Some requestID
      then (1, EXPIRE lastKey 60 (SETV lastKey (rd_clock r) (DEL lockKey r)))
      else (0, r))"

definition reconcileLockScript :: "string \<Rightarrow> redis \<Rightarrow> (int \<times> int) \<times> redis" where
  "reconcileLockScript key r =
     (let pttl = PTTL key r
      in if pttl = -2 then ((-2, 0), r) else if pttl = -1 then ((-1, 0), DEL key r) else ((1, pttl), r))"

section \<open>The cache of the message queue\<close>

definition umqLockIndexKey :: string where "umqLockIndexKey = ''umq:lock:index''"
definition umqLockIndexCleanupBatchSize :: nat where "umqLockIndexCleanupBatchSize = 1000"
definition umqLockKey :: "int \<Rightarrow> string" where "umqLockKey providerID = ''umq:{'' @ itoa providerID @ ''}:lock''"
definition umqLastKey :: "int \<Rightarrow> string" where "umqLastKey providerID = ''umq:{'' @ itoa providerID @ ''}:last''"

definition AcquireLock :: "int \<Rightarrow> string \<Rightarrow> int \<Rightarrow> world \<Rightarrow> bool option \<times> world" where
  "AcquireLock providerID requestID lockTtlMs w =
     try_then (roundtrip (acquireLockScript (umqLockKey providerID) requestID lockTtlMs) w) (\<lambda>result w.
       case result of
         None \<Rightarrow> (None, w)
       | Some (acquired, expireAtMs) \<Rightarrow>
           (Some (acquired = 1),
            if expireAtMs > 0 then snd (send (ZADD umqLockIndexKey expireAtMs (itoa providerID)) w) else w))"

definition ReleaseLock :: "int \<Rightarrow> string \<Rightarrow> world \<Rightarrow> bool option \<times> world" where
  "ReleaseLock providerID requestID w =
     try_then (roundtrip (releaseLockScript (umqLockKey providerID) (umqLastKey providerID) requestID) w) (\<lambda>result w.
       (Some (result = 1),
        if result = 1 then snd (send (ZREM umqLockIndexKey (itoa providerID)) w) else w))"

definition GetLastCompletedMs :: "int \<Rightarrow> world \<Rightarrow> int option \<times> world" where
  "GetLastCompletedMs providerID =
     roundtrip (\<lambda>r. (case GET (umqLastKey providerID) r of None \<Rightarrow> 0 | Some ms \<Rightarrow> ms, r))"

definition GetCurrentTimeMs :: "world \<Rightarrow> int option \<times> world" where
  "GetCurrentTimeMs = roundtrip (\<lambda>r. (rd_clock r, r))"

definition removeLockIndexMember :: "string \<Rightarrow> world \<Rightarrow> world" where
  "removeLockIndexMember member w = snd (send (ZREM umqLockIndexKey member) w)"

text \<open>The loop over the candidates: \<open>None\<close> is the error return.\<close>

fun reconcile_members :: "int \<Rightarrow> string list \<Rightarrow> int \<Rightarrow> world \<Rightarrow> int option \<times> world" where
  "reconcile_members nowMs [] cleaned w = (Some cleaned, w)"
| "reconcile_members nowMs (member # members) cleaned w =
     (case parse_int64 member of
        None \<Rightarrow> reconcile_members nowMs members cleaned (removeLockIndexMember member w)
      | Some providerID \<Rightarrow>
          if providerID \<le> 0 then reconcile_members nowMs members cleaned (removeLockIndexMember member w)
          else
            try_then (roundtrip (reconcileLockScript (umqLockKey providerID)) w) (\<lambda>(status, pttl) w.
              if status = -2 then reconcile_members nowMs members cleaned (removeLockIndexMember member w)
              else if status = -1 then reconcile_members nowMs members (cleaned + 1) (removeLockIndexMember member w)
              else if status = 1
              then reconcile_members nowMs members cleaned (snd (send (ZADD umqLockIndexKey (nowMs + pttl) member) w))
              else reconcile_members nowMs members cleaned w))"

definition ReconcileExpiredLockCandidates :: "int \<Rightarrow> world \<Rightarrow> int option \<times> world" where
  "ReconcileExpiredLockCandidates maxCount w =
     (let maxCount = (if maxCount \<le> 0 then umqLockIndexCleanupBatchSize else nat maxCount)
      in try_then (GetCurrentTimeMs w) (\<lambda>nowMs w.
           try_then (roundtrip (\<lambda>r. (ZRANGEBYSCORE umqLockIndexKey nowMs maxCount r, r)) w) (\<lambda>members w.
             reconcile_members nowMs members 0 w)))"

section \<open>The service\<close>

record QueueLockResult =
  ql_Acquired :: bool
  ql_RequestID :: string

text \<open>
  \<open>requestID\<close> is the fresh identifier, \<open>entered\<close> whether the runtime is still running; the answer is
  \<open>None\<close> when it is stopped. A failure of the cache counts as acquired, without an identifier.
\<close>

definition umq_TryAcquire :: "bool \<Rightarrow> bool \<Rightarrow> int \<Rightarrow> string \<Rightarrow> int \<Rightarrow> world \<Rightarrow> QueueLockResult option \<times> world" where
  "umq_TryAcquire entered cache LockTTLMs requestID providerID w =
     (if \<not> entered then (None, w)
      else if \<not> cache then (Some \<lparr>ql_Acquired = True, ql_RequestID = []\<rparr>, w)
      else
        let lockTTL = (if LockTTLMs \<le> 0 then 120000 else LockTTLMs)
        in case AcquireLock providerID requestID lockTTL w of
             (None, w) \<Rightarrow> (Some \<lparr>ql_Acquired = True, ql_RequestID = []\<rparr>, w)
           | (Some acquired, w) \<Rightarrow> (Some \<lparr>ql_Acquired = acquired, ql_RequestID = requestID\<rparr>, w))"

definition umq_Release :: "bool \<Rightarrow> int \<Rightarrow> string \<Rightarrow> world \<Rightarrow> unit option \<times> world" where
  "umq_Release cache providerID requestID w =
     (if \<not> cache \<or> requestID = [] then (Some (), w)
      else try_then (ReleaseLock providerID requestID w) (\<lambda>_ w. (Some (), w)))"

section \<open>Locks of buckets\<close>

definition releaseBucketOwner :: "string \<Rightarrow> string \<Rightarrow> redis \<Rightarrow> int \<times> redis" where
  "releaseBucketOwner key owner r = (if GETT key r = Some owner then (1, DEL key r) else (0, r))"

text \<open>\<open>owner\<close> is the random token; a lease is its key and token. The duration is positive in the code.\<close>

definition AcquireBucketLease :: "string \<Rightarrow> SchedulerBucket \<Rightarrow> duration \<Rightarrow> world \<Rightarrow> (string \<times> string) option option \<times> world" where
  "AcquireBucketLease owner bucket ttl w =
     (let key = ''sched:v4:lock:'' @ bucket_String bucket
      in try_then (roundtrip (\<lambda>r. if EXISTS key r then (False, r)
             else (True, PEXPIRE key (max 1 (ttl div millisecond)) (SETT key owner r))) w)
           (\<lambda>acquired w. (Some (if acquired then Some (key, owner) else None), w)))"

text \<open>The release of a lease: whether it was still the own one, or \<open>None\<close> for an error.\<close>

definition bucket_release :: "string \<times> string \<Rightarrow> world \<Rightarrow> bool option \<times> world" where
  "bucket_release lease w =
     try_then (roundtrip (releaseBucketOwner (fst lease) (snd lease)) w) (\<lambda>removed w. (Some (removed \<noteq> 0), w))"

section \<open>Mutual exclusion\<close>

text \<open>All requests of the code that are not made for the request \<open>q\<close> on the lock of \<open>p\<close>.\<close>

inductive lock_request :: "int \<Rightarrow> string \<Rightarrow> (redis \<Rightarrow> redis) \<Rightarrow> bool" for p q where
  lock_acquire: "(p', q') \<noteq> (p, q) \<Longrightarrow> lock_request p q (\<lambda>r. snd (acquireLockScript (umqLockKey p') q' t r))"
| lock_release: "(p', q') \<noteq> (p, q) \<Longrightarrow>
    lock_request p q (\<lambda>r. snd (releaseLockScript (umqLockKey p') (umqLastKey p') q' r))"
| lock_reconcile: "lock_request p q (\<lambda>r. snd (reconcileLockScript (umqLockKey p') r))"
| lock_index_add: "lock_request p q (ZADD umqLockIndexKey s m)"
| lock_index_remove: "lock_request p q (ZREM umqLockIndexKey m)"
| lock_query: "lock_request p q (\<lambda>r. r)"

lemma itoa_no_brace: "CHR ''}'' \<notin> set (itoa i)"
proof -
  have "is_digit c \<Longrightarrow> c \<noteq> CHR ''}''" for c by (auto simp: is_digit_def)
  then show ?thesis using nat_digits_are_digits by (auto simp: itoa_def list_all_iff)
qed

lemma lock_keys [simp]:
  "umqLockKey p = umqLockKey p' \<longleftrightarrow> p = p'" "umqLockKey p \<noteq> umqLastKey p'" "umqLastKey p' \<noteq> umqLockKey p"
  "umqLockKey p \<noteq> umqLockIndexKey" "umqLockIndexKey \<noteq> umqLockKey p"
proof -
  show "umqLockKey p = umqLockKey p' \<longleftrightarrow> p = p'" by (simp add: umqLockKey_def)
  show "umqLockKey p \<noteq> umqLastKey p'" "umqLastKey p' \<noteq> umqLockKey p"
    using append_sep_inject [OF itoa_no_brace [of p] itoa_no_brace [of p'], where c = "'':lock''" and d = "'':last''"]
    by (auto simp: umqLockKey_def umqLastKey_def)
  show "umqLockKey p \<noteq> umqLockIndexKey" "umqLockIndexKey \<noteq> umqLockKey p"
    by (simp_all add: umqLockKey_def umqLockIndexKey_def)
qed

text \<open>The lock of \<open>p\<close> is that of \<open>q\<close>, and stays so until the instant \<open>until\<close>.\<close>

definition owns_until :: "int \<Rightarrow> string \<Rightarrow> int \<Rightarrow> redis \<Rightarrow> bool" where
  "owns_until p q until r \<longleftrightarrow> (rd_clock r \<le> until \<longrightarrow>
     GETT (umqLockKey p) r = Some q \<and> (\<exists>d. rd_deadline r (umqLockKey p) = Some d \<and> until \<le> d))"

lemma owns_untilI:
  assumes "owns_until p q until r" and "rd_clock r' = rd_clock r"
    and "rd_texts r' (umqLockKey p) = rd_texts r (umqLockKey p)" and "rd_deadline r' (umqLockKey p) = rd_deadline r (umqLockKey p)"
  shows "owns_until p q until r'"
  using assms by (simp add: owns_until_def GETT_def)

lemma lock_request_owns:
  assumes "lock_request p q f" and o: "owns_until p q until r"
  shows "owns_until p q until (f r)"
  using assms(1)
proof cases
  case (lock_acquire p' q' t)
  show ?thesis
  proof (cases "rd_clock r \<le> until")
    case True
    then have held: "GETT (umqLockKey p) r = Some q" using o by (simp add: owns_until_def)
    show ?thesis
    proof (cases "p' = p")
      case True
      with lock_acquire held o show ?thesis by (simp add: acquireLockScript_def Let_def)
    next
      case False
      then show ?thesis
        unfolding lock_acquire
        by (intro owns_untilI [OF o])
          (auto simp: acquireLockScript_def PEXPIRE_def SETT_def DEL_def EXISTS_def Let_def split: option.splits)
    qed
  next
    case False
    have "rd_clock (f r) = rd_clock r"
      unfolding lock_acquire
      by (auto simp: acquireLockScript_def PEXPIRE_def SETT_def DEL_def Let_def split: option.splits)
    with False show ?thesis by (simp add: owns_until_def)
  qed
next
  case (lock_release p' q')
  show ?thesis
  proof (cases "rd_clock r \<le> until")
    case True
    then have held: "GETT (umqLockKey p) r = Some q" using o by (simp add: owns_until_def)
    show ?thesis
    proof (cases "p' = p")
      case True
      with lock_release held o show ?thesis by (auto simp: releaseLockScript_def)
    next
      case False
      then show ?thesis
        unfolding lock_release
        by (intro owns_untilI [OF o]) (auto simp: releaseLockScript_def EXPIRE_def PEXPIRE_def SETV_def DEL_def EXISTS_def)
    qed
  next
    case False
    have "rd_clock (f r) = rd_clock r" unfolding lock_release by (auto simp: releaseLockScript_def)
    with False show ?thesis by (simp add: owns_until_def)
  qed
next
  case (lock_reconcile p')
  show ?thesis
  proof (cases "p' = p \<and> rd_clock r \<le> until")
    case True
    then have "PTTL (umqLockKey p) r \<ge> 0" using o by (auto simp: owns_until_def PTTL_def EXISTS_def GETT_def)
    with True lock_reconcile o show ?thesis by (simp add: reconcileLockScript_def Let_def)
  next
    case False
    have "rd_clock (f r) = rd_clock r" unfolding lock_reconcile by (auto simp: reconcileLockScript_def Let_def)
    moreover have "p' \<noteq> p \<Longrightarrow> owns_until p q until (f r)"
      unfolding lock_reconcile by (intro owns_untilI [OF o]) (auto simp: reconcileLockScript_def DEL_def Let_def)
    ultimately show ?thesis using False by (cases "p' = p") (simp_all add: owns_until_def)
  qed
qed (use o in \<open>auto intro!: owns_untilI [OF o] simp: ZADD_def ZREM_def put_zset_def\<close>)

lemma tick_owns: "owns_until p q until r \<Longrightarrow> owns_until p q until (tick ms r)"
  by (force simp: owns_until_def GETT_def tick_def Let_def expired_def split: option.splits)

lemma AcquireLock_served:
  "AcquireLock p q ttl (served r) =
     (case acquireLockScript (umqLockKey p) q ttl r of
        (None, r') \<Rightarrow> (None, served r')
      | (Some (a, x), r') \<Rightarrow> (Some (a = 1), served (if x > 0 then ZADD umqLockIndexKey x (itoa p) r' else r')))"
  by (simp add: AcquireLock_def roundtrip_served send_served try_then_def split: prod.split option.split)

lemma ReleaseLock_served:
  "ReleaseLock p q (served r) =
     (if GETT (umqLockKey p) r = Some q
      then (Some True, served (ZREM umqLockIndexKey (itoa p) (snd (releaseLockScript (umqLockKey p) (umqLastKey p) q r))))
      else (Some False, served r))"
  by (simp add: ReleaseLock_def releaseLockScript_def roundtrip_served send_served try_then_def)

lemma acquired_owns:
  assumes "acquireLockScript (umqLockKey p) q ttl r = (Some (1, x), r')" and "0 < ttl"
  shows "owns_until p q (rd_clock r + ttl) r'"
proof (cases "GETT (umqLockKey p) r")
  case None
  with assms show ?thesis
    by (auto simp: acquireLockScript_def Let_def owns_until_def GETT_def PEXPIRE_def SETT_def EXISTS_def)
next
  case (Some cur)
  with assms show ?thesis
    by (auto simp: acquireLockScript_def Let_def owns_until_def GETT_def PEXPIRE_def EXISTS_def split: if_splits)
qed

text \<open>
  C29: A request that got the message lock of a provider is the only one that has it until its time to
  live is over: whatever the others and the upkeep do, acquiring for another request fails, releasing
  for another request changes nothing, and its own release works and frees the lock.
\<close>

theorem message_lock_exclusive:
  assumes "AcquireLock p q ttl (served r) = (Some True, served r1)"
    and "0 < ttl" and "reach (lock_request p q) r1 r2" and "rd_clock r2 \<le> rd_clock r + ttl" and "q' \<noteq> q"
  shows "fst (AcquireLock p q' ttl' (served r2)) = Some False \<and>
    ReleaseLock p q' (served r2) = (Some False, served r2) \<and>
    fst (ReleaseLock p q (served r2)) = Some True \<and>
    GETT (umqLockKey p) (wd_redis (snd (ReleaseLock p q (served r2)))) = None"
proof -
  let ?until = "rd_clock r + ttl"
  obtain x r' where x: "acquireLockScript (umqLockKey p) q ttl r = (Some (1, x), r')"
    and r1: "r1 = (if x > 0 then ZADD umqLockIndexKey x (itoa p) r' else r')"
    using assms(1) by (auto simp: AcquireLock_served split: prod.splits option.splits)
  have "owns_until p q ?until r1"
    using acquired_owns [OF x assms(2)] by (simp add: r1 lock_request_owns [OF lock_index_add])
  with assms(3) have "owns_until p q ?until r2"
    by (rule reach_invariant) (auto intro: lock_request_owns tick_owns)
  then have held: "GETT (umqLockKey p) r2 = Some q" using assms(4) by (simp add: owns_until_def)
  have other: "acquireLockScript (umqLockKey p) q' ttl' r2 =
      (Some (0, if PTTL (umqLockKey p) r2 > 0 then rd_clock r2 + PTTL (umqLockKey p) r2 else rd_clock r2), r2)"
    using held assms(5) by (simp add: acquireLockScript_def Let_def)
  have "GETT (umqLockKey p) (ZREM umqLockIndexKey (itoa p) (snd (releaseLockScript (umqLockKey p) (umqLastKey p) q r2))) = None"
    using held
    by (simp add: releaseLockScript_def ZREM_def put_zset_def EXPIRE_def PEXPIRE_def SETV_def DEL_def GETT_def)
  then show ?thesis
    using held assms(5) by (simp add: AcquireLock_served ReleaseLock_served other)
qed

theorem message_lock_exclusive_witness:
  "\<exists>r1. AcquireLock 7 ''a'' 500 (served (empty_redis 10)) = (Some True, served r1) \<and>
     fst (AcquireLock 7 ''b'' 900 (served (tick 400 r1))) = Some False"
proof -
  have "\<exists>r1. AcquireLock 7 ''a'' 500 (served (empty_redis 10)) = (Some True, served r1)"
    by (simp add: AcquireLock_served acquireLockScript_def Let_def empty_redis_def GETT_def)
  then obtain r1 where r1: "AcquireLock 7 ''a'' 500 (served (empty_redis 10)) = (Some True, served r1)" by blast
  have clock: "rd_clock (tick 400 r1) \<le> rd_clock (empty_redis 10) + 500"
    using r1
    by (auto simp: AcquireLock_served acquireLockScript_def Let_def empty_redis_def GETT_def tick_def
        ZADD_def put_zset_def PEXPIRE_def SETT_def)
  have "reach (lock_request 7 ''a'') r1 (tick 400 r1)" by (intro reach_tick reach_refl)
  from message_lock_exclusive [OF r1 _ this clock, of "''b''" 900] r1 show ?thesis by auto
qed

end
