(* ===== verification/Worker_Runtime.thy ===== *)
theory Worker_Runtime
  imports Go_Base "HOL-Library.AList"
begin

text \<open>
  The owner of background tasks and of operations in flight (\<^verbatim>\<open>scheduler/runtime.go\<close>), as a machine of all
  goroutines that use it. A member is a goroutine that runs a task, or an operation between \<open>Enter\<close>
  and its \<^verbatim>\<open>done\<close>; its phase says how far it is. A step is one critical section, one observation of
  the context, or one return of a callback.
\<close>

section \<open>State\<close>

text \<open>\<open>rt_Run\<close> is False for a task whose function is \<^verbatim>\<open>nil\<close>.\<close>

record RuntimeTask =
  rt_Name :: string
  rt_Interval :: duration
  rt_Immediate :: bool
  rt_Run :: bool

datatype phase =
    Spawned RuntimeTask
  | InRun RuntimeTask
  | Ticking RuntimeTask
  | Operating
  | Returning
  | Counted
  | Gone

datatype stop_phase = NotCalled | WaitingForAll bool | Returned

text \<open>The error of \<open>StopContext\<close>: the names and the error of the context that ended the wait.\<close>

datatype stop_error = Unfinished "string list" string

record runtime =
  wr_ctx :: "bool option"
  wr_started :: bool
  wr_stopped :: bool
  wr_active :: "(string \<times> int) list"
  wr_wg :: int
  wr_stopOnce :: stop_phase
  wr_stopErr :: "stop_error option"
  wr_members :: "(string \<times> phase) list"

definition new_runtime :: runtime where
  "new_runtime = \<lparr>wr_ctx = None, wr_started = False, wr_stopped = False, wr_active = [], wr_wg = 0,
     wr_stopOnce = NotCalled, wr_stopErr = None, wr_members = []\<rparr>"

text \<open>The context is \<open>None\<close> before it is made, then whether it is cancelled.\<close>

definition initializeLocked :: "runtime \<Rightarrow> runtime" where
  "initializeLocked r = (case wr_ctx r of None \<Rightarrow> r\<lparr>wr_ctx := Some False, wr_active := []\<rparr> | Some _ \<Rightarrow> r)"

definition runtime_Context :: "runtime \<Rightarrow> bool \<times> runtime" where
  "runtime_Context r = (let r = initializeLocked r in (wr_ctx r = Some True, r))"

definition active_count :: "runtime \<Rightarrow> string \<Rightarrow> int" where
  "active_count r name = (case map_of (wr_active r) name of None \<Rightarrow> 0 | Some n \<Rightarrow> n)"

definition add_active :: "string \<Rightarrow> int \<Rightarrow> runtime \<Rightarrow> runtime" where
  "add_active name d r = r\<lparr>wr_active := AList.update name (active_count r name + d) (wr_active r)\<rparr>"

section \<open>Operations\<close>

definition spawn :: "string \<Rightarrow> phase \<Rightarrow> runtime \<Rightarrow> runtime" where
  "spawn name ph r =
     add_active name 1 (r\<lparr>wr_wg := wr_wg r + 1, wr_members := wr_members r @ [(name, ph)]\<rparr>)"

definition runtime_Start :: "RuntimeTask list \<Rightarrow> runtime \<Rightarrow> runtime" where
  "runtime_Start tasks r =
     (let r = initializeLocked r
      in if wr_started r \<or> wr_stopped r then r
         else fold (\<lambda>t r. if rt_Run t then spawn (rt_Name t) (Spawned t) r else r) tasks (r\<lparr>wr_started := True\<rparr>))"

text \<open>The answer is False for \<^verbatim>\<open>ErrRuntimeStopped\<close>.\<close>

definition runtime_Enter :: "string \<Rightarrow> runtime \<Rightarrow> bool \<times> runtime" where
  "runtime_Enter name r =
     (let r = initializeLocked r in if wr_stopped r then (False, r) else (True, spawn name Operating r))"

text \<open>
  The body of \<^verbatim>\<open>run\<close>: \<open>cancelled\<close> is what \<^verbatim>\<open>ctx.Err()\<close> tells, and \<open>ticked\<close> whether the \<^verbatim>\<open>select\<close> takes the
  tick; without a tick it waits until the context is cancelled.
\<close>

fun run_step :: "bool \<Rightarrow> bool \<Rightarrow> phase \<Rightarrow> phase option" where
  "run_step cancelled ticked (Spawned t) =
     Some (if cancelled then Returning else if rt_Immediate t \<or> rt_Interval t \<le> 0 then InRun t else Ticking t)"
| "run_step cancelled ticked (InRun t) = Some (if rt_Interval t \<le> 0 then Returning else Ticking t)"
| "run_step cancelled ticked (Ticking t) =
     (if ticked then Some (if cancelled then Returning else InRun t)
      else if cancelled then Some Returning else None)"
| "run_step cancelled ticked _ = None"

definition set_phase :: "nat \<Rightarrow> phase \<Rightarrow> runtime \<Rightarrow> runtime" where
  "set_phase i ph r = r\<lparr>wr_members := (wr_members r)[i := (fst (wr_members r ! i), ph)]\<rparr>"

text \<open>The two halves of what is deferred: \<^verbatim>\<open>active[name]--\<close> under the mutex, then \<^verbatim>\<open>wg.Done()\<close>.\<close>

definition count_out :: "nat \<Rightarrow> runtime \<Rightarrow> runtime" where
  "count_out i r = add_active (fst (wr_members r ! i)) (-1) (set_phase i Counted r)"

definition wg_done :: "nat \<Rightarrow> runtime \<Rightarrow> runtime" where
  "wg_done i r = set_phase i Gone (r\<lparr>wr_wg := wr_wg r - 1\<rparr>)"

text \<open>\<open>StopContext\<close> up to its wait, and what it does when its context ends before the wait is over.\<close>

definition stop_begin :: "runtime \<Rightarrow> runtime" where
  "stop_begin r = (initializeLocked r)\<lparr>wr_stopped := True, wr_ctx := Some True, wr_stopOnce := WaitingForAll False\<rparr>"

definition stop_timeout :: "string \<Rightarrow> runtime \<Rightarrow> runtime" where
  "stop_timeout cause r =
     (let pending = sort (map fst (filter (\<lambda>(name, count). count > 0) (wr_active r)))
      in r\<lparr>wr_stopOnce := Returned, wr_stopErr := (if pending = [] then wr_stopErr r else Some (Unfinished pending cause))\<rparr>)"

section \<open>The machine\<close>

datatype runtime_action =
    RContext
  | RStart "RuntimeTask list"
  | RRun nat bool
  | REnter string
  | RDone nat
  | RCountOut nat
  | RWgDone nat
  | RStop
  | RWaitOver
  | RStopDone
  | RStopTimeout string

inductive runtime_step :: "runtime_action \<Rightarrow> runtime \<Rightarrow> runtime \<Rightarrow> bool" where
  step_context: "runtime_step RContext r (snd (runtime_Context r))"
| step_start: "runtime_step (RStart tasks) r (runtime_Start tasks r)"
| step_run: "i < length (wr_members r) \<Longrightarrow> run_step (wr_ctx r = Some True) ticked (snd (wr_members r ! i)) = Some ph \<Longrightarrow>
    runtime_step (RRun i ticked) r (set_phase i ph r)"
| step_enter: "runtime_step (REnter name) r (snd (runtime_Enter name r))"
| step_done: "i < length (wr_members r) \<Longrightarrow> snd (wr_members r ! i) = Operating \<Longrightarrow>
    runtime_step (RDone i) r (set_phase i Returning r)"
| step_count_out: "i < length (wr_members r) \<Longrightarrow> snd (wr_members r ! i) = Returning \<Longrightarrow>
    runtime_step (RCountOut i) r (count_out i r)"
| step_wg_done: "i < length (wr_members r) \<Longrightarrow> snd (wr_members r ! i) = Counted \<Longrightarrow>
    runtime_step (RWgDone i) r (wg_done i r)"
| step_stop: "wr_stopOnce r = NotCalled \<Longrightarrow> runtime_step RStop r (stop_begin r)"
| step_wait_over: "wr_stopOnce r = WaitingForAll False \<Longrightarrow> wr_wg r = 0 \<Longrightarrow>
    runtime_step RWaitOver r (r\<lparr>wr_stopOnce := WaitingForAll True\<rparr>)"
| step_stop_done: "wr_stopOnce r = WaitingForAll True \<Longrightarrow> runtime_step RStopDone r (r\<lparr>wr_stopOnce := Returned\<rparr>)"
| step_stop_timeout: "wr_stopOnce r = WaitingForAll w \<Longrightarrow> runtime_step (RStopTimeout cause) r (stop_timeout cause r)"

inductive_cases runtime_stepE: "runtime_step a r r'"
inductive_simps step_timeout_iff: "runtime_step (RStopTimeout cause) r r'"
inductive_simps step_enter_iff: "runtime_step (REnter name) r r'"

inductive runtime_run :: "runtime \<Rightarrow> runtime \<Rightarrow> bool" where
  run_refl [simp, intro]: "runtime_run r r"
| run_more: "runtime_run r r' \<Longrightarrow> runtime_step a r' r'' \<Longrightarrow> runtime_run r r''"


section \<open>What the counters mean\<close>

fun live :: "phase \<Rightarrow> bool" where
  "live Counted = False"
| "live Gone = False"
| "live _ = True"

definition live_members :: "string \<Rightarrow> runtime \<Rightarrow> nat" where
  "live_members name r = length (filter (\<lambda>m. fst m = name \<and> live (snd m)) (wr_members r))"

definition present :: "runtime \<Rightarrow> nat" where
  "present r = length (filter (\<lambda>m. snd m \<noteq> Gone) (wr_members r))"

definition runtime_inv :: "runtime \<Rightarrow> bool" where
  "runtime_inv r \<longleftrightarrow>
     distinct (map fst (wr_active r)) \<and> (\<forall>name. active_count r name = int (live_members name r)) \<and>
     wr_wg r = int (present r) \<and> (wr_ctx r = None \<longrightarrow> wr_members r = [] \<and> wr_active r = []) \<and>
     (wr_stopped r \<longleftrightarrow> wr_ctx r = Some True) \<and> (wr_stopped r \<longleftrightarrow> wr_stopOnce r \<noteq> NotCalled) \<and>
     (wr_stopOnce r = WaitingForAll True \<longrightarrow> present r = 0) \<and>
     (wr_stopErr r \<noteq> None \<longrightarrow> wr_stopOnce r = Returned) \<and>
     (wr_stopOnce r = Returned \<longrightarrow> wr_stopErr r = None \<longrightarrow> (\<forall>name. live_members name r = 0))"

lemma filter_length_update:
  assumes "i < length xs"
  shows "int (length (filter P (xs[i := x]))) =
    int (length (filter P xs)) - (if P (xs ! i) then 1 else 0) + (if P x then 1 else 0)"
  using assms
proof (induction xs arbitrary: i)
  case (Cons a xs)
  show ?case
  proof (cases i)
    case (Suc j)
    with Cons.prems have "j < length xs" by simp
    from Cons.IH [OF this] Suc show ?thesis by (simp split: if_splits)
  qed simp
qed simp

lemma count_updates [simp]:
  "active_count (r\<lparr>wr_wg := n\<rparr>) = active_count r" "active_count (r\<lparr>wr_members := ms\<rparr>) = active_count r"
  "active_count (r\<lparr>wr_started := b\<rparr>) = active_count r" "active_count (r\<lparr>wr_stopped := b\<rparr>) = active_count r"
  "active_count (r\<lparr>wr_ctx := c\<rparr>) = active_count r" "active_count (r\<lparr>wr_stopOnce := p\<rparr>) = active_count r"
  "active_count (r\<lparr>wr_stopErr := e\<rparr>) = active_count r"
  by (simp_all add: active_count_def fun_eq_iff)

lemma inv_new: "runtime_inv new_runtime"
  by (simp add: runtime_inv_def new_runtime_def active_count_def live_members_def present_def)

lemma inv_initialize: "runtime_inv r \<Longrightarrow> runtime_inv (initializeLocked r)"
  by (auto simp: runtime_inv_def initializeLocked_def active_count_def live_members_def present_def split: option.splits)

lemma initialize_fields [simp]:
  "wr_started (initializeLocked r) = wr_started r" "wr_stopped (initializeLocked r) = wr_stopped r"
  "wr_members (initializeLocked r) = wr_members r" "wr_wg (initializeLocked r) = wr_wg r"
  "wr_stopOnce (initializeLocked r) = wr_stopOnce r" "wr_stopErr (initializeLocked r) = wr_stopErr r"
  "wr_ctx (initializeLocked r) \<noteq> None"
  by (auto simp: initializeLocked_def split: option.splits)

lemma add_active_fields [simp]:
  "wr_started (add_active n d r) = wr_started r" "wr_stopped (add_active n d r) = wr_stopped r"
  "wr_members (add_active n d r) = wr_members r" "wr_wg (add_active n d r) = wr_wg r"
  "wr_stopOnce (add_active n d r) = wr_stopOnce r" "wr_stopErr (add_active n d r) = wr_stopErr r"
  "wr_ctx (add_active n d r) = wr_ctx r"
  "active_count (add_active n d r) m = active_count r m + (if m = n then d else 0)"
  "distinct (map fst (wr_active r)) \<Longrightarrow> distinct (map fst (wr_active (add_active n d r)))"
  "live_members m (add_active n d r) = live_members m r" "present (add_active n d r) = present r"
  by (auto simp: add_active_def active_count_def update_conv' live_members_def present_def distinct_update)

lemma spawn_inv:
  assumes "runtime_inv r" and "\<not> wr_stopped r" and "wr_ctx r \<noteq> None" and "live ph"
  shows "runtime_inv (spawn name ph r)" and "wr_stopped (spawn name ph r) = False" and "wr_ctx (spawn name ph r) = wr_ctx r"
proof -
  have "ph \<noteq> Gone" using assms(4) by auto
  then show "runtime_inv (spawn name ph r)"
    using assms by (auto simp: runtime_inv_def spawn_def live_members_def present_def)
  show "wr_stopped (spawn name ph r) = False" "wr_ctx (spawn name ph r) = wr_ctx r" using assms by (simp_all add: spawn_def)
qed

lemma set_phase_fields [simp]:
  "wr_ctx (set_phase i ph r) = wr_ctx r" "wr_stopped (set_phase i ph r) = wr_stopped r"
  "wr_active (set_phase i ph r) = wr_active r" "wr_wg (set_phase i ph r) = wr_wg r"
  "wr_stopOnce (set_phase i ph r) = wr_stopOnce r" "wr_stopErr (set_phase i ph r) = wr_stopErr r"
  "active_count (set_phase i ph r) = active_count r" "wr_members (set_phase i ph r) = [] \<longleftrightarrow> wr_members r = []"
  by (simp_all add: set_phase_def)

lemma set_phase_counts:
  assumes "i < length (wr_members r)" and "wr_members r ! i = (name, old)"
  shows "int (live_members n (set_phase i ph r)) =
      int (live_members n r) - (if name = n \<and> live old then 1 else 0) + (if name = n \<and> live ph then 1 else 0)"
    and "int (present (set_phase i ph r)) =
      int (present r) - (if old \<noteq> Gone then 1 else 0) + (if ph \<noteq> Gone then 1 else 0)"
  using assms by (simp_all add: live_members_def present_def set_phase_def filter_length_update)

lemma present_live: "i < length (wr_members r) \<Longrightarrow> snd (wr_members r ! i) \<noteq> Gone \<Longrightarrow> present r \<noteq> 0"
  by (auto simp: present_def filter_empty_conv)

lemma inv_move:
  assumes inv: "runtime_inv r" and i: "i < length (wr_members r)" "live (snd (wr_members r ! i))" and "live ph"
  shows "runtime_inv (set_phase i ph r)"
proof -
  obtain name old where m: "wr_members r ! i = (name, old)" by fastforce
  with i assms(4) have "old \<noteq> Gone" "ph \<noteq> Gone" by auto
  then have same: "live_members n (set_phase i ph r) = live_members n r" "present (set_phase i ph r) = present r" for n
    using set_phase_counts(1) [OF i(1) m, of n ph] set_phase_counts(2) [OF i(1) m, of ph] m i assms(4)
    by (simp_all split: if_splits)
  show ?thesis using inv by (auto simp: runtime_inv_def same)
qed

lemma inv_count_out:
  assumes inv: "runtime_inv r" and i: "i < length (wr_members r)" "snd (wr_members r ! i) = Returning"
  shows "runtime_inv (count_out i r)"
proof -
  obtain name where m: "wr_members r ! i = (name, Returning)" using i by (metis prod.collapse)
  note c = set_phase_counts [OF i(1) m, where ph = Counted]
  have pos: "live_members name r \<noteq> 0"
    using i m by (auto simp: live_members_def filter_empty_conv) (metis fst_conv live.simps(7) nth_mem snd_conv)
  have "present (set_phase i Counted r) = present r" using c(2) by simp
  moreover have "wr_stopOnce r \<noteq> WaitingForAll True" using inv present_live [OF i(1)] i by (auto simp: runtime_inv_def)
  moreover have "wr_stopOnce r = Returned \<longrightarrow> wr_stopErr r \<noteq> None" using inv pos by (auto simp: runtime_inv_def)
  moreover have "wr_members r \<noteq> []" using i by auto
  ultimately show ?thesis
    using inv c(1) by (auto simp: runtime_inv_def count_out_def m)
qed

lemma inv_wg_done:
  assumes inv: "runtime_inv r" and i: "i < length (wr_members r)" "snd (wr_members r ! i) = Counted"
  shows "runtime_inv (wg_done i r)"
proof -
  obtain name where m: "wr_members r ! i = (name, Counted)" using i by (metis prod.collapse)
  let ?r = "r\<lparr>wr_wg := wr_wg r - 1\<rparr>"
  have c: "live_members n (set_phase i Gone ?r) = live_members n r" "int (present (set_phase i Gone ?r)) = int (present r) - 1" for n
    using set_phase_counts [of i ?r name Counted, where ph = Gone] i m
    by (simp_all add: live_members_def present_def)
  moreover have "wr_stopOnce r \<noteq> WaitingForAll True" using inv present_live [OF i(1)] i by (auto simp: runtime_inv_def)
  moreover have "wr_members r \<noteq> []" using i by auto
  ultimately show ?thesis using inv by (auto simp: runtime_inv_def wg_done_def)
qed

lemma inv_start: "runtime_inv r \<Longrightarrow> runtime_inv (runtime_Start tasks r)"
proof -
  assume inv: "runtime_inv r"
  have "runtime_inv (fold (\<lambda>t r. if rt_Run t then spawn (rt_Name t) (Spawned t) r else r) tasks r')"
    if "runtime_inv r'" "\<not> wr_stopped r'" "wr_ctx r' \<noteq> None" for r'
    using that by (induction tasks arbitrary: r') (auto simp: spawn_inv)
  moreover have "runtime_inv (r'\<lparr>wr_started := True\<rparr>) \<longleftrightarrow> runtime_inv r'" for r'
    by (simp add: runtime_inv_def live_members_def present_def)
  moreover have "wr_ctx ((initializeLocked r)\<lparr>wr_started := True\<rparr>) \<noteq> None"
    using initialize_fields(7) by simp
  ultimately show ?thesis
    using inv_initialize [OF inv] by (auto simp: runtime_Start_def Let_def simp del: not_None_eq)
qed

lemma active_positive:
  assumes "distinct (map fst xs)"
  shows "name \<in> fst ` set (filter (\<lambda>(name, n :: int). 0 < n) xs) \<longleftrightarrow>
    0 < (case map_of xs name of None \<Rightarrow> 0 | Some n \<Rightarrow> n)"
proof -
  have "(name, n) \<in> set xs \<longleftrightarrow> map_of xs name = Some n" for n using map_of_eq_Some_iff [OF assms] by blast
  then show ?thesis by (force simp: image_iff split: option.splits)
qed

lemma pending_names:
  assumes "runtime_inv r"
  shows "set (map fst (filter (\<lambda>(name, n). 0 < n) (wr_active r))) = {name. live_members name r \<noteq> 0}"
    and "distinct (map fst (filter (\<lambda>(name, n). 0 < n) (wr_active r)))"
proof -
  have d: "distinct (map fst (wr_active r))" and a: "active_count r name = int (live_members name r)" for name
    using assms by (auto simp: runtime_inv_def)
  show "set (map fst (filter (\<lambda>(name, n). 0 < n) (wr_active r))) = {name. live_members name r \<noteq> 0}"
    using active_positive [OF d] a by (auto simp: active_count_def)
  show "distinct (map fst (filter (\<lambda>(name, n). 0 < n) (wr_active r)))"
    using d by (rule distinct_map_filter)
qed

lemma inv_stop_begin: "runtime_inv r \<Longrightarrow> wr_stopOnce r = NotCalled \<Longrightarrow> runtime_inv (stop_begin r)"
  using inv_initialize [of r]
  by (auto simp: runtime_inv_def stop_begin_def live_members_def present_def)

lemma inv_stop_timeout:
  assumes "runtime_inv r" and "wr_stopOnce r = WaitingForAll w"
  shows "runtime_inv (stop_timeout cause r)"
proof -
  let ?p = "sort (map fst (filter (\<lambda>(name, n). 0 < n) (wr_active r)))"
  have "?p = [] \<longleftrightarrow> (\<forall>name. live_members name r = 0)"
    using pending_names(1) [OF assms(1)] by (metis (mono_tags, lifting) empty_Collect_eq set_empty set_sort)
  then show ?thesis
    using assms by (auto simp: runtime_inv_def stop_timeout_def Let_def live_members_def present_def)
qed

lemma present_live_members:
  assumes "present r = 0"
  shows "live_members name r = 0"
proof -
  have "snd m = Gone" if "m \<in> set (wr_members r)" for m using assms that by (auto simp: present_def filter_empty_conv)
  then show ?thesis by (auto simp: live_members_def filter_empty_conv)
qed

lemma inv_enter: "runtime_inv r \<Longrightarrow> runtime_inv (snd (runtime_Enter name r))"
  using inv_initialize [of r] spawn_inv(1) [of "initializeLocked r" Operating name] initialize_fields(7) [of r]
  by (simp add: runtime_Enter_def Let_def del: not_None_eq)

lemma run_step_live: "run_step c t ph = Some ph' \<Longrightarrow> live ph \<and> live ph'"
  by (cases ph) (auto split: if_splits)

lemma runtime_step_inv:
  assumes "runtime_step a r r'" and "runtime_inv r"
  shows "runtime_inv r'"
  using assms(1)
proof cases
  case step_run
  then show ?thesis using assms(2) by (auto dest: run_step_live intro: inv_move)
next
  case step_wait_over
  then have "present r = 0" using assms(2) by (auto simp: runtime_inv_def)
  with step_wait_over assms(2) show ?thesis by (auto simp: runtime_inv_def live_members_def present_def)
next
  case step_stop_done
  then have "present r = 0" using assms(2) by (auto simp: runtime_inv_def)
  note present_live_members [OF this]
  with step_stop_done assms(2) show ?thesis by (auto simp: runtime_inv_def live_members_def present_def)
qed (use assms(2) in \<open>auto simp: runtime_Context_def Let_def inv_initialize inv_start inv_enter inv_count_out inv_wg_done
    inv_stop_begin intro: inv_move inv_stop_timeout\<close>)

lemma runtime_run_inv: "runtime_run r r' \<Longrightarrow> runtime_inv r \<Longrightarrow> runtime_inv r'"
  by (induction rule: runtime_run.induct) (auto intro: runtime_step_inv)

lemma spawn_stop [simp]:
  "wr_stopOnce (spawn name ph r) = wr_stopOnce r" "wr_stopErr (spawn name ph r) = wr_stopErr r"
  by (simp_all add: spawn_def)

lemma start_stop [simp]:
  "wr_stopOnce (runtime_Start tasks r) = wr_stopOnce r" "wr_stopErr (runtime_Start tasks r) = wr_stopErr r"
proof -
  have "wr_stopOnce (fold (\<lambda>t r. if rt_Run t then spawn (rt_Name t) (Spawned t) r else r) tasks r') = wr_stopOnce r' \<and>
    wr_stopErr (fold (\<lambda>t r. if rt_Run t then spawn (rt_Name t) (Spawned t) r else r) tasks r') = wr_stopErr r'" for r'
    by (induction tasks arbitrary: r') auto
  then show "wr_stopOnce (runtime_Start tasks r) = wr_stopOnce r" "wr_stopErr (runtime_Start tasks r) = wr_stopErr r"
    by (simp_all add: runtime_Start_def Let_def)
qed

lemma returned_stays:
  assumes "runtime_step a r r'" and "wr_stopOnce r = Returned"
  shows "wr_stopOnce r' = Returned \<and> wr_stopErr r' = wr_stopErr r"
  using assms
  by cases (auto simp: runtime_Context_def runtime_Enter_def Let_def count_out_def wg_done_def)

lemma returned_stays_run:
  "runtime_run r r' \<Longrightarrow> wr_stopOnce r = Returned \<Longrightarrow> wr_stopOnce r' = Returned \<and> wr_stopErr r' = wr_stopErr r"
  by (induction rule: runtime_run.induct) (auto dest: returned_stays)

lemma stopped_refuses: "runtime_inv r \<Longrightarrow> wr_stopOnce r = Returned \<Longrightarrow> \<not> fst (runtime_Enter name r)"
  by (auto simp: runtime_inv_def runtime_Enter_def Let_def)

lemma nobody_live: "(\<forall>name. live_members name r = 0) \<longleftrightarrow> (\<forall>m \<in> set (wr_members r). \<not> live (snd m))"
  by (force simp: live_members_def filter_empty_conv)

lemma live_names: "{name. live_members name r \<noteq> 0} = {fst m | m. m \<in> set (wr_members r) \<and> live (snd m)}"
  unfolding live_members_def length_0_conv filter_empty_conv by blast

section \<open>Stopping\<close>

text \<open>
  C25: When \<open>StopContext\<close> returns without an error, no task and no operation is unfinished, none can begin
  or continue afterwards under any schedule, and \<open>Enter\<close> is refused; when it returns an error, that
  lists, sorted and once each, exactly the names of the tasks and operations not finished then.
\<close>

theorem stop_leaves_nothing_running:
  assumes "runtime_run new_runtime r" and "runtime_step a r r1"
    and "wr_stopOnce r \<noteq> Returned" and "wr_stopOnce r1 = Returned"
  shows "case wr_stopErr r1 of
      None \<Rightarrow> (\<forall>r2. runtime_run r1 r2 \<longrightarrow>
        (\<forall>m \<in> set (wr_members r2). \<not> live (snd m)) \<and> (\<forall>name. \<not> fst (runtime_Enter name r2)))
    | Some (Unfinished names cause) \<Rightarrow>
        sorted names \<and> distinct names \<and> names \<noteq> [] \<and> set names = {fst m | m. m \<in> set (wr_members r1) \<and> live (snd m)}"
proof -
  have inv: "runtime_inv r" using runtime_run_inv [OF assms(1) inv_new] .
  then have inv1: "runtime_inv r1" by (rule runtime_step_inv [OF assms(2)])
  show ?thesis
  proof (cases "wr_stopErr r1")
    case None
    have "(\<forall>m \<in> set (wr_members r2). \<not> live (snd m)) \<and> \<not> fst (runtime_Enter name r2)" if "runtime_run r1 r2" for r2 name
    proof -
      have inv2: "runtime_inv r2" using runtime_run_inv [OF that inv1] .
      have "wr_stopOnce r2 = Returned" "wr_stopErr r2 = None" using returned_stays_run [OF that assms(4)] None by auto
      with inv2 show ?thesis using stopped_refuses nobody_live by (auto simp: runtime_inv_def)
    qed
    with None show ?thesis by simp
  next
    case (Some e)
    have "wr_stopErr r = None" using inv assms(3) by (auto simp: runtime_inv_def)
    with assms(2,4) Some assms(3) obtain cause where r1: "r1 = stop_timeout cause r"
      by (auto elim!: runtime_stepE
        simp: runtime_Context_def runtime_Enter_def Let_def count_out_def wg_done_def stop_begin_def
        split: if_splits)
    let ?p = "sort (map fst (filter (\<lambda>(name, n). 0 < n) (wr_active r)))"
    have e: "e = Unfinished ?p cause" "?p \<noteq> []"
      using Some \<open>wr_stopErr r = None\<close> by (auto simp: r1 stop_timeout_def Let_def split: if_splits)
    have "set ?p = {fst m | m. m \<in> set (wr_members r1) \<and> live (snd m)}"
      using pending_names(1) [OF inv] live_names [of r] by (simp add: r1 stop_timeout_def Let_def)
    with e Some pending_names(2) [OF inv] show ?thesis by simp
  qed
qed

theorem stop_leaves_nothing_running_witness:
  "let r = stop_begin (snd (runtime_Enter ''probe'' new_runtime)); r1 = stop_timeout ''late'' r
   in wr_stopErr r1 = Some (Unfinished [''probe''] ''late'') \<and>
      set [''probe''] = {fst m | m. m \<in> set (wr_members r1) \<and> live (snd m)}"
proof -
  let ?r = "stop_begin (snd (runtime_Enter ''probe'' new_runtime))"
  have run: "runtime_run new_runtime ?r"
    by (intro run_more [OF run_more [OF run_refl step_enter] step_stop])
      (simp add: runtime_Enter_def Let_def new_runtime_def initializeLocked_def)
  have err: "wr_stopErr (stop_timeout ''late'' ?r) = Some (Unfinished [''probe''] ''late'')" by code_simp
  have stop: "wr_stopOnce ?r = WaitingForAll False" by (simp add: stop_begin_def)
  show ?thesis
    using stop_leaves_nothing_running [OF run step_stop_timeout [OF stop, of "''late''"]] stop err
    by (simp add: stop_timeout_def Let_def)
qed

end
