(* ===== verification/Json.thy ===== *)
theory Json
  imports Go_Base "HOL-Library.AList"
begin

text \<open>
  JSON values as \<^verbatim>\<open>encoding/json\<close> decodes them into \<^verbatim>\<open>any\<close>: an object is the list of its entries in
  enumeration order, a number is a \<open>float64\<close> of an unspecified type \<open>'n\<close>. A missing key is \<open>None\<close>, a
  key with the value \<^verbatim>\<open>nil\<close> is \<open>Some JNull\<close>. Also the results of recursive code that may panic or
  not return.
\<close>

datatype 'n json =
    JNull
  | JBool bool
  | JNum 'n
  | JStr string
  | JArr "'n json list"
  | JObj "(string \<times> 'n json) list"

type_synonym 'n object = "(string \<times> 'n json) list"

definition field :: "string \<Rightarrow> 'n object \<Rightarrow> 'n json option" where
  "field k m = map_of m k"

definition has_key :: "string \<Rightarrow> 'n object \<Rightarrow> bool" where
  "has_key k m \<longleftrightarrow> map_of m k \<noteq> None"

definition set_field :: "string \<Rightarrow> 'n json \<Rightarrow> 'n object \<Rightarrow> 'n object" where
  "set_field k v m = AList.update k v m"

definition del_field :: "string \<Rightarrow> 'n object \<Rightarrow> 'n object" where
  "del_field k m = AList.delete k m"

text \<open>Type assertions; \<open>str_field\<close> is the empty string for a value that is no string.\<close>

definition obj_field :: "string \<Rightarrow> 'n object \<Rightarrow> 'n object option" where
  "obj_field k m = (case field k m of Some (JObj o') \<Rightarrow> Some o' | _ \<Rightarrow> None)"

definition arr_field :: "string \<Rightarrow> 'n object \<Rightarrow> 'n json list option" where
  "arr_field k m = (case field k m of Some (JArr xs) \<Rightarrow> Some xs | _ \<Rightarrow> None)"

definition str_field :: "string \<Rightarrow> 'n object \<Rightarrow> string" where
  "str_field k m = (case field k m of Some (JStr s) \<Rightarrow> s | _ \<Rightarrow> [])"

text \<open>\<open>set_missing\<close>: \<^verbatim>\<open>if _, exists := m[k]; !exists { m[k] = v }\<close>.\<close>

definition set_missing :: "string \<times> 'n json \<Rightarrow> 'n object \<Rightarrow> 'n object" where
  "set_missing e m = (if has_key (fst e) m then m else set_field (fst e) (snd e) m)"

fun contains :: "string \<Rightarrow> string \<Rightarrow> bool" where
  "contains sub [] \<longleftrightarrow> sub = []"
| "contains sub (c # s) \<longleftrightarrow> prefix sub (c # s) \<or> contains sub s"

fun join :: "string \<Rightarrow> string list \<Rightarrow> string" where
  "join sep [] = []"
| "join sep [s] = s"
| "join sep (s # ss) = s @ sep @ join sep ss"

text \<open>\<^verbatim>\<open>fmt.Sprintf("%v", v)\<close>; the text of a number is a parameter.\<close>

fun fmt_v :: "('n \<Rightarrow> string) \<Rightarrow> 'n json \<Rightarrow> string" where
  "fmt_v num JNull = ''<nil>''"
| "fmt_v num (JBool b) = (if b then ''true'' else ''false'')"
| "fmt_v num (JNum x) = num x"
| "fmt_v num (JStr s) = s"
| "fmt_v num (JArr xs) = ''['' @ join '' '' (map (fmt_v num) xs) @ '']''"
| "fmt_v num (JObj m) =
     ''map['' @ join '' '' (map (\<lambda>(k, s). k @ '':'' @ s) (sort_key fst (map (\<lambda>(k, v). (k, fmt_v num v)) m))) @ '']''"

section \<open>Results\<close>

datatype 'a json_outcome = Done 'a | Panicked | OutOfFuel

primrec and_then :: "'a json_outcome \<Rightarrow> ('a \<Rightarrow> 'b json_outcome) \<Rightarrow> 'b json_outcome" where
  "and_then (Done x) f = f x"
| "and_then Panicked f = Panicked"
| "and_then OutOfFuel f = OutOfFuel"

fun each :: "('a \<Rightarrow> 'b json_outcome) \<Rightarrow> 'a list \<Rightarrow> 'b list json_outcome" where
  "each f [] = Done []"
| "each f (x # xs) = and_then (f x) (\<lambda>y. and_then (each f xs) (\<lambda>ys. Done (y # ys)))"

definition each_field :: "('v \<Rightarrow> 'w json_outcome) \<Rightarrow> (string \<times> 'v) list \<Rightarrow> (string \<times> 'w) list json_outcome" where
  "each_field f = each (\<lambda>(k, v). and_then (f v) (\<lambda>w. Done (k, w)))"

text \<open>
  \<open>yields safe P r\<close>: the code returns a value with \<open>P\<close>, or panics, which it does not when \<open>safe\<close>; so it
  does not run out of fuel. The rules compose it over sequences and loops.
\<close>

definition yields :: "bool \<Rightarrow> ('a \<Rightarrow> bool) \<Rightarrow> 'a json_outcome \<Rightarrow> bool" where
  "yields safe P r \<longleftrightarrow> (case r of Done x \<Rightarrow> P x | Panicked \<Rightarrow> \<not> safe | OutOfFuel \<Rightarrow> False)"

lemma yields_simps [simp]: "yields safe P (Done x) = P x" "yields safe P Panicked \<longleftrightarrow> \<not> safe" "\<not> yields safe P OutOfFuel"
  by (simp_all add: yields_def)

lemma yields_mono: "yields safe P r \<Longrightarrow> (\<And>x. P x \<Longrightarrow> Q x) \<Longrightarrow> yields safe Q r"
  by (cases r) auto

lemma yields_and_then: "yields safe P r \<Longrightarrow> (\<And>x. P x \<Longrightarrow> yields safe Q (f x)) \<Longrightarrow> yields safe Q (and_then r f)"
  by (cases r) auto

lemma yields_each:
  assumes "\<And>x. x \<in> set xs \<Longrightarrow> yields safe (P x) (f x)"
  shows "yields safe (\<lambda>ys. list_all2 P xs ys) (each f xs)"
  using assms
proof (induction xs)
  case (Cons x xs)
  show ?case
    unfolding each.simps
    by (rule yields_and_then [OF Cons.prems, of x], simp)
      (rule yields_and_then [OF Cons.IH], auto intro: Cons.prems)
qed simp

lemma yields_each_field:
  assumes "\<And>k v. (k, v) \<in> set m \<Longrightarrow> yields safe (P k v) (f v)"
  shows "yields safe (\<lambda>m'. list_all2 (\<lambda>(k, v) (k', w). k' = k \<and> P k v w) m m') (each_field f m)"
  unfolding each_field_def
  by (rule yields_each) (auto intro!: yields_and_then [OF assms])

lemma list_all2_set2: "list_all2 P xs ys \<Longrightarrow> y \<in> set ys \<Longrightarrow> \<exists>x \<in> set xs. P x y"
  by (induction rule: list_all2_induct) auto

section \<open>Entries of objects\<close>

lemma set_set_field: "set (set_field k v m) \<subseteq> insert (k, v) (set m)"
  unfolding set_field_def by (induction m) auto

lemma set_del_field: "set (del_field k m) \<subseteq> set m"
  unfolding del_field_def by (auto simp: AList.delete_eq)

lemma set_set_missing: "set (set_missing e m) \<subseteq> insert e (set m)"
  using set_set_field [of "fst e" "snd e" m] by (auto simp: set_missing_def)

lemma field_set_field [simp]: "field k (set_field k' v m) = (if k = k' then Some v else field k m)"
  by (simp add: field_def set_field_def update_conv')

lemma field_del_field [simp]: "field k (del_field k' m) = (if k = k' then None else field k m)"
  by (simp add: field_def del_field_def delete_conv')

lemma has_key_field: "has_key k m \<longleftrightarrow> field k m \<noteq> None"
  by (simp add: has_key_def field_def)

lemma field_in_set: "field k m = Some v \<Longrightarrow> (k, v) \<in> set m"
  by (simp add: field_def map_of_SomeD)

lemma field_set_missing:
  "field k (set_missing e m) = (if k = fst e \<and> field k m = None then Some (snd e) else field k m)"
  by (auto simp: set_missing_def has_key_field)

lemma arr_field_Some [simp]: "arr_field k m = Some xs \<longleftrightarrow> field k m = Some (JArr xs)"
  by (auto simp: arr_field_def split: option.splits json.splits)

lemma obj_field_Some [simp]: "obj_field k m = Some o' \<longleftrightarrow> field k m = Some (JObj o')"
  by (auto simp: obj_field_def split: option.splits json.splits)

lemma field_views [simp]:
  "field k m = Some (JArr xs) \<Longrightarrow> arr_field k m = Some xs" "field k m = Some (JObj o') \<Longrightarrow> obj_field k m = Some o'"
  "field k m = Some (JStr s) \<Longrightarrow> str_field k m = s"
  by (simp_all add: str_field_def)

lemma set_fold_missing: "set (fold set_missing es m) \<subseteq> set es \<union> set m"
proof (induction es arbitrary: m)
  case (Cons e es)
  show ?case using Cons [of "set_missing e m"] set_set_missing [of e m] by auto
qed simp

lemma field_Cons: "field k (e # m) = (if fst e = k then Some (snd e) else field k m)"
  by (cases e) (simp add: field_def)

lemma field_Nil [simp]: "field k [] = None"
  by (simp add: field_def)

lemma field_fold_missing:
  "field k (fold set_missing es m) = (case field k m of Some v \<Rightarrow> Some v | None \<Rightarrow> field k es)"
  by (induction es arbitrary: m) (auto simp: field_set_missing field_Cons split: option.splits)

end
