(* ===== verification/Schema.thy ===== *)
theory Schema
  imports Json
begin

text \<open>
  The cleaning of the JSON schemas of tools for Gemini (\<^verbatim>\<open>protocol/bridge/gemini_internal_schema.go\<close>).
  The code changes maps in place; no map is reachable twice when it does so, because what is merged from a
  definition or a branch is copied or its other owner is dropped, so here it is replaced.
  \<^item> Numbers are \<^verbatim>\<open>float64\<close>, as \<^verbatim>\<open>encoding/json\<close> makes them; \<open>num\<close> prints one, \<open>lower\<close> is
    \<^verbatim>\<open>strings.ToLower\<close>, \<open>ord\<close> the order in which the entries of a map made on the way come out.
  \<^item> Recursion takes fuel; how much suffices is shown in \<open>Schema_Type\<close> and \<open>Schema_Refs\<close>.
\<close>

section \<open>References\<close>

definition take_defs :: "string \<Rightarrow> 'n object \<times> 'n object \<Rightarrow> 'n object \<times> 'n object" where
  "take_defs key = (\<lambda>(defs, schema).
     case obj_field key schema of
       Some d \<Rightarrow> (fold (\<lambda>(k, v). set_field k v) d defs, del_field key schema)
     | None \<Rightarrow> (defs, schema))"

definition extractDefs :: "'n object \<Rightarrow> 'n object \<times> 'n object" where
  "extractDefs schema = take_defs ''definitions'' (take_defs ''$defs'' ([], schema))"

text \<open>A value below a node: objects, and the objects directly in an array.\<close>

definition in_object :: "('n object \<Rightarrow> 'n object json_outcome) \<Rightarrow> 'n json \<Rightarrow> 'n json json_outcome" where
  "in_object f v = (case v of JObj m \<Rightarrow> and_then (f m) (\<lambda>m. Done (JObj m)) | _ \<Rightarrow> Done v)"

definition in_value :: "('n object \<Rightarrow> 'n object json_outcome) \<Rightarrow> 'n json \<Rightarrow> 'n json json_outcome" where
  "in_value f v = (case v of JArr xs \<Rightarrow> and_then (each (in_object f) xs) (\<lambda>xs. Done (JArr xs)) | _ \<Rightarrow> in_object f v)"

text \<open>The definition a node refers to, with the node without its reference.\<close>

definition take_ref :: "'n object \<Rightarrow> 'n object \<Rightarrow> 'n object \<times> 'n object option" where
  "take_ref defs m =
     (case field ''$ref'' m of
        Some (JStr ref) \<Rightarrow> (del_field ''$ref'' m, obj_field (last (split_on (CHR ''/'') ref)) defs)
      | _ \<Rightarrow> (m, None))"

primrec flattenRefs :: "nat \<Rightarrow> 'n object \<Rightarrow> 'n object \<Rightarrow> 'n object json_outcome" where
  "flattenRefs 0 defs m = OutOfFuel"
| "flattenRefs (Suc n) defs m =
     (if defs = [] then Done m
      else
        and_then
          (case take_ref defs m of
             (m, Some d) \<Rightarrow> flattenRefs n defs (fold set_missing d m)
           | (m, None) \<Rightarrow> Done m)
          (each_field (in_value (flattenRefs n defs))))"

section \<open>Merging\<close>

definition scoreSchemaOption :: "'n json \<Rightarrow> int" where
  "scoreSchemaOption val =
     (case val of
        JObj m \<Rightarrow>
          (let typeStr = str_field ''type'' m
           in if has_key ''properties'' m \<or> typeStr = ''object'' then 3
              else if has_key ''items'' m \<or> typeStr = ''array'' then 2
              else if has_key ''enum'' m \<or> has_key ''const'' m then 1
              else if typeStr \<noteq> [] \<and> typeStr \<noteq> ''null'' then 1
              else 0)
      | _ \<Rightarrow> 0)"

definition extractBestSchemaFromUnion :: "'n json list \<Rightarrow> 'n json" where
  "extractBestSchemaFromUnion unionArray =
     fst (foldl (\<lambda>(best, bestScore) item.
       if scoreSchemaOption item > bestScore then (item, scoreSchemaOption item) else (best, bestScore))
       (JNull, -1) unionArray)"

definition or_string :: "'n json \<Rightarrow> 'n json" where
  "or_string best = (case best of JNull \<Rightarrow> JObj [(''type'', JStr ''string'')] | _ \<Rightarrow> best)"

definition strings_of :: "'n json list \<Rightarrow> string list" where
  "strings_of = List.map_filter (\<lambda>v. case v of JStr s \<Rightarrow> Some s | _ \<Rightarrow> None)"

definition objects_of :: "'n json list \<Rightarrow> 'n object list" where
  "objects_of = List.map_filter (\<lambda>v. case v of JObj m \<Rightarrow> Some m | _ \<Rightarrow> None)"

definition or_empty :: "'a list option \<Rightarrow> 'a list" where
  "or_empty x = (case x of Some xs \<Rightarrow> xs | None \<Rightarrow> [])"

text \<open>What \<open>mergeAllOf\<close> collects from the branches.\<close>

definition merged_props :: "'n object list \<Rightarrow> 'n object" where
  "merged_props subs =
     fold (\<lambda>s ps. fold (\<lambda>(k, v). set_field k v) (or_empty (obj_field ''properties'' s)) ps) subs []"

definition merged_req :: "'n object list \<Rightarrow> string list" where
  "merged_req subs = concat (map (\<lambda>s. strings_of (or_empty (arr_field ''required'' s))) subs)"

definition other_fields :: "'n object list \<Rightarrow> 'n object" where
  "other_fields subs =
     fold (\<lambda>s others. fold (\<lambda>(k, v) others.
       if k \<in> {''properties'', ''required'', ''allOf''} then others else set_missing (k, v) others) s others) subs []"

definition mergeAllOf :: "(string list \<Rightarrow> string list) \<Rightarrow> 'n object \<Rightarrow> 'n object" where
  "mergeAllOf ord m =
     (case arr_field ''allOf'' m of
        None \<Rightarrow> m
      | Some allOf \<Rightarrow>
          (let subs = objects_of allOf;
               mergedProps = merged_props subs;
               mergedReq = merged_req subs;
               m = fold set_missing (other_fields subs) (del_field ''allOf'' m);
               m = (if mergedProps = [] then m
                    else set_field ''properties''
                      (JObj (fold set_missing mergedProps (or_empty (obj_field ''properties'' m)))) m)
           in if mergedReq = [] then m
              else
                let existReq = strings_of (or_empty (arr_field ''required'' m))
                in set_field ''required''
                     (JArr (map JStr (existReq @ ord (remdups (filter (\<lambda>r. r \<notin> set existReq) mergedReq))))) m))"

definition lift_prefix_items :: "'n object \<Rightarrow> 'n object" where
  "lift_prefix_items m =
     (case field ''prefixItems'' m of
        None \<Rightarrow> m
      | Some v \<Rightarrow>
          del_field ''prefixItems''
            (case v of
               JArr xs \<Rightarrow>
                 if xs \<noteq> [] \<and> (case field ''items'' m of None \<Rightarrow> True | Some JNull \<Rightarrow> True | Some (JBool _) \<Rightarrow> True | _ \<Rightarrow> False)
                 then set_field ''items'' (or_string (extractBestSchemaFromUnion xs)) m
                 else m
             | _ \<Rightarrow> m))"

section \<open>The best branch of a union\<close>

text \<open>\<^verbatim>\<open>==\<close> on two values of type \<^verbatim>\<open>any\<close> panics when both hold a slice, or both a map.\<close>

fun any_equal :: "'n json \<Rightarrow> 'n json \<Rightarrow> bool json_outcome" where
  "any_equal (JArr _) (JArr _) = Panicked"
| "any_equal (JObj _) (JObj _) = Panicked"
| "any_equal a b = Done (a = b)"

fun any_member :: "'n json \<Rightarrow> 'n json list \<Rightarrow> bool json_outcome" where
  "any_member rv [] = Done False"
| "any_member rv (tr # ts) = and_then (any_equal tr rv) (\<lambda>eq. if eq then Done True else any_member rv ts)"

fun add_required :: "'n json list \<Rightarrow> 'n json list \<Rightarrow> 'n json list json_outcome" where
  "add_required [] targetReq = Done targetReq"
| "add_required (rv # src) targetReq =
     and_then (any_member rv targetReq) (\<lambda>there. add_required src (if there then targetReq else targetReq @ [rv]))"

definition merge_field :: "string \<times> 'n json \<Rightarrow> 'n object \<Rightarrow> 'n object json_outcome" where
  "merge_field e m =
     (if fst e = ''properties''
      then
        (let targetProps = or_empty (obj_field ''properties'' m)
         in Done (set_field ''properties''
              (JObj (case snd e of JObj sourceProps \<Rightarrow> fold set_missing sourceProps targetProps | _ \<Rightarrow> targetProps)) m))
      else if fst e = ''required''
      then
        (case snd e of
           JArr sourceReq \<Rightarrow>
             and_then (add_required sourceReq (or_empty (arr_field ''required'' m)))
               (\<lambda>targetReq. Done (set_field ''required'' (JArr targetReq) m))
         | _ \<Rightarrow> Done m)
      else Done (set_missing e m))"

fun merge_branch :: "'n object \<Rightarrow> 'n object \<Rightarrow> 'n object json_outcome" where
  "merge_branch [] m = Done m"
| "merge_branch (e # branch) m = and_then (merge_field e m) (merge_branch branch)"

definition clean_properties :: "('n json \<Rightarrow> 'n json json_outcome) \<Rightarrow> 'n object \<Rightarrow> 'n object json_outcome" where
  "clean_properties c m =
     (case obj_field ''properties'' m of
        Some props \<Rightarrow> and_then (each_field c props) (\<lambda>props. Done (set_field ''properties'' (JObj props) m))
      | None \<Rightarrow> Done m)"

definition clean_items :: "('n json \<Rightarrow> 'n json json_outcome) \<Rightarrow> 'n object \<Rightarrow> 'n object json_outcome" where
  "clean_items c m =
     (case field ''items'' m of
        Some v \<Rightarrow> and_then (c v) (\<lambda>v. Done (set_field ''items'' v m))
      | None \<Rightarrow> Done m)"

definition union_array :: "'n object \<Rightarrow> 'n json list" where
  "union_array m =
     (let typeStr = str_field ''type'' m
      in if typeStr = [] \<or> typeStr = ''object''
         then (case arr_field ''anyOf'' m of Some xs \<Rightarrow> xs | None \<Rightarrow> or_empty (arr_field ''oneOf'' m))
         else [])"

definition merge_union :: "('n json \<Rightarrow> 'n json json_outcome) \<Rightarrow> 'n object \<Rightarrow> 'n object json_outcome" where
  "merge_union c m =
     (case extractBestSchemaFromUnion (union_array m) of
        JObj bestMap \<Rightarrow>
          and_then (merge_branch bestMap m) (\<lambda>m.
          and_then (clean_properties c (del_field ''oneOf'' (del_field ''anyOf'' m))) (clean_items c))
      | _ \<Rightarrow> Done m)"

section \<open>Cleaning one node\<close>

definition looks_like_schema :: "'n object \<Rightarrow> bool" where
  "looks_like_schema m \<longleftrightarrow>
     list_ex (\<lambda>k. has_key k m) [''type'', ''properties'', ''items'', ''enum'', ''const'', ''anyOf'', ''oneOf'', ''allOf'']"

definition constraints :: "(string \<times> string) list" where
  "constraints =
     [(''minLength'', ''minLen''), (''maxLength'', ''maxLen''), (''pattern'', ''pattern''), (''minimum'', ''min''),
      (''maximum'', ''max''), (''multipleOf'', ''multipleOf''), (''exclusiveMinimum'', ''exclMin''),
      (''exclusiveMaximum'', ''exclMax''), (''minItems'', ''minItems''), (''maxItems'', ''maxItems''),
      (''propertyNames'', ''propertyNames''), (''format'', ''format'')]"

definition migrateConstraints :: "('n \<Rightarrow> string) \<Rightarrow> 'n object \<Rightarrow> 'n object" where
  "migrateConstraints num m =
     (let hints = List.map_filter (\<lambda>(key, label).
            case field key m of None \<Rightarrow> None | Some JNull \<Rightarrow> None | Some val \<Rightarrow> Some (label @ '': '' @ fmt_v num val)) constraints
      in if hints = [] then m
         else
           let suffix = '' [Constraint: '' @ join '', '' hints @ '']'';
               desc = str_field ''description'' m
           in if contains suffix desc then m else set_field ''description'' (JStr (desc @ suffix)) m)"

definition kind_name :: "'n json \<Rightarrow> string" where
  "kind_name v = (case v of JNum _ \<Rightarrow> ''number'' | JBool _ \<Rightarrow> ''boolean'' | _ \<Rightarrow> ''string'')"

definition const_to_enum :: "'n object \<Rightarrow> 'n object" where
  "const_to_enum m =
     (case field ''const'' m of
        None \<Rightarrow> m
      | Some constVal \<Rightarrow>
          (let m = (if \<not> has_key ''enum'' m then set_field ''enum'' (JArr [constVal]) m
                    else
                      case (constVal, arr_field ''enum'' m) of
                        (JStr constant, Some values) \<Rightarrow>
                          set_field ''enum'' (JArr (if JStr constant \<in> set values then [JStr constant] else [])) m
                      | _ \<Rightarrow> m);
               m = (if has_key ''type'' m then m else set_field ''type'' (JStr (kind_name constVal)) m)
           in del_field ''const'' m))"

definition allowedFields :: "string list" where
  "allowedFields = [''type'', ''description'', ''properties'', ''required'', ''items'', ''enum'', ''title'']"

definition keep_allowed :: "'n object \<Rightarrow> 'n object" where
  "keep_allowed m = filter (\<lambda>e. fst e \<in> set allowedFields) m"

text \<open>The type, and whether it says that the value may be null.\<close>

definition select_type :: "(string \<Rightarrow> string) \<Rightarrow> 'n json \<Rightarrow> bool \<times> string" where
  "select_type lower v =
     (case v of
        JStr s \<Rightarrow> if lower s = ''null'' then (True, ''string'') else (False, lower s)
      | JArr ts \<Rightarrow>
          (let (nullable, sel) =
             fold (\<lambda>t (nullable, sel).
               if lower t = ''null'' then (True, sel) else (nullable, if sel = [] then lower t else sel))
               (strings_of ts) (False, [])
           in (nullable, if sel = [] then ''string'' else sel))
      | _ \<Rightarrow> (False, []))"

definition infer_type :: "'n object \<Rightarrow> string" where
  "infer_type m =
     (if has_key ''properties'' m then ''object''
      else if has_key ''items'' m then ''array''
      else case arr_field ''enum'' m of
             Some (v # _) \<Rightarrow> kind_name v
           | _ \<Rightarrow> if has_key ''enum'' m then ''string'' else ''object'')"

definition normalize_type :: "(string \<Rightarrow> string) \<Rightarrow> 'n object \<Rightarrow> bool \<times> 'n object" where
  "normalize_type lower m =
     (let (nullable, t) = (case field ''type'' m of Some v \<Rightarrow> select_type lower v | None \<Rightarrow> (False, infer_type m))
      in (nullable, set_field ''type'' (JStr t) m))"

definition default_properties :: "'n object \<Rightarrow> 'n object" where
  "default_properties m =
     (if str_field ''type'' m = ''object'' \<and> or_empty (obj_field ''properties'' m) = []
      then
        set_field ''required'' (JArr [JStr ''reason''])
          (set_field ''properties''
             (JObj [(''reason'', JObj [(''type'', JStr ''string''),
                (''description'', JStr ''Reason for calling this tool'')])]) m)
      else m)"

definition default_items :: "'n object \<Rightarrow> 'n object" where
  "default_items m =
     (if str_field ''type'' m = ''array'' \<and>
         (case field ''items'' m of None \<Rightarrow> True | Some JNull \<Rightarrow> True | Some (JObj []) \<Rightarrow> True | Some (JBool _) \<Rightarrow> True | _ \<Rightarrow> False)
      then set_field ''items'' (JObj [(''type'', JStr ''string'')]) m
      else m)"

definition align_required :: "'n object \<Rightarrow> 'n object" where
  "align_required m =
     (case (obj_field ''properties'' m, arr_field ''required'' m) of
        (Some props, Some req) \<Rightarrow>
          (let validReq = filter (\<lambda>r. case r of JStr s \<Rightarrow> has_key s props | _ \<Rightarrow> False) req
           in if validReq = [] then del_field ''required'' m else set_field ''required'' (JArr validReq) m)
      | _ \<Rightarrow> m)"

definition mark_nullable :: "bool \<Rightarrow> 'n object \<Rightarrow> 'n object" where
  "mark_nullable nullable m =
     (let desc = str_field ''description'' m
      in if \<not> nullable \<or> contains ''nullable'' desc then m
         else set_field ''description'' (JStr ((if desc = [] then [] else desc @ '' '') @ ''(nullable)'')) m)"

definition enum_string :: "('n \<Rightarrow> string) \<Rightarrow> 'n json \<Rightarrow> 'n json" where
  "enum_string num v = (case v of JStr s \<Rightarrow> v | JNull \<Rightarrow> JStr ''null'' | _ \<Rightarrow> JStr (fmt_v num v))"

definition is_string :: "'n json \<Rightarrow> bool" where
  "is_string v = (case v of JStr _ \<Rightarrow> True | _ \<Rightarrow> False)"

definition enum_to_strings :: "('n \<Rightarrow> string) \<Rightarrow> 'n object \<Rightarrow> 'n object" where
  "enum_to_strings num m =
     (case arr_field ''enum'' m of
        None \<Rightarrow> m
      | Some vals \<Rightarrow>
          (let m = set_field ''enum'' (JArr (map (enum_string num) vals)) m
           in if list_all is_string vals then m else set_field ''type'' (JStr ''string'') m))"

definition normalize_node :: "(string \<Rightarrow> string) \<Rightarrow> ('n \<Rightarrow> string) \<Rightarrow> 'n object \<Rightarrow> 'n object" where
  "normalize_node lower num m =
     (if \<not> looks_like_schema m then m
      else
        let (nullable, m) = normalize_type lower (keep_allowed (const_to_enum (migrateConstraints num m)))
        in enum_to_strings num (mark_nullable nullable (align_required (default_items (default_properties m)))))"

section \<open>Recursion\<close>

text \<open>The children of a node that has neither properties nor items.\<close>

definition clean_other :: "('n json \<Rightarrow> 'n json json_outcome) \<Rightarrow> 'n json \<Rightarrow> 'n json json_outcome" where
  "clean_other c v =
     (case v of
        JObj _ \<Rightarrow> c v
      | JArr xs \<Rightarrow> and_then (each c xs) (\<lambda>xs. Done (JArr xs))
      | _ \<Rightarrow> Done v)"

definition clean_children :: "('n json \<Rightarrow> 'n json json_outcome) \<Rightarrow> 'n object \<Rightarrow> 'n object json_outcome" where
  "clean_children c m =
     and_then (clean_properties c m) (\<lambda>m.
     and_then
       (clean_items c (case arr_field ''items'' m of
          Some xs \<Rightarrow> set_field ''items'' (or_string (extractBestSchemaFromUnion xs)) m
        | None \<Rightarrow> m)) (\<lambda>m.
     if has_key ''properties'' m \<or> has_key ''items'' m then Done m else each_field (clean_other c) m))"

primrec cleanJSONSchemaRecursive ::
    "(string \<Rightarrow> string) \<Rightarrow> ('n \<Rightarrow> string) \<Rightarrow> (string list \<Rightarrow> string list) \<Rightarrow> nat \<Rightarrow> 'n json \<Rightarrow> 'n json json_outcome" where
  "cleanJSONSchemaRecursive lower num ord 0 v = (case v of JObj _ \<Rightarrow> OutOfFuel | _ \<Rightarrow> Done v)"
| "cleanJSONSchemaRecursive lower num ord (Suc n) v =
     (case v of
        JObj m \<Rightarrow>
          and_then (clean_children (cleanJSONSchemaRecursive lower num ord n) (lift_prefix_items (mergeAllOf ord m))) (\<lambda>m.
          and_then (merge_union (cleanJSONSchemaRecursive lower num ord n) m) (\<lambda>m.
          Done (JObj (normalize_node lower num m))))
      | _ \<Rightarrow> Done v)"

text \<open>\<open>None\<close> is a \<^verbatim>\<open>nil\<close> map; \<open>n\<close> and \<open>k\<close> are the fuel of the two recursions.\<close>

definition CleanJSONSchema ::
    "(string \<Rightarrow> string) \<Rightarrow> ('n \<Rightarrow> string) \<Rightarrow> (string list \<Rightarrow> string list) \<Rightarrow> nat \<Rightarrow> nat \<Rightarrow> 'n object option \<Rightarrow>
     'n object option json_outcome" where
  "CleanJSONSchema lower num ord n k schema =
     (case schema of
        None \<Rightarrow> Done None
      | Some m \<Rightarrow>
          (case extractDefs m of
             (defs, m) \<Rightarrow>
               and_then (flattenRefs n defs m) (\<lambda>m.
               and_then (cleanJSONSchemaRecursive lower num ord k (JObj m)) (\<lambda>cleaned.
               Done (case cleaned of JObj result \<Rightarrow> Some result | _ \<Rightarrow> None)))))"

fun DeepCleanUndefined :: "'n json \<Rightarrow> 'n json" where
  "DeepCleanUndefined (JObj m) =
     JObj (filter (\<lambda>e. snd e \<noteq> JStr ''[undefined]'') (map (\<lambda>(k, v). (k, DeepCleanUndefined v)) m))"
| "DeepCleanUndefined (JArr xs) = JArr (map DeepCleanUndefined xs)"
| "DeepCleanUndefined v = v"

end
