(* ===== verification/Schema_Type.thy ===== *)
theory Schema_Type
  imports Schema
begin

text \<open>
  When cleaning a schema returns, and the form of what it returns for any value: \<open>cleaned_form\<close> holds below the nodes that the
  code takes for nodes, and says nothing of objects without a keyword. Cleaning returns for every value with as much fuel
  as its size, or panics. What Gemini takes is in \<^verbatim>\<open>Schema_Accept\<close>.
\<close>

section \<open>The form of cleaned values\<close>

definition cleaned_node :: "'n object \<Rightarrow> bool" where
  "cleaned_node m \<longleftrightarrow>
     fst ` set m \<subseteq> set allowedFields \<and>
     (\<exists>t. field ''type'' m = Some (JStr t) \<and>
       (t = ''object'' \<longrightarrow> or_empty (obj_field ''properties'' m) \<noteq> []) \<and>
       (t = ''array'' \<longrightarrow> (\<exists>v. field ''items'' m = Some v \<and> v \<notin> {JNull, JBool True, JBool False, JObj []}))) \<and>
     (\<forall>vals. arr_field ''enum'' m = Some vals \<longrightarrow> list_all is_string vals) \<and>
     (\<forall>props req. obj_field ''properties'' m = Some props \<longrightarrow> arr_field ''required'' m = Some req \<longrightarrow>
       req \<noteq> [] \<and> (\<forall>r \<in> set req. \<exists>s. r = JStr s \<and> has_key s props))"

inductive cleaned_form :: "'n json \<Rightarrow> bool" where
  ok_value: "(\<And>m. v \<noteq> JObj m) \<Longrightarrow> cleaned_form v"
| ok_plain: "\<not> looks_like_schema m \<Longrightarrow> (\<And>k v. (k, v) \<in> set m \<Longrightarrow> cleaned_form v) \<Longrightarrow>
    (\<And>k xs x. (k, JArr xs) \<in> set m \<Longrightarrow> x \<in> set xs \<Longrightarrow> cleaned_form x) \<Longrightarrow> cleaned_form (JObj m)"
| ok_node: "cleaned_node m \<Longrightarrow> (\<And>props k v. obj_field ''properties'' m = Some props \<Longrightarrow> (k, v) \<in> set props \<Longrightarrow> cleaned_form v) \<Longrightarrow>
    (\<And>v. field ''items'' m = Some v \<Longrightarrow> cleaned_form v) \<Longrightarrow> cleaned_form (JObj m)"

inductive_simps cleaned_form_obj: "cleaned_form (JObj m)"

lemma cleaned_form_scalar [simp, intro]:
  "cleaned_form JNull" "cleaned_form (JBool b)" "cleaned_form (JNum x)" "cleaned_form (JStr s)" "cleaned_form (JArr xs)"
  by (simp_all add: ok_value)

section \<open>How deep cleaning goes\<close>

text \<open>
  \<open>fits safe n v\<close>: cleaning \<open>v\<close> goes at most \<open>n\<close> levels deep. A node whose type is \<^verbatim>\<open>string\<close> and that has at
  most a description besides takes one level; such nodes are added by the cleaning itself. The
  object of properties is no level of its own. When \<open>safe\<close>, moreover, arrays of required names hold no
  arrays and objects, on which the comparison would panic.
\<close>

fun scalar :: "'n json \<Rightarrow> bool" where
  "scalar (JArr _) = False"
| "scalar (JObj _) = False"
| "scalar _ = True"

definition leaf :: "'n object \<Rightarrow> bool" where
  "leaf m \<longleftrightarrow> field ''type'' m = Some (JStr ''string'') \<and>
     (\<forall>e \<in> set m. fst e \<in> {''type'', ''description''} \<and> scalar (snd e))"

definition required_plain :: "bool \<Rightarrow> string \<Rightarrow> 'n json \<Rightarrow> bool" where
  "required_plain safe k v \<longleftrightarrow> (safe \<longrightarrow> k = ''required'' \<longrightarrow> (\<forall>xs. v = JArr xs \<longrightarrow> list_all scalar xs))"

inductive fits :: "bool \<Rightarrow> nat \<Rightarrow> 'n json \<Rightarrow> bool" for safe where
  fits_scalar: "scalar v \<Longrightarrow> fits safe n v"
| fits_array: "(\<And>x. x \<in> set xs \<Longrightarrow> fits safe n x) \<Longrightarrow> fits safe n (JArr xs)"
| fits_leaf: "leaf m \<Longrightarrow> fits safe (Suc n) (JObj m)"
| fits_node: "0 < n \<Longrightarrow> (\<And>k v. (k, v) \<in> set m \<Longrightarrow> k \<noteq> ''properties'' \<or> (\<forall>props. v \<noteq> JObj props) \<Longrightarrow> fits safe n v) \<Longrightarrow>
    (\<And>props k v. (''properties'', JObj props) \<in> set m \<Longrightarrow> (k, v) \<in> set props \<Longrightarrow> fits safe n v) \<Longrightarrow>
    (\<And>k v. (k, v) \<in> set m \<Longrightarrow> required_plain safe k v) \<Longrightarrow> fits safe (Suc n) (JObj m)"

inductive_cases fits_objE: "fits safe n (JObj m)"
inductive_simps fits_arr [simp]: "fits safe n (JArr xs)"

text \<open>The entries of a node at one level.\<close>

definition entry_fits :: "bool \<Rightarrow> nat \<Rightarrow> string \<times> 'n json \<Rightarrow> bool" where
  "entry_fits safe n e \<longleftrightarrow> required_plain safe (fst e) (snd e) \<and>
     (case e of
        (k, JObj props) \<Rightarrow> if k = ''properties'' then \<forall>p \<in> set props. fits safe n (snd p) else fits safe n (JObj props)
      | (k, v) \<Rightarrow> fits safe n v)"

lemma fits_simps [simp]: "fits safe n JNull" "fits safe n (JBool b)" "fits safe n (JNum x)" "fits safe n (JStr s)"
  by (simp_all add: fits_scalar)

lemma not_fits_0 [simp]: "\<not> fits safe 0 (JObj m)"
  by (auto elim: fits_objE)

lemma required_plain_simps [simp]:
  "required_plain safe k (JObj m)" "required_plain safe k (JStr t)" "required_plain safe k JNull"
  "required_plain safe k (JBool b)" "required_plain safe k (JNum x)" "k \<noteq> ''required'' \<Longrightarrow> required_plain safe k v"
  "required_plain safe k (JArr (map JStr ts))" "required_plain safe k (JArr [JStr t])"
  by (simp_all add: required_plain_def list_all_iff)

lemma entry_fits_iff:
  "entry_fits safe n (k, v) \<longleftrightarrow> required_plain safe k v \<and>
     (k \<noteq> ''properties'' \<or> (\<forall>props. v \<noteq> JObj props) \<longrightarrow> fits safe n v) \<and>
     (\<forall>props. k = ''properties'' \<longrightarrow> v = JObj props \<longrightarrow> (\<forall>p \<in> set props. fits safe n (snd p)))"
  by (cases v) (auto simp: entry_fits_def)

lemma fits_obj_iff: "fits safe (Suc n) (JObj m) \<longleftrightarrow> leaf m \<or> 0 < n \<and> (\<forall>e \<in> set m. entry_fits safe n e)"
proof
  assume "fits safe (Suc n) (JObj m)"
  then show "leaf m \<or> 0 < n \<and> (\<forall>e \<in> set m. entry_fits safe n e)"
    by (rule fits_objE) (auto simp: entry_fits_iff)
next
  assume "leaf m \<or> 0 < n \<and> (\<forall>e \<in> set m. entry_fits safe n e)"
  then show "fits safe (Suc n) (JObj m)"
  proof
    assume *: "0 < n \<and> (\<forall>e \<in> set m. entry_fits safe n e)"
    then show ?thesis by (intro fits_node) (auto simp: entry_fits_iff dest!: bspec)
  qed (rule fits_leaf)
qed

lemma entry_fits_value: "entry_fits safe n (k, v) \<Longrightarrow> k \<noteq> ''properties'' \<or> (\<forall>props. v \<noteq> JObj props) \<Longrightarrow> fits safe n v"
  by (auto simp: entry_fits_def split: json.splits)

lemma entry_fitsI:
  "fits safe n v \<Longrightarrow> k \<noteq> ''properties'' \<or> (\<forall>props. v \<noteq> JObj props) \<Longrightarrow> required_plain safe k v \<Longrightarrow> entry_fits safe n (k, v)"
  by (auto simp: entry_fits_def split: json.splits)

lemma entry_fits_props [simp]: "entry_fits safe n (''properties'', JObj props) \<longleftrightarrow> (\<forall>p \<in> set props. fits safe n (snd p))"
  by (simp add: entry_fits_def)

lemma fits_mono: "fits safe n v \<Longrightarrow> n \<le> n' \<Longrightarrow> fits safe n' v"
proof (induction arbitrary: n' rule: fits.induct)
  case (fits_leaf m n)
  then show ?case by (cases n') (auto intro: fits.fits_leaf)
next
  case (fits_node n m)
  then show ?case by (cases n') (auto intro!: fits.fits_node)
qed (auto intro: fits_scalar)

text \<open>Every value fits a depth given by its size; \<open>comparable\<close> is what makes it safe.\<close>

inductive comparable :: "'n json \<Rightarrow> bool" where
  comparable_scalar: "scalar v \<Longrightarrow> comparable v"
| comparable_array: "(\<And>x. x \<in> set xs \<Longrightarrow> comparable x) \<Longrightarrow> comparable (JArr xs)"
| comparable_object: "(\<And>k v. (k, v) \<in> set m \<Longrightarrow> comparable v \<and> required_plain True k v) \<Longrightarrow> comparable (JObj m)"

inductive_simps comparable_iff [simp]: "comparable (JArr xs)" "comparable (JObj m)"

lemma fits_size:
  fixes v :: "'n json"
  assumes "safe \<Longrightarrow> comparable v"
  shows "fits safe (Suc (size v)) v"
  using assms
proof (induction "size v" arbitrary: v rule: less_induct)
  case less
  show ?case
  proof (cases v)
    case (JArr xs)
    have "fits safe (Suc (size v)) x" if "x \<in> set xs" for x
    proof -
      have "size x < size v" using that JArr by (simp add: less_Suc_eq_le size_list_estimation')
      moreover have "safe \<Longrightarrow> comparable x" using less.prems JArr that by simp
      ultimately show ?thesis using less.hyps [of x] by (meson Suc_le_mono fits_mono less_imp_le_nat)
    qed
    with JArr show ?thesis by simp
  next
    case (JObj m)
    have smaller: "fits safe (size v) w" if "size w < size v" "safe \<Longrightarrow> comparable w" for w :: "'n json"
      using less.hyps [OF that] that(1) by (meson Suc_leI fits_mono)
    have entry: "size w < size v" if "(k, w) \<in> set m" for k and w :: "'n json"
    proof -
      have "size w \<le> size_list (size_prod (\<lambda>_. 0) size) m" using that by (auto intro!: size_list_estimation')
      with JObj show ?thesis by simp
    qed
    have nested: "size u < size v" if "(k, JObj props) \<in> set m" "(k', u) \<in> set props" for k k' props and u :: "'n json"
    proof -
      have "size u \<le> size_list (size_prod (\<lambda>_. 0) size) props" using that(2) by (auto intro!: size_list_estimation')
      with entry [OF that(1)] show ?thesis by simp
    qed
    have "0 < size v" using JObj by simp
    then show ?thesis
      unfolding JObj
    proof (rule fits_node)
      show "required_plain safe k w" if "(k, w) \<in> set m" for k w
        using less.prems JObj that by (auto simp: required_plain_def)
    next
      fix k w assume "(k, w) \<in> set m"
      then show "fits safe (size (JObj m)) w"
        using smaller [of w] entry less.prems JObj by auto
    next
      fix props k w assume *: "(''properties'', JObj props) \<in> set m" "(k, w) \<in> set props"
      have "safe \<Longrightarrow> comparable u" if "(k', u) \<in> set m" for k' u using less.prems JObj that by auto
      from this [OF *(1)] show "fits safe (size (JObj m)) w" using smaller [of w] nested [OF *] JObj *(2) by auto
    qed
  qed auto
qed

section \<open>Every step keeps to the depth\<close>

definition node_fits :: "bool \<Rightarrow> nat \<Rightarrow> 'n object \<Rightarrow> bool" where
  "node_fits safe n m \<longleftrightarrow> (\<forall>e \<in> set m. entry_fits safe n e)"

lemma node_fits_sub: "node_fits safe n m \<Longrightarrow> (\<And>e. e \<in> set m' \<Longrightarrow> e \<in> set m \<or> entry_fits safe n e) \<Longrightarrow> node_fits safe n m'"
  unfolding node_fits_def by blast

lemma entry_fits_mono: "entry_fits safe n e \<Longrightarrow> n \<le> n' \<Longrightarrow> entry_fits safe n' e"
  by (cases e) (auto simp: entry_fits_iff intro: fits_mono)

lemma fits_entries:
  assumes "fits safe n (JObj s)"
  shows "node_fits safe n s"
proof (cases n)
  case (Suc k)
  with assms consider "leaf s" | "\<forall>e \<in> set s. entry_fits safe k e" by (auto simp: fits_obj_iff)
  then show ?thesis
  proof cases
    case 1
    then have "entry_fits safe n e" if "e \<in> set s" for e
      using that by (cases "snd e") (auto simp: leaf_def entry_fits_def split: prod.split)
    then show ?thesis by (simp add: node_fits_def)
  next
    case 2
    have "k \<le> n" using Suc by simp
    with 2 show ?thesis by (auto simp: node_fits_def intro: entry_fits_mono)
  qed
qed (use assms in simp)

lemma node_fits_field: "node_fits safe n m \<Longrightarrow> field k m = Some v \<Longrightarrow> entry_fits safe n (k, v)"
  using field_in_set by (fastforce simp: node_fits_def)

lemma node_fits_arr: "node_fits safe n m \<Longrightarrow> field k m = Some (JArr xs) \<Longrightarrow> x \<in> set xs \<Longrightarrow> fits safe n x"
  using node_fits_field by (fastforce simp: entry_fits_def)

lemma node_fits_props: "node_fits safe n m \<Longrightarrow> field ''properties'' m = Some (JObj ps) \<Longrightarrow> (k, v) \<in> set ps \<Longrightarrow> fits safe n v"
  using node_fits_field by fastforce

lemma node_fits_set: "node_fits safe n m \<Longrightarrow> entry_fits safe n (k, v) \<Longrightarrow> node_fits safe n (set_field k v m)"
  by (erule node_fits_sub) (use set_set_field [of k v m] in blast)

lemma node_fits_del: "node_fits safe n m \<Longrightarrow> node_fits safe n (del_field k m)"
  by (erule node_fits_sub) (use set_del_field [of k m] in blast)

lemma set_fold_set: "set (fold (\<lambda>(k, v). set_field k v) es m) \<subseteq> set es \<union> set m"
proof (induction es arbitrary: m)
  case (Cons e es)
  show ?case using Cons [of "set_field (fst e) (snd e) m"] set_set_field [of "fst e" "snd e" m]
    by (auto simp: case_prod_beta)
qed simp

lemma objects_of_iff [simp]: "s \<in> set (objects_of xs) \<longleftrightarrow> JObj s \<in> set xs"
  by (induction xs) (auto simp: objects_of_def map_filter_simps split: json.splits)

lemma in_arr_field [simp]:
  "x \<in> set (or_empty (arr_field k m)) \<longleftrightarrow> (\<exists>xs. field k m = Some (JArr xs) \<and> x \<in> set xs)"
  by (auto simp: or_empty_def arr_field_def split: option.splits json.splits)

lemma merged_props_from:
  "e \<in> set (merged_props subs) \<Longrightarrow> \<exists>s \<in> set subs. \<exists>ps. obj_field ''properties'' s = Some ps \<and> e \<in> set ps"
proof -
  have "e \<in> set (fold (\<lambda>s ps. fold (\<lambda>(k, v). set_field k v) (or_empty (obj_field ''properties'' s)) ps) subs acc) \<Longrightarrow>
    e \<in> set acc \<or> (\<exists>s \<in> set subs. \<exists>ps. obj_field ''properties'' s = Some ps \<and> e \<in> set ps)" for acc
  proof (induction subs arbitrary: acc)
    case (Cons s subs)
    from Cons.IH [OF Cons.prems [unfolded fold_simps]]
      set_fold_set [of "or_empty (obj_field ''properties'' s)" acc]
    show ?case by (auto simp: or_empty_def split: option.splits)
  qed simp
  then show "e \<in> set (merged_props subs) \<Longrightarrow> ?thesis" by (fastforce simp: merged_props_def)
qed

lemma other_fields_from:
  "e \<in> set (other_fields subs) \<Longrightarrow> fst e \<noteq> ''properties'' \<and> (\<exists>s \<in> set subs. e \<in> set s)"
proof -
  let ?f = "\<lambda>(k, v) others. if k \<in> {''properties'', ''required'', ''allOf''} then others else set_missing (k, v) others"
  have one: "e \<in> set (fold ?f s acc) \<Longrightarrow> e \<in> set acc \<or> fst e \<noteq> ''properties'' \<and> e \<in> set s" for s acc
  proof (induction s arbitrary: acc)
    case (Cons x s)
    from Cons.IH [OF Cons.prems [unfolded fold_simps]] set_set_missing [of x acc]
    show ?case by (cases x) (auto split: if_splits)
  qed simp
  have "e \<in> set (fold (\<lambda>s. fold ?f s) subs acc) \<Longrightarrow>
    e \<in> set acc \<or> fst e \<noteq> ''properties'' \<and> (\<exists>s \<in> set subs. e \<in> set s)" for acc
  proof (induction subs arbitrary: acc)
    case (Cons s subs)
    from Cons.IH [OF Cons.prems [unfolded fold_simps]] one [of s acc] show ?case by auto
  qed simp
  then show "e \<in> set (other_fields subs) \<Longrightarrow> ?thesis" by (fastforce simp: other_fields_def)
qed

lemma node_fits_fold_missing: "node_fits safe n es \<Longrightarrow> node_fits safe n m \<Longrightarrow> node_fits safe n (fold set_missing es m)"
  using set_fold_missing [of es m] by (auto simp: node_fits_def)

lemma entry_fits_required [simp]: "entry_fits safe n (k, JArr (map JStr ss))" "entry_fits safe n (k, JStr s)"
  by (auto simp: entry_fits_def)

lemma mergeAllOf_fits:
  assumes m: "node_fits safe n m"
  shows "node_fits safe n (mergeAllOf ord m)"
proof (cases "arr_field ''allOf'' m")
  case (Some allOf)
  let ?subs = "objects_of allOf"
  have sub: "node_fits safe n s" if "s \<in> set ?subs" for s
    using node_fits_arr [OF m, of "''allOf''" allOf "JObj s"] Some that by (auto intro: fits_entries)
  have others: "node_fits safe n (other_fields ?subs)"
    using other_fields_from [of _ ?subs] sub unfolding node_fits_def by blast
  have props: "fits safe n v" if "(k, v) \<in> set (merged_props ?subs)" for k v
    using merged_props_from [OF that] sub node_fits_props by fastforce
  define m1 where "m1 = fold set_missing (other_fields ?subs) (del_field ''allOf'' m)"
  have m1: "node_fits safe n m1" unfolding m1_def by (rule node_fits_fold_missing [OF others node_fits_del [OF m]])
  define ps where "ps = fold set_missing (merged_props ?subs) (or_empty (obj_field ''properties'' m1))"
  have "fits safe n v" if "(k, v) \<in> set ps" for k v
    using that props node_fits_props [OF m1] set_fold_missing [of "merged_props ?subs" "or_empty (obj_field ''properties'' m1)"]
    by (fastforce simp: ps_def or_empty_def split: option.splits)
  then have m2: "node_fits safe n (set_field ''properties'' (JObj ps) m1)"
    by (intro node_fits_set [OF m1]) auto
  show ?thesis using m1 m2 Some by (simp add: mergeAllOf_def Let_def m1_def [symmetric] ps_def [symmetric] node_fits_set
      del: map_append)
qed (use m in \<open>simp add: mergeAllOf_def\<close>)

lemma best_in: "extractBestSchemaFromUnion xs \<in> insert JNull (set xs)"
proof -
  have "fst (foldl (\<lambda>(b, sc) i. if scoreSchemaOption i > sc then (i, scoreSchemaOption i) else (b, sc)) (b0, s0) xs)
    \<in> insert b0 (set xs)" for b0 and s0 :: int
  proof (induction xs arbitrary: b0 s0)
    case (Cons a xs)
    show ?case using Cons.IH [of a "scoreSchemaOption a"] Cons.IH [of b0 s0] by auto
  qed simp
  then show ?thesis by (simp add: extractBestSchemaFromUnion_def)
qed

lemma best_fits: "(\<And>x. x \<in> set xs \<Longrightarrow> fits safe n x) \<Longrightarrow> fits safe n (extractBestSchemaFromUnion xs)"
  using best_in [of xs] by auto

lemma leaf_string: "leaf [(''type'', JStr ''string'')]"
  by (simp add: leaf_def field_def)

lemma or_string_fits: "0 < n \<Longrightarrow> fits safe n v \<Longrightarrow> fits safe n (or_string v)"
  using fits_leaf [OF leaf_string] by (cases n) (auto simp: or_string_def split: json.split)

lemma lift_prefix_fits:
  assumes "0 < n" and "node_fits safe n m"
  shows "node_fits safe n (lift_prefix_items m)"
proof -
  have "node_fits safe n (set_field ''items'' (or_string (extractBestSchemaFromUnion xs)) m)"
    if "field ''prefixItems'' m = Some (JArr xs)" for xs
    using that assms node_fits_arr [OF assms(2), of "''prefixItems''" xs]
    by (intro node_fits_set entry_fitsI or_string_fits best_fits) auto
  then show ?thesis using assms(2) by (auto simp: lift_prefix_items_def intro!: node_fits_del split: option.split json.split)
qed

section \<open>What holds after the children are cleaned\<close>

definition plain_ok :: "'n object \<Rightarrow> bool" where
  "plain_ok m \<longleftrightarrow> (\<forall>(k, v) \<in> set m. cleaned_form v \<and> (\<forall>xs. v = JArr xs \<longrightarrow> (\<forall>x \<in> set xs. cleaned_form x)))"

definition parts_ok :: "'n object \<Rightarrow> bool" where
  "parts_ok m \<longleftrightarrow>
     (\<forall>props k v. field ''properties'' m = Some (JObj props) \<longrightarrow> (k, v) \<in> set props \<longrightarrow> cleaned_form v) \<and>
     (\<forall>v. field ''items'' m = Some v \<longrightarrow> cleaned_form v)"

definition is_object :: "'n json \<Rightarrow> bool" where
  "is_object v \<longleftrightarrow> (\<exists>m. v = JObj m)"

text \<open>What the cleaning of a value at depth \<open>n\<close> gives.\<close>

definition cleaned :: "bool \<Rightarrow> nat \<Rightarrow> 'n json \<Rightarrow> 'n json \<Rightarrow> bool" where
  "cleaned safe n v w \<longleftrightarrow> fits safe n w \<and> cleaned_form w \<and> (is_object w \<longleftrightarrow> is_object v) \<and> (\<not> is_object v \<longrightarrow> w = v)"

definition cleans :: "bool \<Rightarrow> nat \<Rightarrow> ('n json \<Rightarrow> 'n json json_outcome) \<Rightarrow> bool" where
  "cleans safe n c \<longleftrightarrow> (\<forall>v. fits safe n v \<longrightarrow> yields safe (cleaned safe n v) (c v))"

lemma cleansD: "cleans safe n c \<Longrightarrow> fits safe n v \<Longrightarrow> yields safe (cleaned safe n v) (c v)"
  by (simp add: cleans_def)

lemma clean_fields_ok:
  fixes c :: "'n json \<Rightarrow> 'n json json_outcome"
  assumes "cleans safe n c" and "\<And>k v. (k, v) \<in> set ps \<Longrightarrow> fits safe n v"
  shows "yields safe (\<lambda>ps'. \<forall>(k, v) \<in> set ps'. fits safe n v \<and> cleaned_form v) (each_field c ps)"
proof (rule yields_mono [OF yields_each_field])
  fix k v assume "(k, v) \<in> set ps"
  then show "yields safe ((\<lambda>k. cleaned safe n) k v) (c v)" using assms by (simp add: cleansD)
next
  fix ps' :: "'n object" assume "list_all2 (\<lambda>(k, v) (k', w). k' = k \<and> cleaned safe n v w) ps ps'"
  then show "\<forall>(k, v) \<in> set ps'. fits safe n v \<and> cleaned_form v"
    by (auto dest!: list_all2_set2 simp: cleaned_def)
qed

lemma clean_properties_ok:
  fixes c :: "'n json \<Rightarrow> 'n json json_outcome"
  assumes c: "cleans safe n c" and m: "node_fits safe n m"
  shows "yields safe (\<lambda>m'. node_fits safe n m' \<and> (\<forall>k. has_key k m' = has_key k m) \<and>
      (\<forall>k. k \<noteq> ''properties'' \<longrightarrow> field k m' = field k m) \<and>
      (\<forall>props k v. field ''properties'' m' = Some (JObj props) \<longrightarrow> (k, v) \<in> set props \<longrightarrow> cleaned_form v) \<and>
      (\<not> has_key ''properties'' m \<longrightarrow> m' = m))
    (clean_properties c m)"
proof (cases "obj_field ''properties'' m")
  case (Some ps)
  then have p: "field ''properties'' m = Some (JObj ps)" by simp
  show ?thesis
    unfolding clean_properties_def Some option.simps
  proof (rule yields_and_then [OF clean_fields_ok [OF c]])
    show "fits safe n v" if "(k, v) \<in> set ps" for k v using node_fits_props [OF m p that] .
    fix ps' :: "'n object"
    assume ps': "\<forall>(k, v) \<in> set ps'. fits safe n v \<and> cleaned_form v"
    then have "node_fits safe n (set_field ''properties'' (JObj ps') m)" by (intro node_fits_set [OF m]) auto
    with ps' p show "yields safe (\<lambda>m'. node_fits safe n m' \<and> (\<forall>k. has_key k m' = has_key k m) \<and>
        (\<forall>k. k \<noteq> ''properties'' \<longrightarrow> field k m' = field k m) \<and>
        (\<forall>props k v. field ''properties'' m' = Some (JObj props) \<longrightarrow> (k, v) \<in> set props \<longrightarrow> cleaned_form v) \<and>
        (\<not> has_key ''properties'' m \<longrightarrow> m' = m))
      (Done (set_field ''properties'' (JObj ps') m))"
      by (auto simp: has_key_field)
  qed
next
  case None
  then show ?thesis using m by (auto simp: clean_properties_def obj_field_def)
qed

lemma clean_items_ok:
  assumes c: "cleans safe n c" and m: "node_fits safe n m"
  shows "yields safe (\<lambda>m'. node_fits safe n m' \<and> (\<forall>k. has_key k m' = has_key k m) \<and>
      (\<forall>k. k \<noteq> ''items'' \<longrightarrow> field k m' = field k m) \<and>
      (\<forall>v. field ''items'' m' = Some v \<longrightarrow> cleaned_form v) \<and> (\<not> has_key ''items'' m \<longrightarrow> m' = m))
    (clean_items c m)"
proof (cases "field ''items'' m")
  case (Some v)
  have "fits safe n v" using node_fits_field [OF m Some] by (auto intro: entry_fits_value)
  note cv = cleansD [OF c this]
  show ?thesis
    unfolding clean_items_def Some option.simps
  proof (rule yields_and_then [OF cv])
    fix w assume w: "cleaned safe n v w"
    then have "node_fits safe n (set_field ''items'' w m)" by (intro node_fits_set [OF m] entry_fitsI) (auto simp: cleaned_def)
    with w Some show "yields safe (\<lambda>m'. node_fits safe n m' \<and> (\<forall>k. has_key k m' = has_key k m) \<and>
        (\<forall>k. k \<noteq> ''items'' \<longrightarrow> field k m' = field k m) \<and>
        (\<forall>v. field ''items'' m' = Some v \<longrightarrow> cleaned_form v) \<and> (\<not> has_key ''items'' m \<longrightarrow> m' = m))
      (Done (set_field ''items'' w m))"
      by (auto simp: has_key_field cleaned_def)
  qed
qed (use m in \<open>auto simp: clean_items_def has_key_field\<close>)

definition children_clean :: "bool \<Rightarrow> nat \<Rightarrow> 'n object \<Rightarrow> bool" where
  "children_clean safe n m \<longleftrightarrow> node_fits safe n m \<and> parts_ok m \<and>
     (\<not> has_key ''properties'' m \<and> \<not> has_key ''items'' m \<longrightarrow> plain_ok m)"

lemma clean_other_ok:
  assumes c: "cleans safe n c" and "fits safe n v"
  shows "yields safe (\<lambda>w. fits safe n w \<and> cleaned_form w \<and> (\<forall>xs. w = JArr xs \<longrightarrow> (\<forall>x \<in> set xs. cleaned_form x)) \<and>
      (\<forall>k. required_plain safe k v \<longrightarrow> required_plain safe k w)) (clean_other c v)"
proof (cases v)
  case (JArr xs)
  have "yields safe (list_all2 (cleaned safe n) xs) (each c xs)"
    by (rule yields_each) (use JArr assms in \<open>auto intro: cleansD\<close>)
  then show ?thesis
    unfolding clean_other_def JArr json.case
  proof (rule yields_and_then)
    fix ys assume l: "list_all2 (cleaned safe n) xs ys"
    have "fits safe n y \<and> cleaned_form y" if "y \<in> set ys" for y
      using list_all2_set2 [OF l that] by (auto simp: cleaned_def)
    moreover have "list_all scalar ys" if "list_all scalar xs"
    proof -
      have "scalar y" if "y \<in> set ys" for y
      proof -
        from list_all2_set2 [OF l that] obtain x where x: "x \<in> set xs" "cleaned safe n x y" by blast
        with \<open>list_all scalar xs\<close> have "scalar x" by (simp add: list_all_iff)
        moreover from this have "\<not> is_object x" by (auto simp: is_object_def)
        ultimately show ?thesis using x(2) by (simp add: cleaned_def)
      qed
      then show ?thesis by (simp add: list_all_iff)
    qed
    ultimately show "yields safe (\<lambda>w. fits safe n w \<and> cleaned_form w \<and> (\<forall>xs. w = JArr xs \<longrightarrow> (\<forall>x \<in> set xs. cleaned_form x)) \<and>
        (\<forall>k. required_plain safe k (JArr xs) \<longrightarrow> required_plain safe k w)) (Done (JArr ys))"
      by (simp add: required_plain_def)
  qed
next
  case (JObj m)
  have "yields safe (cleaned safe n v) (c v)" using assms by (rule cleansD)
  then show ?thesis
    unfolding clean_other_def JObj json.case
    by (rule yields_mono) (auto simp: cleaned_def is_object_def)
qed (use assms in \<open>simp_all add: clean_other_def\<close>)

lemma clean_others_ok:
  fixes c :: "'n json \<Rightarrow> 'n json json_outcome"
  assumes c: "cleans safe n c" and m: "node_fits safe n m" and no: "\<not> has_key ''properties'' m"
  shows "yields safe (\<lambda>m'. node_fits safe n m' \<and> plain_ok m' \<and> (\<forall>k. has_key k m' = has_key k m)) (each_field (clean_other c) m)"
proof -
  have np: "k \<noteq> ''properties''" if "(k, v) \<in> set m" for k v
    using that no by (auto simp: has_key_def map_of_eq_None_iff image_iff)
  show ?thesis
  proof (rule yields_mono [OF yields_each_field])
    fix k v assume kv: "(k, v) \<in> set m"
    have "fits safe n v" "required_plain safe k v" using m kv np [OF kv] by (auto simp: node_fits_def entry_fits_iff)
    then show "yields safe ((\<lambda>k v w. k \<noteq> ''properties'' \<and> fits safe n w \<and> cleaned_form w \<and>
        (\<forall>xs. w = JArr xs \<longrightarrow> (\<forall>x \<in> set xs. cleaned_form x)) \<and> required_plain safe k w) k v) (clean_other c v)"
      by (elim yields_mono [OF clean_other_ok [OF c]]) (use np [OF kv] in auto)
  next
    fix m' :: "'n object"
    assume l: "list_all2 (\<lambda>(k, v) (k', w). k' = k \<and> k \<noteq> ''properties'' \<and> fits safe n w \<and> cleaned_form w \<and>
        (\<forall>xs. w = JArr xs \<longrightarrow> (\<forall>x \<in> set xs. cleaned_form x)) \<and> required_plain safe k w) m m'"
    then have "map fst m' = map fst m" by (induction rule: list_all2_induct) auto
    then have "has_key k m' = has_key k m" for k
      by (simp add: has_key_def map_of_eq_None_iff flip: set_map)
    moreover have "entry_fits safe n (k, w) \<and> cleaned_form w \<and> (\<forall>xs. w = JArr xs \<longrightarrow> (\<forall>x \<in> set xs. cleaned_form x))"
      if "(k, w) \<in> set m'" for k w
      using list_all2_set2 [OF l that] by (auto intro: entry_fitsI)
    ultimately show "node_fits safe n m' \<and> plain_ok m' \<and> (\<forall>k. has_key k m' = has_key k m)"
      by (auto simp: node_fits_def plain_ok_def)
  qed
qed

lemma clean_children_ok:
  fixes c :: "'n json \<Rightarrow> 'n json json_outcome"
  assumes c: "cleans safe n c" and m: "node_fits safe n m" and n: "0 < n"
  shows "yields safe (children_clean safe n) (clean_children c m)"
  unfolding clean_children_def
proof (rule yields_and_then [OF clean_properties_ok [OF c m]])
  fix m1 :: "'n object"
  assume m1: "node_fits safe n m1 \<and> (\<forall>k. has_key k m1 = has_key k m) \<and>
      (\<forall>k. k \<noteq> ''properties'' \<longrightarrow> field k m1 = field k m) \<and>
      (\<forall>props k v. field ''properties'' m1 = Some (JObj props) \<longrightarrow> (k, v) \<in> set props \<longrightarrow> cleaned_form v) \<and>
      (\<not> has_key ''properties'' m \<longrightarrow> m1 = m)"
  define m2 where "m2 = (case arr_field ''items'' m1 of
      Some xs \<Rightarrow> set_field ''items'' (or_string (extractBestSchemaFromUnion xs)) m1 | None \<Rightarrow> m1)"
  have m2: "node_fits safe n m2"
  proof (cases "arr_field ''items'' m1")
    case (Some xs)
    then have "\<And>x. x \<in> set xs \<Longrightarrow> fits safe n x" using node_fits_arr [of safe n m1 "''items''" xs] m1 by auto
    with Some m1 n show ?thesis
      by (auto simp: m2_def intro!: node_fits_set entry_fitsI or_string_fits best_fits)
  qed (use m1 in \<open>simp add: m2_def\<close>)
  have f2: "field ''properties'' m2 = field ''properties'' m1"
    by (simp add: m2_def split: option.split)
  show "yields safe (children_clean safe n) (and_then (clean_items c m2) (\<lambda>m.
     if has_key ''properties'' m \<or> has_key ''items'' m then Done m else each_field (clean_other c) m))"
  proof (rule yields_and_then [OF clean_items_ok [OF c m2]])
    fix m3 :: "'n object"
    assume m3: "node_fits safe n m3 \<and> (\<forall>k. has_key k m3 = has_key k m2) \<and>
      (\<forall>k. k \<noteq> ''items'' \<longrightarrow> field k m3 = field k m2) \<and>
      (\<forall>v. field ''items'' m3 = Some v \<longrightarrow> cleaned_form v) \<and> (\<not> has_key ''items'' m2 \<longrightarrow> m3 = m2)"
    show "yields safe (children_clean safe n) (if has_key ''properties'' m3 \<or> has_key ''items'' m3 then Done m3
        else each_field (clean_other c) m3)"
    proof (cases "has_key ''properties'' m3 \<or> has_key ''items'' m3")
      case True
      then show ?thesis using m1 m3 f2 by (auto simp: children_clean_def parts_ok_def)
    next
      case False
      then have "yields safe (\<lambda>m'. node_fits safe n m' \<and> plain_ok m' \<and> (\<forall>k. has_key k m' = has_key k m3)) (each_field (clean_other c) m3)"
        using m3 by (intro clean_others_ok [OF c]) auto
      then have "yields safe (children_clean safe n) (each_field (clean_other c) m3)"
      proof (rule yields_mono)
        fix m' assume m': "node_fits safe n m' \<and> plain_ok m' \<and> (\<forall>k. has_key k m' = has_key k m3)"
        with False have "\<not> has_key ''properties'' m'" "\<not> has_key ''items'' m'" by auto
        then have "field ''properties'' m' = None" "field ''items'' m' = None" by (simp_all add: has_key_field)
        with m' show "children_clean safe n m'" by (simp add: children_clean_def parts_ok_def)
      qed
      with False show ?thesis by simp
    qed
  qed
qed

section \<open>Merging a branch\<close>

lemma add_required_from:
  assumes "safe \<Longrightarrow> list_all scalar src"
  shows "yields safe (\<lambda>req. set req \<subseteq> set src \<union> set target) (add_required src target)"
  using assms
proof (induction src arbitrary: target)
  case (Cons rv src)
  have "yields safe (\<lambda>_. True) (any_equal tr rv)" for tr
    using Cons.prems by (cases "(tr, rv)" rule: any_equal.cases) auto
  then have "yields safe (\<lambda>_. True) (any_member rv target)"
    by (induction target) (auto intro!: yields_and_then [where P = "\<lambda>_. True"])
  then show ?case
    unfolding add_required.simps
  proof (rule yields_and_then)
    fix there :: bool
    show "yields safe (\<lambda>req. set req \<subseteq> set (rv # src) \<union> set target)
        (add_required src (if there then target else target @ [rv]))"
      by (rule yields_mono [OF Cons.IH]) (use Cons.prems in \<open>auto split: if_splits\<close>)
  qed
qed simp

definition merge_ok :: "bool \<Rightarrow> nat \<Rightarrow> 'n object \<Rightarrow> 'n object \<Rightarrow> 'n object \<Rightarrow> bool" where
  "merge_ok safe n b m m' \<longleftrightarrow> node_fits safe n m' \<and> (\<forall>k. has_key k m \<longrightarrow> has_key k m') \<and>
     (\<forall>e \<in> set b. fst e \<noteq> ''required'' \<longrightarrow> has_key (fst e) m') \<and>
     (has_key ''properties'' m' \<or> \<not> (plain_ok b \<and> plain_ok m) \<or> plain_ok m')"

lemma has_key_set [simp]: "has_key k (set_field k' v m) \<longleftrightarrow> k = k' \<or> has_key k m"
  by (simp add: has_key_field)

lemma has_key_missing [simp]: "has_key k (set_missing e m) \<longleftrightarrow> k = fst e \<or> has_key k m"
  by (auto simp: set_missing_def)

lemma plain_ok_set: "plain_ok m \<Longrightarrow> cleaned_form v \<Longrightarrow> (\<forall>xs. v = JArr xs \<longrightarrow> (\<forall>x \<in> set xs. cleaned_form x)) \<Longrightarrow> plain_ok (set_field k v m)"
  using set_set_field [of k v m] by (fastforce simp: plain_ok_def)

lemma plain_ok_single:
  "plain_ok [e] \<longleftrightarrow> cleaned_form (snd e) \<and> (\<forall>xs. snd e = JArr xs \<longrightarrow> (\<forall>x \<in> set xs. cleaned_form x))"
  by (simp add: plain_ok_def case_prod_beta)

lemma plain_ok_Cons: "plain_ok (e # b) \<longleftrightarrow> plain_ok [e] \<and> plain_ok b"
  by (simp add: plain_ok_def)

lemma plain_ok_missing: "plain_ok m \<Longrightarrow> plain_ok [e] \<Longrightarrow> plain_ok (set_missing e m)"
  using plain_ok_set [of m "snd e" "fst e"] by (simp add: set_missing_def plain_ok_single)

lemma plain_ok_arr: "plain_ok m \<Longrightarrow> field k m = Some (JArr xs) \<Longrightarrow> x \<in> set xs \<Longrightarrow> cleaned_form x"
  using field_in_set by (fastforce simp: plain_ok_def)

lemma merge_field_ok:
  assumes m: "node_fits safe n m" and e: "entry_fits safe n e"
  shows "yields safe (merge_ok safe n [e] m) (merge_field e m)"
proof -
  obtain k v where kv: "e = (k, v)" by fastforce
  consider (p) "k = ''properties''" | (r) src where "k = ''required''" "v = JArr src"
    | (r2) "k = ''required''" "\<forall>src. v \<noteq> JArr src" | (o) "k \<noteq> ''properties''" "k \<noteq> ''required''"
    by (cases v) auto
  then show ?thesis
  proof cases
    case p
    define target where "target = or_empty (obj_field ''properties'' m)"
    define ps where "ps = (case v of JObj src \<Rightarrow> fold set_missing src target | _ \<Rightarrow> target)"
    have t: "\<forall>p \<in> set target. fits safe n (snd p)"
    proof (cases "obj_field ''properties'' m")
      case (Some ps)
      then show ?thesis using node_fits_field [OF m, of "''properties''" "JObj ps"] by (simp add: target_def or_empty_def)
    qed (simp add: target_def or_empty_def)
    have "\<forall>p \<in> set ps. fits safe n (snd p)"
    proof (cases v)
      case (JObj src)
      then have "\<forall>p \<in> set src. fits safe n (snd p)" using e kv p by simp
      with t JObj set_fold_missing [of src target] show ?thesis by (auto simp: ps_def)
    qed (use t in \<open>simp_all add: ps_def\<close>)
    then have "node_fits safe n (set_field ''properties'' (JObj ps) m)" by (intro node_fits_set [OF m]) simp
    then show ?thesis
      using p kv by (simp add: merge_field_def Let_def target_def [symmetric] ps_def [symmetric] merge_ok_def)
  next
    case r
    let ?target = "or_empty (arr_field ''required'' m)"
    have m': "fits safe n x" if "x \<in> set src \<union> set ?target" for x
      using that e kv r node_fits_arr [OF m, of "''required''"]
      by (auto simp: entry_fits_def)
    have sc: "scalar x" if safe "x \<in> set src \<union> set ?target" for x
      using that e kv r node_fits_field [OF m, of "''required''"]
      by (auto simp: entry_fits_iff required_plain_def list_all_iff)
    have ok: "plain_ok [e] \<Longrightarrow> plain_ok m \<Longrightarrow> x \<in> set src \<union> set ?target \<Longrightarrow> cleaned_form x" for x
      using kv r plain_ok_arr [of m "''required''"] by (auto simp: plain_ok_single)
    have "yields safe (merge_ok safe n [e] m) (and_then (add_required src ?target)
        (\<lambda>req. Done (set_field ''required'' (JArr req) m)))"
    proof (rule yields_and_then [OF add_required_from])
      show "safe \<Longrightarrow> list_all scalar src" using sc by (simp add: list_all_iff)
      fix req assume req: "set req \<subseteq> set src \<union> set ?target"
      have "node_fits safe n (set_field ''required'' (JArr req) m)"
        using req m' sc by (intro node_fits_set [OF m] entry_fitsI) (auto simp: required_plain_def list_all_iff)
      moreover have "plain_ok [e] \<Longrightarrow> plain_ok m \<Longrightarrow> plain_ok (set_field ''required'' (JArr req) m)"
        using req ok by (intro plain_ok_set) auto
      ultimately show "yields safe (merge_ok safe n [e] m) (Done (set_field ''required'' (JArr req) m))"
        using r kv by (auto simp: merge_ok_def)
    qed
    then show ?thesis using r kv by (simp add: merge_field_def)
  next
    case r2
    then show ?thesis using m kv by (cases v) (auto simp: merge_field_def merge_ok_def)
  next
    case o
    have "node_fits safe n (set_missing e m)" using m e set_set_missing [of e m] by (auto simp: node_fits_def)
    then show ?thesis
      using o kv plain_ok_missing [of m e] by (auto simp: merge_field_def merge_ok_def)
  qed
qed

lemma merge_branch_ok:
  fixes m :: "'n object"
  assumes "node_fits safe n m" and "node_fits safe n b"
  shows "yields safe (merge_ok safe n b m) (merge_branch b m)"
  using assms
proof (induction b arbitrary: m)
  case (Cons e b)
  have "entry_fits safe n e" using Cons.prems by (simp add: node_fits_def)
  show ?case
    unfolding merge_branch.simps
  proof (rule yields_and_then [OF merge_field_ok [OF Cons.prems(1) \<open>entry_fits safe n e\<close>]])
    fix m1 :: "'n object"
    assume m1: "merge_ok safe n [e] m m1"
    have "node_fits safe n m1" "node_fits safe n b" using m1 Cons.prems(2) by (simp_all add: merge_ok_def node_fits_def)
    from Cons.IH [OF this] show "yields safe (merge_ok safe n (e # b) m) (merge_branch b m1)"
    proof (rule yields_mono)
      fix m2 assume "merge_ok safe n b m1 m2"
      with m1 show "merge_ok safe n (e # b) m m2" unfolding merge_ok_def plain_ok_Cons [of e b] by auto
    qed
  qed
qed (simp add: merge_ok_def)

definition node_clean :: "bool \<Rightarrow> nat \<Rightarrow> 'n object \<Rightarrow> bool" where
  "node_clean safe n m \<longleftrightarrow> node_fits safe n m \<and> parts_ok m \<and> (looks_like_schema m \<or> plain_ok m)"

lemma looks_iff:
  "looks_like_schema m \<longleftrightarrow> (\<exists>k \<in> {''type'', ''properties'', ''items'', ''enum'', ''const'', ''anyOf'', ''oneOf'', ''allOf''}. has_key k m)"
  by (auto simp: looks_like_schema_def)

lemma union_array_in: "x \<in> set (union_array m) \<Longrightarrow> \<exists>k xs. field k m = Some (JArr xs) \<and> x \<in> set xs"
  by (auto simp: union_array_def Let_def split: if_splits option.splits)

lemma plain_branch:
  assumes "cleaned_form (JObj b)" and "\<not> has_key ''type'' b"
  shows "plain_ok b"
proof -
  have "\<not> cleaned_node b" using assms(2) by (auto simp: cleaned_node_def has_key_field)
  with assms(1) show ?thesis unfolding cleaned_form_obj plain_ok_def by blast
qed

lemma plain_ok_sub: "plain_ok m \<Longrightarrow> set m' \<subseteq> set m \<Longrightarrow> plain_ok m'"
  unfolding plain_ok_def by blast

lemma has_key_del [simp]: "has_key k (del_field k' m) \<longleftrightarrow> k \<noteq> k' \<and> has_key k m"
  by (simp add: has_key_field)

lemma merge_union_ok:
  fixes c :: "'n json \<Rightarrow> 'n json json_outcome"
  assumes c: "cleans safe n c" and m: "children_clean safe n m"
  shows "yields safe (node_clean safe n) (merge_union c m)"
proof (cases "extractBestSchemaFromUnion (union_array m)")
  case (JObj b)
  then have "JObj b \<in> set (union_array m)" using best_in [of "union_array m"] by auto
  then obtain k xs where k: "field k m = Some (JArr xs)" "JObj b \<in> set xs" using union_array_in by blast
  have fm: "node_fits safe n m" using m by (simp add: children_clean_def)
  have fb: "node_fits safe n b" using node_fits_arr [OF fm k] by (rule fits_entries)
  show ?thesis
    unfolding merge_union_def JObj json.case
  proof (rule yields_and_then [OF merge_branch_ok [OF fm fb]])
    fix m1 :: "'n object"
    assume m1: "merge_ok safe n b m m1"
    let ?m2 = "del_field ''oneOf'' (del_field ''anyOf'' m1)"
    have f2: "node_fits safe n ?m2" using m1 by (intro node_fits_del) (simp add: merge_ok_def)
    show "yields safe (node_clean safe n) (and_then (clean_properties c ?m2) (clean_items c))"
    proof (rule yields_and_then [OF clean_properties_ok [OF c f2]])
      fix m3 :: "'n object"
      assume m3: "node_fits safe n m3 \<and> (\<forall>k. has_key k m3 = has_key k ?m2) \<and>
        (\<forall>k. k \<noteq> ''properties'' \<longrightarrow> field k m3 = field k ?m2) \<and>
        (\<forall>props k v. field ''properties'' m3 = Some (JObj props) \<longrightarrow> (k, v) \<in> set props \<longrightarrow> cleaned_form v) \<and>
        (\<not> has_key ''properties'' ?m2 \<longrightarrow> m3 = ?m2)"
      then have f3: "node_fits safe n m3" by blast
      show "yields safe (node_clean safe n) (clean_items c m3)"
      proof (rule yields_mono [OF clean_items_ok [OF c f3]])
        fix m4 :: "'n object"
        assume m4: "node_fits safe n m4 \<and> (\<forall>k. has_key k m4 = has_key k m3) \<and>
          (\<forall>k. k \<noteq> ''items'' \<longrightarrow> field k m4 = field k m3) \<and>
          (\<forall>v. field ''items'' m4 = Some v \<longrightarrow> cleaned_form v) \<and> (\<not> has_key ''items'' m3 \<longrightarrow> m4 = m3)"
        have "plain_ok m4" if "\<not> looks_like_schema m4"
        proof -
          have no: "\<not> has_key k m1" if "k \<in> {''type'', ''properties'', ''items''}" for k
            using \<open>\<not> looks_like_schema m4\<close> that m3 m4 by (auto simp: looks_iff)
          then have "m4 = ?m2" using m3 m4 by auto
          have "plain_ok m"
            using m1 m no by (auto simp: merge_ok_def children_clean_def)
          then have "cleaned_form (JObj b)" using plain_ok_arr k by blast
          moreover have "\<not> has_key ''type'' b"
          proof
            assume "has_key ''type'' b"
            then obtain v where "(''type'', v) \<in> set b" by (auto simp: has_key_field dest: field_in_set)
            then have "has_key ''type'' m1" using m1 by (fastforce simp: merge_ok_def)
            with no show False by blast
          qed
          ultimately have "plain_ok b" by (rule plain_branch)
          with \<open>plain_ok m\<close> have "plain_ok m1" using m1 no by (auto simp: merge_ok_def)
          then have "plain_ok ?m2"
            by (rule plain_ok_sub) (meson order_trans set_del_field)
          with \<open>m4 = ?m2\<close> show ?thesis by simp
        qed
        with m3 m4 show "node_clean safe n m4" by (auto simp: node_clean_def parts_ok_def)
      qed
    qed
  qed
qed (use m in \<open>auto simp: merge_union_def node_clean_def children_clean_def looks_iff\<close>)

section \<open>Cleaning one node\<close>

lemma migrate_fields:
  "field k (migrateConstraints num m) = field k m \<or> k = ''description'' \<and> (\<exists>d. field k (migrateConstraints num m) = Some (JStr d))"
  by (auto simp: migrateConstraints_def Let_def)

lemma migrate_fits: "node_fits safe n m \<Longrightarrow> node_fits safe n (migrateConstraints num m)"
  by (auto simp: migrateConstraints_def Let_def intro: node_fits_set)

lemma const_to_enum_fits:
  assumes m: "node_fits safe n m"
  shows "node_fits safe n (const_to_enum m)"
proof (cases "field ''const'' m")
  case (Some v)
  then have v: "fits safe n v" using node_fits_field [OF m Some] by (auto intro: entry_fits_value)
  define m1 where "m1 = (if \<not> has_key ''enum'' m then set_field ''enum'' (JArr [v]) m
      else case (v, arr_field ''enum'' m) of
        (JStr constant, Some values) \<Rightarrow>
          set_field ''enum'' (JArr (if JStr constant \<in> set values then [JStr constant] else [])) m
      | _ \<Rightarrow> m)"
  have "node_fits safe n m1"
    using m v by (auto simp: m1_def intro!: node_fits_set entry_fitsI split: json.splits option.splits)
  then show ?thesis
    using Some by (auto simp: const_to_enum_def Let_def m1_def [symmetric] intro!: node_fits_del node_fits_set)
qed (use m in \<open>simp add: const_to_enum_def\<close>)

lemma const_to_enum_fields: "k \<notin> {''const'', ''enum'', ''type''} \<Longrightarrow> field k (const_to_enum m) = field k m"
  by (auto simp: const_to_enum_def Let_def split: option.splits json.splits)

lemma keep_allowed_fits: "node_fits safe n m \<Longrightarrow> node_fits safe n (keep_allowed m)"
  by (erule node_fits_sub) (simp add: keep_allowed_def)

lemma field_filter: "field k (filter (\<lambda>e. fst e \<in> K) m) = (if k \<in> K then field k m else None)"
  unfolding field_def by (induction m) auto

lemma keep_allowed_fields: "field k (keep_allowed m) = (if k \<in> set allowedFields then field k m else None)"
  by (simp add: keep_allowed_def field_filter)

lemma or_string_simps [simp]: "or_empty None = []" "or_empty (Some xs) = xs"
  by (simp_all add: or_empty_def)

lemma default_properties_fits:
  assumes "0 < n" and "node_fits safe n m"
  shows "node_fits safe n (default_properties m)"
proof -
  have "leaf [(''type'', JStr ''string''), (''description'', JStr ''Reason for calling this tool'')]"
    by (simp add: leaf_def field_def)
  with assms(1) have "fits safe n (JObj [(''type'', JStr ''string''), (''description'', JStr ''Reason for calling this tool'')])"
    by (cases n) (auto intro: fits_leaf)
  with assms(2) show ?thesis
    unfolding default_properties_def by (auto intro!: node_fits_set entry_fitsI [where k = "''required''"])
qed

lemma default_items_fits:
  assumes "0 < n" and "node_fits safe n m"
  shows "node_fits safe n (default_items m)"
proof -
  have "fits safe n (JObj [(''type'', JStr ''string'')])" using fits_leaf [OF leaf_string] assms(1) by (cases n) auto
  with assms(2) show ?thesis unfolding default_items_def by (auto intro!: node_fits_set entry_fitsI)
qed

lemma align_required_fits:
  assumes m: "node_fits safe n m"
  shows "node_fits safe n (align_required m)"
proof -
  have "entry_fits safe n (''required'', JArr (filter P req))" if "field ''required'' m = Some (JArr req)" for P req
    using node_fits_field [OF m that] by (auto simp: entry_fits_iff required_plain_def list_all_iff)
  then show ?thesis
    using m by (auto simp: align_required_def Let_def intro!: node_fits_set node_fits_del split: option.splits)
qed

lemma normalize_node_fits:
  assumes n: "0 < n" and m: "node_fits safe n m"
  shows "node_fits safe n (normalize_node lower num m)"
proof -
  have t: "node_fits safe n (snd (normalize_type lower m'))" if "node_fits safe n m'" for m'
    using that by (auto simp: normalize_type_def case_prod_beta intro: node_fits_set)
  have e: "node_fits safe n (enum_to_strings num m')" if "node_fits safe n m'" for m'
  proof -
    have "fits safe n (enum_string num v)" for v :: "'a json" by (cases v) (simp_all add: enum_string_def)
    then show ?thesis
      using that by (auto simp: enum_to_strings_def Let_def intro!: node_fits_set entry_fitsI split: option.split)
  qed
  have d: "node_fits safe n (mark_nullable b m')" if "node_fits safe n m'" for b m'
    using that by (auto simp: mark_nullable_def Let_def intro: node_fits_set)
  show ?thesis
    unfolding normalize_node_def Let_def case_prod_beta
    using n m by (auto intro!: e d align_required_fits default_items_fits default_properties_fits t keep_allowed_fits
        const_to_enum_fits migrate_fits)
qed

lemma unchanged_fields:
  "k \<notin> {''properties'', ''required''} \<Longrightarrow> field k (default_properties m) = field k m"
  "k \<noteq> ''items'' \<Longrightarrow> field k (default_items m) = field k m"
  "k \<noteq> ''required'' \<Longrightarrow> field k (align_required m) = field k m"
  "k \<noteq> ''description'' \<Longrightarrow> field k (mark_nullable b m) = field k m"
  "k \<notin> {''enum'', ''type''} \<Longrightarrow> field k (enum_to_strings num m) = field k m"
  "k \<noteq> ''type'' \<Longrightarrow> field k (snd (normalize_type lower m)) = field k m"
  by (auto simp: default_properties_def default_items_def align_required_def mark_nullable_def enum_to_strings_def
      normalize_type_def Let_def case_prod_beta split: option.splits)

definition allowed_keys :: "'n object \<Rightarrow> bool" where
  "allowed_keys m \<longleftrightarrow> fst ` set m \<subseteq> set allowedFields"

lemma allowed_keys_set: "allowed_keys m \<Longrightarrow> k \<in> set allowedFields \<Longrightarrow> allowed_keys (set_field k v m)"
  using set_set_field [of k v m] by (force simp: allowed_keys_def)

lemma allowed_keys_del: "allowed_keys m \<Longrightarrow> allowed_keys (del_field k m)"
  using set_del_field [of k m] by (force simp: allowed_keys_def)

lemma allowed_keys_steps:
  assumes "allowed_keys m"
  shows "allowed_keys (default_properties m)" "allowed_keys (default_items m)" "allowed_keys (align_required m)"
    "allowed_keys (mark_nullable b m)" "allowed_keys (enum_to_strings num m)" "allowed_keys (snd (normalize_type lower m))"
  using assms
  by (auto simp: default_properties_def default_items_def align_required_def mark_nullable_def enum_to_strings_def
      normalize_type_def Let_def case_prod_beta allowedFields_def intro!: allowed_keys_set allowed_keys_del split: option.split)

lemma normalized_type: "\<exists>t. field ''type'' (snd (normalize_type lower m)) = Some (JStr t)"
  by (simp add: normalize_type_def case_prod_beta)

lemma default_properties_object:
  "field ''type'' m = Some (JStr ''object'') \<Longrightarrow> or_empty (obj_field ''properties'' (default_properties m)) \<noteq> []"
  by (auto simp: default_properties_def)

lemma default_items_array:
  assumes "field ''type'' m = Some (JStr ''array'')"
  shows "\<exists>v. field ''items'' (default_items m) = Some v \<and> v \<notin> {JNull, JBool True, JBool False, JObj []}"
  using assms by (auto simp: default_items_def split: option.splits json.splits list.splits)

lemma align_required_ok:
  assumes "field ''properties'' m = Some (JObj props)" and "field ''required'' (align_required m) = Some (JArr req)"
  shows "req \<noteq> [] \<and> (\<forall>r \<in> set req. \<exists>s. r = JStr s \<and> has_key s props)"
proof (cases "arr_field ''required'' m")
  case (Some rs)
  with assms show ?thesis
    by (auto simp: align_required_def Let_def split: if_splits json.splits)
next
  case None
  with assms show ?thesis by (auto simp: align_required_def)
qed

lemma parts_ok_steps:
  assumes "parts_ok m"
  shows "parts_ok (default_properties m)" "parts_ok (default_items m)"
proof -
  have "cleaned_form (JObj [(''type'', JStr ''string'')])"
    by (rule ok_node) (auto simp: cleaned_node_def field_def allowedFields_def)
  then show "parts_ok (default_items m)"
    using assms by (auto simp: parts_ok_def default_items_def)
  have "cleaned_form (JObj [(''type'', JStr ''string''), (''description'', JStr d)])" for d
    by (rule ok_node) (auto simp: cleaned_node_def field_def allowedFields_def)
  then show "parts_ok (default_properties m)"
    using assms by (auto simp: parts_ok_def default_properties_def)
qed

lemma parts_ok_same:
  "field ''properties'' m' = field ''properties'' m \<Longrightarrow> field ''items'' m' = field ''items'' m \<Longrightarrow> parts_ok m \<Longrightarrow> parts_ok m'"
  by (simp add: parts_ok_def)

lemma enum_strings_ok:
  "field ''enum'' (enum_to_strings num m) = Some (JArr vals) \<Longrightarrow> list_all is_string vals"
  "\<exists>t'. field ''type'' (enum_to_strings num m) = Some (JStr t') \<and> t' \<in> {t, ''string''}"
  if "field ''type'' m = Some (JStr t)"
proof -
  have s: "is_string (enum_string num v)" for v :: "'a json" by (cases v) (simp_all add: is_string_def enum_string_def)
  show "field ''enum'' (enum_to_strings num m) = Some (JArr vals) \<Longrightarrow> list_all is_string vals"
    by (auto simp: enum_to_strings_def Let_def list_all_iff s split: option.splits if_splits)
  show "\<exists>t'. field ''type'' (enum_to_strings num m) = Some (JStr t') \<and> t' \<in> {t, ''string''}"
    using that by (auto simp: enum_to_strings_def Let_def split: option.split)
qed

lemma normalize_node_ok:
  assumes looks: "looks_like_schema m" and parts: "parts_ok m"
  shows "cleaned_node (normalize_node lower num m)" and "parts_ok (normalize_node lower num m)"
proof -
  define s1 where "s1 = keep_allowed (const_to_enum (migrateConstraints num m))"
  define nl where "nl = fst (normalize_type lower s1)"
  define s2 where "s2 = snd (normalize_type lower s1)"
  define s3 where "s3 = default_properties s2"
  define s4 where "s4 = default_items s3"
  define s5 where "s5 = align_required s4"
  define s6 where "s6 = mark_nullable nl s5"
  define s7 where "s7 = enum_to_strings num s6"
  have s7: "normalize_node lower num m = s7"
    using looks by (simp add: normalize_node_def case_prod_beta s1_def nl_def s2_def s3_def s4_def s5_def s6_def s7_def Let_def)
  have "allowed_keys s1" by (auto simp: s1_def keep_allowed_def allowed_keys_def)
  then have keys: "allowed_keys s7" by (simp add: s2_def s3_def s4_def s5_def s6_def s7_def allowed_keys_steps)
  obtain t where t2: "field ''type'' s2 = Some (JStr t)" using normalized_type s2_def by blast
  then have t3: "field ''type'' s3 = Some (JStr t)" by (simp add: s3_def unchanged_fields)
  then have t6: "field ''type'' s6 = Some (JStr t)" by (simp add: s4_def s5_def s6_def unchanged_fields)
  obtain t' where t7: "field ''type'' s7 = Some (JStr t')" "t' \<in> {t, ''string''}"
    using enum_strings_ok(2) [OF t6, of num] s7_def by blast
  have p7: "field ''properties'' s7 = field ''properties'' s3" "field ''properties'' s4 = field ''properties'' s3"
    by (simp_all add: s4_def s5_def s6_def s7_def unchanged_fields)
  have i7: "field ''items'' s7 = field ''items'' s4" by (simp add: s5_def s6_def s7_def unchanged_fields)
  have r7: "field ''required'' s7 = field ''required'' s5" by (simp add: s6_def s7_def unchanged_fields)
  have obj: "t' = ''object'' \<Longrightarrow> or_empty (obj_field ''properties'' s7) \<noteq> []"
    using default_properties_object [of s2] t2 t7 p7 by (auto simp: s3_def obj_field_def)
  have arr: "t' = ''array'' \<Longrightarrow> \<exists>v. field ''items'' s7 = Some v \<and> v \<notin> {JNull, JBool True, JBool False, JObj []}"
    using default_items_array [of s3] t3 t7 i7 by (auto simp: s4_def)
  show "cleaned_node (normalize_node lower num m)"
    unfolding s7 cleaned_node_def
  proof (intro conjI allI impI)
    show "fst ` set s7 \<subseteq> set allowedFields" using keys by (simp add: allowed_keys_def)
    show "\<exists>t. field ''type'' s7 = Some (JStr t) \<and> (t = ''object'' \<longrightarrow> or_empty (obj_field ''properties'' s7) \<noteq> []) \<and>
       (t = ''array'' \<longrightarrow> (\<exists>v. field ''items'' s7 = Some v \<and> v \<notin> {JNull, JBool True, JBool False, JObj []}))"
      using t7 obj arr by blast
    show "list_all is_string vals" if "arr_field ''enum'' s7 = Some vals" for vals
      using enum_strings_ok(1) [OF t6, of num vals] that by (simp add: s7_def)
    fix props req assume "obj_field ''properties'' s7 = Some props" "arr_field ''required'' s7 = Some req"
    then show "req \<noteq> []" "\<forall>r \<in> set req. \<exists>s. r = JStr s \<and> has_key s props"
      using align_required_ok [of s4 props req] p7 r7 by (simp_all add: s5_def)
  qed
  have "parts_ok s1"
    using parts
  proof (rule parts_ok_same [rotated 2])
    show "field ''properties'' s1 = field ''properties'' m" "field ''items'' s1 = field ''items'' m"
      using migrate_fields [of "''properties''" num m] migrate_fields [of "''items''" num m]
      by (simp_all add: s1_def keep_allowed_fields allowedFields_def const_to_enum_fields)
  qed
  then have "parts_ok s2" by (rule parts_ok_same [rotated 2]) (simp_all add: s2_def unchanged_fields)
  then have "parts_ok s4" by (simp add: s3_def s4_def parts_ok_steps)
  then show "parts_ok (normalize_node lower num m)"
    unfolding s7 by (rule parts_ok_same [rotated 2]) (simp_all add: s5_def s6_def s7_def unchanged_fields)
qed

section \<open>Cleaning a value\<close>

lemma leaf_fields: "leaf m \<Longrightarrow> k \<notin> {''type'', ''description''} \<Longrightarrow> field k m = None"
  by (auto simp: leaf_def dest!: field_in_set split: option.splits) (metis field_in_set fst_conv not_None_eq)

lemma each_done: "(\<And>x. x \<in> set xs \<Longrightarrow> f x = Done x) \<Longrightarrow> each f xs = Done xs"
  by (induction xs) auto

lemma each_field_done: "(\<And>k v. (k, v) \<in> set m \<Longrightarrow> f v = Done v) \<Longrightarrow> each_field f m = Done m"
  unfolding each_field_def by (rule each_done) auto

lemma clean_leaf:
  assumes m: "leaf m" and low: "lower ''string'' = ''string''"
  shows "cleanJSONSchemaRecursive lower num ord (Suc n) (JObj m) = Done (JObj m)"
proof -
  note none = leaf_fields [OF m]
  have t: "field ''type'' m = Some (JStr ''string'')" using m by (simp add: leaf_def)
  have 1: "mergeAllOf ord m = m" "lift_prefix_items m = m"
    using none by (simp_all add: mergeAllOf_def lift_prefix_items_def arr_field_def)
  have "clean_other c v = Done v" if "(k, v) \<in> set m" for c k v
  proof -
    have "scalar v" using m that by (auto simp: leaf_def)
    then show ?thesis by (cases v) (simp_all add: clean_other_def)
  qed
  then have 2: "clean_children c m = Done m" for c
    using none each_field_done [of m "clean_other c"]
    by (simp add: clean_children_def clean_properties_def clean_items_def obj_field_def arr_field_def has_key_field)
  have 3: "merge_union c m = Done m" for c
    using t by (simp add: merge_union_def union_array_def extractBestSchemaFromUnion_def)
  have "List.map_filter (\<lambda>(key, label). case field key m of None \<Rightarrow> None | Some JNull \<Rightarrow> None
      | Some val \<Rightarrow> Some (label @ '': '' @ fmt_v num val)) constraints = []"
    by (simp add: constraints_def map_filter_simps none)
  then have 4: "migrateConstraints num m = m" by (simp add: migrateConstraints_def Let_def)
  have "set_field ''type'' (JStr ''string'') m = m"
    using t by (simp add: set_field_def field_def AList.update_triv)
  then have 5: "normalize_type lower m = (False, m)" using t low by (simp add: normalize_type_def select_type_def)
  have 6: "keep_allowed m = m"
    using m by (auto simp: keep_allowed_def leaf_def allowedFields_def filter_id_conv)
  have 7: "const_to_enum m = m" "align_required m = m" "enum_to_strings num m = m"
    by (simp_all add: const_to_enum_def align_required_def enum_to_strings_def obj_field_def arr_field_def none)
  have 8: "default_properties m = m" "default_items m = m" "mark_nullable False m = m"
    using t by (simp_all add: default_properties_def default_items_def mark_nullable_def)
  have "looks_like_schema m" using t by (simp add: looks_like_schema_def has_key_field)
  then have "normalize_node lower num m = m" by (simp add: normalize_node_def 4 5 6 7 8)
  with 1 2 3 show ?thesis by simp
qed

lemma leaf_ok: "leaf m \<Longrightarrow> cleaned_form (JObj m)"
proof -
  assume m: "leaf m"
  note none = leaf_fields [OF m]
  have "fst ` set m \<subseteq> set allowedFields" using m by (auto simp: leaf_def allowedFields_def)
  then have "cleaned_node m" using m none by (auto simp: cleaned_node_def leaf_def)
  then show ?thesis by (rule ok_node) (use none in auto)
qed

lemma clean_ok:
  assumes low: "lower ''string'' = ''string''"
  shows "cleans safe n (cleanJSONSchemaRecursive lower num ord n)"
proof (induction n)
  case 0
  have "yields safe (cleaned safe 0 v) (cleanJSONSchemaRecursive lower num ord 0 v)" if "fits safe 0 v" for v
    using that by (cases v) (auto simp: cleaned_def is_object_def)
  then show ?case by (simp add: cleans_def)
next
  case (Suc n)
  let ?c = "cleanJSONSchemaRecursive lower num ord n"
  have "yields safe (cleaned safe (Suc n) v) (cleanJSONSchemaRecursive lower num ord (Suc n) v)" if v: "fits safe (Suc n) v" for v
  proof (cases "is_object v")
    case True
    then obtain m where m: "v = JObj m" by (auto simp: is_object_def)
    show ?thesis
    proof (cases "leaf m")
      case True
      show ?thesis using v m clean_leaf [of m lower num ord n, OF True low] leaf_ok [OF True] by (simp add: cleaned_def)
    next
      case False
      with v m have n: "0 < n" and fm: "node_fits safe n m" by (auto simp: fits_obj_iff node_fits_def)
      have f1: "node_fits safe n (lift_prefix_items (mergeAllOf ord m))"
        using n fm by (intro lift_prefix_fits mergeAllOf_fits)
      have "yields safe (cleaned safe (Suc n) v)
          (and_then (clean_children ?c (lift_prefix_items (mergeAllOf ord m))) (\<lambda>m.
           and_then (merge_union ?c m) (\<lambda>m. Done (JObj (normalize_node lower num m)))))"
      proof (rule yields_and_then [OF clean_children_ok [OF Suc f1 n]], rule yields_and_then [OF merge_union_ok [OF Suc]])
        fix m2 :: "'a object"
        assume m2: "node_clean safe n m2"
        have "node_fits safe n (normalize_node lower num m2)" using m2 n by (intro normalize_node_fits) (auto simp: node_clean_def)
        then have "fits safe (Suc n) (JObj (normalize_node lower num m2))" using n by (simp add: fits_obj_iff node_fits_def)
        moreover have "cleaned_form (JObj (normalize_node lower num m2))"
        proof (cases "looks_like_schema m2")
          case True
          note ok = normalize_node_ok [OF True, of lower num]
          have "parts_ok m2" using m2 by (simp add: node_clean_def)
          then show ?thesis using ok by (intro ok_node) (simp, (auto simp: parts_ok_def) [2])
        next
          case False
          then show ?thesis
            using m2 by (intro ok_plain) (fastforce simp: node_clean_def plain_ok_def normalize_node_def)+
        qed
        ultimately show "yields safe (cleaned safe (Suc n) v) (Done (JObj (normalize_node lower num m2)))"
          using m by (simp add: cleaned_def is_object_def)
      qed
      then show ?thesis by (simp add: m)
    qed
  next
    case False
    then show ?thesis using v by (cases v) (auto simp: cleaned_def is_object_def)
  qed
  then show ?case by (simp add: cleans_def)
qed

text \<open>
  Cleaning returns with fuel of the size of the value, for every value, and what it returns has the form of cleaned values. The
  one exception is a panic when two arrays of required names hold arrays or objects.
\<close>

lemma cleaning_returns:
  assumes "lower ''string'' = ''string''" and "size (JObj m) < n"
  shows "(\<exists>w. cleanJSONSchemaRecursive lower num ord n (JObj m) = Done (JObj w) \<and> cleaned_form (JObj w)) \<or>
    cleanJSONSchemaRecursive lower num ord n (JObj m) = Panicked \<and> \<not> comparable (JObj m)"
proof -
  let ?safe = "comparable (JObj m)"
  have "fits ?safe n (JObj m)" using fits_mono [OF fits_size [of ?safe "JObj m"], of n] assms(2) by simp
  with clean_ok [where lower = lower and safe = ?safe and n = n and num = num and ord = ord, OF assms(1)]
  have y: "yields ?safe (cleaned ?safe n (JObj m)) (cleanJSONSchemaRecursive lower num ord n (JObj m))" by (rule cleansD)
  show ?thesis
  proof (cases "cleanJSONSchemaRecursive lower num ord n (JObj m)")
    case (Done w)
    with y have "cleaned_form w" "is_object w" by (simp_all add: cleaned_def is_object_def)
    with Done show ?thesis by (auto simp: is_object_def)
  next
    case Panicked
    with y show ?thesis by (simp del: comparable_iff)
  qed (use y in simp)
qed

end
