(* ===== verification/Schema_Accept.thy ===== *)
theory Schema_Accept
  imports Schema_Type
begin

text \<open>
  What cleaning makes of a proper JSON Schema: a schema of the subset that Gemini takes. Proper is a schema of draft 2020-12
  without boolean schemas, every node of which says what it is by one of the keywords that the cleaner looks for. What
  is not proper is cleaned only in part: an object without any of these keywords is no node for the code, and passes as it is.
\<close>

section \<open>Proper schemas and accepted schemas\<close>

definition json_types :: "string list" where
  "json_types = [''string'', ''number'', ''integer'', ''boolean'', ''object'', ''array'']"


definition type_name :: "(string \<Rightarrow> string) \<Rightarrow> 'n json \<Rightarrow> bool" where
  "type_name lower v \<longleftrightarrow> (\<exists>t. v = JStr t \<and> lower t \<in> set (''null'' # json_types))"

text \<open>The form of an entry of a node, and the schemas in it.\<close>

definition shaped :: "(string \<Rightarrow> string) \<Rightarrow> string \<Rightarrow> 'n json \<Rightarrow> bool" where
  "shaped lower k v \<longleftrightarrow>
     (if k = ''type'' then type_name lower v \<or> (\<exists>ts. v = JArr ts \<and> (\<forall>t \<in> set ts. type_name lower t))
      else if k = ''properties'' then \<exists>ps. v = JObj ps
      else if k \<in> {''enum'', ''anyOf'', ''oneOf'', ''allOf'', ''prefixItems''} then \<exists>xs. v = JArr xs
      else if k = ''required'' then \<exists>xs. v = JArr xs \<and> (\<forall>x \<in> set xs. is_string x)
      else if k = ''description'' \<or> k = ''title'' then is_string v
      else True)"

definition subschemas :: "string \<Rightarrow> 'n json \<Rightarrow> 'n json list" where
  "subschemas k v =
     (if k = ''items'' then [v]
      else
        case v of
          JObj ps \<Rightarrow> if k = ''properties'' then map snd ps else []
        | JArr xs \<Rightarrow> if k \<in> {''anyOf'', ''oneOf'', ''allOf'', ''prefixItems''} then xs else []
        | _ \<Rightarrow> [])"

definition described :: "'n object \<Rightarrow> bool" where
  "described m \<longleftrightarrow> (\<exists>k \<in> {''type'', ''properties'', ''items'', ''enum'', ''const'', ''anyOf'', ''oneOf''}. has_key k m)"

inductive proper :: "(string \<Rightarrow> string) \<Rightarrow> 'n json \<Rightarrow> bool" for lower where
  proper_node: "distinct (map fst m) \<Longrightarrow> described m \<Longrightarrow> (\<And>k v. (k, v) \<in> set m \<Longrightarrow> shaped lower k v) \<Longrightarrow>
    (\<And>k v x. (k, v) \<in> set m \<Longrightarrow> x \<in> set (subschemas k v) \<Longrightarrow> proper lower x) \<Longrightarrow> proper lower (JObj m)"

inductive_cases properE: "proper lower v"






section \<open>Operations on the entries of a node\<close>









lemma proper_not [simp]: "\<not> proper lower JNull" "\<not> proper lower (JBool b)" "\<not> proper lower (JStr s)" "\<not> proper lower (JArr xs)"
  "\<not> proper lower (JNum x)"
  by (auto elim: properE)


lemma is_string_JStr [simp]: "is_string (JStr s)"
  by (simp add: is_string_def)









section \<open>What a step returns, if it returns\<close>

definition gives :: "'a json_outcome \<Rightarrow> ('a \<Rightarrow> bool) \<Rightarrow> bool" where
  "gives r P \<longleftrightarrow> (\<forall>x. r = Done x \<longrightarrow> P x)"

lemma gives_simps [simp]: "gives (Done x) P \<longleftrightarrow> P x" "gives Panicked P" "gives OutOfFuel P"
  by (simp_all add: gives_def)












section \<open>The children of a node, and its union\<close>











section \<open>A node that is accepted\<close>


















section \<open>Cleaning\<close>






end
