(* ===== verification/Schema_Refs.thy ===== *)
theory Schema_Refs
  imports Schema
begin

text \<open>
  When expanding references returns, and what: a schema whose definitions do not refer to each other in a circle becomes
  its expansion, as a specification by fields has it; for a definition that refers to itself no amount of fuel is
  enough.
\<close>

section \<open>References below a rank\<close>

text \<open>The name a node refers to, when it is the name of a definition.\<close>

definition ref_of :: "'n object \<Rightarrow> 'n object \<Rightarrow> string option" where
  "ref_of defs m =
     (case field ''$ref'' m of
        Some (JStr ref) \<Rightarrow>
          (let name = last (split_on (CHR ''/'') ref) in if obj_field name defs = None then None else Some name)
      | _ \<Rightarrow> None)"

text \<open>
  \<open>refs_below rank defs r v\<close>: where \<open>flattenRefs\<close> looks, \<open>v\<close> refers only to definitions of a rank below \<open>r\<close>.
  A value is \<open>expanded\<close> when no reference is left there.
\<close>

inductive refs_below :: "(string \<Rightarrow> nat) \<Rightarrow> 'n object \<Rightarrow> nat \<Rightarrow> 'n json \<Rightarrow> bool" for rank defs r where
  refs_other: "(\<And>m. v \<noteq> JObj m) \<Longrightarrow> (\<And>xs. v \<noteq> JArr xs) \<Longrightarrow> refs_below rank defs r v"
| refs_array: "(\<And>m. JObj m \<in> set xs \<Longrightarrow> refs_below rank defs r (JObj m)) \<Longrightarrow> refs_below rank defs r (JArr xs)"
| refs_object: "(\<And>name. ref_of defs m = Some name \<Longrightarrow> rank name < r) \<Longrightarrow>
    (\<And>k v. (k, v) \<in> set m \<Longrightarrow> refs_below rank defs r v) \<Longrightarrow> refs_below rank defs r (JObj m)"

inductive_simps refs_below_obj: "refs_below rank defs r (JObj m)"
inductive_simps refs_below_arr: "refs_below rank defs r (JArr xs)"

inductive expanded :: "'n json \<Rightarrow> bool" where
  expanded_other: "(\<And>m. v \<noteq> JObj m) \<Longrightarrow> (\<And>xs. v \<noteq> JArr xs) \<Longrightarrow> expanded v"
| expanded_array: "(\<And>m. JObj m \<in> set xs \<Longrightarrow> expanded (JObj m)) \<Longrightarrow> expanded (JArr xs)"
| expanded_object: "(\<And>ref. field ''$ref'' m \<noteq> Some (JStr ref)) \<Longrightarrow>
    (\<And>k v. (k, v) \<in> set m \<Longrightarrow> expanded v) \<Longrightarrow> expanded (JObj m)"

inductive_simps expanded_obj: "expanded (JObj m)"
inductive_simps expanded_arr: "expanded (JArr xs)"

definition acyclic_defs :: "(string \<Rightarrow> nat) \<Rightarrow> 'n object \<Rightarrow> bool" where
  "acyclic_defs rank defs \<longleftrightarrow>
     (\<forall>name d. obj_field name defs = Some d \<longrightarrow> refs_below rank defs (rank name) (JObj d))"

section \<open>The expansion of a schema\<close>

text \<open>
  \<open>resolved defs m f\<close>: a node \<open>m\<close> has the fields \<open>f\<close>. They are its own, and where it has none, those that the
  definition has that it refers to, which may refer to a further one. The reference itself is none of them, but for a
  \<^verbatim>\<open>$ref\<close> that is no string; a reference to no definition adds nothing.
\<close>

definition ref_name :: "string \<Rightarrow> string" where
  "ref_name ref = last (split_on (CHR ''/'') ref)"

inductive resolved :: "'n object \<Rightarrow> 'n object \<Rightarrow> (string \<Rightarrow> 'n json option) \<Rightarrow> bool" for defs where
  resolved_plain: "(\<And>ref. field ''$ref'' m \<noteq> Some (JStr ref)) \<Longrightarrow> resolved defs m (\<lambda>k. field k m)"
| resolved_unknown: "field ''$ref'' m = Some (JStr ref) \<Longrightarrow> obj_field (ref_name ref) defs = None \<Longrightarrow>
    resolved defs m (\<lambda>k. if k = ''$ref'' then None else field k m)"
| resolved_ref: "field ''$ref'' m = Some (JStr ref) \<Longrightarrow> obj_field (ref_name ref) defs = Some d \<Longrightarrow> resolved defs d f \<Longrightarrow>
    resolved defs m (\<lambda>k. if k = ''$ref'' then f k else case field k m of Some v \<Rightarrow> Some v | None \<Rightarrow> f k)"

text \<open>
  \<open>expansion defs v w\<close>: \<open>w\<close> is \<open>v\<close> with every node replaced by its fields, those of the definitions too, at every depth where
  \<open>flattenRefs\<close> looks: in the fields of objects and in the objects directly in an array.
\<close>

inductive expansion :: "'n object \<Rightarrow> 'n json \<Rightarrow> 'n json \<Rightarrow> bool" for defs where
  expansion_node: "resolved defs m f \<Longrightarrow> (\<And>k. field k m' = None \<longleftrightarrow> f k = None) \<Longrightarrow>
    (\<And>k v w. f k = Some v \<Longrightarrow> field k m' = Some w \<Longrightarrow> expansion defs v w) \<Longrightarrow> expansion defs (JObj m) (JObj m')"
| expansion_array: "length ys = length xs \<Longrightarrow>
    (\<And>i m. i < length xs \<Longrightarrow> xs ! i = JObj m \<Longrightarrow> expansion defs (xs ! i) (ys ! i)) \<Longrightarrow>
    (\<And>i. i < length xs \<Longrightarrow> (\<And>m. xs ! i \<noteq> JObj m) \<Longrightarrow> ys ! i = xs ! i) \<Longrightarrow> expansion defs (JArr xs) (JArr ys)"
| expansion_other: "(\<And>m. v \<noteq> JObj m) \<Longrightarrow> (\<And>xs. v \<noteq> JArr xs) \<Longrightarrow> expansion defs v v"

inductive_cases expansion_objE: "expansion defs (JObj m) w"
inductive_cases expansion_strE: "expansion defs v (JStr s)"

text \<open>The fields of a node into which a definition was merged, and of a node without a known reference.\<close>

lemma resolved_merged:
  assumes "resolved defs (fold set_missing d m) f2" and "field ''$ref'' m = None"
  shows "\<exists>f. resolved defs d f \<and> f2 = (\<lambda>k. if k = ''$ref'' then f k else case field k m of Some v \<Rightarrow> Some v | None \<Rightarrow> f k)"
  using assms(1)
proof cases
  case resolved_plain
  then have "resolved defs d (\<lambda>k. field k d)" using assms(2) by (intro resolved.resolved_plain) (simp add: field_fold_missing)
  with resolved_plain(1) assms(2) show ?thesis
    by (intro exI [of _ "\<lambda>k. field k d"]) (auto simp: field_fold_missing fun_eq_iff split: option.split)
next
  case (resolved_unknown ref)
  then have "resolved defs d (\<lambda>k. if k = ''$ref'' then None else field k d)"
    using assms(2) by (intro resolved.resolved_unknown) (simp_all add: field_fold_missing)
  with resolved_unknown(1) assms(2) show ?thesis
    by (intro exI [of _ "\<lambda>k. if k = ''$ref'' then None else field k d"])
       (auto simp: field_fold_missing fun_eq_iff split: option.split)
next
  case (resolved_ref ref d' f)
  let ?g = "\<lambda>k. if k = ''$ref'' then f k else case field k d of Some v \<Rightarrow> Some v | None \<Rightarrow> f k"
  have "resolved defs d ?g"
    using assms(2) resolved_ref(2-4) by (intro resolved.resolved_ref) (simp_all add: field_fold_missing)
  with resolved_ref(1) assms(2) show ?thesis
    by (intro exI [of _ ?g]) (auto simp: field_fold_missing fun_eq_iff split: option.split)
qed

lemma take_ref_None: "take_ref defs m = (m1, None) \<Longrightarrow> resolved defs m (\<lambda>k. field k m1)"
  using resolved_unknown [of m _ defs] resolved_plain [of m defs]
  by (auto simp: take_ref_def ref_name_def cong: if_cong split: option.splits json.splits)

lemma take_ref_Some:
  assumes "take_ref defs m = (m1, Some d)" and "expansion defs (JObj (fold set_missing d m1)) (JObj m')"
  shows "expansion defs (JObj m) (JObj m')"
proof -
  obtain ref where ref: "field ''$ref'' m = Some (JStr ref)" "obj_field (ref_name ref) defs = Some d" "m1 = del_field ''$ref'' m"
    using assms(1) by (auto simp: take_ref_def ref_name_def split: option.splits json.splits)
  from assms(2) show ?thesis
  proof (rule expansion_objE)
    fix f2 m'' assume *: "JObj m' = JObj m''" "resolved defs (fold set_missing d m1) f2"
      "\<And>k. (field k m'' = None) = (f2 k = None)" "\<And>k v w. f2 k = Some v \<Longrightarrow> field k m'' = Some w \<Longrightarrow> expansion defs v w"
    obtain f where "resolved defs d f" "f2 = (\<lambda>k. if k = ''$ref'' then f k else case field k m1 of Some v \<Rightarrow> Some v | None \<Rightarrow> f k)"
      using resolved_merged [OF *(2)] ref(3) by auto
    with resolved_ref [OF ref(1,2)] have "resolved defs m f2" by (simp add: ref(3) cong: if_cong)
    with * show ?thesis by (auto intro: expansion_node)
  qed blast
qed

section \<open>Enough fuel\<close>

definition settles :: "(nat \<Rightarrow> 'a json_outcome) \<Rightarrow> ('a \<Rightarrow> bool) \<Rightarrow> bool" where
  "settles f P \<longleftrightarrow> (\<exists>n0 w. P w \<and> (\<forall>n \<ge> n0. f n = Done w))"

lemma settles_Done: "P w \<Longrightarrow> settles (\<lambda>_. Done w) P"
  by (auto simp: settles_def)

lemma settles_and_then:
  assumes "settles f P" and "\<And>w. P w \<Longrightarrow> settles (\<lambda>n. g n w) Q"
  shows "settles (\<lambda>n. and_then (f n) (g n)) Q"
proof -
  obtain n0 w where w: "P w" "\<And>n. n \<ge> n0 \<Longrightarrow> f n = Done w" using assms(1) by (auto simp: settles_def)
  obtain n1 u where u: "Q u" "\<And>n. n \<ge> n1 \<Longrightarrow> g n w = Done u" using assms(2) [OF w(1)] by (auto simp: settles_def)
  have "and_then (f n) (g n) = Done u" if "n \<ge> max n0 n1" for n using that by (simp add: w u)
  with u(1) show ?thesis unfolding settles_def by blast
qed

lemma settles_Suc: "settles f P \<Longrightarrow> (\<And>n. g (Suc n) = f n) \<Longrightarrow> settles g P"
proof -
  assume "settles f P" and g: "\<And>n. g (Suc n) = f n"
  then obtain n0 w where w: "P w" "\<And>n. n \<ge> n0 \<Longrightarrow> f n = Done w" by (auto simp: settles_def)
  have "g n = Done w" if "n \<ge> Suc n0" for n using that w(2) [of "n - 1"] g [of "n - 1"] by simp
  with w(1) show ?thesis unfolding settles_def by blast
qed

lemma settles_mono: "settles f P \<Longrightarrow> (\<And>w. P w \<Longrightarrow> Q w) \<Longrightarrow> settles f Q"
  unfolding settles_def by blast

lemma settles_each:
  assumes "\<And>x. x \<in> set xs \<Longrightarrow> settles (\<lambda>n. f n x) (P x)"
  shows "settles (\<lambda>n. each (f n) xs) (\<lambda>ys. list_all2 P xs ys)"
  using assms
proof (induction xs)
  case Nil
  then show ?case by (auto intro: settles_Done)
next
  case (Cons x xs)
  show ?case
    unfolding each.simps
  proof (rule settles_and_then)
    show "settles (\<lambda>n. f n x) (P x)" using Cons.prems by simp
    fix y assume "P x y"
    show "settles (\<lambda>n. and_then (each (f n) xs) (\<lambda>ys. Done (y # ys))) (\<lambda>ys. list_all2 P (x # xs) ys)"
    proof (rule settles_and_then [OF Cons.IH])
      show "settles (\<lambda>n. f n x') (P x')" if "x' \<in> set xs" for x' using Cons.prems that by simp
      show "settles (\<lambda>n. Done (y # ys)) (\<lambda>ys. list_all2 P (x # xs) ys)" if "list_all2 P xs ys" for ys
        using that \<open>P x y\<close> by (auto intro: settles_Done)
    qed
  qed
qed

lemma settles_each_field:
  assumes "\<And>k v. (k, v) \<in> set m \<Longrightarrow> settles (\<lambda>n. f n v) (P v)"
  shows "settles (\<lambda>n. each_field (f n) m) (\<lambda>m'. list_all2 (\<lambda>e e'. fst e' = fst e \<and> P (snd e) (snd e')) m m')"
  unfolding each_field_def
proof (rule settles_each)
  fix e assume "e \<in> set m"
  then have "settles (\<lambda>n. f n (snd e)) (P (snd e))" using assms [of "fst e" "snd e"] by simp
  then show "settles (\<lambda>n. case e of (k, v) \<Rightarrow> and_then (f n v) (\<lambda>w. Done (k, w)))
      (\<lambda>e'. fst e' = fst e \<and> P (snd e) (snd e'))"
    unfolding case_prod_beta by (rule settles_and_then) (auto intro: settles_Done)
qed

lemma list_all2_field:
  "list_all2 (\<lambda>e e'. fst e' = fst e \<and> P (snd e) (snd e')) m m' \<Longrightarrow> field k m' = Some w \<Longrightarrow>
    \<exists>v. field k m = Some v \<and> P v w"
  unfolding field_def by (induction rule: list_all2_induct) (auto split: if_splits)

section \<open>Expanded values stay as they are\<close>

lemma each_field_same: "(\<And>k v. (k, v) \<in> set m \<Longrightarrow> f v = Done v) \<Longrightarrow> each_field f m = Done m"
  unfolding each_field_def
proof (induction m)
  case (Cons e m)
  have "each (\<lambda>(k, v). and_then (f v) (\<lambda>w. Done (k, w))) m = Done m" by (rule Cons.IH) (use Cons.prems in auto)
  with Cons.prems [of "fst e" "snd e"] show ?case by (cases e) simp
qed simp

lemma expanded_in_value:
  "expanded v \<Longrightarrow> size v \<le> n \<Longrightarrow> in_value (flattenRefs n defs) v = Done v"
proof (induction n arbitrary: v)
  case 0
  then have "(\<forall>m. v \<noteq> JObj m) \<and> (\<forall>xs. v \<noteq> JArr xs)" by (cases v) auto
  then show ?case by (cases v) (simp_all add: in_value_def in_object_def)
next
  case (Suc n)
  have obj: "flattenRefs (Suc n) defs m = Done m" if m: "expanded (JObj m)" "size (JObj m) \<le> Suc n" for m
  proof -
    have "take_ref defs m = (m, None)"
      using m(1) by (auto simp: expanded_obj take_ref_def split: option.split json.split)
    moreover have "each_field (in_value (flattenRefs n defs)) m = Done m"
    proof (rule each_field_same)
      fix k v assume kv: "(k, v) \<in> set m"
      then have "expanded v" using m(1) by (auto simp: expanded_obj)
      moreover have "size v \<le> size_list (size_prod (\<lambda>_. 0) size) m" using kv by (auto intro!: size_list_estimation')
      then have "size v \<le> n" using m(2) by simp
      ultimately show "in_value (flattenRefs n defs) v = Done v" by (rule Suc.IH)
    qed
    ultimately show ?thesis by simp
  qed
  show ?case
  proof (cases v)
    case (JArr xs)
    have "in_object (flattenRefs (Suc n) defs) x = Done x" if x: "x \<in> set xs" for x
    proof (cases x)
      case (JObj m)
      have "size x \<le> size_list size xs" using x by (auto intro!: size_list_estimation')
      then have "size (JObj m) \<le> Suc n" using Suc.prems(2) JArr JObj by simp
      moreover have "expanded (JObj m)" using Suc.prems(1) JArr JObj x by (auto simp: expanded_arr)
      ultimately show ?thesis using obj JObj by (simp add: in_object_def)
    qed (simp_all add: in_object_def)
    then have "each (in_object (flattenRefs (Suc n) defs)) xs = Done xs" by (induction xs) auto
    with JArr show ?thesis by (simp add: in_value_def del: flattenRefs.simps)
  next
    case (JObj m)
    then show ?thesis using obj [of m] Suc.prems by (simp add: in_value_def in_object_def del: flattenRefs.simps)
  qed (auto simp: in_value_def in_object_def)
qed

section \<open>Definitions without a circle\<close>

text \<open>The value settles: with enough fuel it becomes its expansion, in which no reference is left.\<close>

definition expands :: "'n object \<Rightarrow> 'n json \<Rightarrow> bool" where
  "expands defs v \<longleftrightarrow> settles (\<lambda>n. in_value (flattenRefs n defs) v) (\<lambda>w. expansion defs v w \<and> expanded w)"

definition all_expand :: "'n object \<Rightarrow> 'n object \<Rightarrow> bool" where
  "all_expand defs m \<longleftrightarrow> (\<forall>(k, v) \<in> set m. expands defs v)"

lemma list_all2_None: "list_all2 (\<lambda>e e'. fst e' = fst e \<and> P (snd e) (snd e')) m m' \<Longrightarrow> field k m' = None \<longleftrightarrow> field k m = None"
  by (induction rule: list_all2_induct) (auto simp: field_Cons)

lemma children_settle:
  assumes "all_expand defs m1" and "\<And>ref. field ''$ref'' m1 \<noteq> Some (JStr ref)" and "resolved defs m (\<lambda>k. field k m1)"
  shows "settles (\<lambda>n. each_field (in_value (flattenRefs n defs)) m1) (\<lambda>m'. expansion defs (JObj m) (JObj m') \<and> expanded (JObj m'))"
proof (rule settles_mono [OF settles_each_field])
  show "settles (\<lambda>n. in_value (flattenRefs n defs) v) (\<lambda>w. expansion defs v w \<and> expanded w)" if "(k, v) \<in> set m1" for k v
    using assms(1) that by (auto simp: all_expand_def expands_def)
  fix m' assume l: "list_all2 (\<lambda>e e'. fst e' = fst e \<and> (expansion defs (snd e) (snd e') \<and> expanded (snd e'))) m1 m'"
  have "expansion defs (JObj m) (JObj m')"
  proof (rule expansion_node [OF assms(3)])
    show "field k m' = None \<longleftrightarrow> field k m1 = None" for k by (rule list_all2_None [OF l])
    show "expansion defs v w" if "field k m1 = Some v" "field k m' = Some w" for k v w
      using list_all2_field [OF l that(2)] that(1) by auto
  qed
  moreover have "expanded (JObj m')"
  proof (rule expanded_object)
    show "field ''$ref'' m' \<noteq> Some (JStr ref)" for ref
      using list_all2_field [OF l, of "''$ref''" "JStr ref"] assms(2) by (auto elim: expansion_strE)
    show "expanded v" if "(k, v) \<in> set m'" for k v using list_all2_set2 [OF l that] by auto
  qed
  ultimately show "expansion defs (JObj m) (JObj m') \<and> expanded (JObj m')" ..
qed

text \<open>The fields of an expanded node are visited once more, and stay.\<close>

lemma children_stay:
  assumes "expanded (JObj m)"
  shows "settles (\<lambda>n. each_field (in_value (flattenRefs n defs)) m) (\<lambda>m'. m' = m)"
proof (rule settles_mono [OF settles_each_field])
  show "settles (\<lambda>n. in_value (flattenRefs n defs) v) (\<lambda>w. w = v)" if "(k, v) \<in> set m" for k v
    unfolding settles_def using expanded_in_value [of v] assms that by (auto simp: expanded_obj)
  show "m' = m" if "list_all2 (\<lambda>e e'. fst e' = fst e \<and> snd e' = snd e) m m'" for m'
    using that by (induction rule: list_all2_induct) (auto simp: prod_eq_iff)
qed

lemma node_settles:
  assumes acyclic: "acyclic_defs rank defs" and "defs \<noteq> []"
    and "\<And>name d. obj_field name defs = Some d \<Longrightarrow> rank name < r \<Longrightarrow> all_expand defs d"
    and "all_expand defs m" and "\<And>name. ref_of defs m = Some name \<Longrightarrow> rank name < r"
  shows "settles (\<lambda>n. flattenRefs n defs m) (\<lambda>m'. expansion defs (JObj m) (JObj m') \<and> expanded (JObj m'))"
  using assms(3-5)
proof (induction r arbitrary: m rule: less_induct)
  case (less r)
  let ?ok = "\<lambda>m'. expansion defs (JObj m) (JObj m') \<and> expanded (JObj m')"
  obtain m1 d' where take: "take_ref defs m = (m1, d')" by force
  have sub: "set m1 \<subseteq> set m"
    using take set_del_field [of "''$ref''" m] by (auto simp: take_ref_def split: option.splits json.splits)
  then have m1: "all_expand defs m1" using less.prems(2) by (auto simp: all_expand_def)
  show ?case
  proof (cases d')
    case None
    have "field ''$ref'' m1 \<noteq> Some (JStr ref)" for ref
      using take by (auto simp: take_ref_def split: option.splits json.splits)
    then have "settles (\<lambda>n. each_field (in_value (flattenRefs n defs)) m1) ?ok"
      using take None by (intro children_settle [OF m1] take_ref_None) auto
    then show ?thesis by (rule settles_Suc) (use assms(2) take None in simp)
  next
    case (Some d)
    then obtain name where name: "ref_of defs m = Some name" "obj_field name defs = Some d" "field ''$ref'' m1 = None"
      using take by (auto simp: take_ref_def ref_of_def Let_def split: option.splits json.splits)
    define m2 where "m2 = fold set_missing d m1"
    have rank: "rank name < r" using less.prems(3) name(1) by blast
    have d: "all_expand defs d" using less.prems(1) name(2) rank by blast
    have "ref_of defs m2 = ref_of defs d" using name(3) by (simp add: m2_def ref_of_def field_fold_missing)
    moreover have "refs_below rank defs (rank name) (JObj d)" using acyclic name(2) by (simp add: acyclic_defs_def)
    ultimately have ref: "rank name' < rank name" if "ref_of defs m2 = Some name'" for name'
      using that by (simp add: refs_below_obj)
    have m2: "all_expand defs m2"
      using d m1 set_fold_missing [of d m1] by (auto simp: all_expand_def m2_def)
    have "settles (\<lambda>n. flattenRefs n defs m2) (\<lambda>m'. expansion defs (JObj m2) (JObj m') \<and> expanded (JObj m'))"
      using less.IH [OF rank _ m2 ref] less.prems(1) rank by force
    then have "settles (\<lambda>n. and_then (flattenRefs n defs m2) (each_field (in_value (flattenRefs n defs)))) ?ok"
    proof (rule settles_and_then)
      fix m' assume m': "expansion defs (JObj m2) (JObj m') \<and> expanded (JObj m')"
      then have "?ok m'" using take_ref_Some [of defs m m1 d m'] take Some by (simp add: m2_def)
      with children_stay [of m' defs] m' show "settles (\<lambda>n. each_field (in_value (flattenRefs n defs)) m') ?ok"
        by (auto elim: settles_mono)
    qed
    then show ?thesis by (rule settles_Suc) (use assms(2) take Some in \<open>simp add: m2_def\<close>)
  qed
qed

lemma object_expands:
  "settles (\<lambda>n. flattenRefs n defs m) (\<lambda>m'. expansion defs (JObj m) (JObj m') \<and> expanded (JObj m')) \<Longrightarrow> expands defs (JObj m)"
  unfolding expands_def in_value_def in_object_def json.case
  by (erule settles_and_then) (rule settles_Done)

lemma array_expands:
  assumes "\<And>m. JObj m \<in> set xs \<Longrightarrow> expands defs (JObj m)"
  shows "expands defs (JArr xs)"
proof -
  let ?P = "\<lambda>x w. if \<exists>m. x = JObj m then expansion defs x w \<and> expanded w else w = x"
  have "settles (\<lambda>n. in_object (flattenRefs n defs) x) (?P x)" if "x \<in> set xs" for x
  proof (cases x)
    case (JObj m)
    then have "expands defs x" using assms that by simp
    with JObj show ?thesis by (simp add: expands_def in_value_def)
  qed (auto simp: in_object_def intro: settles_Done)
  then have "settles (\<lambda>n. each (in_object (flattenRefs n defs)) xs) (\<lambda>ys. list_all2 ?P xs ys)"
    by (rule settles_each)
  then show ?thesis
    unfolding expands_def in_value_def json.case
  proof (rule settles_and_then)
    fix ys assume l: "list_all2 ?P xs ys"
    have "expanded (JObj m)" if "JObj m \<in> set ys" for m using list_all2_set2 [OF l that] by (auto split: if_splits)
    then have "expanded (JArr ys)" by (rule expanded_array)
    moreover have "expansion defs (JArr xs) (JArr ys)"
      using l by (intro expansion_array) (auto simp: list_all2_conv_all_nth)
    ultimately show "settles (\<lambda>n. Done (JArr ys)) (\<lambda>w. expansion defs (JArr xs) w \<and> expanded w)" by (simp add: settles_Done)
  qed
qed

lemma refs_below_expands:
  assumes acyclic: "acyclic_defs rank defs" and ne: "defs \<noteq> []"
  shows "refs_below rank defs r v \<Longrightarrow> expands defs v"
proof (induction r arbitrary: v rule: less_induct)
  case (less r)
  have defs: "all_expand defs d" if d: "obj_field name defs = Some d" "rank name < r" for name d
  proof -
    have "refs_below rank defs (rank name) (JObj d)" using acyclic d by (simp add: acyclic_defs_def)
    then have "refs_below rank defs (rank name) v" if "(k, v) \<in> set d" for k v using that by (auto simp: refs_below_obj)
    with less.IH [OF d(2)] show ?thesis by (auto simp: all_expand_def)
  qed
  from less.prems show ?case
  proof (induction rule: refs_below.induct)
    case (refs_other v)
    then show ?case by (cases v) (auto simp: expands_def in_value_def in_object_def intro!: settles_Done expansion_other expanded_other)
  next
    case (refs_array xs)
    then show ?case by (auto intro: array_expands)
  next
    case (refs_object m)
    have "all_expand defs m" using refs_object by (auto simp: all_expand_def)
    with refs_object(1) show ?case by (intro object_expands node_settles [OF acyclic ne defs]) auto
  qed
qed

text \<open>
  C34: In every schema whose definitions do not refer to each other in a circle, and with one definition at least, all
  references are expanded with enough fuel, and more fuel changes nothing. The result is the expansion of the schema: at
  every depth a node has its own fields and, where it has none, those of the definition that it refers to, expanded
  themselves; so no reference is left.
\<close>

theorem references_expand:
  assumes "acyclic_defs rank defs" and "defs \<noteq> []"
  shows "\<exists>n0 m'. (\<forall>n \<ge> n0. flattenRefs n defs m = Done m') \<and> expansion defs (JObj m) (JObj m') \<and> expanded (JObj m')"
proof -
  define r where "r = Suc (Max (rank ` fst ` set defs))"
  have r: "rank name < r" if "obj_field name defs = Some d" for name d
  proof -
    have "name \<in> fst ` set defs" using that field_in_set [of name defs "JObj d"] by force
    then show ?thesis by (simp add: r_def less_Suc_eq_le)
  qed
  then have ref: "rank name < r" if "ref_of defs m = Some name" for name and m :: "'a object"
    using that by (auto simp: ref_of_def Let_def obj_field_def split: option.splits json.splits if_splits)
  have "refs_below rank defs r v" for v
  proof (induction v)
    case (JArr xs)
    then show ?case by (auto intro: refs_array)
  next
    case (JObj m)
    then show ?case by (intro refs_object ref) auto
  qed (auto intro: refs_other)
  then have "expands defs v" for v by (rule refs_below_expands [OF assms])
  then have "all_expand defs d" for d by (simp add: all_expand_def)
  then have "settles (\<lambda>n. flattenRefs n defs m) (\<lambda>m'. expansion defs (JObj m) (JObj m') \<and> expanded (JObj m'))"
    using ref by (intro node_settles [OF assms]) auto
  then show ?thesis unfolding settles_def by blast
qed

definition two_definitions :: "int object" where
  "two_definitions = [(''A'', JObj [(''type'', JStr ''string'')]), (''B'', JObj [(''items'', JObj [(''$ref'', JStr ''#/$defs/A'')])])]"

theorem references_expand_witness:
  "\<exists>n0 m'. (\<forall>n \<ge> n0. flattenRefs n two_definitions [(''x'', JObj [(''$ref'', JStr ''#/$defs/B'')])] = Done m') \<and>
    expansion two_definitions (JObj [(''x'', JObj [(''$ref'', JStr ''#/$defs/B'')])]) (JObj m') \<and> expanded (JObj m')"
proof -
  let ?rank = "\<lambda>name :: string. if name = ''B'' then 1 else 0 :: nat"
  have A: "refs_below ?rank two_definitions 0 (JObj [(''type'', JStr ''string'')])"
    by (rule refs_object) (auto simp: ref_of_def field_Cons intro: refs_other)
  have last: "last (split_on (CHR ''/'') ''#/$defs/A'') = ''A''" by code_simp
  have "refs_below ?rank two_definitions 1 (JObj [(''$ref'', JStr ''#/$defs/A'')])"
    by (rule refs_object) (auto simp: ref_of_def field_Cons last Let_def intro: refs_other split: if_splits)
  then have B: "refs_below ?rank two_definitions 1 (JObj [(''items'', JObj [(''$ref'', JStr ''#/$defs/A'')])])"
    by (intro refs_object) (auto simp: ref_of_def field_Cons)
  have "refs_below ?rank two_definitions (?rank name) (JObj d)" if "obj_field name two_definitions = Some d" for name d
    using that A B by (auto simp: two_definitions_def field_Cons split: if_splits)
  then have "acyclic_defs ?rank two_definitions" by (simp add: acyclic_defs_def)
  from references_expand [OF this, of "[(''x'', JObj [(''$ref'', JStr ''#/$defs/B'')])]"] show ?thesis
    by (simp add: two_definitions_def)
qed

section \<open>A definition that refers to itself\<close>

definition node_reference :: "'n object" where
  "node_reference = [(''$ref'', JStr ''#/$defs/Node'')]"

definition node_body :: "'n object" where
  "node_body = [(''properties'', JObj [(''next'', JObj node_reference)])]"

definition node_definition :: "'n object" where
  "node_definition = [(''Node'', JObj node_body)]"

text \<open>The expansion follows the reference for ever: the recursion of the code never ends.\<close>

lemma recursive_reference: "flattenRefs n (node_definition :: 'n object) node_reference = OutOfFuel"
proof (induction n rule: less_induct)
  case (less n)
  let ?D = "node_definition :: 'n object"
  have "last (split_on (CHR ''/'') ''#/$defs/Node'') = ''Node''" by code_simp
  then have ref: "take_ref ?D node_reference = ([], Some node_body)"
    by (simp add: take_ref_def field_Cons del_field_def node_reference_def node_definition_def)
  have none: "take_ref ?D node_body = (node_body, None)"
    "take_ref ?D [(''next'', JObj node_reference)] = ([(''next'', JObj node_reference)], None)"
    by (simp_all add: take_ref_def field_Cons node_body_def)
  have "?D \<noteq> []" by (simp add: node_definition_def)
  note step = flattenRefs.simps(2) [of _ ?D] if_not_P [OF this]
  have inner: "flattenRefs k ?D [(''next'', JObj node_reference)] = OutOfFuel" if "Suc k < n" for k
  proof (cases k)
    case (Suc j)
    then have "flattenRefs j ?D node_reference = OutOfFuel" using less that by simp
    then show ?thesis unfolding Suc step none by (simp add: each_field_def in_value_def in_object_def)
  qed simp
  have body: "flattenRefs k ?D node_body = OutOfFuel" if "k < n" for k
  proof (cases k)
    case (Suc j)
    then have "flattenRefs j ?D [(''next'', JObj node_reference)] = OutOfFuel" using inner that by simp
    then show ?thesis
      unfolding Suc step none by (simp add: node_body_def each_field_def in_value_def in_object_def)
  qed simp
  have merge: "fold set_missing (node_body :: 'n object) [] = node_body"
    by (simp add: node_body_def set_missing_def has_key_def set_field_def)
  show ?case
  proof (cases n)
    case (Suc k)
    then have "flattenRefs k ?D node_body = OutOfFuel" using body by simp
    then show ?thesis unfolding Suc step ref by (simp add: merge)
  qed simp
qed

definition recursive_schema :: "'n object" where
  "recursive_schema = (''$defs'', JObj node_definition) # node_reference"

text \<open>
  C38: A schema whose definition refers to itself, as lists and trees do, is never cleaned: no amount of
  fuel is enough, because every expansion inserts the reference again.
\<close>

theorem recursive_schema_never_returns:
  fixes num :: "'n \<Rightarrow> string"
  shows "CleanJSONSchema lower num ord n k (Some recursive_schema) = OutOfFuel"
proof -
  have "extractDefs (recursive_schema :: 'n object) = (node_definition, node_reference)"
    by (simp add: extractDefs_def take_defs_def obj_field_def field_Cons del_field_def set_field_def
        recursive_schema_def node_definition_def node_reference_def)
  then show ?thesis by (simp add: CleanJSONSchema_def recursive_reference)
qed

end
