(* ===== verification/Batch_Queue.thy ===== *)
theory Batch_Queue
  imports Redis
begin

text \<open>
  The queue of batch image jobs (\<^verbatim>\<open>batchimage/rediscache/queue.go\<close>): a list of ready jobs, a sorted set of
  delayed jobs by the millisecond they are due, a sorted set of active jobs by their last heartbeat, a
  key per job that keeps it from being queued twice, and a lock per job. Instants are nanoseconds of the
  caller's clock, which need not be that of the store.
\<close>

section \<open>Jobs, errors and keys\<close>

datatype queue_error =
    ErrInvalidBatchImageQueuePayload
  | ErrBatchImageAlreadyQueued
  | ErrBatchImageQueueEmpty
  | ErrBatchImageLeaseLost
  | StoreError
  | ContextDone

definition IsValidBatchImageID :: "string \<Rightarrow> bool" where
  "IsValidBatchImageID batchID \<longleftrightarrow> prefix ''imgbatch_'' batchID \<and> length batchID > length ''imgbatch_''"

record QueueOptions =
  qo_ReadyKey :: string
  qo_DelayedKey :: string
  qo_ActiveKey :: string
  qo_InflightPrefix :: string
  qo_LockPrefix :: string
  qo_InflightTTL :: duration
  qo_LockTTL :: duration

definition defaultBatchImageJobLockTTL :: duration where
  "defaultBatchImageJobLockTTL = 5 * minute"

definition normalizeBatchImageQueueOptions :: "QueueOptions \<Rightarrow> QueueOptions" where
  "normalizeBatchImageQueueOptions opts =
     \<lparr>qo_ReadyKey = (if qo_ReadyKey opts = [] then ''batch_image:queue:ready'' else qo_ReadyKey opts),
      qo_DelayedKey = (if qo_DelayedKey opts = [] then ''batch_image:queue:delayed'' else qo_DelayedKey opts),
      qo_ActiveKey = (if qo_ActiveKey opts = [] then ''batch_image:queue:active'' else qo_ActiveKey opts),
      qo_InflightPrefix =
        (if qo_InflightPrefix opts = [] then ''batch_image:queue:inflight:'' else qo_InflightPrefix opts),
      qo_LockPrefix = (if qo_LockPrefix opts = [] then ''batch_image:queue:lock:'' else qo_LockPrefix opts),
      qo_InflightTTL = (if qo_InflightTTL opts \<le> 0 then 7 * 24 * hour else qo_InflightTTL opts),
      qo_LockTTL = (if qo_LockTTL opts \<le> 0 then defaultBatchImageJobLockTTL else qo_LockTTL opts)\<rparr>"

text \<open>\<open>NewBatchImageQueue\<close> keeps the normalised options; without a configuration they are all defaults.\<close>

definition NewBatchImageQueue :: "QueueOptions option \<Rightarrow> QueueOptions" where
  "NewBatchImageQueue cfg =
     normalizeBatchImageQueueOptions
       (case cfg of
          None \<Rightarrow> \<lparr>qo_ReadyKey = [], qo_DelayedKey = [], qo_ActiveKey = [], qo_InflightPrefix = [], qo_LockPrefix = [],
                   qo_InflightTTL = 0, qo_LockTTL = 0\<rparr>
        | Some opts \<Rightarrow> opts)"

definition inflightKey :: "QueueOptions \<Rightarrow> string \<Rightarrow> string" where
  "inflightKey q batchID = qo_InflightPrefix q @ batchID"

definition lockKey :: "QueueOptions \<Rightarrow> string \<Rightarrow> string" where
  "lockKey q batchID = qo_LockPrefix q @ batchID"

text \<open>\<^verbatim>\<open>UnixMilli\<close> of an instant and \<^verbatim>\<open>Milliseconds\<close> of a duration.\<close>

definition unix_milli :: "instant \<Rightarrow> int" where
  "unix_milli t = t div millisecond"

definition in_millis :: "duration \<Rightarrow> int" where
  "in_millis d = quot64 d millisecond"

section \<open>Scripts\<close>

text \<open>\<open>None\<close> is the error of a script: the store refuses an expiry that is not positive.\<close>

definition batchImageEnqueueScript :: "string \<Rightarrow> string \<Rightarrow> string \<Rightarrow> int \<Rightarrow> redis \<Rightarrow> int option \<times> redis" where
  "batchImageEnqueueScript inflight ready batchID ms r =
     (if ms \<le> 0 then (None, r)
      else if EXISTS inflight r then (Some 0, r)
      else (Some 1, LPUSH ready batchID (PEXPIRE inflight ms (SETT inflight batchID r))))"

definition batchImageReserveScript :: "string \<Rightarrow> string \<Rightarrow> int \<Rightarrow> redis \<Rightarrow> string option \<times> redis" where
  "batchImageReserveScript ready active now r =
     (case RPOP ready r of
        (None, r) \<Rightarrow> (None, r)
      | (Some job, r) \<Rightarrow> (Some job, ZADD active now job r))"

definition move_job :: "string \<Rightarrow> string \<Rightarrow> string \<Rightarrow> redis \<Rightarrow> redis" where
  "move_job src ready job r = LPUSH ready job (ZREM src job r)"

definition batchImageMoveDueDelayedScript :: "string \<Rightarrow> string \<Rightarrow> int \<Rightarrow> nat \<Rightarrow> redis \<Rightarrow> int \<times> redis" where
  "batchImageMoveDueDelayedScript delayed ready now limit r =
     (let jobs = ZRANGEBYSCORE delayed now limit r in (int (length jobs), fold (move_job delayed ready) jobs r))"

definition batchImageRecoverStaleActiveScript :: "string \<Rightarrow> string \<Rightarrow> int \<Rightarrow> nat \<Rightarrow> redis \<Rightarrow> int \<times> redis" where
  "batchImageRecoverStaleActiveScript active ready cutoff limit r =
     (let jobs = ZRANGEBYSCORE active cutoff limit r in (int (length jobs), fold (move_job active ready) jobs r))"

definition batchImageReleaseLockScript :: "string \<Rightarrow> string \<Rightarrow> redis \<Rightarrow> int \<times> redis" where
  "batchImageReleaseLockScript lock token r = (if GETT lock r = Some token then (1, DEL lock r) else (0, r))"

definition batchImageRefreshLockScript :: "string \<Rightarrow> string \<Rightarrow> int \<Rightarrow> redis \<Rightarrow> int \<times> redis" where
  "batchImageRefreshLockScript lock token ms r =
     (if GETT lock r = Some token then (1, PEXPIRE lock ms r) else (0, r))"

datatype owned_action = Requeue | Ack_job | Heartbeat_job

text \<open>
  The change of a job's records by who holds its lock, or by anyone when nobody does and the token is
  empty. \<open>due\<close> is the instant a requeued job is ready, \<open>delay\<close> the milliseconds until then.
\<close>

definition batchImageOwnedMutation ::
  "QueueOptions \<Rightarrow> string \<Rightarrow> string \<Rightarrow> owned_action \<Rightarrow> int \<Rightarrow> int \<Rightarrow> int \<Rightarrow> redis \<Rightarrow> int \<times> redis" where
  "batchImageOwnedMutation q batchID token act now delay due r =
     (let owner = GETT (lockKey q batchID) r;
          active = qo_ActiveKey q; delayed = qo_DelayedKey q; ready = qo_ReadyKey q
      in if (if token = [] then owner \<noteq> None else owner \<noteq> Some token) then (0, r)
         else (1, case act of
             Heartbeat_job \<Rightarrow> if ZSCORE active batchID r \<noteq> None then ZADD active now batchID r else r
           | Ack_job \<Rightarrow> DEL (inflightKey q batchID) (ZREM delayed batchID (ZREM active batchID r))
           | Requeue \<Rightarrow>
               (let r = ZREM delayed batchID (ZREM active batchID r)
                in if delay \<le> 0 then LPUSH ready batchID r else ZADD delayed due batchID r)))"

section \<open>Operations\<close>

definition Enqueue :: "QueueOptions \<Rightarrow> string \<Rightarrow> world \<Rightarrow> (queue_error + unit) \<times> world" where
  "Enqueue q batchID w =
     (if \<not> IsValidBatchImageID batchID then (Inl ErrInvalidBatchImageQueuePayload, w)
      else
        case roundtrip (batchImageEnqueueScript (inflightKey q batchID) (qo_ReadyKey q) batchID
          (in_millis (qo_InflightTTL q))) w of
          (None, w) \<Rightarrow> (Inl StoreError, w)
        | (Some None, w) \<Rightarrow> (Inl StoreError, w)
        | (Some (Some applied), w) \<Rightarrow> (if applied = 0 then Inl ErrBatchImageAlreadyQueued else Inr (), w))"

definition reserveOnce :: "QueueOptions \<Rightarrow> instant \<Rightarrow> world \<Rightarrow> (queue_error + string) \<times> world" where
  "reserveOnce q now w =
     (case roundtrip (batchImageReserveScript (qo_ReadyKey q) (qo_ActiveKey q) (unix_milli now)) w of
        (None, w) \<Rightarrow> (Inl StoreError, w)
      | (Some None, w) \<Rightarrow> (Inl ErrBatchImageQueueEmpty, w)
      | (Some (Some batchID), w) \<Rightarrow>
          if \<not> IsValidBatchImageID batchID
          then (Inl ErrInvalidBatchImageQueuePayload,
                if batchID \<noteq> [] then snd (send (ZREM (qo_ActiveKey q) batchID) w) else w)
          else (Inr batchID, w))"

text \<open>
  One turn of the loop of \<open>Reserve\<close>: the clock at the attempt, the clock after it, and whether the
  context ends before the timer. The answer is \<open>None\<close> while the loop is still waiting.
\<close>

record poll =
  po_now :: instant
  po_after :: instant
  po_done :: bool

fun Reserve :: "QueueOptions \<Rightarrow> instant \<Rightarrow> poll list \<Rightarrow> world \<Rightarrow> (queue_error + string) option \<times> world" where
  "Reserve q deadline [] w = (None, w)"
| "Reserve q deadline (p # ps) w =
     (case reserveOnce q (po_now p) w of
        (Inr batchID, w) \<Rightarrow> (Some (Inr batchID), w)
      | (Inl e, w) \<Rightarrow>
          if e \<noteq> ErrBatchImageQueueEmpty then (Some (Inl e), w)
          else if deadline - po_after p \<le> 0 then (Some (Inl ErrBatchImageQueueEmpty), w)
          else if po_done p then (Some (Inl ContextDone), w)
          else Reserve q deadline ps w)"

definition mutateOwned ::
  "QueueOptions \<Rightarrow> string \<Rightarrow> string \<Rightarrow> owned_action \<Rightarrow> duration \<Rightarrow> instant \<Rightarrow> world \<Rightarrow> (queue_error + unit) \<times> world" where
  "mutateOwned q batchID token act delay now w =
     (if \<not> IsValidBatchImageID batchID then (Inl ErrInvalidBatchImageQueuePayload, w)
      else
        case roundtrip (batchImageOwnedMutation q batchID token act (unix_milli now) (in_millis delay)
          (unix_milli (now + delay))) w of
          (None, w) \<Rightarrow> (Inl StoreError, w)
        | (Some n, w) \<Rightarrow> (if n \<noteq> 1 then Inl ErrBatchImageLeaseLost else Inr (), w))"

definition queue_RequeueAfter :: "QueueOptions \<Rightarrow> string \<Rightarrow> duration \<Rightarrow> instant \<Rightarrow> world \<Rightarrow> (queue_error + unit) \<times> world" where
  "queue_RequeueAfter q batchID delay = mutateOwned q batchID [] Requeue delay"

definition queue_Ack :: "QueueOptions \<Rightarrow> string \<Rightarrow> instant \<Rightarrow> world \<Rightarrow> (queue_error + unit) \<times> world" where
  "queue_Ack q batchID = mutateOwned q batchID [] Ack_job 0"

definition queue_Heartbeat :: "QueueOptions \<Rightarrow> string \<Rightarrow> instant \<Rightarrow> world \<Rightarrow> (queue_error + unit) \<times> world" where
  "queue_Heartbeat q batchID = mutateOwned q batchID [] Heartbeat_job 0"

definition or_100 :: "int \<Rightarrow> nat" where
  "or_100 limit = (if limit \<le> 0 then 100 else nat limit)"

definition MoveDueDelayedToReady :: "QueueOptions \<Rightarrow> int \<Rightarrow> instant \<Rightarrow> world \<Rightarrow> int option \<times> world" where
  "MoveDueDelayedToReady q limit now =
     roundtrip (batchImageMoveDueDelayedScript (qo_DelayedKey q) (qo_ReadyKey q) (unix_milli now) (or_100 limit))"

definition RecoverStaleActive :: "QueueOptions \<Rightarrow> duration \<Rightarrow> int \<Rightarrow> instant \<Rightarrow> world \<Rightarrow> (queue_error + int) \<times> world" where
  "RecoverStaleActive q staleAfter limit now w =
     (if staleAfter \<le> 0 then (Inl ErrInvalidBatchImageQueuePayload, w)
      else
        case roundtrip (batchImageRecoverStaleActiveScript (qo_ActiveKey q) (qo_ReadyKey q)
          (unix_milli (now - staleAfter)) (or_100 limit)) w of
          (None, w) \<Rightarrow> (Inl StoreError, w)
        | (Some n, w) \<Rightarrow> (Inr n, w))"

section \<open>Locks of jobs\<close>

record job_lock =
  jl_key :: string
  jl_token :: string
  jl_id :: string

text \<open>\<open>token\<close> is the fresh random token, \<open>None\<close> when the random source fails; the answer is the lock, if free.\<close>

definition TryAcquireJobLock ::
  "QueueOptions \<Rightarrow> string option \<Rightarrow> string \<Rightarrow> duration \<Rightarrow> world \<Rightarrow> (queue_error + job_lock option) \<times> world" where
  "TryAcquireJobLock q token batchID ttl w =
     (if \<not> IsValidBatchImageID batchID then (Inl ErrInvalidBatchImageQueuePayload, w)
      else
        let ttl = (if ttl \<le> 0 then qo_LockTTL q else ttl); key = lockKey q batchID
        in case token of
             None \<Rightarrow> (Inl StoreError, w)
           | Some token \<Rightarrow>
               (case roundtrip (\<lambda>r. if EXISTS key r then (False, r)
                      else (True, PEXPIRE key (max 1 (ttl div millisecond)) (SETT key token r))) w of
                  (None, w) \<Rightarrow> (Inl StoreError, w)
                | (Some ok, w) \<Rightarrow> (Inr (if ok then Some \<lparr>jl_key = key, jl_token = token, jl_id = batchID\<rparr> else None), w)))"

definition lock_Release :: "job_lock \<Rightarrow> world \<Rightarrow> (queue_error + unit) \<times> world" where
  "lock_Release l w =
     (if jl_key l = [] \<or> jl_token l = [] then (Inr (), w)
      else case roundtrip (batchImageReleaseLockScript (jl_key l) (jl_token l)) w of
             (None, w) \<Rightarrow> (Inl StoreError, w)
           | (Some _, w) \<Rightarrow> (Inr (), w))"

definition lock_Refresh :: "job_lock \<Rightarrow> duration \<Rightarrow> world \<Rightarrow> (queue_error + unit) \<times> world" where
  "lock_Refresh l ttl w =
     (if jl_key l = [] \<or> jl_token l = [] then (Inr (), w)
      else
        let ttl = (if ttl \<le> 0 then defaultBatchImageJobLockTTL else ttl)
        in case roundtrip (batchImageRefreshLockScript (jl_key l) (jl_token l) (in_millis ttl)) w of
             (None, w) \<Rightarrow> (Inl StoreError, w)
           | (Some n, w) \<Rightarrow> (if n \<noteq> 1 then Inl ErrBatchImageLeaseLost else Inr (), w))"

definition lock_Heartbeat :: "QueueOptions \<Rightarrow> job_lock \<Rightarrow> instant \<Rightarrow> world \<Rightarrow> (queue_error + unit) \<times> world" where
  "lock_Heartbeat q l = mutateOwned q (jl_id l) (jl_token l) Heartbeat_job 0"

definition lock_Ack :: "QueueOptions \<Rightarrow> job_lock \<Rightarrow> instant \<Rightarrow> world \<Rightarrow> (queue_error + unit) \<times> world" where
  "lock_Ack q l = mutateOwned q (jl_id l) (jl_token l) Ack_job 0"

definition lock_RequeueAfter :: "QueueOptions \<Rightarrow> job_lock \<Rightarrow> duration \<Rightarrow> instant \<Rightarrow> world \<Rightarrow> (queue_error + unit) \<times> world" where
  "lock_RequeueAfter q l delay = mutateOwned q (jl_id l) (jl_token l) Requeue delay"

end
