(* ===== verification/Batch_Tracked.thy ===== *)
theory Batch_Tracked
  imports Batch_Queue
begin

text \<open>
  No job of the batch image queue gets lost: whatever the clients of the queue do, in any order and with
  any lost requests, a job that is in the queue stays in its list or one of its sorted sets until it is
  acknowledged, and the key that refuses a second entry exists only while the job is there.
\<close>

section \<open>Everything that is asked of the store\<close>

text \<open>
  \<open>A\<close> are the jobs that may be acknowledged and \<open>B\<close> the pairs of a job and a token with which a lock may
  be used. Requests of other parts leave the keys of the queue alone.
\<close>

definition queue_key :: "QueueOptions \<Rightarrow> string \<Rightarrow> bool" where
  "queue_key q k \<longleftrightarrow> k = qo_ReadyKey q \<or> k = qo_DelayedKey q \<or> k = qo_ActiveKey q"

definition foreign :: "QueueOptions \<Rightarrow> (redis \<Rightarrow> redis) \<Rightarrow> bool" where
  "foreign q f \<longleftrightarrow> (\<forall>r. rd_clock (f r) = rd_clock r \<and>
     (\<forall>k. queue_key q k \<or> prefix (qo_InflightPrefix q) k \<or> prefix (qo_LockPrefix q) k \<longrightarrow>
        rd_lists (f r) k = rd_lists r k \<and> rd_zsets (f r) k = rd_zsets r k \<and> rd_values (f r) k = rd_values r k \<and>
        rd_texts (f r) k = rd_texts r k \<and> rd_deadline (f r) k = rd_deadline r k))"

inductive queue_request ::
  "QueueOptions \<Rightarrow> (string \<Rightarrow> bool) \<Rightarrow> (string \<Rightarrow> string \<Rightarrow> bool) \<Rightarrow> (redis \<Rightarrow> redis) \<Rightarrow> bool" for q A B where
  rq_enqueue: "queue_request q A B (\<lambda>r. snd (batchImageEnqueueScript (inflightKey q x) (qo_ReadyKey q) x ms r))"
| rq_reserve: "queue_request q A B (\<lambda>r. snd (batchImageReserveScript (qo_ReadyKey q) (qo_ActiveKey q) now r))"
| rq_drop: "\<not> IsValidBatchImageID x \<Longrightarrow> queue_request q A B (ZREM (qo_ActiveKey q) x)"
| rq_mutate: "B x token \<Longrightarrow> act = Ack_job \<longrightarrow> A x \<Longrightarrow>
    queue_request q A B (\<lambda>r. snd (batchImageOwnedMutation q x token act now delay due r))"
| rq_move: "queue_request q A B (\<lambda>r. snd (batchImageMoveDueDelayedScript (qo_DelayedKey q) (qo_ReadyKey q) now limit r))"
| rq_recover: "queue_request q A B (\<lambda>r. snd (batchImageRecoverStaleActiveScript (qo_ActiveKey q) (qo_ReadyKey q) now limit r))"
| rq_lock: "0 < ms \<Longrightarrow> queue_request q A B (\<lambda>r. snd (if EXISTS (lockKey q x) r then (False, r)
    else (True, PEXPIRE (lockKey q x) ms (SETT (lockKey q x) token r))))"
| rq_release: "B x token \<Longrightarrow> queue_request q A B (\<lambda>r. snd (batchImageReleaseLockScript (lockKey q x) token r))"
| rq_refresh: "B x token \<Longrightarrow> queue_request q A B (\<lambda>r. snd (batchImageRefreshLockScript (lockKey q x) token ms r))"
| rq_foreign: "foreign q f \<Longrightarrow> queue_request q A B f"

text \<open>The names of the keys do not overlap; those of the defaults do not.\<close>

definition keys_ok :: "QueueOptions \<Rightarrow> bool" where
  "keys_ok q \<longleftrightarrow> distinct [qo_ReadyKey q, qo_DelayedKey q, qo_ActiveKey q] \<and>
     list_all (\<lambda>k. \<not> prefix (qo_InflightPrefix q) k \<and> \<not> prefix (qo_LockPrefix q) k)
       [qo_ReadyKey q, qo_DelayedKey q, qo_ActiveKey q] \<and>
     \<not> prefix (qo_InflightPrefix q) (qo_LockPrefix q) \<and> \<not> prefix (qo_LockPrefix q) (qo_InflightPrefix q)"

lemma default_keys_ok: "keys_ok (NewBatchImageQueue None)"
  by code_simp

lemma keys_ok_simps:
  assumes "keys_ok q"
  shows "qo_ReadyKey q \<noteq> qo_DelayedKey q" "qo_ReadyKey q \<noteq> qo_ActiveKey q" "qo_DelayedKey q \<noteq> qo_ActiveKey q"
    "qo_DelayedKey q \<noteq> qo_ReadyKey q" "qo_ActiveKey q \<noteq> qo_ReadyKey q" "qo_ActiveKey q \<noteq> qo_DelayedKey q"
    "\<And>k. queue_key q k \<Longrightarrow> k \<noteq> inflightKey q x" "\<And>k. queue_key q k \<Longrightarrow> k \<noteq> lockKey q x"
    "inflightKey q x \<noteq> lockKey q y" "lockKey q y \<noteq> inflightKey q x"
proof -
  have i: "prefix (qo_InflightPrefix q) (inflightKey q x)" and l: "prefix (qo_LockPrefix q) (lockKey q y)" for x y
    by (simp_all add: inflightKey_def lockKey_def)
  have "inflightKey q x \<noteq> lockKey q y" for x y
    using assms prefix_same_cases [OF i [of x], of "qo_LockPrefix q"] l [of y] unfolding keys_ok_def by metis
  then show "inflightKey q x \<noteq> lockKey q y" "lockKey q y \<noteq> inflightKey q x" by metis+
  show "\<And>k. queue_key q k \<Longrightarrow> k \<noteq> inflightKey q x" "\<And>k. queue_key q k \<Longrightarrow> k \<noteq> lockKey q x"
    using assms i [of x] l [of x] by (auto simp: keys_ok_def queue_key_def)
qed (use assms in \<open>auto simp: keys_ok_def\<close>)

lemma own_keys [simp]:
  "inflightKey q x = inflightKey q y \<longleftrightarrow> x = y" "lockKey q x = lockKey q y \<longleftrightarrow> x = y"
  "prefix (qo_InflightPrefix q) (inflightKey q x)" "prefix (qo_LockPrefix q) (lockKey q x)"
  "queue_key q (qo_ReadyKey q)" "queue_key q (qo_DelayedKey q)" "queue_key q (qo_ActiveKey q)"
  by (simp_all add: inflightKey_def lockKey_def queue_key_def)

section \<open>Jobs in the queue\<close>

definition in_zset :: "string \<Rightarrow> string \<Rightarrow> redis \<Rightarrow> bool" where
  "in_zset k x r \<longleftrightarrow> x \<in> fst ` set (rd_zsets r k)"

definition permanent :: "QueueOptions \<Rightarrow> redis \<Rightarrow> bool" where
  "permanent q r \<longleftrightarrow> (\<forall>k. queue_key q k \<longrightarrow> rd_deadline r k = None)"

definition queued :: "QueueOptions \<Rightarrow> string \<Rightarrow> redis \<Rightarrow> bool" where
  "queued q x r \<longleftrightarrow> permanent q r \<and>
     (x \<in> set (rd_lists r (qo_ReadyKey q)) \<or> in_zset (qo_DelayedKey q) x r \<or> in_zset (qo_ActiveKey q) x r)"

text \<open>What the commands do to the three keys.\<close>

lemma permanent_commands:
  assumes "keys_ok q"
  shows "permanent q r \<Longrightarrow> permanent q (ZREM k x r)" "permanent q r \<Longrightarrow> permanent q (ZADD k s x r)"
    "permanent q r \<Longrightarrow> permanent q (LPUSH k x r)" "permanent q r \<Longrightarrow> permanent q (snd (RPOP k r))"
    "permanent q r \<Longrightarrow> permanent q (DEL k r)" "permanent q r \<Longrightarrow> permanent q (tick t r)"
    "permanent q r \<Longrightarrow> permanent q (SETT k v r)"
    "permanent q r \<Longrightarrow> permanent q (PEXPIRE (inflightKey q x) ms r)" "permanent q r \<Longrightarrow> permanent q (PEXPIRE (lockKey q x) ms r)"
  using keys_ok_simps(7,8) [OF assms]
  by (auto simp: permanent_def ZREM_def ZADD_def put_zset_def LPUSH_def put_list_def RPOP_def DEL_def SETT_def
      tick_def Let_def PEXPIRE_def split: list.splits)

lemma queue_keys_apart:
  assumes "keys_ok q"
  shows "qo_ReadyKey q \<noteq> inflightKey q x" "qo_DelayedKey q \<noteq> inflightKey q x" "qo_ActiveKey q \<noteq> inflightKey q x"
    "qo_ReadyKey q \<noteq> lockKey q x" "qo_DelayedKey q \<noteq> lockKey q x" "qo_ActiveKey q \<noteq> lockKey q x"
  using keys_ok_simps(7,8) [OF assms] own_keys(5-7) by metis+

lemma queue_data_frame:
  assumes "keys_ok q" and "queue_key q k"
  shows "rd_lists (SETT (inflightKey q x) t r) k = rd_lists r k" "rd_zsets (SETT (inflightKey q x) t r) k = rd_zsets r k"
    "rd_lists (SETT (lockKey q x) t r) k = rd_lists r k" "rd_zsets (SETT (lockKey q x) t r) k = rd_zsets r k"
    "rd_lists (DEL (lockKey q x) r) k = rd_lists r k" "rd_zsets (DEL (lockKey q x) r) k = rd_zsets r k"
    "rd_lists (DEL (inflightKey q x) r) k = rd_lists r k" "rd_zsets (DEL (inflightKey q x) r) k = rd_zsets r k"
    "rd_lists (PEXPIRE (inflightKey q x) ms r) k = rd_lists r k" "rd_zsets (PEXPIRE (inflightKey q x) ms r) k = rd_zsets r k"
    "rd_lists (PEXPIRE (lockKey q x) ms r) k = rd_lists r k" "rd_zsets (PEXPIRE (lockKey q x) ms r) k = rd_zsets r k"
  using keys_ok_simps(7,8) [OF assms(1), OF assms(2)]
  by (auto simp: SETT_def DEL_def PEXPIRE_def)

lemma list_commands [simp]:
  "rd_lists (ZREM k x r) = rd_lists r" "rd_lists (ZADD k s x r) = rd_lists r"
  "rd_lists (LPUSH k x r) = (rd_lists r)(k := x # rd_lists r k)" "rd_zsets (LPUSH k x r) = rd_zsets r"
  "rd_zsets (snd (RPOP k r)) = rd_zsets r"
  by (auto simp: ZREM_def ZADD_def put_zset_def LPUSH_def put_list_def RPOP_def split: list.splits)

lemma keys_delete: "fst ` set (AList.delete k al) = fst ` set al - {k}"
  by (metis delete_keys set_map set_removeAll)

lemma in_zset_commands [simp]:
  "in_zset k y (ZREM k' x r) \<longleftrightarrow> in_zset k y r \<and> \<not> (k = k' \<and> y = x)"
  "in_zset k y (ZADD k' s x r) \<longleftrightarrow> in_zset k y r \<or> (k = k' \<and> y = x)"
  "in_zset k y (LPUSH k' x r) \<longleftrightarrow> in_zset k y r"
  by (auto simp: in_zset_def dom_update keys_delete)

lemma move_job_queued:
  assumes "keys_ok q" and "src = qo_DelayedKey q \<or> src = qo_ActiveKey q" and "queued q x r"
  shows "queued q x (move_job src (qo_ReadyKey q) job r)"
  using assms(2,3) permanent_commands(1,3) [OF assms(1)] by (auto simp: queued_def move_job_def)

lemma move_jobs_queued:
  assumes "keys_ok q" and "src = qo_DelayedKey q \<or> src = qo_ActiveKey q"
  shows "queued q x r \<Longrightarrow> queued q x (fold (move_job src (qo_ReadyKey q)) jobs r)"
  by (induction jobs arbitrary: r) (auto intro: move_job_queued [OF assms])

lemma reserve_queued:
  assumes "keys_ok q" and "queued q x r"
  shows "queued q x (snd (batchImageReserveScript (qo_ReadyKey q) (qo_ActiveKey q) now r))"
proof (cases "rd_lists r (qo_ReadyKey q)")
  case Nil
  then show ?thesis using assms(2) by (simp add: batchImageReserveScript_def RPOP_def)
next
  case (Cons y ys)
  let ?l = "y # ys"
  have e: "snd (batchImageReserveScript (qo_ReadyKey q) (qo_ActiveKey q) now r)
      = ZADD (qo_ActiveKey q) now (last ?l) (put_list (qo_ReadyKey q) (butlast ?l) r)"
    using Cons by (simp add: batchImageReserveScript_def RPOP_def)
  have "x \<in> set ?l \<Longrightarrow> x \<in> set (butlast ?l) \<or> x = last ?l"
    using append_butlast_last_id [of ?l] by (metis Un_iff list.distinct(1) list.set(1,2) set_append singletonD insertE)
  moreover have "permanent q (put_list (qo_ReadyKey q) (butlast ?l) r)"
    using permanent_commands(4) [OF assms(1), of r "qo_ReadyKey q"] assms(2) Cons by (simp add: queued_def RPOP_def)
  ultimately show ?thesis
    using assms(2) Cons permanent_commands(2) [OF assms(1)] unfolding e queued_def
    by (auto simp: put_list_def in_zset_def dom_update simp del: butlast.simps last.simps)
qed

lemma mutation_queued:
  assumes k: "keys_ok q" and q: "queued q x r" and "act = Ack_job \<longrightarrow> x \<noteq> y"
  shows "queued q x (snd (batchImageOwnedMutation q y token act now delay due r))"
proof -
  note frame = queue_data_frame(7,8) [OF k] and perm = permanent_commands [OF k] and ne = keys_ok_simps(1-6) [OF k] queue_keys_apart [OF k]
  show ?thesis
  proof (cases act)
    case Requeue
    then show ?thesis using q ne
      by (auto simp: batchImageOwnedMutation_def Let_def queued_def in_zset_def dom_update keys_delete intro!: perm(1-3))
  next
    case Ack_job
    then show ?thesis using q assms(3)
      by (auto simp: batchImageOwnedMutation_def Let_def queued_def in_zset_def frame keys_delete ne intro!: perm(1,5))
  next
    case Heartbeat_job
    then show ?thesis using q
      by (auto simp: batchImageOwnedMutation_def Let_def queued_def in_zset_def dom_update intro!: perm(2))
  qed
qed

lemma enqueue_queued:
  assumes "keys_ok q" and "queued q x r"
  shows "queued q x (snd (batchImageEnqueueScript (inflightKey q y) (qo_ReadyKey q) y ms r))"
  using assms(2) permanent_commands(3,7,8) [OF assms(1)]
  by (auto simp: batchImageEnqueueScript_def queued_def in_zset_def queue_data_frame [OF assms(1)])

lemma lock_commands_queued:
  assumes "keys_ok q" and "queued q x r"
  shows "queued q x (DEL (lockKey q y) r)" "queued q x (PEXPIRE (lockKey q y) ms r)" "queued q x (SETT (lockKey q y) t r)"
  using assms(2) permanent_commands(5,7,9) [OF assms(1)]
  by (auto simp: queued_def in_zset_def queue_data_frame [OF assms(1)] queue_keys_apart [OF assms(1)])

text \<open>A valid job that may not be acknowledged stays.\<close>

lemma request_queued:
  assumes "queue_request q A B f" and k: "keys_ok q" and x: "IsValidBatchImageID x" "\<not> A x" and r: "queued q x r"
  shows "queued q x (f r)"
  using assms(1)
proof cases
  case (rq_drop y)
  then have "x \<noteq> y" using x by auto
  then show ?thesis using r rq_drop permanent_commands(1) [OF k] by (auto simp: queued_def in_zset_def keys_delete)
next
  case (rq_mutate y token act)
  then have "act = Ack_job \<longrightarrow> x \<noteq> y" using x by auto
  then show ?thesis unfolding rq_mutate(1) by (rule mutation_queued [OF k r])
next
  case rq_foreign
  then have "permanent q (f r)" "\<And>k. queue_key q k \<Longrightarrow> rd_lists (f r) k = rd_lists r k \<and> rd_zsets (f r) k = rd_zsets r k"
    using r by (auto simp: foreign_def queued_def permanent_def)
  with r show ?thesis by (simp add: queued_def in_zset_def)
qed (use r enqueue_queued [OF k r] reserve_queued [OF k r] move_jobs_queued [OF k _ r] lock_commands_queued [OF k] in
      \<open>auto simp: batchImageMoveDueDelayedScript_def batchImageRecoverStaleActiveScript_def Let_def
         batchImageReleaseLockScript_def batchImageRefreshLockScript_def\<close>)

lemma tick_queued: "keys_ok q \<Longrightarrow> queued q x r \<Longrightarrow> queued q x (tick ms r)"
  using permanent_commands(6) [of q r ms]
  by (auto simp: queued_def in_zset_def tick_def Let_def permanent_def expired_def queue_key_def)

lemma reach_queued:
  assumes "reach (queue_request q A B) r r'" and "keys_ok q" and "IsValidBatchImageID x" "\<not> A x" and "queued q x r"
  shows "queued q x r'"
proof (rule reach_invariant [where I = "queued q x", OF assms(1,5)])
  show "queued q x (f r)" if "queue_request q A B f" "queued q x r" for f r
    using that(1) assms(2-4) that(2) by (rule request_queued [where A = A and B = B and x = x and f = f])
  show "queued q x (tick ms r)" if "queued q x r" for ms r
    using assms(2) that by (rule tick_queued)
qed

section \<open>The key that refuses a second entry\<close>

definition same_at :: "string \<Rightarrow> redis \<Rightarrow> redis \<Rightarrow> bool" where
  "same_at k r r' \<longleftrightarrow> rd_lists r' k = rd_lists r k \<and> rd_zsets r' k = rd_zsets r k \<and> rd_values r' k = rd_values r k \<and>
     rd_texts r' k = rd_texts r k \<and> rd_deadline r' k = rd_deadline r k"

lemma same_at_refl [simp]: "same_at k r r"
  by (simp add: same_at_def)

lemma same_at_commands:
  assumes "k \<noteq> k'"
  shows "same_at k r r' \<Longrightarrow> same_at k r (ZREM k' x r')" "same_at k r r' \<Longrightarrow> same_at k r (ZADD k' s x r')"
    "same_at k r r' \<Longrightarrow> same_at k r (LPUSH k' x r')" "same_at k r r' \<Longrightarrow> same_at k r (snd (RPOP k' r'))"
    "same_at k r r' \<Longrightarrow> same_at k r (DEL k' r')" "same_at k r r' \<Longrightarrow> same_at k r (SETT k' v r')"
    "same_at k r r' \<Longrightarrow> same_at k r (PEXPIRE k' ms r')"
  using assms by (auto simp: same_at_def ZREM_def ZADD_def put_zset_def LPUSH_def put_list_def RPOP_def DEL_def SETT_def
      PEXPIRE_def split: list.splits)

lemma same_at_moves:
  "k \<noteq> src \<Longrightarrow> k \<noteq> ready \<Longrightarrow> same_at k r r' \<Longrightarrow> same_at k r (fold (move_job src ready) jobs r')"
  by (induction jobs arbitrary: r') (simp_all add: move_job_def same_at_commands)

lemma same_at_reserve:
  assumes "k \<noteq> ready" "k \<noteq> active"
  shows "same_at k r (snd (batchImageReserveScript ready active now r))"
  using same_at_commands(4) [OF assms(1) same_at_refl, of r] same_at_commands(2) [OF assms(2)]
  by (cases "RPOP ready r"; cases "fst (RPOP ready r)") (auto simp: batchImageReserveScript_def)

lemma same_at_EXISTS: "same_at k r r' \<Longrightarrow> EXISTS k r' = EXISTS k r"
  by (simp add: same_at_def EXISTS_def)

text \<open>Only the entry and the acknowledgement of a job touch its key.\<close>

lemma request_inflight:
  assumes "queue_request q A B f" and k: "keys_ok q"
  shows "same_at (inflightKey q x) r (f r) \<or>
    (\<exists>ms. f = (\<lambda>r. snd (batchImageEnqueueScript (inflightKey q x) (qo_ReadyKey q) x ms r))) \<or>
    (\<exists>token now delay due. f = (\<lambda>r. snd (batchImageOwnedMutation q x token Ack_job now delay due r)))"
proof -
  note ne = queue_keys_apart(1-3) [OF k, symmetric] keys_ok_simps(9) [OF k]
  note cmd = same_at_commands [OF ne(1)] same_at_commands [OF ne(2)] same_at_commands [OF ne(3)] same_at_commands [OF ne(4)]
    same_at_commands [where k = "inflightKey q x"]
  from assms(1) show ?thesis
  proof cases
    case (rq_mutate y token act)
    show ?thesis
    proof (cases "act = Ack_job \<and> y = x")
      case True
      then show ?thesis using rq_mutate by blast
    next
      case False
      then have "same_at (inflightKey q x) r (f r)" unfolding rq_mutate(1)
        by (cases act) (auto simp: batchImageOwnedMutation_def Let_def intro!: cmd)
      then show ?thesis by blast
    qed
  next
    case (rq_enqueue y ms)
    show ?thesis
    proof (cases "y = x")
      case False
      then have "same_at (inflightKey q x) r (f r)" unfolding rq_enqueue
        by (auto simp: batchImageEnqueueScript_def intro!: cmd)
      then show ?thesis by blast
    qed (use rq_enqueue in blast)
  next
    case rq_reserve
    then show ?thesis using same_at_reserve ne by simp
  next
    case rq_foreign
    then show ?thesis by (simp add: foreign_def same_at_def)
  qed (auto simp: batchImageMoveDueDelayedScript_def batchImageRecoverStaleActiveScript_def Let_def ne
      batchImageReleaseLockScript_def batchImageRefreshLockScript_def intro!: cmd same_at_moves)
qed

lemma request_permanent:
  assumes "queue_request q A B f" and k: "keys_ok q" and p: "permanent q r"
  shows "permanent q (f r)"
proof -
  note perm = permanent_commands [OF k]
  have moves: "permanent q (fold (move_job src ready) jobs r)" for src ready jobs
    using p by (induction jobs arbitrary: r) (simp_all add: move_job_def perm)
  from assms(1) show ?thesis
  proof cases
    case (rq_mutate y token act)
    then show ?thesis using p by (cases act) (auto simp: batchImageOwnedMutation_def Let_def intro!: perm)
  next
    case rq_reserve
    then show ?thesis using perm(4) [OF p, of "qo_ReadyKey q"] perm(2)
      by (cases "RPOP (qo_ReadyKey q) r"; cases "fst (RPOP (qo_ReadyKey q) r)") (auto simp: batchImageReserveScript_def)
  next
    case rq_foreign
    then show ?thesis using p by (simp add: foreign_def permanent_def)
  qed (use p in \<open>auto simp: batchImageMoveDueDelayedScript_def batchImageRecoverStaleActiveScript_def Let_def moves
      batchImageEnqueueScript_def batchImageReleaseLockScript_def batchImageRefreshLockScript_def intro!: perm\<close>)
qed

definition covered :: "QueueOptions \<Rightarrow> redis \<Rightarrow> bool" where
  "covered q r \<longleftrightarrow> permanent q r \<and> (\<forall>x. IsValidBatchImageID x \<and> EXISTS (inflightKey q x) r \<longrightarrow> queued q x r)"

lemma request_but:
  "queue_request q A B f \<Longrightarrow> queue_request q (\<lambda>y. y \<noteq> x) B f \<or>
     (\<exists>token now delay due. f = (\<lambda>r. snd (batchImageOwnedMutation q x token Ack_job now delay due r)))"
proof (induction rule: queue_request.induct)
  case (rq_mutate y token act)
  then show ?case by (cases "act = Ack_job \<and> y = x") (blast, blast intro: queue_request.rq_mutate)
qed (blast intro: queue_request.intros)+

lemma enqueue_makes_queued:
  assumes k: "keys_ok q" and "permanent q r"
    and e: "EXISTS (inflightKey q x) r \<Longrightarrow> queued q x r"
    and f: "EXISTS (inflightKey q x) (snd (batchImageEnqueueScript (inflightKey q x) (qo_ReadyKey q) x ms r))"
  shows "queued q x (snd (batchImageEnqueueScript (inflightKey q x) (qo_ReadyKey q) x ms r))"
  using assms(2) e f permanent_commands(3,7,8) [OF k]
  by (auto simp: batchImageEnqueueScript_def queued_def split: if_splits)

lemma request_covered:
  assumes f: "queue_request q A B f" and k: "keys_ok q" and c: "covered q r"
  shows "covered q (f r)"
proof -
  have "queued q x (f r)" if x: "IsValidBatchImageID x" and e: "EXISTS (inflightKey q x) (f r)" for x
  proof -
    have c': "EXISTS (inflightKey q x) r \<Longrightarrow> queued q x r" and p: "permanent q r" using c x by (auto simp: covered_def)
    { fix token now delay due
      assume a: "f = (\<lambda>r. snd (batchImageOwnedMutation q x token Ack_job now delay due r))"
      have "f r = r" using e unfolding a
        by (auto simp: batchImageOwnedMutation_def Let_def EXISTS_def DEL_def split: if_splits)
      then have ?thesis using c' e by simp }
    moreover
    { assume b: "queue_request q (\<lambda>y. y \<noteq> x) B f" and s: "same_at (inflightKey q x) r (f r)"
      have "queued q x r" using c' e same_at_EXISTS [OF s] by simp
      then have ?thesis using request_queued [where A = "\<lambda>y. y \<noteq> x" and B = B and f = f, OF b k x] by simp }
    moreover
    { fix ms
      assume "f = (\<lambda>r. snd (batchImageEnqueueScript (inflightKey q x) (qo_ReadyKey q) x ms r))"
      then have ?thesis using enqueue_makes_queued [OF k p c'] e by simp }
    ultimately show ?thesis using request_but [OF f, of x] request_inflight [OF f k, of x r] by blast
  qed
  then show ?thesis using request_permanent [OF f k] c by (simp add: covered_def)
qed

lemma tick_covered:
  assumes k: "keys_ok q" and c: "covered q r"
  shows "covered q (tick ms r)"
proof -
  have "EXISTS (inflightKey q x) r" if "EXISTS (inflightKey q x) (tick ms r)" for x
    using that by (auto simp: EXISTS_def tick_def Let_def split: if_splits)
  then show ?thesis
    using c tick_queued [OF k] permanent_commands(6) [OF k] by (auto simp: covered_def)
qed

lemma empty_covered: "covered q (empty_redis t)"
  by (simp add: covered_def permanent_def empty_redis_def EXISTS_def)

lemma reach_covered:
  assumes "reach (queue_request q A B) r r'" and "keys_ok q" and "covered q r"
  shows "covered q r'"
proof (rule reach_invariant [where I = "covered q", OF assms(1,3)])
  show "covered q (f r)" if "queue_request q A B f" "covered q r" for f r
    using that(1) assms(2) that(2) by (rule request_covered [where f = f])
  show "covered q (tick ms r)" if "covered q r" for ms r
    using assms(2) that by (rule tick_covered)
qed

section \<open>Entering the queue\<close>

abbreviation any_request :: "QueueOptions \<Rightarrow> (redis \<Rightarrow> redis) \<Rightarrow> bool" where
  "any_request q \<equiv> queue_request q (\<lambda>_. True) (\<lambda>_ _. True)"

text \<open>A request whose answer came was made in a state the environment left, and its effect is the next state.\<close>

lemma roundtrip_answered:
  assumes "roundtrip f w = (Some a, w')" and "friendly P w"
  shows "\<exists>r. reach P (wd_redis w) r \<and> a = fst (f r) \<and> wd_redis w' = snd (f r)"
proof (cases "wd_events w")
  case Nil
  then show ?thesis using assms(1) by (auto simp: roundtrip_def intro: exI [of _ "wd_redis w"])
next
  case (Cons e es)
  let ?r = "tick (elapsed e) (fold (\<lambda>g. g) (interference e) (wd_redis w))"
  have "reach P (wd_redis w) ?r"
    using assms(2) Cons by (auto simp: friendly_def intro: reach_tick reach_fold)
  then show ?thesis using assms(1) Cons
    by (cases "outcome e") (auto simp: roundtrip_def Let_def intro: exI [of _ ?r])
qed

text \<open>
  C10: A job whose entry succeeded, or was refused because its key is set, is in the queue at that
  moment: ready, delayed or active, whatever the other clients of the store did since it was empty, in
  any order, including crashes between their requests. The key never keeps a job out that is not there.
\<close>

theorem refused_job_is_queued:
  assumes "keys_ok q" and "friendly (any_request q) w"
    and "reach (any_request q) (empty_redis t) (wd_redis w)"
    and "fst (Enqueue q x w) = Inr () \<or> fst (Enqueue q x w) = Inl ErrBatchImageAlreadyQueued"
  shows "queued q x (wd_redis (snd (Enqueue q x w)))"
proof -
  let ?f = "batchImageEnqueueScript (inflightKey q x) (qo_ReadyKey q) x (in_millis (qo_InflightTTL q))"
  obtain a w' where rt: "roundtrip ?f w = (Some (Some a), w')" and x: "IsValidBatchImageID x"
    using assms(4) by (cases "roundtrip ?f w") (auto simp: Enqueue_def split: if_splits option.splits)
  obtain r where r: "reach (any_request q) (wd_redis w) r" "fst (?f r) = Some a" "wd_redis w' = snd (?f r)"
    using roundtrip_answered [OF rt assms(2)] by metis
  have "any_request q (\<lambda>r. snd (?f r))" by (rule rq_enqueue)
  then have "reach (any_request q) (wd_redis w) (snd (?f r))"
    by (rule reach_step [where P = "any_request q", OF r(1)])
  then have "covered q (wd_redis w')"
    using reach_covered [OF reach_trans [OF assms(3)] assms(1) empty_covered] r(3) by simp
  moreover have "EXISTS (inflightKey q x) (wd_redis w')"
    using r(2,3) keys_ok_simps(7) [OF assms(1), of "qo_ReadyKey q" x]
    by (auto simp: batchImageEnqueueScript_def EXISTS_def LPUSH_def put_list_def PEXPIRE_def SETT_def split: if_splits)
  ultimately show ?thesis using x rt by (simp add: covered_def Enqueue_def)
qed

lemma refused_job_is_queued_witness:
  "queued (NewBatchImageQueue None) ''imgbatch_1''
     (wd_redis (snd (Enqueue (NewBatchImageQueue None) ''imgbatch_1'' (served (empty_redis 0)))))"
proof (rule refused_job_is_queued [OF default_keys_ok])
  show "friendly (any_request (NewBatchImageQueue None)) (served (empty_redis 0))" by (simp add: friendly_def)
  show "reach (any_request (NewBatchImageQueue None)) (empty_redis 0) (wd_redis (served (empty_redis 0)))" by simp
  show "fst (Enqueue (NewBatchImageQueue None) ''imgbatch_1'' (served (empty_redis 0))) = Inr () \<or>
      fst (Enqueue (NewBatchImageQueue None) ''imgbatch_1'' (served (empty_redis 0))) = Inl ErrBatchImageAlreadyQueued"
    by (simp add: Enqueue_def roundtrip_served IsValidBatchImageID_def batchImageEnqueueScript_def EXISTS_def empty_redis_def
        NewBatchImageQueue_def normalizeBatchImageQueueOptions_def in_millis_def quot64_def duration_defs)
qed

end
