(* ===== verification/Batch_Lock.thy ===== *)
theory Batch_Lock
  imports Batch_Tracked
begin

text \<open>
  The lock of a batch image job: while its time to live runs, the client that took it is the only one that
  can change, acknowledge or put back the job, whatever the other clients of the queue ask for.
\<close>

text \<open>The lock of \<open>x\<close> carries the token, and does so until the instant \<open>until\<close> of the store's clock.\<close>

definition locked_until :: "QueueOptions \<Rightarrow> string \<Rightarrow> string \<Rightarrow> int \<Rightarrow> redis \<Rightarrow> bool" where
  "locked_until q x token until r \<longleftrightarrow> (rd_clock r \<le> until \<longrightarrow>
     GETT (lockKey q x) r = Some token \<and> (\<exists>d. rd_deadline r (lockKey q x) = Some d \<and> until \<le> d))"

abbreviation others :: "string \<Rightarrow> string \<Rightarrow> string \<Rightarrow> string \<Rightarrow> bool" where
  "others x token \<equiv> \<lambda>y t. (y, t) \<noteq> (x, token)"

lemma locked_untilI:
  assumes "locked_until q x token until r" and "rd_clock r' = rd_clock r" and "same_at (lockKey q x) r r'"
  shows "locked_until q x token until r'"
  using assms by (simp add: locked_until_def same_at_def GETT_def)

lemma commands_clock [simp]:
  "rd_clock (LPUSH k x r) = rd_clock r" "rd_clock (SETT k v r) = rd_clock r" "rd_clock (snd (RPOP k r)) = rd_clock r"
  by (auto simp: LPUSH_def put_list_def SETT_def RPOP_def split: list.splits)

lemma moves_clock [simp]: "rd_clock (fold (move_job src ready) jobs r) = rd_clock r"
  by (induction jobs arbitrary: r) (simp_all add: move_job_def)

lemma request_clock: "queue_request q A B f \<Longrightarrow> rd_clock (f r) = rd_clock r"
proof (induction rule: queue_request.induct)
  case (rq_mutate x token act)
  then show ?case by (cases act) (simp_all add: batchImageOwnedMutation_def Let_def)
next
  case (rq_reserve now)
  then show ?case using commands_clock(3) [of "qo_ReadyKey q" r]
    by (cases "RPOP (qo_ReadyKey q) r"; cases "fst (RPOP (qo_ReadyKey q) r)") (simp_all add: batchImageReserveScript_def)
qed (simp_all add: batchImageEnqueueScript_def batchImageMoveDueDelayedScript_def batchImageRecoverStaleActiveScript_def
    batchImageReleaseLockScript_def batchImageRefreshLockScript_def Let_def foreign_def)

text \<open>Requests of others leave a lock that is held as it is.\<close>

lemma request_lock:
  assumes "queue_request q A (others x token) f" and k: "keys_ok q" and h: "GETT (lockKey q x) r = Some token"
  shows "same_at (lockKey q x) r (f r)"
proof -
  note ne = queue_keys_apart(4-6) [OF k, symmetric] keys_ok_simps(10) [OF k]
  note cmd = same_at_commands [OF ne(1)] same_at_commands [OF ne(2)] same_at_commands [OF ne(3)] same_at_commands [OF ne(4)]
    same_at_commands [where k = "lockKey q x"]
  have ex: "EXISTS (lockKey q x) r" using h by (simp add: GETT_def EXISTS_def)
  from assms(1) show ?thesis
  proof cases
    case (rq_mutate y t act)
    then show ?thesis by (cases act) (auto simp: batchImageOwnedMutation_def Let_def intro!: cmd)
  next
    case rq_reserve
    then show ?thesis using same_at_reserve ne by simp
  next
    case (rq_lock ms y t)
    then show ?thesis using ex by (cases "y = x") (auto intro!: cmd)
  next
    case (rq_release y t)
    then show ?thesis using h by (cases "y = x") (auto simp: batchImageReleaseLockScript_def intro!: cmd)
  next
    case (rq_refresh y t ms)
    then show ?thesis using h by (cases "y = x") (auto simp: batchImageRefreshLockScript_def intro!: cmd)
  next
    case rq_foreign
    then show ?thesis by (simp add: foreign_def same_at_def)
  qed (auto simp: batchImageMoveDueDelayedScript_def batchImageRecoverStaleActiveScript_def Let_def ne
      batchImageEnqueueScript_def intro!: cmd same_at_moves)
qed

lemma request_locked:
  assumes f: "queue_request q A (others x token) f" and k: "keys_ok q" and h: "locked_until q x token until r"
  shows "locked_until q x token until (f r)"
proof (cases "rd_clock r \<le> until")
  case True
  then have "GETT (lockKey q x) r = Some token" using h by (simp add: locked_until_def)
  then show ?thesis using locked_untilI [OF h request_clock [OF f] request_lock [OF f k]] by simp
next
  case False
  then show ?thesis by (simp add: locked_until_def request_clock [OF f])
qed

lemma tick_locked: "locked_until q x token until r \<Longrightarrow> locked_until q x token until (tick ms r)"
  by (force simp: locked_until_def GETT_def tick_def Let_def expired_def split: option.splits)

lemma reach_locked:
  assumes "reach (queue_request q A (others x token)) r r'" and "keys_ok q" and "locked_until q x token until r"
  shows "locked_until q x token until r'"
proof (rule reach_invariant [where I = "locked_until q x token until", OF assms(1,3)])
  show "locked_until q x token until (f r)" if "queue_request q A (others x token) f" "locked_until q x token until r" for f r
    using that(1) assms(2) that(2) by (rule request_locked [where f = f])
qed (rule tick_locked)

lemma acquired_locked:
  assumes k: "keys_ok q" and t: "0 < ttl" and w: "friendly (queue_request q A (others x token)) w"
    and l: "TryAcquireJobLock q (Some token) x ttl w = (Inr (Some l), w')"
  shows "locked_until q x token (rd_clock (wd_redis w') + max 1 (ttl div millisecond)) (wd_redis w')"
    and "l = \<lparr>jl_key = lockKey q x, jl_token = token, jl_id = x\<rparr>" and "IsValidBatchImageID x"
proof -
  let ?ms = "max 1 (ttl div millisecond)"
  let ?f = "\<lambda>r. if EXISTS (lockKey q x) r then (False, r)
    else (True, PEXPIRE (lockKey q x) ?ms (SETT (lockKey q x) token r))"
  have rt: "roundtrip ?f w = (Some True, w')" and l': "l = \<lparr>jl_key = lockKey q x, jl_token = token, jl_id = x\<rparr>"
    and x: "IsValidBatchImageID x"
    using l t by (auto simp: TryAcquireJobLock_def Let_def split: if_splits prod.splits option.splits)
  obtain r where r: "True = fst (?f r)" "wd_redis w' = snd (?f r)"
    using roundtrip_answered [OF rt w] by auto
  then show "locked_until q x token (rd_clock (wd_redis w') + ?ms) (wd_redis w')"
    by (auto simp: locked_until_def GETT_def PEXPIRE_def SETT_def EXISTS_def split: if_splits)
  show "l = \<lparr>jl_key = lockKey q x, jl_token = token, jl_id = x\<rparr>" "IsValidBatchImageID x" by (rule l', rule x)
qed

text \<open>What a held lock makes of the operations of others and of its holder.\<close>

lemma mutate_locked_out:
  assumes "GETT (lockKey q x) r = Some token" and "t \<noteq> token"
  shows "batchImageOwnedMutation q x t act now delay due r = (0, r)"
  using assms by (simp add: batchImageOwnedMutation_def Let_def)

text \<open>
  C30: From the moment a client has taken the lock of a job until its time to live is over, every change,
  acknowledgement or requeueing of the job under another token, or without a token, is refused with the
  lost-lease error and leaves the store as it is, and nobody else gets the lock, whatever requests all
  other clients have made in between; the holder itself can still finish the job.
\<close>

theorem job_lock_fences:
  assumes "keys_ok q" and "0 < ttl" and "token \<noteq> []"
    and "friendly (queue_request q A (others x token)) w"
    and "TryAcquireJobLock q (Some token) x ttl w = (Inr (Some l), w')"
    and "reach (queue_request q A (others x token)) (wd_redis w') r"
    and "rd_clock r \<le> rd_clock (wd_redis w') + ttl div millisecond"
  shows "(t \<noteq> token \<longrightarrow> mutateOwned q x t act delay now (served r) = (Inl ErrBatchImageLeaseLost, served r)) \<and>
    TryAcquireJobLock q (Some t) x ttl' (served r) = (Inr None, served r) \<and>
    fst (mutateOwned q (jl_id l) (jl_token l) act delay now (served r)) = Inr ()"
proof (intro conjI impI)
  note l = acquired_locked [OF assms(1,2,4,5)]
  have "locked_until q x token (rd_clock (wd_redis w') + max 1 (ttl div millisecond)) r"
    by (rule reach_locked [OF assms(6,1) l(1)])
  then have h: "GETT (lockKey q x) r = Some token" using assms(7) by (simp add: locked_until_def)
  then have ex: "EXISTS (lockKey q x) r" by (simp add: GETT_def EXISTS_def)
  show "mutateOwned q x t act delay now (served r) = (Inl ErrBatchImageLeaseLost, served r)" if "t \<noteq> token"
    using that l(3) by (simp add: mutateOwned_def roundtrip_served mutate_locked_out [OF h])
  show "TryAcquireJobLock q (Some t) x ttl' (served r) = (Inr None, served r)"
    using l(3) ex by (simp add: TryAcquireJobLock_def roundtrip_served Let_def)
  show "fst (mutateOwned q (jl_id l) (jl_token l) act delay now (served r)) = Inr ()"
    using l(2,3) h assms(3) by (simp add: mutateOwned_def roundtrip_served batchImageOwnedMutation_def Let_def)
qed

text \<open>An entry, the lock, then the same requests by another client, in an otherwise empty store.\<close>

lemma job_lock_fences_witness:
  "let q = NewBatchImageQueue None; x = ''imgbatch_1'';
       w' = snd (TryAcquireJobLock q (Some ''t'') x second (served (empty_redis 0)))
   in mutateOwned q x [] Requeue second 0 w' = (Inl ErrBatchImageLeaseLost, w') \<and>
      TryAcquireJobLock q (Some ''u'') x second w' = (Inr None, w')"
proof -
  let ?q = "NewBatchImageQueue None" and ?x = "''imgbatch_1''"
  let ?k = "lockKey ?q ?x"
  let ?r = "PEXPIRE ?k 1000 (SETT ?k ''t'' (empty_redis 0))"
  have a: "TryAcquireJobLock ?q (Some ''t'') ?x second (served (empty_redis 0))
      = (Inr (Some \<lparr>jl_key = ?k, jl_token = ''t'', jl_id = ?x\<rparr>), served ?r)"
    by (simp add: TryAcquireJobLock_def roundtrip_served IsValidBatchImageID_def EXISTS_def empty_redis_def duration_defs Let_def)
  have f: "friendly (queue_request ?q (\<lambda>_. True) (others ?x ''t'')) (served (empty_redis 0))" by (simp add: friendly_def)
  have c: "rd_clock ?r \<le> rd_clock (wd_redis (served ?r)) + second div millisecond" by (simp add: duration_defs)
  have "mutateOwned ?q ?x [] Requeue second 0 (served ?r) = (Inl ErrBatchImageLeaseLost, served ?r) \<and>
      TryAcquireJobLock ?q (Some ''u'') ?x second (served ?r) = (Inr None, served ?r)"
    using job_lock_fences [where t = "[]" and act = Requeue and delay = second and now = 0 and ttl' = second,
        OF default_keys_ok _ _ f a _ c]
      job_lock_fences [where t = "''u''" and act = Requeue and delay = second and now = 0 and ttl' = second,
        OF default_keys_ok _ _ f a _ c]
    by (simp add: duration_defs)
  then show ?thesis by (simp add: Let_def a)
qed

end
