(* ===== verification/Batch_Worker.thy ===== *)
theory Batch_Worker
  imports Batch_Lock
begin

text \<open>
  The worker of the batch image queue (\<^verbatim>\<open>batchimage/worker.go\<close>): a turn takes a job, locks it, has it
  processed while a second goroutine sends heartbeats, and then acknowledges it or puts it back. The
  processing itself is a parameter: its result for a job, or \<open>None\<close> for an error.
\<close>

section \<open>Options\<close>

record BatchImageWorkerOptions =
  wo_ReserveBlockTimeout :: duration
  wo_JobLockTTL :: duration
  wo_LockConflictDelay :: duration
  wo_DefaultRequeueDelay :: duration
  wo_ErrorRetryDelay :: duration
  wo_ErrorBackoff :: duration
  wo_DelayedPollInterval :: duration
  wo_RecoveryInterval :: duration
  wo_StaleActiveAfter :: duration
  wo_DelayedMoveLimit :: int
  wo_RecoverLimit :: int

definition or_default :: "int \<Rightarrow> int \<Rightarrow> int" where
  "or_default d x = (if x \<le> 0 then d else x)"

definition NormalizeBatchImageWorkerOptions :: "BatchImageWorkerOptions \<Rightarrow> BatchImageWorkerOptions" where
  "NormalizeBatchImageWorkerOptions opts =
     \<lparr>wo_ReserveBlockTimeout = or_default (5 * second) (wo_ReserveBlockTimeout opts),
      wo_JobLockTTL = or_default (5 * minute) (wo_JobLockTTL opts),
      wo_LockConflictDelay = or_default (5 * second) (wo_LockConflictDelay opts),
      wo_DefaultRequeueDelay = or_default (30 * second) (wo_DefaultRequeueDelay opts),
      wo_ErrorRetryDelay = or_default minute (wo_ErrorRetryDelay opts),
      wo_ErrorBackoff = or_default second (wo_ErrorBackoff opts),
      wo_DelayedPollInterval = or_default (5 * second) (wo_DelayedPollInterval opts),
      wo_RecoveryInterval = or_default (5 * minute) (wo_RecoveryInterval opts),
      wo_StaleActiveAfter = or_default (10 * minute) (wo_StaleActiveAfter opts),
      wo_DelayedMoveLimit = or_default 100 (wo_DelayedMoveLimit opts),
      wo_RecoverLimit = or_default 100 (wo_RecoverLimit opts)\<rparr>"

definition heartbeatInterval :: "BatchImageWorkerOptions \<Rightarrow> duration" where
  "heartbeatInterval opts =
     (let interval = wo_JobLockTTL opts;
          interval = (if wo_StaleActiveAfter opts < interval then wo_StaleActiveAfter opts else interval);
          interval = quot64 interval 3
      in if interval < second then second else interval)"

record BatchImageProcessResult =
  pr_RequeueAfter :: duration
  pr_Terminal :: bool

section \<open>A turn\<close>

text \<open>
  The ticks of the heartbeat goroutine while the job is processed: the clock at a tick and whether the
  context has ended by then, in which case an error is ignored. The answer is whether the lease is lost.
\<close>

fun runJobHeartbeat :: "QueueOptions \<Rightarrow> job_lock \<Rightarrow> duration \<Rightarrow> (instant \<times> bool) list \<Rightarrow> world \<Rightarrow> bool \<times> world" where
  "runJobHeartbeat q lock ttl [] w = (False, w)"
| "runJobHeartbeat q lock ttl ((now, ended) # ticks) w =
     (case lock_Heartbeat q lock now w of
        (Inl _, w) \<Rightarrow>
          if \<not> ended then (True, w)
          else (case lock_Refresh lock ttl w of (_, w) \<Rightarrow> runJobHeartbeat q lock ttl ticks w)
      | (Inr _, w) \<Rightarrow>
          (case lock_Refresh lock ttl w of
             (Inl _, w) \<Rightarrow> if \<not> ended then (True, w) else runJobHeartbeat q lock ttl ticks w
           | (Inr _, w) \<Rightarrow> runJobHeartbeat q lock ttl ticks w))"

text \<open>
  What a turn meets: its polls of the queue, the clock at its start and at its last request, the fresh
  token of the lock, and the ticks of the heartbeat.
\<close>

record turn =
  tu_start :: instant
  tu_polls :: "poll list"
  tu_token :: "string option"
  tu_ticks :: "(instant \<times> bool) list"
  tu_end :: instant

definition process_locked ::
  "QueueOptions \<Rightarrow> BatchImageWorkerOptions \<Rightarrow> (string \<Rightarrow> BatchImageProcessResult option) \<Rightarrow> turn \<Rightarrow> job_lock \<Rightarrow> world
     \<Rightarrow> (queue_error + unit) \<times> world" where
  "process_locked q opts process t lock w =
     (case runJobHeartbeat q lock (wo_JobLockTTL opts) (tu_ticks t) w of
        (True, w) \<Rightarrow> (Inl ErrBatchImageLeaseLost, w)
      | (False, w) \<Rightarrow>
          case process (jl_id lock) of
            None \<Rightarrow> lock_RequeueAfter q lock (wo_ErrorRetryDelay opts) (tu_end t) w
          | Some result \<Rightarrow>
              if pr_Terminal result then lock_Ack q lock (tu_end t) w
              else lock_RequeueAfter q lock
                (if pr_RequeueAfter result \<le> 0 then wo_DefaultRequeueDelay opts else pr_RequeueAfter result) (tu_end t) w)"

definition RunOnce ::
  "QueueOptions \<Rightarrow> BatchImageWorkerOptions \<Rightarrow> (string \<Rightarrow> BatchImageProcessResult option) \<Rightarrow> turn \<Rightarrow> world
     \<Rightarrow> (queue_error + unit) option \<times> world" where
  "RunOnce q opts process t w =
     (case Reserve q (tu_start t + wo_ReserveBlockTimeout opts) (tu_polls t) w of
        (None, w) \<Rightarrow> (None, w)
      | (Some (Inl e), w) \<Rightarrow> (Some (if e = ErrBatchImageQueueEmpty then Inr () else Inl e), w)
      | (Some (Inr batchID), w) \<Rightarrow>
          (case TryAcquireJobLock q (tu_token t) batchID (wo_JobLockTTL opts) w of
             (Inl e, w) \<Rightarrow>
               (case queue_RequeueAfter q batchID (wo_LockConflictDelay opts) (tu_end t) w of
                  (Inl e', w) \<Rightarrow> (Some (Inl e'), w)
                | (Inr _, w) \<Rightarrow> (Some (Inl e), w))
           | (Inr None, w) \<Rightarrow>
               (case queue_RequeueAfter q batchID (wo_LockConflictDelay opts) (tu_end t) w of (x, w) \<Rightarrow> (Some x, w))
           | (Inr (Some lock), w) \<Rightarrow>
               (case process_locked q opts process t lock w of (x, w) \<Rightarrow> (Some x, snd (lock_Release lock w)))))"

definition MoveDueDelayedOnce :: "QueueOptions \<Rightarrow> BatchImageWorkerOptions \<Rightarrow> instant \<Rightarrow> world \<Rightarrow> int option \<times> world" where
  "MoveDueDelayedOnce q opts = MoveDueDelayedToReady q (wo_DelayedMoveLimit opts)"

definition RecoverStaleActiveOnce :: "QueueOptions \<Rightarrow> BatchImageWorkerOptions \<Rightarrow> instant \<Rightarrow> world \<Rightarrow> (queue_error + int) \<times> world" where
  "RecoverStaleActiveOnce q opts = RecoverStaleActive q (wo_StaleActiveAfter opts) (wo_RecoverLimit opts)"

text \<open>The loops of a worker, as the sequence of what they do.\<close>

datatype worker_step = Turn turn | MoveDue instant | RecoverStale instant | Enter string

fun worker_run ::
  "QueueOptions \<Rightarrow> BatchImageWorkerOptions \<Rightarrow> (string \<Rightarrow> BatchImageProcessResult option) \<Rightarrow> worker_step list \<Rightarrow> world \<Rightarrow> world" where
  "worker_run q opts process [] w = w"
| "worker_run q opts process (s # ss) w =
     worker_run q opts process ss
       (case s of
          Turn t \<Rightarrow> snd (RunOnce q opts process t w)
        | MoveDue now \<Rightarrow> snd (MoveDueDelayedOnce q opts now w)
        | RecoverStale now \<Rightarrow> snd (RecoverStaleActiveOnce q opts now w)
        | Enter batchID \<Rightarrow> snd (Enqueue q batchID w))"

section \<open>What the worker asks of the store\<close>

abbreviation unacked :: "QueueOptions \<Rightarrow> string \<Rightarrow> (redis \<Rightarrow> redis) \<Rightarrow> bool" where
  "unacked q x \<equiv> queue_request q (\<lambda>y. y \<noteq> x) (\<lambda>_ _. True)"

lemmas runs_result = runs.R_result [where P = "unacked q x" for q x]

lemma enqueue_runs: "runs (unacked q x) w (snd (Enqueue q y w))"
  by (auto simp: Enqueue_def split: prod.splits option.splits intro: runs_result rq_enqueue)

lemma mutate_runs:
  assumes "act = Ack_job \<longrightarrow> y \<noteq> x"
  shows "runs (unacked q x) w (snd (mutateOwned q y token act delay now w))"
  using assms by (auto simp: mutateOwned_def split: prod.splits option.splits intro: runs_result rq_mutate)

lemma move_runs: "runs (unacked q x) w (snd (MoveDueDelayedToReady q limit now w))"
  unfolding MoveDueDelayedToReady_def by (rule runs.R_roundtrip [where P = "unacked q x", OF rq_move])

lemma recover_runs: "runs (unacked q x) w (snd (RecoverStaleActive q staleAfter limit now w))"
  by (auto simp: RecoverStaleActive_def split: prod.splits option.splits intro: runs_result rq_recover)

lemma acquire_runs: "runs (unacked q x) w (snd (TryAcquireJobLock q token y ttl w))"
proof -
  have "runs (unacked q x) w (snd (roundtrip (\<lambda>r. if EXISTS (lockKey q y) r then (False, r)
      else (True, PEXPIRE (lockKey q y) (max 1 m) (SETT (lockKey q y) t r))) w))" for m t
    by (rule runs.R_roundtrip [where P = "unacked q x", OF rq_lock]) simp
  then show ?thesis
    by (auto simp: TryAcquireJobLock_def Let_def split: option.splits intro!: runs.R_case)
qed

lemma release_runs: "jl_key l = lockKey q y \<Longrightarrow> runs (unacked q x) w (snd (lock_Release l w))"
  by (auto simp: lock_Release_def split: prod.splits option.splits intro: runs_result rq_release)

lemma refresh_runs: "jl_key l = lockKey q y \<Longrightarrow> runs (unacked q x) w (snd (lock_Refresh l ttl w))"
  by (auto simp: lock_Refresh_def Let_def split: prod.splits option.splits intro: runs_result rq_refresh)

lemma reserveOnce_runs: "runs (unacked q x) w (snd (reserveOnce q now w))"
proof -
  have r: "runs (unacked q x) w (snd (roundtrip (batchImageReserveScript (qo_ReadyKey q) (qo_ActiveKey q) m) w))" for m w
    by (rule runs.R_roundtrip [where P = "unacked q x", OF rq_reserve])
  have d: "runs (unacked q x) w (snd (send (ZREM (qo_ActiveKey q) y) w))" if "\<not> IsValidBatchImageID y" for w y
    by (rule runs_send [where P = "unacked q x", OF rq_drop [OF that]])
  show ?thesis
    by (auto simp: reserveOnce_def split: option.splits intro!: runs.R_case r d)
qed

lemma Reserve_runs: "runs (unacked q x) w (snd (Reserve q deadline ps w))"
  by (induction ps arbitrary: w) (auto split: sum.splits intro!: runs.R_case reserveOnce_runs)

lemma heartbeat_runs: "jl_key l = lockKey q y \<Longrightarrow> runs (unacked q x) w (snd (runJobHeartbeat q l ttl ticks w))"
proof (induction ticks arbitrary: w)
  case (Cons tick ticks)
  have "runs (unacked q x) w (snd (lock_Heartbeat q l now w))" for now w
    unfolding lock_Heartbeat_def by (rule mutate_runs) simp
  then show ?case
    using Cons by (cases tick) (auto split: sum.splits intro!: runs.R_case refresh_runs)
qed simp

text \<open>A lock that was taken is that of the job.\<close>

lemma acquired_lock: "TryAcquireJobLock q token y ttl w = (Inr (Some l), w') \<Longrightarrow> jl_key l = lockKey q y \<and> jl_id l = y"
  by (auto simp: TryAcquireJobLock_def Let_def split: if_splits option.splits prod.splits)

lemma process_runs:
  assumes "jl_key l = lockKey q y" and "\<And>res. process (jl_id l) = Some res \<Longrightarrow> pr_Terminal res \<Longrightarrow> jl_id l \<noteq> x"
  shows "runs (unacked q x) w (snd (process_locked q opts process t l w))"
  unfolding process_locked_def lock_RequeueAfter_def lock_Ack_def
  using assms(2) by (auto split: bool.split option.split intro!: runs.R_case heartbeat_runs [OF assms(1)] mutate_runs)

lemma RunOnce_runs:
  assumes "\<And>res. process x = Some res \<Longrightarrow> \<not> pr_Terminal res"
  shows "runs (unacked q x) w (snd (RunOnce q opts process t w))"
proof -
  have r: "runs (unacked q x) w (snd (queue_RequeueAfter q y delay now w))" for y delay now w
    unfolding queue_RequeueAfter_def by (rule mutate_runs) simp
  have l: "runs (unacked q x) w1 (snd (case process_locked q opts process t l w1 of (y, w) \<Rightarrow>
      (Some y, snd (lock_Release l w))))" if "TryAcquireJobLock q token y ttl w = (Inr (Some l), w1)" for l w w1 token y ttl
    using acquired_lock [OF that] assms
    by (auto intro!: runs.R_case process_runs release_runs)
  show ?thesis
    unfolding RunOnce_def
    by (auto split: option.split sum.split intro!: runs.R_case Reserve_runs acquire_runs r l)
qed

lemma step_runs:
  assumes "\<And>res. process x = Some res \<Longrightarrow> \<not> pr_Terminal res"
  shows "runs (unacked q x) w (worker_run q opts process steps w)"
proof (induction steps arbitrary: w)
  case (Cons s ss)
  have "runs (unacked q x) w (case s of
          Turn t \<Rightarrow> snd (RunOnce q opts process t w)
        | MoveDue now \<Rightarrow> snd (MoveDueDelayedOnce q opts now w)
        | RecoverStale now \<Rightarrow> snd (RecoverStaleActiveOnce q opts now w)
        | Enter batchID \<Rightarrow> snd (Enqueue q batchID w))"
    using RunOnce_runs [OF assms] enqueue_runs move_runs recover_runs
    by (auto simp: MoveDueDelayedOnce_def RecoverStaleActiveOnce_def split: worker_step.split)
  then show ?case using runs_trans [OF _ Cons.IH] by simp
qed simp

section \<open>No job is lost\<close>

text \<open>
  C9: While the processing of a job has not ended it, the job stays in the queue: ready, delayed or active,
  after any sequence of turns, moves and recoveries of a worker, with any requests lost or unconfirmed at
  any point, heartbeats missed, locks lost, and any number of other clients at work, of which none
  acknowledges the job.
\<close>

theorem job_never_lost:
  assumes "keys_ok q" and "friendly (unacked q x) w" and "IsValidBatchImageID x" and "queued q x (wd_redis w)"
    and "\<And>res. process x = Some res \<Longrightarrow> \<not> pr_Terminal res"
  shows "queued q x (wd_redis (worker_run q opts process steps w))"
proof (rule reach_queued [OF _ assms(1,3) _ assms(4)])
  show "reach (unacked q x) (wd_redis w) (wd_redis (worker_run q opts process steps w))"
    by (rule runs_reach [OF step_runs [OF assms(5)] assms(2)])
qed simp

section \<open>The outcome of a turn\<close>

lemma lockKey_nonempty: "IsValidBatchImageID x \<Longrightarrow> lockKey q x \<noteq> []"
  by (auto simp: lockKey_def IsValidBatchImageID_def)

text \<open>Heartbeats of the holder keep the lock and leave the ready jobs alone.\<close>

lemma heartbeats_served:
  assumes k: "keys_ok q" and l: "lock = \<lparr>jl_key = lockKey q x, jl_token = token, jl_id = x\<rparr>"
    and x: "IsValidBatchImageID x" and t: "token \<noteq> []" and ttl: "millisecond \<le> ttl"
  shows "GETT (lockKey q x) r = Some token \<Longrightarrow>
    \<exists>r'. runJobHeartbeat q lock ttl ticks (served r) = (False, served r') \<and> GETT (lockKey q x) r' = Some token \<and> rd_lists r' (qo_ReadyKey q) = rd_lists r (qo_ReadyKey q)"
proof (induction ticks arbitrary: r)
  case (Cons tick ticks)
  let ?z = "if ZSCORE (qo_ActiveKey q) x r \<noteq> None then ZADD (qo_ActiveKey q) (unix_milli (fst tick)) x r else r"
  let ?r = "PEXPIRE (lockKey q x) (in_millis ttl) ?z"
  note ne = queue_keys_apart(4-6) [OF k]
  have ms: "0 < in_millis ttl" using ttl by (simp add: in_millis_def quot64_nonneg duration_defs)
  have z: "GETT (lockKey q x) ?z = Some token" using Cons.prems by (simp add: GETT_def ZADD_def put_zset_def)
  have "lock_Heartbeat q lock (fst tick) (served r) = (Inr (), served ?z)"
    using x l t Cons.prems
    by (simp add: lock_Heartbeat_def mutateOwned_def roundtrip_served batchImageOwnedMutation_def Let_def)
  moreover have "0 < ttl" "lockKey q x \<noteq> []"
    using ttl lockKey_nonempty [OF x] by (simp_all add: duration_defs)
  then have "lock_Refresh lock ttl (served ?z) = (Inr (), served ?r)"
    using l t z by (simp add: lock_Refresh_def roundtrip_served batchImageRefreshLockScript_def Let_def)
  moreover have "GETT (lockKey q x) ?r = Some token" using z ms by (simp add: GETT_def PEXPIRE_def)
  moreover have "rd_lists ?r (qo_ReadyKey q) = rd_lists r (qo_ReadyKey q)" using ms by (simp add: PEXPIRE_def)
  ultimately show ?case using Cons.IH [of ?r] by (cases tick) auto
qed simp

text \<open>Taking the oldest ready job and its lock.\<close>

lemma taken_served:
  fixes now :: instant
  assumes k: "keys_ok q" and r: "rd_lists r (qo_ReadyKey q) = xs @ [x]" and x: "IsValidBatchImageID x"
  defines "r1 \<equiv> ZADD (qo_ActiveKey q) (unix_milli now) x (put_list (qo_ReadyKey q) xs r)"
  shows "Reserve q deadline (\<lparr>po_now = now, po_after = after, po_done = d\<rparr> # ps) (served r) = (Some (Inr x), served r1)"
    and "rd_lists r1 (qo_ReadyKey q) = xs" and "same_at (lockKey q x) r r1" and "in_zset (qo_ActiveKey q) x r1"
    and "rd_zsets r1 (qo_DelayedKey q) = rd_zsets r (qo_DelayedKey q)"
proof -
  have "RPOP (qo_ReadyKey q) r = (Some x, put_list (qo_ReadyKey q) xs r)"
    using r by (cases xs) (simp_all add: RPOP_def)
  then have "batchImageReserveScript (qo_ReadyKey q) (qo_ActiveKey q) (unix_milli now) r = (Some x, r1)"
    by (simp add: batchImageReserveScript_def r1_def)
  then show "Reserve q deadline (\<lparr>po_now = now, po_after = after, po_done = d\<rparr> # ps) (served r) = (Some (Inr x), served r1)"
    using x by (simp add: reserveOnce_def roundtrip_served)
  show "rd_lists r1 (qo_ReadyKey q) = xs" "in_zset (qo_ActiveKey q) x r1"
    "rd_zsets r1 (qo_DelayedKey q) = rd_zsets r (qo_DelayedKey q)"
    using keys_ok_simps(1-6) [OF k] by (simp_all add: r1_def put_list_def)
  have "same_at (lockKey q x) r (put_list (qo_ReadyKey q) xs r)"
    using queue_keys_apart(4) [OF k, of x] by (auto simp: same_at_def put_list_def)
  then show "same_at (lockKey q x) r r1"
    using same_at_commands(2) [OF queue_keys_apart(6) [OF k, symmetric]] by (simp add: r1_def)
qed

text \<open>
  When nothing disturbs it, a turn takes the oldest ready job, and if its lock is free, processes it
  under the lock. A job whose processing ended it is then in none of the structures of the queue and can
  be entered again; any other one is no longer active and is delayed until the retry delay after the end of
  the turn, one minute for an error by default. The lock is free again and the other ready jobs wait as before.
\<close>

theorem turn_outcome:
  assumes k: "keys_ok q" and r: "rd_lists r (qo_ReadyKey q) = xs @ [x]" and x: "IsValidBatchImageID x"
    and free: "\<not> EXISTS (lockKey q x) r" and new: "x \<notin> set xs"
    and t: "tu_polls t = \<lparr>po_now = now, po_after = after, po_done = d\<rparr> # ps" "tu_token t = Some token" "token \<noteq> []"
    and o: "millisecond \<le> wo_JobLockTTL opts"
    and delay: "delay = (case process x of None \<Rightarrow> wo_ErrorRetryDelay opts
      | Some res \<Rightarrow> if pr_RequeueAfter res \<le> 0 then wo_DefaultRequeueDelay opts else pr_RequeueAfter res)" "millisecond \<le> delay"
  shows "\<exists>r'. RunOnce q opts process t (served r) = (Some (Inr ()), served r') \<and> \<not> EXISTS (lockKey q x) r' \<and>
    rd_lists r' (qo_ReadyKey q) = xs \<and> \<not> in_zset (qo_ActiveKey q) x r' \<and>
    (if (\<exists>res. process x = Some res \<and> pr_Terminal res)
     then \<not> in_zset (qo_DelayedKey q) x r' \<and> \<not> EXISTS (inflightKey q x) r' \<and> \<not> queued q x r'
     else ZSCORE (qo_DelayedKey q) x r' = Some (unix_milli (tu_end t + delay)))"
proof -
  let ?lock = "\<lparr>jl_key = lockKey q x, jl_token = token, jl_id = x\<rparr>"
  note ne = queue_keys_apart [OF k] keys_ok_simps(1-6,9,10) [OF k]
  define r1 where "r1 = ZADD (qo_ActiveKey q) (unix_milli now) x (put_list (qo_ReadyKey q) xs r)"
  note taken = taken_served [where now = now, OF k r x, folded r1_def]
  define r2 where "r2 = PEXPIRE (lockKey q x) (max 1 (wo_JobLockTTL opts div millisecond)) (SETT (lockKey q x) token r1)"
  have free1: "\<not> EXISTS (lockKey q x) r1" using free same_at_EXISTS [OF taken(3)] by simp
  have acq: "TryAcquireJobLock q (tu_token t) x (wo_JobLockTTL opts) (served r1) = (Inr (Some ?lock), served r2)"
    using x o free1 t(2) by (simp add: TryAcquireJobLock_def roundtrip_served r2_def Let_def duration_defs)
  have r2: "GETT (lockKey q x) r2 = Some token" "rd_lists r2 (qo_ReadyKey q) = xs"
    using taken(2) ne(4) by (auto simp: r2_def GETT_def PEXPIRE_def SETT_def)
  obtain r3 where hb: "runJobHeartbeat q ?lock (wo_JobLockTTL opts) (tu_ticks t) (served r2) = (False, served r3)"
    and r3: "GETT (lockKey q x) r3 = Some token" "rd_lists r3 (qo_ReadyKey q) = xs"
    using heartbeats_served [OF k refl x t(3) o r2(1)] r2(2) by metis
  have dm: "0 < in_millis delay" using delay(2) by (simp add: in_millis_def quot64_nonneg duration_defs)
  define act where "act = (if (\<exists>res. process x = Some res \<and> pr_Terminal res) then Ack_job else Requeue)"
  define r4 where "r4 = (let z = ZREM (qo_DelayedKey q) x (ZREM (qo_ActiveKey q) x r3)
     in if act = Ack_job then DEL (inflightKey q x) z else ZADD (qo_DelayedKey q) (unix_milli (tu_end t + delay)) x z)"
  have mut: "mutateOwned q x token act (if act = Ack_job then 0 else delay) (tu_end t) (served r3) = (Inr (), served r4)"
    using x t(3) r3(1) dm
    by (auto simp: mutateOwned_def roundtrip_served batchImageOwnedMutation_def Let_def r4_def act_def)
  have proc: "process_locked q opts process t ?lock (served r2) = (Inr (), served r4)"
    using mut delay(1) unfolding process_locked_def hb lock_RequeueAfter_def lock_Ack_def act_def
    by (auto split: option.splits if_splits)
  have lock4: "GETT (lockKey q x) r4 = Some token"
    using r3(1) ne by (auto simp: r4_def Let_def GETT_def ZREM_def ZADD_def put_zset_def DEL_def)
  have rel: "lock_Release ?lock (served r4) = (Inr (), served (DEL (lockKey q x) r4))"
    using t(3) lock4 lockKey_nonempty [OF x] by (simp add: lock_Release_def roundtrip_served batchImageReleaseLockScript_def)
  have run: "RunOnce q opts process t (served r) = (Some (Inr ()), served (DEL (lockKey q x) r4))"
    unfolding RunOnce_def t(1) using taken(1) acq proc rel by simp
  define r5 where "r5 = DEL (lockKey q x) r4"
  have lists: "rd_lists r5 (qo_ReadyKey q) = xs"
    using r3(2) ne by (auto simp: r5_def r4_def Let_def DEL_def)
  have active: "\<not> in_zset (qo_ActiveKey q) x r5"
    using ne by (auto simp: r5_def r4_def Let_def in_zset_def keys_delete)
  have delayed: "\<not> in_zset (qo_DelayedKey q) x r5" if "act = Ack_job"
    using ne that by (auto simp: r5_def r4_def Let_def in_zset_def keys_delete)
  have inflight: "\<not> EXISTS (inflightKey q x) r5" if "act = Ack_job"
    using that by (simp add: r5_def r4_def Let_def EXISTS_def DEL_def)
  have due: "ZSCORE (qo_DelayedKey q) x r5 = Some (unix_milli (tu_end t + delay))" if "act \<noteq> Ack_job"
    using that ne by (simp add: r5_def r4_def Let_def ZSCORE_def update_conv')
  have lock: "\<not> EXISTS (lockKey q x) r5" by (simp add: r5_def EXISTS_def DEL_def)
  have "\<not> queued q x r5" if "act = Ack_job" using active delayed [OF that] lists new by (simp add: queued_def)
  with run lists active delayed inflight due lock show ?thesis
    unfolding r5_def [symmetric] act_def by (intro exI [of _ r5]) (simp split: if_splits)
qed

text \<open>
  C39: A worker that takes a job while another holds its lock does not put it back: the request that is meant
  to delay the job is refused, the turn ends with the lost-lease error, and the job stays active and is not
  delayed, as if it had been dropped.
\<close>

theorem conflict_never_requeues:
  assumes k: "keys_ok q" and r: "rd_lists r (qo_ReadyKey q) = xs @ [x]" and x: "IsValidBatchImageID x"
    and held: "GETT (lockKey q x) r = Some other"
    and t: "tu_polls t = \<lparr>po_now = now, po_after = after, po_done = d\<rparr> # ps" "tu_token t = Some token"
  shows "\<exists>r'. RunOnce q opts process t (served r) = (Some (Inl ErrBatchImageLeaseLost), served r') \<and>
    rd_lists r' (qo_ReadyKey q) = xs \<and> in_zset (qo_ActiveKey q) x r' \<and>
    rd_zsets r' (qo_DelayedKey q) = rd_zsets r (qo_DelayedKey q)"
proof -
  define r1 where "r1 = ZADD (qo_ActiveKey q) (unix_milli now) x (put_list (qo_ReadyKey q) xs r)"
  note taken = taken_served [where now = now, OF k r x, folded r1_def]
  have held1: "GETT (lockKey q x) r1 = Some other" using held taken(3) by (simp add: same_at_def GETT_def)
  then have "EXISTS (lockKey q x) r1" by (simp add: GETT_def EXISTS_def)
  then have "TryAcquireJobLock q (tu_token t) x (wo_JobLockTTL opts) (served r1) = (Inr None, served r1)"
    using x t(2) by (simp add: TryAcquireJobLock_def roundtrip_served Let_def)
  moreover have "queue_RequeueAfter q x (wo_LockConflictDelay opts) (tu_end t) (served r1) = (Inl ErrBatchImageLeaseLost, served r1)"
    using x held1 by (simp add: queue_RequeueAfter_def mutateOwned_def roundtrip_served batchImageOwnedMutation_def Let_def)
  ultimately have "RunOnce q opts process t (served r) = (Some (Inl ErrBatchImageLeaseLost), served r1)"
    unfolding RunOnce_def t(1) using taken(1) by simp
  then show ?thesis using taken(2,4,5) by blast
qed

section \<open>Concrete runs\<close>

definition sample_store :: redis where
  "sample_store = LPUSH (qo_ReadyKey (NewBatchImageQueue None)) ''imgbatch_1'' (empty_redis 0)"

definition sample_turn :: turn where
  "sample_turn = \<lparr>tu_start = 0, tu_polls = [\<lparr>po_now = 0, po_after = 0, po_done = False\<rparr>], tu_token = Some ''t'',
     tu_ticks = [(second, False)], tu_end = 2 * second\<rparr>"

definition sample_options :: BatchImageWorkerOptions where
  "sample_options = NormalizeBatchImageWorkerOptions
     \<lparr>wo_ReserveBlockTimeout = 0, wo_JobLockTTL = 0, wo_LockConflictDelay = 0, wo_DefaultRequeueDelay = 0,
      wo_ErrorRetryDelay = 0, wo_ErrorBackoff = 0, wo_DelayedPollInterval = 0, wo_RecoveryInterval = 0,
      wo_StaleActiveAfter = 0, wo_DelayedMoveLimit = 0, wo_RecoverLimit = 0\<rparr>"

lemma sample_ready: "rd_lists sample_store (qo_ReadyKey (NewBatchImageQueue None)) = [] @ [''imgbatch_1'']"
  by (simp add: sample_store_def empty_redis_def)

lemma sample_valid: "IsValidBatchImageID ''imgbatch_1''"
  by (simp add: IsValidBatchImageID_def)

lemma sample_free: "\<not> EXISTS (lockKey (NewBatchImageQueue None) ''imgbatch_1'') sample_store"
  by (simp add: sample_store_def EXISTS_def LPUSH_def put_list_def empty_redis_def lockKey_def NewBatchImageQueue_def
      normalizeBatchImageQueueOptions_def)

lemma job_never_lost_witness:
  "queued (NewBatchImageQueue None) ''imgbatch_1''
     (wd_redis (worker_run (NewBatchImageQueue None) sample_options (\<lambda>_. None)
        [Turn sample_turn, MoveDue (70 * second), Turn sample_turn, RecoverStale (20 * minute)] (served sample_store)))"
proof (rule job_never_lost [OF default_keys_ok _ sample_valid])
  show "queued (NewBatchImageQueue None) ''imgbatch_1'' (wd_redis (served sample_store))"
    using sample_ready by (simp add: queued_def permanent_def sample_store_def LPUSH_def put_list_def empty_redis_def)
qed (simp_all add: friendly_def)

lemma turn_outcome_witness:
  "\<exists>r'. RunOnce (NewBatchImageQueue None) sample_options (\<lambda>_. None) sample_turn (served sample_store) = (Some (Inr ()), served r') \<and>
     ZSCORE (qo_DelayedKey (NewBatchImageQueue None)) ''imgbatch_1'' r' = Some 62000"
proof -
  note o = turn_outcome [where process = "\<lambda>_. None" and t = sample_turn and opts = sample_options,
      OF default_keys_ok sample_ready sample_valid sample_free _ _ _ _ _ refl]
  show ?thesis
    using o [where now = 0 and after = 0 and d = False and ps = "[]" and token = "''t''"]
    by (auto simp: sample_turn_def sample_options_def NormalizeBatchImageWorkerOptions_def or_default_def duration_defs unix_milli_def)
qed

lemma conflict_never_requeues_witness:
  "\<exists>r'. RunOnce (NewBatchImageQueue None) sample_options (\<lambda>_. None) sample_turn
      (served (SETT (lockKey (NewBatchImageQueue None) ''imgbatch_1'') ''u'' sample_store))
      = (Some (Inl ErrBatchImageLeaseLost), served r') \<and> in_zset (qo_ActiveKey (NewBatchImageQueue None)) ''imgbatch_1'' r'"
proof -
  let ?q = "NewBatchImageQueue None"
  let ?r = "SETT (lockKey ?q ''imgbatch_1'') ''u'' sample_store"
  have r: "rd_lists ?r (qo_ReadyKey ?q) = [] @ [''imgbatch_1'']"
    using sample_ready queue_keys_apart(4) [OF default_keys_ok, of "''imgbatch_1''"] by (simp add: SETT_def)
  show ?thesis
    using conflict_never_requeues [where q = ?q and r = ?r and t = sample_turn and opts = sample_options and process = "\<lambda>_. None",
        OF default_keys_ok r sample_valid, of "''u''" 0 0 False "[]" "''t''"]
    by (auto simp: sample_turn_def GETT_def SETT_def)
qed

end
