(* ===== verification/Go_Float.thy ===== *)
theory Go_Float
  imports Complex_Main "HOL-Library.Log_Nat"
begin

text \<open>
  \<^verbatim>\<open>float64\<close>: its finite values as rational numbers, and the rounding of a result to 53 significant bits,
  to the nearest value and to the even one of two. Infinities, NaN, the sign of zero and results beyond
  the range (about \<open>10 ^ 308\<close>) are not modelled.
\<close>

type_synonym float64 = rat

text \<open>The exponent \<open>e\<close> of a positive number, \<open>2 ^ e \<le> x < 2 ^ (e + 1)\<close>.\<close>

definition exponent :: "rat \<Rightarrow> int" where
  "exponent x =
     (let (p, q) = quotient_of x; k = bitlen p - bitlen q in if x < 2 powi k then k - 1 else k)"

definition spacing :: "rat \<Rightarrow> rat" where
  "spacing x = 2 powi (max (exponent \<bar>x\<bar> - 52) (-1074))"

definition round_even :: "rat \<Rightarrow> int" where
  "round_even y =
     (let n = \<lfloor>y\<rfloor>; d = y - of_int n
      in if d < 1 / 2 then n else if d > 1 / 2 then n + 1 else if even n then n else n + 1)"

definition fl :: "rat \<Rightarrow> float64" where
  "fl x = (if x = 0 then 0 else spacing x * of_int (round_even (x / spacing x)))"

text \<open>The arithmetic of the code.\<close>

definition fadd :: "float64 \<Rightarrow> float64 \<Rightarrow> float64" where
  "fadd x y = fl (x + y)"

definition fmul :: "float64 \<Rightarrow> float64 \<Rightarrow> float64" where
  "fmul x y = fl (x * y)"

definition fsub :: "float64 \<Rightarrow> float64 \<Rightarrow> float64" where
  "fsub x y = fl (x - y)"

definition fdiv :: "float64 \<Rightarrow> float64 \<Rightarrow> float64" where
  "fdiv x y = fl (x / y)"

text \<open>\<^verbatim>\<open>math.Round\<close>: to the nearest integer, halves away from zero.\<close>

definition math_round :: "float64 \<Rightarrow> float64" where
  "math_round x = (if x < 0 then - of_int \<lfloor>- x + 1 / 2\<rfloor> else of_int \<lfloor>x + 1 / 2\<rfloor>)"

definition float_of_int :: "int \<Rightarrow> float64" where
  "float_of_int n = fl (of_int n)"

lemma spacing_pos [simp]: "0 < spacing x"
  by (simp add: spacing_def)

lemma round_even_bounds: "\<lfloor>y\<rfloor> \<le> round_even y" "round_even y \<le> \<lfloor>y\<rfloor> + 1"
  by (simp_all add: round_even_def Let_def)

lemma fl_zero [simp]: "fl 0 = 0"
  by (simp add: fl_def)

lemma fl_nonneg: "0 \<le> x \<Longrightarrow> 0 \<le> fl x"
proof -
  assume "0 \<le> x"
  then have "0 \<le> \<lfloor>x / spacing x\<rfloor>" using spacing_pos [of x] by (simp add: divide_nonneg_pos)
  then have "0 \<le> round_even (x / spacing x)" using round_even_bounds(1) by (rule order_trans)
  then show ?thesis using less_imp_le [OF spacing_pos [of x]] by (simp add: fl_def)
qed

lemma round_even_minus: "round_even (- y) = - round_even y"
proof (cases "y \<in> \<int>")
  case True
  then obtain n where "y = of_int n" by (rule Ints_cases)
  then show ?thesis by (simp add: round_even_def Let_def flip: of_int_minus)
next
  case False
  let ?n = "\<lfloor>y\<rfloor>"
  have "of_int ?n \<noteq> y" using False by (metis Ints_of_int)
  then have n: "of_int ?n < y" "y < of_int ?n + 1" by linarith+
  have "\<lfloor>- y\<rfloor> = - ?n - 1" using n by (simp add: floor_eq_iff)
  then show ?thesis using n by (simp add: round_even_def Let_def)
qed

lemma spacing_minus [simp]: "spacing (- x) = spacing x"
  by (simp add: spacing_def)

lemma fl_minus: "fl (- x) = - fl x"
  by (simp add: fl_def round_even_minus)

lemma fmul_nonneg: "0 \<le> x \<Longrightarrow> 0 \<le> y \<Longrightarrow> 0 \<le> fmul x y"
  by (simp add: fmul_def fl_nonneg)

lemma float_of_int_nonneg: "0 \<le> n \<Longrightarrow> 0 \<le> float_of_int n"
  by (simp add: float_of_int_def fl_nonneg)

text \<open>A rounded value is off by at most half a unit in its last place.\<close>

lemma round_even_near: "\<bar>of_int (round_even y) - y\<bar> \<le> 1 / 2"
proof -
  have "of_int \<lfloor>y\<rfloor> \<le> y" "y < of_int \<lfloor>y\<rfloor> + 1" by linarith+
  then show ?thesis by (auto simp: round_even_def Let_def abs_le_iff)
qed

lemma fl_near: "\<bar>fl x - x\<bar> \<le> spacing x / 2"
proof (cases "x = 0")
  case False
  let ?s = "spacing x"
  have "fl x - x = ?s * (of_int (round_even (x / ?s)) - x / ?s)"
    using False less_imp_neq [OF spacing_pos [of x]] by (simp add: fl_def algebra_simps)
  then have "\<bar>fl x - x\<bar> = ?s * \<bar>of_int (round_even (x / ?s)) - x / ?s\<bar>"
    using less_imp_le [OF spacing_pos [of x]] by (simp add: abs_mult)
  also have "\<dots> \<le> ?s * (1 / 2)"
    using round_even_near by (intro mult_left_mono) (simp_all add: less_imp_le)
  finally show ?thesis by simp
qed (simp add: less_imp_le)

text \<open>Sanity: one tenth is the double nearest to it, and three of them exceed three tenths.\<close>

lemma one_tenth: "fl (1 / 10) = 3602879701896397 / 2 ^ 55"
  by code_simp

lemma three_tenths: "fl (3 / 10) < fmul 3 (fl (1 / 10))"
  by code_simp

end
