(* ===== verification/Bill_Rules.thy ===== *)
theory Bill_Rules
  imports Go_Float Go_Base
begin

text \<open>
  The rules of billing (\<^verbatim>\<open>billing/settlement.go\<close>, \<^verbatim>\<open>billing/subscription_allocation.go\<close>): commands and their
  fingerprints, how an amount is spread over subscriptions, and how the funds held for a task become its
  charge. Hashing, formatting of instants, \<^verbatim>\<open>strings.ToLower\<close> and the calendar are parameters.
\<close>

section \<open>Commands\<close>

text \<open>
  The parameters, of which the later ones are those of the database: \<open>be_dec\<close> is the decimal number a \<^verbatim>\<open>float64\<close>
  is sent as, \<open>be_trunc_day\<close>, \<open>be_plus_days\<close> and \<open>be_plus_month\<close> its calendar, \<open>be_StartOfDay\<close> and so on the
  calendar of the service, and \<open>be_next_reset\<close> when the daily (or else weekly) quota of a provider is reset next.
\<close>

record billing_env =
  be_sha :: "string \<Rightarrow> string"
  be_rfc3339 :: "instant \<Rightarrow> string"
  be_lower :: "string \<Rightarrow> string"
  be_day :: "instant \<Rightarrow> instant"
  be_next_day :: "instant \<Rightarrow> instant"
  be_quantize :: "float64 \<Rightarrow> float64"
  be_dec :: "float64 \<Rightarrow> rat"
  be_trunc_day :: "instant \<Rightarrow> instant"
  be_plus_days :: "nat \<Rightarrow> instant \<Rightarrow> instant"
  be_plus_month :: "instant \<Rightarrow> instant"
  be_StartOfDay :: "instant \<Rightarrow> instant"
  be_StartOfWeek :: "instant \<Rightarrow> instant"
  be_StartOfMonth :: "instant \<Rightarrow> instant"
  be_next_reset :: "bool \<Rightarrow> int \<Rightarrow> instant \<Rightarrow> instant"

text \<open>\<^verbatim>\<open>%0.10f\<close> and \<^verbatim>\<open>%t\<close> of \<^verbatim>\<open>fmt\<close>.\<close>

definition fixed10 :: "float64 \<Rightarrow> string" where
  "fixed10 x =
     (let n = nat (round_even (\<bar>x\<bar> * 10 ^ 10)); frac = nat_digits (n mod 10 ^ 10)
      in (if x < 0 then ''-'' else []) @ nat_digits (n div 10 ^ 10) @ ''.'' @ replicate (10 - length frac) (CHR ''0'') @ frac)"

definition bool_text :: "bool \<Rightarrow> string" where
  "bool_text b = (if b then ''true'' else ''false'')"

fun join_bar :: "string list \<Rightarrow> string" where
  "join_bar [] = []"
| "join_bar [s] = s"
| "join_bar (s # ss) = s @ ''|'' @ join_bar ss"

definition or_zero :: "int option \<Rightarrow> int" where
  "or_zero i = (case i of None \<Rightarrow> 0 | Some n \<Rightarrow> n)"

text \<open>From \<^verbatim>\<open>billing/mode.go\<close>.\<close>

definition NormalizeAPIKeyBillingMode :: "(string \<Rightarrow> string) \<Rightarrow> string \<Rightarrow> string option" where
  "NormalizeAPIKeyBillingMode to_lower value =
     (let normalized = to_lower (trim_space value)
      in if normalized = [] \<or> normalized = ''auto'' then Some ''auto''
         else if normalized = ''subscription'' \<or> normalized = ''balance'' then Some normalized
         else None)"

record UsageBillingCommand =
  uc_RequestID :: string
  uc_APIKeyID :: int
  uc_RequestFingerprint :: string
  uc_RequestPayloadHash :: string
  uc_APIKeyBillingMode :: string
  uc_PreferredSubscriptionID :: "int option"
  uc_UserID :: int
  uc_ActorUserID :: int
  uc_TeamID :: "int option"
  uc_ProviderID :: int
  uc_GroupID :: "int option"
  uc_BillableAmountUSD :: float64
  uc_BaseAmountUSD :: float64
  uc_SubscriptionRateMultiplier :: float64
  uc_SubscriptionRateMultiplierScale :: float64
  uc_BalanceRateMultiplier :: float64
  uc_DisablePlanGroupRateMultiplier :: bool
  uc_IncludeAllocationPricing :: bool
  uc_ProviderType :: string
  uc_Model :: string
  uc_ServiceTier :: string
  uc_ReasoningEffort :: string
  uc_BillingType :: int
  uc_InputTokens :: int
  uc_OutputTokens :: int
  uc_CacheCreationTokens :: int
  uc_CacheReadTokens :: int
  uc_ImageCount :: int
  uc_MediaType :: string
  uc_APIKeyQuotaCost :: float64
  uc_APIKeyRateLimitCost :: float64
  uc_ProviderQuotaCost :: float64

definition buildUsageBillingFingerprint :: "billing_env \<Rightarrow> UsageBillingCommand \<Rightarrow> string" where
  "buildUsageBillingFingerprint env c =
     be_sha env (join_bar
       ([itoa (uc_UserID c), itoa (uc_ActorUserID c), itoa (or_zero (uc_TeamID c)), itoa (uc_ProviderID c),
         itoa (uc_APIKeyID c), trim_space (uc_ProviderType c), trim_space (uc_Model c), trim_space (uc_ServiceTier c),
         trim_space (uc_ReasoningEffort c), itoa (uc_BillingType c), itoa (uc_InputTokens c), itoa (uc_OutputTokens c),
         itoa (uc_CacheCreationTokens c), itoa (uc_CacheReadTokens c), itoa (uc_ImageCount c),
         trim_space (uc_MediaType c), fixed10 (uc_BillableAmountUSD c), fixed10 (uc_BaseAmountUSD c),
         fixed10 (uc_SubscriptionRateMultiplier c), fixed10 (uc_SubscriptionRateMultiplierScale c),
         fixed10 (uc_BalanceRateMultiplier c), fixed10 (uc_APIKeyQuotaCost c), fixed10 (uc_APIKeyRateLimitCost c),
         fixed10 (uc_ProviderQuotaCost c), uc_APIKeyBillingMode c, itoa (or_zero (uc_PreferredSubscriptionID c))] @
        (let payloadHash = trim_space (uc_RequestPayloadHash c) in if payloadHash = [] then [] else [payloadHash])))"

text \<open>\<open>be_quantize\<close> is \<^verbatim>\<open>QuantizeUsageBillingAmount\<close>, which goes through decimals of a third-party package.\<close>

definition quantizeMonetaryFields :: "billing_env \<Rightarrow> UsageBillingCommand \<Rightarrow> UsageBillingCommand" where
  "quantizeMonetaryFields env c =
     c\<lparr>uc_APIKeyQuotaCost := be_quantize env (uc_APIKeyQuotaCost c),
       uc_APIKeyRateLimitCost := be_quantize env (uc_APIKeyRateLimitCost c),
       uc_ProviderQuotaCost := be_quantize env (uc_ProviderQuotaCost c)\<rparr>"

definition normalized_mode :: "billing_env \<Rightarrow> string \<Rightarrow> string" where
  "normalized_mode env m = (case NormalizeAPIKeyBillingMode (be_lower env) m of None \<Rightarrow> ''auto'' | Some mode \<Rightarrow> mode)"

definition usage_Normalize :: "billing_env \<Rightarrow> UsageBillingCommand \<Rightarrow> UsageBillingCommand" where
  "usage_Normalize env c =
     (let c = c\<lparr>uc_RequestID := trim_space (uc_RequestID c)\<rparr>;
          rawMode = trim_space (uc_APIKeyBillingMode c);
          mode = normalized_mode env (uc_APIKeyBillingMode c);
          preferred = (if mode \<noteq> ''subscription'' then None else uc_PreferredSubscriptionID c);
          fingerprint =
            (if trim_space (uc_RequestFingerprint c) = []
             then buildUsageBillingFingerprint env
               (c\<lparr>uc_APIKeyBillingMode := (if rawMode = [] then [] else mode), uc_PreferredSubscriptionID := preferred\<rparr>)
             else uc_RequestFingerprint c)
      in quantizeMonetaryFields env
           (c\<lparr>uc_RequestFingerprint := fingerprint, uc_APIKeyBillingMode := mode,
              uc_PreferredSubscriptionID := preferred\<rparr>))"

text \<open>From \<^verbatim>\<open>billing/allocation.go\<close>.\<close>

record BillingAllocation =
  ba_Type :: string
  ba_AmountUSD :: float64
  ba_BaseAmountUSD :: float64
  ba_RateMultiplier :: float64
  ba_SubscriptionID :: "int option"
  ba_PlanID :: "int option"

record TaskReference =
  tk_Scope :: string
  tk_ID :: string
  tk_ReserveRequestID :: string

record TaskFundsCommand =
  fc_RequestID :: string
  fc_APIKeyID :: int
  fc_RequestFingerprint :: string
  fc_RequestPayloadHash :: string
  fc_UserID :: int
  fc_ActorUserID :: int
  fc_TeamID :: "int option"
  fc_GroupID :: "int option"
  fc_APIKeyBillingMode :: string
  fc_PreferredSubscriptionID :: "int option"
  fc_Task :: TaskReference
  fc_HoldAmount :: float64
  fc_ActualAmount :: float64
  fc_PricingSnapshotVersion :: int
  fc_BaseAmountUSD :: float64
  fc_ActualBaseAmountUSD :: float64
  fc_SubscriptionRateMultiplier :: float64
  fc_SubscriptionRateMultiplierScale :: float64
  fc_BalanceRateMultiplier :: float64
  fc_SettlementRateScale :: float64
  fc_DisablePlanGroupRateMultiplier :: bool
  fc_BalanceHoldAmount :: float64
  fc_SubscriptionHoldAllocations :: "BillingAllocation list"
  fc_AllowanceReserved :: bool
  fc_ReservedAt :: instant

definition buildTaskFundsFingerprint :: "billing_env \<Rightarrow> TaskFundsCommand \<Rightarrow> string" where
  "buildTaskFundsFingerprint env c =
     (let who = [itoa (fc_UserID c), itoa (fc_ActorUserID c), itoa (or_zero (fc_TeamID c)), itoa (fc_APIKeyID c),
                 trim_space (tk_ID (fc_Task c))];
          what =
            (if fc_PricingSnapshotVersion c \<ge> 2
             then [itoa (fc_PricingSnapshotVersion c), fixed10 (fc_BaseAmountUSD c), fixed10 (fc_ActualBaseAmountUSD c),
                   fixed10 (fc_SubscriptionRateMultiplier c), fixed10 (fc_SubscriptionRateMultiplierScale c),
                   fixed10 (fc_BalanceRateMultiplier c), fixed10 (fc_SettlementRateScale c),
                   bool_text (fc_DisablePlanGroupRateMultiplier c)]
             else [fixed10 (fc_HoldAmount c), fixed10 (fc_ActualAmount c)]);
          mode =
            (if fc_PricingSnapshotVersion c \<ge> 3
             then [fc_APIKeyBillingMode c, itoa (or_zero (fc_PreferredSubscriptionID c))] else []);
          payloadHash = trim_space (fc_RequestPayloadHash c)
      in be_sha env (join_bar (who @ what @ [be_rfc3339 env (fc_ReservedAt c)] @ mode @
           (if payloadHash = [] then [] else [payloadHash]))))"

definition funds_Normalize :: "billing_env \<Rightarrow> TaskFundsCommand \<Rightarrow> TaskFundsCommand" where
  "funds_Normalize env c =
     (let c = c\<lparr>fc_RequestID := trim_space (fc_RequestID c),
            fc_Task := (fc_Task c)\<lparr>tk_ID := trim_space (tk_ID (fc_Task c))\<rparr>\<rparr>;
          rawMode = trim_space (fc_APIKeyBillingMode c);
          mode = normalized_mode env (fc_APIKeyBillingMode c);
          preferred = (if mode \<noteq> ''subscription'' then None else fc_PreferredSubscriptionID c);
          fingerprint =
            (if trim_space (fc_RequestFingerprint c) = []
             then buildTaskFundsFingerprint env
               (c\<lparr>fc_APIKeyBillingMode := (if rawMode = [] then [] else mode), fc_PreferredSubscriptionID := preferred\<rparr>)
             else fc_RequestFingerprint c)
      in c\<lparr>fc_RequestFingerprint := fingerprint, fc_APIKeyBillingMode := mode, fc_PreferredSubscriptionID := preferred\<rparr>)"

section \<open>Errors\<close>

datatype funds_error =
    ErrUsageBillingRequestIDRequired
  | ErrUsageBillingRequestConflict
  | ErrTaskSettlementCostExceedsHold
  | ErrTaskInsufficientBalance
  | ErrTaskNotFound
  | ErrUserNotFound
  | ErrSubscriptionNotFound
  | ErrPreferredSubscriptionInvalid
  | ErrPreferredSubscriptionInsufficient
  | ErrPreferredSubscriptionGroup
  | ErrProviderNotFound
  | ErrAPIKeyNotFound
  | ErrAPIKeyQuotaExhausted
  | ErrAPIKeyRateLimit5hExceeded
  | ErrAPIKeyRateLimit1dExceeded
  | ErrAPIKeyRateLimit7dExceeded
  | ErrTeamMembershipRequired
  | ErrTeamMemberDailyExceeded
  | ErrTeamMemberWeeklyExceeded
  | ErrTeamMemberMonthlyExceeded
  | FundsStoreFailed
  | FundsDeadlock
  | OtherFundsFailure string

section \<open>Spreading an amount over subscriptions\<close>

record SettlementSubscription =
  ss_ID :: int
  ss_PlanID :: int
  ss_StartsAt :: instant
  ss_ExpiresAt :: instant
  ss_DailyWindowStart :: "instant option"
  ss_WeeklyWindowStart :: "instant option"
  ss_MonthlyWindowStart :: "instant option"
  ss_DailyLimitUSD :: "float64 option"
  ss_WeeklyLimitUSD :: "float64 option"
  ss_MonthlyLimitUSD :: "float64 option"
  ss_DailyUsageUSD :: float64
  ss_WeeklyUsageUSD :: float64
  ss_MonthlyUsageUSD :: float64
  ss_PlanGroupRateMultipliers :: "(int \<times> float64) list"

definition UsesBaseAmount :: "UsageBillingCommand \<Rightarrow> bool" where
  "UsesBaseAmount cmd \<longleftrightarrow> uc_BaseAmountUSD cmd > 0"

definition NonNegativeRate :: "float64 \<Rightarrow> float64" where
  "NonNegativeRate rate = (if rate < 0 then 0 else rate)"

definition SettlementSubscriptionRateMultiplier ::
  "SettlementSubscription \<Rightarrow> int option \<Rightarrow> float64 \<Rightarrow> float64 \<Rightarrow> float64" where
  "SettlementSubscriptionRateMultiplier row groupID defaultRate scale =
     NonNegativeRate
       (case groupID of
          None \<Rightarrow> defaultRate
        | Some g \<Rightarrow>
            if g > 0 then
              (case map_of (ss_PlanGroupRateMultipliers row) g of
                 Some value \<Rightarrow> if value > 0 then fmul value (if scale \<le> 0 then 1 else scale) else defaultRate
               | None \<Rightarrow> defaultRate)
            else defaultRate)"

definition PositiveSubscriptionLimit :: "float64 option \<Rightarrow> bool" where
  "PositiveSubscriptionLimit limit \<longleftrightarrow> (case limit of None \<Rightarrow> False | Some l \<Rightarrow> l > 0)"

definition CanStartSettlementWindow :: "instant \<Rightarrow> duration \<Rightarrow> instant \<Rightarrow> bool \<Rightarrow> bool" where
  "CanStartSettlementWindow windowStart duration' expiresAt hasFiniteOuterLimit =
     (if expiresAt = 0 \<or> duration' \<le> 0 \<or> \<not> windowStart < expiresAt then False
      else hasFiniteOuterLimit \<or> windowStart + duration' \<le> expiresAt)"

definition unset :: "instant option \<Rightarrow> bool" where
  "unset t \<longleftrightarrow> t = None \<or> t = Some 0"

definition NormalizeSettlementWindow ::
  "billing_env \<Rightarrow> instant option \<Rightarrow> float64 option \<Rightarrow> float64 \<Rightarrow> instant \<Rightarrow> duration \<Rightarrow> instant \<Rightarrow> instant \<Rightarrow> instant \<Rightarrow> bool
     \<Rightarrow> instant option \<times> float64" where
  "NormalizeSettlementWindow env windowStart limit used resetStart duration' now startsAt expiresAt hasFiniteOuterLimit =
     (if \<not> PositiveSubscriptionLimit limit then (windowStart, used)
      else if duration' = 24 * hour \<and> expiresAt \<le> be_next_day env startsAt
      then (if unset windowStart then (Some resetStart, 0) else (windowStart, used))
      else if \<not> CanStartSettlementWindow resetStart duration' expiresAt hasFiniteOuterLimit
      then (if unset windowStart then (None, used) else (windowStart, used))
      else if unset windowStart \<or> the windowStart + duration' \<le> now then (Some resetStart, 0)
      else (windowStart, used))"

definition NormalizeSettlementSubscription :: "billing_env \<Rightarrow> SettlementSubscription \<Rightarrow> instant \<Rightarrow> SettlementSubscription" where
  "NormalizeSettlementSubscription env row now =
     (let windowStart = be_day env now;
          (dailyStart, dailyUsage) =
            NormalizeSettlementWindow env (ss_DailyWindowStart row) (ss_DailyLimitUSD row) (ss_DailyUsageUSD row) windowStart
              (24 * hour) now (ss_StartsAt row) (ss_ExpiresAt row)
              (PositiveSubscriptionLimit (ss_WeeklyLimitUSD row) \<or> PositiveSubscriptionLimit (ss_MonthlyLimitUSD row));
          (weeklyStart, weeklyUsage) =
            NormalizeSettlementWindow env (ss_WeeklyWindowStart row) (ss_WeeklyLimitUSD row) (ss_WeeklyUsageUSD row) windowStart
              (7 * 24 * hour) now (ss_StartsAt row) (ss_ExpiresAt row) (PositiveSubscriptionLimit (ss_MonthlyLimitUSD row));
          (monthlyStart, monthlyUsage) =
            NormalizeSettlementWindow env (ss_MonthlyWindowStart row) (ss_MonthlyLimitUSD row) (ss_MonthlyUsageUSD row)
              windowStart (30 * 24 * hour) now (ss_StartsAt row) (ss_ExpiresAt row) False
      in row\<lparr>ss_DailyWindowStart := dailyStart, ss_WeeklyWindowStart := weeklyStart, ss_MonthlyWindowStart := monthlyStart,
             ss_DailyUsageUSD := dailyUsage, ss_WeeklyUsageUSD := weeklyUsage, ss_MonthlyUsageUSD := monthlyUsage\<rparr>)"

definition RemainingWindowAmount :: "float64 option \<Rightarrow> float64 \<Rightarrow> float64 option" where
  "RemainingWindowAmount limit used =
     (case limit of
        None \<Rightarrow> None
      | Some l \<Rightarrow> if l \<le> 0 then None else Some (let remaining = fsub l used in if remaining < 0 then 0 else remaining))"

fun least_given :: "float64 option list \<Rightarrow> float64 option \<Rightarrow> float64 option" where
  "least_given [] found = found"
| "least_given (None # vs) found = least_given vs found"
| "least_given (Some v # vs) found =
     least_given vs (case found of None \<Rightarrow> Some v | Some m \<Rightarrow> Some (if v < m then v else m))"

definition SubscriptionAvailableAmount :: "float64 \<Rightarrow> float64 option list \<Rightarrow> float64" where
  "SubscriptionAvailableAmount unlimitedAmount values =
     (case least_given values None of None \<Rightarrow> unlimitedAmount | Some m \<Rightarrow> m)"

text \<open>The amount, and whether subscriptions are to be asked.\<close>

definition SubscriptionAllocationRequest :: "UsageBillingCommand \<Rightarrow> funds_error + float64 \<times> bool" where
  "SubscriptionAllocationRequest cmd =
     (let amountUSD = (if UsesBaseAmount cmd then uc_BaseAmountUSD cmd else uc_BillableAmountUSD cmd)
      in if amountUSD \<le> 0 then Inr (0, False)
         else if uc_APIKeyBillingMode cmd = ''balance'' then Inr (amountUSD, False)
         else if uc_APIKeyBillingMode cmd = ''subscription'' \<and>
           (case uc_PreferredSubscriptionID cmd of None \<Rightarrow> True | Some i \<Rightarrow> i \<le> 0)
         then Inl ErrPreferredSubscriptionInvalid
         else Inr (amountUSD, True))"

record SubscriptionAllocationPlan =
  sp_Remaining :: float64
  sp_SubscriptionAmount :: float64
  sp_Allocations :: "BillingAllocation list"
  sp_Updates :: "SettlementSubscription list"

definition allocation_rate :: "UsageBillingCommand \<Rightarrow> SettlementSubscription \<Rightarrow> float64" where
  "allocation_rate cmd row =
     (if \<not> UsesBaseAmount cmd then 1
      else if uc_DisablePlanGroupRateMultiplier cmd then NonNegativeRate (uc_SubscriptionRateMultiplier cmd)
      else SettlementSubscriptionRateMultiplier row (uc_GroupID cmd) (uc_SubscriptionRateMultiplier cmd)
        (uc_SubscriptionRateMultiplierScale cmd))"

definition add_usage :: "float64 \<Rightarrow> SettlementSubscription \<Rightarrow> SettlementSubscription" where
  "add_usage allocated row =
     row\<lparr>ss_DailyUsageUSD :=
          (if PositiveSubscriptionLimit (ss_DailyLimitUSD row) then fadd (ss_DailyUsageUSD row) allocated else ss_DailyUsageUSD row),
        ss_WeeklyUsageUSD :=
          (if PositiveSubscriptionLimit (ss_WeeklyLimitUSD row) then fadd (ss_WeeklyUsageUSD row) allocated else ss_WeeklyUsageUSD row),
        ss_MonthlyUsageUSD :=
          (if PositiveSubscriptionLimit (ss_MonthlyLimitUSD row) then fadd (ss_MonthlyUsageUSD row) allocated
           else ss_MonthlyUsageUSD row)\<rparr>"

definition subscription_allocation :: "UsageBillingCommand \<Rightarrow> SettlementSubscription \<Rightarrow> float64 \<Rightarrow> float64 \<Rightarrow> float64 \<Rightarrow> BillingAllocation" where
  "subscription_allocation cmd row allocated coveredBaseAmount rateMultiplier =
     \<lparr>ba_Type = ''subscription'', ba_AmountUSD = allocated,
      ba_BaseAmountUSD = (if uc_IncludeAllocationPricing cmd then coveredBaseAmount else 0),
      ba_RateMultiplier = (if uc_IncludeAllocationPricing cmd then rateMultiplier else 0),
      ba_SubscriptionID = Some (ss_ID row), ba_PlanID = Some (ss_PlanID row)\<rparr>"

definition available_amount :: "SettlementSubscription \<Rightarrow> float64 \<Rightarrow> float64" where
  "available_amount row remainingBillable =
     SubscriptionAvailableAmount remainingBillable
       [RemainingWindowAmount (ss_DailyLimitUSD row) (ss_DailyUsageUSD row),
        RemainingWindowAmount (ss_WeeklyLimitUSD row) (ss_WeeklyUsageUSD row),
        RemainingWindowAmount (ss_MonthlyLimitUSD row) (ss_MonthlyUsageUSD row)]"

fun allocate_rows ::
  "billing_env \<Rightarrow> UsageBillingCommand \<Rightarrow> instant \<Rightarrow> SettlementSubscription list \<Rightarrow> SubscriptionAllocationPlan \<Rightarrow> SubscriptionAllocationPlan"
where
  "allocate_rows env cmd now [] plan = plan"
| "allocate_rows env cmd now (row # rows) plan =
     (if sp_Remaining plan \<le> 0 then plan
      else
        let row = NormalizeSettlementSubscription env row now;
            rateMultiplier = allocation_rate cmd row
        in if UsesBaseAmount cmd \<and> rateMultiplier \<le> 0 then plan\<lparr>sp_Remaining := 0\<rparr>
           else
             let remainingBillable =
                   (if UsesBaseAmount cmd then fmul (sp_Remaining plan) rateMultiplier else sp_Remaining plan);
                 available = available_amount row remainingBillable;
                 allocated = min remainingBillable available
             in if available \<le> 0 \<or> allocated \<le> 0 then allocate_rows env cmd now rows plan
                else
                  let coveredBaseAmount = (if UsesBaseAmount cmd then fdiv allocated rateMultiplier else allocated)
                  in allocate_rows env cmd now rows
                    (plan\<lparr>sp_Remaining := fsub (sp_Remaining plan) coveredBaseAmount,
                      sp_SubscriptionAmount := fadd (sp_SubscriptionAmount plan) allocated,
                      sp_Allocations := sp_Allocations plan @
                        [subscription_allocation cmd row allocated coveredBaseAmount rateMultiplier],
                      sp_Updates := sp_Updates plan @ [add_usage allocated row]\<rparr>))"

definition unallocated :: "float64 \<Rightarrow> SubscriptionAllocationPlan" where
  "unallocated remaining =
     \<lparr>sp_Remaining = remaining, sp_SubscriptionAmount = 0, sp_Allocations = [], sp_Updates = []\<rparr>"

definition AllocateSubscriptions ::
  "billing_env \<Rightarrow> UsageBillingCommand \<Rightarrow> SettlementSubscription list \<Rightarrow> instant \<Rightarrow> funds_error + SubscriptionAllocationPlan" where
  "AllocateSubscriptions env cmd subscriptions now =
     (case SubscriptionAllocationRequest cmd of
        Inl e \<Rightarrow> Inl e
      | Inr (amountUSD, asked) \<Rightarrow>
          if \<not> asked then Inr (unallocated amountUSD)
          else if uc_APIKeyBillingMode cmd = ''subscription'' \<and> subscriptions = [] then Inl ErrPreferredSubscriptionInsufficient
          else Inr (allocate_rows env cmd now subscriptions (unallocated amountUSD)))"

section \<open>From the hold to the charge\<close>

definition taskCostEpsilon :: float64 where
  "taskCostEpsilon = fl (1 / 10 ^ 8)"

record TaskCapturePlan =
  cp_BalanceHoldAmount :: float64
  cp_ActualAmountUSD :: float64
  cp_SubscriptionAmountUSD :: float64
  cp_BalanceAmountUSD :: float64
  cp_BillingAllocations :: "BillingAllocation list"
  cp_SubscriptionReleases :: "BillingAllocation list"

definition CloneBillingAllocation :: "BillingAllocation \<Rightarrow> float64 \<Rightarrow> BillingAllocation" where
  "CloneBillingAllocation allocation amount = allocation\<lparr>ba_AmountUSD := amount\<rparr>"

definition EffectiveTaskBalanceHoldAmount :: "TaskFundsCommand \<Rightarrow> float64" where
  "EffectiveTaskBalanceHoldAmount cmd =
     (if fc_BalanceHoldAmount cmd > 0 \<or> fc_SubscriptionHoldAllocations cmd \<noteq> [] then max (fc_BalanceHoldAmount cmd) 0
      else max (fc_HoldAmount cmd) 0)"

definition TotalTaskHoldAmount :: "TaskFundsCommand \<Rightarrow> float64" where
  "TotalTaskHoldAmount cmd =
     fold (\<lambda>a total. if ba_Type a = ''subscription'' \<and> ba_AmountUSD a > 0 then fadd total (ba_AmountUSD a) else total)
       (fc_SubscriptionHoldAllocations cmd) (EffectiveTaskBalanceHoldAmount cmd)"

definition held_allocation :: "BillingAllocation \<Rightarrow> bool" where
  "held_allocation a \<longleftrightarrow> ba_Type a = ''subscription'' \<and> ba_AmountUSD a > 0 \<and> ba_SubscriptionID a \<noteq> None"

text \<open>What the loop over the held subscriptions has gathered: what remains, and the plan.\<close>

type_synonym capture_state = "float64 \<times> TaskCapturePlan"

definition release_rest :: "BillingAllocation \<Rightarrow> float64 \<Rightarrow> TaskCapturePlan \<Rightarrow> TaskCapturePlan" where
  "release_rest allocation kept plan =
     (let released = fsub (ba_AmountUSD allocation) kept
      in if released > taskCostEpsilon
         then plan\<lparr>cp_SubscriptionReleases := cp_SubscriptionReleases plan @ [CloneBillingAllocation allocation released]\<rparr>
         else plan)"

definition keep_allocation :: "BillingAllocation \<Rightarrow> float64 \<Rightarrow> TaskCapturePlan \<Rightarrow> TaskCapturePlan" where
  "keep_allocation keptAllocation kept plan =
     plan\<lparr>cp_BillingAllocations := cp_BillingAllocations plan @ [keptAllocation],
          cp_SubscriptionAmountUSD := fadd (cp_SubscriptionAmountUSD plan) kept\<rparr>"

definition capture_amount :: "BillingAllocation \<Rightarrow> capture_state \<Rightarrow> capture_state" where
  "capture_amount allocation st =
     (case st of (remaining, plan) \<Rightarrow>
        if \<not> held_allocation allocation then (remaining, plan)
        else
          let kept = min (ba_AmountUSD allocation) remaining;
              (remaining, plan) =
                (if kept > 0
                 then (fsub remaining kept, keep_allocation (CloneBillingAllocation allocation kept) kept plan)
                 else (remaining, plan))
          in (remaining, release_rest allocation kept plan))"

definition capture_base :: "float64 \<Rightarrow> BillingAllocation \<Rightarrow> capture_state \<Rightarrow> capture_state" where
  "capture_base settlementScale allocation st =
     (case st of (remainingBase, plan) \<Rightarrow>
        if \<not> held_allocation allocation then (remainingBase, plan)
        else
          let rate = fmul (ba_RateMultiplier allocation) settlementScale
          in if rate \<le> 0 then (remainingBase, plan)
             else
               let kept = min (ba_AmountUSD allocation) (fmul remainingBase rate);
                   (remainingBase, plan) =
                     (if kept > 0
                      then (fsub remainingBase (fdiv kept rate),
                        keep_allocation ((CloneBillingAllocation allocation kept)\<lparr>ba_BaseAmountUSD := fdiv kept rate,
                            ba_RateMultiplier := rate\<rparr>) kept plan)
                      else (remainingBase, plan))
               in (remainingBase, release_rest allocation kept plan))"

definition blank_plan :: TaskCapturePlan where
  "blank_plan = \<lparr>cp_BalanceHoldAmount = 0, cp_ActualAmountUSD = 0, cp_SubscriptionAmountUSD = 0, cp_BalanceAmountUSD = 0,
     cp_BillingAllocations = [], cp_SubscriptionReleases = []\<rparr>"

definition balance_allocation :: "float64 \<Rightarrow> float64 \<Rightarrow> float64 \<Rightarrow> BillingAllocation" where
  "balance_allocation amount baseAmount rate =
     \<lparr>ba_Type = ''balance'', ba_AmountUSD = amount, ba_BaseAmountUSD = baseAmount, ba_RateMultiplier = rate,
      ba_SubscriptionID = None, ba_PlanID = None\<rparr>"

definition capture_balance :: "float64 \<Rightarrow> float64 \<Rightarrow> TaskCapturePlan \<Rightarrow> funds_error + TaskCapturePlan" where
  "capture_balance balanceRate remainingBase plan =
     (let balanceAmount = fmul remainingBase balanceRate
      in if fsub balanceAmount (cp_BalanceHoldAmount plan) > taskCostEpsilon then Inl ErrTaskSettlementCostExceedsHold
         else
           let charged = min balanceAmount (cp_BalanceHoldAmount plan);
               baseAmount = (if balanceRate > 0 then fdiv charged balanceRate else 0);
               (remainingBase, plan) =
                 (if charged > 0
                  then (fsub remainingBase baseAmount,
                    plan\<lparr>cp_BalanceAmountUSD := charged,
                      cp_BillingAllocations := cp_BillingAllocations plan @ [balance_allocation charged baseAmount balanceRate]\<rparr>)
                  else (remainingBase, plan\<lparr>cp_BalanceAmountUSD := charged\<rparr>))
           in if remainingBase > taskCostEpsilon \<and> balanceRate > 0 then Inl ErrTaskSettlementCostExceedsHold
              else Inr (plan\<lparr>cp_ActualAmountUSD := fadd (cp_SubscriptionAmountUSD plan) (cp_BalanceAmountUSD plan)\<rparr>))"

definition planTaskBaseAmountCapture :: "TaskFundsCommand \<Rightarrow> funds_error + TaskCapturePlan" where
  "planTaskBaseAmountCapture cmd =
     (let settlementScale = max (fc_SettlementRateScale cmd) 0;
          (remainingBase, plan) =
            fold (capture_base settlementScale) (fc_SubscriptionHoldAllocations cmd)
              (max (fc_ActualBaseAmountUSD cmd) 0, blank_plan\<lparr>cp_BalanceHoldAmount := EffectiveTaskBalanceHoldAmount cmd\<rparr>)
      in capture_balance (fmul (max (fc_BalanceRateMultiplier cmd) 0) settlementScale) remainingBase plan)"

definition PlanTaskCapture :: "TaskFundsCommand \<Rightarrow> funds_error + TaskCapturePlan" where
  "PlanTaskCapture cmd =
     (if fc_PricingSnapshotVersion cmd \<ge> 2 \<and> fc_BaseAmountUSD cmd > 0 then planTaskBaseAmountCapture cmd
      else
        let (remaining, plan) =
              fold capture_amount (fc_SubscriptionHoldAllocations cmd) (max (fc_ActualAmount cmd) 0, blank_plan);
            plan = plan\<lparr>cp_BalanceHoldAmount := EffectiveTaskBalanceHoldAmount cmd\<rparr>
        in if fsub remaining (cp_BalanceHoldAmount plan) > taskCostEpsilon then Inl ErrTaskSettlementCostExceedsHold
           else
             let charged = min remaining (cp_BalanceHoldAmount plan);
                 plan = plan\<lparr>cp_BalanceAmountUSD := charged\<rparr>;
                 plan = (if charged > 0
                   then plan\<lparr>cp_BillingAllocations := cp_BillingAllocations plan @ [balance_allocation charged 0 0]\<rparr>
                   else plan)
             in Inr (plan\<lparr>cp_ActualAmountUSD := fadd (cp_SubscriptionAmountUSD plan) (cp_BalanceAmountUSD plan)\<rparr>))"

end
