(* ===== verification/Batch_Job.thy ===== *)
theory Batch_Job
  imports Bill_Rules Go_Sort
begin

text \<open>
  Batch image jobs (\<^verbatim>\<open>batchimage/job.go\<close>): their states and which state may follow which, the rows of
  jobs and items, and the errors of the package. Amounts are the finite values of \<^verbatim>\<open>float64\<close>, as
  rational numbers.
\<close>

section \<open>States\<close>

definition BatchImageJobStatusCreated :: string where "BatchImageJobStatusCreated = ''created''"
definition BatchImageJobStatusUploading :: string where "BatchImageJobStatusUploading = ''uploading''"
definition BatchImageJobStatusSubmitted :: string where "BatchImageJobStatusSubmitted = ''submitted''"
definition BatchImageJobStatusRunning :: string where "BatchImageJobStatusRunning = ''running''"
definition BatchImageJobStatusIndexing :: string where "BatchImageJobStatusIndexing = ''indexing''"
definition BatchImageJobStatusSettling :: string where "BatchImageJobStatusSettling = ''settling''"
definition BatchImageJobStatusCompleted :: string where "BatchImageJobStatusCompleted = ''completed''"
definition BatchImageJobStatusFailed :: string where "BatchImageJobStatusFailed = ''failed''"
definition BatchImageJobStatusCancelled :: string where "BatchImageJobStatusCancelled = ''cancelled''"
definition BatchImageJobStatusOutputDeleted :: string where "BatchImageJobStatusOutputDeleted = ''output_deleted''"

lemmas job_status_defs = BatchImageJobStatusCreated_def BatchImageJobStatusUploading_def
  BatchImageJobStatusSubmitted_def BatchImageJobStatusRunning_def BatchImageJobStatusIndexing_def
  BatchImageJobStatusSettling_def BatchImageJobStatusCompleted_def BatchImageJobStatusFailed_def
  BatchImageJobStatusCancelled_def BatchImageJobStatusOutputDeleted_def

definition IsSupportedBatchImageProvider :: "string \<Rightarrow> bool" where
  "IsSupportedBatchImageProvider platform \<longleftrightarrow> platform = ''gemini_api'' \<or> platform = ''vertex''"

definition IsTerminalBatchImageJobStatus :: "string \<Rightarrow> bool" where
  "IsTerminalBatchImageJobStatus status \<longleftrightarrow>
     status = BatchImageJobStatusCompleted \<or> status = BatchImageJobStatusFailed \<or>
     status = BatchImageJobStatusCancelled \<or> status = BatchImageJobStatusOutputDeleted"

definition allowed_transitions :: "(string \<times> string list) list" where
  "allowed_transitions =
     [(BatchImageJobStatusCreated,
         [BatchImageJobStatusUploading, BatchImageJobStatusSubmitted, BatchImageJobStatusCancelled]),
      (BatchImageJobStatusUploading, [BatchImageJobStatusSubmitted, BatchImageJobStatusCancelled]),
      (BatchImageJobStatusSubmitted,
         [BatchImageJobStatusRunning, BatchImageJobStatusIndexing, BatchImageJobStatusFailed, BatchImageJobStatusCancelled]),
      (BatchImageJobStatusRunning,
         [BatchImageJobStatusRunning, BatchImageJobStatusIndexing, BatchImageJobStatusFailed, BatchImageJobStatusCancelled]),
      (BatchImageJobStatusIndexing, [BatchImageJobStatusSettling, BatchImageJobStatusFailed]),
      (BatchImageJobStatusSettling, [BatchImageJobStatusCompleted])]"

definition CanTransitionBatchImageJob :: "string \<Rightarrow> string \<Rightarrow> bool" where
  "CanTransitionBatchImageJob src dst =
     (if src = [] \<or> dst = [] then False
      else if IsTerminalBatchImageJobStatus src
      then dst = BatchImageJobStatusOutputDeleted \<and> src \<noteq> BatchImageJobStatusOutputDeleted \<and>
        (src = BatchImageJobStatusCompleted \<or> src = BatchImageJobStatusFailed \<or> src = BatchImageJobStatusCancelled)
      else if dst = BatchImageJobStatusFailed then True
      else case map_of allowed_transitions src of None \<Rightarrow> False | Some dsts \<Rightarrow> dst \<in> set dsts)"

text \<open>From \<^verbatim>\<open>processor.go\<close>: what the processor has nothing left to do for.\<close>

definition IsBatchImageProcessorDoneStatus :: "string \<Rightarrow> bool" where
  "IsBatchImageProcessorDoneStatus status \<longleftrightarrow>
     status = BatchImageJobStatusSettling \<or> IsTerminalBatchImageJobStatus status"

section \<open>Errors\<close>

text \<open>\<open>StoreFailed\<close> stands for any error of the database, \<open>OtherFailure\<close> for those of ports, with their text.\<close>

datatype batch_error =
    ErrBatchImageJobNotFound
  | ErrBatchImageJobExists
  | ErrBatchImageItemExists
  | ErrBatchImageInvalidTransition
  | ErrBatchImageInvalidProvider
  | ErrBatchImageMissingProviderJobName
  | ErrBatchImageMissingProviderID
  | ErrBatchImageUnsupportedProvider
  | ErrBatchImageIndexOutputMissing
  | ErrBatchImageIndexParseFailed
  | ErrBatchImageIndexNoResultLines
  | ErrBatchImageDuplicateCustomID
  | ErrBatchImageIndexStateConflict
  | ErrBatchImageSettlementInvalidStatus
  | ErrBatchImageSettlementManifestConflict
  | ErrBatchImageSettlementPricingMissing
  | ErrBatchImageSettlementBillingFailed
  | ErrBatchImageAlreadySettled
  | ErrBatchImageSettlementMissingAPIKeyID
  | ErrBatchImageSettlementMissingProviderID
  | ErrBatchImageSettlementInvalidCounts
  | ErrBatchImageSettlementCostExceedsHold
  | ErrBatchImageBillingHoldFailed
  | ErrBatchImageInsufficientBalance
  | ErrBatchImageItemNotFound
  | ErrBatchImageRecordDeleteNotReady
  | StoreFailed
  | OtherFailure string

section \<open>Rows\<close>

record BatchImageJob =
  jb_ID :: int
  jb_BatchID :: string
  jb_UserID :: int
  jb_BillingUserID :: int
  jb_TeamID :: "int option"
  jb_APIKeyID :: "int option"
  jb_ProviderID :: "int option"
  jb_GroupID :: "int option"
  jb_Platform :: string
  jb_Model :: string
  jb_RequestedModel :: string
  jb_InternalModel :: string
  jb_BillingMode :: string
  jb_PreferredSubscriptionID :: "int option"
  jb_TaskName :: string
  jb_ParentBatchID :: "string option"
  jb_Status :: string
  jb_ProviderJobName :: "string option"
  jb_ProviderInputRef :: "string option"
  jb_ProviderOutputRef :: "string option"
  jb_GCSInputURI :: "string option"
  jb_GCSOutputURI :: "string option"
  jb_ItemCount :: int
  jb_SuccessCount :: int
  jb_FailCount :: int
  jb_CancelledCount :: int
  jb_EstimatedCost :: float64
  jb_HoldAmount :: "float64 option"
  jb_ActualCost :: "float64 option"
  jb_BalanceHoldAmount :: float64
  jb_SubscriptionHoldAllocations :: "BillingAllocation list"
  jb_SubscriptionRateMultiplier :: float64
  jb_BalanceRateMultiplier :: float64
  jb_PlanGroupRateEnabled :: bool
  jb_AllowanceReserved :: bool
  jb_BaseUnitPrice :: float64
  jb_GroupRateMultiplier :: float64
  jb_ProviderRateMultiplier :: float64
  jb_BatchDiscountMultiplier :: float64
  jb_HoldMultiplier :: float64
  jb_BillableUnitPrice :: float64
  jb_HoldUnitPrice :: float64
  jb_PricingSnapshotVersion :: int
  jb_Currency :: string
  jb_HoldID :: "string option"
  jb_IdempotencyKey :: "string option"
  jb_RequestHash :: "string option"
  jb_ManifestHash :: "string option"
  jb_SessionID :: "string option"
  jb_RetryCount :: int
  jb_Version :: int
  jb_OutputExpiresAt :: "instant option"
  jb_InputDeletedAt :: "instant option"
  jb_OutputDeletedAt :: "instant option"
  jb_DownloadedAt :: "instant option"
  jb_UserDeletedAt :: "instant option"
  jb_LastErrorCode :: "string option"
  jb_LastErrorMessage :: "string option"
  jb_CreatedAt :: instant
  jb_UpdatedAt :: instant
  jb_SubmittedAt :: "instant option"
  jb_StartedAt :: "instant option"
  jb_FinishedAt :: "instant option"
  jb_SettledAt :: "instant option"

text \<open>Without the time of creation, which the database sets and nothing reads.\<close>

record BatchImageItem =
  it_ID :: int
  it_JobID :: string
  it_CustomID :: string
  it_Status :: string
  it_RequestHash :: "string option"
  it_PromptPreview :: "string option"
  it_ProviderSourceObject :: "string option"
  it_SourceLineNumber :: "int option"
  it_SourceByteOffset :: "int option"
  it_SourceByteLength :: "int option"
  it_MimeType :: "string option"
  it_FileExtension :: "string option"
  it_ImageCount :: int
  it_ErrorCode :: "string option"
  it_ErrorMessage :: "string option"
  it_BilledAmount :: "float64 option"
  it_IndexedAt :: "instant option"

definition BatchImageItemStatusPending :: string where "BatchImageItemStatusPending = ''pending''"
definition BatchImageItemStatusSuccess :: string where "BatchImageItemStatusSuccess = ''success''"
definition BatchImageItemStatusFailed :: string where "BatchImageItemStatusFailed = ''failed''"

definition BatchImageDerefString :: "string option \<Rightarrow> string" where
  "BatchImageDerefString v = (case v of None \<Rightarrow> [] | Some s \<Rightarrow> trim_space s)"

definition BatchImageOptionalStringPtr :: "string \<Rightarrow> string option" where
  "BatchImageOptionalStringPtr v = (let v = trim_space v in if v = [] then None else Some v)"

definition TruncateBatchImageMessage :: "string \<Rightarrow> int \<Rightarrow> string" where
  "TruncateBatchImageMessage message limit =
     (let message = trim_space message
      in if limit \<le> 0 \<or> int (length message) \<le> limit then message else take (nat limit) message)"

definition BillingUserID :: "BatchImageJob \<Rightarrow> int" where
  "BillingUserID job = (if jb_BillingUserID job > 0 then jb_BillingUserID job else jb_UserID job)"

section \<open>The order of states\<close>

text \<open>How far a job is; every change of state but that from running to running goes up.\<close>

definition stage :: "string \<Rightarrow> nat" where
  "stage s =
     (if s = BatchImageJobStatusUploading then 1
      else if s = BatchImageJobStatusSubmitted then 2
      else if s = BatchImageJobStatusRunning then 3
      else if s = BatchImageJobStatusIndexing then 4
      else if s = BatchImageJobStatusSettling then 5
      else if s = BatchImageJobStatusOutputDeleted then 7
      else if IsTerminalBatchImageJobStatus s then 6 else 0)"

lemma transition_up:
  "CanTransitionBatchImageJob src dst \<Longrightarrow> stage src < stage dst \<or> src = BatchImageJobStatusRunning \<and> dst = BatchImageJobStatusRunning"
  by (auto simp: CanTransitionBatchImageJob_def IsTerminalBatchImageJobStatus_def allowed_transitions_def stage_def
      job_status_defs split: if_splits)

end
