(* ===== verification/Batch_Store.thy ===== *)
theory Batch_Store
  imports Batch_Job
begin

text \<open>
  The repository of batch image jobs on PostgreSQL (\<^verbatim>\<open>batchimage/postgres/job.go\<close>): the tables of jobs,
  items and events as lists of rows, and a script of faults. A statement outside a transaction, or a
  whole transaction, consumes one fault; an error inside it leaves the tables as they were. \<open>now\<close> is the
  instant a function reads from the clock. Amounts are stored as they are: the rounding of the decimal
  columns is not modelled.
\<close>

section \<open>Tables and statements\<close>

record job_store =
  js_jobs :: "BatchImageJob list"
  js_items :: "BatchImageItem list"
  js_events :: "(string \<times> string) list"
  js_nextID :: int
  js_faults :: "fault list"

definition atomically :: "(job_store \<Rightarrow> (batch_error + 'a) \<times> job_store) \<Rightarrow> job_store \<Rightarrow> (batch_error + 'a) \<times> job_store" where
  "atomically f db =
     (let rest = db\<lparr>js_faults := tl (js_faults db)\<rparr>
      in case js_faults db of
           Lost # _ \<Rightarrow> (Inl StoreFailed, rest)
         | Unconfirmed # _ \<Rightarrow> (Inl StoreFailed, case f rest of (Inl _, _) \<Rightarrow> rest | (Inr _, db') \<Rightarrow> db')
         | _ \<Rightarrow> (case f rest of (Inl e, _) \<Rightarrow> (Inl e, rest) | (Inr x, db') \<Rightarrow> (Inr x, db')))"

text \<open>\<^verbatim>\<open>if err != nil { return err }\<close>.\<close>

definition or_fail :: "(batch_error + 'a) \<times> 's \<Rightarrow> ('a \<Rightarrow> 's \<Rightarrow> (batch_error + 'b) \<times> 's) \<Rightarrow> (batch_error + 'b) \<times> 's" where
  "or_fail x f = (case x of (Inl e, db) \<Rightarrow> (Inl e, db) | (Inr a, db) \<Rightarrow> f a db)"

definition query :: "(job_store \<Rightarrow> 'a) \<Rightarrow> job_store \<Rightarrow> (batch_error + 'a) \<times> job_store" where
  "query f = atomically (\<lambda>db. (Inr (f db), db))"

text \<open>\<^verbatim>\<open>QueryRow ... Scan\<close>, with \<^verbatim>\<open>sql.ErrNoRows\<close> translated.\<close>

definition query_row :: "batch_error \<Rightarrow> (job_store \<Rightarrow> 'a option) \<Rightarrow> job_store \<Rightarrow> (batch_error + 'a) \<times> job_store" where
  "query_row notFound f =
     atomically (\<lambda>db. (case f db of None \<Rightarrow> Inl notFound | Some x \<Rightarrow> Inr x, db))"

definition set_jobs :: "(BatchImageJob \<Rightarrow> bool) \<Rightarrow> (BatchImageJob \<Rightarrow> BatchImageJob) \<Rightarrow> job_store \<Rightarrow> job_store" where
  "set_jobs cond upd db = db\<lparr>js_jobs := map (\<lambda>j. if cond j then upd j else j) (js_jobs db)\<rparr>"

definition count_jobs :: "(BatchImageJob \<Rightarrow> bool) \<Rightarrow> job_store \<Rightarrow> nat" where
  "count_jobs cond db = length (filter cond (js_jobs db))"

text \<open>\<^verbatim>\<open>UPDATE batch_image_jobs SET ... WHERE ...\<close> with the number of affected rows.\<close>

definition update_jobs ::
  "(BatchImageJob \<Rightarrow> bool) \<Rightarrow> (BatchImageJob \<Rightarrow> BatchImageJob) \<Rightarrow> job_store \<Rightarrow> (batch_error + nat) \<times> job_store" where
  "update_jobs cond upd = atomically (\<lambda>db. (Inr (count_jobs cond db), set_jobs cond upd db))"

definition with_id :: "string \<Rightarrow> BatchImageJob \<Rightarrow> bool" where
  "with_id batchID j \<longleftrightarrow> jb_BatchID j = batchID"

definition find_job :: "string \<Rightarrow> job_store \<Rightarrow> BatchImageJob option" where
  "find_job batchID db = find (with_id batchID) (js_jobs db)"

text \<open>\<^verbatim>\<open>CASE WHEN column IS NULL THEN x ELSE column END\<close> and \<^verbatim>\<open>NULLIF(x, '')\<close>.\<close>

definition keep_first :: "'a option \<Rightarrow> 'a option \<Rightarrow> 'a option" where
  "keep_first old new = (case old of None \<Rightarrow> new | Some x \<Rightarrow> Some x)"

definition nullif_empty :: "string \<Rightarrow> string option" where
  "nullif_empty s = (if s = [] then None else Some s)"

section \<open>Events\<close>

definition append_event :: "string \<Rightarrow> string \<Rightarrow> job_store \<Rightarrow> (batch_error + unit) \<times> job_store" where
  "append_event batchID eventType db =
     (if find_job batchID db = None then (Inl StoreFailed, db)
      else (Inr (), db\<lparr>js_events := js_events db @ [(batchID, eventType)]\<rparr>))"

definition AppendBatchImageEvent :: "string \<Rightarrow> string \<Rightarrow> job_store \<Rightarrow> (batch_error + unit) \<times> job_store" where
  "AppendBatchImageEvent batchID eventType = atomically (append_event batchID eventType)"

section \<open>Creation\<close>

text \<open>The row the insertion makes of its parameters.\<close>

definition inserted_job :: "instant \<Rightarrow> int \<Rightarrow> BatchImageJob \<Rightarrow> BatchImageJob" where
  "inserted_job now i params =
     params\<lparr>jb_ID := i,
       jb_RequestedModel := (let m = trim_space (jb_RequestedModel params) in if m = [] then jb_Model params else m),
       jb_InternalModel := (let m = trim_space (jb_InternalModel params) in if m = [] then jb_Model params else m),
       jb_AllowanceReserved := False, jb_Version := 0, jb_InputDeletedAt := None, jb_OutputDeletedAt := None, jb_DownloadedAt := None,
       jb_UserDeletedAt := None, jb_LastErrorCode := None, jb_LastErrorMessage := None, jb_CreatedAt := now,
       jb_UpdatedAt := now, jb_SubmittedAt := None, jb_StartedAt := None, jb_FinishedAt := None, jb_SettledAt := None\<rparr>"

definition manifest_taken :: "string \<Rightarrow> string option \<Rightarrow> job_store \<Rightarrow> bool" where
  "manifest_taken batchID hash db \<longleftrightarrow>
     (case hash of None \<Rightarrow> False
      | Some h \<Rightarrow> h \<noteq> [] \<and> (\<exists>j \<in> set (js_jobs db). jb_BatchID j \<noteq> batchID \<and> jb_ManifestHash j = Some h))"

definition createBatchImageJobWithSQL :: "instant \<Rightarrow> BatchImageJob \<Rightarrow> job_store \<Rightarrow> (batch_error + BatchImageJob) \<times> job_store" where
  "createBatchImageJobWithSQL now params db =
     (if find_job (jb_BatchID params) db \<noteq> None \<or> manifest_taken (jb_BatchID params) (jb_ManifestHash params) db
      then (Inl ErrBatchImageJobExists, db)
      else
        let j = inserted_job now (js_nextID db) params
        in (Inr j, db\<lparr>js_jobs := js_jobs db @ [j], js_nextID := js_nextID db + 1\<rparr>))"

definition CreateBatchImageJob ::
  "(string \<Rightarrow> string) \<Rightarrow> instant \<Rightarrow> string option \<Rightarrow> BatchImageJob \<Rightarrow> job_store \<Rightarrow> (batch_error + BatchImageJob) \<times> job_store" where
  "CreateBatchImageJob to_lower now freshID params db =
     (if \<not> IsSupportedBatchImageProvider (jb_Platform params) then (Inl ErrBatchImageInvalidProvider, db)
      else
        case (if jb_BatchID params = [] then freshID else Some (jb_BatchID params)) of
          None \<Rightarrow> (Inl (OtherFailure ''rand''), db)
        | Some batchID \<Rightarrow>
            let params = params\<lparr>jb_BatchID := batchID,
                  jb_Status := (if jb_Status params = [] then BatchImageJobStatusCreated else jb_Status params),
                  jb_BillingUserID := (if jb_BillingUserID params \<le> 0 then jb_UserID params else jb_BillingUserID params),
                  jb_Currency := (if jb_Currency params = [] then ''USD'' else jb_Currency params)\<rparr>
            in case NormalizeAPIKeyBillingMode to_lower (jb_BillingMode params) of
                 None \<Rightarrow> (Inl (OtherFailure ''ErrInvalidAPIKeyBillingMode''), db)
               | Some billingMode \<Rightarrow>
                   let params = params\<lparr>jb_BillingMode := billingMode\<rparr>;
                       preferred = jb_PreferredSubscriptionID params
                   in if billingMode \<noteq> ''subscription''
                      then atomically (createBatchImageJobWithSQL now (params\<lparr>jb_PreferredSubscriptionID := None\<rparr>)) db
                      else if (case preferred of None \<Rightarrow> True | Some i \<Rightarrow> i \<le> 0)
                      then (Inl (OtherFailure ''ErrPreferredSubscriptionRequired''), db)
                      else atomically (createBatchImageJobWithSQL now params) db)"

section \<open>Changes of a job\<close>

record BatchImageTransitionOptions =
  tr_EventType :: string
  tr_ErrorCode :: "string option"
  tr_ErrorMessage :: "string option"
  tr_Now :: "instant option"

definition transitioned :: "string \<Rightarrow> instant \<Rightarrow> BatchImageTransitionOptions \<Rightarrow> BatchImageJob \<Rightarrow> BatchImageJob" where
  "transitioned toStatus now opts j =
     j\<lparr>jb_Status := toStatus, jb_Version := jb_Version j + 1, jb_UpdatedAt := now,
       jb_LastErrorCode := (if toStatus = ''failed'' then tr_ErrorCode opts else jb_LastErrorCode j),
       jb_LastErrorMessage := (if toStatus = ''failed'' then tr_ErrorMessage opts else jb_LastErrorMessage j),
       jb_SubmittedAt := (if toStatus = ''submitted'' then keep_first (jb_SubmittedAt j) (Some now) else jb_SubmittedAt j),
       jb_StartedAt := (if toStatus = ''running'' then keep_first (jb_StartedAt j) (Some now) else jb_StartedAt j),
       jb_FinishedAt :=
         (if toStatus \<in> {''completed'', ''failed'', ''cancelled''} then keep_first (jb_FinishedAt j) (Some now)
          else jb_FinishedAt j),
       jb_SettledAt := (if toStatus = ''completed'' then keep_first (jb_SettledAt j) (Some now) else jb_SettledAt j),
       jb_OutputDeletedAt :=
         (if toStatus = ''output_deleted'' then keep_first (jb_OutputDeletedAt j) (Some now) else jb_OutputDeletedAt j)\<rparr>"

definition transitionBatchImageJobStatusWithSQL ::
  "instant \<Rightarrow> string \<Rightarrow> string \<Rightarrow> BatchImageTransitionOptions \<Rightarrow> job_store \<Rightarrow> (batch_error + unit) \<times> job_store" where
  "transitionBatchImageJobStatusWithSQL now batchID toStatus opts db =
     (case find_job batchID db of
        None \<Rightarrow> (Inl ErrBatchImageJobNotFound, db)
      | Some job \<Rightarrow>
          if \<not> CanTransitionBatchImageJob (jb_Status job) toStatus then (Inl ErrBatchImageInvalidTransition, db)
          else
            let now = (case tr_Now opts of None \<Rightarrow> now | Some t \<Rightarrow> t);
                db = set_jobs (with_id batchID) (transitioned toStatus now opts) db
            in if tr_EventType opts \<noteq> [] then append_event batchID (tr_EventType opts) db else (Inr (), db))"

definition TransitionBatchImageJobStatus ::
  "instant \<Rightarrow> string \<Rightarrow> string \<Rightarrow> BatchImageTransitionOptions \<Rightarrow> job_store \<Rightarrow> (batch_error + unit) \<times> job_store" where
  "TransitionBatchImageJobStatus now batchID toStatus opts =
     atomically (transitionBatchImageJobStatusWithSQL now batchID toStatus opts)"

definition TouchBatchImageJobSubmitting :: "instant \<Rightarrow> string \<Rightarrow> job_store \<Rightarrow> (batch_error + unit) \<times> job_store" where
  "TouchBatchImageJobSubmitting now batchID db =
     or_fail (update_jobs (\<lambda>j. with_id batchID j \<and> jb_Status j \<in> {''created'', ''uploading''}) (\<lambda>j. j\<lparr>jb_UpdatedAt := now\<rparr>) db)
       (\<lambda>_ db. (Inr (), db))"

text \<open>What makes a job one that recovery may give up.\<close>

definition stale_unsubmitted :: "instant \<Rightarrow> BatchImageJob \<Rightarrow> bool" where
  "stale_unsubmitted cutoff j \<longleftrightarrow>
     jb_Status j \<in> {''created'', ''uploading''} \<and> jb_ProviderJobName j = None \<and> jb_UpdatedAt j \<le> cutoff"

definition failed_with :: "instant \<Rightarrow> string \<Rightarrow> string \<Rightarrow> BatchImageJob \<Rightarrow> BatchImageJob" where
  "failed_with now code message j =
     j\<lparr>jb_Status := ''failed'', jb_LastErrorCode := Some code, jb_LastErrorMessage := Some message,
       jb_FinishedAt := keep_first (jb_FinishedAt j) (Some now), jb_UpdatedAt := now, jb_Version := jb_Version j + 1\<rparr>"

text \<open>Whether the job was given up, and an error, which may come from the event alone.\<close>

definition FailStaleUnsubmittedBatchImageJob ::
  "instant \<Rightarrow> string \<Rightarrow> instant \<Rightarrow> string \<Rightarrow> string \<Rightarrow> job_store \<Rightarrow> (bool \<times> batch_error option) \<times> job_store" where
  "FailStaleUnsubmittedBatchImageJob now batchID cutoff code message db =
     (case update_jobs (\<lambda>j. with_id batchID j \<and> stale_unsubmitted cutoff j) (failed_with now code message) db of
        (Inl e, db) \<Rightarrow> ((False, Some e), db)
      | (Inr affected, db) \<Rightarrow>
          if affected = 0 then ((False, None), db)
          else
            case AppendBatchImageEvent batchID ''billing_hold_recovery_failed_unsubmitted'' db of
              (Inl e, db) \<Rightarrow> ((True, Some e), db)
            | (Inr _, db) \<Rightarrow> ((True, None), db))"

text \<open>An update of one job that reports a missing one.\<close>

definition update_found ::
  "batch_error \<Rightarrow> (BatchImageJob \<Rightarrow> bool) \<Rightarrow> (BatchImageJob \<Rightarrow> BatchImageJob) \<Rightarrow> job_store \<Rightarrow> (batch_error + unit) \<times> job_store" where
  "update_found missing cond upd db =
     or_fail (update_jobs cond upd db) (\<lambda>affected db. (if affected = 0 then Inl missing else Inr (), db))"

definition UpdateBatchImageJobProviderOutputRef :: "instant \<Rightarrow> string \<Rightarrow> string \<Rightarrow> job_store \<Rightarrow> (batch_error + unit) \<times> job_store" where
  "UpdateBatchImageJobProviderOutputRef now batchID providerOutputRef =
     update_found ErrBatchImageJobNotFound (with_id batchID)
       (\<lambda>j. j\<lparr>jb_ProviderOutputRef := Some providerOutputRef, jb_UpdatedAt := now\<rparr>)"

record UpdateBatchImageJobProviderSubmitParams =
  ps_BatchID :: string
  ps_ProviderJobName :: string
  ps_ProviderInputRef :: string
  ps_ProviderOutputRef :: string
  ps_GCSInputURI :: string
  ps_GCSOutputURI :: string

definition submitted :: "instant \<Rightarrow> UpdateBatchImageJobProviderSubmitParams \<Rightarrow> BatchImageJob \<Rightarrow> BatchImageJob" where
  "submitted now params j =
     j\<lparr>jb_Status := ''submitted'', jb_ProviderJobName := Some (ps_ProviderJobName params),
       jb_ProviderInputRef := nullif_empty (ps_ProviderInputRef params),
       jb_ProviderOutputRef := nullif_empty (ps_ProviderOutputRef params),
       jb_GCSInputURI := nullif_empty (ps_GCSInputURI params), jb_GCSOutputURI := nullif_empty (ps_GCSOutputURI params),
       jb_SubmittedAt := keep_first (jb_SubmittedAt j) (Some now), jb_UpdatedAt := now, jb_Version := jb_Version j + 1\<rparr>"

definition updateBatchImageJobProviderSubmitWithSQL ::
  "instant \<Rightarrow> UpdateBatchImageJobProviderSubmitParams \<Rightarrow> job_store \<Rightarrow> (batch_error + unit) \<times> job_store" where
  "updateBatchImageJobProviderSubmitWithSQL now params db =
     (case find_job (ps_BatchID params) db of
        None \<Rightarrow> (Inl ErrBatchImageJobNotFound, db)
      | Some job \<Rightarrow>
          if \<not> CanTransitionBatchImageJob (jb_Status job) BatchImageJobStatusSubmitted
          then (Inl ErrBatchImageInvalidTransition, db)
          else append_event (ps_BatchID params) ''provider_submitted'' (set_jobs (with_id (ps_BatchID params)) (submitted now params) db))"

definition UpdateBatchImageJobProviderSubmit ::
  "instant \<Rightarrow> UpdateBatchImageJobProviderSubmitParams \<Rightarrow> job_store \<Rightarrow> (batch_error + unit) \<times> job_store" where
  "UpdateBatchImageJobProviderSubmit now params = atomically (updateBatchImageJobProviderSubmitWithSQL now params)"

definition submit_failure :: "instant \<Rightarrow> string \<Rightarrow> string \<Rightarrow> bool \<Rightarrow> BatchImageJob \<Rightarrow> BatchImageJob" where
  "submit_failure now code message markFailed j =
     (let status = (if markFailed then ''failed'' else jb_Status j)
      in j\<lparr>jb_Status := status, jb_LastErrorCode := Some code, jb_LastErrorMessage := Some message,
           jb_FinishedAt := (if status = ''failed'' then keep_first (jb_FinishedAt j) (Some now) else jb_FinishedAt j),
           jb_UpdatedAt := now, jb_Version := jb_Version j + 1\<rparr>)"

definition RecordBatchImageJobSubmitFailure ::
  "instant \<Rightarrow> string \<Rightarrow> string \<Rightarrow> string \<Rightarrow> bool \<Rightarrow> job_store \<Rightarrow> (batch_error + unit) \<times> job_store" where
  "RecordBatchImageJobSubmitFailure now batchID code message markFailed db =
     or_fail (update_jobs (with_id batchID) (submit_failure now code message markFailed) db)
       (\<lambda>_. AppendBatchImageEvent batchID (if \<not> markFailed then ''queue_failed'' else ''submit_failed''))"

record MarkBatchImageJobSettledParams =
  ms_BatchID :: string
  ms_ActualCost :: float64
  ms_ManifestHash :: string
  ms_Now :: "instant option"
  ms_OutputExpiresAt :: "instant option"

definition settled_job :: "instant \<Rightarrow> MarkBatchImageJobSettledParams \<Rightarrow> BatchImageJob \<Rightarrow> BatchImageJob" where
  "settled_job now params j =
     j\<lparr>jb_Status := ''completed'', jb_ActualCost := Some (ms_ActualCost params),
       jb_ManifestHash := Some (ms_ManifestHash params), jb_SettledAt := keep_first (jb_SettledAt j) (Some now),
       jb_FinishedAt := keep_first (jb_FinishedAt j) (Some now),
       jb_OutputExpiresAt := keep_first (jb_OutputExpiresAt j) (ms_OutputExpiresAt params),
       jb_UpdatedAt := now, jb_Version := jb_Version j + 1\<rparr>"

definition settleable :: "MarkBatchImageJobSettledParams \<Rightarrow> BatchImageJob \<Rightarrow> bool" where
  "settleable params j \<longleftrightarrow> jb_BatchID j = ms_BatchID params \<and> jb_Status j = ''settling'' \<and>
     (case jb_ManifestHash j of None \<Rightarrow> True | Some h \<Rightarrow> h = [] \<or> h = ms_ManifestHash params)"

definition markBatchImageJobSettledWithSQL ::
  "instant \<Rightarrow> MarkBatchImageJobSettledParams \<Rightarrow> job_store \<Rightarrow> (batch_error + unit) \<times> job_store" where
  "markBatchImageJobSettledWithSQL now params db =
     (let now = (case ms_Now params of None \<Rightarrow> now | Some t \<Rightarrow> t)
      in if count_jobs (settleable params) db = 0
         then case find_job (ms_BatchID params) db of
                None \<Rightarrow> (Inl ErrBatchImageJobNotFound, db)
              | Some job \<Rightarrow>
                  (Inl (if jb_Status job \<noteq> BatchImageJobStatusSettling
                        then if jb_Status job = BatchImageJobStatusCompleted then ErrBatchImageAlreadySettled
                             else ErrBatchImageSettlementInvalidStatus
                        else ErrBatchImageSettlementManifestConflict), db)
         else if manifest_taken (ms_BatchID params) (Some (ms_ManifestHash params)) db then (Inl StoreFailed, db)
         else append_event (ms_BatchID params) ''settlement_completed'' (set_jobs (settleable params) (settled_job now params) db))"

definition MarkBatchImageJobSettled :: "instant \<Rightarrow> MarkBatchImageJobSettledParams \<Rightarrow> job_store \<Rightarrow> (batch_error + unit) \<times> job_store" where
  "MarkBatchImageJobSettled now params = atomically (markBatchImageJobSettledWithSQL now params)"

definition failed_once_more :: "instant \<Rightarrow> string \<Rightarrow> string \<Rightarrow> BatchImageJob \<Rightarrow> BatchImageJob" where
  "failed_once_more now code message j =
     j\<lparr>jb_LastErrorCode := Some code, jb_LastErrorMessage := Some message, jb_RetryCount := jb_RetryCount j + 1,
       jb_UpdatedAt := now\<rparr>"

text \<open>The new retry count, which no caller reads when recording the event fails; the column is 32 bits wide, and an addition beyond it is an error.\<close>

definition SetBatchImageJobSettlementFailed ::
  "instant \<Rightarrow> string \<Rightarrow> string \<Rightarrow> string \<Rightarrow> job_store \<Rightarrow> (batch_error + int) \<times> job_store" where
  "SetBatchImageJobSettlementFailed now batchID code message db =
     or_fail
       (atomically (\<lambda>db.
          case find_job batchID db of
            None \<Rightarrow> (Inl ErrBatchImageJobNotFound, db)
          | Some j \<Rightarrow>
              if jb_RetryCount j + 1 \<ge> 2 ^ 31 then (Inl StoreFailed, db)
              else (Inr (jb_RetryCount j + 1), set_jobs (with_id batchID) (failed_once_more now code message) db)) db)
       (\<lambda>retryCount db. or_fail (AppendBatchImageEvent batchID ''settlement_failed'' db) (\<lambda>_ db. (Inr retryCount, db)))"

definition MarkBatchImageInputDeleted :: "string \<Rightarrow> instant \<Rightarrow> job_store \<Rightarrow> (batch_error + unit) \<times> job_store" where
  "MarkBatchImageInputDeleted batchID deletedAt db =
     or_fail
       (update_found ErrBatchImageJobNotFound (with_id batchID)
          (\<lambda>j. j\<lparr>jb_InputDeletedAt := keep_first (jb_InputDeletedAt j) (Some deletedAt), jb_UpdatedAt := deletedAt,
                jb_Version := jb_Version j + 1\<rparr>) db)
       (\<lambda>_. AppendBatchImageEvent batchID ''input_cleanup_completed'')"

definition output_deleted :: "instant \<Rightarrow> BatchImageJob \<Rightarrow> BatchImageJob" where
  "output_deleted deletedAt j =
     j\<lparr>jb_Status := (if jb_Status j = ''completed'' then ''output_deleted'' else jb_Status j),
       jb_OutputDeletedAt := keep_first (jb_OutputDeletedAt j) (Some deletedAt),
       jb_FinishedAt :=
         (if jb_Status j = ''completed'' then keep_first (jb_FinishedAt j) (Some deletedAt) else jb_FinishedAt j),
       jb_UpdatedAt := deletedAt, jb_Version := jb_Version j + 1\<rparr>"

definition MarkBatchImageOutputDeleted :: "string \<Rightarrow> instant \<Rightarrow> job_store \<Rightarrow> (batch_error + unit) \<times> job_store" where
  "MarkBatchImageOutputDeleted batchID deletedAt db =
     or_fail (update_found ErrBatchImageJobNotFound (with_id batchID) (output_deleted deletedAt) db)
       (\<lambda>_. AppendBatchImageEvent batchID ''output_cleanup_completed'')"

definition MarkBatchImageDownloaded :: "string \<Rightarrow> instant \<Rightarrow> job_store \<Rightarrow> (batch_error + unit) \<times> job_store" where
  "MarkBatchImageDownloaded batchID downloadedAt db =
     or_fail
       (update_found ErrBatchImageJobNotFound (with_id batchID)
          (\<lambda>j. j\<lparr>jb_DownloadedAt := keep_first (jb_DownloadedAt j) (Some downloadedAt), jb_UpdatedAt := downloadedAt\<rparr>) db)
       (\<lambda>_. AppendBatchImageEvent batchID ''download_completed'')"

definition MarkBatchImageJobUserDeleted :: "int \<Rightarrow> int \<Rightarrow> string \<Rightarrow> instant \<Rightarrow> job_store \<Rightarrow> (batch_error + unit) \<times> job_store" where
  "MarkBatchImageJobUserDeleted userID apiKeyID batchID deletedAt db =
     or_fail
       (update_found ErrBatchImageRecordDeleteNotReady
          (\<lambda>j. with_id batchID j \<and> jb_UserID j = userID \<and> jb_APIKeyID j = Some apiKeyID \<and> jb_UserDeletedAt j = None \<and>
              jb_Status j \<in> {''completed'', ''failed'', ''cancelled'', ''output_deleted''})
          (\<lambda>j. j\<lparr>jb_UserDeletedAt := keep_first (jb_UserDeletedAt j) (Some deletedAt), jb_UpdatedAt := deletedAt\<rparr>) db)
       (\<lambda>_. AppendBatchImageEvent batchID ''user_record_deleted'')"

definition SetBatchImageOutputExpiresAt :: "instant \<Rightarrow> string \<Rightarrow> instant \<Rightarrow> job_store \<Rightarrow> (batch_error + unit) \<times> job_store" where
  "SetBatchImageOutputExpiresAt now batchID expiresAt =
     update_found ErrBatchImageJobNotFound (with_id batchID)
       (\<lambda>j. j\<lparr>jb_OutputExpiresAt := keep_first (jb_OutputExpiresAt j) (Some expiresAt), jb_UpdatedAt := now\<rparr>)"

definition RecordBatchImageCleanupFailure ::
  "instant \<Rightarrow> string \<Rightarrow> string \<Rightarrow> string \<Rightarrow> job_store \<Rightarrow> (batch_error + unit) \<times> job_store" where
  "RecordBatchImageCleanupFailure now batchID code message db =
     or_fail
       (atomically (\<lambda>db.
          if \<exists>j \<in> set (js_jobs db). with_id batchID j \<and> jb_RetryCount j + 1 \<ge> 2 ^ 31 then (Inl StoreFailed, db)
          else (Inr (), set_jobs (with_id batchID) (failed_once_more now code message) db)) db)
       (\<lambda>_. AppendBatchImageEvent batchID ''output_cleanup_failed'')"

section \<open>Items\<close>

definition createBatchImageItemWithSQL :: "BatchImageItem \<Rightarrow> job_store \<Rightarrow> (batch_error + unit) \<times> job_store" where
  "createBatchImageItemWithSQL params db =
     (if \<exists>i \<in> set (js_items db). it_JobID i = it_JobID params \<and> it_CustomID i = it_CustomID params
      then (Inl ErrBatchImageItemExists, db)
      else if find_job (it_JobID params) db = None then (Inl StoreFailed, db)
      else (Inr (), db\<lparr>js_items := js_items db @ [params\<lparr>it_ID := js_nextID db\<rparr>], js_nextID := js_nextID db + 1\<rparr>))"

definition CreateBatchImageItem :: "BatchImageItem \<Rightarrow> job_store \<Rightarrow> (batch_error + unit) \<times> job_store" where
  "CreateBatchImageItem params = atomically (createBatchImageItemWithSQL params)"

fun create_items :: "BatchImageItem list \<Rightarrow> job_store \<Rightarrow> (batch_error + unit) \<times> job_store" where
  "create_items [] db = (Inr (), db)"
| "create_items (i # is) db = or_fail (createBatchImageItemWithSQL i db) (\<lambda>_. create_items is)"

definition BulkCreateBatchImageItems :: "BatchImageItem list \<Rightarrow> job_store \<Rightarrow> (batch_error + unit) \<times> job_store" where
  "BulkCreateBatchImageItems params db = (if params = [] then (Inr (), db) else atomically (create_items params) db)"

definition batchImageItemPromptPreviews :: "string \<Rightarrow> job_store \<Rightarrow> string \<rightharpoonup> string" where
  "batchImageItemPromptPreviews batchID db =
     map_of (rev [(it_CustomID i, the (it_PromptPreview i)). i \<leftarrow> js_items db, it_JobID i = batchID,
       it_PromptPreview i \<noteq> None \<and> it_PromptPreview i \<noteq> Some []])"

definition with_preview :: "(string \<rightharpoonup> string) \<Rightarrow> BatchImageItem \<Rightarrow> BatchImageItem" where
  "with_preview previews i =
     (if it_PromptPreview i = None then i\<lparr>it_PromptPreview := previews (it_CustomID i)\<rparr> else i)"

definition replaceBatchImageItemsForJobWithSQL ::
  "instant \<Rightarrow> string \<Rightarrow> BatchImageItem list \<Rightarrow> int \<times> int \<Rightarrow> job_store \<Rightarrow> (batch_error + unit) \<times> job_store" where
  "replaceBatchImageItemsForJobWithSQL now batchID items counts db =
     (case find_job batchID db of
        None \<Rightarrow> (Inl ErrBatchImageJobNotFound, db)
      | Some job \<Rightarrow>
          if jb_Status job \<noteq> BatchImageJobStatusIndexing then (Inl ErrBatchImageIndexStateConflict, db)
          else
            let promptPreviews = batchImageItemPromptPreviews batchID db;
                db = db\<lparr>js_items := filter (\<lambda>i. it_JobID i \<noteq> batchID) (js_items db)\<rparr>
            in or_fail (create_items (map (\<lambda>i. with_preview promptPreviews (i\<lparr>it_JobID := batchID\<rparr>)) items) db)
                 (\<lambda>_ db. (Inr (), set_jobs (with_id batchID)
                    (\<lambda>j. j\<lparr>jb_SuccessCount := fst counts, jb_FailCount := snd counts, jb_UpdatedAt := now\<rparr>) db)))"

definition ReplaceBatchImageItemsForJob ::
  "instant \<Rightarrow> string \<Rightarrow> BatchImageItem list \<Rightarrow> int \<times> int \<Rightarrow> job_store \<Rightarrow> (batch_error + unit) \<times> job_store" where
  "ReplaceBatchImageItemsForJob now batchID items counts =
     atomically (replaceBatchImageItemsForJobWithSQL now batchID items counts)"

section \<open>Queries\<close>

definition GetBatchImageJobByBatchID :: "string \<Rightarrow> job_store \<Rightarrow> (batch_error + BatchImageJob) \<times> job_store" where
  "GetBatchImageJobByBatchID batchID = query_row ErrBatchImageJobNotFound (find_job batchID)"

definition GetBatchImageJobByID :: "int \<Rightarrow> job_store \<Rightarrow> (batch_error + BatchImageJob) \<times> job_store" where
  "GetBatchImageJobByID i = query_row ErrBatchImageJobNotFound (\<lambda>db. find (\<lambda>j. jb_ID j = i) (js_jobs db))"

text \<open>\<^verbatim>\<open>ORDER BY ... LIMIT\<close> and \<^verbatim>\<open>OFFSET\<close>.\<close>

definition page :: "int \<Rightarrow> int \<Rightarrow> 'a list \<Rightarrow> 'a list" where
  "page limit offset xs = take (nat limit) (drop (nat offset) xs)"

definition clamp_limit :: "int \<Rightarrow> int \<Rightarrow> int \<Rightarrow> int" where
  "clamp_limit most standard limit = (if limit \<le> 0 \<or> limit > most then standard else limit)"

definition GetBatchImageJobByIdempotencyKey :: "int \<Rightarrow> int \<Rightarrow> string \<Rightarrow> job_store \<Rightarrow> (batch_error + BatchImageJob) \<times> job_store" where
  "GetBatchImageJobByIdempotencyKey userID apiKeyID key =
     query_row ErrBatchImageJobNotFound (\<lambda>db.
       case sort_key (\<lambda>j. - jb_ID j)
         (filter (\<lambda>j. jb_UserID j = userID \<and> jb_APIKeyID j = Some apiKeyID \<and> jb_IdempotencyKey j = Some key) (js_jobs db)) of
         [] \<Rightarrow> None | j # _ \<Rightarrow> Some j)"

definition GetBatchImageJobByBatchIDForOwner :: "int \<Rightarrow> int \<Rightarrow> string \<Rightarrow> job_store \<Rightarrow> (batch_error + BatchImageJob) \<times> job_store" where
  "GetBatchImageJobByBatchIDForOwner userID apiKeyID batchID =
     query_row ErrBatchImageJobNotFound (\<lambda>db.
       find (\<lambda>j. with_id batchID j \<and> jb_UserID j = userID \<and> jb_APIKeyID j = Some apiKeyID \<and> jb_UserDeletedAt j = None)
         (js_jobs db))"

record BatchImageJobFilter =
  jf_Status :: string
  jf_TaskNameLike :: string
  jf_Downloaded :: "bool option"
  jf_CreatedAfter :: "instant option"
  jf_CreatedBefore :: "instant option"
  jf_ExcludeDeleted :: bool
  jf_Limit :: int
  jf_Offset :: int

text \<open>\<open>ilike\<close> is the pattern match of the database.\<close>

definition job_matches :: "(string \<Rightarrow> string \<Rightarrow> bool) \<Rightarrow> BatchImageJobFilter \<Rightarrow> BatchImageJob \<Rightarrow> bool" where
  "job_matches ilike f j \<longleftrightarrow>
     (jf_ExcludeDeleted f \<longrightarrow> jb_UserDeletedAt j = None) \<and>
     (jf_Status f \<noteq> [] \<longrightarrow> jb_Status j = jf_Status f) \<and>
     (jf_TaskNameLike f \<noteq> [] \<longrightarrow> ilike (jb_TaskName j) (''%'' @ jf_TaskNameLike f @ ''%'')) \<and>
     (case jf_Downloaded f of None \<Rightarrow> True | Some b \<Rightarrow> b \<longleftrightarrow> jb_DownloadedAt j \<noteq> None) \<and>
     (case jf_CreatedAfter f of None \<Rightarrow> True | Some t \<Rightarrow> jb_CreatedAt j \<ge> t) \<and>
     (case jf_CreatedBefore f of None \<Rightarrow> True | Some t \<Rightarrow> jb_CreatedAt j < t)"

definition ListBatchImageJobsForOwner ::
  "(string \<Rightarrow> string \<Rightarrow> bool) \<Rightarrow> int \<Rightarrow> int \<Rightarrow> BatchImageJobFilter \<Rightarrow> job_store \<Rightarrow> (batch_error + BatchImageJob list) \<times> job_store" where
  "ListBatchImageJobsForOwner ilike userID apiKeyID f =
     query (\<lambda>db. page (clamp_limit 100 20 (jf_Limit f)) (if jf_Offset f < 0 then 0 else jf_Offset f)
       (sort_key (\<lambda>j. - jb_CreatedAt j) (sort_key (\<lambda>j. - jb_ID j)
         (filter (\<lambda>j. jb_UserID j = userID \<and> jb_APIKeyID j = Some apiKeyID \<and> job_matches ilike f j) (js_jobs db)))))"

definition ListBatchImageItems :: "string \<Rightarrow> string \<Rightarrow> int \<Rightarrow> int \<Rightarrow> job_store \<Rightarrow> (batch_error + BatchImageItem list) \<times> job_store" where
  "ListBatchImageItems batchID status limit offset =
     query (\<lambda>db. page (clamp_limit 500 100 limit) (if offset < 0 then 0 else offset)
       (sort_key it_ID (filter (\<lambda>i. it_JobID i = batchID \<and> (status \<noteq> [] \<longrightarrow> it_Status i = status)) (js_items db))))"

definition ListBatchImageItemsForOwner ::
  "int \<Rightarrow> int \<Rightarrow> string \<Rightarrow> string \<Rightarrow> int \<Rightarrow> int \<Rightarrow> job_store \<Rightarrow> (batch_error + BatchImageItem list) \<times> job_store" where
  "ListBatchImageItemsForOwner userID apiKeyID batchID status limit offset db =
     or_fail (GetBatchImageJobByBatchIDForOwner userID apiKeyID batchID db)
       (\<lambda>_. ListBatchImageItems batchID status limit offset)"

definition GetBatchImageItemForDownload :: "string \<Rightarrow> string \<Rightarrow> job_store \<Rightarrow> (batch_error + BatchImageItem) \<times> job_store" where
  "GetBatchImageItemForDownload batchID customID =
     query_row ErrBatchImageItemNotFound (\<lambda>db.
       find (\<lambda>i. it_JobID i = batchID \<and> it_CustomID i = customID) (js_items db))"

definition ListBatchImageItemsForDownload :: "string \<Rightarrow> string \<Rightarrow> int \<Rightarrow> job_store \<Rightarrow> (batch_error + BatchImageItem list) \<times> job_store" where
  "ListBatchImageItemsForDownload batchID status limit = ListBatchImageItems batchID status limit 0"

definition ListBatchImageJobsDueForInputCleanup :: "instant \<Rightarrow> int \<Rightarrow> job_store \<Rightarrow> (batch_error + BatchImageJob list) \<times> job_store" where
  "ListBatchImageJobsDueForInputCleanup cutoff limit =
     query (\<lambda>db. page (clamp_limit 1000 100 limit) 0 (sort_key jb_ID
       (filter (\<lambda>j. jb_InputDeletedAt j = None \<and> jb_ProviderInputRef j \<noteq> None \<and>
          jb_Status j \<in> {''completed'', ''failed'', ''cancelled'', ''output_deleted''} \<and>
          the (keep_first (jb_FinishedAt j) (keep_first (jb_SettledAt j) (Some (jb_UpdatedAt j)))) \<le> cutoff) (js_jobs db))))"

definition ListBatchImageJobsDueForOutputCleanup :: "instant \<Rightarrow> int \<Rightarrow> job_store \<Rightarrow> (batch_error + BatchImageJob list) \<times> job_store" where
  "ListBatchImageJobsDueForOutputCleanup now limit =
     query (\<lambda>db. page (clamp_limit 1000 100 limit) 0 (sort_key (\<lambda>j. the (jb_OutputExpiresAt j)) (sort_key jb_ID
       (filter (\<lambda>j. jb_OutputDeletedAt j = None \<and> jb_ProviderOutputRef j \<noteq> None \<and> jb_Status j = ''completed'' \<and>
          (case jb_OutputExpiresAt j of None \<Rightarrow> False | Some t \<Rightarrow> t \<le> now)) (js_jobs db)))))"

definition ListStaleUnsubmittedBatchImageJobs :: "instant \<Rightarrow> int \<Rightarrow> job_store \<Rightarrow> (batch_error + BatchImageJob list) \<times> job_store" where
  "ListStaleUnsubmittedBatchImageJobs cutoff limit =
     query (\<lambda>db. page (clamp_limit 1000 100 limit) 0 (sort_key jb_UpdatedAt (sort_key jb_ID
       (filter (\<lambda>j. stale_unsubmitted cutoff j \<and>
          (case jb_HoldAmount j of Some h \<Rightarrow> h | None \<Rightarrow> jb_EstimatedCost j) > 0) (js_jobs db)))))"

end
