(* ===== verification/Batch_Index.thy ===== *)
theory Batch_Index
  imports Batch_Store Json
begin

text \<open>
  The results of a batch image job (\<^verbatim>\<open>batchimage/processor.go\<close>, from \<open>ResultIndexer\<close> on): the provider's
  output, one JSON document per line, is parsed, reconciled with the submitted items and stored. Decoding
  of JSON, \<^verbatim>\<open>strings.ToLower\<close> and the conversion of a number to \<^verbatim>\<open>int64\<close> are parameters.
\<close>

section \<open>Access to a document\<close>

record 'n decoding =
  dc_unmarshal :: "string \<Rightarrow> 'n object option"
  dc_lower :: "string \<Rightarrow> string"
  dc_int :: "'n \<Rightarrow> int"

definition BatchImageMapString :: "'n decoding \<Rightarrow> 'n object \<Rightarrow> string \<Rightarrow> string" where
  "BatchImageMapString d m key =
     (case field key m of
        Some (JStr s) \<Rightarrow> trim_space s
      | Some (JNum x) \<Rightarrow> itoa (dc_int d x)
      | _ \<Rightarrow> [])"

text \<open>\<open>None\<close> is the value \<^verbatim>\<open>nil\<close>, a missing entry among them.\<close>

fun BatchImageNestedAny :: "'n json option \<Rightarrow> string list \<Rightarrow> 'n json option" where
  "BatchImageNestedAny current [] = current"
| "BatchImageNestedAny (Some (JObj m)) (key # keys) = BatchImageNestedAny (field key m) keys"
| "BatchImageNestedAny _ (key # keys) = None"

definition BatchImageNestedString :: "'n object \<Rightarrow> string list \<Rightarrow> string" where
  "BatchImageNestedString m keys =
     (case BatchImageNestedAny (Some (JObj m)) keys of Some (JStr s) \<Rightarrow> trim_space s | _ \<Rightarrow> [])"

fun FirstMap :: "'n json option list \<Rightarrow> 'n object option" where
  "FirstMap [] = None"
| "FirstMap (v # vs) = (case v of Some (JObj m) \<Rightarrow> Some m | _ \<Rightarrow> FirstMap vs)"

fun BatchImageFirstNonEmptyString :: "string list \<Rightarrow> string" where
  "BatchImageFirstNonEmptyString [] = []"
| "BatchImageFirstNonEmptyString (v # vs) =
     (if trim_space v \<noteq> [] then trim_space v else BatchImageFirstNonEmptyString vs)"

section \<open>Images and failures of a line\<close>

definition image_mime :: "'n decoding \<Rightarrow> 'n json \<Rightarrow> string option" where
  "image_mime d partRaw =
     (case partRaw of
        JObj part \<Rightarrow>
          (case FirstMap [field ''inlineData'' part, field ''inline_data'' part] of
             None \<Rightarrow> None
           | Some inline \<Rightarrow>
               (let data = trim_space (BatchImageMapString d inline ''data'');
                    mime = BatchImageFirstNonEmptyString
                      [BatchImageMapString d inline ''mimeType'', BatchImageMapString d inline ''mime_type'']
                in if data = [] \<or> \<not> prefix ''image/'' (dc_lower d (trim_space mime)) then None
                   else Some (trim_space mime)))
      | _ \<Rightarrow> None)"

definition candidate_parts :: "'n json \<Rightarrow> 'n json list" where
  "candidate_parts candidateRaw =
     (case candidateRaw of
        JObj candidate \<Rightarrow>
          (case BatchImageNestedAny (Some (JObj candidate)) [''content'', ''parts''] of Some (JArr parts) \<Rightarrow> parts | _ \<Rightarrow> [])
      | _ \<Rightarrow> [])"

text \<open>The count, and the first type that is not empty.\<close>

fun count_images :: "string list \<Rightarrow> int \<Rightarrow> string \<Rightarrow> int \<times> string" where
  "count_images [] count' firstMime = (count', firstMime)"
| "count_images (mime # mimes) count' firstMime =
     count_images mimes (count' + 1) (if firstMime = [] then mime else firstMime)"

definition BatchImageFindImagePartsInCandidates :: "'n decoding \<Rightarrow> 'n json option \<Rightarrow> int \<times> string" where
  "BatchImageFindImagePartsInCandidates d raw =
     (case raw of
        Some (JArr candidates) \<Rightarrow>
          count_images (List.map_filter (image_mime d) (concat (map candidate_parts candidates))) 0 []
      | _ \<Rightarrow> (0, []))"

definition BatchImageFindImageParts :: "'n decoding \<Rightarrow> 'n object \<Rightarrow> int \<times> string" where
  "BatchImageFindImageParts d obj =
     (let (count', mimeType) =
            BatchImageFindImagePartsInCandidates d (BatchImageNestedAny (Some (JObj obj)) [''response'', ''candidates''])
      in if count' > 0 then (count', mimeType)
         else BatchImageFindImagePartsInCandidates d (field ''candidates'' obj))"

definition BatchImageMapFailureCode :: "'n decoding \<Rightarrow> string \<Rightarrow> string \<Rightarrow> string" where
  "BatchImageMapFailureCode d code message =
     (let t = dc_lower d (trim_space (code @ '' '' @ message))
      in if \<exists>k \<in> set [''safety'', ''policy'', ''blocked'', ''prohibited'']. contains k t then ''SAFETY_BLOCKED''
         else if \<exists>k \<in> set [''invalid_argument'', ''invalid argument'', ''bad request'']. contains k t then ''INVALID_ARGUMENT''
         else if \<exists>k \<in> set [''quota'', ''rate'', ''resource_exhausted'', ''too many requests'']. contains k t
         then ''PROVIDER_RATE_LIMITED''
         else ''PROVIDER_ITEM_FAILED'')"

definition failure_of :: "'n decoding \<Rightarrow> 'n object \<Rightarrow> string \<times> string" where
  "failure_of d m =
     (let message = BatchImageFirstNonEmptyString [BatchImageMapString d m ''message'', BatchImageMapString d m ''details''];
          code = BatchImageFirstNonEmptyString [BatchImageMapString d m ''code'', BatchImageMapString d m ''status'']
      in (BatchImageMapFailureCode d code message, message))"

definition BatchImageFailureFromProviderFields :: "'n decoding \<Rightarrow> 'n object \<Rightarrow> (string \<times> string) option" where
  "BatchImageFailureFromProviderFields d obj =
     (case obj_field ''status'' obj of
        Some status \<Rightarrow> Some (failure_of d status)
      | None \<Rightarrow> map_option (failure_of d) (obj_field ''error'' obj))"

definition BatchImageFileExtension :: "'n decoding \<Rightarrow> string \<Rightarrow> string" where
  "BatchImageFileExtension d mimeType =
     (let m = dc_lower d (trim_space mimeType)
      in if m = ''image/png'' then ''png''
         else if m = ''image/jpeg'' \<or> m = ''image/jpg'' then ''jpg''
         else if m = ''image/webp'' then ''webp'' else [])"

definition BatchImageHasCandidates :: "'n object \<Rightarrow> bool" where
  "BatchImageHasCandidates obj \<longleftrightarrow> has_key ''candidates'' obj \<or>
     (case BatchImageNestedAny (Some (JObj obj)) [''response'', ''candidates''] of Some (JArr _) \<Rightarrow> True | _ \<Rightarrow> False)"

record ParsedBatchImageResult =
  pb_CustomID :: string
  pb_Succeeded :: bool
  pb_MimeType :: string
  pb_FileExtension :: string
  pb_ImageCount :: int
  pb_ErrorCode :: string
  pb_ErrorMessage :: string
  pb_SourceLineNumber :: int

definition failed_result :: "string \<Rightarrow> int \<Rightarrow> string \<Rightarrow> string \<Rightarrow> ParsedBatchImageResult" where
  "failed_result customID lineNumber code message =
     \<lparr>pb_CustomID = customID, pb_Succeeded = False, pb_MimeType = [], pb_FileExtension = [], pb_ImageCount = 0,
      pb_ErrorCode = code, pb_ErrorMessage = message, pb_SourceLineNumber = lineNumber\<rparr>"

definition ParseBatchImageResultLine :: "'n decoding \<Rightarrow> string \<Rightarrow> int \<Rightarrow> batch_error + ParsedBatchImageResult" where
  "ParseBatchImageResultLine d line lineNumber =
     (case dc_unmarshal d line of
        None \<Rightarrow> Inl ErrBatchImageIndexParseFailed
      | Some obj \<Rightarrow>
          let customID = BatchImageFirstNonEmptyString
                [BatchImageMapString d obj ''key'', BatchImageMapString d obj ''custom_id'',
                 BatchImageMapString d obj ''customId'', BatchImageNestedString obj [''request'', ''key'']]
          in if customID = [] then Inl ErrBatchImageIndexParseFailed
             else
               let (imageCount, mimeType) = BatchImageFindImageParts d obj
               in if imageCount > 0
                  then Inr \<lparr>pb_CustomID = customID, pb_Succeeded = True, pb_MimeType = mimeType,
                         pb_FileExtension = BatchImageFileExtension d mimeType, pb_ImageCount = imageCount,
                         pb_ErrorCode = [], pb_ErrorMessage = [], pb_SourceLineNumber = lineNumber\<rparr>
                  else
                    case BatchImageFailureFromProviderFields d obj of
                      Some (code, message) \<Rightarrow>
                        Inr (failed_result customID lineNumber code (TruncateBatchImageMessage message 1000))
                    | None \<Rightarrow>
                        if has_key ''response'' obj \<or> BatchImageHasCandidates obj
                        then Inr (failed_result customID lineNumber ''EMPTY_IMAGE_OUTPUT''
                               ''platform response contained no image output'')
                        else Inr (failed_result customID lineNumber ''PROVIDER_ITEM_FAILED''
                               ''platform result line contained no image output''))"

section \<open>Reading lines\<close>

text \<open>
  \<^verbatim>\<open>bufio.Scanner\<close> with lines of at most \<open>most\<close> bytes, their end included: the lines before the first that is
  too long, and how reading ended.
\<close>

datatype scan_error = TooLong | UnexpectedEOF | ReadFailed string

definition drop_cr :: "string \<Rightarrow> string" where
  "drop_cr l = (if l \<noteq> [] \<and> last l = CHR 0x0D then butlast l else l)"

definition scan_lines :: "nat \<Rightarrow> string \<Rightarrow> scan_error option \<Rightarrow> string list \<times> scan_error option" where
  "scan_lines most content readError =
     (let parts = split_on (CHR 0x0A) content;
          parts = (if last parts = [] then butlast parts else parts);
          short = takeWhile (\<lambda>l. length l < most) parts
      in (map drop_cr short, if length short < length parts then Some TooLong else readError))"

section \<open>The index\<close>

lemma query_items: "js_items (snd (query f db)) = js_items db" "js_jobs (snd (query f db)) = js_jobs db"
  by (auto simp: query_def atomically_def Let_def split: list.splits fault.splits)

lemma query_result: "fst (query f db) = Inr x \<Longrightarrow> x = f (db\<lparr>js_faults := tl (js_faults db)\<rparr>)"
  by (auto simp: query_def atomically_def Let_def split: list.splits fault.splits)

lemma items_page:
  assumes "ListBatchImageItems batchID [] 500 (int offset) db = (Inr xs, db')"
  shows "xs = take 500 (drop offset (sort_key it_ID (filter (\<lambda>i. it_JobID i = batchID) (js_items db))))"
    and "js_items db' = js_items db"
proof -
  let ?f = "\<lambda>db. take 500 (drop offset (sort_key it_ID (filter (\<lambda>i. it_JobID i = batchID) (js_items db))))"
  have q: "query ?f db = (Inr xs, db')"
    using assms by (simp add: ListBatchImageItems_def page_def clamp_limit_def)
  show "xs = ?f db" using query_result [of ?f db xs] q by simp
  show "js_items db' = js_items db" using query_items(1) [of ?f db] q by simp
qed

text \<open>The submitted items of a job, page by page.\<close>

function ListExpectedCustomIDs :: "string \<Rightarrow> nat \<Rightarrow> job_store \<Rightarrow> (batch_error + string list) \<times> job_store" where
  "ListExpectedCustomIDs batchID offset db =
     (case ListBatchImageItems batchID [] 500 (int offset) db of
        (Inl e, db') \<Rightarrow> (Inl e, db')
      | (Inr page', db') \<Rightarrow>
          if length page' < 500 then (Inr (map it_CustomID page'), db')
          else or_fail (ListExpectedCustomIDs batchID (offset + length page') db')
                 (\<lambda>rest db. (Inr (map it_CustomID page' @ rest), db)))"
  by pat_completeness auto

termination
proof (relation "measure (\<lambda>(b, offset, db). length (js_items db) - offset)")
  fix batchID offset db r db' xs
  assume a: "(r, db') = ListBatchImageItems batchID [] 500 (int offset) db" "r = Inr xs" "\<not> length xs < 500"
  let ?all = "sort_key it_ID (filter (\<lambda>i. it_JobID i = batchID) (js_items db))"
  have "xs = take 500 (drop offset ?all)" "js_items db' = js_items db"
    using items_page [of batchID offset db xs db'] a(1,2) by auto
  moreover have "length ?all \<le> length (js_items db)" by simp
  ultimately show "((batchID, offset + length xs, db'), batchID, offset, db)
      \<in> measure (\<lambda>(b, offset, db). length (js_items db) - offset)"
    using a(3) by (auto simp del: length_sort)
qed simp

declare ListExpectedCustomIDs.simps [simp del]

record BatchImageIndexResult =
  xr_SuccessCount :: int
  xr_FailCount :: int
  xr_TotalCount :: int

record indexing =
  ix_seen :: "string list"
  ix_unknown :: int
  ix_items :: "BatchImageItem list"
  ix_result :: BatchImageIndexResult

definition blank_item :: "string \<Rightarrow> string \<Rightarrow> string \<Rightarrow> instant \<Rightarrow> BatchImageItem" where
  "blank_item jobID customID sourceObject now =
     \<lparr>it_ID = 0, it_JobID = jobID, it_CustomID = customID, it_Status = BatchImageItemStatusFailed, it_RequestHash = None,
      it_PromptPreview = None, it_ProviderSourceObject = BatchImageOptionalStringPtr sourceObject,
      it_SourceLineNumber = None, it_SourceByteOffset = None, it_SourceByteLength = None, it_MimeType = None, it_FileExtension = None, it_ImageCount = 0, it_ErrorCode = None,
      it_ErrorMessage = None, it_BilledAmount = None, it_IndexedAt = Some now\<rparr>"

definition indexed_item :: "string \<Rightarrow> string \<Rightarrow> instant \<Rightarrow> ParsedBatchImageResult \<Rightarrow> BatchImageItem" where
  "indexed_item jobID sourceObject now parsed =
     (let item = (blank_item jobID (pb_CustomID parsed) sourceObject now)
            \<lparr>it_SourceLineNumber := Some (pb_SourceLineNumber parsed), it_ImageCount := pb_ImageCount parsed\<rparr>
      in if pb_Succeeded parsed
         then item\<lparr>it_Status := BatchImageItemStatusSuccess, it_MimeType := BatchImageOptionalStringPtr (pb_MimeType parsed),
                it_FileExtension := BatchImageOptionalStringPtr (pb_FileExtension parsed)\<rparr>
         else item\<lparr>it_ErrorCode := BatchImageOptionalStringPtr (pb_ErrorCode parsed),
                it_ErrorMessage := BatchImageOptionalStringPtr (pb_ErrorMessage parsed)\<rparr>)"

definition missing_item :: "string \<Rightarrow> string \<Rightarrow> instant \<Rightarrow> string \<Rightarrow> BatchImageItem" where
  "missing_item jobID sourceObject now customID =
     (blank_item jobID customID sourceObject now)\<lparr>it_ErrorCode := Some ''PROVIDER_RESULT_MISSING'',
        it_ErrorMessage := Some ''platform output did not include a result for this item''\<rparr>"

definition count_result :: "bool \<Rightarrow> BatchImageIndexResult \<Rightarrow> BatchImageIndexResult" where
  "count_result ok r =
     (if ok then r\<lparr>xr_SuccessCount := xr_SuccessCount r + 1, xr_TotalCount := xr_TotalCount r + 1\<rparr>
      else r\<lparr>xr_FailCount := xr_FailCount r + 1, xr_TotalCount := xr_TotalCount r + 1\<rparr>)"

text \<open>The loop over the lines; \<open>ended n\<close> says whether the context has ended when line \<open>n\<close> is taken up, from 1.\<close>

fun index_lines ::
  "'n decoding \<Rightarrow> (nat \<Rightarrow> bool) \<Rightarrow> string list \<Rightarrow> (ParsedBatchImageResult \<Rightarrow> BatchImageItem) \<Rightarrow> string list \<Rightarrow> nat \<Rightarrow> indexing
     \<Rightarrow> batch_error + indexing" where
  "index_lines d ended expected mk [] n st = Inr st"
| "index_lines d ended expected mk (l # ls) n st =
     (if ended (n + 1) then Inl (OtherFailure ''context'')
      else
        let line = trim_space l
        in if line = [] then index_lines d ended expected mk ls (n + 1) st
           else
             case ParseBatchImageResultLine d line (int n + 1) of
               Inl e \<Rightarrow> Inl e
             | Inr parsed \<Rightarrow>
                 if expected \<noteq> [] \<and> pb_CustomID parsed \<notin> set expected
                 then index_lines d ended expected mk ls (n + 1) (st\<lparr>ix_unknown := ix_unknown st + 1\<rparr>)
                 else if pb_CustomID parsed \<in> set (ix_seen st) then Inl ErrBatchImageDuplicateCustomID
                 else index_lines d ended expected mk ls (n + 1)
                   (st\<lparr>ix_seen := ix_seen st @ [pb_CustomID parsed], ix_items := ix_items st @ [mk parsed],
                       ix_result := count_result (pb_Succeeded parsed) (ix_result st)\<rparr>))"

text \<open>What the provider's output left out, as a set of identifiers in order.\<close>

definition missing_ids :: "string list \<Rightarrow> string list \<Rightarrow> string list" where
  "missing_ids expected seen = sort (remdups (filter (\<lambda>x. x \<notin> set seen) expected))"

definition source_object :: "BatchImageJob \<Rightarrow> string" where
  "source_object job =
     (let r = BatchImageDerefString (jb_ProviderOutputRef job)
      in if r = [] then BatchImageDerefString (jb_ProviderJobName job) else r)"

definition start_indexing :: indexing where
  "start_indexing = \<lparr>ix_seen = [], ix_unknown = 0, ix_items = [],
     ix_result = \<lparr>xr_SuccessCount = 0, xr_FailCount = 0, xr_TotalCount = 0\<rparr>\<rparr>"

text \<open>
  After the lines: what is missing becomes a failure, and the items are stored. Whether the output needed
  reconciling is recorded, and an error of that is ignored.
\<close>

definition store_index ::
  "instant \<Rightarrow> BatchImageJob \<Rightarrow> string list \<Rightarrow> indexing \<Rightarrow> job_store \<Rightarrow> (batch_error + BatchImageIndexResult) \<times> job_store" where
  "store_index now job expected st db =
     (let missingIDs = (if expected \<noteq> [] then missing_ids expected (ix_seen st) else []);
          items = ix_items st @ map (missing_item (jb_BatchID job) (source_object job) now) missingIDs;
          result = fold (\<lambda>_. count_result False) missingIDs (ix_result st)
      in if xr_TotalCount result = 0 then (Inl ErrBatchImageIndexNoResultLines, db)
         else
           let db = (if ix_unknown st > 0 \<or> missingIDs \<noteq> []
                 then snd (AppendBatchImageEvent (jb_BatchID job) ''index_reconciled'' db) else db)
           in or_fail (ReplaceBatchImageItemsForJob now (jb_BatchID job) items
                  (xr_SuccessCount result, xr_FailCount result) db)
                (\<lambda>_ db. (Inr result, db)))"

text \<open>\<open>opened\<close> is the output, as content and error of its reader, or the error of opening it.\<close>

definition Index ::
  "'n decoding \<Rightarrow> (nat \<Rightarrow> bool) \<Rightarrow> instant \<Rightarrow> (batch_error + string \<times> scan_error option) \<Rightarrow> BatchImageJob \<Rightarrow> job_store
     \<Rightarrow> (batch_error + BatchImageIndexResult) \<times> job_store" where
  "Index d ended now opened job db =
     or_fail (ListExpectedCustomIDs (jb_BatchID job) 0 db) (\<lambda>expected db.
       if ended 0 then (Inl (OtherFailure ''context''), db)
       else
         case opened of
           Inl _ \<Rightarrow> (Inl ErrBatchImageIndexOutputMissing, db)
         | Inr (content, readError) \<Rightarrow>
             (case scan_lines (16 * 1024 * 1024) content readError of
                (lines, scanError) \<Rightarrow>
                  (case index_lines d ended expected (indexed_item (jb_BatchID job) (source_object job) now) lines 0
                    start_indexing of
                     Inl e \<Rightarrow> (Inl e, db)
                   | Inr st \<Rightarrow>
                       (case scanError of
                          Some UnexpectedEOF \<Rightarrow> (Inl ErrBatchImageIndexParseFailed, db)
                        | Some TooLong \<Rightarrow> (Inl (OtherFailure ''bufio.Scanner: token too long''), db)
                        | Some (ReadFailed e) \<Rightarrow> (Inl (OtherFailure e), db)
                        | None \<Rightarrow> store_index now job expected st db))))"

end
