(* ===== verification/Batch_History.thy ===== *)
theory Batch_History
  imports Batch_Store
begin

text \<open>
  What sequences of calls of the job repository do to a job, under any faults: its state only moves along
  the state machine, and what a finished job was charged, its results and its identity upstream are fixed.
\<close>

section \<open>The calls that change the tables\<close>

datatype repo_op =
    OpCreate instant "string option" BatchImageJob
  | OpTransition instant string string BatchImageTransitionOptions
  | OpTouch instant string
  | OpFailStale instant string instant string string
  | OpOutputRef instant string string
  | OpSubmit instant UpdateBatchImageJobProviderSubmitParams
  | OpSubmitFailure instant string string string bool
  | OpSettled instant MarkBatchImageJobSettledParams
  | OpSettlementFailed instant string string string
  | OpInputDeleted string instant
  | OpOutputDeleted string instant
  | OpDownloaded string instant
  | OpUserDeleted int int string instant
  | OpExpires instant string instant
  | OpCleanupFailure instant string string string
  | OpItem BatchImageItem
  | OpItems "BatchImageItem list"
  | OpReplaceItems instant string "BatchImageItem list" "int \<times> int"
  | OpEvent string string

fun run_op :: "(string \<Rightarrow> string) \<Rightarrow> repo_op \<Rightarrow> job_store \<Rightarrow> job_store" where
  "run_op to_lower (OpCreate now i params) db = snd (CreateBatchImageJob to_lower now i params db)"
| "run_op to_lower (OpTransition now b s opts) db = snd (TransitionBatchImageJobStatus now b s opts db)"
| "run_op to_lower (OpTouch now b) db = snd (TouchBatchImageJobSubmitting now b db)"
| "run_op to_lower (OpFailStale now b cutoff c m) db = snd (FailStaleUnsubmittedBatchImageJob now b cutoff c m db)"
| "run_op to_lower (OpOutputRef now b s) db = snd (UpdateBatchImageJobProviderOutputRef now b s db)"
| "run_op to_lower (OpSubmit now params) db = snd (UpdateBatchImageJobProviderSubmit now params db)"
| "run_op to_lower (OpSubmitFailure now b c m f) db = snd (RecordBatchImageJobSubmitFailure now b c m f db)"
| "run_op to_lower (OpSettled now params) db = snd (MarkBatchImageJobSettled now params db)"
| "run_op to_lower (OpSettlementFailed now b c m) db = snd (SetBatchImageJobSettlementFailed now b c m db)"
| "run_op to_lower (OpInputDeleted b t) db = snd (MarkBatchImageInputDeleted b t db)"
| "run_op to_lower (OpOutputDeleted b t) db = snd (MarkBatchImageOutputDeleted b t db)"
| "run_op to_lower (OpDownloaded b t) db = snd (MarkBatchImageDownloaded b t db)"
| "run_op to_lower (OpUserDeleted u k b t) db = snd (MarkBatchImageJobUserDeleted u k b t db)"
| "run_op to_lower (OpExpires now b t) db = snd (SetBatchImageOutputExpiresAt now b t db)"
| "run_op to_lower (OpCleanupFailure now b c m) db = snd (RecordBatchImageCleanupFailure now b c m db)"
| "run_op to_lower (OpItem i) db = snd (CreateBatchImageItem i db)"
| "run_op to_lower (OpItems is) db = snd (BulkCreateBatchImageItems is db)"
| "run_op to_lower (OpReplaceItems now b is n) db = snd (ReplaceBatchImageItemsForJob now b is n db)"
| "run_op to_lower (OpEvent b s) db = snd (AppendBatchImageEvent b s db)"

definition run_ops :: "(string \<Rightarrow> string) \<Rightarrow> repo_op list \<Rightarrow> job_store \<Rightarrow> job_store" where
  "run_ops to_lower ops db = fold (run_op to_lower) ops db"

section \<open>How rows evolve\<close>

definition row_rel :: "(BatchImageJob \<Rightarrow> BatchImageJob \<Rightarrow> bool) \<Rightarrow> job_store \<Rightarrow> job_store \<Rightarrow> bool" where
  "row_rel R db db' \<longleftrightarrow>
     (\<forall>b j. find_job b db = Some j \<longrightarrow> (\<exists>j'. find_job b db' = Some j' \<and> R j j'))"

lemma row_relD: "row_rel R db db' \<Longrightarrow> find_job b db = Some j \<Longrightarrow> \<exists>j'. find_job b db' = Some j' \<and> R j j'"
  by (simp add: row_rel_def)

lemma row_rel_mono: "row_rel R db db' \<Longrightarrow> (\<And>j j'. R j j' \<Longrightarrow> R' j j') \<Longrightarrow> row_rel R' db db'"
  unfolding row_rel_def by blast

lemma row_rel_eq: "js_jobs db' = js_jobs db \<Longrightarrow> row_rel (=) db db'"
  by (simp add: row_rel_def find_job_def)

lemma row_rel_comp: "row_rel R db db' \<Longrightarrow> row_rel R' db' db'' \<Longrightarrow> row_rel (\<lambda>j j''. \<exists>j'. R j j' \<and> R' j' j'') db db''"
  unfolding row_rel_def by metis

lemma row_rel_then: "row_rel R db db' \<Longrightarrow> row_rel (=) db' db'' \<Longrightarrow> row_rel R db db''"
  unfolding row_rel_def by metis

lemma row_rel_fold:
  assumes "\<And>j. R j j" and "\<And>j j' j''. R j j' \<Longrightarrow> R j' j'' \<Longrightarrow> R j j''" and "\<And>x db. x \<in> set xs \<Longrightarrow> row_rel R db (f x db)"
  shows "row_rel R db (fold f xs db)"
  using assms(3)
proof (induction xs arbitrary: db)
  case Nil
  show ?case using row_rel_mono [OF row_rel_eq, of db db R] assms(1) by auto
next
  case (Cons x xs)
  have "row_rel R db (f x db)" "row_rel R (f x db) (fold f xs (f x db))" using Cons by auto
  from row_rel_comp [OF this] have "row_rel R db (fold f xs (f x db))"
    by (rule row_rel_mono) (use assms(2) in blast)
  then show ?case by simp
qed

text \<open>An update that does not change the identity of a job, of the rows with a property.\<close>

lemma find_job_set_jobs:
  assumes "\<And>j. jb_BatchID (upd j) = jb_BatchID j"
  shows "find_job b (set_jobs cond upd db) = map_option (\<lambda>j. if cond j then upd j else j) (find_job b db)"
proof -
  have "find (with_id b) (map (\<lambda>j. if cond j then upd j else j) js) = map_option (\<lambda>j. if cond j then upd j else j) (find (with_id b) js)" for js
    by (induction js) (auto simp: with_id_def assms)
  then show ?thesis by (simp add: find_job_def set_jobs_def)
qed

lemma row_rel_set_jobs:
  assumes "\<And>j. jb_BatchID (upd j) = jb_BatchID j"
    and "\<And>b j. find_job b db = Some j \<Longrightarrow> if cond j then R j (upd j) else R j j"
  shows "row_rel R db (set_jobs cond upd db)"
  unfolding row_rel_def find_job_set_jobs [OF assms(1)] using assms(2) by (auto split: if_splits)

lemma row_rel_atomically:
  assumes "\<And>j. R j j" and "\<And>db x db'. f db = (Inr x, db') \<Longrightarrow> row_rel R db db'"
  shows "row_rel R db (snd (atomically f db))"
proof -
  let ?rest = "db\<lparr>js_faults := tl (js_faults db)\<rparr>"
  have rest: "row_rel R db ?rest" using row_rel_mono [OF row_rel_eq, of ?rest db R] assms(1) by simp
  have "row_rel R db db'" if "f ?rest = (Inr x, db')" for x db'
    using assms(2) [OF that] by (simp add: row_rel_def find_job_def)
  with rest show ?thesis
    by (auto simp: atomically_def Let_def split: list.splits fault.splits prod.splits sum.splits)
qed

lemma append_event_jobs: "js_jobs (snd (append_event b e db)) = js_jobs db"
  by (simp add: append_event_def)

lemma row_rel_append_event: "append_event b e db = (x, db') \<Longrightarrow> row_rel (=) db db'"
  using append_event_jobs [of b e db] by (intro row_rel_eq) simp

lemma row_rel_event: "row_rel (=) db (snd (AppendBatchImageEvent b e db))"
  unfolding AppendBatchImageEvent_def
  by (rule row_rel_atomically) (auto dest: row_rel_append_event)

lemma row_rel_or_fail:
  assumes "row_rel R db (snd x)" and "\<And>a db. row_rel (=) db (snd (f a db))"
  shows "row_rel R db (snd (or_fail x f))"
  using assms row_rel_then [OF assms(1) assms(2)] by (auto simp: or_fail_def split: prod.splits sum.splits)

lemma row_rel_update_jobs:
  assumes "\<And>j. R j j" and "\<And>j. jb_BatchID (upd j) = jb_BatchID j" and "\<And>j. cond j \<Longrightarrow> R j (upd j)"
  shows "row_rel R db (snd (update_jobs cond upd db))"
  unfolding update_jobs_def
  by (rule row_rel_atomically) (auto intro!: row_rel_set_jobs assms)

lemma row_rel_update_found:
  assumes "\<And>j. R j j" and "\<And>j. jb_BatchID (upd j) = jb_BatchID j" and "\<And>j. cond j \<Longrightarrow> R j (upd j)"
  shows "row_rel R db (snd (update_found missing cond upd db))"
  unfolding update_found_def
  by (intro row_rel_or_fail row_rel_update_jobs assms) (auto intro: row_rel_eq)

lemma create_items_jobs: "js_jobs (snd (create_items is db)) = js_jobs db"
  by (induction "is" arbitrary: db)
    (auto simp: createBatchImageItemWithSQL_def or_fail_def split: sum.splits prod.splits if_splits)

section \<open>One call\<close>

definition evolves :: "BatchImageJob \<Rightarrow> BatchImageJob \<Rightarrow> bool" where
  "evolves j j' \<longleftrightarrow>
     (jb_Status j' = jb_Status j \<or> CanTransitionBatchImageJob (jb_Status j) (jb_Status j')) \<and>
     (jb_ProviderJobName j' = jb_ProviderJobName j \<or>
        jb_Status j' = BatchImageJobStatusSubmitted \<and> CanTransitionBatchImageJob (jb_Status j) BatchImageJobStatusSubmitted) \<and>
     (jb_ActualCost j' = jb_ActualCost j \<and> jb_ManifestHash j' = jb_ManifestHash j \<and> jb_SettledAt j' = jb_SettledAt j \<or>
        jb_Status j = BatchImageJobStatusSettling \<and> jb_Status j' = BatchImageJobStatusCompleted) \<and>
     (jb_SuccessCount j' = jb_SuccessCount j \<and> jb_FailCount j' = jb_FailCount j \<or> jb_Status j = BatchImageJobStatusIndexing)"

text \<open>What \<open>RecordBatchImageJobSubmitFailure\<close> does when it marks the job as failed, whatever its state.\<close>

definition forced_failure :: "BatchImageJob \<Rightarrow> BatchImageJob \<Rightarrow> bool" where
  "forced_failure j j' \<longleftrightarrow>
     jb_Status j' = BatchImageJobStatusFailed \<and> jb_ProviderJobName j' = jb_ProviderJobName j \<and>
     jb_ActualCost j' = jb_ActualCost j \<and> jb_ManifestHash j' = jb_ManifestHash j \<and> jb_SettledAt j' = jb_SettledAt j \<and>
     jb_SuccessCount j' = jb_SuccessCount j \<and> jb_FailCount j' = jb_FailCount j"

lemma evolves_refl [simp]: "evolves j j"
  by (simp add: evolves_def)

fun unguarded :: "repo_op \<Rightarrow> bool" where
  "unguarded (OpSubmitFailure _ _ _ _ markFailed) = markFailed"
| "unguarded _ = False"

lemma to_failed: "jb_Status j \<in> {''created'', ''uploading''} \<Longrightarrow> CanTransitionBatchImageJob (jb_Status j) ''failed''"
  by (auto simp: CanTransitionBatchImageJob_def IsTerminalBatchImageJobStatus_def job_status_defs)

lemma to_completed: "CanTransitionBatchImageJob s ''completed'' \<Longrightarrow> s = ''settling''"
  by (auto simp: CanTransitionBatchImageJob_def IsTerminalBatchImageJobStatus_def allowed_transitions_def job_status_defs
      split: if_splits)

lemma transition_evolves:
  "transitionBatchImageJobStatusWithSQL now b s opts db = (Inr x, db') \<Longrightarrow> row_rel evolves db db'"
proof -
  assume a: "transitionBatchImageJobStatusWithSQL now b s opts db = (Inr x, db')"
  then obtain job where job: "find_job b db = Some job" and can: "CanTransitionBatchImageJob (jb_Status job) s"
    by (auto simp: transitionBatchImageJobStatusWithSQL_def split: option.splits if_splits)
  let ?now = "case tr_Now opts of None \<Rightarrow> now | Some t \<Rightarrow> t"
  have "row_rel evolves db (set_jobs (with_id b) (transitioned s ?now opts) db)"
  proof (rule row_rel_set_jobs)
    fix b' j assume j: "find_job b' db = Some j"
    then have "with_id b' j" by (auto simp: find_job_def find_Some_iff)
    then have "with_id b j \<Longrightarrow> j = job" using j job by (simp add: with_id_def)
    then show "if with_id b j then evolves j (transitioned s ?now opts j) else evolves j j"
      using can to_completed by (auto simp: evolves_def transitioned_def job_status_defs)
  qed (simp add: transitioned_def)
  moreover have "row_rel (=) (set_jobs (with_id b) (transitioned s ?now opts) db) db'"
    using a job can append_event_jobs
    by (intro row_rel_eq) (auto simp: transitionBatchImageJobStatusWithSQL_def Let_def split: if_splits, metis snd_conv)
  ultimately show ?thesis by (rule row_rel_then)
qed

lemma submit_evolves:
  "updateBatchImageJobProviderSubmitWithSQL now params db = (Inr x, db') \<Longrightarrow> row_rel evolves db db'"
proof -
  let ?b = "ps_BatchID params"
  assume a: "updateBatchImageJobProviderSubmitWithSQL now params db = (Inr x, db')"
  then obtain job where job: "find_job ?b db = Some job"
    and can: "CanTransitionBatchImageJob (jb_Status job) BatchImageJobStatusSubmitted"
    and e: "append_event ?b ''provider_submitted'' (set_jobs (with_id ?b) (submitted now params) db) = (Inr x, db')"
    by (auto simp: updateBatchImageJobProviderSubmitWithSQL_def split: option.splits if_splits)
  have "row_rel evolves db (set_jobs (with_id ?b) (submitted now params) db)"
  proof (rule row_rel_set_jobs)
    fix b' j assume j: "find_job b' db = Some j"
    then have "with_id b' j" by (auto simp: find_job_def find_Some_iff)
    then have "with_id ?b j \<Longrightarrow> j = job" using j job by (simp add: with_id_def)
    then show "if with_id ?b j then evolves j (submitted now params j) else evolves j j"
      using can by (auto simp: evolves_def submitted_def job_status_defs)
  qed (simp add: submitted_def)
  then show ?thesis by (rule row_rel_then) (rule row_rel_append_event [OF e])
qed

lemma settled_evolves:
  "markBatchImageJobSettledWithSQL now params db = (Inr x, db') \<Longrightarrow> row_rel evolves db db'"
proof -
  let ?now = "case ms_Now params of None \<Rightarrow> now | Some t \<Rightarrow> t"
  assume a: "markBatchImageJobSettledWithSQL now params db = (Inr x, db')"
  then have e: "append_event (ms_BatchID params) ''settlement_completed'' (set_jobs (settleable params) (settled_job ?now params) db) = (Inr x, db')"
    by (auto simp: markBatchImageJobSettledWithSQL_def Let_def split: option.splits if_splits)
  have "CanTransitionBatchImageJob ''settling'' ''completed''" by code_simp
  then have "row_rel evolves db (set_jobs (settleable params) (settled_job ?now params) db)"
    by (intro row_rel_set_jobs) (auto simp: evolves_def settled_job_def settleable_def job_status_defs)
  then show ?thesis by (rule row_rel_then) (rule row_rel_append_event [OF e])
qed

lemma replace_evolves:
  "replaceBatchImageItemsForJobWithSQL now b is n db = (Inr x, db') \<Longrightarrow> row_rel evolves db db'"
proof -
  assume a: "replaceBatchImageItemsForJobWithSQL now b is n db = (Inr x, db')"
  let ?u = "\<lambda>j. j\<lparr>jb_SuccessCount := fst n, jb_FailCount := snd n, jb_UpdatedAt := now\<rparr>"
  let ?db = "db\<lparr>js_items := filter (\<lambda>i. it_JobID i \<noteq> b) (js_items db)\<rparr>"
  let ?is = "map (\<lambda>i. with_preview (batchImageItemPromptPreviews b db) (i\<lparr>it_JobID := b\<rparr>)) is"
  obtain job where job: "find_job b db = Some job" "jb_Status job = BatchImageJobStatusIndexing"
    using a by (auto simp: replaceBatchImageItemsForJobWithSQL_def split: option.splits if_splits)
  obtain d y where d: "create_items ?is ?db = (Inr y, d)" and db': "db' = set_jobs (with_id b) ?u d"
    using a job by (auto simp: replaceBatchImageItemsForJobWithSQL_def Let_def or_fail_def split: prod.splits sum.splits)
  have jobs: "js_jobs d = js_jobs db" using create_items_jobs [of ?is ?db] d by simp
  have "row_rel evolves d db'" unfolding db'
  proof (rule row_rel_set_jobs)
    fix b' j assume j: "find_job b' d = Some j"
    then have "with_id b' j" "find_job b' db = Some j" by (auto simp: find_job_def find_Some_iff jobs)
    then have "with_id b j \<Longrightarrow> j = job" using job(1) by (simp add: with_id_def)
    then show "if with_id b j then evolves j (?u j) else evolves j j"
      using job(2) by (auto simp: evolves_def)
  qed simp
  then show ?thesis by (simp add: row_rel_def find_job_def jobs)
qed

lemma find_append: "find P (xs @ ys) = (case find P xs of None \<Rightarrow> find P ys | Some x \<Rightarrow> Some x)"
  by (induction xs) auto

lemma create_evolves: "row_rel evolves db (snd (CreateBatchImageJob to_lower now i params db))"
proof -
  have "row_rel evolves db db'" if "createBatchImageJobWithSQL t p db = (Inr x, db')" for t p db x db'
    using that by (auto simp: createBatchImageJobWithSQL_def row_rel_def find_job_def Let_def find_append split: if_splits option.splits)
  then have "row_rel evolves db (snd (atomically (createBatchImageJobWithSQL t p) db))" for t p db
    by (intro row_rel_atomically) auto
  moreover have "row_rel evolves db db" using row_rel_mono [OF row_rel_eq, of db db evolves] by simp
  ultimately show ?thesis
    by (auto simp: CreateBatchImageJob_def Let_def split: option.splits if_splits)
qed

lemmas refl_rel = row_rel_mono [OF row_rel_eq [OF refl], of evolves]

lemma op_evolves:
  assumes "\<not> unguarded op'"
  shows "row_rel evolves db (run_op to_lower op' db)"
proof -
  note event = row_rel_event
  note upd = row_rel_update_jobs [where R = evolves, OF evolves_refl] row_rel_update_found [where R = evolves, OF evolves_refl]
  note at = row_rel_atomically [where R = evolves, OF evolves_refl]
  note thn = row_rel_or_fail [where R = evolves]
  show ?thesis
  proof (cases op')
    case (OpCreate now i params)
    then show ?thesis using create_evolves by simp
  next
    case (OpTransition now b s opts)
    then show ?thesis using transition_evolves by (auto simp: TransitionBatchImageJobStatus_def intro: at)
  next
    case (OpTouch now b)
    have "row_rel evolves db (snd (update_jobs (\<lambda>j. with_id b j \<and> jb_Status j \<in> {''created'', ''uploading''})
        (\<lambda>j. j\<lparr>jb_UpdatedAt := now\<rparr>) db))"
      by (rule upd(1)) (simp_all add: evolves_def)
    then show ?thesis by (simp add: OpTouch TouchBatchImageJobSubmitting_def thn row_rel_eq)
  next
    case (OpFailStale now b cutoff c m)
    let ?u = "update_jobs (\<lambda>j. with_id b j \<and> stale_unsubmitted cutoff j) (failed_with now c m) db"
    have u: "row_rel evolves db (snd ?u)"
      by (rule upd(1)) (auto simp: evolves_def failed_with_def stale_unsubmitted_def intro: to_failed)
    obtain x d where x: "?u = (x, d)" by force
    obtain y d' where y: "AppendBatchImageEvent b ''billing_hold_recovery_failed_unsubmitted'' d = (y, d')" by force
    have "row_rel evolves db d" "row_rel evolves db d'"
      using u row_rel_then [OF u event, of b "''billing_hold_recovery_failed_unsubmitted''"] x y by simp_all
    then show ?thesis using x y
      by (cases x; cases y) (simp_all add: OpFailStale FailStaleUnsubmittedBatchImageJob_def)
  next
    case (OpOutputRef now b s)
    show ?thesis unfolding OpOutputRef run_op.simps UpdateBatchImageJobProviderOutputRef_def
      by (rule upd(2)) (simp_all add: evolves_def)
  next
    case (OpSubmit now params)
    then show ?thesis using submit_evolves by (auto simp: UpdateBatchImageJobProviderSubmit_def intro: at)
  next
    case (OpSubmitFailure now b c m f)
    have "row_rel evolves db (snd (update_jobs (with_id b) (submit_failure now c m f) db))"
      by (rule upd(1)) (use assms OpSubmitFailure in \<open>simp_all add: evolves_def submit_failure_def Let_def\<close>)
    then show ?thesis by (simp add: OpSubmitFailure RecordBatchImageJobSubmitFailure_def thn event)
  next
    case (OpSettled now params)
    then show ?thesis using settled_evolves by (auto simp: MarkBatchImageJobSettled_def intro: at)
  next
    case (OpSettlementFailed now b c m)
    have f: "row_rel evolves d (set_jobs (with_id b) (failed_once_more now c m) d)" for d
      by (rule row_rel_set_jobs) (simp_all add: evolves_def failed_once_more_def)
    have e: "row_rel (=) d (snd (or_fail (AppendBatchImageEvent b ''settlement_failed'' d) (\<lambda>_ db. (Inr n, db))))" for d and n :: int
      by (rule row_rel_or_fail [OF event]) (simp add: row_rel_eq)
    show ?thesis
      unfolding OpSettlementFailed run_op.simps SetBatchImageJobSettlementFailed_def
      by (rule thn [OF at e]) (auto simp: f split: option.splits if_splits)
  next
    case (OpInputDeleted b t)
    show ?thesis unfolding OpInputDeleted run_op.simps MarkBatchImageInputDeleted_def
      by (rule thn [OF upd(2) event]) (simp_all add: evolves_def)
  next
    case (OpOutputDeleted b t)
    have c: "CanTransitionBatchImageJob ''completed'' ''output_deleted''" by code_simp
    show ?thesis unfolding OpOutputDeleted run_op.simps MarkBatchImageOutputDeleted_def
      by (rule thn [OF upd(2) event]) (simp_all add: evolves_def output_deleted_def c)
  next
    case (OpDownloaded b t)
    show ?thesis unfolding OpDownloaded run_op.simps MarkBatchImageDownloaded_def
      by (rule thn [OF upd(2) event]) (simp_all add: evolves_def)
  next
    case (OpUserDeleted u k b t)
    show ?thesis unfolding OpUserDeleted run_op.simps MarkBatchImageJobUserDeleted_def
      by (rule thn [OF upd(2) event]) (simp_all add: evolves_def)
  next
    case (OpExpires now b t)
    show ?thesis unfolding OpExpires run_op.simps SetBatchImageOutputExpiresAt_def
      by (rule upd(2)) (simp_all add: evolves_def)
  next
    case (OpCleanupFailure now b c m)
    have f: "row_rel evolves d (set_jobs (with_id b) (failed_once_more now c m) d)" for d
      by (rule row_rel_set_jobs) (simp_all add: evolves_def failed_once_more_def)
    show ?thesis
      unfolding OpCleanupFailure run_op.simps RecordBatchImageCleanupFailure_def
      by (rule thn [OF at event]) (auto simp: f split: if_splits)
  next
    case (OpItem i)
    have "row_rel evolves d d'" if "createBatchImageItemWithSQL i d = (Inr x, d')" for d x d'
      using that by (intro row_rel_mono [OF row_rel_eq]) (auto simp: createBatchImageItemWithSQL_def split: if_splits)
    then show ?thesis using OpItem by (auto simp: CreateBatchImageItem_def intro!: at)
  next
    case (OpItems is')
    have "row_rel evolves d d'" if "create_items is' d = (Inr x, d')" for d x d'
      using create_items_jobs [of is' d] that by (intro row_rel_mono [OF row_rel_eq]) auto
    then show ?thesis using OpItems by (auto simp: BulkCreateBatchImageItems_def intro!: at refl_rel)
  next
    case (OpReplaceItems now b is' n)
    show ?thesis unfolding OpReplaceItems run_op.simps ReplaceBatchImageItemsForJob_def
      by (rule at) (rule replace_evolves)
  next
    case (OpEvent b s)
    then show ?thesis using row_rel_mono [OF event, of evolves] by simp
  qed
qed

lemma forced_evolves:
  "row_rel (\<lambda>j j'. evolves j j' \<or> forced_failure j j') db (run_op to_lower op' db)"
proof (cases "unguarded op'")
  case False
  then show ?thesis by (rule row_rel_mono [OF op_evolves]) simp
next
  case True
  then obtain now b c m where o: "op' = OpSubmitFailure now b c m True" by (cases op') auto
  have "row_rel (\<lambda>j j'. evolves j j' \<or> forced_failure j j') db (snd (update_jobs (with_id b) (submit_failure now c m True) db))"
    by (rule row_rel_update_jobs) (auto simp: forced_failure_def submit_failure_def job_status_defs)
  then show ?thesis unfolding o by (auto simp: RecordBatchImageJobSubmitFailure_def intro!: row_rel_or_fail row_rel_event)
qed

section \<open>Histories\<close>

text \<open>
  C12: The repository keeps every job inside the state machine of the package: whatever calls are made on a
  job, in any order and with any statement lost or unconfirmed, its state at the end is reached from its
  state at the beginning by allowed transitions alone, so it never goes back. The one call excepted is the
  record of a failed submission that marks the job as failed.
\<close>

theorem repository_refines_state_machine:
  assumes "\<forall>op' \<in> set ops. \<not> unguarded op'" and "find_job b db = Some j"
  shows "\<exists>j'. find_job b (run_ops to_lower ops db) = Some j' \<and>
    CanTransitionBatchImageJob\<^sup>*\<^sup>* (jb_Status j) (jb_Status j') \<and> stage (jb_Status j) \<le> stage (jb_Status j')"
proof -
  let ?R = "\<lambda>j j'. CanTransitionBatchImageJob\<^sup>*\<^sup>* (jb_Status j) (jb_Status j') \<and> stage (jb_Status j) \<le> stage (jb_Status j')"
  have "row_rel ?R d (run_op to_lower op' d)" if "op' \<in> set ops" for op' d
  proof (rule row_rel_mono [OF op_evolves])
    show "\<not> unguarded op'" using assms(1) that by blast
    show "?R j j'" if "evolves j j'" for j j'
      using that transition_up [of "jb_Status j" "jb_Status j'"] by (auto simp: evolves_def)
  qed
  then have "row_rel ?R db (run_ops to_lower ops db)"
    unfolding run_ops_def by (intro row_rel_fold) auto
  then show ?thesis using assms(2) by (rule row_relD)
qed

definition same_outcome :: "BatchImageJob \<Rightarrow> BatchImageJob \<Rightarrow> bool" where
  "same_outcome j j' \<longleftrightarrow> jb_ActualCost j' = jb_ActualCost j \<and> jb_ManifestHash j' = jb_ManifestHash j \<and>
     jb_SettledAt j' = jb_SettledAt j \<and> jb_ProviderJobName j' = jb_ProviderJobName j \<and>
     jb_SuccessCount j' = jb_SuccessCount j \<and> jb_FailCount j' = jb_FailCount j"

lemma terminal_step:
  assumes "evolves j j' \<or> forced_failure j j'" and "IsTerminalBatchImageJobStatus (jb_Status j)"
  shows "IsTerminalBatchImageJobStatus (jb_Status j') \<and> same_outcome j j'"
proof -
  have "CanTransitionBatchImageJob s s' \<Longrightarrow> IsTerminalBatchImageJobStatus s \<Longrightarrow> s' = BatchImageJobStatusOutputDeleted" for s s'
    by (auto simp: CanTransitionBatchImageJob_def split: if_splits)
  with assms show ?thesis
    by (auto simp: evolves_def forced_failure_def same_outcome_def IsTerminalBatchImageJobStatus_def job_status_defs)
qed

text \<open>
  C13: A job that has ended stays ended: after any calls on it by anyone, with any faults, it is still
  completed, failed, cancelled or without output, and what it was charged, when it was settled, the hash of
  its results, their counts and its identity upstream are as they were.
\<close>

theorem finished_job_is_final:
  assumes "find_job b db = Some j" and "IsTerminalBatchImageJobStatus (jb_Status j)"
  shows "\<exists>j'. find_job b (run_ops to_lower ops db) = Some j' \<and> IsTerminalBatchImageJobStatus (jb_Status j') \<and> same_outcome j j'"
proof -
  let ?R = "\<lambda>j j'. IsTerminalBatchImageJobStatus (jb_Status j) \<longrightarrow>
    IsTerminalBatchImageJobStatus (jb_Status j') \<and> same_outcome j j'"
  have "row_rel ?R d (run_op to_lower op' d)" for op' d
    by (rule row_rel_mono [OF forced_evolves]) (use terminal_step in blast)
  then have "row_rel ?R db (run_ops to_lower ops db)"
    unfolding run_ops_def by (intro row_rel_fold) (auto simp: same_outcome_def)
  from row_relD [OF this assms(1)] assms(2) show ?thesis by blast
qed

section \<open>Concrete histories\<close>

definition sample_job :: BatchImageJob where
  "sample_job = \<lparr>
    jb_ID = 0, jb_BatchID = ''imgbatch_1'', jb_UserID = 1, jb_BillingUserID = 0, jb_TeamID = None,
    jb_APIKeyID = Some 1, jb_ProviderID = Some 1, jb_GroupID = None, jb_Platform = ''vertex'', jb_Model = [],
    jb_RequestedModel = [], jb_InternalModel = [], jb_BillingMode = [], jb_PreferredSubscriptionID = None,
    jb_TaskName = [], jb_ParentBatchID = None, jb_Status = BatchImageJobStatusUploading, jb_ProviderJobName = None,
    jb_ProviderInputRef = None, jb_ProviderOutputRef = None, jb_GCSInputURI = None, jb_GCSOutputURI = None,
    jb_ItemCount = 1, jb_SuccessCount = 0, jb_FailCount = 0, jb_CancelledCount = 0, jb_EstimatedCost = 1,
    jb_HoldAmount = None, jb_ActualCost = None, jb_BalanceHoldAmount = 0, jb_SubscriptionHoldAllocations = [],
    jb_SubscriptionRateMultiplier = 0, jb_BalanceRateMultiplier = 0, jb_PlanGroupRateEnabled = False,
    jb_AllowanceReserved = False, jb_BaseUnitPrice = 0, jb_GroupRateMultiplier = 0, jb_ProviderRateMultiplier = 0,
    jb_BatchDiscountMultiplier = 0, jb_HoldMultiplier = 0, jb_BillableUnitPrice = 0, jb_HoldUnitPrice = 0,
    jb_PricingSnapshotVersion = 0, jb_Currency = [], jb_HoldID = None, jb_IdempotencyKey = None,
    jb_RequestHash = None, jb_ManifestHash = None, jb_SessionID = None, jb_RetryCount = 0, jb_Version = 0,
    jb_OutputExpiresAt = None, jb_InputDeletedAt = None, jb_OutputDeletedAt = None, jb_DownloadedAt = None,
    jb_UserDeletedAt = None, jb_LastErrorCode = None, jb_LastErrorMessage = None, jb_CreatedAt = 0,
    jb_UpdatedAt = 0, jb_SubmittedAt = None, jb_StartedAt = None, jb_FinishedAt = None, jb_SettledAt = None\<rparr>"

definition sample_db :: job_store where
  "sample_db = \<lparr>js_jobs = [sample_job], js_items = [], js_events = [], js_nextID = 1, js_faults = []\<rparr>"

lemma sample_find: "find_job ''imgbatch_1'' sample_db = Some sample_job"
  by (simp add: find_job_def sample_db_def with_id_def sample_job_def)

definition no_options :: BatchImageTransitionOptions where
  "no_options = \<lparr>tr_EventType = [], tr_ErrorCode = None, tr_ErrorMessage = None, tr_Now = None\<rparr>"

lemma repository_refines_state_machine_witness:
  "\<exists>j'. find_job ''imgbatch_1'' (run_ops id [OpTransition 5 ''imgbatch_1'' ''cancelled'' no_options, OpTouch 6 ''imgbatch_1''] sample_db)
      = Some j' \<and> stage ''uploading'' \<le> stage (jb_Status j')"
  using repository_refines_state_machine [OF _ sample_find,
      where ops = "[OpTransition 5 ''imgbatch_1'' ''cancelled'' no_options, OpTouch 6 ''imgbatch_1'']" and to_lower = id]
  by (auto simp: sample_job_def BatchImageJobStatusUploading_def)

lemma finished_job_is_final_witness:
  "\<exists>j'. find_job ''imgbatch_1'' (run_ops id [OpSubmitFailure 5 ''imgbatch_1'' ''X'' ''x'' True]
      (sample_db\<lparr>js_jobs := [sample_job\<lparr>jb_Status := ''cancelled''\<rparr>]\<rparr>)) = Some j' \<and> jb_ProviderJobName j' = None"
proof -
  let ?j = "sample_job\<lparr>jb_Status := ''cancelled''\<rparr>"
  have f: "find_job ''imgbatch_1'' (sample_db\<lparr>js_jobs := [?j]\<rparr>) = Some ?j"
    by (simp add: find_job_def sample_db_def with_id_def sample_job_def)
  have t: "IsTerminalBatchImageJobStatus (jb_Status ?j)" by (simp add: IsTerminalBatchImageJobStatus_def job_status_defs)
  show ?thesis
    using finished_job_is_final [OF f t, where ops = "[OpSubmitFailure 5 ''imgbatch_1'' ''X'' ''x'' True]" and to_lower = id]
    by (auto simp: same_outcome_def sample_job_def)
qed

text \<open>Calls on a database that answers.\<close>

lemma find_updated: "find_job b db = Some j \<Longrightarrow> (\<And>j. jb_BatchID (upd j) = jb_BatchID j) \<Longrightarrow>
  find_job b (set_jobs (with_id b) upd db) = Some (upd j)"
  by (auto simp: find_job_set_jobs) (auto simp: find_job_def find_Some_iff)

lemma faultless: "js_faults db = [] \<Longrightarrow> atomically f db = (case f db of (Inl e, _) \<Rightarrow> (Inl e, db) | (Inr x, db') \<Rightarrow> (Inr x, db'))"
  by (cases db) (auto simp: atomically_def Let_def split: prod.splits sum.splits)

lemma find_after_event: "find_job b db = Some j \<Longrightarrow> find_job b (snd (AppendBatchImageEvent b' e db)) = Some j"
  using row_relD [OF row_rel_event] by fastforce

lemma submit_failure_applies:
  assumes "find_job b db = Some j" and "js_faults db = []"
  shows "find_job b (run_op to_lower (OpSubmitFailure t b code message f) db) = Some (submit_failure t code message f j)"
  using find_updated [OF assms(1), of "submit_failure t code message f"] assms(2)
  by (simp add: RecordBatchImageJobSubmitFailure_def update_jobs_def faultless or_fail_def find_after_event submit_failure_def
      Let_def)

lemma transition_applies:
  assumes "find_job b db = Some j" and "js_faults db = []" and "CanTransitionBatchImageJob (jb_Status j) s"
  shows "find_job b (run_op to_lower (OpTransition t b s opts) db) =
      Some (transitioned s (case tr_Now opts of None \<Rightarrow> t | Some t \<Rightarrow> t) opts j)"
    and "js_faults (run_op to_lower (OpTransition t b s opts) db) = []"
proof -
  let ?db = "set_jobs (with_id b) (transitioned s (case tr_Now opts of None \<Rightarrow> t | Some t \<Rightarrow> t) opts) db"
  have u: "find_job b ?db = Some (transitioned s (case tr_Now opts of None \<Rightarrow> t | Some t \<Rightarrow> t) opts j)"
    by (rule find_updated [OF assms(1)]) (simp add: transitioned_def)
  have f: "js_faults ?db = []" using assms(2) by (simp add: set_jobs_def)
  have e: "run_op to_lower (OpTransition t b s opts) db =
      (if tr_EventType opts = [] then ?db else ?db\<lparr>js_events := js_events ?db @ [(b, tr_EventType opts)]\<rparr>)"
    using assms u
    by (simp add: TransitionBatchImageJobStatus_def faultless transitionBatchImageJobStatusWithSQL_def Let_def append_event_def)
  show "find_job b (run_op to_lower (OpTransition t b s opts) db) =
      Some (transitioned s (case tr_Now opts of None \<Rightarrow> t | Some t \<Rightarrow> t) opts j)"
    unfolding e using u by (simp add: find_job_def)
  show "js_faults (run_op to_lower (OpTransition t b s opts) db) = []"
    unfolding e using f by simp
qed

text \<open>
  C40: The record of a failed submission ignores the state of the job. For every job that may be cancelled, in any
  database that answers: the call that cancels it makes it a cancelled job; when its submission, still running, then
  fails, the record of the failure makes it a failed job, a change that the state machine forbids.
\<close>

theorem submit_failure_overwrites_cancelled:
  assumes "find_job b db = Some j" and "js_faults db = []" and "CanTransitionBatchImageJob (jb_Status j) BatchImageJobStatusCancelled"
  shows "\<exists>cancelled failed.
    find_job b (run_op to_lower (OpTransition t b BatchImageJobStatusCancelled opts) db) = Some cancelled \<and>
    jb_Status cancelled = BatchImageJobStatusCancelled \<and>
    find_job b (run_ops to_lower [OpTransition t b BatchImageJobStatusCancelled opts,
      OpSubmitFailure t' b code message True] db) = Some failed \<and>
    jb_Status failed = BatchImageJobStatusFailed \<and> jb_LastErrorCode failed = Some code \<and>
    \<not> CanTransitionBatchImageJob (jb_Status cancelled) (jb_Status failed)"
proof -
  note cancelled = transition_applies [OF assms, of to_lower t opts]
  have "\<not> CanTransitionBatchImageJob BatchImageJobStatusCancelled BatchImageJobStatusFailed" by code_simp
  with cancelled submit_failure_applies [OF cancelled, of to_lower t' code message True] show ?thesis
    by (simp add: run_ops_def transitioned_def submit_failure_def job_status_defs)
qed

theorem submit_failure_overwrites_cancelled_witness:
  "\<exists>cancelled failed.
    find_job ''imgbatch_1'' (run_op id (OpTransition 5 ''imgbatch_1'' BatchImageJobStatusCancelled no_options) sample_db) = Some cancelled \<and>
    jb_Status cancelled = BatchImageJobStatusCancelled \<and>
    find_job ''imgbatch_1'' (run_ops id [OpTransition 5 ''imgbatch_1'' BatchImageJobStatusCancelled no_options,
      OpSubmitFailure 6 ''imgbatch_1'' ''PROVIDER_SUBMIT_FAILED'' ''timeout'' True] sample_db) = Some failed \<and>
    jb_Status failed = BatchImageJobStatusFailed"
proof -
  have f: "js_faults sample_db = []" by (simp add: sample_db_def)
  have c: "CanTransitionBatchImageJob (jb_Status sample_job) BatchImageJobStatusCancelled" by code_simp
  show ?thesis using submit_failure_overwrites_cancelled [OF sample_find f c] by blast
qed

end
