(* ===== verification/Batch_Reconcile.thy ===== *)
theory Batch_Reconcile
  imports Batch_Index Batch_History
begin

text \<open>
  The index of a job's results reconciles: every submitted item gets exactly one result, what the provider
  added is dropped, what it left out is a failure, and the counts of the job are those of its items.
\<close>

section \<open>The submitted items\<close>

definition job_items :: "string \<Rightarrow> job_store \<Rightarrow> BatchImageItem list" where
  "job_items batchID db = filter (\<lambda>i. it_JobID i = batchID) (js_items db)"

lemma drop_split: "take n (drop k xs) @ drop (k + n) xs = drop k xs"
  by (metis append_take_drop_id drop_drop add.commute)

lemma expected_ids_from:
  "fst (ListExpectedCustomIDs b n db) = Inr ids \<Longrightarrow> ids = map it_CustomID (drop n (sort_key it_ID (job_items b db)))"
proof (induction b n db arbitrary: ids rule: ListExpectedCustomIDs.induct)
  case (1 b n db)
  let ?all = "sort_key it_ID (job_items b db)"
  obtain r db' where p: "ListBatchImageItems b [] 500 (int n) db = (r, db')" by force
  show ?case
  proof (cases r)
    case (Inl e)
    with "1.prems" p show ?thesis by (simp add: ListExpectedCustomIDs.simps [of b n])
  next
    case (Inr xs)
    note pg = items_page [OF p [unfolded Inr]]
    have xs: "xs = take 500 (drop n ?all)" using pg(1) by (simp add: job_items_def)
    show ?thesis
    proof (cases "length xs < 500")
      case True
      then have "xs = drop n ?all" using xs by simp
      then show ?thesis using "1.prems" p Inr True by (simp add: ListExpectedCustomIDs.simps [of b n])
    next
      case False
      obtain rest db'' where rest: "ListExpectedCustomIDs b (n + length xs) db' = (Inr rest, db'')"
          and ids: "ids = map it_CustomID xs @ rest"
        using "1.prems" p Inr False
        by (auto simp: ListExpectedCustomIDs.simps [of b n] or_fail_def split: prod.splits sum.splits)
      have "length xs = 500" using False xs by simp
      moreover have "job_items b db' = job_items b db" using pg(2) by (simp add: job_items_def)
      ultimately have "rest = map it_CustomID (drop (n + 500) ?all)"
        using "1.IH" [OF p [symmetric] Inr False, of rest] rest by simp
      then show ?thesis using ids xs drop_split [of 500 n ?all] by (metis map_append)
    qed
  qed
qed

text \<open>
  Reading the submitted items page by page ends, and unless the database fails it yields every item of
  the job exactly once, in the order of their insertion, however many there are.
\<close>

theorem expected_ids_complete:
  "fst (ListExpectedCustomIDs batchID 0 db) = Inr ids \<Longrightarrow> ids = map it_CustomID (sort_key it_ID (job_items batchID db))"
  using expected_ids_from [of batchID 0 db ids] by simp

section \<open>The loop over the lines\<close>

definition successes :: "BatchImageItem list \<Rightarrow> int" where
  "successes is = int (length (filter (\<lambda>i. it_Status i = BatchImageItemStatusSuccess) is))"

lemma successes_simps [simp]:
  "successes [] = 0" "successes (xs @ ys) = successes xs + successes ys"
  "successes [i] = (if it_Status i = BatchImageItemStatusSuccess then 1 else 0)"
  by (simp_all add: successes_def)

definition tally :: "string \<Rightarrow> string list \<Rightarrow> indexing \<Rightarrow> bool" where
  "tally jobID expected st \<longleftrightarrow> (\<forall>i \<in> set (ix_items st). it_JobID i = jobID) \<and> distinct (ix_seen st) \<and> map it_CustomID (ix_items st) = ix_seen st \<and>
     (expected \<noteq> [] \<longrightarrow> set (ix_seen st) \<subseteq> set expected) \<and>
     xr_TotalCount (ix_result st) = int (length (ix_items st)) \<and> xr_SuccessCount (ix_result st) = successes (ix_items st) \<and>
     xr_FailCount (ix_result st) = xr_TotalCount (ix_result st) - xr_SuccessCount (ix_result st)"

lemma indexed_item_fields [simp]:
  "it_CustomID (indexed_item jobID src now p) = pb_CustomID p" "it_JobID (indexed_item jobID src now p) = jobID"
  "it_Status (indexed_item jobID src now p) = BatchImageItemStatusSuccess \<longleftrightarrow> pb_Succeeded p"
  by (simp_all add: indexed_item_def blank_item_def Let_def BatchImageItemStatusSuccess_def BatchImageItemStatusFailed_def)

lemma missing_item_fields [simp]:
  "it_CustomID (missing_item jobID src now x) = x" "it_JobID (missing_item jobID src now x) = jobID"
  "it_Status (missing_item jobID src now x) \<noteq> BatchImageItemStatusSuccess"
  by (simp_all add: missing_item_def blank_item_def BatchImageItemStatusSuccess_def BatchImageItemStatusFailed_def)

lemma index_lines_tally:
  "index_lines d ended expected (indexed_item jobID src now) ls n st = Inr st' \<Longrightarrow> tally jobID expected st \<Longrightarrow> tally jobID expected st'"
proof (induction ls arbitrary: n st)
  case (Cons l ls)
  note step = Cons.IH
  show ?case
  proof (cases "trim_space l = []")
    case True
    then show ?thesis using Cons by (auto split: if_splits)
  next
    case False
    obtain p where p: "ParseBatchImageResultLine d (trim_space l) (int n + 1) = Inr p"
      using Cons.prems(1) False by (auto split: if_splits sum.splits)
    show ?thesis
    proof (cases "expected \<noteq> [] \<and> pb_CustomID p \<notin> set expected")
      case True
      have "tally jobID expected (st\<lparr>ix_unknown := ix_unknown st + 1\<rparr>)" using Cons.prems(2) by (simp add: tally_def)
      then show ?thesis using step Cons.prems(1) False p True by (auto split: if_splits)
    next
      case known: False
      have "tally jobID expected (st\<lparr>ix_seen := ix_seen st @ [pb_CustomID p], ix_items := ix_items st @ [indexed_item jobID src now p],
            ix_result := count_result (pb_Succeeded p) (ix_result st)\<rparr>)" if "pb_CustomID p \<notin> set (ix_seen st)"
        using Cons.prems(2) known that by (auto simp: tally_def count_result_def)
      then show ?thesis using step Cons.prems(1) False p known by (auto split: if_splits)
    qed
  qed
qed simp

lemma count_missing:
  "xr_TotalCount (fold (\<lambda>_. count_result False) xs r) = xr_TotalCount r + int (length xs)"
  "xr_FailCount (fold (\<lambda>_. count_result False) xs r) = xr_FailCount r + int (length xs)"
  "xr_SuccessCount (fold (\<lambda>_. count_result False) xs r) = xr_SuccessCount r"
  by (induction xs arbitrary: r) (simp_all add: count_result_def)

section \<open>Storing the results\<close>

definition brief :: "BatchImageItem \<Rightarrow> string \<times> string \<times> string" where
  "brief i = (it_JobID i, it_CustomID i, it_Status i)"

lemma create_items_brief:
  "create_items is db = (Inr x, db') \<Longrightarrow> map brief (js_items db') = map brief (js_items db) @ map brief is"
proof (induction "is" arbitrary: db)
  case (Cons i "is")
  then obtain d where d: "createBatchImageItemWithSQL i db = (Inr (), d)" and r: "create_items is d = (Inr x, db')"
    by (auto simp: or_fail_def split: prod.splits sum.splits)
  have "map brief (js_items d) = map brief (js_items db) @ [brief i]"
    using d by (auto simp: createBatchImageItemWithSQL_def brief_def split: if_splits)
  then show ?case using Cons.IH [OF r] by simp
qed simp

lemma atomically_result:
  "atomically f db = (Inr x, db') \<Longrightarrow> f (db\<lparr>js_faults := tl (js_faults db)\<rparr>) = (Inr x, db')"
  by (auto simp: atomically_def Let_def split: list.splits fault.splits prod.splits sum.splits)

lemma replaced:
  assumes "ReplaceBatchImageItemsForJob now b items (s, f) db = (Inr x, db')" and "\<forall>i \<in> set items. it_JobID i = b"
  shows "map brief (job_items b db') = map brief items"
    and "\<exists>j. find_job b db' = Some j \<and> jb_SuccessCount j = s \<and> jb_FailCount j = f"
proof -
  let ?rest = "db\<lparr>js_faults := tl (js_faults db)\<rparr>"
  let ?u = "\<lambda>j. j\<lparr>jb_SuccessCount := s, jb_FailCount := f, jb_UpdatedAt := now\<rparr>"
  let ?d = "?rest\<lparr>js_items := filter (\<lambda>i. it_JobID i \<noteq> b) (js_items ?rest)\<rparr>"
  let ?is = "map (\<lambda>i. with_preview (batchImageItemPromptPreviews b ?rest) (i\<lparr>it_JobID := b\<rparr>)) items"
  have "replaceBatchImageItemsForJobWithSQL now b items (s, f) ?rest = (Inr x, db')"
    using assms(1) unfolding ReplaceBatchImageItemsForJob_def by (rule atomically_result)
  then obtain job d y where job: "find_job b ?rest = Some job" and d: "create_items ?is ?d = (Inr y, d)"
      and db': "db' = set_jobs (with_id b) ?u d"
    by (auto simp: replaceBatchImageItemsForJobWithSQL_def Let_def or_fail_def split: option.splits if_splits prod.splits sum.splits)
  have "brief (with_preview p (i\<lparr>it_JobID := b\<rparr>)) = (b, it_CustomID i, it_Status i)" for p i
    by (simp add: brief_def with_preview_def)
  then have is': "map brief ?is = map brief items" using assms(2) by (simp add: brief_def)
  have "map brief (js_items db') = map brief (filter (\<lambda>i. it_JobID i \<noteq> b) (js_items db)) @ map brief items"
    using create_items_brief [OF d] is' by (simp add: db' set_jobs_def)
  then have "filter (\<lambda>t. fst t = b) (map brief (js_items db')) = map brief items"
    using assms(2) by (auto simp: filter_map comp_def brief_def filter_empty_conv intro!: filter_True)
  then show "map brief (job_items b db') = map brief items"
    by (simp add: job_items_def filter_map comp_def brief_def)
  have "find_job b d = Some job" using create_items_jobs [of ?is ?d] d job by (simp add: find_job_def)
  then have "with_id b job" by (auto simp: find_job_def find_Some_iff)
  with \<open>find_job b d = Some job\<close> show "\<exists>j. find_job b db' = Some j \<and> jb_SuccessCount j = s \<and> jb_FailCount j = f"
    unfolding db' by (subst find_job_set_jobs) simp_all
qed

section \<open>The index as a whole\<close>

lemma index_parts:
  assumes "Index d ended now opened job db = (Inr result, db')"
  obtains expected st missing store where
    "fst (ListExpectedCustomIDs (jb_BatchID job) 0 db) = Inr expected" and "tally (jb_BatchID job) expected st"
    and "missing = (if expected \<noteq> [] then missing_ids expected (ix_seen st) else [])"
    and "result = fold (\<lambda>_. count_result False) missing (ix_result st)"
    and "ReplaceBatchImageItemsForJob now (jb_BatchID job)
      (ix_items st @ map (missing_item (jb_BatchID job) (source_object job) now) missing)
      (xr_SuccessCount result, xr_FailCount result) store = (Inr (), db')"
proof -
  let ?mk = "indexed_item (jb_BatchID job) (source_object job) now"
  obtain expected store where e: "ListExpectedCustomIDs (jb_BatchID job) 0 db = (Inr expected, store)"
    using assms by (auto simp: Index_def or_fail_def split: prod.splits sum.splits)
  obtain ls st where st: "index_lines d ended expected ?mk ls 0 start_indexing = Inr st"
    and s: "store_index now job expected st store = (Inr result, db')"
    using assms unfolding Index_def e or_fail_def
    by (auto split: if_splits sum.splits prod.splits option.splits scan_error.splits)
  have init: "tally (jb_BatchID job) expected start_indexing" by (simp add: tally_def start_indexing_def)
  define missing where "missing = (if expected \<noteq> [] then missing_ids expected (ix_seen st) else [])"
  define r where "r = fold (\<lambda>_. count_result False) missing (ix_result st)"
  define store' where "store' = (if ix_unknown st > 0 \<or> missing \<noteq> []
    then snd (AppendBatchImageEvent (jb_BatchID job) ''index_reconciled'' store) else store)"
  define replace where "replace = ReplaceBatchImageItemsForJob now (jb_BatchID job)
    (ix_items st @ map (missing_item (jb_BatchID job) (source_object job) now) missing) (xr_SuccessCount r, xr_FailCount r) store'"
  have "store_index now job expected st store =
      (if xr_TotalCount r = 0 then (Inl ErrBatchImageIndexNoResultLines, store) else or_fail replace (\<lambda>_ db. (Inr r, db)))"
    unfolding store_index_def Let_def missing_def [symmetric] r_def [symmetric] store'_def [symmetric] replace_def [symmetric]
    by (rule refl)
  then have res: "result = r" "replace = (Inr (), db')"
    using s by (auto simp: or_fail_def split: if_splits prod.splits sum.splits)
  show thesis
    by (rule that [OF _ index_lines_tally [OF st init] missing_def])
      (use e res in \<open>simp_all add: r_def replace_def\<close>)
qed

text \<open>
  C11: Whatever the provider's output contains, when indexing a job succeeds, its items are exactly the
  submitted ones, one result for each, and the counts written to the job are right: as many successes as
  items with an image, all others failures, together the number of submitted items. So a settlement cannot
  charge for items nobody submitted.
\<close>

theorem index_reconciles:
  assumes i: "Index d ended now opened job db = (Inr result, db')" and some: "job_items (jb_BatchID job) db \<noteq> []"
  defines "asked \<equiv> it_CustomID ` set (job_items (jb_BatchID job) db)"
    and "stored \<equiv> job_items (jb_BatchID job) db'"
  shows "distinct (map it_CustomID stored) \<and> it_CustomID ` set stored = asked \<and>
    xr_SuccessCount result = successes stored \<and>
    xr_SuccessCount result + xr_FailCount result = int (card asked) \<and>
    (\<exists>j. find_job (jb_BatchID job) db' = Some j \<and>
      jb_SuccessCount j = xr_SuccessCount result \<and> jb_FailCount j = xr_FailCount result)"
proof -
  from i obtain expected st missing store where
    e: "fst (ListExpectedCustomIDs (jb_BatchID job) 0 db) = Inr expected" and t: "tally (jb_BatchID job) expected st"
    and m: "missing = (if expected \<noteq> [] then missing_ids expected (ix_seen st) else [])"
    and r: "result = fold (\<lambda>_. count_result False) missing (ix_result st)"
    and rep: "ReplaceBatchImageItemsForJob now (jb_BatchID job) (ix_items st @ map (missing_item (jb_BatchID job) (source_object job) now) missing)
      (xr_SuccessCount result, xr_FailCount result) store = (Inr (), db')"
    by (rule index_parts)
  let ?items = "ix_items st @ map (missing_item (jb_BatchID job) (source_object job) now) missing"
  have ids: "expected = map it_CustomID (sort_key it_ID (job_items (jb_BatchID job) db))"
    using e by (rule expected_ids_complete)
  then have E: "set expected = asked" by (simp add: asked_def)
  then have ne: "expected \<noteq> []" using some by (auto simp: asked_def)
  have miss: "distinct missing" "set missing = set expected - set (ix_seen st)"
    using m ne by (auto simp: missing_ids_def)
  have custom: "map it_CustomID ?items = ix_seen st @ missing"
    using t by (simp add: tally_def comp_def)
  have d: "distinct (map it_CustomID ?items)" "set (map it_CustomID ?items) = asked"
    using t miss E ne unfolding custom by (auto simp: tally_def)
  have "\<forall>i \<in> set ?items. it_JobID i = jb_BatchID job" using t by (auto simp: tally_def)
  note st = replaced [OF rep this]
  have c: "map it_CustomID stored = map it_CustomID ?items" and s: "map it_Status stored = map it_Status ?items"
    using arg_cong [OF st(1), of "map (\<lambda>t. fst (snd t))"] arg_cong [OF st(1), of "map (\<lambda>t. snd (snd t))"]
    by (simp_all add: stored_def brief_def comp_def)
  have "successes stored = successes ?items"
  proof -
    have "successes xs = int (length (filter ((=) BatchImageItemStatusSuccess) (map it_Status xs)))" for xs
      by (simp add: successes_def filter_map comp_def eq_commute)
    then show ?thesis using s by metis
  qed
  also have "successes (map (missing_item (jb_BatchID job) (source_object job) now) missing) = 0"
    by (simp add: successes_def filter_empty_conv)
  then have "successes ?items = xr_SuccessCount result"
    using t r by (simp add: tally_def count_missing)
  finally have succ: "xr_SuccessCount result = successes stored" by simp
  have "length ?items = card asked"
    using d distinct_card [OF d(1)] by simp
  then have "xr_SuccessCount result + xr_FailCount result = int (card asked)"
    using t r by (simp add: tally_def count_missing)
  moreover have "set (map it_CustomID stored) = asked" "distinct (map it_CustomID stored)" using c d by metis+
  ultimately show ?thesis using succ st(2) by simp
qed

section \<open>A concrete job\<close>

text \<open>Two submitted items; the output has an image for the second and a line for an item nobody asked for.\<close>

definition sample_decoding :: "int decoding" where
  "sample_decoding = \<lparr>
     dc_unmarshal = (\<lambda>line. Some
       [(''key'', JStr line),
        (''candidates'', JArr [JObj [(''content'', JObj [(''parts'', JArr [JObj [(''inlineData'',
           JObj [(''data'', JStr ''AA''), (''mimeType'', JStr ''image/png'')])]])])]])]),
     dc_lower = id, dc_int = id\<rparr>"

definition sample_indexing_job :: BatchImageJob where
  "sample_indexing_job = sample_job\<lparr>jb_Status := BatchImageJobStatusIndexing, jb_ItemCount := 2\<rparr>"

definition sample_items_db :: job_store where
  "sample_items_db = sample_db\<lparr>js_jobs := [sample_indexing_job],
     js_items := [(blank_item ''imgbatch_1'' ''a'' [] 0)\<lparr>it_ID := 1\<rparr>, (blank_item ''imgbatch_1'' ''b'' [] 0)\<lparr>it_ID := 2\<rparr>],
     js_nextID := 3\<rparr>"

definition sample_output :: string where
  "sample_output = ''b'' @ [CHR 0x0D, CHR 0x0A, CHR 0x0A] @ ''z'' @ [CHR 0x0A]"

lemma sample_lines: "scan_lines 16777216 sample_output None = ([''b'', [], ''z''], None)"
  by (simp add: scan_lines_def sample_output_def drop_cr_def Let_def)

lemma sample_expected: "ListExpectedCustomIDs ''imgbatch_1'' 0 sample_items_db = (Inr [''a'', ''b''], sample_items_db)"
  by (simp add: ListExpectedCustomIDs.simps [of "''imgbatch_1''" 0] ListBatchImageItems_def query_def atomically_def page_def
    clamp_limit_def sample_items_db_def sample_db_def blank_item_def sort_key_def)

definition sample_indexed :: indexing where
  "sample_indexed = \<lparr>ix_seen = [''b''], ix_unknown = 1,
     ix_items = [indexed_item ''imgbatch_1'' [] 7 \<lparr>pb_CustomID = ''b'', pb_Succeeded = True, pb_MimeType = ''image/png'',
       pb_FileExtension = ''png'', pb_ImageCount = 1, pb_ErrorCode = [], pb_ErrorMessage = [], pb_SourceLineNumber = 1\<rparr>],
     ix_result = \<lparr>xr_SuccessCount = 1, xr_FailCount = 0, xr_TotalCount = 1\<rparr>\<rparr>"

lemma sample_indexed_lines:
  "index_lines sample_decoding (\<lambda>_. False) [''a'', ''b''] (indexed_item ''imgbatch_1'' [] 7) [''b'', [], ''z''] 0 start_indexing
     = Inr sample_indexed"
  by code_simp

lemma sample_stored:
  "fst (store_index 7 sample_indexing_job [''a'', ''b''] sample_indexed sample_items_db)
     = Inr \<lparr>xr_SuccessCount = 1, xr_FailCount = 1, xr_TotalCount = 2\<rparr>"
  by code_simp

lemma sample_index:
  "fst (Index sample_decoding (\<lambda>_. False) 7 (Inr (sample_output, None)) sample_indexing_job sample_items_db)
     = Inr \<lparr>xr_SuccessCount = 1, xr_FailCount = 1, xr_TotalCount = 2\<rparr>"
proof -
  have "jb_BatchID sample_indexing_job = ''imgbatch_1''" "source_object sample_indexing_job = []" by code_simp+
  then show ?thesis
    using sample_stored by (simp add: Index_def sample_expected sample_lines sample_indexed_lines or_fail_def del: index_lines.simps)
qed

lemma expected_ids_complete_witness:
  "map it_CustomID (sort_key it_ID (job_items ''imgbatch_1'' sample_items_db)) = [''a'', ''b'']"
  by (rule expected_ids_complete [symmetric]) (simp add: sample_expected)

lemma index_reconciles_witness:
  "\<exists>db'. successes (job_items ''imgbatch_1'' db') = 1 \<and>
     it_CustomID ` set (job_items ''imgbatch_1'' db') = it_CustomID ` set (job_items ''imgbatch_1'' sample_items_db)"
proof -
  obtain db' where i: "Index sample_decoding (\<lambda>_. False) 7 (Inr (sample_output, None)) sample_indexing_job sample_items_db
      = (Inr \<lparr>xr_SuccessCount = 1, xr_FailCount = 1, xr_TotalCount = 2\<rparr>, db')"
    using sample_index by (metis prod.collapse)
  have b: "jb_BatchID sample_indexing_job = ''imgbatch_1''" by code_simp
  have "job_items (jb_BatchID sample_indexing_job) sample_items_db \<noteq> []"
    by (simp add: b job_items_def sample_items_db_def blank_item_def)
  from index_reconciles [OF i this] show ?thesis unfolding b by auto
qed

end
