(* ===== verification/Bill_Sample.thy ===== *)
theory Bill_Sample
  imports Bill_Rules "HOL-Library.Code_Target_Nat"
begin

text \<open>A concrete setting of the funds: a calendar in UTC, amounts of eight decimals, a task and a subscription.\<close>

definition utc_day :: "instant \<Rightarrow> instant" where
  "utc_day t = t - t mod (24 * hour)"

definition eight_decimals :: "float64 \<Rightarrow> rat" where
  "eight_decimals x = of_int (round_even (x * 10 ^ 8)) / 10 ^ 8"

lemma eight_decimals_nonneg: "0 \<le> x \<Longrightarrow> 0 \<le> eight_decimals x"
proof -
  assume "0 \<le> x"
  then have "0 \<le> \<lfloor>x * 10 ^ 8\<rfloor>" by simp
  then have "0 \<le> round_even (x * 10 ^ 8)" using round_even_bounds(1) by (rule order_trans)
  then show ?thesis by (simp add: eight_decimals_def)
qed

definition sample_env :: billing_env where
  "sample_env = \<lparr>be_sha = (\<lambda>s. s), be_rfc3339 = (\<lambda>t. itoa t), be_lower = (\<lambda>s. s), be_day = utc_day,
     be_next_day = (\<lambda>t. utc_day t + 24 * hour), be_quantize = (\<lambda>x. fl (eight_decimals x)), be_dec = eight_decimals,
     be_trunc_day = utc_day, be_plus_days = (\<lambda>n t. t + int n * (24 * hour)), be_plus_month = (\<lambda>t. t + 30 * (24 * hour)),
     be_StartOfDay = utc_day, be_StartOfWeek = utc_day, be_StartOfMonth = utc_day,
     be_next_reset = (\<lambda>daily providerID t. utc_day t + 24 * hour)\<rparr>"

text \<open>One dollar is held, 60 cents of a subscription and 40 of the balance.\<close>

definition sample_hold :: BillingAllocation where
  "sample_hold = \<lparr>ba_Type = ''subscription'', ba_AmountUSD = fl (3 / 5), ba_BaseAmountUSD = 1, ba_RateMultiplier = fl (3 / 5),
     ba_SubscriptionID = Some 11, ba_PlanID = Some 22\<rparr>"

definition sample_command :: TaskFundsCommand where
  "sample_command = \<lparr>fc_RequestID = ''cap'', fc_APIKeyID = 1, fc_RequestFingerprint = ''f'',
     fc_RequestPayloadHash = [], fc_UserID = 7, fc_ActorUserID = 7, fc_TeamID = None, fc_GroupID = None,
     fc_APIKeyBillingMode = [], fc_PreferredSubscriptionID = None,
     fc_Task = \<lparr>tk_Scope = ''img'', tk_ID = ''t1'', tk_ReserveRequestID = ''hold''\<rparr>,
     fc_HoldAmount = 1, fc_ActualAmount = fl (9 / 20), fc_PricingSnapshotVersion = 1, fc_BaseAmountUSD = 0,
     fc_ActualBaseAmountUSD = 0, fc_SubscriptionRateMultiplier = 1, fc_SubscriptionRateMultiplierScale = 1,
     fc_BalanceRateMultiplier = 1, fc_SettlementRateScale = 0, fc_DisablePlanGroupRateMultiplier = False,
     fc_BalanceHoldAmount = fl (2 / 5), fc_SubscriptionHoldAllocations = [sample_hold], fc_AllowanceReserved = True,
     fc_ReservedAt = 5\<rparr>"

text \<open>The tolerance, for the evaluations below.\<close>

lemma taskCostEpsilon_value [code]: "taskCostEpsilon = 3022314549036573 / 2 ^ 78"
  unfolding taskCostEpsilon_def by code_simp

text \<open>A subscription of which 90 cents of a daily dollar are used, and a request for 50 cents.\<close>

definition sample_row :: SettlementSubscription where
  "sample_row = \<lparr>ss_ID = 11, ss_PlanID = 22, ss_StartsAt = 1, ss_ExpiresAt = 1000 * (24 * hour), ss_DailyWindowStart = Some 1,
     ss_WeeklyWindowStart = None, ss_MonthlyWindowStart = None, ss_DailyLimitUSD = Some 1, ss_WeeklyLimitUSD = None,
     ss_MonthlyLimitUSD = None, ss_DailyUsageUSD = fl (9 / 10), ss_WeeklyUsageUSD = 0, ss_MonthlyUsageUSD = 0,
     ss_PlanGroupRateMultipliers = []\<rparr>"

definition sample_usage :: UsageBillingCommand where
  "sample_usage =
     \<lparr>uc_RequestID = ''req_1'', uc_APIKeyID = 1, uc_RequestFingerprint = ''f'', uc_RequestPayloadHash = [],
      uc_APIKeyBillingMode = ''auto'', uc_PreferredSubscriptionID = None, uc_UserID = 7, uc_ActorUserID = 7, uc_TeamID = None,
      uc_ProviderID = 3, uc_GroupID = None, uc_BillableAmountUSD = fl (1 / 2), uc_BaseAmountUSD = 0,
      uc_SubscriptionRateMultiplier = 1, uc_SubscriptionRateMultiplierScale = 1, uc_BalanceRateMultiplier = 1,
      uc_DisablePlanGroupRateMultiplier = False, uc_IncludeAllocationPricing = False, uc_ProviderType = ''oauth'',
      uc_Model = ''m'', uc_ServiceTier = [], uc_ReasoningEffort = [], uc_BillingType = 0, uc_InputTokens = 10,
      uc_OutputTokens = 20, uc_CacheCreationTokens = 0, uc_CacheReadTokens = 0, uc_ImageCount = 0, uc_MediaType = [],
      uc_APIKeyQuotaCost = 0, uc_APIKeyRateLimitCost = 0, uc_ProviderQuotaCost = 0\<rparr>"

end
