(* ===== verification/Bill_Capture.thy ===== *)
theory Bill_Capture
  imports Bill_Sample
begin

text \<open>
  How the hold of a task becomes its charge: every held subscription is split into what is kept and what is
  given back, and the balance pays the rest, within its part of the hold.
\<close>

section \<open>The loops over the held subscriptions\<close>

definition paid :: "BillingAllocation \<Rightarrow> int option \<times> float64" where
  "paid a = (ba_SubscriptionID a, ba_AmountUSD a)"

definition kept_parts :: "(BillingAllocation \<times> float64) list \<Rightarrow> (int option \<times> float64) list" where
  "kept_parts parts = [(ba_SubscriptionID a, k). (a, k) \<leftarrow> parts, k > 0]"

definition released_parts :: "(BillingAllocation \<times> float64) list \<Rightarrow> (int option \<times> float64) list" where
  "released_parts parts = [(ba_SubscriptionID a, fsub (ba_AmountUSD a) k). (a, k) \<leftarrow> parts, fsub (ba_AmountUSD a) k > taskCostEpsilon]"

lemma parts_append [simp]:
  "kept_parts (xs @ ys) = kept_parts xs @ kept_parts ys" "released_parts (xs @ ys) = released_parts xs @ released_parts ys"
  "kept_parts [] = []" "released_parts [] = []"
  "kept_parts [(a, k)] = (if k > 0 then [(ba_SubscriptionID a, k)] else [])"
  "released_parts [(a, k)] =
     (if fsub (ba_AmountUSD a) k > taskCostEpsilon then [(ba_SubscriptionID a, fsub (ba_AmountUSD a) k)] else [])"
  by (simp_all add: kept_parts_def released_parts_def)

text \<open>The plan has exactly the parts \<open>ks\<close> of the holds \<open>as\<close>.\<close>

definition splits :: "bool \<Rightarrow> BillingAllocation list \<Rightarrow> float64 list \<Rightarrow> TaskCapturePlan \<Rightarrow> bool" where
  "splits exact as ks plan \<longleftrightarrow>
     list_all2 (\<lambda>a k. k \<le> ba_AmountUSD a \<and> (exact \<longrightarrow> 0 \<le> k)) as ks \<and>
     map paid (cp_BillingAllocations plan) = kept_parts (zip as ks) \<and>
     map paid (cp_SubscriptionReleases plan) = released_parts (zip as ks) \<and>
     list_all (\<lambda>a. ba_Type a = ''subscription'') (cp_BillingAllocations plan)"





section \<open>The plan\<close>

definition by_base :: "TaskFundsCommand \<Rightarrow> bool" where
  "by_base cmd \<longleftrightarrow> fc_PricingSnapshotVersion cmd \<ge> 2 \<and> fc_BaseAmountUSD cmd > 0"






text \<open>
  C36: A settlement at a price of zero, which the settings allow, charges nothing but gives no subscription its
  held usage back: the loop passes over every allocation whose price is not positive.
\<close>

theorem free_capture_keeps_hold:
  assumes "by_base cmd" and "fc_SettlementRateScale cmd \<le> 0"
  shows "\<exists>plan. PlanTaskCapture cmd = Inr plan \<and> cp_ActualAmountUSD plan = 0 \<and> cp_SubscriptionReleases plan = []"
proof -
  let ?hold = "EffectiveTaskBalanceHoldAmount cmd"
  have "fold (capture_base 0) as st = st" for as st
    by (induction as) (auto simp: capture_base_def fmul_def split: prod.splits)
  moreover have "max (fc_SettlementRateScale cmd) 0 = 0" using assms(2) by simp
  moreover have hold: "0 \<le> ?hold" by (simp add: EffectiveTaskBalanceHoldAmount_def)
  moreover have "\<not> fsub 0 ?hold > taskCostEpsilon"
  proof -
    have "fsub 0 ?hold \<le> 0" using fl_nonneg [OF hold] by (simp add: fsub_def fl_minus)
    moreover have "0 \<le> taskCostEpsilon" by (simp add: taskCostEpsilon_def fl_nonneg)
    ultimately show ?thesis by simp
  qed
  ultimately show ?thesis
    using assms(1) by (simp add: PlanTaskCapture_def by_base_def planTaskBaseAmountCapture_def capture_balance_def fmul_def fadd_def
      blank_plan_def min_def Let_def)
qed


lemma free_capture_keeps_hold_witness:
  "\<exists>plan. PlanTaskCapture (sample_command\<lparr>fc_PricingSnapshotVersion := 2, fc_BaseAmountUSD := 1, fc_ActualBaseAmountUSD := 1\<rparr>)
      = Inr plan \<and> cp_SubscriptionReleases plan = []"
  using free_capture_keeps_hold [of "sample_command\<lparr>fc_PricingSnapshotVersion := 2, fc_BaseAmountUSD := 1, fc_ActualBaseAmountUSD := 1\<rparr>"]
  by (auto simp: by_base_def sample_command_def)

end
