(* ===== verification/Bill_Limits.thy ===== *)
theory Bill_Limits
  imports Bill_Sample
begin

text \<open>
  The windows of a subscription: what is allocated to it stays within every limit, up to the rounding of
  \<^verbatim>\<open>float64\<close>.
\<close>

section \<open>The error of a rounding\<close>

lemma exponent_le: "0 < x \<Longrightarrow> 2 powi exponent x \<le> x"
proof -
  assume pos: "0 < x"
  obtain p q where pq: "quotient_of x = (p, q)" by force
  have q: "0 < q" by (rule quotient_of_denom_pos [OF pq])
  have x: "x = of_int p / of_int q" by (rule quotient_of_div [OF pq])
  then have p: "0 < p" using pos q by (simp add: zero_less_divide_iff)
  let ?k = "bitlen p - bitlen q"
  have "2 ^ nat (bitlen p - 1) \<le> p" "q < 2 ^ nat (bitlen q)" using bitlen_bounds [OF p] bitlen_bounds [OF q] by auto
  then have bounds: "(2 ^ nat (bitlen p - 1) :: rat) \<le> of_int p" "(of_int q :: rat) < 2 ^ nat (bitlen q)"
    by (metis of_int_le_iff of_int_numeral of_int_power, metis of_int_less_iff of_int_numeral of_int_power)
  have "0 < bitlen p" using bitlen_bounds [OF p] p by (cases "bitlen p \<le> 0") auto
  then have "(2 :: rat) powi (bitlen p - 1) = 2 ^ nat (bitlen p - 1)" "(2 :: rat) powi bitlen q = 2 ^ nat (bitlen q)"
    using bitlen_nonneg [of q] by (simp_all add: power_int_def)
  moreover have "(2 :: rat) powi (?k - 1) = 2 powi (bitlen p - 1) / 2 powi bitlen q"
    by (simp add: power_int_diff [symmetric] algebra_simps)
  moreover have "(2 :: rat) ^ nat (bitlen p - 1) / 2 ^ nat (bitlen q) \<le> of_int p / of_int q"
    using bounds p q by (intro frac_le) auto
  ultimately have "2 powi (?k - 1) \<le> x" using x by simp
  then show ?thesis by (simp add: exponent_def pq Let_def)
qed

lemma fl_error:
  assumes "\<bar>x\<bar> \<le> b" and "1 / 10 ^ 10 \<le> b"
  shows "\<bar>fl x - x\<bar> \<le> b / 2 ^ 53"
proof (cases "x = 0")
  case False
  have "2 powi (exponent \<bar>x\<bar> - 52) \<le> \<bar>x\<bar> / 2 ^ 52"
    using exponent_le [of "\<bar>x\<bar>"] False by (simp add: power_int_diff divide_right_mono)
  also have "\<dots> \<le> b / 2 ^ 52" using assms(1) by (simp add: divide_right_mono)
  finally have e: "2 powi (exponent \<bar>x\<bar> - 52) \<le> b / 2 ^ 52" .
  have "(2 :: rat) powi (-1074) \<le> 1 / 10 ^ 10 / 2 ^ 52" by (simp add: power_int_minus)
  also have "\<dots> \<le> b / 2 ^ 52" using assms(2) by (rule divide_right_mono) simp
  finally have "spacing x \<le> b / 2 ^ 52" using e by (simp add: spacing_def max_def)
  then show ?thesis using fl_near [of x] by simp
qed (use assms in simp)

section \<open>Windows\<close>

lemma least_given_le: "Some v \<in> insert found (set vs) \<Longrightarrow> \<exists>m. least_given vs found = Some m \<and> m \<le> v"
proof (induction vs found arbitrary: v rule: least_given.induct)
  case (3 w vs found)
  let ?found = "case found of None \<Rightarrow> Some w | Some m \<Rightarrow> Some (if w < m then w else m)"
  consider "Some v \<in> set vs" | w' where "?found = Some w'" "w' \<le> v" using 3(2) by (cases found) auto
  then show ?case
  proof cases
    case 1
    then show ?thesis using 3(1) [of v] by simp
  next
    case 2
    then obtain m where "least_given vs ?found = Some m" "m \<le> w'" using 3(1) [of w'] by auto
    then show ?thesis using 2(2) by auto
  qed
qed auto

lemma available_le: "Some v \<in> set vs \<Longrightarrow> SubscriptionAvailableAmount unlimited vs \<le> v"
  using least_given_le [of v None vs] by (auto simp: SubscriptionAvailableAmount_def)

text \<open>The usage is not negative, and what is in use stays below the limit.\<close>

definition within_limit :: "float64 option \<Rightarrow> float64 \<Rightarrow> bool" where
  "within_limit limit used \<longleftrightarrow> (case limit of None \<Rightarrow> True | Some l \<Rightarrow> 1 / 10 ^ 10 \<le> l \<longrightarrow> used \<le> l * (1 + 1 / 2 ^ 51))"

lemma usage_within:
  assumes "RemainingWindowAmount (Some l) used = Some v" and "a \<le> v" and "0 < a" and "0 \<le> used" and "1 / 10 ^ 10 \<le> l"
  shows "fadd used a \<le> l * (1 + 1 / 2 ^ 51)"
proof -
  have "0 < fsub l used" and v: "v = fsub l used"
    using assms(1-3) by (auto simp: RemainingWindowAmount_def Let_def split: if_splits)
  then have "used < l" using fl_nonneg [of "used - l"] fl_minus [of "used - l"] by (cases "used < l") (auto simp: fsub_def)
  then have "\<bar>fl (l - used) - (l - used)\<bar> \<le> l / 2 ^ 53" using assms(4,5) by (intro fl_error) auto
  then have "fl (l - used) \<le> l - used + l / 2 ^ 53" by linarith
  then have a: "used + a \<le> l + l / 2 ^ 53" using assms(2) v by (simp add: fsub_def)
  then have "\<bar>used + a\<bar> \<le> 2 * l" using assms(3,4) \<open>used < l\<close> by simp
  then have "\<bar>fl (used + a) - (used + a)\<bar> \<le> 2 * l / 2 ^ 53" using assms(5) by (intro fl_error) auto
  then have "fl (used + a) \<le> used + a + 2 * l / 2 ^ 53" by linarith
  then have "fadd used a \<le> l + l / 2 ^ 53 + 2 * l / 2 ^ 53" using a unfolding fadd_def by linarith
  also have "\<dots> \<le> l * (1 + 1 / 2 ^ 51)" using assms(4) \<open>used < l\<close> by (simp add: field_simps)
  finally show ?thesis .
qed

definition usages_nonneg :: "SettlementSubscription \<Rightarrow> bool" where
  "usages_nonneg row \<longleftrightarrow> 0 \<le> ss_DailyUsageUSD row \<and> 0 \<le> ss_WeeklyUsageUSD row \<and> 0 \<le> ss_MonthlyUsageUSD row"

definition limits_kept :: "SettlementSubscription \<Rightarrow> bool" where
  "limits_kept row \<longleftrightarrow>
     within_limit (ss_DailyLimitUSD row) (ss_DailyUsageUSD row) \<and> within_limit (ss_WeeklyLimitUSD row) (ss_WeeklyUsageUSD row) \<and>
     within_limit (ss_MonthlyLimitUSD row) (ss_MonthlyUsageUSD row)"

lemma window_nonneg: "0 \<le> used \<Longrightarrow> 0 \<le> snd (NormalizeSettlementWindow env start limit used reset d now startsAt expiresAt outer)"
  by (simp add: NormalizeSettlementWindow_def)

lemma normalize_nonneg: "usages_nonneg row \<Longrightarrow> usages_nonneg (NormalizeSettlementSubscription env row now)"
  by (auto simp: usages_nonneg_def NormalizeSettlementSubscription_def Let_def split: prod.split
      dest!: arg_cong [where f = snd] intro: window_nonneg)

lemma window_kept:
  assumes "RemainingWindowAmount limit used \<in> set vs" and "a \<le> SubscriptionAvailableAmount unlimited vs" and "0 < a"
    and "0 \<le> used"
  shows "within_limit limit (if PositiveSubscriptionLimit limit then fadd used a else used)"
proof (cases limit)
  case (Some l)
  show ?thesis
  proof (cases "1 / 10 ^ 10 \<le> l")
    case True
    then obtain v where v: "RemainingWindowAmount (Some l) used = Some v" by (simp add: RemainingWindowAmount_def)
    then have "a \<le> v" using available_le [of v vs unlimited] assms(1,2) Some by simp
    from usage_within [OF v this assms(3,4) True] show ?thesis
      using True Some by (simp add: within_limit_def PositiveSubscriptionLimit_def)
  qed (use Some in \<open>simp add: within_limit_def\<close>)
qed (simp add: within_limit_def)

lemma add_usage_kept:
  assumes "usages_nonneg row" and "a \<le> available_amount row remaining" and "0 < a"
  shows "limits_kept (add_usage a row)"
  using assms unfolding available_amount_def limits_kept_def usages_nonneg_def add_usage_def
  by (simp add: window_kept [OF _ assms(2) [unfolded available_amount_def] assms(3)])

lemma allocate_rows_kept:
  assumes "list_all usages_nonneg rows" and "list_all limits_kept (sp_Updates plan)"
  shows "list_all limits_kept (sp_Updates (allocate_rows env cmd now rows plan))"
  using assms
proof (induction rows arbitrary: plan)
  case (Cons row rows)
  let ?row = "NormalizeSettlementSubscription env row now"
  have kept: "limits_kept (add_usage (min x (available_amount ?row x)) ?row)" if "0 < min x (available_amount ?row x)" for x
    using that Cons.prems(1) by (intro add_usage_kept [where remaining = x] normalize_nonneg) auto
  have rest: "list_all limits_kept (sp_Updates (allocate_rows env cmd now rows plan'))" if "list_all limits_kept (sp_Updates plan')" for plan'
    using that Cons.prems(1) by (intro Cons.IH) simp_all
  show ?case using Cons.prems(2) by (auto simp: Let_def intro!: rest kept simp del: min_less_iff_conj)
qed simp

text \<open>
  C15: Spreading an amount over subscriptions never takes one over a limit: in every row that is to be stored, the
  usage of each limited window is at most its limit, up to the relative error of two roundings.
\<close>

theorem allocation_within_limits:
  assumes "AllocateSubscriptions env cmd rows now = Inr plan" and "list_all usages_nonneg rows"
  shows "list_all limits_kept (sp_Updates plan)"
  using assms allocate_rows_kept [of rows "unallocated _" env cmd now]
  by (auto simp: AllocateSubscriptions_def unallocated_def split: sum.splits if_splits)

lemma allocation_within_limits_witness:
  "case AllocateSubscriptions sample_env sample_usage [sample_row] 5 of
     Inl _ \<Rightarrow> False | Inr plan \<Rightarrow> length (sp_Updates plan) = 1 \<and> list_all limits_kept (sp_Updates plan)"
proof -
  have "case AllocateSubscriptions sample_env sample_usage [sample_row] 5 of
     Inl _ \<Rightarrow> False | Inr plan \<Rightarrow> length (sp_Updates plan) = 1" by code_simp
  then obtain plan where plan: "AllocateSubscriptions sample_env sample_usage [sample_row] 5 = Inr plan" "length (sp_Updates plan) = 1"
    by (auto split: sum.splits)
  have "list_all usages_nonneg [sample_row]" by (simp add: sample_row_def usages_nonneg_def fl_nonneg)
  from allocation_within_limits [OF plan(1) this] show ?thesis using plan by simp
qed

end
