(* ===== verification/Funds_Store.thy ===== *)
theory Funds_Store
  imports Bill_Rules
begin

text \<open>
  The funds on PostgreSQL (\<^verbatim>\<open>billing/postgres/settlement.go\<close>): what a user has and has frozen, the usage of
  subscriptions, keys, team members and providers, and the claims that make each request count once.
  Numeric columns are rational numbers, rounded to the scale of the column when stored. \<open>now\<close> is the time of the
  service and of the database in a transaction. A transaction consumes one fault.
\<close>

section \<open>Tables\<close>

record user_row =
  us_ID :: int
  us_Balance :: rat
  us_Frozen :: rat
  us_Deleted :: bool

record sub_row =
  sr_ID :: int
  sr_UserID :: int
  sr_PlanID :: int
  sr_StartsAt :: instant
  sr_ExpiresAt :: instant
  sr_Status :: string
  sr_Deleted :: bool
  sr_DailyStart :: "instant option"
  sr_WeeklyStart :: "instant option"
  sr_MonthlyStart :: "instant option"
  sr_DailyLimit :: "rat option"
  sr_WeeklyLimit :: "rat option"
  sr_MonthlyLimit :: "rat option"
  sr_DailyUsage :: rat
  sr_WeeklyUsage :: rat
  sr_MonthlyUsage :: rat

record plan_group =
  pg_PlanID :: int
  pg_GroupID :: int
  pg_Rate :: "rat option"

record key_row =
  ky_ID :: int
  ky_Status :: string
  ky_OwnerDisabled :: bool
  ky_Deleted :: bool
  ky_Quota :: rat
  ky_QuotaUsed :: rat
  ky_Limit5h :: rat
  ky_Limit1d :: rat
  ky_Limit7d :: rat
  ky_Usage5h :: rat
  ky_Usage1d :: rat
  ky_Usage7d :: rat
  ky_Start5h :: "instant option"
  ky_Start1d :: "instant option"
  ky_Start7d :: "instant option"

record member_row =
  mb_TeamID :: int
  mb_UserID :: int
  mb_Role :: string
  mb_JoinedAt :: instant
  mb_LeftAt :: "instant option"
  mb_DailyLimit :: rat
  mb_WeeklyLimit :: rat
  mb_MonthlyLimit :: rat
  mb_DailyUsage :: rat
  mb_WeeklyUsage :: rat
  mb_MonthlyUsage :: rat
  mb_DailyStart :: "instant option"
  mb_WeeklyStart :: "instant option"
  mb_MonthlyStart :: "instant option"

text \<open>The quota counters in the JSON column of a provider.\<close>

record provider_row =
  pv_ID :: int
  pv_Deleted :: bool
  pv_Used :: rat
  pv_Limit :: rat
  pv_DailyUsed :: rat
  pv_DailyLimit :: rat
  pv_DailyStart :: "instant option"
  pv_DailyFixed :: bool
  pv_DailyResetAt :: "instant option"
  pv_WeeklyUsed :: rat
  pv_WeeklyLimit :: rat
  pv_WeeklyStart :: "instant option"
  pv_WeeklyFixed :: bool
  pv_WeeklyResetAt :: "instant option"

record dedup_row =
  dd_RequestID :: string
  dd_APIKeyID :: int
  dd_Fingerprint :: string
  dd_CreatedAt :: instant

datatype funds_fault = Works | Fails | Unanswered | Deadlocked | DeadlockedAtEnd

record 'p funds_db =
  fd_Users :: "user_row list"
  fd_Subs :: "sub_row list"
  fd_Plans :: "int list"
  fd_PlanGroups :: "plan_group list"
  fd_Keys :: "key_row list"
  fd_Members :: "member_row list"
  fd_Providers :: "provider_row list"
  fd_Outbox :: "int list"
  fd_Dedup :: "dedup_row list"
  fd_Archive :: "dedup_row list"
  fd_Tasks :: 'p
  fd_Faults :: "funds_fault list"

type_synonym ('a, 'p) funds_result = "(funds_error + 'a) \<times> 'p funds_db"

definition then_do :: "('a, 'p) funds_result \<Rightarrow> ('a \<Rightarrow> 'p funds_db \<Rightarrow> ('b, 'p) funds_result) \<Rightarrow> ('b, 'p) funds_result" where
  "then_do x f = (case x of (Inl e, db) \<Rightarrow> (Inl e, db) | (Inr a, db) \<Rightarrow> f a db)"

text \<open>Storing into \<^verbatim>\<open>NUMERIC(20, scale)\<close>: halves are rounded away from zero.\<close>

definition stored :: "nat \<Rightarrow> rat \<Rightarrow> rat" where
  "stored scale x =
     (if x < 0 then - (of_int \<lfloor>- x * 10 ^ scale + 1 / 2\<rfloor> / 10 ^ scale) else of_int \<lfloor>x * 10 ^ scale + 1 / 2\<rfloor> / 10 ^ scale)"

definition update_where :: "('a \<Rightarrow> bool) \<Rightarrow> ('a \<Rightarrow> 'a) \<Rightarrow> 'a list \<Rightarrow> 'a list" where
  "update_where cond upd = map (\<lambda>x. if cond x then upd x else x)"

section \<open>Claims\<close>

definition same_request :: "string \<Rightarrow> int \<Rightarrow> dedup_row \<Rightarrow> bool" where
  "same_request requestID apiKeyID r \<longleftrightarrow> dd_RequestID r = requestID \<and> dd_APIKeyID r = apiKeyID"

definition claimUsageBillingRequest :: "instant \<Rightarrow> string \<Rightarrow> int \<Rightarrow> string \<Rightarrow> 'p funds_db \<Rightarrow> (bool, 'p) funds_result" where
  "claimUsageBillingRequest now requestID apiKeyID requestFingerprint db =
     (case find (same_request requestID apiKeyID) (fd_Dedup db) of
        Some r \<Rightarrow>
          (if trim_space (dd_Fingerprint r) \<noteq> trim_space requestFingerprint then Inl ErrUsageBillingRequestConflict
           else Inr False, db)
      | None \<Rightarrow>
          let db = db\<lparr>fd_Dedup := fd_Dedup db @
                [\<lparr>dd_RequestID = requestID, dd_APIKeyID = apiKeyID, dd_Fingerprint = requestFingerprint, dd_CreatedAt = now\<rparr>]\<rparr>
          in case find (same_request requestID apiKeyID) (fd_Archive db) of
               Some r \<Rightarrow>
                 (if trim_space (dd_Fingerprint r) \<noteq> trim_space requestFingerprint then Inl ErrUsageBillingRequestConflict
                  else Inr False, db)
             | None \<Rightarrow> (Inr True, db))"

definition taskHoldClaimExists :: "string \<Rightarrow> int \<Rightarrow> 'p funds_db \<Rightarrow> bool" where
  "taskHoldClaimExists holdRequestID apiKeyID db \<longleftrightarrow>
     list_ex (same_request holdRequestID apiKeyID) (fd_Dedup db) \<or> list_ex (same_request holdRequestID apiKeyID) (fd_Archive db)"

text \<open>One round of \<^verbatim>\<open>ArchiveUsageDedup\<close>, with the claims in the order the database meets them.\<close>

definition archive_round :: "instant \<Rightarrow> nat \<Rightarrow> 'p funds_db \<Rightarrow> nat \<times> 'p funds_db" where
  "archive_round cutoff batchSize db =
     (let victims = take batchSize (filter (\<lambda>r. dd_CreatedAt r < cutoff) (fd_Dedup db));
          fresh = filter (\<lambda>v. \<not> list_ex (same_request (dd_RequestID v) (dd_APIKeyID v)) (fd_Archive db)) victims
      in (length victims, db\<lparr>fd_Dedup := filter (\<lambda>r. r \<notin> set victims) (fd_Dedup db), fd_Archive := fd_Archive db @ fresh\<rparr>))"

text \<open>The rounds, until one finds less than it takes.\<close>

function ArchiveUsageDedup :: "nat \<Rightarrow> instant \<Rightarrow> 'p funds_db \<Rightarrow> 'p funds_db" where
  "ArchiveUsageDedup batchSize cutoff db =
     (let (affected, db') = archive_round cutoff batchSize db
      in if affected < batchSize \<or> batchSize = 0 then db' else ArchiveUsageDedup batchSize cutoff db')"
  by pat_completeness auto
termination
proof (relation "measure (\<lambda>(_, _, db). length (fd_Dedup db))")
  fix batchSize :: nat and cutoff and db db' :: "'p funds_db" and x affected
  assume round: "x = archive_round cutoff batchSize db" "(affected, db') = x" and more: "\<not> (affected < batchSize \<or> batchSize = 0)"
  let ?victims = "take batchSize (filter (\<lambda>r. dd_CreatedAt r < cutoff) (fd_Dedup db))"
  have dedup: "fd_Dedup db' = filter (\<lambda>r. r \<notin> set ?victims) (fd_Dedup db)" and affected: "affected = length ?victims"
    using round by (simp_all add: archive_round_def Let_def)
  then obtain v where "v \<in> set ?victims" using more by (cases ?victims) auto
  moreover from this have "v \<in> set (fd_Dedup db)" by (auto dest: in_set_takeD)
  ultimately have "length (filter (\<lambda>r. r \<notin> set ?victims) (fd_Dedup db)) < length (fd_Dedup db)"
    by (intro length_filter_less [where x = v]) auto
  then show "((batchSize, cutoff, db'), batchSize, cutoff, db) \<in> measure (\<lambda>(_, _, db). length (fd_Dedup db))"
    using dedup by simp
qed simp

definition usageBillingDedupCleanupBatchSize :: nat where
  "usageBillingDedupCleanupBatchSize = 10000"

definition live_user :: "int \<Rightarrow> user_row \<Rightarrow> bool" where
  "live_user userID u \<longleftrightarrow> us_ID u = userID \<and> \<not> us_Deleted u"

definition userExistsForBilling :: "int \<Rightarrow> 'p funds_db \<Rightarrow> bool" where
  "userExistsForBilling userID db \<longleftrightarrow> list_ex (live_user userID) (fd_Users db)"

definition lockUsageBillingUser :: "int \<Rightarrow> 'p funds_db \<Rightarrow> (unit, 'p) funds_result" where
  "lockUsageBillingUser userID db =
     (if userID \<le> 0 \<or> userExistsForBilling userID db then Inr () else Inl ErrUserNotFound, db)"

section \<open>Transactions\<close>

text \<open>
  What an attempt yields: an error, with the transaction rolled back; a result that was not committed, when the
  request had been claimed before; or a result that is committed.
\<close>

datatype 'a attempt = Replayed 'a | Committed 'a

primrec attempt_value :: "'a attempt \<Rightarrow> 'a" where
  "attempt_value (Replayed x) = x"
| "attempt_value (Committed x) = x"

definition transact :: "('p funds_db \<Rightarrow> ('a attempt, 'p) funds_result) \<Rightarrow> 'p funds_db \<Rightarrow> ('a, 'p) funds_result" where
  "transact body db =
     (let rest = db\<lparr>fd_Faults := tl (fd_Faults db)\<rparr>;
          run = body rest;
          kept = (case run of (Inr (Committed _), db') \<Rightarrow> db' | _ \<Rightarrow> rest)
      in case (fd_Faults db, run) of
           (Fails # _, _) \<Rightarrow> (Inl FundsStoreFailed, rest)
         | (Deadlocked # _, _) \<Rightarrow> (Inl FundsDeadlock, rest)
         | (DeadlockedAtEnd # _, _) \<Rightarrow> (Inl (OtherFundsFailure ''context''), rest)
         | (Unanswered # _, _) \<Rightarrow> (Inl FundsStoreFailed, kept)
         | (_, (Inl e, _)) \<Rightarrow> (Inl e, kept)
         | (_, (Inr a, _)) \<Rightarrow> (Inr (attempt_value a), kept))"

text \<open>From \<^verbatim>\<open>infra/postgres\<close>: an operation is repeated at most twice after a deadlock.\<close>

fun RetryDeadlock :: "nat \<Rightarrow> ('p funds_db \<Rightarrow> ('a, 'p) funds_result) \<Rightarrow> 'p funds_db \<Rightarrow> ('a, 'p) funds_result" where
  "RetryDeadlock 0 operation db = operation db"
| "RetryDeadlock (Suc retries) operation db =
     (case operation db of
        (Inl FundsDeadlock, db') \<Rightarrow> RetryDeadlock retries operation db'
      | x \<Rightarrow> x)"

definition postgresDeadlockMaxRetries :: nat where
  "postgresDeadlockMaxRetries = 2"

section \<open>Subscriptions\<close>

definition float_of_numeric :: "rat \<Rightarrow> float64" where
  "float_of_numeric x = fl x"

definition rates_of_plan :: "int \<Rightarrow> 'p funds_db \<Rightarrow> (int \<times> float64) list" where
  "rates_of_plan planID db =
     List.map_filter (\<lambda>g. if pg_PlanID g = planID then map_option (\<lambda>r. (pg_GroupID g, float_of_numeric r)) (pg_Rate g) else None)
       (fd_PlanGroups db)"

definition settlementSubscriptionSnapshot :: "'p funds_db \<Rightarrow> sub_row \<Rightarrow> SettlementSubscription" where
  "settlementSubscriptionSnapshot db r =
     \<lparr>ss_ID = sr_ID r, ss_PlanID = sr_PlanID r, ss_StartsAt = sr_StartsAt r, ss_ExpiresAt = sr_ExpiresAt r,
      ss_DailyWindowStart = sr_DailyStart r, ss_WeeklyWindowStart = sr_WeeklyStart r, ss_MonthlyWindowStart = sr_MonthlyStart r,
      ss_DailyLimitUSD = map_option float_of_numeric (sr_DailyLimit r),
      ss_WeeklyLimitUSD = map_option float_of_numeric (sr_WeeklyLimit r),
      ss_MonthlyLimitUSD = map_option float_of_numeric (sr_MonthlyLimit r),
      ss_DailyUsageUSD = float_of_numeric (sr_DailyUsage r), ss_WeeklyUsageUSD = float_of_numeric (sr_WeeklyUsage r),
      ss_MonthlyUsageUSD = float_of_numeric (sr_MonthlyUsage r), ss_PlanGroupRateMultipliers = rates_of_plan (sr_PlanID r) db\<rparr>"

definition plan_open :: "int \<Rightarrow> 'p funds_db \<Rightarrow> bool" where
  "plan_open planID db \<longleftrightarrow> \<not> list_ex (\<lambda>g. pg_PlanID g = planID) (fd_PlanGroups db)"

definition group_allowed :: "UsageBillingCommand \<Rightarrow> 'p funds_db \<Rightarrow> int \<Rightarrow> bool" where
  "group_allowed cmd db planID \<longleftrightarrow>
     (case uc_GroupID cmd of
        Some g \<Rightarrow>
          if g > 0 then planID \<in> set (fd_Plans db) \<and>
            (plan_open planID db \<or> list_ex (\<lambda>r. pg_PlanID r = planID \<and> pg_GroupID r = g) (fd_PlanGroups db))
          else uc_APIKeyBillingMode cmd = ''subscription'' \<longrightarrow> plan_open planID db
      | None \<Rightarrow> uc_APIKeyBillingMode cmd = ''subscription'' \<longrightarrow> plan_open planID db)"

definition selected_subscription :: "UsageBillingCommand \<Rightarrow> instant \<Rightarrow> 'p funds_db \<Rightarrow> sub_row \<Rightarrow> bool" where
  "selected_subscription cmd now db r \<longleftrightarrow>
     sr_UserID r = uc_UserID cmd \<and> \<not> sr_Deleted r \<and> sr_StartsAt r \<le> now \<and> sr_ExpiresAt r > now \<and>
     sr_Status r \<in> {''active'', ''pending''} \<and>
     (case uc_PreferredSubscriptionID cmd of None \<Rightarrow> True | Some i \<Rightarrow> sr_ID r = i) \<and> group_allowed cmd db (sr_PlanID r)"

definition selected_subscriptions :: "UsageBillingCommand \<Rightarrow> instant \<Rightarrow> 'p funds_db \<Rightarrow> sub_row list" where
  "selected_subscriptions cmd now db =
     sort_key sr_ExpiresAt (sort_key sr_StartsAt (sort_key sr_ID (filter (selected_subscription cmd now db) (fd_Subs db))))"

definition updateUsageBillingSubscription :: "billing_env \<Rightarrow> SettlementSubscription \<Rightarrow> 'p funds_db \<Rightarrow> (unit, 'p) funds_result" where
  "updateUsageBillingSubscription env row db =
     (let cond = (\<lambda>r. sr_ID r = ss_ID row \<and> \<not> sr_Deleted r)
      in if \<not> list_ex cond (fd_Subs db) then (Inl ErrSubscriptionNotFound, db)
         else (Inr (), db\<lparr>fd_Subs := update_where cond
           (\<lambda>r. r\<lparr>sr_DailyStart := ss_DailyWindowStart row, sr_WeeklyStart := ss_WeeklyWindowStart row,
                 sr_MonthlyStart := ss_MonthlyWindowStart row, sr_DailyUsage := stored 10 (be_dec env (ss_DailyUsageUSD row)),
                 sr_WeeklyUsage := stored 10 (be_dec env (ss_WeeklyUsageUSD row)),
                 sr_MonthlyUsage := stored 10 (be_dec env (ss_MonthlyUsageUSD row))\<rparr>) (fd_Subs db)\<rparr>))"

fun update_subscriptions :: "billing_env \<Rightarrow> SettlementSubscription list \<Rightarrow> 'p funds_db \<Rightarrow> (unit, 'p) funds_result" where
  "update_subscriptions env [] db = (Inr (), db)"
| "update_subscriptions env (r # rs) db = then_do (updateUsageBillingSubscription env r db) (\<lambda>_. update_subscriptions env rs)"

text \<open>What remains, what subscriptions pay, and their allocations.\<close>

definition allocateUsageBillingSubscriptions ::
  "billing_env \<Rightarrow> instant \<Rightarrow> UsageBillingCommand \<Rightarrow> 'p funds_db \<Rightarrow> (float64 \<times> float64 \<times> BillingAllocation list, 'p) funds_result" where
  "allocateUsageBillingSubscriptions env now cmd db =
     (case SubscriptionAllocationRequest cmd of
        Inl e \<Rightarrow> (Inl e, db)
      | Inr (amountUSD, querySubscriptions) \<Rightarrow>
          if \<not> querySubscriptions then (Inr (amountUSD, 0, []), db)
          else
            case AllocateSubscriptions env cmd
                (map (settlementSubscriptionSnapshot db) (selected_subscriptions cmd now db)) now of
              Inl e \<Rightarrow> (Inl e, db)
            | Inr plan \<Rightarrow>
                then_do (update_subscriptions env (sp_Updates plan) db)
                  (\<lambda>_ db. (Inr (sp_Remaining plan, sp_SubscriptionAmount plan, sp_Allocations plan), db)))"

text \<open>Taking usage back, in the windows that were open when it was reserved.\<close>

definition in_window :: "instant option \<Rightarrow> (instant \<Rightarrow> instant) \<Rightarrow> instant \<Rightarrow> bool" where
  "in_window start after t \<longleftrightarrow> (case start of None \<Rightarrow> False | Some s \<Rightarrow> s \<le> t \<and> t < after s)"

definition positive_limit :: "rat option \<Rightarrow> bool" where
  "positive_limit l \<longleftrightarrow> (case l of None \<Rightarrow> False | Some x \<Rightarrow> x > 0)"

definition usage_released :: "billing_env \<Rightarrow> rat \<Rightarrow> instant \<Rightarrow> sub_row \<Rightarrow> sub_row" where
  "usage_released env amount reservedAt r =
     r\<lparr>sr_DailyUsage :=
          (if positive_limit (sr_DailyLimit r) \<and> in_window (sr_DailyStart r) (\<lambda>s. s + 24 * hour) reservedAt
           then stored 10 (max 0 (sr_DailyUsage r - amount)) else sr_DailyUsage r),
        sr_WeeklyUsage :=
          (if positive_limit (sr_WeeklyLimit r) \<and> in_window (sr_WeeklyStart r) (be_plus_days env 7) reservedAt
           then stored 10 (max 0 (sr_WeeklyUsage r - amount)) else sr_WeeklyUsage r),
        sr_MonthlyUsage :=
          (if positive_limit (sr_MonthlyLimit r) \<and> in_window (sr_MonthlyStart r) (be_plus_days env 30) reservedAt
           then stored 10 (max 0 (sr_MonthlyUsage r - amount)) else sr_MonthlyUsage r)\<rparr>"

fun releaseTaskSubscriptionAllocations ::
  "billing_env \<Rightarrow> int \<Rightarrow> instant \<Rightarrow> BillingAllocation list \<Rightarrow> 'p funds_db \<Rightarrow> (unit, 'p) funds_result" where
  "releaseTaskSubscriptionAllocations env userID reservedAt [] db = (Inr (), db)"
| "releaseTaskSubscriptionAllocations env userID reservedAt (a # as) db =
     (if \<not> held_allocation a then releaseTaskSubscriptionAllocations env userID reservedAt as db
      else
        let cond = (\<lambda>r. Some (sr_ID r) = ba_SubscriptionID a \<and> sr_UserID r = userID)
        in if \<not> list_ex cond (fd_Subs db) then (Inl ErrSubscriptionNotFound, db)
           else releaseTaskSubscriptionAllocations env userID reservedAt as
             (db\<lparr>fd_Subs := update_where cond (usage_released env (be_dec env (ba_AmountUSD a)) reservedAt) (fd_Subs db)\<rparr>))"

section \<open>Balances\<close>

definition normalizeTaskBalanceAmount :: "float64 \<Rightarrow> float64" where
  "normalizeTaskBalanceAmount amount = fdiv (math_round (fmul amount (10 ^ 8))) (10 ^ 8)"

definition set_users :: "(user_row \<Rightarrow> bool) \<Rightarrow> (user_row \<Rightarrow> user_row) \<Rightarrow> 'p funds_db \<Rightarrow> 'p funds_db" where
  "set_users cond upd db = db\<lparr>fd_Users := update_where cond upd (fd_Users db)\<rparr>"

text \<open>The new balance and the new frozen balance, where a row was changed.\<close>

type_synonym balances = "(float64 \<times> float64) option"

definition balances_of :: "int \<Rightarrow> 'p funds_db \<Rightarrow> balances" where
  "balances_of userID db =
     map_option (\<lambda>u. (float_of_numeric (us_Balance u), float_of_numeric (us_Frozen u))) (find (live_user userID) (fd_Users db))"

definition update_balance ::
  "int \<Rightarrow> funds_error \<Rightarrow> (user_row \<Rightarrow> bool) \<Rightarrow> (user_row \<Rightarrow> user_row) \<Rightarrow> 'p funds_db \<Rightarrow> (balances, 'p) funds_result" where
  "update_balance userID refused cond upd db =
     (let cond = (\<lambda>u. live_user userID u \<and> cond u)
      in if list_ex cond (fd_Users db)
         then (let db = set_users cond upd db in (Inr (balances_of userID db), db))
         else if \<not> userExistsForBilling userID db then (Inl ErrUserNotFound, db)
         else (Inl refused, db))"

definition reserveUsageBillingTaskBalance :: "billing_env \<Rightarrow> int \<Rightarrow> float64 \<Rightarrow> 'p funds_db \<Rightarrow> (balances, 'p) funds_result" where
  "reserveUsageBillingTaskBalance env userID holdAmount db =
     (if holdAmount \<le> 0 then (Inr None, db)
      else
        let amount = be_dec env holdAmount
        in update_balance userID ErrTaskInsufficientBalance (\<lambda>u. us_Balance u \<ge> amount)
             (\<lambda>u. u\<lparr>us_Balance := stored 8 (us_Balance u - amount), us_Frozen := stored 8 (us_Frozen u + amount)\<rparr>) db)"

definition captureUsageBillingTaskBalance ::
  "billing_env \<Rightarrow> int \<Rightarrow> float64 \<Rightarrow> float64 \<Rightarrow> 'p funds_db \<Rightarrow> (balances, 'p) funds_result" where
  "captureUsageBillingTaskBalance env userID hold actual db =
     (let holdAmount = normalizeTaskBalanceAmount hold; actualAmount = normalizeTaskBalanceAmount actual
      in if holdAmount \<le> 0 \<and> actualAmount \<le> 0 then (Inr None, db)
         else if fsub actualAmount holdAmount > taskCostEpsilon then (Inl ErrTaskSettlementCostExceedsHold, db)
         else
           let h = be_dec env holdAmount; a = be_dec env actualAmount
           in update_balance userID (OtherFundsFailure ''batch image frozen balance is insufficient'') (\<lambda>u. us_Frozen u \<ge> h)
                (\<lambda>u. u\<lparr>us_Balance := stored 8 (us_Balance u + (if h > a then h - a else 0) - (if a > h then a - h else 0)),
                      us_Frozen := stored 8 (us_Frozen u - h)\<rparr>) db)"

definition releaseUsageBillingTaskFrozenBalance :: "billing_env \<Rightarrow> int \<Rightarrow> float64 \<Rightarrow> 'p funds_db \<Rightarrow> (balances, 'p) funds_result" where
  "releaseUsageBillingTaskFrozenBalance env userID amount db =
     (let amount = normalizeTaskBalanceAmount amount
      in if amount \<le> 0 then (Inr None, db)
         else
           let d = be_dec env amount
           in update_balance userID (OtherFundsFailure ''batch image frozen balance is insufficient'') (\<lambda>u. us_Frozen u \<ge> d)
                (\<lambda>u. u\<lparr>us_Balance := stored 8 (us_Balance u + d), us_Frozen := stored 8 (us_Frozen u - d)\<rparr>) db)"

definition deductUsageBillingBalance ::
  "billing_env \<Rightarrow> int \<Rightarrow> float64 \<Rightarrow> 'p funds_db \<Rightarrow> (float64 \<times> float64, 'p) funds_result" where
  "deductUsageBillingBalance env userID amount db =
     (let amount = be_quantize env amount; d = be_dec env amount
      in if \<not> userExistsForBilling userID db then (Inl ErrUserNotFound, db)
         else
           let db = set_users (live_user userID) (\<lambda>u. u\<lparr>us_Balance := stored 8 (us_Balance u - d)\<rparr>) db
           in (Inr (case balances_of userID db of None \<Rightarrow> 0 | Some b \<Rightarrow> fst b, float_of_numeric d), db))"

end
