(* ===== verification/Funds_Task.thy ===== *)
theory Funds_Task
  imports Funds_Store
begin

text \<open>
  The operations on the funds (\<^verbatim>\<open>billing/postgres/settlement.go\<close>): the settlement of an ordinary request, and for a
  task the reservation, the capture and the release of its hold, with the quotas of the key and of the team member.
  The row of the task itself belongs to its module, which takes part in the transaction (\<^verbatim>\<open>TaskProjection\<close>).
\<close>

section \<open>Quotas of keys\<close>

text \<open>\<open>lapsed start d now\<close>: a window without a start or whose time is over counts as empty.\<close>

definition lapsed :: "instant option \<Rightarrow> (instant \<Rightarrow> instant) \<Rightarrow> instant \<Rightarrow> bool" where
  "lapsed start after now \<longleftrightarrow> (case start of None \<Rightarrow> True | Some s \<Rightarrow> after s \<le> now)"

definition restarted :: "instant option \<Rightarrow> (instant \<Rightarrow> instant) \<Rightarrow> instant \<Rightarrow> instant \<Rightarrow> instant option" where
  "restarted start after now fresh = (if lapsed start after now then Some fresh else start)"

definition five_hours :: "instant \<Rightarrow> instant" where "five_hours s = s + 5 * hour"
definition one_day :: "instant \<Rightarrow> instant" where "one_day s = s + 24 * hour"

definition key_charged :: "billing_env \<Rightarrow> rat \<Rightarrow> instant \<Rightarrow> key_row \<Rightarrow> key_row" where
  "key_charged env amount t k =
     (let week = be_plus_days env 7
      in k\<lparr>ky_QuotaUsed := stored 8 (ky_QuotaUsed k + amount),
           ky_Usage5h := stored 8 (if lapsed (ky_Start5h k) five_hours t then amount else ky_Usage5h k + amount),
           ky_Usage1d := stored 8 (if lapsed (ky_Start1d k) one_day t then amount else ky_Usage1d k + amount),
           ky_Usage7d := stored 8 (if lapsed (ky_Start7d k) week t then amount else ky_Usage7d k + amount),
           ky_Start5h := restarted (ky_Start5h k) five_hours t t,
           ky_Start1d := restarted (ky_Start1d k) one_day t (be_trunc_day env t),
           ky_Start7d := restarted (ky_Start7d k) week t (be_trunc_day env t)\<rparr>)"

definition key_admits :: "billing_env \<Rightarrow> rat \<Rightarrow> instant \<Rightarrow> key_row \<Rightarrow> bool" where
  "key_admits env amount t k \<longleftrightarrow>
     \<not> ky_Deleted k \<and> ky_Status k = ''active'' \<and> \<not> ky_OwnerDisabled k \<and>
     (ky_Quota k \<le> 0 \<or> ky_QuotaUsed k + amount \<le> ky_Quota k) \<and>
     (ky_Limit5h k \<le> 0 \<or> (if lapsed (ky_Start5h k) five_hours t then 0 else ky_Usage5h k) + amount \<le> ky_Limit5h k) \<and>
     (ky_Limit1d k \<le> 0 \<or> (if lapsed (ky_Start1d k) one_day t then 0 else ky_Usage1d k) + amount \<le> ky_Limit1d k) \<and>
     (ky_Limit7d k \<le> 0 \<or> (if lapsed (ky_Start7d k) (be_plus_days env 7) t then 0 else ky_Usage7d k) + amount \<le> ky_Limit7d k)"

definition effectiveSQLWindowUsage :: "float64 \<Rightarrow> instant option \<Rightarrow> duration \<Rightarrow> instant \<Rightarrow> float64" where
  "effectiveSQLWindowUsage usage start duration' now =
     (case start of None \<Rightarrow> 0 | Some s \<Rightarrow> if \<not> s + duration' > now then 0 else usage)"

definition taskAPIKeyAllowanceError :: "instant \<Rightarrow> int \<Rightarrow> float64 \<Rightarrow> 'p funds_db \<Rightarrow> funds_error" where
  "taskAPIKeyAllowanceError now apiKeyID amount db =
     (case find (\<lambda>k. ky_ID k = apiKeyID \<and> \<not> ky_Deleted k) (fd_Keys db) of
        None \<Rightarrow> ErrAPIKeyNotFound
      | Some k \<Rightarrow>
          let over = (\<lambda>usage limit. fl limit > 0 \<and> fadd usage amount > fl limit)
          in if ky_OwnerDisabled k \<or> ky_Status k \<noteq> ''active''
             then (if ky_Status k = ''quota_exhausted'' then ErrAPIKeyQuotaExhausted else ErrAPIKeyNotFound)
             else if over (fl (ky_QuotaUsed k)) (ky_Quota k) then ErrAPIKeyQuotaExhausted
             else if over (effectiveSQLWindowUsage (fl (ky_Usage5h k)) (ky_Start5h k) (5 * hour) now) (ky_Limit5h k)
             then ErrAPIKeyRateLimit5hExceeded
             else if over (effectiveSQLWindowUsage (fl (ky_Usage1d k)) (ky_Start1d k) (24 * hour) now) (ky_Limit1d k)
             then ErrAPIKeyRateLimit1dExceeded
             else if over (effectiveSQLWindowUsage (fl (ky_Usage7d k)) (ky_Start7d k) (7 * 24 * hour) now) (ky_Limit7d k)
             then ErrAPIKeyRateLimit7dExceeded
             else ErrAPIKeyNotFound)"

definition reserveTaskAPIKeyAllowance ::
  "billing_env \<Rightarrow> instant \<Rightarrow> int \<Rightarrow> float64 \<Rightarrow> instant \<Rightarrow> 'p funds_db \<Rightarrow> (unit, 'p) funds_result" where
  "reserveTaskAPIKeyAllowance env now apiKeyID amount reservedAt db =
     (let d = be_dec env amount; cond = (\<lambda>k. ky_ID k = apiKeyID \<and> key_admits env d reservedAt k)
      in if list_ex cond (fd_Keys db)
         then (Inr (), db\<lparr>fd_Keys := update_where cond
           (\<lambda>k. (key_charged env d reservedAt k)\<lparr>ky_Status :=
              (if ky_Quota k > 0 \<and> ky_QuotaUsed k + d \<ge> ky_Quota k then ''quota_exhausted'' else ky_Status k)\<rparr>) (fd_Keys db)\<rparr>)
         else (Inl (taskAPIKeyAllowanceError now apiKeyID amount db), db))"

definition releaseTaskAPIKeyAllowance :: "billing_env \<Rightarrow> int \<Rightarrow> float64 \<Rightarrow> instant \<Rightarrow> 'p funds_db \<Rightarrow> 'p funds_db" where
  "releaseTaskAPIKeyAllowance env apiKeyID amount reservedAt db =
     (let d = be_dec env amount; less = (\<lambda>used. stored 8 (max 0 (used - d)))
      in db\<lparr>fd_Keys := update_where (\<lambda>k. ky_ID k = apiKeyID)
           (\<lambda>k. k\<lparr>ky_QuotaUsed := less (ky_QuotaUsed k),
                 ky_Usage5h := (if in_window (ky_Start5h k) five_hours reservedAt then less (ky_Usage5h k) else ky_Usage5h k),
                 ky_Usage1d := (if in_window (ky_Start1d k) one_day reservedAt then less (ky_Usage1d k) else ky_Usage1d k),
                 ky_Usage7d :=
                   (if in_window (ky_Start7d k) (be_plus_days env 7) reservedAt then less (ky_Usage7d k) else ky_Usage7d k),
                 ky_Status :=
                   (if ky_Status k = ''quota_exhausted'' \<and> \<not> ky_OwnerDisabled k \<and>
                       (ky_Quota k \<le> 0 \<or> max 0 (ky_QuotaUsed k - d) < ky_Quota k) then ''active'' else ky_Status k)\<rparr>)
           (fd_Keys db)\<rparr>)"

definition chargeLegacyTaskAPIKey :: "billing_env \<Rightarrow> instant \<Rightarrow> int \<Rightarrow> float64 \<Rightarrow> 'p funds_db \<Rightarrow> 'p funds_db" where
  "chargeLegacyTaskAPIKey env now apiKeyID amount db =
     (let d = be_dec env amount
      in db\<lparr>fd_Keys := update_where (\<lambda>k. ky_ID k = apiKeyID)
           (\<lambda>k. (key_charged env d now k)\<lparr>ky_Status :=
              (if ky_Quota k > 0 \<and> ky_QuotaUsed k + d \<ge> ky_Quota k \<and> \<not> ky_OwnerDisabled k then ''quota_exhausted''
               else ky_Status k)\<rparr>) (fd_Keys db)\<rparr>)"

definition incrementUsageBillingAPIKeyQuota :: "billing_env \<Rightarrow> int \<Rightarrow> float64 \<Rightarrow> 'p funds_db \<Rightarrow> (bool, 'p) funds_result" where
  "incrementUsageBillingAPIKeyQuota env apiKeyID amount db =
     (let d = be_dec env (be_quantize env amount); mine = (\<lambda>k. ky_ID k = apiKeyID)
      in case find mine (fd_Keys db) of
           None \<Rightarrow> (Inl ErrAPIKeyNotFound, db)
         | Some k \<Rightarrow>
             let used = stored 8 (ky_QuotaUsed k + d)
             in (Inr (ky_Quota k > 0 \<and> used \<ge> ky_Quota k \<and> used - d < ky_Quota k),
                 db\<lparr>fd_Keys := update_where mine
                   (\<lambda>k. k\<lparr>ky_QuotaUsed := stored 8 (ky_QuotaUsed k + d),
                         ky_Status :=
                           (if \<not> ky_Deleted k \<and> ky_Quota k > 0 \<and> ky_Status k = ''active'' \<and> ky_QuotaUsed k < ky_Quota k \<and>
                               ky_QuotaUsed k + d \<ge> ky_Quota k then ''quota_exhausted'' else ky_Status k)\<rparr>) (fd_Keys db)\<rparr>))"

text \<open>A window without a start counts here as open.\<close>

definition window_over :: "instant option \<Rightarrow> (instant \<Rightarrow> instant) \<Rightarrow> instant \<Rightarrow> bool" where
  "window_over start after now \<longleftrightarrow> start \<noteq> None \<and> lapsed start after now"

definition incrementUsageBillingAPIKeyRateLimit ::
  "billing_env \<Rightarrow> instant \<Rightarrow> int \<Rightarrow> float64 \<Rightarrow> 'p funds_db \<Rightarrow> (unit, 'p) funds_result" where
  "incrementUsageBillingAPIKeyRateLimit env now apiKeyID cost db =
     (let d = be_dec env (be_quantize env cost); mine = (\<lambda>k. ky_ID k = apiKeyID); week = be_plus_days env 7
      in if \<not> list_ex mine (fd_Keys db) then (Inl ErrAPIKeyNotFound, db)
         else (Inr (), db\<lparr>fd_Keys := update_where mine
           (\<lambda>k. k\<lparr>ky_Usage5h := stored 8 (if window_over (ky_Start5h k) five_hours now then d else ky_Usage5h k + d),
                 ky_Usage1d := stored 8 (if window_over (ky_Start1d k) one_day now then d else ky_Usage1d k + d),
                 ky_Usage7d := stored 8 (if window_over (ky_Start7d k) week now then d else ky_Usage7d k + d),
                 ky_Start5h := restarted (ky_Start5h k) five_hours now now,
                 ky_Start1d := restarted (ky_Start1d k) one_day now (be_trunc_day env now),
                 ky_Start7d := restarted (ky_Start7d k) week now (be_trunc_day env now)\<rparr>) (fd_Keys db)\<rparr>))"

section \<open>Quotas of team members\<close>

text \<open>\<^verbatim>\<open>start IS NULL OR start < expected\<close>.\<close>

definition outdated :: "instant option \<Rightarrow> instant \<Rightarrow> bool" where
  "outdated start expected \<longleftrightarrow> (case start of None \<Rightarrow> True | Some s \<Rightarrow> s < expected)"

definition member_charged :: "billing_env \<Rightarrow> instant \<Rightarrow> rat \<Rightarrow> member_row \<Rightarrow> member_row" where
  "member_charged env now amount m =
     (let day = be_StartOfDay env now; week = be_StartOfWeek env now; month = be_StartOfMonth env now;
          fresh = (\<lambda>start expected usage. stored 10 (if outdated start expected then amount else usage + amount));
          begun = (\<lambda>start expected. if outdated start expected then Some expected else start)
      in m\<lparr>mb_DailyUsage := fresh (mb_DailyStart m) day (mb_DailyUsage m),
           mb_WeeklyUsage := fresh (mb_WeeklyStart m) week (mb_WeeklyUsage m),
           mb_MonthlyUsage := fresh (mb_MonthlyStart m) month (mb_MonthlyUsage m),
           mb_DailyStart := begun (mb_DailyStart m) day, mb_WeeklyStart := begun (mb_WeeklyStart m) week,
           mb_MonthlyStart := begun (mb_MonthlyStart m) month\<rparr>)"

definition active_member :: "int \<Rightarrow> int \<Rightarrow> member_row \<Rightarrow> bool" where
  "active_member teamID userID m \<longleftrightarrow> mb_TeamID m = teamID \<and> mb_UserID m = userID \<and> mb_LeftAt m = None"

definition member_admits :: "billing_env \<Rightarrow> instant \<Rightarrow> rat \<Rightarrow> member_row \<Rightarrow> bool" where
  "member_admits env now amount m \<longleftrightarrow>
     (let fits = (\<lambda>limit start expected usage. limit \<le> 0 \<or> (if outdated start expected then 0 else usage) + amount \<le> limit)
      in fits (mb_DailyLimit m) (mb_DailyStart m) (be_StartOfDay env now) (mb_DailyUsage m) \<and>
         fits (mb_WeeklyLimit m) (mb_WeeklyStart m) (be_StartOfWeek env now) (mb_WeeklyUsage m) \<and>
         fits (mb_MonthlyLimit m) (mb_MonthlyStart m) (be_StartOfMonth env now) (mb_MonthlyUsage m))"

definition effectiveNaturalWindowUsage :: "float64 \<Rightarrow> instant option \<Rightarrow> instant \<Rightarrow> float64" where
  "effectiveNaturalWindowUsage usage window expectedStart = (if outdated window expectedStart then 0 else usage)"

text \<open>Why a member was not admitted; an owner has no limit.\<close>

definition taskMemberAllowanceError ::
  "billing_env \<Rightarrow> instant \<Rightarrow> int \<Rightarrow> int \<Rightarrow> float64 \<Rightarrow> 'p funds_db \<Rightarrow> (unit, 'p) funds_result" where
  "taskMemberAllowanceError env now teamID userID amount db =
     (case find (active_member teamID userID) (fd_Members db) of
        None \<Rightarrow> (Inl ErrTeamMembershipRequired, db)
      | Some m \<Rightarrow>
          let exceeded = (\<lambda>limit usage start expected.
                fl limit > 0 \<and> fadd (effectiveNaturalWindowUsage (fl usage) start expected) amount > fl limit)
          in (if mb_Role m = ''owner'' then Inr ()
              else if exceeded (mb_DailyLimit m) (mb_DailyUsage m) (mb_DailyStart m) (be_StartOfDay env now)
              then Inl ErrTeamMemberDailyExceeded
              else if exceeded (mb_WeeklyLimit m) (mb_WeeklyUsage m) (mb_WeeklyStart m) (be_StartOfWeek env now)
              then Inl ErrTeamMemberWeeklyExceeded
              else if exceeded (mb_MonthlyLimit m) (mb_MonthlyUsage m) (mb_MonthlyStart m) (be_StartOfMonth env now)
              then Inl ErrTeamMemberMonthlyExceeded
              else Inl ErrTeamMembershipRequired, db))"

text \<open>Whose quota counts: somebody else's than the payer's.\<close>

definition paying_member :: "int option \<Rightarrow> int \<Rightarrow> int \<Rightarrow> int option" where
  "paying_member teamID actorUserID userID = (if actorUserID \<le> 0 \<or> actorUserID = userID then None else teamID)"

definition reserveTaskMemberAllowance ::
  "billing_env \<Rightarrow> instant \<Rightarrow> TaskFundsCommand \<Rightarrow> float64 \<Rightarrow> 'p funds_db \<Rightarrow> (unit, 'p) funds_result" where
  "reserveTaskMemberAllowance env now cmd amount db =
     (case paying_member (fc_TeamID cmd) (fc_ActorUserID cmd) (fc_UserID cmd) of
        None \<Rightarrow> (Inr (), db)
      | Some teamID \<Rightarrow>
          let d = be_dec env amount;
              cond = (\<lambda>m. active_member teamID (fc_ActorUserID cmd) m \<and> mb_Role m = ''member'' \<and> member_admits env now d m)
          in if list_ex cond (fd_Members db)
             then (Inr (), db\<lparr>fd_Members := update_where cond (member_charged env now d) (fd_Members db)\<rparr>)
             else taskMemberAllowanceError env now teamID (fc_ActorUserID cmd) amount db)"

definition releaseTaskMemberAllowance :: "billing_env \<Rightarrow> TaskFundsCommand \<Rightarrow> float64 \<Rightarrow> 'p funds_db \<Rightarrow> 'p funds_db" where
  "releaseTaskMemberAllowance env cmd amount db =
     (case paying_member (fc_TeamID cmd) (fc_ActorUserID cmd) (fc_UserID cmd) of
        None \<Rightarrow> db
      | Some teamID \<Rightarrow>
          let d = be_dec env amount; t = fc_ReservedAt cmd;
              less = (\<lambda>start after usage. if in_window start after t then stored 10 (max 0 (usage - d)) else usage)
          in db\<lparr>fd_Members := update_where
               (\<lambda>m. mb_TeamID m = teamID \<and> mb_UserID m = fc_ActorUserID cmd \<and> mb_JoinedAt m \<le> t \<and>
                   (case mb_LeftAt m of None \<Rightarrow> True | Some l \<Rightarrow> l > t))
               (\<lambda>m. m\<lparr>mb_DailyUsage := less (mb_DailyStart m) (be_plus_days env 1) (mb_DailyUsage m),
                     mb_WeeklyUsage := less (mb_WeeklyStart m) (be_plus_days env 7) (mb_WeeklyUsage m),
                     mb_MonthlyUsage := less (mb_MonthlyStart m) (be_plus_month env) (mb_MonthlyUsage m)\<rparr>) (fd_Members db)\<rparr>)"

definition incrementUsageBillingTeamMember :: "billing_env \<Rightarrow> instant \<Rightarrow> int \<Rightarrow> int \<Rightarrow> float64 \<Rightarrow> 'p funds_db \<Rightarrow> 'p funds_db" where
  "incrementUsageBillingTeamMember env now teamID actorUserID amount db =
     (if amount \<le> 0 then db
      else db\<lparr>fd_Members := update_where (\<lambda>m. active_member teamID actorUserID m \<and> mb_Role m = ''member'')
        (member_charged env now (be_dec env amount)) (fd_Members db)\<rparr>)"

section \<open>Quotas of providers\<close>

text \<open>A start or a time of reset that is not set counts as 1970, long before now.\<close>

definition quota_expired :: "bool \<Rightarrow> instant option \<Rightarrow> instant option \<Rightarrow> duration \<Rightarrow> instant \<Rightarrow> bool" where
  "quota_expired fixed start resetAt duration' now \<longleftrightarrow>
     (if fixed then (case resetAt of None \<Rightarrow> True | Some t \<Rightarrow> now \<ge> t)
      else (case start of None \<Rightarrow> True | Some s \<Rightarrow> s + duration' \<le> now))"

definition quota_used :: "billing_env \<Rightarrow> instant \<Rightarrow> rat \<Rightarrow> provider_row \<Rightarrow> provider_row" where
  "quota_used env now d p =
     (let day = quota_expired (pv_DailyFixed p) (pv_DailyStart p) (pv_DailyResetAt p) (24 * hour) now;
          week = quota_expired (pv_WeeklyFixed p) (pv_WeeklyStart p) (pv_WeeklyResetAt p) (168 * hour) now;
          p = p\<lparr>pv_Used := pv_Used p + d\<rparr>;
          p = (if pv_DailyLimit p > 0
               then p\<lparr>pv_DailyUsed := (if day then d else pv_DailyUsed p + d),
                      pv_DailyStart := (if day then Some now else (case pv_DailyStart p of None \<Rightarrow> Some now | Some s \<Rightarrow> Some s)),
                      pv_DailyResetAt := (if day \<and> pv_DailyFixed p then Some (be_next_reset env True (pv_ID p) now) else pv_DailyResetAt p)\<rparr>
               else p)
      in if pv_WeeklyLimit p > 0
         then p\<lparr>pv_WeeklyUsed := (if week then d else pv_WeeklyUsed p + d),
                pv_WeeklyStart := (if week then Some now else (case pv_WeeklyStart p of None \<Rightarrow> Some now | Some s \<Rightarrow> Some s)),
                pv_WeeklyResetAt := (if week \<and> pv_WeeklyFixed p then Some (be_next_reset env False (pv_ID p) now) else pv_WeeklyResetAt p)\<rparr>
         else p)"

record ProviderQuotaState =
  qs_TotalUsed :: float64
  qs_TotalLimit :: float64
  qs_DailyUsed :: float64
  qs_DailyLimit :: float64
  qs_WeeklyUsed :: float64
  qs_WeeklyLimit :: float64

definition quota_state :: "provider_row \<Rightarrow> ProviderQuotaState" where
  "quota_state p =
     \<lparr>qs_TotalUsed = fl (pv_Used p), qs_TotalLimit = fl (pv_Limit p), qs_DailyUsed = fl (pv_DailyUsed p),
      qs_DailyLimit = fl (pv_DailyLimit p), qs_WeeklyUsed = fl (pv_WeeklyUsed p), qs_WeeklyLimit = fl (pv_WeeklyLimit p)\<rparr>"

definition crossed :: "float64 \<Rightarrow> float64 \<Rightarrow> float64 \<Rightarrow> bool" where
  "crossed used limit amount \<longleftrightarrow> limit > 0 \<and> used \<ge> limit \<and> fsub used amount < limit"

definition incrementUsageBillingProviderQuota ::
  "billing_env \<Rightarrow> instant \<Rightarrow> int \<Rightarrow> float64 \<Rightarrow> 'p funds_db \<Rightarrow> (ProviderQuotaState, 'p) funds_result" where
  "incrementUsageBillingProviderQuota env now providerID amount db =
     (let mine = (\<lambda>p. pv_ID p = providerID \<and> \<not> pv_Deleted p)
      in case find mine (fd_Providers db) of
           None \<Rightarrow> (Inl ErrProviderNotFound, db)
         | Some p \<Rightarrow>
             let d = be_dec env amount; state = quota_state (quota_used env now d p);
                 db = db\<lparr>fd_Providers := update_where mine (quota_used env now d) (fd_Providers db)\<rparr>
             in (Inr state,
                 if crossed (qs_TotalUsed state) (qs_TotalLimit state) amount \<or>
                    crossed (qs_DailyUsed state) (qs_DailyLimit state) amount \<or>
                    crossed (qs_WeeklyUsed state) (qs_WeeklyLimit state) amount
                 then db\<lparr>fd_Outbox := fd_Outbox db @ [providerID]\<rparr> else db))"

section \<open>Settling a request\<close>

record UsageBillingApplyResult =
  ur_Applied :: bool
  ur_APIKeyQuotaExhausted :: bool
  ur_NewBalance :: "float64 option"
  ur_QuotaState :: "ProviderQuotaState option"
  ur_SubscriptionAmountUSD :: float64
  ur_BalanceAmountUSD :: float64
  ur_BillingAllocations :: "BillingAllocation list"
  ur_EffectiveRateMultiplier :: "float64 option"

definition blank_apply :: "bool \<Rightarrow> UsageBillingApplyResult" where
  "blank_apply applied =
     \<lparr>ur_Applied = applied, ur_APIKeyQuotaExhausted = False, ur_NewBalance = None, ur_QuotaState = None,
      ur_SubscriptionAmountUSD = 0, ur_BalanceAmountUSD = 0, ur_BillingAllocations = [], ur_EffectiveRateMultiplier = None\<rparr>"

definition charge_balance ::
  "billing_env \<Rightarrow> UsageBillingCommand \<Rightarrow> float64 \<Rightarrow> UsageBillingApplyResult \<Rightarrow> 'p funds_db \<Rightarrow> (UsageBillingApplyResult, 'p) funds_result"
where
  "charge_balance env cmd balanceAmount result db =
     (if balanceAmount \<le> 0 then (Inr result, db)
      else then_do (deductUsageBillingBalance env (uc_UserID cmd) balanceAmount db) (\<lambda>(newBalance, deducted) db.
        (Inr (let result = result\<lparr>ur_BalanceAmountUSD := deducted\<rparr>
              in if deducted > 0
                 then result\<lparr>ur_NewBalance := Some newBalance,
                        ur_BillingAllocations := ur_BillingAllocations result @ [balance_allocation deducted 0 0]\<rparr>
                 else result), db)))"

definition charge_quotas ::
  "billing_env \<Rightarrow> instant \<Rightarrow> UsageBillingCommand \<Rightarrow> float64 \<Rightarrow> UsageBillingApplyResult \<Rightarrow> 'p funds_db \<Rightarrow> (UsageBillingApplyResult, 'p) funds_result"
where
  "charge_quotas env now cmd billableAmount result db =
     then_do
       (if uc_APIKeyQuotaCost cmd > 0
        then incrementUsageBillingAPIKeyQuota env (uc_APIKeyID cmd)
          (if UsesBaseAmount cmd then billableAmount else uc_APIKeyQuotaCost cmd) db
        else (Inr False, db))
       (\<lambda>exhausted db.
          then_do
            (if uc_APIKeyRateLimitCost cmd > 0
             then incrementUsageBillingAPIKeyRateLimit env now (uc_APIKeyID cmd)
               (if UsesBaseAmount cmd then billableAmount else uc_APIKeyRateLimitCost cmd) db
             else (Inr (), db))
            (\<lambda>_ db.
               then_do
                 (if uc_ProviderQuotaCost cmd > 0 \<and> be_lower env (uc_ProviderType cmd) \<in> {''apikey'', ''bedrock''}
                  then then_do (incrementUsageBillingProviderQuota env now (uc_ProviderID cmd) (uc_ProviderQuotaCost cmd) db)
                    (\<lambda>state db. (Inr (Some state), db))
                  else (Inr None, db))
                 (\<lambda>state db. (Inr (result\<lparr>ur_APIKeyQuotaExhausted := exhausted, ur_QuotaState := state\<rparr>), db))))"

definition applyUsageBillingEffects ::
  "billing_env \<Rightarrow> instant \<Rightarrow> UsageBillingCommand \<Rightarrow> 'p funds_db \<Rightarrow> (UsageBillingApplyResult, 'p) funds_result" where
  "applyUsageBillingEffects env now cmd db =
     then_do (allocateUsageBillingSubscriptions env now cmd db) (\<lambda>(remainingAmount, subscriptionAmount, allocations) db.
       let result = (blank_apply True)\<lparr>ur_BillingAllocations := allocations, ur_SubscriptionAmountUSD := subscriptionAmount\<rparr>;
           balanceAmount = (if UsesBaseAmount cmd then fmul remainingAmount (NonNegativeRate (uc_BalanceRateMultiplier cmd)) else remainingAmount)
       in then_do (charge_balance env cmd balanceAmount result db) (\<lambda>result db.
            let billableAmount = fadd (ur_SubscriptionAmountUSD result) (ur_BalanceAmountUSD result);
                db = (case paying_member (uc_TeamID cmd) (uc_ActorUserID cmd) (uc_UserID cmd) of
                  None \<Rightarrow> db | Some teamID \<Rightarrow> incrementUsageBillingTeamMember env now teamID (uc_ActorUserID cmd) billableAmount db);
                result = (if UsesBaseAmount cmd
                  then result\<lparr>ur_EffectiveRateMultiplier := Some (fdiv billableAmount (uc_BaseAmountUSD cmd))\<rparr> else result)
            in charge_quotas env now cmd billableAmount result db))"

definition applyOnce :: "billing_env \<Rightarrow> instant \<Rightarrow> UsageBillingCommand \<Rightarrow> 'p funds_db \<Rightarrow> (UsageBillingApplyResult attempt, 'p) funds_result" where
  "applyOnce env now cmd db =
     then_do (claimUsageBillingRequest now (uc_RequestID cmd) (uc_APIKeyID cmd) (uc_RequestFingerprint cmd) db) (\<lambda>applied db.
       if \<not> applied then (Inr (Replayed (blank_apply False)), db)
       else then_do (lockUsageBillingUser (uc_UserID cmd) db) (\<lambda>_ db.
         then_do (applyUsageBillingEffects env now cmd db) (\<lambda>result db. (Inr (Committed result), db))))"

definition Apply :: "billing_env \<Rightarrow> instant \<Rightarrow> UsageBillingCommand \<Rightarrow> 'p funds_db \<Rightarrow> (UsageBillingApplyResult, 'p) funds_result" where
  "Apply env now cmd db =
     (let cmd = usage_Normalize env cmd
      in if uc_RequestID cmd = [] then (Inl ErrUsageBillingRequestIDRequired, db)
         else RetryDeadlock postgresDeadlockMaxRetries (transact (applyOnce env now cmd)) db)"

section \<open>Reserving, capturing and releasing the hold of a task\<close>

text \<open>The part of a task's module, on its own tables: \<^verbatim>\<open>SaveReservation\<close> and \<^verbatim>\<open>SetAllowanceReserved\<close>.\<close>

record 'p task_projection =
  tp_SaveReservation :: "string \<Rightarrow> float64 \<Rightarrow> BillingAllocation list \<Rightarrow> float64 \<Rightarrow> float64 \<Rightarrow> 'p \<Rightarrow> funds_error + 'p"
  tp_SetAllowanceReserved :: "string \<Rightarrow> bool \<Rightarrow> 'p \<Rightarrow> funds_error + 'p"

definition on_task :: "('p \<Rightarrow> funds_error + 'p) \<Rightarrow> 'p funds_db \<Rightarrow> (unit, 'p) funds_result" where
  "on_task f db = (case f (fd_Tasks db) of Inl e \<Rightarrow> (Inl e, db) | Inr p \<Rightarrow> (Inr (), db\<lparr>fd_Tasks := p\<rparr>))"

record TaskFundsResult =
  fr_Applied :: bool
  fr_NewBalance :: "float64 option"
  fr_FrozenBalance :: "float64 option"
  fr_HoldAmountUSD :: float64
  fr_EstimatedAmountUSD :: float64
  fr_ActualAmountUSD :: float64
  fr_SubscriptionAmountUSD :: float64
  fr_BalanceAmountUSD :: float64
  fr_BillingAllocations :: "BillingAllocation list"

definition funds_result_of :: "balances \<Rightarrow> TaskFundsResult" where
  "funds_result_of b =
     \<lparr>fr_Applied = False, fr_NewBalance = map_option fst b, fr_FrozenBalance = map_option snd b, fr_HoldAmountUSD = 0,
      fr_EstimatedAmountUSD = 0, fr_ActualAmountUSD = 0, fr_SubscriptionAmountUSD = 0, fr_BalanceAmountUSD = 0,
      fr_BillingAllocations = []\<rparr>"

definition allocation_command :: "TaskFundsCommand \<Rightarrow> UsageBillingCommand" where
  "allocation_command cmd =
     \<lparr>uc_RequestID = [], uc_APIKeyID = 0, uc_RequestFingerprint = [], uc_RequestPayloadHash = [],
      uc_APIKeyBillingMode = fc_APIKeyBillingMode cmd, uc_PreferredSubscriptionID = fc_PreferredSubscriptionID cmd,
      uc_UserID = fc_UserID cmd, uc_ActorUserID = 0, uc_TeamID = None, uc_ProviderID = 0, uc_GroupID = fc_GroupID cmd,
      uc_BillableAmountUSD = fc_HoldAmount cmd, uc_BaseAmountUSD = fc_BaseAmountUSD cmd,
      uc_SubscriptionRateMultiplier = fc_SubscriptionRateMultiplier cmd,
      uc_SubscriptionRateMultiplierScale = fc_SubscriptionRateMultiplierScale cmd,
      uc_BalanceRateMultiplier = fc_BalanceRateMultiplier cmd,
      uc_DisablePlanGroupRateMultiplier = fc_DisablePlanGroupRateMultiplier cmd,
      uc_IncludeAllocationPricing = fc_PricingSnapshotVersion cmd \<ge> 2, uc_ProviderType = [], uc_Model = [],
      uc_ServiceTier = [], uc_ReasoningEffort = [], uc_BillingType = 0, uc_InputTokens = 0, uc_OutputTokens = 0,
      uc_CacheCreationTokens = 0, uc_CacheReadTokens = 0, uc_ImageCount = 0, uc_MediaType = [], uc_APIKeyQuotaCost = 0,
      uc_APIKeyRateLimitCost = 0, uc_ProviderQuotaCost = 0\<rparr>"

text \<open>The command may change on the way: the amounts its quotas are charged.\<close>

definition reserve_estimate :: "TaskFundsCommand \<Rightarrow> float64 \<Rightarrow> BillingAllocation list \<Rightarrow> float64 \<Rightarrow> funds_error + float64" where
  "reserve_estimate cmd balanceAmount allocations holdAmount =
     (if fc_PricingSnapshotVersion cmd \<ge> 2 \<and> fc_BaseAmountUSD cmd > 0
      then case PlanTaskCapture (cmd\<lparr>fc_BalanceHoldAmount := balanceAmount, fc_SubscriptionHoldAllocations := allocations,
               fc_ActualBaseAmountUSD := fc_BaseAmountUSD cmd\<rparr>) of
             Inl e \<Rightarrow> Inl e | Inr plan \<Rightarrow> Inr (cp_ActualAmountUSD plan)
      else Inr holdAmount)"

definition reserveUsageBillingTaskBilling ::
  "billing_env \<Rightarrow> 'p task_projection \<Rightarrow> instant \<Rightarrow> TaskFundsCommand \<Rightarrow> 'p funds_db \<Rightarrow> (TaskFundsResult \<times> TaskFundsCommand, 'p) funds_result"
where
  "reserveUsageBillingTaskBilling env tasks now cmd db =
     (if fc_HoldAmount cmd \<le> 0 \<and> fc_BaseAmountUSD cmd \<le> 0 then (Inr (funds_result_of None, cmd), db)
      else
        let ask = usage_Normalize env (allocation_command cmd)
        in then_do (allocateUsageBillingSubscriptions env now ask db) (\<lambda>(remainingBase, subscriptionAmount, allocations) db.
             if uc_APIKeyBillingMode ask = ''subscription'' \<and> remainingBase > fl (1 / 10 ^ 10)
             then (Inl ErrPreferredSubscriptionInsufficient, db)
             else
               let rate = NonNegativeRate (fc_BalanceRateMultiplier cmd);
                   balanceAmount = normalizeTaskBalanceAmount (if UsesBaseAmount ask then fmul remainingBase rate else remainingBase);
                   holdAmount = fadd subscriptionAmount balanceAmount
               in then_do (reserveUsageBillingTaskBalance env (fc_UserID cmd) balanceAmount db) (\<lambda>b db.
                    case reserve_estimate cmd balanceAmount allocations holdAmount of
                      Inl e \<Rightarrow> (Inl e, db)
                    | Inr estimated \<Rightarrow>
                        then_do (on_task (tp_SaveReservation tasks (tk_ID (fc_Task cmd)) balanceAmount allocations holdAmount estimated) db)
                          (\<lambda>_ db. (Inr ((funds_result_of b)\<lparr>fr_SubscriptionAmountUSD := subscriptionAmount,
                              fr_BalanceAmountUSD := balanceAmount,
                              fr_BillingAllocations := allocations @
                                (if balanceAmount > 0 then [balance_allocation balanceAmount remainingBase rate] else []),
                              fr_HoldAmountUSD := holdAmount, fr_EstimatedAmountUSD := estimated\<rparr>,
                            cmd\<lparr>fc_HoldAmount := holdAmount\<rparr>), db)))))"

text \<open>What a capture reports of its plan.\<close>

definition captured_result :: "TaskFundsCommand \<Rightarrow> TaskCapturePlan \<Rightarrow> TaskFundsResult \<Rightarrow> TaskFundsResult" where
  "captured_result cmd plan r =
     r\<lparr>fr_SubscriptionAmountUSD := cp_SubscriptionAmountUSD plan, fr_BalanceAmountUSD := cp_BalanceAmountUSD plan,
       fr_HoldAmountUSD := TotalTaskHoldAmount cmd, fr_EstimatedAmountUSD := cp_ActualAmountUSD plan,
       fr_ActualAmountUSD := cp_ActualAmountUSD plan, fr_BillingAllocations := cp_BillingAllocations plan\<rparr>"

definition needs_claim :: "TaskFundsCommand \<Rightarrow> bool" where
  "needs_claim cmd \<longleftrightarrow> fc_HoldAmount cmd > 0 \<and>
     (fc_AllowanceReserved cmd \<or> fc_BalanceHoldAmount cmd > 0 \<or> fc_SubscriptionHoldAllocations cmd \<noteq> [])"

definition captureUsageBillingTaskBilling ::
  "billing_env \<Rightarrow> TaskFundsCommand \<Rightarrow> 'p funds_db \<Rightarrow> (TaskFundsResult \<times> TaskFundsCommand, 'p) funds_result" where
  "captureUsageBillingTaskBilling env cmd db =
     (if needs_claim cmd \<and> \<not> taskHoldClaimExists (tk_ReserveRequestID (fc_Task cmd)) (fc_APIKeyID cmd) db
      then (Inl (OtherFundsFailure ''batch image billing hold is missing''), db)
      else
        case PlanTaskCapture cmd of
          Inl e \<Rightarrow> (Inl e, db)
        | Inr plan \<Rightarrow>
            let cmd = cmd\<lparr>fc_ActualAmount := cp_ActualAmountUSD plan\<rparr>
            in then_do (releaseTaskSubscriptionAllocations env (fc_UserID cmd) (fc_ReservedAt cmd) (cp_SubscriptionReleases plan) db)
                 (\<lambda>_ db. then_do
                   (captureUsageBillingTaskBalance env (fc_UserID cmd) (cp_BalanceHoldAmount plan) (cp_BalanceAmountUSD plan) db)
                   (\<lambda>b db. (Inr (captured_result cmd plan (funds_result_of b), cmd), db))))"

definition releaseUsageBillingTaskBilling ::
  "billing_env \<Rightarrow> TaskFundsCommand \<Rightarrow> 'p funds_db \<Rightarrow> (TaskFundsResult \<times> TaskFundsCommand, 'p) funds_result" where
  "releaseUsageBillingTaskBilling env cmd db =
     (if \<not> taskHoldClaimExists (tk_ReserveRequestID (fc_Task cmd)) (fc_APIKeyID cmd) db then (Inr (funds_result_of None, cmd), db)
      else then_do
        (releaseTaskSubscriptionAllocations env (fc_UserID cmd) (fc_ReservedAt cmd) (fc_SubscriptionHoldAllocations cmd) db)
        (\<lambda>_ db. then_do (releaseUsageBillingTaskFrozenBalance env (fc_UserID cmd) (EffectiveTaskBalanceHoldAmount cmd) db)
           (\<lambda>b db. (Inr (funds_result_of b, cmd), db))))"

datatype task_operation = TaskReserve | TaskCapture | TaskRelease

text \<open>
  The quotas. Taking them back is best effort: \<open>skip\<close> says that the database refused it, and the transaction
  goes on from the savepoint before it.
\<close>

definition rollbackTaskAllowanceBestEffort :: "bool \<Rightarrow> ('p funds_db \<Rightarrow> 'p funds_db) \<Rightarrow> 'p funds_db \<Rightarrow> 'p funds_db" where
  "rollbackTaskAllowanceBestEffort skip rollback db = (if skip then db else rollback db)"

definition release_allowance :: "billing_env \<Rightarrow> bool \<Rightarrow> TaskFundsCommand \<Rightarrow> float64 \<Rightarrow> 'p funds_db \<Rightarrow> 'p funds_db" where
  "release_allowance env skip cmd amount =
     rollbackTaskAllowanceBestEffort skip (\<lambda>db. releaseTaskMemberAllowance env cmd amount
       (releaseTaskAPIKeyAllowance env (fc_APIKeyID cmd) amount (fc_ReservedAt cmd) db))"

definition charge_legacy :: "billing_env \<Rightarrow> instant \<Rightarrow> TaskFundsCommand \<Rightarrow> 'p funds_db \<Rightarrow> 'p funds_db" where
  "charge_legacy env now cmd db =
     (let db = chargeLegacyTaskAPIKey env now (fc_APIKeyID cmd) (fc_ActualAmount cmd) db
      in case paying_member (fc_TeamID cmd) (fc_ActorUserID cmd) (fc_UserID cmd) of
           None \<Rightarrow> db
         | Some teamID \<Rightarrow> incrementUsageBillingTeamMember env now teamID (fc_ActorUserID cmd) (fc_ActualAmount cmd) db)"

definition applyTaskAllowance ::
  "billing_env \<Rightarrow> 'p task_projection \<Rightarrow> bool \<Rightarrow> instant \<Rightarrow> TaskFundsCommand \<Rightarrow> task_operation \<Rightarrow> 'p funds_db \<Rightarrow> (unit, 'p) funds_result"
where
  "applyTaskAllowance env tasks skip now cmd operation db =
     (if fc_HoldAmount cmd \<le> 0 \<and> fc_BaseAmountUSD cmd \<le> 0 then (Inr (), db)
      else
        let taskID = tk_ID (fc_Task cmd)
        in case operation of
             TaskReserve \<Rightarrow>
               then_do (reserveTaskAPIKeyAllowance env now (fc_APIKeyID cmd) (fc_HoldAmount cmd)
                   (if fc_ReservedAt cmd = 0 then now else fc_ReservedAt cmd) db) (\<lambda>_ db.
                 then_do (reserveTaskMemberAllowance env now cmd (fc_HoldAmount cmd) db) (\<lambda>_ db.
                   on_task (tp_SetAllowanceReserved tasks taskID True) db))
           | TaskCapture \<Rightarrow>
               (let adjustment = fsub (fc_HoldAmount cmd) (fc_ActualAmount cmd);
                    db = (if fc_AllowanceReserved cmd then if adjustment > 0 then release_allowance env skip cmd adjustment db else db
                      else if fc_ActualAmount cmd > 0 then charge_legacy env now cmd db else db)
                in on_task (tp_SetAllowanceReserved tasks taskID False) db)
           | TaskRelease \<Rightarrow>
               on_task (tp_SetAllowanceReserved tasks taskID False)
                 (if fc_AllowanceReserved cmd then release_allowance env skip cmd (fc_HoldAmount cmd) db else db))"

text \<open>What a repeated request reports.\<close>

definition taskBillingResultForCommand :: "TaskFundsCommand \<Rightarrow> task_operation \<Rightarrow> TaskFundsResult" where
  "taskBillingResultForCommand cmd operation =
     (let result = funds_result_of None
      in case operation of
           TaskCapture \<Rightarrow> (case PlanTaskCapture cmd of Inl _ \<Rightarrow> result | Inr plan \<Rightarrow> captured_result cmd plan result)
         | TaskRelease \<Rightarrow> result
         | TaskReserve \<Rightarrow>
             (let held = filter (\<lambda>a. ba_Type a = ''subscription'' \<and> ba_AmountUSD a > 0) (fc_SubscriptionHoldAllocations cmd);
                  subscriptionAmount = fold (\<lambda>a total. fadd total (ba_AmountUSD a)) held 0;
                  balanceAmount = EffectiveTaskBalanceHoldAmount cmd;
                  holdAmount = fadd subscriptionAmount balanceAmount;
                  estimated = (if fc_PricingSnapshotVersion cmd \<ge> 2 \<and> fc_BaseAmountUSD cmd > 0
                    then case PlanTaskCapture (cmd\<lparr>fc_ActualBaseAmountUSD := fc_BaseAmountUSD cmd\<rparr>) of
                           Inl _ \<Rightarrow> holdAmount | Inr plan \<Rightarrow> cp_ActualAmountUSD plan
                    else holdAmount)
              in result\<lparr>fr_SubscriptionAmountUSD := subscriptionAmount, fr_BalanceAmountUSD := balanceAmount,
                   fr_BillingAllocations := held @ (if balanceAmount > 0 then [balance_allocation balanceAmount 0 0] else []),
                   fr_HoldAmountUSD := holdAmount, fr_EstimatedAmountUSD := estimated\<rparr>))"

definition apply_operation ::
  "billing_env \<Rightarrow> 'p task_projection \<Rightarrow> instant \<Rightarrow> task_operation \<Rightarrow> TaskFundsCommand \<Rightarrow> 'p funds_db
     \<Rightarrow> (TaskFundsResult \<times> TaskFundsCommand, 'p) funds_result" where
  "apply_operation env tasks now operation cmd =
     (case operation of
        TaskReserve \<Rightarrow> reserveUsageBillingTaskBilling env tasks now cmd
      | TaskCapture \<Rightarrow> captureUsageBillingTaskBilling env cmd
      | TaskRelease \<Rightarrow> releaseUsageBillingTaskBilling env cmd)"

definition applyTaskBalanceHoldOnce ::
  "billing_env \<Rightarrow> 'p task_projection \<Rightarrow> bool \<Rightarrow> instant \<Rightarrow> task_operation \<Rightarrow> TaskFundsCommand \<Rightarrow> 'p funds_db
     \<Rightarrow> (TaskFundsResult attempt, 'p) funds_result" where
  "applyTaskBalanceHoldOnce env tasks skip now operation cmd db =
     then_do (claimUsageBillingRequest now (fc_RequestID cmd) (fc_APIKeyID cmd) (fc_RequestFingerprint cmd) db) (\<lambda>applied db.
       if \<not> applied then (Inr (Replayed (taskBillingResultForCommand cmd operation)), db)
       else then_do (lockUsageBillingUser (fc_UserID cmd) db) (\<lambda>_ db.
         then_do (apply_operation env tasks now operation cmd db) (\<lambda>(result, cmd) db.
           then_do (applyTaskAllowance env tasks skip now cmd operation db) (\<lambda>_ db.
             (Inr (Committed (result\<lparr>fr_Applied := True\<rparr>)), db)))))"

text \<open>\<open>scopes\<close> has the projection of each module.\<close>

definition applyTaskBalanceHold ::
  "billing_env \<Rightarrow> (string \<rightharpoonup> 'p task_projection) \<Rightarrow> bool \<Rightarrow> instant \<Rightarrow> task_operation \<Rightarrow> TaskFundsCommand \<Rightarrow> 'p funds_db
     \<Rightarrow> (TaskFundsResult, 'p) funds_result" where
  "applyTaskBalanceHold env scopes skip now operation cmd db =
     (case scopes (tk_Scope (fc_Task cmd)) of
        None \<Rightarrow> (Inl (OtherFundsFailure ''unsupported billing task scope''), db)
      | Some tasks \<Rightarrow>
          let cmd = funds_Normalize env cmd
          in if fc_RequestID cmd = [] then (Inl ErrUsageBillingRequestIDRequired, db)
             else RetryDeadlock postgresDeadlockMaxRetries (transact (applyTaskBalanceHoldOnce env tasks skip now operation cmd)) db)"

text \<open>From \<^verbatim>\<open>billing/funds.go\<close>: \<^verbatim>\<open>Reserve\<close>, \<^verbatim>\<open>Capture\<close> and \<^verbatim>\<open>Release\<close> of the funds.\<close>

definition funds_operation ::
  "billing_env \<Rightarrow> (string \<rightharpoonup> 'p task_projection) \<Rightarrow> bool \<Rightarrow> instant \<Rightarrow> task_operation \<Rightarrow> TaskFundsCommand \<Rightarrow> 'p funds_db
     \<Rightarrow> (TaskFundsResult, 'p) funds_result" where
  "funds_operation env scopes skip now operation cmd db =
     (if tk_Scope (fc_Task cmd) = [] \<or> tk_ReserveRequestID (fc_Task cmd) = []
      then (Inl (OtherFundsFailure ''billing task reference is incomplete''), db)
      else applyTaskBalanceHold env scopes skip now operation cmd db)"

end
