(* ===== verification/Funds_Once.thy ===== *)
theory Funds_Once
  imports Funds_Task
begin

text \<open>
  The funds over a history of requests: what one operation does to the money, and that each request counts once,
  however it is repeated, retried after a deadlock, left unanswered, or moved to the archive of claims.
\<close>

section \<open>Histories\<close>

datatype funds_request =
    UsageRequest UsageBillingCommand
  | TaskRequest task_operation TaskFundsCommand bool
  | ArchiveRound instant nat

definition serve :: "billing_env \<Rightarrow> (string \<rightharpoonup> 'p task_projection) \<Rightarrow> instant \<times> funds_request \<Rightarrow> 'p funds_db \<Rightarrow> 'p funds_db" where
  "serve env scopes r db =
     (case r of
        (now, UsageRequest cmd) \<Rightarrow> snd (Apply env now cmd db)
      | (now, TaskRequest operation cmd skip) \<Rightarrow> snd (funds_operation env scopes skip now operation cmd db)
      | (now, ArchiveRound cutoff batchSize) \<Rightarrow> snd (archive_round cutoff batchSize db))"

text \<open>The claim a request asks for.\<close>

definition request_key :: "billing_env \<Rightarrow> funds_request \<Rightarrow> (string \<times> int) option" where
  "request_key env r =
     (case r of
        UsageRequest cmd \<Rightarrow> Some (uc_RequestID (usage_Normalize env cmd), uc_APIKeyID cmd)
      | TaskRequest _ cmd _ \<Rightarrow> Some (fc_RequestID (funds_Normalize env cmd), fc_APIKeyID cmd)
      | ArchiveRound _ _ \<Rightarrow> None)"

text \<open>All that a request can change but the claims and the faults ahead.\<close>

definition money :: "'p funds_db \<Rightarrow> 'p funds_db" where
  "money db = db\<lparr>fd_Dedup := [], fd_Archive := [], fd_Faults := []\<rparr>"

definition has_claim :: "string \<times> int \<Rightarrow> 'p funds_db \<Rightarrow> bool" where
  "has_claim key db \<longleftrightarrow> taskHoldClaimExists (fst key) (snd key) db"

text \<open>How often a request for the claim \<open>key\<close> changed anything.\<close>

fun effects :: "billing_env \<Rightarrow> (string \<rightharpoonup> 'p task_projection) \<Rightarrow> string \<times> int \<Rightarrow> (instant \<times> funds_request) list \<Rightarrow> 'p funds_db \<Rightarrow> nat" where
  "effects env scopes key [] db = 0"
| "effects env scopes key (r # rs) db =
     (let db' = serve env scopes r db
      in (if request_key env (snd r) = Some key \<and> money db' \<noteq> money db then 1 else 0) + effects env scopes key rs db')"

section \<open>Claims stay\<close>

text \<open>The claims of \<open>db\<close>, and those that \<open>db'\<close> keeps of them.\<close>

definition keeps_claims :: "'p funds_db \<Rightarrow> 'p funds_db \<Rightarrow> bool" where
  "keeps_claims db db' \<longleftrightarrow> (\<forall>key. has_claim key db \<longrightarrow> has_claim key db')"

definition same_claims :: "'p funds_db \<Rightarrow> 'p funds_db \<Rightarrow> bool" where
  "same_claims db db' \<longleftrightarrow> fd_Dedup db' = fd_Dedup db \<and> fd_Archive db' = fd_Archive db"

lemma keeps_claims_refl [simp]: "keeps_claims db db"
  by (simp add: keeps_claims_def)

lemma keeps_claims_trans: "keeps_claims a b \<Longrightarrow> keeps_claims b c \<Longrightarrow> keeps_claims a c"
  by (simp add: keeps_claims_def)

lemma has_claim_same: "same_claims db db' \<Longrightarrow> has_claim key db' = has_claim key db"
  by (simp add: same_claims_def has_claim_def taskHoldClaimExists_def)

lemma same_claims_refl [simp]: "same_claims db db"
  by (simp add: same_claims_def)

lemma same_claims_trans: "same_claims a b \<Longrightarrow> same_claims b c \<Longrightarrow> same_claims a c"
  by (simp add: same_claims_def)

lemma archive_keeps_claims: "keeps_claims db (snd (archive_round cutoff batchSize db))"
  unfolding keeps_claims_def
proof (intro allI impI)
  fix key assume claim: "has_claim key db"
  let ?same = "same_request (fst key) (snd key)"
  let ?victims = "take batchSize (filter (\<lambda>r. dd_CreatedAt r < cutoff) (fd_Dedup db))"
  have other: "same_request (dd_RequestID v) (dd_APIKeyID v) r \<longleftrightarrow> ?same r" if "?same v" for v r
    using that by (auto simp: same_request_def)
  show "has_claim key (snd (archive_round cutoff batchSize db))"
  proof (cases "list_ex ?same (fd_Archive db)")
    case True
    then show ?thesis by (simp add: has_claim_def taskHoldClaimExists_def archive_round_def Let_def)
  next
    case False
    then obtain r where r: "r \<in> set (fd_Dedup db)" "?same r"
      using claim by (auto simp: has_claim_def taskHoldClaimExists_def list_ex_iff)
    have "r \<in> set ?victims \<Longrightarrow> \<not> list_ex (same_request (dd_RequestID r) (dd_APIKeyID r)) (fd_Archive db)"
      using False other [OF r(2)] by (simp add: list_ex_iff)
    then show ?thesis
      using r by (auto simp: has_claim_def taskHoldClaimExists_def archive_round_def Let_def list_ex_iff)
  qed
qed

section \<open>What the operations leave alone\<close>

text \<open>Neither the claims nor the balances change.\<close>

definition quiet :: "'p funds_db \<Rightarrow> 'p funds_db \<Rightarrow> bool" where
  "quiet db db' \<longleftrightarrow> same_claims db db' \<and> fd_Users db' = fd_Users db"

lemma quiet_refl [simp]: "quiet db db"
  by (simp add: quiet_def)

lemma quiet_trans: "quiet a b \<Longrightarrow> quiet b c \<Longrightarrow> quiet a c"
  by (auto simp: quiet_def intro: same_claims_trans)

lemma quiet_claims: "quiet db db' \<Longrightarrow> same_claims db db'"
  by (simp add: quiet_def)

lemma then_do_rel:
  assumes "R db (snd x)" and "\<And>a db'. R db' (snd (f a db'))" and "\<And>a b c. R a b \<Longrightarrow> R b c \<Longrightarrow> R a c"
  shows "R db (snd (then_do x f))"
  using assms unfolding then_do_def by (auto split: prod.split sum.split)

lemmas quiet_then = then_do_rel [where R = quiet, OF _ _ quiet_trans]
  and same_claims_then = then_do_rel [where R = same_claims, OF _ _ same_claims_trans]

lemma quiet_simps [simp]:
  "quiet db (db'\<lparr>fd_Subs := ss\<rparr>) = quiet db db'" "quiet db (db'\<lparr>fd_Keys := ks\<rparr>) = quiet db db'"
  "quiet db (db'\<lparr>fd_Members := ms\<rparr>) = quiet db db'" "quiet db (db'\<lparr>fd_Providers := ps\<rparr>) = quiet db db'"
  "quiet db (db'\<lparr>fd_Outbox := os\<rparr>) = quiet db db'" "quiet db (db'\<lparr>fd_Tasks := t\<rparr>) = quiet db db'"
  "quiet db (db'\<lparr>fd_Faults := fs\<rparr>) = quiet db db'"
  by (simp_all add: quiet_def same_claims_def)

lemma claims_users [simp]: "same_claims db (db'\<lparr>fd_Users := us\<rparr>) = same_claims db db'"
  by (simp add: same_claims_def)

lemma quiet_update_subscriptions: "quiet db (snd (update_subscriptions env rows db))"
  by (induction rows arbitrary: db) (auto intro!: quiet_then simp: updateUsageBillingSubscription_def Let_def)

lemma quiet_allocate: "quiet db (snd (allocateUsageBillingSubscriptions env now cmd db))"
  unfolding allocateUsageBillingSubscriptions_def
  by (auto intro!: quiet_then quiet_update_subscriptions split: sum.split prod.split)

lemma quiet_release_allocations: "quiet db (snd (releaseTaskSubscriptionAllocations env userID t as db))"
proof (induction as arbitrary: db)
  case (Cons a as)
  show ?case by (auto simp: Let_def intro: quiet_trans [OF _ Cons.IH] Cons.IH)
qed simp

lemma quiet_quotas:
  "quiet db (snd (reserveTaskAPIKeyAllowance env now apiKeyID amount t db))"
  "quiet db (releaseTaskAPIKeyAllowance env apiKeyID amount t db)"
  "quiet db (chargeLegacyTaskAPIKey env now apiKeyID amount db)"
  "quiet db (snd (incrementUsageBillingAPIKeyQuota env apiKeyID amount db))"
  "quiet db (snd (incrementUsageBillingAPIKeyRateLimit env now apiKeyID amount db))"
  "quiet db (snd (reserveTaskMemberAllowance env now fc amount db))"
  "quiet db (releaseTaskMemberAllowance env fc amount db)"
  "quiet db (incrementUsageBillingTeamMember env now teamID actor amount db)"
  "quiet db (snd (incrementUsageBillingProviderQuota env now providerID amount db))"
  by (simp_all add: reserveTaskAPIKeyAllowance_def releaseTaskAPIKeyAllowance_def chargeLegacyTaskAPIKey_def
      incrementUsageBillingAPIKeyQuota_def incrementUsageBillingAPIKeyRateLimit_def reserveTaskMemberAllowance_def
      taskMemberAllowanceError_def releaseTaskMemberAllowance_def incrementUsageBillingTeamMember_def
      incrementUsageBillingProviderQuota_def Let_def split: option.split)

lemma quiet_on_task: "quiet db (snd (on_task f db))"
  by (simp add: on_task_def split: sum.split)

lemmas quiet_parts = quiet_allocate quiet_release_allocations quiet_quotas quiet_on_task

lemma quiet_charge_quotas: "quiet db (snd (charge_quotas env now cmd billable result db))"
  unfolding charge_quotas_def by (auto intro!: quiet_then quiet_parts simp: Let_def split: prod.split)

lemma quiet_release_allowance: "quiet db (release_allowance env skip cmd amount db)"
  by (auto simp: release_allowance_def rollbackTaskAllowanceBestEffort_def intro: quiet_trans quiet_quotas)

lemma quiet_charge_legacy: "quiet db (charge_legacy env now cmd db)"
  by (auto simp: charge_legacy_def Let_def split: option.split intro: quiet_trans quiet_quotas)

lemma quiet_allowance: "quiet db (snd (applyTaskAllowance env tasks skip now cmd operation db))"
  unfolding applyTaskAllowance_def
  by (cases operation)
    (auto intro!: quiet_then quiet_parts quiet_trans [OF _ quiet_on_task] quiet_release_allowance quiet_charge_legacy simp: Let_def)

lemma quiet_lock: "quiet db (snd (lockUsageBillingUser userID db))"
  by (simp add: lockUsageBillingUser_def)

lemma claims_update_balance: "same_claims db (snd (update_balance userID e cond upd db))"
  by (simp add: update_balance_def set_users_def Let_def)

lemma claims_balances:
  "same_claims db (snd (reserveUsageBillingTaskBalance env userID amount db))"
  "same_claims db (snd (captureUsageBillingTaskBalance env userID hold actual db))"
  "same_claims db (snd (releaseUsageBillingTaskFrozenBalance env userID amount db))"
  "same_claims db (snd (deductUsageBillingBalance env userID amount db))"
  by (simp_all add: reserveUsageBillingTaskBalance_def captureUsageBillingTaskBalance_def
      releaseUsageBillingTaskFrozenBalance_def deductUsageBillingBalance_def set_users_def claims_update_balance Let_def)

lemmas claims_parts = claims_balances quiet_parts [THEN quiet_claims]

lemma claims_effects: "same_claims db (snd (applyUsageBillingEffects env now cmd db))"
  unfolding applyUsageBillingEffects_def charge_balance_def
  by (auto intro!: same_claims_then claims_parts same_claims_trans [OF _ quiet_charge_quotas [THEN quiet_claims]]
      simp: Let_def split: prod.split option.split)

lemma claims_apply_operation: "same_claims db (snd (apply_operation env tasks now operation cmd db))"
  unfolding apply_operation_def reserveUsageBillingTaskBilling_def captureUsageBillingTaskBilling_def
    releaseUsageBillingTaskBilling_def
  by (cases operation) (auto intro!: same_claims_then claims_parts simp: Let_def split: prod.split sum.split)

section \<open>What a claim decides\<close>

text \<open>
  A transaction that asks for a claim: when it has been given before, the transaction is not committed, or it reports
  a conflict; when it is committed, the claim is there.
\<close>

definition guarded :: "string \<times> int \<Rightarrow> ('p funds_db \<Rightarrow> ('a attempt, 'p) funds_result) \<Rightarrow> bool" where
  "guarded key body \<longleftrightarrow> (\<forall>db a db'. body db = (Inr (Committed a), db') \<longrightarrow>
     \<not> has_claim key db \<and> has_claim key db' \<and> keeps_claims db db')"

lemma claim_given:
  assumes "claimUsageBillingRequest now requestID apiKeyID fingerprint db = (Inr True, db')"
  shows "\<not> has_claim (requestID, apiKeyID) db \<and> has_claim (requestID, apiKeyID) db' \<and> keeps_claims db db' \<and> money db' = money db"
  using assms
  by (auto simp: claimUsageBillingRequest_def has_claim_def taskHoldClaimExists_def keeps_claims_def money_def same_request_def
      find_None_iff list_ex_iff Let_def split: option.splits if_splits)

lemma guarded_claim:
  assumes "\<And>db. same_claims db (snd (rest db))"
  shows "guarded (requestID, apiKeyID) (\<lambda>db. then_do (claimUsageBillingRequest now requestID apiKeyID fingerprint db)
    (\<lambda>applied db. if \<not> applied then (Inr (Replayed r), db) else rest db))"
  unfolding guarded_def
proof (intro allI impI)
  fix db a db'
  assume run: "then_do (claimUsageBillingRequest now requestID apiKeyID fingerprint db)
    (\<lambda>applied db. if \<not> applied then (Inr (Replayed r), db) else rest db) = (Inr (Committed a), db')"
  then obtain db1 where claim: "claimUsageBillingRequest now requestID apiKeyID fingerprint db = (Inr True, db1)"
    and "rest db1 = (Inr (Committed a), db')"
    by (auto simp: then_do_def split: prod.splits sum.splits if_splits)
  then have "same_claims db1 db'" using assms [of db1] by simp
  then show "\<not> has_claim (requestID, apiKeyID) db \<and> has_claim (requestID, apiKeyID) db' \<and> keeps_claims db db'"
    using claim_given [OF claim] by (simp add: has_claim_same keeps_claims_def)
qed

lemma guarded_usage: "guarded (uc_RequestID cmd, uc_APIKeyID cmd) (applyOnce env now cmd)"
  unfolding applyOnce_def
  by (rule guarded_claim) (auto intro!: same_claims_then claims_effects quiet_lock [THEN quiet_claims])

lemma guarded_task: "guarded (fc_RequestID cmd, fc_APIKeyID cmd) (applyTaskBalanceHoldOnce env tasks skip now operation cmd)"
  unfolding applyTaskBalanceHoldOnce_def
  by (rule guarded_claim)
    (auto intro!: same_claims_then claims_apply_operation quiet_allowance [THEN quiet_claims] quiet_lock [THEN quiet_claims] split: prod.split)

text \<open>The money changes only with a new claim.\<close>

definition once :: "string \<times> int \<Rightarrow> 'p funds_db \<Rightarrow> 'p funds_db \<Rightarrow> bool" where
  "once key db db' \<longleftrightarrow> keeps_claims db db' \<and> (money db' = money db \<or> \<not> has_claim key db \<and> has_claim key db')"

lemma once_refl [simp]: "once key db db"
  by (simp add: once_def)

lemma once_trans: "once key a b \<Longrightarrow> once key b c \<Longrightarrow> once key a c"
  by (cases key) (auto simp: once_def keeps_claims_def)

lemma once_faults [simp]: "once key db (db\<lparr>fd_Faults := fs\<rparr>)"
  by (simp add: once_def money_def keeps_claims_def has_claim_def taskHoldClaimExists_def)

lemma once_transact:
  assumes "guarded key body" shows "once key db (snd (transact body db))"
proof -
  let ?rest = "db\<lparr>fd_Faults := tl (fd_Faults db)\<rparr>"
  have "snd (transact body db) = ?rest \<or> (\<exists>a. body ?rest = (Inr (Committed a), snd (transact body db)))"
    unfolding transact_def Let_def
    by (auto split: prod.splits sum.splits attempt.splits list.splits funds_fault.splits)
  then show ?thesis
  proof
    assume "\<exists>a. body ?rest = (Inr (Committed a), snd (transact body db))"
    then have "once key ?rest (snd (transact body db))" using assms by (auto simp: guarded_def once_def)
    with once_faults show ?thesis by (rule once_trans)
  qed simp
qed

lemma once_retry:
  assumes "guarded key body" shows "once key db (snd (RetryDeadlock n (transact body) db))"
proof (induction n arbitrary: db)
  case (Suc n)
  show ?case
    using once_transact [OF assms, of db] Suc.IH
    by (auto split: prod.split sum.split funds_error.split intro: once_trans)
qed (simp add: once_transact [OF assms])

lemma once_serve:
  "case request_key env (snd r) of
     Some key \<Rightarrow> once key db (serve env scopes r db)
   | None \<Rightarrow> keeps_claims db (serve env scopes r db) \<and> money (serve env scopes r db) = money db"
proof -
  obtain now req where r: "r = (now, req)" by force
  have keys: "uc_APIKeyID (usage_Normalize env c) = uc_APIKeyID c" "fc_APIKeyID (funds_Normalize env f) = fc_APIKeyID f" for c f
    by (simp_all add: usage_Normalize_def quantizeMonetaryFields_def funds_Normalize_def Let_def)
  show ?thesis
  proof (cases req)
    case (UsageRequest cmd)
    then show ?thesis
      using once_retry [OF guarded_usage [of "usage_Normalize env cmd" env now], of db postgresDeadlockMaxRetries] keys(1) [of cmd]
      by (simp add: r serve_def request_key_def Apply_def Let_def)
  next
    case (TaskRequest operation cmd skip)
    then show ?thesis
      using keys(2) [of cmd]
      by (auto simp: r serve_def request_key_def funds_operation_def applyTaskBalanceHold_def Let_def split: option.split
          intro: once_retry guarded_task [of "funds_Normalize env cmd" env, simplified keys])
  next
    case (ArchiveRound cutoff batchSize)
    then show ?thesis
      using archive_keeps_claims by (simp add: r serve_def request_key_def) (simp add: archive_round_def money_def Let_def)
  qed
qed

lemma claim_stays: "has_claim key db \<Longrightarrow> has_claim key (serve env scopes r db)"
  using once_serve [where env = env and r = r and db = db and scopes = scopes]
  by (cases key) (auto simp: once_def keeps_claims_def split: option.splits)

lemma claimed_no_effect: "has_claim key db \<Longrightarrow> effects env scopes key rs db = 0"
proof (induction rs arbitrary: db)
  case (Cons r rs)
  have "request_key env (snd r) = Some key \<Longrightarrow> money (serve env scopes r db) = money db"
    using once_serve [where env = env and r = r and db = db and scopes = scopes] Cons.prems by (simp add: once_def)
  then show ?case using Cons.IH [OF claim_stays [OF Cons.prems]] by (simp add: Let_def)
qed simp

text \<open>
  C5: A request is charged at most once: over any history of settlements, reservations, captures, releases and
  rounds of archiving, the requests under one request id and key change the balances, quotas and task rows at most once,
  and not at all once the claim is there, whichever transactions are lost, left unanswered or repeated
  after deadlocks.
\<close>

theorem request_counts_once:
  "effects env scopes key rs db \<le> (if has_claim key db then 0 else 1)"
proof (induction rs arbitrary: db)
  case (Cons r rs)
  show ?case
  proof (cases "request_key env (snd r) = Some key \<and> money (serve env scopes r db) \<noteq> money db")
    case True
    then have "\<not> has_claim key db" "has_claim key (serve env scopes r db)"
      using once_serve [where env = env and r = r and db = db and scopes = scopes] by (auto simp: once_def)
    then show ?thesis using claimed_no_effect [of key "serve env scopes r db"] by (simp add: Let_def)
  next
    case False
    then have "effects env scopes key (r # rs) db = effects env scopes key rs (serve env scopes r db)"
      by (auto simp: Let_def)
    moreover have "has_claim key db \<longrightarrow> has_claim key (serve env scopes r db)" by (simp add: claim_stays)
    ultimately show ?thesis using Cons.IH [of "serve env scopes r db"] by (auto split: if_splits)
  qed
qed simp

end
