(* ===== verification/Funds_Money.thy ===== *)
theory Funds_Money
  imports Funds_Once Bill_Sample
begin

text \<open>
  What the operations do to balances: a hold moves money between what a user has and what is frozen, only a
  charge takes some away, and what is frozen is never negative.
\<close>

section \<open>Rounding to the scale of a column\<close>

lemma stored_nonneg: "0 \<le> x \<Longrightarrow> 0 \<le> stored scale x"
  by (simp add: stored_def)

lemma stored_near: "\<bar>stored scale x - x\<bar> \<le> 1 / (2 * 10 ^ scale)"
proof -
  let ?p = "10 ^ scale :: rat"
  have near: "\<bar>of_int \<lfloor>y * ?p + 1 / 2\<rfloor> / ?p - y\<bar> \<le> 1 / (2 * ?p)" for y :: rat
  proof -
    have "\<bar>of_int \<lfloor>y * ?p + 1 / 2\<rfloor> - y * ?p\<bar> \<le> 1 / 2" by linarith
    then have "\<bar>of_int \<lfloor>y * ?p + 1 / 2\<rfloor> - y * ?p\<bar> / ?p \<le> 1 / 2 / ?p" by (rule divide_right_mono) simp
    moreover have "\<bar>of_int \<lfloor>y * ?p + 1 / 2\<rfloor> - y * ?p\<bar> / ?p = \<bar>(of_int \<lfloor>y * ?p + 1 / 2\<rfloor> - y * ?p) / ?p\<bar>" by simp
    ultimately show ?thesis by (simp add: diff_divide_distrib)
  qed
  show ?thesis using near [of x] near [of "- x"] by (auto simp: stored_def abs_le_iff)
qed

section \<open>Money in motion\<close>

definition total_of :: "user_row \<Rightarrow> rat" where
  "total_of u = us_Balance u + us_Frozen u"

text \<open>\<open>charge\<close> leaves the account of \<open>payer\<close>, up to the rounding of its two columns, and no other account changes.\<close>

definition account_moved :: "int \<Rightarrow> rat \<Rightarrow> user_row \<Rightarrow> user_row \<Rightarrow> bool" where
  "account_moved payer charge u u' \<longleftrightarrow>
     u' = u \<or> us_ID u = payer \<and> us_ID u' = us_ID u \<and> us_Deleted u' = us_Deleted u \<and>
       (0 \<le> us_Frozen u \<longrightarrow> 0 \<le> us_Frozen u') \<and>
       \<bar>total_of u' - (total_of u - charge)\<bar> \<le> 1 / 10 ^ 8"

definition moved :: "int \<Rightarrow> rat \<Rightarrow> 'p funds_db \<Rightarrow> 'p funds_db \<Rightarrow> bool" where
  "moved payer charge db db' \<longleftrightarrow> list_all2 (account_moved payer charge) (fd_Users db) (fd_Users db')"

lemma account_moved_refl [simp]: "account_moved payer charge u u"
  by (simp add: account_moved_def)

lemma moved_refl [simp]: "moved payer charge db db"
  by (simp add: moved_def list_all2_refl)

lemma moved_faults [simp]: "moved payer charge (db\<lparr>fd_Faults := fs\<rparr>) db' = moved payer charge db db'"
  "moved payer charge db (db'\<lparr>fd_Faults := fs\<rparr>) = moved payer charge db db'"
  by (simp_all add: moved_def)

lemma moved_quiet: "moved payer charge b c \<Longrightarrow> quiet a b \<Longrightarrow> quiet c d \<Longrightarrow> moved payer charge a d"
  by (simp add: moved_def quiet_def)

lemma moved_update_balance:
  assumes "update_balance userID e cond upd db = (Inr b, db')"
    and "\<And>u. us_ID u = userID \<Longrightarrow> cond u \<Longrightarrow> account_moved userID charge u (upd u)"
  shows "moved userID charge db db'"
proof -
  have "db' = set_users (\<lambda>u. live_user userID u \<and> cond u) upd db"
    using assms(1) by (auto simp: update_balance_def Let_def split: if_splits)
  then show ?thesis
    using assms(2) by (auto simp: moved_def set_users_def update_where_def list_all2_map2 list_all2_same live_user_def)
qed

lemma stored_pair: "\<bar>stored 8 x + stored 8 y - (x + y)\<bar> \<le> 1 / 10 ^ 8"
proof -
  have "\<bar>stored 8 x - x\<bar> \<le> 1 / (2 * 10 ^ 8)" "\<bar>stored 8 y - y\<bar> \<le> 1 / (2 * 10 ^ 8)" by (rule stored_near)+
  then show ?thesis by linarith
qed

lemma account_movedI:
  assumes "us_ID u = payer" and "0 \<le> us_Frozen u \<Longrightarrow> 0 \<le> y" and "x + y = total_of u - charge"
  shows "account_moved payer charge u (u\<lparr>us_Balance := stored 8 x, us_Frozen := stored 8 y\<rparr>)"
  using assms stored_pair [of x y] stored_nonneg [of y 8] by (simp add: account_moved_def total_of_def)

text \<open>An operation on the balance, run to its end.\<close>

lemma reserve_moved:
  assumes "reserveUsageBillingTaskBalance env userID amount db = (Inr b, db')" and "\<And>x. 0 \<le> x \<Longrightarrow> 0 \<le> be_dec env x"
  shows "moved userID 0 db db'"
proof (cases "amount \<le> 0")
  case False
  then have "0 \<le> be_dec env amount" using assms(2) by simp
  then have "account_moved userID 0 u (u\<lparr>us_Balance := stored 8 (us_Balance u - be_dec env amount),
      us_Frozen := stored 8 (us_Frozen u + be_dec env amount)\<rparr>)" if "us_ID u = userID" for u
    using that by (intro account_movedI) (simp_all add: total_of_def)
  then show ?thesis
    using assms(1) False
    by (auto simp: reserveUsageBillingTaskBalance_def Let_def intro: moved_update_balance)
qed (use assms in \<open>simp add: reserveUsageBillingTaskBalance_def\<close>)

lemma release_moved:
  assumes "releaseUsageBillingTaskFrozenBalance env userID amount db = (Inr b, db')"
  shows "moved userID 0 db db'"
proof -
  have "account_moved userID 0 u (u\<lparr>us_Balance := stored 8 (us_Balance u + d), us_Frozen := stored 8 (us_Frozen u - d)\<rparr>)"
    if "us_ID u = userID" "us_Frozen u \<ge> d" for u d
    using that by (intro account_movedI) (simp_all add: total_of_def)
  then show ?thesis
    using assms by (auto simp: releaseUsageBillingTaskFrozenBalance_def Let_def split: if_splits intro: moved_update_balance)
qed

text \<open>What a capture takes.\<close>

definition balance_taken :: "billing_env \<Rightarrow> float64 \<Rightarrow> float64 \<Rightarrow> rat" where
  "balance_taken env hold actual =
     (if normalizeTaskBalanceAmount hold > 0 \<or> normalizeTaskBalanceAmount actual > 0
      then be_dec env (normalizeTaskBalanceAmount actual) else 0)"

lemma capture_moved:
  assumes "captureUsageBillingTaskBalance env userID hold actual db = (Inr b, db')"
  shows "moved userID (balance_taken env hold actual) db db'"
proof -
  define h where "h = be_dec env (normalizeTaskBalanceAmount hold)"
  define a where "a = be_dec env (normalizeTaskBalanceAmount actual)"
  let ?upd = "\<lambda>u. u\<lparr>us_Balance := stored 8 (us_Balance u + (if h > a then h - a else 0) - (if a > h then a - h else 0)),
      us_Frozen := stored 8 (us_Frozen u - h)\<rparr>"
  have upd: "account_moved userID a u (?upd u)" if "us_ID u = userID" "us_Frozen u \<ge> h" for u
    using that by (intro account_movedI) (simp_all add: total_of_def)
  consider "normalizeTaskBalanceAmount hold \<le> 0" "normalizeTaskBalanceAmount actual \<le> 0" "db' = db"
    | "balance_taken env hold actual = a" "update_balance userID (OtherFundsFailure ''batch image frozen balance is insufficient'')
        (\<lambda>u. us_Frozen u \<ge> h) ?upd db = (Inr b, db')"
    using assms unfolding captureUsageBillingTaskBalance_def Let_def balance_taken_def h_def [symmetric] a_def [symmetric]
    by (auto simp del: not_le simp: not_le [symmetric] split: if_split_asm)
  then show ?thesis
  proof cases
    case 1
    then show ?thesis by (simp add: balance_taken_def)
  next
    case 2
    then show ?thesis using upd by (auto intro: moved_update_balance [OF 2(2)])
  qed
qed

section \<open>The operations of a task\<close>

text \<open>What an operation takes from the payer: only a capture takes something.\<close>

definition charge_of :: "billing_env \<Rightarrow> task_operation \<Rightarrow> TaskFundsCommand \<Rightarrow> rat" where
  "charge_of env operation cmd =
     (case operation of
        TaskCapture \<Rightarrow>
          (case PlanTaskCapture cmd of
             Inl _ \<Rightarrow> 0 | Inr plan \<Rightarrow> balance_taken env (cp_BalanceHoldAmount plan) (cp_BalanceAmountUSD plan))
      | _ \<Rightarrow> 0)"

lemma then_do_Inr: "then_do x f = (Inr b, db') \<longleftrightarrow> (\<exists>a db1. x = (Inr a, db1) \<and> f a db1 = (Inr b, db'))"
  by (cases x) (auto simp: then_do_def split: sum.split)

lemma then_case_Inr:
  "(case x of Inl e \<Rightarrow> (Inl e, db) | Inr y \<Rightarrow> f y) = (Inr b, db') \<longleftrightarrow> (\<exists>y. x = Inr y \<and> f y = (Inr b, db'))"
  "(if refused then (Inl e, db) else r) = (Inr b, db') \<longleftrightarrow> \<not> refused \<and> r = (Inr b, db')"
  by (auto split: sum.split)

lemmas runs_to = then_do_Inr then_case_Inr

lemma quiet_result: "quiet db (snd x) \<Longrightarrow> x = (a, db') \<Longrightarrow> quiet db db'"
  by simp

lemma reserve_operation_moved:
  assumes run: "reserveUsageBillingTaskBilling env tasks now cmd db = (Inr res, db')" and dec: "\<And>x. 0 \<le> x \<Longrightarrow> 0 \<le> be_dec env x"
  shows "moved (fc_UserID cmd) 0 db db'"
proof (cases "fc_HoldAmount cmd \<le> 0 \<and> fc_BaseAmountUSD cmd \<le> 0")
  case False
  then obtain remaining paid_amount allocations db1 amount b db2 f u where
      "allocateUsageBillingSubscriptions env now (usage_Normalize env (allocation_command cmd)) db
        = (Inr (remaining, paid_amount, allocations), db1)"
      "reserveUsageBillingTaskBalance env (fc_UserID cmd) amount db1 = (Inr b, db2)" "on_task f db2 = (Inr u, db')"
    using run unfolding reserveUsageBillingTaskBilling_def Let_def
    by (simp only: if_False if_True simp_thms runs_to split_paired_Ex prod.case prod.inject) blast
  then show ?thesis
    by (intro moved_quiet [OF reserve_moved [OF _ dec] quiet_result [OF quiet_allocate] quiet_result [OF quiet_on_task]])
qed (use run in \<open>simp add: reserveUsageBillingTaskBilling_def\<close>)

lemma capture_operation_moved:
  assumes run: "captureUsageBillingTaskBilling env cmd db = (Inr res, db')"
  shows "moved (fc_UserID cmd) (charge_of env TaskCapture cmd) db db'"
  using run unfolding captureUsageBillingTaskBilling_def
  by (auto simp: then_do_Inr Let_def charge_of_def split: if_splits sum.splits
      intro: moved_quiet [OF capture_moved quiet_result [OF quiet_release_allocations] quiet_refl])

lemma release_operation_moved:
  assumes run: "releaseUsageBillingTaskBilling env cmd db = (Inr res, db')"
  shows "moved (fc_UserID cmd) 0 db db'"
  using run unfolding releaseUsageBillingTaskBilling_def
  by (auto simp: then_do_Inr split: if_splits
      intro: moved_quiet [OF release_moved quiet_result [OF quiet_release_allocations] quiet_refl])

lemma apply_operation_moved:
  assumes "apply_operation env tasks now operation cmd db = (Inr res, db')" and "\<And>x. 0 \<le> x \<Longrightarrow> 0 \<le> be_dec env x"
  shows "moved (fc_UserID cmd) (charge_of env operation cmd) db db'"
proof (cases operation)
  case TaskReserve
  then show ?thesis using reserve_operation_moved [OF _ assms(2)] assms(1) by (simp add: apply_operation_def charge_of_def)
next
  case TaskCapture
  then show ?thesis using capture_operation_moved assms(1) by (simp add: apply_operation_def)
next
  case TaskRelease
  then show ?thesis using release_operation_moved assms(1) by (simp add: apply_operation_def charge_of_def)
qed

lemma claim_quiet_users: "claimUsageBillingRequest now i k f db = (r, db') \<Longrightarrow> fd_Users db' = fd_Users db"
  by (auto simp: claimUsageBillingRequest_def Let_def split: option.splits if_splits)

lemma hold_once_moved:
  assumes run: "applyTaskBalanceHoldOnce env tasks skip now operation cmd db = (Inr (Committed a), db')"
    and dec: "\<And>x. 0 \<le> x \<Longrightarrow> 0 \<le> be_dec env x"
  shows "moved (fc_UserID cmd) (charge_of env operation cmd) db db'"
proof -
  obtain db1 db2 result cmd2 db3 where
      "claimUsageBillingRequest now (fc_RequestID cmd) (fc_APIKeyID cmd) (fc_RequestFingerprint cmd) db = (Inr True, db1)"
      "lockUsageBillingUser (fc_UserID cmd) db1 = (Inr (), db2)"
      "apply_operation env tasks now operation cmd db2 = (Inr (result, cmd2), db3)"
      "applyTaskAllowance env tasks skip now cmd2 operation db3 = (Inr (), db')"
    using run unfolding applyTaskBalanceHoldOnce_def by (auto simp: then_do_Inr split: if_split_asm)
  note run = this
  have "moved (fc_UserID cmd) (charge_of env operation cmd) db2 db3" using run(3) dec by (rule apply_operation_moved)
  moreover have "fd_Users db2 = fd_Users db"
    using claim_quiet_users [OF run(1)] quiet_result [OF quiet_lock run(2)] by (simp add: quiet_def)
  moreover have "fd_Users db' = fd_Users db3" using quiet_result [OF quiet_allowance run(4)] by (simp add: quiet_def)
  ultimately show ?thesis by (simp add: moved_def)
qed

text \<open>What every committed transaction does, a retried one does.\<close>

definition commits :: "('p funds_db \<Rightarrow> 'p funds_db \<Rightarrow> bool) \<Rightarrow> ('p funds_db \<Rightarrow> ('a attempt, 'p) funds_result) \<Rightarrow> bool" where
  "commits R body \<longleftrightarrow> (\<forall>db a db'. body db = (Inr (Committed a), db') \<longrightarrow> R db db')"

lemma transact_commits:
  assumes "commits R body"
  shows "snd (transact body db) = db\<lparr>fd_Faults := tl (fd_Faults db)\<rparr> \<or>
    fst (transact body db) \<noteq> Inl FundsDeadlock \<and> R (db\<lparr>fd_Faults := tl (fd_Faults db)\<rparr>) (snd (transact body db))"
  using assms unfolding transact_def Let_def commits_def
  by (auto split: prod.splits sum.splits attempt.splits list.splits funds_fault.splits)

lemma retry_commits:
  assumes "commits R body"
  shows "\<exists>fs. snd (RetryDeadlock n (transact body) db) = db\<lparr>fd_Faults := fs\<rparr> \<or>
    R (db\<lparr>fd_Faults := fs\<rparr>) (snd (RetryDeadlock n (transact body) db))"
proof (induction n arbitrary: db)
  case 0
  show ?case using transact_commits [OF assms, of db] by auto
next
  case (Suc n)
  show ?case
  proof (cases "fst (transact body db) = Inl FundsDeadlock")
    case True
    then obtain db1 where run: "transact body db = (Inl FundsDeadlock, db1)" by (cases "transact body db") auto
    then have "db1 = db\<lparr>fd_Faults := tl (fd_Faults db)\<rparr>" using transact_commits [OF assms, of db] by auto
    then show ?thesis using Suc.IH [of db1] run by simp
  next
    case False
    then have "RetryDeadlock (Suc n) (transact body) db = transact body db"
      by (auto split: prod.split sum.split funds_error.split)
    then show ?thesis using transact_commits [OF assms, of db] by auto
  qed
qed

text \<open>
  C6: Reservations and releases only move a task's money between what its payer has and what is frozen; a capture
  takes the charge of its plan and nothing else, each up to the rounding of the two columns; nobody else's account
  changes, and what is frozen stays non-negative, whatever faults the transactions meet.
\<close>

theorem hold_conserves_money:
  assumes "\<And>x. 0 \<le> x \<Longrightarrow> 0 \<le> be_dec env x"
  shows "moved (fc_UserID cmd) (charge_of env operation (funds_Normalize env cmd)) db
    (snd (funds_operation env scopes skip now operation cmd db))"
proof -
  let ?cmd = "funds_Normalize env cmd"
  have user: "fc_UserID ?cmd = fc_UserID cmd" by (simp add: funds_Normalize_def Let_def)
  have "commits (moved (fc_UserID cmd) (charge_of env operation ?cmd)) (applyTaskBalanceHoldOnce env tasks skip now operation ?cmd)"
    for tasks :: "'a task_projection"
    unfolding commits_def using hold_once_moved [OF _ assms, of tasks skip now operation ?cmd] user by auto
  from retry_commits [OF this]
  have "moved (fc_UserID cmd) (charge_of env operation ?cmd) db
      (snd (RetryDeadlock n (transact (applyTaskBalanceHoldOnce env tasks skip now operation ?cmd)) db))"
    for tasks :: "'a task_projection" and n
    by (metis moved_faults moved_refl)
  then show ?thesis
    by (simp add: funds_operation_def applyTaskBalanceHold_def Let_def split: option.split)
qed

text \<open>A user with five dollars.\<close>

definition sample_funds :: "unit funds_db" where
  "sample_funds = \<lparr>fd_Users = [\<lparr>us_ID = 7, us_Balance = 5, us_Frozen = 0, us_Deleted = False\<rparr>], fd_Subs = [], fd_Plans = [],
     fd_PlanGroups = [], fd_Keys = [\<lparr>ky_ID = 1, ky_Status = ''active'', ky_OwnerDisabled = False, ky_Deleted = False, ky_Quota = 0,
       ky_QuotaUsed = 0, ky_Limit5h = 0, ky_Limit1d = 0, ky_Limit7d = 0, ky_Usage5h = 0, ky_Usage1d = 0, ky_Usage7d = 0,
       ky_Start5h = None, ky_Start1d = None, ky_Start7d = None\<rparr>],
     fd_Members = [], fd_Providers = [], fd_Outbox = [], fd_Dedup = [], fd_Archive = [], fd_Tasks = (), fd_Faults = []\<rparr>"

definition sample_projection :: "unit task_projection" where
  "sample_projection = \<lparr>tp_SaveReservation = (\<lambda>_ _ _ _ _ p. Inr p), tp_SetAllowanceReserved = (\<lambda>_ _ p. Inr p)\<rparr>"

text \<open>One dollar is frozen for the task, all of it from the balance, and half of it is charged.\<close>

definition held_funds :: "unit funds_db" where
  "held_funds = sample_funds\<lparr>fd_Users := [\<lparr>us_ID = 7, us_Balance = 4, us_Frozen = 1, us_Deleted = False\<rparr>],
     fd_Dedup := [\<lparr>dd_RequestID = ''hold'', dd_APIKeyID = 1, dd_Fingerprint = ''f'', dd_CreatedAt = 5\<rparr>]\<rparr>"

definition sample_capture :: TaskFundsCommand where
  "sample_capture = sample_command\<lparr>fc_BalanceHoldAmount := 1, fc_SubscriptionHoldAllocations := [], fc_AllowanceReserved := False,
     fc_ActualAmount := 1 / 2\<rparr>"

lemma hold_conserves_money_witness:
  "let db' = snd (funds_operation sample_env [''img'' \<mapsto> sample_projection] False 5 TaskCapture sample_capture held_funds)
   in moved 7 (1 / 2) held_funds db' \<and> map (\<lambda>u. (us_Balance u, us_Frozen u)) (fd_Users db') = [(9 / 2, 0)]"
proof -
  let ?db = "snd (funds_operation sample_env [''img'' \<mapsto> sample_projection] False 5 TaskCapture sample_capture held_funds)"
  have run: "map (\<lambda>u. (us_Balance u, us_Frozen u)) (fd_Users ?db) = [(9 / 2, 0)]" by code_simp
  have charge: "charge_of sample_env TaskCapture (funds_Normalize sample_env sample_capture) = 1 / 2" by code_simp
  have user: "fc_UserID sample_capture = 7" by (simp add: sample_capture_def sample_command_def)
  have "moved (fc_UserID sample_capture) (charge_of sample_env TaskCapture (funds_Normalize sample_env sample_capture)) held_funds ?db"
    by (rule hold_conserves_money) (simp add: sample_env_def eight_decimals_nonneg)
  then show ?thesis by (simp only: run charge user Let_def simp_thms)
qed

end
