(* ===== verification/Spec2Isabelle.thy ===== *)
theory Spec2Isabelle
  imports Model_Map Idem_Lease Idem_Behaviour Text_Responses Digest_Store Sched_Bucket Sched_Slots Sched_Progress
    Sched_Sessions Sched_Images Kw_Match Wheel Conc_Limits Conc_Refine Conc_Wait
    Rpm Sticky Session_Limit Msg_Lock Worker_Runtime Schema_Accept Schema_Refs Batch_Worker Batch_Reconcile Bill_Capture
    Bill_Limits Funds_Money
begin

text \<open>
  Verification of the core of TokenRouter (\<^verbatim>\<open>src/backend/internal\<close>), a router that accepts requests
  for language models, chooses one of many upstream accounts (providers) for each, forwards it, and
  retries elsewhere when that fails. Below, file names are relative to \<^verbatim>\<open>src/backend/internal\<close>.

  \<^bold>\<open>The program and its model.\<close> A request that changes data passes the idempotency layer, which runs its
  callback and answers repetitions from its record. A request for a model has its text checked against blocked keywords
  and its model name mapped; the scheduler filters and orders the providers, counts requests per
  minute, takes a slot of a provider and of the user in Redis, or waits in a bounded queue, and binds
  sessions to providers; what was taken is held in leases that release it once. The attempt loop
  repeats, switches or gives up. Operations keep the names of the code where Isabelle allows it;
  the fields of a record have those of the struct, with a prefix where two structs share one.

  \<^item> Prelude. \<open>Go_Base\<close> (integers, strings, instants, decimal numbers), \<open>Go_Sort\<close> (sorting and
    shuffling; the locale \<open>weak_less\<close> of comparison functions and the uniqueness of stable sorting),
    \<open>Go_Utf8\<close> (reading UTF-8), \<open>App_Error\<close> (\<^verbatim>\<open>pkg/apperror\<close>: errors with their causes and metadata,
    \<^verbatim>\<open>errors.Is\<close>, categories).
  \<^item> Idempotency. \<open>Idem_Store\<close> (the interface of records, \<^verbatim>\<open>idempotency/postgres/repository.go\<close>;
    the locale \<open>record_store\<close>, interpreted on the PostgreSQL table), \<open>Idem_Lease\<close>
    (\<^verbatim>\<open>postgres/operation_lease.go\<close>), \<open>Idem_Observe\<close> (counters and log lines of
    \<^verbatim>\<open>idempotency_observability.go\<close>), \<open>Idem_Coordinator\<close> (\<^verbatim>\<open>idempotency.go\<close>: \<^verbatim>\<open>Execute\<close> as a machine whose
    steps are its repository calls, so that executions interleave), \<open>Idem_Behaviour\<close> (what callers see).
  \<^item> Model names and content. \<open>Model_Map\<close> (\<^verbatim>\<open>routing/modelmap\<close>), \<open>Kw_Matcher\<close>
    (\<^verbatim>\<open>moderation/keyword_matcher.go\<close>: building and running the automaton) with its correctness in
    \<open>Kw_Words\<close> (words and their suffixes, locale \<open>prefix_closed\<close>), \<open>Kw_Trie\<close>, \<open>Kw_Links\<close>, \<open>Kw_Match\<close>.
  \<^item> Schemas of tools (\<^verbatim>\<open>protocol/bridge/gemini_internal_schema.go\<close>). \<open>Json\<close> (values, objects, recursive code
    that panics or does not return), \<open>Schema\<close> (the cleaning for Gemini), \<open>Schema_Type\<close> (when it returns, and the form
    of its results), \<open>Schema_Accept\<close> (proper schemas become accepted ones), \<open>Schema_Refs\<close> (what references expand to,
    and that a recursive definition never does).
  \<^item> Attempts. \<open>Failover\<close> (\<^verbatim>\<open>gateway/failover/state.go\<close>, \<^verbatim>\<open>budgets.go\<close>: retry budgets and delays),
    \<open>Text_Messages\<close> and \<open>Text_Responses\<close> (\<^verbatim>\<open>gateway/text/messages.go\<close>, \<^verbatim>\<open>responses.go\<close>: the attempt loops
    over the record of their ports), \<open>Digest_Store\<close> (\<^verbatim>\<open>gateway/session/digest_session_store.go\<close>).
  \<^item> Selection. \<open>Sched_Bucket\<close> (\<^verbatim>\<open>scheduler/bucket.go\<close>), \<open>Sched_Select\<close> and \<open>Sched_Order\<close>
    (\<^verbatim>\<open>basic_selection.go\<close>: candidate filters, the pick, orders), \<open>Sched_Slots\<close> (\<^verbatim>\<open>generic_selection.go\<close>:
    trying candidates for a slot).
  \<^item> Leases of one process, as machines of any number of goroutines. \<open>Sched_Lease\<close>, \<open>Sched_Attempt\<close>,
    \<open>Sched_Progress\<close> (\<^verbatim>\<open>scheduler/lease.go\<close>), \<open>Sched_Sessions\<close> (\<^verbatim>\<open>session_attempts.go\<close>),
    \<open>Sched_Images\<close> (\<^verbatim>\<open>image_limiter.go\<close>), \<open>Worker_Runtime\<close> (\<^verbatim>\<open>runtime.go\<close>: background tasks and operations in flight),
    \<open>Wheel\<close> (\<^verbatim>\<open>infra/timingwheel/wheel.go\<close>).
  \<^item> State shared by processes through Redis (\<^verbatim>\<open>scheduler/rediscache\<close>). \<open>Redis\<close> (the commands, requests
    that can be lost, programs of requests; locale \<open>program_logic\<close>) and \<open>Redis_Quiet\<close> (counters nobody
    else touches; a second interpretation of that logic); \<open>Conc_Scripts\<close>, \<open>Conc_Cache\<close>, \<open>Conc_Upkeep\<close>
    (\<^verbatim>\<open>concurrency_cache.go\<close>: the Lua scripts, the operations, the upkeep), \<open>Conc_Bound\<close>, \<open>Conc_Limits\<close>,
    \<open>Conc_Refine\<close> (their properties), \<open>Conc_Wait\<close> (\<^verbatim>\<open>scheduler/wait.go\<close>), \<open>Rpm\<close> (\<^verbatim>\<open>rpm_admission.go\<close>,
    \<^verbatim>\<open>provider_rpm.go\<close>, \<^verbatim>\<open>policy/rpm.go\<close> and their caches), \<open>Sticky\<close> (\<^verbatim>\<open>sticky.go\<close>), \<open>Session_Limit\<close>
    (\<^verbatim>\<open>session_limit.go\<close>), \<open>Msg_Lock\<close> (\<^verbatim>\<open>user_msg_queue_cache.go\<close>, \<^verbatim>\<open>bucket_lock.go\<close>).
  \<^item> Batches of images (\<^verbatim>\<open>batchimage\<close>). \<open>Batch_Queue\<close> (\<^verbatim>\<open>rediscache/queue.go\<close>: the queue of jobs and their locks),
    \<open>Batch_Tracked\<close>, \<open>Batch_Lock\<close> (its properties), \<open>Batch_Worker\<close> (\<^verbatim>\<open>worker.go\<close>: turns, heartbeats,
    recovery); \<open>Go_Float\<close> (arithmetic of \<^verbatim>\<open>float64\<close>), \<open>Batch_Job\<close> (\<^verbatim>\<open>job.go\<close>: states and rows), \<open>Batch_Store\<close>
    (\<^verbatim>\<open>postgres/job.go\<close>: every operation of the repository), \<open>Batch_History\<close> (sequences of them),
    \<open>Batch_Index\<close> (\<^verbatim>\<open>processor.go\<close>: parsing and storing the results), \<open>Batch_Reconcile\<close> (what is stored).
  \<^item> Funds (\<^verbatim>\<open>billing\<close>). \<open>Bill_Rules\<close> (\<^verbatim>\<open>settlement.go\<close>, \<^verbatim>\<open>subscription_allocation.go\<close>: commands and their fingerprints,
    spreading an amount over subscriptions, from the hold of a task to its charge), \<open>Bill_Capture\<close>, \<open>Bill_Limits\<close> (their
    properties); \<open>Funds_Store\<close>, \<open>Funds_Task\<close> (\<^verbatim>\<open>postgres/settlement.go\<close>, \<^verbatim>\<open>postgres/usage_dedup_retention.go\<close>: the tables,
    the claims and their archive, transactions that are lost, unanswered or deadlocked, balances, quotas, and the
    operations on them), \<open>Funds_Once\<close>, \<open>Funds_Money\<close> (histories of them). \<open>Bill_Sample\<close> has the concrete setting
    of the examples.

  \<^bold>\<open>What the theorems show.\<close>
  \<^item> Safety under interleaving: slots in use never exceed a limit, and with live leases by one at most; nor do sessions; a user is admitted
    at most as often per minute as allowed; leases are released exactly once and in reverse order; a
    cancelled wheel task is silent; a taken-over operation lease fences its former owner; an
    execution with an idempotency key runs its callback at most once, and after a success a repeated request gets the
    stored response as long as its record lives; the lock of a message queue is exclusive; a queue counter covers its waiting requests;
    a job of the batch queue is never lost and only the holder of its lock acts on it; a finished job is final;
    a request is charged at most once, whatever happens to its transactions and to the table of claims.
  \<^item> Money: holding and releasing keep what a user has, a capture takes its charge only, which stays within the hold;
    spreading over subscriptions stays within their limits.
  \<^item> Refinement: the slot scripts, with their lazily trimmed sorted sets, implement a table of slots
    that lapse; the sharded table of session attempts implements sets of failed providers; the repository
    of batch jobs implements their state machine, but for one call.
  \<^item> Functional correctness against a direct specification: the automaton finds the first configured
    keyword a text contains; model resolution does not depend on the order of a map; the pick and the
    order of candidates are the best ones; the longest matching digest chain is found; the stored results of
    a batch are those of the submitted items.
  \<^item> Types: a proper schema of draft 2020-12 is cleaned into one of the subset of Gemini. Others are cleaned in part: an
    object without any keyword that the code looks for passes as it is.
  \<^item> Termination: the attempt loops return, with the number of turns that suffices for ports that choose from finitely many
    providers, limit repetitions and, for responses, change the group a bounded number of times; releasing never
    deadlocks when ownership has no cycle; references without a circle are expanded to what they stand for; a runtime
    that stopped without an error runs nothing any more.
  \<^item> Round trips and bounds of keys, log lines, \<^verbatim>\<open>Retry-After\<close>, bucket names, truncated responses.

  \<^bold>\<open>Choices.\<close>
  \<^item> Strings are byte lists; \<^verbatim>\<open>int\<close> and \<^verbatim>\<open>int64\<close> are \<open>int\<close>, wrapped by \<open>wrap64\<close> where the range can be left
    (counters of metrics are words); instants and durations count nanoseconds, the clock of Redis
    milliseconds; Redis scores are integers, which the code only stores below \<open>2 ^ 53\<close>.
  \<^item> \<^verbatim>\<open>float64\<close> is a rational number that every operation rounds to 53 bits; a numeric column is a rational
    number rounded to its scale when stored.
  \<^item> Errors are the left values of a sum, or \<open>None\<close> where the code distinguishes only success.
  \<^item> A statement to PostgreSQL and a request to Redis consume one event of an oracle: it works, it is lost,
    or it works without an answer; to Redis also what others did before, and how long it took.
  \<^item> Code that is not in the repository is a parameter: hashes, JSON encoders, \<^verbatim>\<open>strings.ToLower\<close>, the cache
    of digest sessions (its laws are \<open>cache_laws\<close>), the library wheel (nothing is assumed of it), decimals and calendars
    (the record \<open>billing_env\<close>).
  \<^item> A loop that may run forever takes fuel and returns \<open>None\<close> without enough of it: one unit per turn of an
    attempt loop (\<open>messages_terminate\<close>, \<open>responses_terminate\<close> give the number that suffices), the number
    of edges or nodes in the automaton (\<open>Kw_Trie\<close>, \<open>Kw_Links\<close>, \<open>Kw_Match\<close> show that it suffices), the
    size of the value for the cleaning of schemas (\<open>cleaning_returns\<close>).
  \<^item> Map iteration and \<^verbatim>\<open>rand.Shuffle\<close> are an order that is given; the theorems hold for every order.

  \<^bold>\<open>Not modelled.\<close> Scores of candidates and delays that follow the load (floating point, random); the
  polling loops and snapshots of the scheduler (\<^verbatim>\<open>concurrency.go\<close>, \<^verbatim>\<open>wait_loop.go\<close>, \<^verbatim>\<open>snapshot.go\<close>); selection for single platforms; the HTTP, WebSocket and streaming layers of the gateway
  and the translation between wire formats; clients of upstream services; prices, the life of subscriptions,
  payment, accounts, the API and downloads of batches, and administration, which are SQL and third-party calls; generated data
  access (\<^verbatim>\<open>ent\<close>); log output, apart from the audit and metric lines of the idempotency layer.
\<close>

end
